(* ===== verification/Prelude.thy ===== *)
theory Prelude
  imports Complex_Main "HOL-Library.AList"
begin

text \<open>
  Shared vocabulary of the oc-slimapi development.

  \<^item> Python dictionaries (\<^verbatim>\<open>dict\<close>, \<^verbatim>\<open>collections.OrderedDict\<close>) as association lists in
    insertion order: assignment to a present key keeps its position, assignment to a new key
    appends, \<^verbatim>\<open>move_to_end\<close> and \<^verbatim>\<open>popitem(last=False)\<close> work on the two ends.
  \<^item> Python strings as \<^typ>\<open>string\<close>, that is the strings whose code points are below 256;
    \<^verbatim>\<open>split\<close>, \<^verbatim>\<open>join\<close>, \<^verbatim>\<open>rstrip\<close>, decimal rendering and \<^verbatim>\<open>int()\<close> of digit strings,
    the UTF-8 length of a string.
  \<^item> Two interface locales for components that are driven by sequences of operations:
    \<open>simulation\<close> (a concrete step function against an abstract one) and \<open>invariant_system\<close>
    (a state predicate kept by every permitted step), with their lifting to whole runs.
\<close>

named_theorems dict_simps \<open>rewriting dictionary operations to lookups and key lists\<close>
named_theorems str_simps \<open>evaluation of the string helpers\<close>

section \<open>Insertion-ordered dictionaries\<close>

type_synonym ('k, 'v) dict = "('k \<times> 'v) list"

definition dict_get :: "('k, 'v) dict \<Rightarrow> 'k \<Rightarrow> 'v option" where
  "dict_get d k = map_of d k"

definition dict_has :: "('k, 'v) dict \<Rightarrow> 'k \<Rightarrow> bool" where
  "dict_has d k \<longleftrightarrow> map_of d k \<noteq> None"

definition dict_get_or :: "('k, 'v) dict \<Rightarrow> 'k \<Rightarrow> 'v \<Rightarrow> 'v" where
  "dict_get_or d k v = (case map_of d k of None \<Rightarrow> v | Some w \<Rightarrow> w)"

definition dict_set :: "'k \<Rightarrow> 'v \<Rightarrow> ('k, 'v) dict \<Rightarrow> ('k, 'v) dict" where
  "dict_set k v d = AList.update k v d"

definition dict_pop :: "'k \<Rightarrow> ('k, 'v) dict \<Rightarrow> ('k, 'v) dict" where
  "dict_pop k d = filter (\<lambda>p. fst p \<noteq> k) d"

definition dict_keys :: "('k, 'v) dict \<Rightarrow> 'k list" where
  "dict_keys d = map fst d"

definition dict_wf :: "('k, 'v) dict \<Rightarrow> bool" where
  "dict_wf d \<longleftrightarrow> distinct (map fst d)"

definition dict_move_to_end :: "'k \<Rightarrow> ('k, 'v) dict \<Rightarrow> ('k, 'v) dict" where
  "dict_move_to_end k d =
     (case map_of d k of None \<Rightarrow> d | Some v \<Rightarrow> dict_pop k d @ [(k, v)])"

text \<open>\<^verbatim>\<open>while len(d) > n: d.popitem(last=False)\<close>\<close>

fun dict_cap :: "nat \<Rightarrow> ('k, 'v) dict \<Rightarrow> ('k, 'v) dict" where
  "dict_cap n [] = []"
| "dict_cap n (p # ps) = (if n < length (p # ps) then dict_cap n ps else p # ps)"

text \<open>\<open>[k for k in d if P(k)]\<close> popped one by one.\<close>

definition dict_drop_keys :: "('k \<Rightarrow> bool) \<Rightarrow> ('k, 'v) dict \<Rightarrow> ('k, 'v) dict" where
  "dict_drop_keys P d = filter (\<lambda>p. \<not> P (fst p)) d"

definition dict_sum :: "('v \<Rightarrow> int) \<Rightarrow> ('k, 'v) dict \<Rightarrow> int" where
  "dict_sum f d = sum_list (map (\<lambda>p. f (snd p)) d)"

text \<open>\<^verbatim>\<open>Counter[k] += 1\<close>\<close>

definition counter_inc :: "'k \<Rightarrow> ('k, int) dict \<Rightarrow> ('k, int) dict" where
  "counter_inc k d = dict_set k (dict_get_or d k 0 + 1) d"

section \<open>Strings\<close>

text \<open>\<^verbatim>\<open>s.split(c)\<close> for a one-character separator\<close>

fun split_on :: "char \<Rightarrow> string \<Rightarrow> string list" where
  "split_on c [] = [[]]"
| "split_on c (x # xs) =
     (if x = c then [] # split_on c xs
      else (case split_on c xs of [] \<Rightarrow> [[x]] | y # ys \<Rightarrow> (x # y) # ys))"

text \<open>\<^verbatim>\<open>c.join(parts)\<close>\<close>

fun join_with :: "char \<Rightarrow> string list \<Rightarrow> string" where
  "join_with c [] = []"
| "join_with c [s] = s"
| "join_with c (s # ss) = s @ c # join_with c ss"

definition rstrip :: "char \<Rightarrow> string \<Rightarrow> string" where
  "rstrip c s = rev (dropWhile (\<lambda>x. x = c) (rev s))"

definition starts_with :: "string \<Rightarrow> string \<Rightarrow> bool" where
  "starts_with p s \<longleftrightarrow> take (length p) s = p"

definition code_point :: "char \<Rightarrow> nat" where
  "code_point c = of_char c"

definition is_ascii :: "string \<Rightarrow> bool" where
  "is_ascii s \<longleftrightarrow> list_all (\<lambda>c. code_point c < 128) s"

text \<open>\<^verbatim>\<open>len(s.encode("utf-8"))\<close>: code points below 128 take one byte, those below 2048 two.\<close>

definition utf8_len :: "string \<Rightarrow> nat" where
  "utf8_len s = sum_list (map (\<lambda>c. if code_point c < 128 then 1 else 2) s)"

definition newline :: char where
  "newline = char_of (10::nat)"

definition is_digit :: "char \<Rightarrow> bool" where
  "is_digit c \<longleftrightarrow> 48 \<le> code_point c \<and> code_point c \<le> 57"

definition is_lower_hex :: "char \<Rightarrow> bool" where
  "is_lower_hex c \<longleftrightarrow> is_digit c \<or> 97 \<le> code_point c \<and> code_point c \<le> 102"

text \<open>
  A pattern \<^verbatim>\<open>^X$\<close> used with \<^verbatim>\<open>re.match\<close>: the dollar also matches just before one final
  newline, so the subject is the body or the body followed by a newline.
\<close>

definition dollar_body :: "string \<Rightarrow> string" where
  "dollar_body s = (if s \<noteq> [] \<and> last s = newline then butlast s else s)"

definition digit_char :: "nat \<Rightarrow> char" where
  "digit_char n = char_of (48 + n)"

text \<open>\<^verbatim>\<open>f"{n}"\<close> of a non-negative integer\<close>

fun show_nat :: "nat \<Rightarrow> string" where
  "show_nat n = (if n < 10 then [digit_char n] else show_nat (n div 10) @ [digit_char (n mod 10)])"

declare show_nat.simps [simp del]

definition show_int :: "int \<Rightarrow> string" where
  "show_int i = (if i < 0 then CHR ''-'' # show_nat (nat (- i)) else show_nat (nat i))"

text \<open>\<^verbatim>\<open>int(s)\<close> of a string of decimal digits\<close>

definition digits_val :: "string \<Rightarrow> nat" where
  "digits_val s = foldl (\<lambda>a c. 10 * a + (code_point c - 48)) 0 s"

section \<open>Runs of operations\<close>

fun ok_run :: "('o \<Rightarrow> 's \<Rightarrow> 's) \<Rightarrow> ('o \<Rightarrow> 's \<Rightarrow> bool) \<Rightarrow> 'o list \<Rightarrow> 's \<Rightarrow> bool" where
  "ok_run step ok [] s = True"
| "ok_run step ok (x # xs) s = (ok x s \<and> ok_run step ok xs (step x s))"

section \<open>Lemmas on dictionaries\<close>

lemma dict_get_set [simp]: "dict_get (dict_set k v d) k' = (if k' = k then Some v else dict_get d k')"
  by (simp add: dict_get_def dict_set_def AList.update_conv')

lemma dict_set_set [simp]: "dict_set k v (dict_set k w d) = dict_set k v d"
  by (simp add: dict_set_def)

lemma dict_set_get_same: "dict_get d k = Some v \<Longrightarrow> dict_set k v d = d"
  by (simp add: dict_set_def dict_get_def AList.update_triv)

lemma dict_get_Nil [simp]: "dict_get [] k = None"
  by (simp add: dict_get_def)

lemma map_of_filter_key: "map_of (filter (\<lambda>p. P (fst p)) d) k = (if P k then map_of d k else None)"
  by (induction d) auto

lemma dict_get_pop [simp]: "dict_get (dict_pop k d) k' = (if k' = k then None else dict_get d k')"
  by (simp add: dict_get_def dict_pop_def map_of_filter_key [where P = "\<lambda>x. x \<noteq> k"])

lemma dict_get_drop_keys [simp]:
  "dict_get (dict_drop_keys P d) k = (if P k then None else dict_get d k)"
  by (simp add: dict_get_def dict_drop_keys_def map_of_filter_key [where P = "\<lambda>x. \<not> P x"])

lemma dict_has_get: "dict_has d k \<longleftrightarrow> dict_get d k \<noteq> None"
  by (simp add: dict_has_def dict_get_def)

lemma dict_has_keys: "dict_has d k \<longleftrightarrow> k \<in> set (map fst d)"
  by (induction d) (auto simp: dict_has_def)

lemma dict_get_or_get: "dict_get_or d k v = (case dict_get d k of None \<Rightarrow> v | Some w \<Rightarrow> w)"
  by (simp add: dict_get_or_def dict_get_def)

lemma dict_get_in_set: "dict_get d k = Some v \<Longrightarrow> (k, v) \<in> set d"
  by (simp add: dict_get_def map_of_SomeD)

lemma dict_in_set_get: "dict_wf d \<Longrightarrow> (k, v) \<in> set d \<Longrightarrow> dict_get d k = Some v"
  by (simp add: dict_get_def dict_wf_def)

lemma dict_keys_set:
  "map fst (dict_set k v d) = (if k \<in> set (map fst d) then map fst d else map fst d @ [k])"
  by (simp add: dict_set_def AList.update_keys)

lemma dict_wf_Nil [simp]: "dict_wf []"
  by (simp add: dict_wf_def)

lemma dict_wf_set [simp]: "dict_wf d \<Longrightarrow> dict_wf (dict_set k v d)"
  by (simp add: dict_wf_def dict_keys_set)

lemma distinct_map_filter_key: "distinct (map fst d) \<Longrightarrow> distinct (map fst (filter P d))"
  by (induction d) auto

lemma dict_wf_pop [simp]: "dict_wf d \<Longrightarrow> dict_wf (dict_pop k d)"
  by (simp add: dict_wf_def dict_pop_def distinct_map_filter_key)

lemma dict_wf_drop_keys [simp]: "dict_wf d \<Longrightarrow> dict_wf (dict_drop_keys P d)"
  by (simp add: dict_wf_def dict_drop_keys_def distinct_map_filter_key)

lemma dict_wf_move [simp]: "dict_wf d \<Longrightarrow> dict_wf (dict_move_to_end k d)"
  by (auto simp: dict_wf_def dict_move_to_end_def dict_pop_def distinct_map_filter_key
      split: option.splits)

lemma dict_get_move [simp]: "dict_get (dict_move_to_end k d) k' = dict_get d k'"
proof (cases "map_of d k")
  case (Some v)
  have "map_of (filter (\<lambda>p. fst p \<noteq> k) d) k' = (if k' = k then None else map_of d k')"
    by (simp add: map_of_filter_key [where P = "\<lambda>x. x \<noteq> k"])
  with Some show ?thesis
    by (auto simp: dict_get_def dict_move_to_end_def dict_pop_def map_add_def split: option.splits)
qed (simp add: dict_move_to_end_def)

lemma dict_cap_drop: "dict_cap n d = drop (length d - n) d"
proof (induction d)
  case (Cons p ps)
  then show ?case
    by (cases "n < length (p # ps)") (auto simp: Suc_diff_le)
qed simp

lemma length_dict_cap: "length (dict_cap n d) = min n (length d)"
  by (simp add: dict_cap_drop)

lemma distinct_map_drop: "distinct (map f xs) \<Longrightarrow> distinct (map f (drop n xs))"
  by (simp add: distinct_drop flip: drop_map)

lemma dict_wf_cap [simp]: "dict_wf d \<Longrightarrow> dict_wf (dict_cap n d)"
  by (simp add: dict_wf_def dict_cap_drop distinct_map_drop)

lemma length_dict_set: "length (dict_set k v d) = (if dict_has d k then length d else Suc (length d))"
proof -
  have "length (map fst (dict_set k v d)) = (if dict_has d k then length d else Suc (length d))"
    by (simp add: dict_keys_set dict_has_keys)
  then show ?thesis by simp
qed

lemma dict_sum_Nil [simp]: "dict_sum f [] = 0"
  by (simp add: dict_sum_def)

lemma dict_sum_Cons [simp]: "dict_sum f (p # d) = f (snd p) + dict_sum f d"
  by (simp add: dict_sum_def)

lemma dict_sum_append [simp]: "dict_sum f (d @ e) = dict_sum f d + dict_sum f e"
  by (simp add: dict_sum_def)

lemma dict_sum_set:
  "dict_sum f (dict_set k v d) =
     (case dict_get d k of None \<Rightarrow> dict_sum f d + f v | Some w \<Rightarrow> dict_sum f d - f w + f v)"
  by (induction d) (auto simp: dict_set_def dict_get_def split: option.splits)

lemma dict_pop_fresh: "k \<notin> set (map fst d) \<Longrightarrow> dict_pop k d = d"
  by (induction d) (auto simp: dict_pop_def)

lemma dict_sum_pop:
  "dict_wf d \<Longrightarrow>
   dict_sum f (dict_pop k d) =
     (case dict_get d k of None \<Rightarrow> dict_sum f d | Some w \<Rightarrow> dict_sum f d - f w)"
proof (induction d)
  case (Cons p d)
  show ?case
  proof (cases "fst p = k")
    case True
    with Cons.prems have "k \<notin> set (map fst d)" by (auto simp: dict_wf_def)
    with True show ?thesis
      using dict_pop_fresh [of k d] by (auto simp: dict_pop_def dict_get_def)
  next
    case False
    with Cons show ?thesis
      by (auto simp: dict_pop_def dict_get_def dict_wf_def split: option.splits)
  qed
qed (simp add: dict_pop_def)

lemma dict_sum_nonneg: "(\<And>v. 0 \<le> f v) \<Longrightarrow> 0 \<le> dict_sum f d"
  by (induction d) auto

lemma dict_sum_zero: "(\<And>p. p \<in> set d \<Longrightarrow> f (snd p) = 0) \<Longrightarrow> dict_sum f d = 0"
  by (induction d) auto

lemma dict_sum_ge:
  assumes "\<And>v. 0 \<le> f v" and "dict_get d k = Some w"
  shows "f w \<le> dict_sum f d"
  using assms(2)
proof (induction d)
  case (Cons p d)
  have "0 \<le> dict_sum f d" using assms(1) by (rule dict_sum_nonneg)
  with Cons show ?case
    using assms(1) [of "snd p"] by (auto simp: dict_get_def split: if_splits)
qed simp

section \<open>Lemmas on strings\<close>

lemma starts_with_append [simp]: "starts_with p (p @ s)"
  by (simp add: starts_with_def)

lemma split_on_neq_Nil [simp]: "split_on c s \<noteq> []"
  by (induction s) (auto split: list.splits)

lemma join_split [simp]: "join_with c (split_on c s) = s"
proof (induction s)
  case (Cons x s)
  obtain y ys where sp: "split_on c s = y # ys" by (cases "split_on c s") auto
  with Cons show ?case by (cases ys) auto
qed simp

lemma split_on_no_sep: "c \<notin> set s \<Longrightarrow> split_on c s = [s]"
  by (induction s) auto

lemma split_on_append_sep: "split_on c (a @ c # b) = split_on c a @ split_on c b"
proof (induction a)
  case (Cons x a)
  obtain y ys where "split_on c a = y # ys" by (cases "split_on c a") auto
  with Cons show ?case by auto
qed simp

lemma split_join_parts: "ps \<noteq> [] \<Longrightarrow> list_all (\<lambda>p. c \<notin> set p) ps \<Longrightarrow> split_on c (join_with c ps) = ps"
proof (induction ps rule: list_nonempty_induct)
  case (single p)
  then show ?case by (simp add: split_on_no_sep)
next
  case (cons p ps)
  then obtain q qs where "ps = q # qs" by (cases ps) auto
  with cons show ?case by (simp add: split_on_append_sep split_on_no_sep)
qed

lemma split_on_parts: "p \<in> set (split_on c s) \<Longrightarrow> c \<notin> set p"
proof (induction s arbitrary: p)
  case (Cons x s)
  obtain y ys where "split_on c s = y # ys" by (cases "split_on c s") auto
  with Cons show ?case by (auto split: if_splits)
qed simp

lemma code_point_char_of [simp]: "n < 256 \<Longrightarrow> code_point (char_of n) = n"
  by (simp add: code_point_def)

lemma code_point_inject: "code_point a = code_point b \<longleftrightarrow> a = b"
  by (simp add: code_point_def)

lemma digit_char_point [simp]: "n < 10 \<Longrightarrow> code_point (digit_char n) = 48 + n"
  by (simp add: digit_char_def)

lemma is_digit_digit_char [simp]: "n < 10 \<Longrightarrow> is_digit (digit_char n)"
  by (simp add: is_digit_def)

lemma show_nat_digits: "list_all is_digit (show_nat n)"
proof (induction n rule: show_nat.induct)
  case (1 n)
  then show ?case by (subst show_nat.simps) simp
qed

lemma show_nat_neq_Nil [simp]: "show_nat n \<noteq> []"
  by (subst show_nat.simps) simp

lemma digits_val_snoc: "digits_val (s @ [c]) = 10 * digits_val s + (code_point c - 48)"
  by (simp add: digits_val_def)

lemma digits_val_show_nat [simp]: "digits_val (show_nat n) = n"
proof (induction n rule: show_nat.induct)
  case (1 n)
  show ?case
  proof (cases "n < 10")
    case True
    then show ?thesis by (subst show_nat.simps) (simp add: digits_val_def)
  next
    case False
    with 1 show ?thesis by (subst show_nat.simps) (simp add: digits_val_snoc)
  qed
qed

lemma length_show_nat: "0 < k \<Longrightarrow> n < 10 ^ k \<Longrightarrow> length (show_nat n) \<le> k"
proof (induction n arbitrary: k rule: show_nat.induct)
  case (1 n)
  show ?case
  proof (cases "n < 10")
    case True
    with "1.prems" show ?thesis by (subst show_nat.simps) simp
  next
    case False
    from "1.prems" obtain j where k: "k = Suc j" by (cases k) auto
    with "1.prems" False have "0 < j" by (cases j) auto
    with "1.prems" k have "n div 10 < 10 ^ j" by (simp add: less_mult_imp_div_less mult.commute)
    with "1.IH" False \<open>0 < j\<close> have "length (show_nat (n div 10)) \<le> j" by simp
    with False k show ?thesis by (subst show_nat.simps) simp
  qed
qed

lemma newline_point [simp]: "code_point newline = 10"
  by (simp add: newline_def)

lemma digit_not_newline: "is_digit c \<Longrightarrow> c \<noteq> newline"
  by (auto simp: is_digit_def)

lemma dollar_body_last: "last s \<noteq> newline \<Longrightarrow> dollar_body s = s"
  by (simp add: dollar_body_def)

lemma show_nat_last_not_newline: "last (show_nat n) \<noteq> newline"
proof -
  have "is_digit (last (show_nat n))"
    using show_nat_digits [of n] by (simp add: list_all_iff)
  then show ?thesis by (rule digit_not_newline)
qed

lemma is_ascii_append [simp]: "is_ascii (a @ b) \<longleftrightarrow> is_ascii a \<and> is_ascii b"
  by (simp add: is_ascii_def)

lemma utf8_len_append [simp]: "utf8_len (a @ b) = utf8_len a + utf8_len b"
  by (simp add: utf8_len_def)

lemma utf8_len_eq_0 [simp]: "utf8_len s = 0 \<longleftrightarrow> s = []"
  by (cases s) (auto simp: utf8_len_def)

lemma utf8_len_concat: "utf8_len (concat ss) = sum_list (map utf8_len ss)"
  by (induction ss) (auto simp: utf8_len_def)

section \<open>Interfaces for sequences of operations\<close>

locale simulation =
  fixes cstep :: "'o \<Rightarrow> 'c \<Rightarrow> 'c"
    and astep :: "'o \<Rightarrow> 'a \<Rightarrow> 'a"
    and ok :: "'o \<Rightarrow> 'c \<Rightarrow> bool"
    and rel :: "'c \<Rightarrow> 'a \<Rightarrow> bool"
  assumes sim_step: "rel c a \<Longrightarrow> ok x c \<Longrightarrow> rel (cstep x c) (astep x a)"
begin

lemma sim_run: "rel c a \<Longrightarrow> ok_run cstep ok xs c \<Longrightarrow> rel (fold cstep xs c) (fold astep xs a)"
proof (induction xs arbitrary: c a)
  case (Cons x xs)
  then show ?case by (simp add: sim_step)
qed simp

end

locale invariant_system =
  fixes step :: "'o \<Rightarrow> 's \<Rightarrow> 's"
    and ok :: "'o \<Rightarrow> 's \<Rightarrow> bool"
    and inv :: "'s \<Rightarrow> bool"
  assumes inv_step: "inv s \<Longrightarrow> ok x s \<Longrightarrow> inv (step x s)"

sublocale invariant_system \<subseteq> sim: simulation step "\<lambda>_ u. u" ok "\<lambda>s (u::unit). inv s"
  by unfold_locales (rule inv_step)

context invariant_system
begin

lemma inv_run: "inv s \<Longrightarrow> ok_run step ok xs s \<Longrightarrow> inv (fold step xs s)"
  by (rule sim.sim_run)

end

lemma ok_run_append:
  "ok_run step ok (xs @ ys) s \<longleftrightarrow> ok_run step ok xs s \<and> ok_run step ok ys (fold step xs s)"
  by (induction xs arbitrary: s) auto

lemmas dict_defs = dict_get_def dict_has_def dict_get_or_def dict_set_def dict_pop_def
  dict_keys_def dict_move_to_end_def dict_drop_keys_def counter_inc_def

lemma dict_sum_cong: "(\<And>p. p \<in> set d \<Longrightarrow> f (snd p) = g (snd p)) \<Longrightarrow> dict_sum f d = dict_sum g d"
  by (induction d) auto

lemma takeWhile_short: "x \<in> set xs \<Longrightarrow> \<not> P x \<Longrightarrow> length (takeWhile P xs) < length xs"
  by (induction xs) auto

lemma drop_last_single: "xs \<noteq> [] \<Longrightarrow> drop (length xs - 1) xs = [last xs]"
  by (induction xs rule: rev_induct) auto

lemma digits_val_bound: "list_all is_digit s \<Longrightarrow> digits_val s < 10 ^ length s"
proof (induction s rule: rev_induct)
  case (snoc c s)
  then have "digits_val s < 10 ^ length s" "code_point c - 48 < 10" by (auto simp: is_digit_def)
  then show ?case by (simp add: digits_val_snoc)
qed (simp add: digits_val_def)

section \<open>Parsing integers\<close>

text \<open>
  \<^verbatim>\<open>str.strip()\<close> and \<^verbatim>\<open>int(s)\<close> on characters up to code point 255: surrounding white space, an
  optional sign, decimal digits with single underscores between them. \<open>None\<close> is the \<open>ValueError\<close>; it
  is also raised when there are more digits than the interpreter's limit
  (\<^verbatim>\<open>sys.get_int_max_str_digits()\<close>, 4300 by default; leading zeros count, underscores and the sign do
  not). The same limit holds for \<^verbatim>\<open>str(n)\<close> and \<^verbatim>\<open>f"{n}"\<close>.
\<close>

definition INT_MAX_STR_DIGITS :: nat where
  "INT_MAX_STR_DIGITS = 4300"

definition py_str_int :: "int \<Rightarrow> string option" where
  "py_str_int i = (if length (show_nat (nat \<bar>i\<bar>)) \<le> INT_MAX_STR_DIGITS then Some (show_int i) else None)"

definition is_py_space :: "char \<Rightarrow> bool" where
  "is_py_space c \<longleftrightarrow> (let n = code_point c in
     9 \<le> n \<and> n \<le> 13 \<or> 28 \<le> n \<and> n \<le> 32 \<or> n = 133 \<or> n = 160)"

definition py_strip :: "string \<Rightarrow> string" where
  "py_strip s = rev (dropWhile is_py_space (rev (dropWhile is_py_space s)))"

definition py_digits :: "string \<Rightarrow> nat option" where
  "py_digits s =
     (let parts = split_on (CHR ''_'') s
      in if list_all (\<lambda>p. p \<noteq> [] \<and> list_all is_digit p) parts \<and> length (concat parts) \<le> INT_MAX_STR_DIGITS
         then Some (digits_val (concat parts))
         else None)"

definition py_int :: "string \<Rightarrow> int option" where
  "py_int s =
     (case py_strip s of
        [] \<Rightarrow> None
      | c # r \<Rightarrow>
          if c = CHR ''-'' then map_option (\<lambda>n. - int n) (py_digits r)
          else if c = CHR ''+'' then map_option int (py_digits r)
          else map_option int (py_digits (c # r)))"

lemma digit_not_space: "is_digit c \<Longrightarrow> \<not> is_py_space c"
  by (auto simp: is_digit_def is_py_space_def Let_def)

lemma dropWhile_last: "s \<noteq> [] \<Longrightarrow> \<not> P (last s) \<Longrightarrow> rev (dropWhile P (rev s)) = s"
  by (cases s rule: rev_cases) auto

lemma py_strip_digits:
  assumes "s \<noteq> []" and "list_all is_digit s"
  shows "py_strip (s @ [newline]) = s"
proof -
  have hd: "\<not> is_py_space (hd s)" and last: "\<not> is_py_space (last s)"
    using assms by (auto simp: list_all_iff intro!: digit_not_space)
  have "dropWhile is_py_space (s @ [newline]) = s @ [newline]"
    using assms(1) hd by (cases s) auto
  moreover have "is_py_space newline" by (simp add: is_py_space_def)
  ultimately show ?thesis using dropWhile_last [of s is_py_space] assms(1) last by (simp add: py_strip_def)
qed

lemma INT_MAX_STR_DIGITS_pos [simp]: "0 < INT_MAX_STR_DIGITS"
  by (simp add: INT_MAX_STR_DIGITS_def)

lemma length_show_nat_iff: "0 < k \<Longrightarrow> length (show_nat n) \<le> k \<longleftrightarrow> n < 10 ^ k"
proof
  assume "length (show_nat n) \<le> k"
  then have "(10::nat) ^ length (show_nat n) \<le> 10 ^ k" by (simp add: power_increasing)
  with digits_val_bound[OF show_nat_digits, of n] show "n < 10 ^ k" unfolding digits_val_show_nat by (rule less_le_trans)
qed (rule length_show_nat)

lemma py_str_int_eq:
  assumes "0 \<le> i"
  shows "py_str_int i = (if i < 10 ^ INT_MAX_STR_DIGITS then Some (show_nat (nat i)) else None)"
proof -
  have "nat i < 10 ^ INT_MAX_STR_DIGITS \<longleftrightarrow> i < 10 ^ INT_MAX_STR_DIGITS"
    using assms by (metis nat_less_iff of_nat_numeral of_nat_power)
  then show ?thesis using assms by (simp add: py_str_int_def length_show_nat_iff show_int_def)
qed

lemma py_digits_bound:
  assumes "py_digits s = Some n"
  shows "n < 10 ^ INT_MAX_STR_DIGITS"
proof -
  let ?d = "concat (split_on (CHR ''_'') s)"
  from assms have n: "n = digits_val ?d" "length ?d \<le> INT_MAX_STR_DIGITS" "list_all is_digit ?d"
    by (auto simp: py_digits_def Let_def list_all_iff split: if_splits)
  have "n < 10 ^ length ?d" unfolding n(1) by (rule digits_val_bound[OF n(3)])
  also have "\<dots> \<le> 10 ^ INT_MAX_STR_DIGITS" using n(2) by (simp add: power_increasing)
  finally show ?thesis .
qed

lemma py_int_bound:
  assumes "py_int s = Some i"
  shows "i < 10 ^ INT_MAX_STR_DIGITS"
proof -
  obtain n where n: "i = int n \<or> i = - int n" "n < 10 ^ INT_MAX_STR_DIGITS"
    using assms py_digits_bound by (auto simp: py_int_def split: list.splits if_splits)
  have "int n < 10 ^ INT_MAX_STR_DIGITS" using n(2) by (metis of_nat_less_iff of_nat_numeral of_nat_power)
  with n(1) show ?thesis by linarith
qed

lemma digits_val_nines: "digits_val (replicate k (CHR ''9'')) + 1 = 10 ^ k"
proof (induction k)
  case (Suc k)
  have "replicate (Suc k) (CHR ''9'') = replicate k (CHR ''9'') @ [CHR ''9'']" by (simp add: replicate_append_same)
  then show ?case using Suc by (simp add: digits_val_snoc code_point_def)
qed (simp add: digits_val_def)

lemma py_digits_plain:
  assumes "s \<noteq> []" and "list_all is_digit s"
  shows "py_digits s = (if length s \<le> INT_MAX_STR_DIGITS then Some (digits_val s) else None)"
proof -
  have "CHR ''_'' \<notin> set s"
    using assms(2) by (auto simp: list_all_iff is_digit_def code_point_def)
  then show ?thesis using assms by (simp add: py_digits_def split_on_no_sep)
qed

lemma py_int_digits:
  assumes "s \<noteq> []" and "list_all is_digit s" and "length s \<le> INT_MAX_STR_DIGITS"
  shows "py_int (s @ [newline]) = Some (int (digits_val s))"
proof -
  obtain c r where cr: "s = c # r" using assms(1) by (cases s) auto
  have "is_digit c" using assms(2) cr by simp
  then have "c \<noteq> CHR ''-''" "c \<noteq> CHR ''+''" by (auto simp: is_digit_def code_point_def)
  then show ?thesis
    using py_strip_digits [OF assms(1,2)] py_digits_plain [OF assms(1,2)] assms(3) by (simp add: py_int_def) (simp add: cr)
qed

section \<open>Least-recently-used dictionaries\<close>

text \<open>
  \<^verbatim>\<open>d[k] = v; d.move_to_end(k); while len(d) > n: d.popitem(last=False)\<close>, the idiom of the
  bounded maps of the program.
\<close>

definition lru_put :: "nat \<Rightarrow> 'k \<Rightarrow> 'v \<Rightarrow> ('k, 'v) dict \<Rightarrow> ('k, 'v) dict" where
  "lru_put n k v d = dict_cap n (dict_move_to_end k (dict_set k v d))"

lemma dict_pop_set: "dict_pop k (dict_set k v d) = dict_pop k d"
  unfolding dict_pop_def dict_set_def by (induction d) auto

lemma move_set: "dict_move_to_end k (dict_set k v d) = dict_pop k d @ [(k, v)]"
proof -
  have "map_of (dict_set k v d) k = Some v" using dict_get_set [of k v d k] by (simp add: dict_get_def)
  then show ?thesis by (simp add: dict_move_to_end_def dict_pop_set)
qed

lemma lru_put_eq: "0 < n \<Longrightarrow> lru_put n k v d = drop (Suc (length (dict_pop k d)) - n) (dict_pop k d) @ [(k, v)]"
  by (simp add: lru_put_def move_set dict_cap_drop)

lemma map_of_drop_wf:
  "distinct (map fst d) \<Longrightarrow> map_of (drop m d) k = Some v \<Longrightarrow> map_of d k = Some v"
  by (metis distinct_map_drop in_set_dropD map_of_eq_Some_iff)

lemma lru_put_wf [simp]: "dict_wf d \<Longrightarrow> dict_wf (lru_put n k v d)"
  by (simp add: lru_put_def)

lemma lru_put_length: "length (lru_put n k v d) \<le> n"
  by (simp add: lru_put_def length_dict_cap)

lemma map_of_pop_self: "map_of (drop m (dict_pop k d)) k = None"
  by (auto simp: map_of_eq_None_iff dict_pop_def dest: in_set_dropD)

lemma lru_put_same: "0 < n \<Longrightarrow> dict_get (lru_put n k v d) k = Some v"
  by (simp add: lru_put_eq dict_get_def map_add_def map_of_pop_self)

lemma lru_put_other:
  assumes "dict_wf d" and "k' \<noteq> k" and "dict_get (lru_put n k v d) k' = Some w"
  shows "dict_get d k' = Some w"
proof (cases "n = 0")
  case True
  then show ?thesis using assms(3) by (simp add: lru_put_def dict_cap_drop dict_get_def)
next
  case False
  then have "map_of (drop (Suc (length (dict_pop k d)) - n) (dict_pop k d)) k' = Some w"
    using assms(2,3) by (auto simp: lru_put_eq dict_get_def split: option.splits)
  then have "dict_get (dict_pop k d) k' = Some w"
    using map_of_drop_wf [of "dict_pop k d"] dict_wf_pop [OF assms(1)] by (simp add: dict_get_def dict_wf_def)
  then show ?thesis by (simp split: if_splits)
qed

lemma lru_put_fits:
  assumes "length (dict_set k v d) \<le> n" and "k' \<noteq> k"
  shows "dict_get (lru_put n k v d) k' = dict_get d k'"
proof -
  have "Suc (length (dict_pop k d)) \<le> length (dict_set k v d)"
  proof (cases "dict_has d k")
    case True
    then have "length (dict_pop k d) < length d"
      by (auto simp: dict_has_keys dict_pop_def intro!: length_filter_less)
    with True show ?thesis by (simp add: length_dict_set)
  qed (simp add: length_dict_set dict_pop_def)
  then have "lru_put n k v d = dict_pop k d @ [(k, v)]"
    using assms(1) by (simp add: lru_put_def move_set dict_cap_drop)
  then show ?thesis using assms(2) dict_get_pop [of k d k'] by (auto simp: dict_get_def map_add_def split: option.splits)
qed

lemma ok_run_True [simp]: "ok_run step (\<lambda>_ _. True) xs s"
  by (induction xs arbitrary: s) auto

lemma dict_set_fresh: "k \<notin> set (map fst d) \<Longrightarrow> dict_set k v d = d @ [(k, v)]"
  unfolding dict_set_def by (induction d) auto

lemma dict_pop_keys [simp]: "k \<notin> fst ` set (dict_pop k d)"
  by (auto simp: dict_pop_def)

lemma dict_sum_nonneg_in: "(\<And>p. p \<in> set d \<Longrightarrow> 0 \<le> f (snd p)) \<Longrightarrow> 0 \<le> dict_sum f d"
  by (induction d) (auto intro: add_nonneg_nonneg)

lemma dict_sum_filter: "(\<And>p. p \<in> set d \<Longrightarrow> \<not> P p \<Longrightarrow> f (snd p) = 0) \<Longrightarrow> dict_sum f (filter P d) = dict_sum f d"
  by (induction d) auto

lemma set_dict_drop_keys: "p \<in> set (dict_drop_keys P d) \<Longrightarrow> p \<in> set d"
  by (simp add: dict_drop_keys_def)

end
