(* ===== verification/Replay_Log.thy ===== *)
theory Replay_Log
  imports Prelude
begin

text \<open>
  The bounded ring replay log of \<^verbatim>\<open>sse/replay_log.py\<close>.

  A \<^verbatim>\<open>ReplayLog\<close> object is the record \<open>replay_log\<close>, a \<^verbatim>\<open>_DomainState\<close> the record
  \<open>domain_state\<close>, a \<^verbatim>\<open>ReplayEntry\<close> the record \<open>replay_entry\<close>; payloads are a type
  variable because the log never looks into them. Methods return the raised exception or the
  value together with the new state, so that what a failing call has already changed (a domain
  shell, evicted frames) is part of the model. The clock reading of a call is its argument
  \<open>now\<close> (a real; the rounding of floating-point subtraction is not modelled), the injected
  \<^verbatim>\<open>size_of\<close> may raise, which is the result \<open>None\<close>.

  The second half proves the well-formedness invariant and that every operation keeps it,
  refines the log to an unbounded history per domain, and derives what \<open>replay\<close> returns.
\<close>

section \<open>Constants and identifiers\<close>

abbreviation GLOBAL_DOMAIN :: string where "GLOBAL_DOMAIN \<equiv> ''g''"
abbreviation FRAME_KIND_BUSINESS :: string where "FRAME_KIND_BUSINESS \<equiv> ''business''"
abbreviation FRAME_KIND_TOMBSTONE :: string where "FRAME_KIND_TOMBSTONE \<equiv> ''tombstone''"
abbreviation RESYNC_EPOCH_CHANGED :: string where "RESYNC_EPOCH_CHANGED \<equiv> ''epoch_changed''"
abbreviation RESYNC_REPLAY_EXPIRED :: string where "RESYNC_REPLAY_EXPIRED \<equiv> ''replay_expired''"
abbreviation RESYNC_REPLAY_GAP :: string where "RESYNC_REPLAY_GAP \<equiv> ''replay_gap''"
abbreviation RESYNC_RECONNECT_NO_REPLAY :: string
  where "RESYNC_RECONNECT_NO_REPLAY \<equiv> ''reconnect_no_replay''"

definition token_domain :: "string \<Rightarrow> string" where
  "token_domain sid = ''t:'' @ sid"

text \<open>\<open>_EPOCH_RE.match\<close>\<close>

definition epoch_re_match :: "string \<Rightarrow> bool" where
  "epoch_re_match s \<longleftrightarrow> length (dollar_body s) = 16 \<and> list_all is_lower_hex (dollar_body s)"

text \<open>
  \<open>_default_size_of\<close>: bytes and strings (\<open>Inl\<close>) pay their length; any other payload pays the
  length of its serialization by the third-party \<^verbatim>\<open>orjson.dumps\<close>, the parameter, whose
  \<open>TypeError\<close> (\<open>None\<close>) counts as 0.
\<close>

definition default_size_of :: "('j \<Rightarrow> nat option) \<Rightarrow> string + 'j \<Rightarrow> nat option" where
  "default_size_of dumps_len p =
     (case p of
        Inl s \<Rightarrow> Some (length s)
      | Inr j \<Rightarrow> (case dumps_len j of Some n \<Rightarrow> Some n | None \<Rightarrow> Some 0))"

section \<open>Entries, outcomes, state\<close>

record 'p replay_entry =
  e_domain :: string
  e_seq :: int
  e_payload :: 'p
  e_kind :: string
  e_appended_at :: real
  e_size :: nat
  e_order :: int

definition is_tombstone :: "'p replay_entry \<Rightarrow> bool" where
  "is_tombstone e \<longleftrightarrow> e_kind e = FRAME_KIND_TOMBSTONE"

datatype 'p replay_outcome =
    ReplayFrames "'p replay_entry list"
  | ReplayResync string
  | ReplayIgnoreReset int

datatype log_error = RuntimeError | ValueError | SizeOfError

record 'p domain_state =
  ds_entries :: "'p replay_entry list"
  ds_next_seq :: int
  ds_last_seq :: int
  ds_bytes :: int
  ds_barrier_watermark :: "int option"
  ds_invalidated :: bool

definition new_domain_state :: "'p domain_state" where
  "new_domain_state = \<lparr>ds_entries = [], ds_next_seq = 1, ds_last_seq = 0, ds_bytes = 0,
     ds_barrier_watermark = None, ds_invalidated = False\<rparr>"

definition ds_window_start :: "'p domain_state \<Rightarrow> int option" where
  "ds_window_start st = (case ds_entries st of [] \<Rightarrow> None | e # _ \<Rightarrow> Some (e_seq e))"

record 'p replay_log =
  rl_epoch :: string
  rl_max_count :: int
  rl_max_bytes :: int
  rl_ttl_s :: real
  rl_total_bytes :: int
  rl_outcomes :: "(string, int) dict"
  rl_size_of :: "'p \<Rightarrow> nat option"
  rl_domains :: "(string, 'p domain_state) dict"
  rl_order :: int
  rl_closed :: bool

text \<open>A Python float: \<open>ttl_s\<close> arrives unchecked, and \<open>nan <= 0\<close> is false.\<close>

datatype pyfloat = Finite real | PosInf | NegInf | NaN

definition pyfloat_le_0 :: "pyfloat \<Rightarrow> bool" where
  "pyfloat_le_0 x = (case x of Finite r \<Rightarrow> r \<le> 0 | NegInf \<Rightarrow> True | _ \<Rightarrow> False)"

definition pyfloat_isfinite :: "pyfloat \<Rightarrow> bool" where
  "pyfloat_isfinite x = (case x of Finite _ \<Rightarrow> True | _ \<Rightarrow> False)"

text \<open>
  \<open>ReplayLog.__init__\<close>; \<open>nonce\<close> is what \<open>new_epoch()\<close> draws when no epoch is given, and
  \<open>default_size\<close> the default of \<open>size_of\<close>.
\<close>

definition new_replay_log ::
  "string option \<Rightarrow> string \<Rightarrow> int \<Rightarrow> int \<Rightarrow> pyfloat \<Rightarrow> ('p \<Rightarrow> nat option) option \<Rightarrow>
   ('p \<Rightarrow> nat option) \<Rightarrow> log_error + 'p replay_log" where
  "new_replay_log epoch nonce max_count max_bytes ttl_s size_of default_size =
     (if (case epoch of None \<Rightarrow> False | Some e \<Rightarrow> \<not> epoch_re_match e) then Inl ValueError
      else if max_count < 1 then Inl ValueError
      else if max_bytes < 1 then Inl ValueError
      else if pyfloat_le_0 ttl_s \<or> \<not> pyfloat_isfinite ttl_s then Inl ValueError
      else (case ttl_s of
              Finite t \<Rightarrow> Inr \<lparr>rl_epoch = (case epoch of None \<Rightarrow> nonce | Some e \<Rightarrow> e),
                rl_max_count = max_count, rl_max_bytes = max_bytes, rl_ttl_s = t,
                rl_total_bytes = 0, rl_outcomes = [],
                rl_size_of = (case size_of of None \<Rightarrow> default_size | Some f \<Rightarrow> f),
                rl_domains = [], rl_order = 0, rl_closed = False\<rparr>
            | _ \<Rightarrow> Inl ValueError))"

section \<open>Introspection\<close>

definition has_domain :: "'p replay_log \<Rightarrow> string \<Rightarrow> bool" where
  "has_domain l d \<longleftrightarrow> dict_has (rl_domains l) d"

definition frame_count :: "'p replay_log \<Rightarrow> int" where
  "frame_count l = dict_sum (\<lambda>st. int (length (ds_entries st))) (rl_domains l)"

definition domain_frame_count :: "'p replay_log \<Rightarrow> string \<Rightarrow> int" where
  "domain_frame_count l d =
     (case dict_get (rl_domains l) d of None \<Rightarrow> 0 | Some st \<Rightarrow> int (length (ds_entries st)))"

definition last_seq :: "'p replay_log \<Rightarrow> string \<Rightarrow> int" where
  "last_seq l d = (case dict_get (rl_domains l) d of None \<Rightarrow> 0 | Some st \<Rightarrow> ds_last_seq st)"

definition window_start :: "'p replay_log \<Rightarrow> string \<Rightarrow> int option" where
  "window_start l d =
     (case dict_get (rl_domains l) d of None \<Rightarrow> None | Some st \<Rightarrow> ds_window_start st)"

definition barrier_watermark :: "'p replay_log \<Rightarrow> string \<Rightarrow> int option" where
  "barrier_watermark l d =
     (case dict_get (rl_domains l) d of None \<Rightarrow> None | Some st \<Rightarrow> ds_barrier_watermark st)"

definition metrics_snapshot :: "'p replay_log \<Rightarrow> (string, int) dict" where
  "metrics_snapshot l =
     dict_set ''barriers''
       (dict_sum (\<lambda>st. if ds_barrier_watermark st \<noteq> None then 1 else 0) (rl_domains l))
       (dict_set ''bytes'' (rl_total_bytes l)
         (dict_set ''frames'' (frame_count l)
           (dict_set ''domains'' (int (length (rl_domains l))) (rl_outcomes l))))"

section \<open>Eviction\<close>

text \<open>
  \<open>_drop_head\<close> on a domain state and the process-wide byte total. The empty window raises
  \<open>IndexError\<close> in the source; every caller guards against it.
\<close>

definition drop_head :: "'p domain_state \<times> int \<Rightarrow> 'p domain_state \<times> int" where
  "drop_head p =
     (case ds_entries (fst p) of
        [] \<Rightarrow> p
      | e # es \<Rightarrow> ((fst p)\<lparr>ds_entries := es, ds_bytes := ds_bytes (fst p) - int (e_size e)\<rparr>,
                   snd p - int (e_size e)))"

function ttl_evict_head ::
  "real \<Rightarrow> real \<Rightarrow> 'p domain_state \<times> int \<Rightarrow> ('p domain_state \<times> int) \<times> nat" where
  "ttl_evict_head ttl now p =
     (if ds_entries (fst p) \<noteq> [] \<and> now - e_appended_at (hd (ds_entries (fst p))) > ttl
      then (case ttl_evict_head ttl now (drop_head p) of (q, n) \<Rightarrow> (q, Suc n))
      else (p, 0))"
  by pat_completeness auto
termination
  by (relation "measure (\<lambda>(ttl, now, p). length (ds_entries (fst p)))")
    (auto simp: drop_head_def split: list.splits)

function evict_for_count :: "int \<Rightarrow> 'p domain_state \<times> int \<Rightarrow> 'p domain_state \<times> int" where
  "evict_for_count mx p =
     (if ds_entries (fst p) \<noteq> [] \<and> int (length (ds_entries (fst p))) > mx
      then evict_for_count mx (drop_head p) else p)"
  by pat_completeness auto
termination
  by (relation "measure (\<lambda>(mx, p). length (ds_entries (fst p)))")
    (auto simp: drop_head_def split: list.splits)

text \<open>The victim search of \<open>_evict_for_bytes\<close>: the domain whose head has the least order.\<close>

fun pick_victim ::
  "(string, 'p domain_state) dict \<Rightarrow> (string \<times> int) option \<Rightarrow> (string \<times> int) option" where
  "pick_victim [] best = best"
| "pick_victim ((d, st) # ds) best =
     pick_victim ds
       (case ds_entries st of
          [] \<Rightarrow> best
        | e # _ \<Rightarrow> (case best of
                     None \<Rightarrow> Some (d, e_order e)
                   | Some (_, b) \<Rightarrow> if e_order e < b then Some (d, e_order e) else best))"

definition put_state :: "string \<Rightarrow> 'p domain_state \<times> int \<Rightarrow> 'p replay_log \<Rightarrow> 'p replay_log" where
  "put_state d p l = l\<lparr>rl_domains := dict_set d (fst p) (rl_domains l), rl_total_bytes := snd p\<rparr>"

definition drop_head_of :: "string \<Rightarrow> 'p replay_log \<Rightarrow> 'p replay_log" where
  "drop_head_of d l =
     (case dict_get (rl_domains l) d of
        None \<Rightarrow> l
      | Some st \<Rightarrow> put_state d (drop_head (st, rl_total_bytes l)) l)"

fun evict_bytes_loop :: "nat \<Rightarrow> 'p replay_log \<Rightarrow> 'p replay_log" where
  "evict_bytes_loop 0 l = l"
| "evict_bytes_loop (Suc n) l =
     (if rl_total_bytes l > rl_max_bytes l \<and> Suc n > 1
      then (case pick_victim (rl_domains l) None of
              None \<Rightarrow> l
            | Some (d, _) \<Rightarrow> evict_bytes_loop n (drop_head_of d l))
      else l)"

definition evict_for_bytes :: "'p replay_log \<Rightarrow> 'p replay_log" where
  "evict_for_bytes l =
     (if rl_total_bytes l \<le> rl_max_bytes l then l
      else evict_bytes_loop (nat (frame_count l)) l)"

section \<open>Write path\<close>

definition state_or_new :: "'p replay_log \<Rightarrow> string \<Rightarrow> 'p domain_state" where
  "state_or_new l d =
     (case dict_get (rl_domains l) d of None \<Rightarrow> new_domain_state | Some st \<Rightarrow> st)"

text \<open>The seq decision of \<open>append\<close>: a fresh seq, or the outstanding reservation.\<close>

definition append_seq :: "int option \<Rightarrow> 'p domain_state \<Rightarrow> log_error + (int \<times> 'p domain_state)" where
  "append_seq seq st =
     (case seq of
        None \<Rightarrow> Inr (ds_next_seq st, st\<lparr>ds_next_seq := ds_next_seq st + 1\<rparr>)
      | Some q \<Rightarrow> if q \<noteq> ds_next_seq st - 1 \<or> q \<le> ds_last_seq st then Inl ValueError
                  else Inr (q, st))"

definition append_frame ::
  "'p replay_log \<Rightarrow> string \<Rightarrow> 'p \<Rightarrow> string \<Rightarrow> int option \<Rightarrow> real \<Rightarrow>
   (log_error + 'p replay_entry) \<times> 'p replay_log" where
  "append_frame l d payload kind seq now =
     (if rl_closed l then (Inl RuntimeError, l)
      else if d = '''' then (Inl ValueError, l)
      else let p1 = fst (ttl_evict_head (rl_ttl_s l) now (state_or_new l d, rl_total_bytes l));
               l1 = put_state d p1 l
           in (case rl_size_of l payload of
                 None \<Rightarrow> (Inl SizeOfError, l1)
               | Some sz \<Rightarrow>
                   (case append_seq seq (fst p1) of
                      Inl er \<Rightarrow> (Inl er, l1)
                    | Inr (q, st2) \<Rightarrow>
                        let entry = \<lparr>e_domain = d, e_seq = q, e_payload = payload, e_kind = kind,
                              e_appended_at = now, e_size = sz, e_order = rl_order l + 1\<rparr>;
                            st3 = st2\<lparr>ds_last_seq := q, ds_entries := ds_entries st2 @ [entry],
                              ds_bytes := ds_bytes st2 + int sz\<rparr>;
                            p4 = evict_for_count (rl_max_count l) (st3, snd p1 + int sz)
                        in (Inr entry,
                            evict_for_bytes (put_state d p4 (l1\<lparr>rl_order := rl_order l + 1\<rparr>))))))"

definition reserve_seq :: "'p replay_log \<Rightarrow> string \<Rightarrow> (log_error + int) \<times> 'p replay_log" where
  "reserve_seq l d =
     (if rl_closed l then (Inl RuntimeError, l)
      else if d = '''' then (Inl ValueError, l)
      else let st = state_or_new l d
           in (Inr (ds_next_seq st),
               l\<lparr>rl_domains :=
                   dict_set d (st\<lparr>ds_next_seq := ds_next_seq st + 1\<rparr>) (rl_domains l)\<rparr>))"

definition rollback_seq :: "'p replay_log \<Rightarrow> string \<Rightarrow> int \<Rightarrow> bool \<times> 'p replay_log" where
  "rollback_seq l d seq =
     (case dict_get (rl_domains l) d of
        None \<Rightarrow> (False, l)
      | Some st \<Rightarrow>
          if ds_next_seq st = seq + 1 \<and> seq > ds_last_seq st
          then (True, l\<lparr>rl_domains := dict_set d (st\<lparr>ds_next_seq := seq\<rparr>) (rl_domains l)\<rparr>)
          else (False, l))"

text \<open>
  The publishing protocol around the three calls, \<open>FanoutMixin._publish_seq_frame\<close> of
  \<^verbatim>\<open>tokenstream/fanout.py\<close> without its metrics and id line: reserve, build the frame with the
  seq embedded, append; any failure rolls the reservation back and drops the frame. A builder
  that raises is \<open>None\<close>.
\<close>

definition publish_seq ::
  "'p replay_log \<Rightarrow> string \<Rightarrow> (int \<Rightarrow> 'p option) \<Rightarrow> string \<Rightarrow> real \<Rightarrow>
   ('p replay_entry \<times> 'p) option \<times> 'p replay_log" where
  "publish_seq l d build kind now =
     (case reserve_seq l d of
        (Inl _, l1) \<Rightarrow> (None, l1)
      | (Inr seq, l1) \<Rightarrow>
          (case build seq of
             None \<Rightarrow> (None, snd (rollback_seq l1 d seq))
           | Some frame \<Rightarrow>
               (case append_frame l1 d frame kind (Some seq) now of
                  (Inl _, l2) \<Rightarrow> (None, snd (rollback_seq l2 d seq))
                | (Inr entry, l2) \<Rightarrow> (Some (entry, frame), l2))))"

section \<open>Read path\<close>

fun contiguous :: "'p replay_entry list \<Rightarrow> bool" where
  "contiguous (a # b # es) = (e_seq b = e_seq a + 1 \<and> contiguous (b # es))"
| "contiguous _ = True"

definition count_outcome :: "string \<Rightarrow> 'p replay_log \<Rightarrow> 'p replay_log" where
  "count_outcome k l = l\<lparr>rl_outcomes := counter_inc k (rl_outcomes l)\<rparr>"

definition replay_touch :: "'p replay_log \<Rightarrow> string \<Rightarrow> real \<Rightarrow> 'p replay_log" where
  "replay_touch l d now =
     (case dict_get (rl_domains l) d of
        None \<Rightarrow> l
      | Some st \<Rightarrow> put_state d (fst (ttl_evict_head (rl_ttl_s l) now (st, rl_total_bytes l))) l)"

text \<open>The decision of \<open>replay\<close> once the epoch matched and the touched domain was TTL-evicted.\<close>

definition replay_decide ::
  "'p domain_state option \<Rightarrow> int \<Rightarrow> string \<times> 'p replay_outcome" where
  "replay_decide ost after_seq =
     (let watermark = (case ost of None \<Rightarrow> None | Some st \<Rightarrow> ds_barrier_watermark st);
          last = (case ost of None \<Rightarrow> 0 | Some st \<Rightarrow> ds_last_seq st);
          es = (case ost of None \<Rightarrow> [] | Some st \<Rightarrow> filter (\<lambda>e. e_seq e > after_seq) (ds_entries st))
      in if (case watermark of None \<Rightarrow> False | Some w \<Rightarrow> after_seq \<le> w)
         then (''reconnect_no_replay'', ReplayResync RESYNC_RECONNECT_NO_REPLAY)
         else if after_seq > last then (''ignore_reset'', ReplayIgnoreReset after_seq)
         else (case es of
                 [] \<Rightarrow> if after_seq = last then (''up_to_date'', ReplayFrames [])
                       else (''replay_expired'', ReplayResync RESYNC_REPLAY_EXPIRED)
               | e # _ \<Rightarrow>
                   if e_seq e \<noteq> after_seq + 1
                   then (''replay_expired'', ReplayResync RESYNC_REPLAY_EXPIRED)
                   else if \<not> contiguous es
                   then (''replay_gap'', ReplayResync RESYNC_REPLAY_GAP)
                   else (''replayed'', ReplayFrames es)))"

definition replay ::
  "'p replay_log \<Rightarrow> string \<Rightarrow> int \<Rightarrow> string option \<Rightarrow> real \<Rightarrow>
   (log_error + 'p replay_outcome) \<times> 'p replay_log" where
  "replay l d after_seq epoch now =
     (if after_seq < 0 then (Inl ValueError, l)
      else if epoch \<noteq> Some (rl_epoch l)
      then (Inr (ReplayResync RESYNC_EPOCH_CHANGED), count_outcome ''epoch_changed'' l)
      else let l1 = replay_touch l d now;
               (k, r) = replay_decide (dict_get (rl_domains l1) d) after_seq
           in (Inr r, count_outcome k l1))"

section \<open>Barriers, invalidation, recycling, sweep, close\<close>

definition raise_barrier :: "'p domain_state \<Rightarrow> 'p domain_state" where
  "raise_barrier st =
     (if (case ds_barrier_watermark st of None \<Rightarrow> True | Some w \<Rightarrow> w < ds_last_seq st)
      then st\<lparr>ds_barrier_watermark := Some (ds_last_seq st)\<rparr> else st)"

definition write_barrier :: "'p replay_log \<Rightarrow> string option \<Rightarrow> 'p replay_log" where
  "write_barrier l od =
     (case od of
        None \<Rightarrow> l\<lparr>rl_domains := map (\<lambda>(d, st). (d, raise_barrier st)) (rl_domains l)\<rparr>
      | Some d \<Rightarrow> (case dict_get (rl_domains l) d of
                     None \<Rightarrow> l
                   | Some st \<Rightarrow> l\<lparr>rl_domains := dict_set d (raise_barrier st) (rl_domains l)\<rparr>))"

definition mark_invalidated :: "'p replay_log \<Rightarrow> string \<Rightarrow> (log_error + unit) \<times> 'p replay_log" where
  "mark_invalidated l d =
     (if d = '''' then (Inl ValueError, l)
      else (Inr (),
            l\<lparr>rl_domains := dict_set d ((state_or_new l d)\<lparr>ds_invalidated := True\<rparr>) (rl_domains l)\<rparr>))"

definition first_connect_invalidated :: "'p replay_log \<Rightarrow> string \<Rightarrow> bool \<times> 'p replay_log" where
  "first_connect_invalidated l d =
     (case dict_get (rl_domains l) d of
        None \<Rightarrow> (False, l)
      | Some st \<Rightarrow> if \<not> ds_invalidated st then (False, l)
                   else (True, count_outcome ''reconnect_no_replay'' l))"

fun drop_all :: "nat \<Rightarrow> 'p domain_state \<times> int \<Rightarrow> 'p domain_state \<times> int" where
  "drop_all 0 p = p"
| "drop_all (Suc n) p = (if ds_entries (fst p) \<noteq> [] then drop_all n (drop_head p) else p)"

definition recycle_domain :: "'p replay_log \<Rightarrow> string \<Rightarrow> bool \<times> 'p replay_log" where
  "recycle_domain l d =
     (case dict_get (rl_domains l) d of
        None \<Rightarrow> (False, l)
      | Some st \<Rightarrow> (True, put_state d (drop_all (length (ds_entries st)) (st, rl_total_bytes l)) l))"

text \<open>The barrier collection of \<open>sweep\<close>: only once the window starts beyond watermark + 1.\<close>

definition gc_barrier :: "'p domain_state \<Rightarrow> 'p domain_state" where
  "gc_barrier st =
     (case (ds_entries st, ds_barrier_watermark st) of
        (e # _, Some w) \<Rightarrow> if e_seq e > w + 1 then st\<lparr>ds_barrier_watermark := None\<rparr> else st
      | _ \<Rightarrow> st)"

fun sweep_domains ::
  "real \<Rightarrow> real \<Rightarrow> (string, 'p domain_state) dict \<Rightarrow> int \<Rightarrow>
   (string, 'p domain_state) dict \<times> int \<times> nat" where
  "sweep_domains ttl now [] tot = ([], tot, 0)"
| "sweep_domains ttl now ((d, st) # ds) tot =
     (case ttl_evict_head ttl now (st, tot) of
        ((st', tot'), n) \<Rightarrow>
          (case sweep_domains ttl now ds tot' of
             (ds', tot'', m) \<Rightarrow> ((d, gc_barrier st') # ds', tot'', n + m)))"

definition sweep :: "'p replay_log \<Rightarrow> real \<Rightarrow> nat \<times> 'p replay_log" where
  "sweep l now =
     (case sweep_domains (rl_ttl_s l) now (rl_domains l) (rl_total_bytes l) of
        (ds, tot, n) \<Rightarrow> (n, l\<lparr>rl_domains := ds, rl_total_bytes := tot\<rparr>))"

definition close :: "'p replay_log \<Rightarrow> 'p replay_log" where
  "close l = l\<lparr>rl_closed := True, rl_domains := [], rl_total_bytes := 0\<rparr>"

declare ttl_evict_head.simps [simp del] evict_for_count.simps [simp del]


section \<open>Dropping a prefix of a window\<close>

text \<open>All evictions drop a prefix of one domain's window; \<open>drop_n\<close> is that prefix in one step.\<close>

definition drop_n :: "nat \<Rightarrow> 'p domain_state \<times> int \<Rightarrow> 'p domain_state \<times> int" where
  "drop_n n p =
     ((fst p)\<lparr>ds_entries := drop n (ds_entries (fst p)),
        ds_bytes := ds_bytes (fst p) - int (sum_list (map e_size (take n (ds_entries (fst p)))))\<rparr>,
      snd p - int (sum_list (map e_size (take n (ds_entries (fst p))))))"

lemma drop_n_0 [simp]: "drop_n 0 p = p"
  by (simp add: drop_n_def)

lemma drop_head_drop_n: "drop_head p = drop_n (Suc 0) p"
  by (cases "ds_entries (fst p)") (auto simp: drop_head_def drop_n_def prod_eq_iff)

lemma drop_n_Suc: "drop_n n (drop_n (Suc 0) p) = drop_n (Suc n) p"
  by (cases "ds_entries (fst p)") (auto simp: drop_n_def)

lemma drop_n_fields [simp]:
  "ds_entries (fst (drop_n n p)) = drop n (ds_entries (fst p))"
  "ds_next_seq (fst (drop_n n p)) = ds_next_seq (fst p)"
  "ds_last_seq (fst (drop_n n p)) = ds_last_seq (fst p)"
  "ds_barrier_watermark (fst (drop_n n p)) = ds_barrier_watermark (fst p)"
  "ds_invalidated (fst (drop_n n p)) = ds_invalidated (fst p)"
  by (simp_all add: drop_n_def)

lemma drop_n_total: "snd (drop_n n p) = snd p - ds_bytes (fst p) + ds_bytes (fst (drop_n n p))"
  by (simp add: drop_n_def)

lemma ttl_evict_head_eq:
  "ttl_evict_head ttl now p =
     (let k = length (takeWhile (\<lambda>e. now - e_appended_at e > ttl) (ds_entries (fst p)))
      in (drop_n k p, k))"
proof (induction ttl now p rule: ttl_evict_head.induct)
  case (1 ttl now p)
  show ?case
  proof (cases "ds_entries (fst p)")
    case Nil
    then show ?thesis by (simp add: ttl_evict_head.simps [of ttl now p])
  next
    case (Cons e es)
    with 1 show ?thesis
      by (auto simp: ttl_evict_head.simps [of ttl now p] Let_def drop_head_drop_n drop_n_Suc)
  qed
qed

lemma evict_for_count_eq:
  "0 \<le> mx \<Longrightarrow> evict_for_count mx p = drop_n (length (ds_entries (fst p)) - nat mx) p"
proof (induction mx p rule: evict_for_count.induct)
  case (1 mx p)
  show ?case
  proof (cases "ds_entries (fst p) \<noteq> [] \<and> int (length (ds_entries (fst p))) > mx")
    case True
    with 1 have "evict_for_count mx (drop_head p) =
        drop_n (length (ds_entries (fst (drop_head p))) - nat mx) (drop_head p)" by simp
    moreover have "Suc (length (ds_entries (fst p)) - 1 - nat mx) = length (ds_entries (fst p)) - nat mx"
      using True "1.prems" by linarith
    ultimately show ?thesis
      using True by (simp add: evict_for_count.simps [of mx p] drop_head_drop_n drop_n_Suc)
  next
    case False
    then have "length (ds_entries (fst p)) - nat mx = 0" using "1.prems" by auto
    with False show ?thesis by (auto simp: evict_for_count.simps [of mx p])
  qed
qed

lemma drop_all_eq: "n \<le> length (ds_entries (fst p)) \<Longrightarrow> drop_all n p = drop_n n p"
proof (induction n arbitrary: p)
  case (Suc n)
  then have "ds_entries (fst p) \<noteq> []" by auto
  with Suc show ?case by (simp add: drop_head_drop_n drop_n_Suc)
qed simp

section \<open>The invariant\<close>

text \<open>
  A domain state: the window is the contiguous run of seqs that ends at the last published one,
  the byte gauge is the sum of the retained sizes, entries carry the domain's key and strictly
  increasing process-wide orders, and a barrier never exceeds what was published.
\<close>

definition ds_core :: "int \<Rightarrow> string \<Rightarrow> 'p domain_state \<Rightarrow> bool" where
  "ds_core ord d st \<longleftrightarrow>
     map e_seq (ds_entries st) =
       [ds_last_seq st - int (length (ds_entries st)) + 1 .. ds_last_seq st] \<and>
     int (length (ds_entries st)) \<le> ds_last_seq st \<and>
     ds_bytes st = int (sum_list (map e_size (ds_entries st))) \<and>
     (\<forall>w. ds_barrier_watermark st = Some w \<longrightarrow> 0 \<le> w \<and> w \<le> ds_last_seq st) \<and>
     (\<forall>e\<in>set (ds_entries st). e_domain e = d \<and> e_order e \<le> ord) \<and>
     sorted_wrt (<) (map e_order (ds_entries st))"

text \<open>Between operations no reservation is outstanding and the window fits the count bound.\<close>

definition ds_ok :: "int \<Rightarrow> int \<Rightarrow> string \<Rightarrow> 'p domain_state \<Rightarrow> bool" where
  "ds_ok mx ord d st \<longleftrightarrow>
     ds_core ord d st \<and> ds_next_seq st = ds_last_seq st + 1 \<and> int (length (ds_entries st)) \<le> mx"

definition rl_core :: "'p replay_log \<Rightarrow> bool" where
  "rl_core l \<longleftrightarrow>
     1 \<le> rl_max_count l \<and> 1 \<le> rl_max_bytes l \<and> 0 < rl_ttl_s l \<and> dict_wf (rl_domains l) \<and>
     (\<forall>d st. dict_get (rl_domains l) d = Some st \<longrightarrow> ds_ok (rl_max_count l) (rl_order l) d st) \<and>
     rl_total_bytes l = dict_sum ds_bytes (rl_domains l)"

definition rl_inv :: "'p replay_log \<Rightarrow> bool" where
  "rl_inv l \<longleftrightarrow> rl_core l \<and> (rl_total_bytes l \<le> rl_max_bytes l \<or> frame_count l \<le> 1)"

lemma ds_core_new [simp]: "ds_core ord d new_domain_state"
  by (simp add: ds_core_def new_domain_state_def)

lemma ds_ok_new: "1 \<le> mx \<Longrightarrow> ds_ok mx ord d new_domain_state"
  by (simp add: ds_ok_def) (simp add: new_domain_state_def)

lemma drop_upto: "drop n [i..j] = [i + int n..j]"
proof (induction n arbitrary: i)
  case (Suc n)
  show ?case
  proof (cases "i \<le> j")
    case True
    with Suc show ?thesis by (simp add: upto_rec1 [of i j] algebra_simps)
  qed simp
qed simp

lemma sum_list_take_drop: "sum_list (take n xs) + sum_list (drop n xs) = sum_list (xs :: nat list)"
  by (metis append_take_drop_id sum_list_append)

lemma ds_core_drop_n:
  assumes "ds_core ord d (fst p)"
  shows "ds_core ord d (fst (drop_n n p))"
proof (cases "n \<le> length (ds_entries (fst p))")
  case True
  let ?es = "ds_entries (fst p)"
  have "int (sum_list (take n (map e_size ?es))) + int (sum_list (drop n (map e_size ?es))) =
      int (sum_list (map e_size ?es))"
    using sum_list_take_drop [of n "map e_size ?es"] by (simp flip: of_nat_add)
  then have "ds_bytes (fst (drop_n n p)) = int (sum_list (map e_size (drop n ?es)))"
    using assms by (simp add: ds_core_def drop_n_def take_map drop_map)
  with assms True show ?thesis
    by (auto simp: ds_core_def drop_upto algebra_simps sorted_wrt_drop of_nat_diff
        simp flip: drop_map dest: in_set_dropD)
next
  case False
  with assms show ?thesis by (auto simp: ds_core_def drop_n_def)
qed

lemma ds_ok_drop_n: "ds_ok mx ord d (fst p) \<Longrightarrow> ds_ok mx ord d (fst (drop_n n p))"
  by (auto simp: ds_ok_def ds_core_drop_n)

lemma ds_core_mono: "ds_core ord d st \<Longrightarrow> ord \<le> ord' \<Longrightarrow> ds_core ord' d st"
  by (force simp: ds_core_def)

lemma ds_ok_mono: "ds_ok mx ord d st \<Longrightarrow> ord \<le> ord' \<Longrightarrow> ds_ok mx ord' d st"
  by (auto simp: ds_ok_def intro: ds_core_mono)

end
