(* ===== verification/Replay_Invariant.thy ===== *)
theory Replay_Invariant
  imports Replay_Log
begin

text \<open>
  Every operation of the replay log keeps \<open>rl_inv\<close>: contiguous windows that end at the last
  published seq, exact byte ledgers, the count and byte bounds, barriers below the published
  maximum. The theory also shows which frame a byte eviction removes and that \<open>append_frame\<close>
  never evicts the frame it has just accepted.
\<close>

section \<open>Updating one domain\<close>

lemma rl_coreD:
  assumes "rl_core l"
  shows "dict_wf (rl_domains l)"
    and "rl_total_bytes l = dict_sum ds_bytes (rl_domains l)"
    and "dict_get (rl_domains l) d = Some st \<Longrightarrow> ds_ok (rl_max_count l) (rl_order l) d st"
    and "1 \<le> rl_max_count l"
  using assms by (auto simp: rl_core_def)

lemma put_state_simps [simp]:
  "rl_epoch (put_state d p l) = rl_epoch l"
  "rl_max_count (put_state d p l) = rl_max_count l"
  "rl_max_bytes (put_state d p l) = rl_max_bytes l"
  "rl_ttl_s (put_state d p l) = rl_ttl_s l"
  "rl_total_bytes (put_state d p l) = snd p"
  "rl_outcomes (put_state d p l) = rl_outcomes l"
  "rl_size_of (put_state d p l) = rl_size_of l"
  "rl_domains (put_state d p l) = dict_set d (fst p) (rl_domains l)"
  "rl_order (put_state d p l) = rl_order l"
  "rl_closed (put_state d p l) = rl_closed l"
  by (simp_all add: put_state_def)

definition old_bytes :: "'p replay_log \<Rightarrow> string \<Rightarrow> int" where
  "old_bytes l d = (case dict_get (rl_domains l) d of None \<Rightarrow> 0 | Some st \<Rightarrow> ds_bytes st)"

lemma put_state_core:
  assumes "rl_core l" and "ds_ok (rl_max_count l) (rl_order l) d (fst p)"
    and "snd p = rl_total_bytes l - old_bytes l d + ds_bytes (fst p)"
  shows "rl_core (put_state d p l)"
  using assms by (auto simp: rl_core_def old_bytes_def dict_sum_set split: option.splits)

lemma rl_core_order: "rl_core l \<Longrightarrow> rl_order l \<le> n \<Longrightarrow> rl_core (l\<lparr>rl_order := n\<rparr>)"
  by (auto simp: rl_core_def intro: ds_ok_mono)

lemma state_or_new_ok:
  "rl_core l \<Longrightarrow> ds_ok (rl_max_count l) (rl_order l) d (state_or_new l d)"
  by (auto simp: state_or_new_def rl_core_def ds_ok_new split: option.splits)

lemma state_or_new_bytes: "ds_bytes (state_or_new l d) = old_bytes l d"
  by (auto simp: state_or_new_def old_bytes_def new_domain_state_def split: option.splits)

lemma frame_count_put:
  "frame_count (put_state d p l) =
     frame_count l - domain_frame_count l d + int (length (ds_entries (fst p)))"
  by (auto simp: frame_count_def domain_frame_count_def dict_sum_set split: option.splits)

lemma frame_count_nonneg: "0 \<le> frame_count l"
  by (simp add: frame_count_def dict_sum_nonneg)

lemma domain_frame_count_le: "domain_frame_count l d \<le> frame_count l"
  by (auto simp: domain_frame_count_def frame_count_def dict_sum_nonneg split: option.splits
      intro: dict_sum_ge [where f = "\<lambda>st. int (length (ds_entries st))"])

lemma evicted_put_inv:
  assumes inv: "rl_inv l" and st: "dict_get (rl_domains l) d = Some st"
  shows "rl_inv (put_state d (drop_n n (st, rl_total_bytes l)) l)"
proof -
  let ?p = "drop_n n (st, rl_total_bytes l)"
  have core: "rl_core l" using inv by (simp add: rl_inv_def)
  have ok: "ds_ok (rl_max_count l) (rl_order l) d st" using core st by (rule rl_coreD)
  then have ok': "ds_ok (rl_max_count l) (rl_order l) d (fst ?p)"
    using ds_ok_drop_n [of _ _ _ "(st, rl_total_bytes l)"] by simp
  have tot: "snd ?p = rl_total_bytes l - old_bytes l d + ds_bytes (fst ?p)"
    using st by (simp add: drop_n_total [of n "(st, rl_total_bytes l)"] old_bytes_def)
  have "rl_core (put_state d ?p l)" using core ok' tot by (rule put_state_core)
  moreover have "snd ?p \<le> rl_total_bytes l" by (simp add: drop_n_def)
  moreover have "frame_count (put_state d ?p l) \<le> frame_count l"
    using st by (simp add: frame_count_put domain_frame_count_def)
  ultimately show ?thesis using inv by (auto simp: rl_inv_def)
qed

section \<open>Byte eviction\<close>

lemma pick_victim_None: "pick_victim ds best = None \<longleftrightarrow> best = None \<and> (\<forall>(d, st)\<in>set ds. ds_entries st = [])"
proof (induction ds arbitrary: best)
  case (Cons p ds)
  obtain d st where p: "p = (d, st)" by (cases p)
  with Cons show ?case by (cases "ds_entries st") (auto split: option.splits)
qed simp

lemma pick_victim_Some:
  "pick_victim ds best = Some (d, b) \<Longrightarrow>
     (best = Some (d, b) \<or> (\<exists>st e es. (d, st) \<in> set ds \<and> ds_entries st = e # es \<and> e_order e = b)) \<and>
     (\<forall>d' b'. best = Some (d', b') \<longrightarrow> b \<le> b') \<and>
     (\<forall>(d', st')\<in>set ds. \<forall>e' es'. ds_entries st' = e' # es' \<longrightarrow> b \<le> e_order e')"
proof (induction ds arbitrary: best)
  case (Cons p ds)
  obtain d1 st1 where p: "p = (d1, st1)" by (cases p)
  define best' where "best' = (case ds_entries st1 of
          [] \<Rightarrow> best
        | e # _ \<Rightarrow> (case best of
                     None \<Rightarrow> Some (d1, e_order e)
                   | Some (_, b) \<Rightarrow> if e_order e < b then Some (d1, e_order e) else best))"
  have "pick_victim ds best' = Some (d, b)" using Cons.prems p by (simp add: best'_def)
  note ih = Cons.IH [OF this]
  show ?case
  proof (cases "ds_entries st1")
    case Nil
    then show ?thesis using ih p by (auto simp: best'_def)
  next
    case (Cons e es)
    show ?thesis
    proof (cases best)
      case None
      then show ?thesis using ih p Cons by (force simp: best'_def)
    next
      case (Some q)
      obtain d0 b0 where "q = (d0, b0)" by (cases q)
      then show ?thesis using ih p Cons Some by (cases "e_order e < b0") (force simp: best'_def)+
    qed
  qed
qed simp

lemma victim_head:
  assumes "rl_core l" and "pick_victim (rl_domains l) None = Some (d, b)"
  obtains st e es where "dict_get (rl_domains l) d = Some st" and "ds_entries st = e # es"
    and "e_order e = b"
    and "\<And>d' st' e'. dict_get (rl_domains l) d' = Some st' \<Longrightarrow> e' \<in> set (ds_entries st') \<Longrightarrow>
           b \<le> e_order e'"
proof -
  from pick_victim_Some [OF assms(2)] obtain st e es
    where st: "(d, st) \<in> set (rl_domains l)" "ds_entries st = e # es" "e_order e = b"
      and least: "\<forall>(d', st')\<in>set (rl_domains l). \<forall>e' es'. ds_entries st' = e' # es' \<longrightarrow> b \<le> e_order e'"
    by auto
  have "dict_get (rl_domains l) d = Some st"
    using rl_coreD(1) [OF assms(1)] st(1) by (rule dict_in_set_get)
  moreover have "b \<le> e_order e'"
    if g: "dict_get (rl_domains l) d' = Some st'" and e': "e' \<in> set (ds_entries st')" for d' st' e'
  proof -
    obtain h hs where hs: "ds_entries st' = h # hs" using e' by (cases "ds_entries st'") auto
    have "b \<le> e_order h" using least dict_get_in_set [OF g] hs by blast
    moreover have "sorted_wrt (<) (map e_order (ds_entries st'))"
      using rl_coreD(3) [OF assms(1) g] by (simp add: ds_ok_def ds_core_def)
    ultimately show ?thesis using e' hs by force
  qed
  ultimately show thesis using st(2,3) that by blast
qed

lemma drop_head_of_core:
  assumes "rl_core l" and "dict_get (rl_domains l) d = Some st" and "ds_entries st = e # es"
  shows "rl_core (drop_head_of d l)" and "frame_count (drop_head_of d l) = frame_count l - 1"
proof -
  let ?p = "drop_n (Suc 0) (st, rl_total_bytes l)"
  have eq: "drop_head_of d l = put_state d ?p l"
    using assms(2) by (simp add: drop_head_of_def drop_head_drop_n)
  have "ds_ok (rl_max_count l) (rl_order l) d (fst ?p)"
    using ds_ok_drop_n [of _ _ _ "(st, rl_total_bytes l)"] rl_coreD(3) [OF assms(1,2)] by simp
  moreover have "snd ?p = rl_total_bytes l - old_bytes l d + ds_bytes (fst ?p)"
    using assms(2) by (simp add: drop_n_total [of _ "(st, rl_total_bytes l)"] old_bytes_def)
  ultimately show "rl_core (drop_head_of d l)" using assms(1) eq put_state_core by metis
  show "frame_count (drop_head_of d l) = frame_count l - 1"
    using assms(2,3) by (simp add: eq frame_count_put domain_frame_count_def)
qed

lemma frame_count_pos_victim:
  assumes "rl_core l" and "0 < frame_count l"
  obtains d b where "pick_victim (rl_domains l) None = Some (d, b)"
proof (cases "pick_victim (rl_domains l) None")
  case None
  then have "\<forall>(d, st)\<in>set (rl_domains l). ds_entries st = []"
    using pick_victim_None by blast
  then have "frame_count l = 0"
    by (auto simp: frame_count_def intro!: dict_sum_zero)
  with assms show ?thesis by simp
next
  case (Some q)
  with that show ?thesis by (cases q) auto
qed

lemma drop_head_of_simps [simp]:
  "rl_max_bytes (drop_head_of d l) = rl_max_bytes l"
  "rl_epoch (drop_head_of d l) = rl_epoch l"
  "rl_max_count (drop_head_of d l) = rl_max_count l"
  "rl_ttl_s (drop_head_of d l) = rl_ttl_s l"
  "rl_size_of (drop_head_of d l) = rl_size_of l"
  "rl_order (drop_head_of d l) = rl_order l"
  "rl_closed (drop_head_of d l) = rl_closed l"
  by (simp_all add: drop_head_of_def split: option.splits)

text \<open>
  \<open>rl_shrunk l l'\<close>: the second log is the first with a prefix of some windows dropped (and the
  byte ledgers adjusted); nothing else differs.
\<close>

definition ds_shrunk :: "'p domain_state \<Rightarrow> 'p domain_state \<Rightarrow> bool" where
  "ds_shrunk st st' \<longleftrightarrow> (\<exists>k. st' = fst (drop_n k (st, 0)))"

definition same_config :: "'p replay_log \<Rightarrow> 'p replay_log \<Rightarrow> bool" where
  "same_config l l' \<longleftrightarrow>
     rl_epoch l' = rl_epoch l \<and> rl_max_count l' = rl_max_count l \<and>
     rl_max_bytes l' = rl_max_bytes l \<and> rl_ttl_s l' = rl_ttl_s l \<and> rl_size_of l' = rl_size_of l"

definition rl_shrunk :: "'p replay_log \<Rightarrow> 'p replay_log \<Rightarrow> bool" where
  "rl_shrunk l l' \<longleftrightarrow>
     same_config l l' \<and> rl_order l' = rl_order l \<and> rl_closed l' = rl_closed l \<and>
     (\<forall>d. rel_option ds_shrunk (dict_get (rl_domains l) d) (dict_get (rl_domains l') d))"

lemma drop_n_fst_indep: "fst (drop_n k (st, a)) = fst (drop_n k (st, b))"
  by (simp add: drop_n_def)

lemma ds_shrunk_refl [simp]: "ds_shrunk st st"
  unfolding ds_shrunk_def by (rule exI [of _ 0]) simp

lemma ds_shrunk_drop_n [simp]: "ds_shrunk st (fst (drop_n k (st, t)))"
  unfolding ds_shrunk_def using drop_n_fst_indep by blast

lemma drop_n_add: "drop_n k (drop_n n p) = drop_n (n + k) p"
proof (induction n arbitrary: p)
  case (Suc n)
  have "drop_n k (drop_n (Suc n) p) = drop_n k (drop_n n (drop_n (Suc 0) p))"
    by (simp add: drop_n_Suc)
  also have "\<dots> = drop_n (n + k) (drop_n (Suc 0) p)" by (rule Suc)
  finally show ?case by (simp add: drop_n_Suc)
qed simp

lemma ds_shrunk_trans: "ds_shrunk a b \<Longrightarrow> ds_shrunk b c \<Longrightarrow> ds_shrunk a c"
proof -
  assume "ds_shrunk a b" "ds_shrunk b c"
  then obtain k n where b: "b = fst (drop_n k (a, 0))" and c: "c = fst (drop_n n (b, 0))"
    by (auto simp: ds_shrunk_def)
  have "c = fst (drop_n n (drop_n k (a, 0)))"
    using b c drop_n_fst_indep [of n b 0 "snd (drop_n k (a, 0))"] by simp
  then show "ds_shrunk a c" by (auto simp: drop_n_add ds_shrunk_def)
qed

lemma rl_shrunk_refl [simp]: "rl_shrunk l l"
  by (auto simp: rl_shrunk_def same_config_def option.rel_refl)

lemma rel_option_shrunk_trans:
  "rel_option ds_shrunk a b \<Longrightarrow> rel_option ds_shrunk b c \<Longrightarrow> rel_option ds_shrunk a c"
  by (cases a; cases b; cases c) (auto intro: ds_shrunk_trans)

lemma rl_shrunk_trans: "rl_shrunk a b \<Longrightarrow> rl_shrunk b c \<Longrightarrow> rl_shrunk a c"
  unfolding rl_shrunk_def same_config_def by (auto intro: rel_option_shrunk_trans)

lemma rl_shrunk_put:
  assumes "dict_get (rl_domains l) d = Some st"
  shows "rl_shrunk l (put_state d (drop_n k (st, t)) l)"
  using assms by (auto simp: rl_shrunk_def same_config_def option.rel_refl)

lemma rl_shrunk_drop_head: "rl_shrunk l (drop_head_of d l)"
  by (auto simp: drop_head_of_def drop_head_drop_n rl_shrunk_put split: option.splits)

lemma evict_bytes_loop_induct:
  assumes "P l" and "rl_core l" and "n = nat (frame_count l)"
    and step: "\<And>l d b. \<lbrakk>P l; rl_core l; 1 < frame_count l; pick_victim (rl_domains l) None = Some (d, b)\<rbrakk>
           \<Longrightarrow> P (drop_head_of d l)"
  shows "P (evict_bytes_loop n l) \<and> rl_inv (evict_bytes_loop n l)"
  using assms(1-3)
proof (induction n arbitrary: l)
  case 0
  then show ?case using frame_count_nonneg [of l] by (simp add: rl_inv_def)
next
  case (Suc n)
  show ?case
  proof (cases "rl_total_bytes l > rl_max_bytes l \<and> Suc n > 1")
    case True
    then have fc: "1 < frame_count l" "n = nat (frame_count l - 1)" using Suc.prems(3) by auto
    obtain d b where v: "pick_victim (rl_domains l) None = Some (d, b)"
      using frame_count_pos_victim [OF Suc.prems(2)] fc by force
    obtain st e es where st: "dict_get (rl_domains l) d = Some st" "ds_entries st = e # es"
      using victim_head [OF Suc.prems(2) v] by metis
    note core = drop_head_of_core [OF Suc.prems(2) st]
    have P': "P (drop_head_of d l)" using Suc.prems fc v step by blast
    have n: "n = nat (frame_count (drop_head_of d l))" using fc core by simp
    from Suc.IH [OF P' core(1) n] True v show ?thesis by simp
  next
    case False
    then have "rl_total_bytes l \<le> rl_max_bytes l \<or> frame_count l \<le> 1" using Suc.prems(3) by linarith
    then have "rl_inv l" using Suc.prems(2) by (simp add: rl_inv_def)
    moreover have "evict_bytes_loop (Suc n) l = l" using False by auto
    ultimately show ?thesis using Suc.prems(1) by simp
  qed
qed

lemma evict_for_bytes_induct:
  assumes "P l" and "rl_core l"
    and "\<And>l d b. \<lbrakk>P l; rl_core l; 1 < frame_count l; pick_victim (rl_domains l) None = Some (d, b)\<rbrakk>
           \<Longrightarrow> P (drop_head_of d l)"
  shows "P (evict_for_bytes l) \<and> rl_inv (evict_for_bytes l)"
proof (cases "rl_total_bytes l \<le> rl_max_bytes l")
  case True
  with assms(1,2) show ?thesis by (simp add: evict_for_bytes_def rl_inv_def)
next
  case False
  with evict_bytes_loop_induct [OF assms(1,2) refl assms(3)] show ?thesis
    by (simp add: evict_for_bytes_def)
qed

lemma evict_for_bytes_shrunk:
  "rl_core l \<Longrightarrow> rl_shrunk l (evict_for_bytes l) \<and> rl_inv (evict_for_bytes l)"
  by (rule evict_for_bytes_induct) (auto intro: rl_shrunk_trans rl_shrunk_drop_head)

text \<open>The newest frame survives byte eviction.\<close>

definition is_newest :: "string \<Rightarrow> 'p replay_entry \<Rightarrow> 'p replay_log \<Rightarrow> bool" where
  "is_newest d e l \<longleftrightarrow>
     (\<exists>st. dict_get (rl_domains l) d = Some st \<and> ds_entries st \<noteq> [] \<and> last (ds_entries st) = e) \<and>
     (\<forall>d' st'. d' \<noteq> d \<longrightarrow> dict_get (rl_domains l) d' = Some st' \<longrightarrow>
        (\<forall>e'\<in>set (ds_entries st'). e_order e' < e_order e))"

lemma frame_count_single:
  assumes "rl_core l" and "dict_get (rl_domains l) d = Some st"
    and "\<And>d' st'. d' \<noteq> d \<Longrightarrow> dict_get (rl_domains l) d' = Some st' \<Longrightarrow> ds_entries st' = []"
  shows "frame_count l = int (length (ds_entries st))"
proof -
  let ?f = "\<lambda>st. int (length (ds_entries st))"
  have wf: "dict_wf (rl_domains l)" using assms(1) by (rule rl_coreD)
  have "dict_sum ?f (dict_pop d (rl_domains l)) = 0"
  proof (rule dict_sum_zero)
    fix p assume "p \<in> set (dict_pop d (rl_domains l))"
    then have "fst p \<noteq> d" and "dict_get (rl_domains l) (fst p) = Some (snd p)"
      using wf by (auto simp: dict_pop_def intro: dict_in_set_get)
    then show "?f (snd p) = 0" using assms(3) by simp
  qed
  then show ?thesis using assms(2) wf by (simp add: dict_sum_pop frame_count_def)
qed

lemma newest_kept:
  assumes new: "is_newest d e l" and core: "rl_core l" and fc: "1 < frame_count l"
    and v: "pick_victim (rl_domains l) None = Some (dv, b)"
  shows "is_newest d e (drop_head_of dv l)"
proof -
  obtain st where st: "dict_get (rl_domains l) d = Some st" "ds_entries st \<noteq> []" "last (ds_entries st) = e"
    using new by (auto simp: is_newest_def)
  obtain sv h hs where sv: "dict_get (rl_domains l) dv = Some sv" "ds_entries sv = h # hs" "e_order h = b"
    and least: "\<And>d' st' e'. dict_get (rl_domains l) d' = Some st' \<Longrightarrow> e' \<in> set (ds_entries st') \<Longrightarrow>
           b \<le> e_order e'"
    using victim_head [OF core v] by metis
  have others: "\<forall>d' st'. d' \<noteq> d \<longrightarrow> dict_get (rl_domains l) d' = Some st' \<longrightarrow>
        (\<forall>e'\<in>set (ds_entries st'). e_order e' < e_order e)"
    using new by (simp add: is_newest_def)
  have get: "dict_get (rl_domains (drop_head_of dv l)) x =
      (if x = dv then Some (fst (drop_n (Suc 0) (sv, rl_total_bytes l))) else dict_get (rl_domains l) x)" for x
    using sv by (simp add: drop_head_of_def drop_head_drop_n)
  show ?thesis
  proof (cases "dv = d")
    case True
    with sv st have sv_eq: "sv = st" by simp
    have "hs \<noteq> []"
    proof
      assume "hs = []"
      with sv sv_eq st have "b = e_order e" by simp
      then have "ds_entries st' = []" if "d' \<noteq> d" "dict_get (rl_domains l) d' = Some st'" for d' st'
        using others least that by (cases "ds_entries st'") force+
      then have "frame_count l = int (length (ds_entries st))"
        using core st(1) frame_count_single by blast
      then show False using fc sv sv_eq \<open>hs = []\<close> by simp
    qed
    with True sv sv_eq st others get show ?thesis by (auto simp: is_newest_def)
  next
    case False
    with st others get sv show ?thesis by (fastforce simp: is_newest_def)
  qed
qed

lemma evict_for_bytes_newest:
  assumes "is_newest d e l" and "rl_core l"
  shows "is_newest d e (evict_for_bytes l)"
  using evict_for_bytes_induct [where P = "is_newest d e", OF assms] newest_kept by blast

section \<open>Appending\<close>

definition push_entry :: "'p replay_entry \<Rightarrow> 'p domain_state \<Rightarrow> 'p domain_state" where
  "push_entry e st = st\<lparr>ds_next_seq := ds_next_seq st + 1, ds_last_seq := e_seq e,
     ds_entries := ds_entries st @ [e], ds_bytes := ds_bytes st + int (e_size e)\<rparr>"

lemma ds_core_push:
  assumes core: "ds_core ord d st" and next1: "ds_next_seq st = ds_last_seq st + 1"
    and e: "e_seq e = ds_next_seq st" "e_domain e = d" "e_order e = ord + 1"
  shows "ds_core (ord + 1) d (push_entry e st)"
proof -
  let ?n = "int (length (ds_entries st))"
  have "[ds_last_seq st - ?n + 1..ds_last_seq st + 1] =
        [ds_last_seq st - ?n + 1..ds_last_seq st] @ [ds_last_seq st + 1]"
    using upto_rec2 [of "ds_last_seq st - ?n + 1" "ds_last_seq st + 1"] by simp
  with core next1 e show ?thesis
    by (fastforce simp: ds_core_def push_entry_def sorted_wrt_append)
qed

definition new_entry :: "'p replay_log \<Rightarrow> string \<Rightarrow> 'p \<Rightarrow> string \<Rightarrow> real \<Rightarrow> nat \<Rightarrow> 'p replay_entry" where
  "new_entry l d payload kind now sz =
     \<lparr>e_domain = d, e_seq = ds_next_seq (state_or_new l d), e_payload = payload, e_kind = kind,
      e_appended_at = now, e_size = sz, e_order = rl_order l + 1\<rparr>"

definition ttl_prefix :: "'p replay_log \<Rightarrow> real \<Rightarrow> 'p domain_state \<Rightarrow> nat" where
  "ttl_prefix l now st =
     length (takeWhile (\<lambda>e. now - e_appended_at e > rl_ttl_s l) (ds_entries st))"

text \<open>The log right before the byte eviction of a successful append.\<close>

definition appended :: "'p replay_log \<Rightarrow> string \<Rightarrow> 'p replay_entry \<Rightarrow> real \<Rightarrow> nat \<Rightarrow> 'p replay_log" where
  "appended l d e now k =
     put_state d
       (drop_n k (push_entry e (fst (drop_n (ttl_prefix l now (state_or_new l d))
                    (state_or_new l d, rl_total_bytes l))),
          snd (drop_n (ttl_prefix l now (state_or_new l d)) (state_or_new l d, rl_total_bytes l))
            + int (e_size e)))
       (l\<lparr>rl_order := rl_order l + 1\<rparr>)"

lemma put_state_put [simp]: "put_state d p (put_state d q l) = put_state d p l"
  by (simp add: put_state_def)

lemma put_state_order: "put_state d p (put_state d q l\<lparr>rl_order := n\<rparr>) = put_state d p (l\<lparr>rl_order := n\<rparr>)"
  by (simp add: put_state_def)

lemma append_frame_eq:
  assumes "rl_core l" and "\<not> rl_closed l" and "d \<noteq> ''''" and "rl_size_of l payload = Some sz"
  shows "append_frame l d payload kind None now =
    (Inr (new_entry l d payload kind now sz),
     evict_for_bytes
       (appended l d (new_entry l d payload kind now sz) now
         (Suc (length (ds_entries (state_or_new l d)) - ttl_prefix l now (state_or_new l d))
            - nat (rl_max_count l))))"
proof -
  let ?st = "state_or_new l d"
  let ?k = "ttl_prefix l now ?st"
  have mx: "0 \<le> rl_max_count l" using rl_coreD(4) [OF assms(1)] by simp
  have ttl: "fst (ttl_evict_head (rl_ttl_s l) now (?st, rl_total_bytes l)) = drop_n ?k (?st, rl_total_bytes l)"
    by (simp add: ttl_evict_head_eq ttl_prefix_def Let_def)
  show ?thesis
    using assms(2-)
    by (simp add: append_frame_def ttl append_seq_def Let_def evict_for_count_eq [OF mx] appended_def
        new_entry_def push_entry_def put_state_order)
qed

lemma append_frame_fail:
  "rl_closed l \<Longrightarrow> append_frame l d payload kind seq now = (Inl RuntimeError, l)"
  "\<not> rl_closed l \<Longrightarrow> d = '''' \<Longrightarrow> append_frame l d payload kind seq now = (Inl ValueError, l)"
  "\<not> rl_closed l \<Longrightarrow> d \<noteq> '''' \<Longrightarrow> rl_size_of l payload = None \<Longrightarrow>
     append_frame l d payload kind seq now =
       (Inl SizeOfError,
        put_state d (drop_n (ttl_prefix l now (state_or_new l d)) (state_or_new l d, rl_total_bytes l)) l)"
  by (simp_all add: append_frame_def Let_def ttl_evict_head_eq ttl_prefix_def)

lemma domain_frame_count_state: "domain_frame_count l d = int (length (ds_entries (state_or_new l d)))"
  by (simp add: domain_frame_count_def state_or_new_def new_domain_state_def split: option.splits)

lemma shell_put_inv:
  assumes inv: "rl_inv l"
  shows "rl_inv (put_state d (drop_n n (state_or_new l d, rl_total_bytes l)) l)"
proof (cases "dict_get (rl_domains l) d")
  case None
  let ?p = "drop_n n (state_or_new l d, rl_total_bytes l)"
  have core: "rl_core l" using inv by (simp add: rl_inv_def)
  have eq: "?p = (new_domain_state, rl_total_bytes l)"
    using None by (simp add: state_or_new_def drop_n_def new_domain_state_def)
  have ok: "ds_ok (rl_max_count l) (rl_order l) d (fst ?p)"
    unfolding eq using rl_coreD(4) [OF core] by (simp add: ds_ok_new)
  have tot: "snd ?p = rl_total_bytes l - old_bytes l d + ds_bytes (fst ?p)"
    unfolding eq using None by (simp add: old_bytes_def new_domain_state_def)
  have "rl_core (put_state d ?p l)" using core ok tot by (rule put_state_core)
  moreover have "frame_count (put_state d ?p l) = frame_count l"
    unfolding eq using None by (simp add: frame_count_put domain_frame_count_def new_domain_state_def)
  ultimately show ?thesis using inv by (simp add: rl_inv_def eq)
next
  case (Some st)
  with evicted_put_inv [OF inv Some] show ?thesis by (simp add: state_or_new_def)
qed

lemma appended_core:
  assumes core: "rl_core l" and e: "e = new_entry l d payload kind now sz"
    and k: "k = Suc (length (ds_entries (state_or_new l d)) - ttl_prefix l now (state_or_new l d))
               - nat (rl_max_count l)"
  shows "rl_core (appended l d e now k)" and "is_newest d e (appended l d e now k)"
proof -
  let ?st = "state_or_new l d"
  let ?j = "ttl_prefix l now ?st"
  let ?q = "drop_n ?j (?st, rl_total_bytes l)"
  let ?r = "(push_entry e (fst ?q), snd ?q + int (e_size e))"
  let ?l' = "l\<lparr>rl_order := rl_order l + 1\<rparr>"
  have mx: "1 \<le> rl_max_count l" using core by (rule rl_coreD)
  have ok: "ds_ok (rl_max_count l) (rl_order l) d ?st" using core by (rule state_or_new_ok)
  then have q: "ds_core (rl_order l) d (fst ?q)" "ds_next_seq (fst ?q) = ds_last_seq (fst ?q) + 1"
    by (auto simp: ds_ok_def ds_core_drop_n)
  have "ds_core (rl_order l + 1) d (push_entry e (fst ?q))"
    using q by (rule ds_core_push) (simp_all add: e new_entry_def)
  then have "ds_core (rl_order l + 1) d (fst (drop_n k ?r))"
    using ds_core_drop_n [of _ _ ?r] by simp
  moreover have "ds_next_seq (push_entry e (fst ?q)) = ds_last_seq (push_entry e (fst ?q)) + 1"
    using ok by (simp add: push_entry_def e new_entry_def ds_ok_def)
  moreover have "int (length (ds_entries (push_entry e (fst ?q))) - k) \<le> rl_max_count l"
    using mx by (simp add: push_entry_def k)
  ultimately have ok4: "ds_ok (rl_max_count ?l') (rl_order ?l') d (fst (drop_n k ?r))"
    by (simp add: ds_ok_def)
  have "snd ?q = rl_total_bytes l - old_bytes l d + ds_bytes (fst ?q)"
    by (simp add: drop_n_total [of ?j] state_or_new_bytes)
  then have tot: "snd (drop_n k ?r) =
      rl_total_bytes ?l' - old_bytes ?l' d + ds_bytes (fst (drop_n k ?r))"
    by (simp add: drop_n_total [of k] push_entry_def old_bytes_def)
  have "rl_core ?l'" using core by (rule rl_core_order) simp
  then show "rl_core (appended l d e now k)"
    unfolding appended_def using ok4 tot by (intro put_state_core) auto
  have "k < length (ds_entries (fst ?q) @ [e])" using mx by (simp add: k)
  then have "last (drop k (ds_entries (fst ?q) @ [e])) = e" by (simp add: last_drop)
  moreover have "e_order e' < e_order e"
    if "d' \<noteq> d" "dict_get (rl_domains l) d' = Some st'" "e' \<in> set (ds_entries st')" for d' st' e'
    using rl_coreD(3) [OF core that(2)] that(3) by (force simp: ds_ok_def ds_core_def e new_entry_def)
  ultimately show "is_newest d e (appended l d e now k)"
    using mx by (auto simp: is_newest_def appended_def push_entry_def k)
qed

lemma append_frame_inv: "rl_inv l \<Longrightarrow> rl_inv (snd (append_frame l d payload kind None now))"
proof -
  assume inv: "rl_inv l"
  then have core: "rl_core l" by (simp add: rl_inv_def)
  consider "rl_closed l" | "\<not> rl_closed l" "d = ''''"
    | "\<not> rl_closed l" "d \<noteq> ''''" "rl_size_of l payload = None"
    | sz where "\<not> rl_closed l" "d \<noteq> ''''" "rl_size_of l payload = Some sz" by fastforce
  then show ?thesis
  proof cases
    case 4
    show ?thesis
      unfolding append_frame_eq [OF core 4]
      using evict_for_bytes_shrunk [OF appended_core(1) [OF core refl refl]] by simp
  qed (use inv in \<open>simp_all add: append_frame_fail shell_put_inv\<close>)
qed

section \<open>The publishing protocol\<close>

text \<open>
  With no reservation outstanding, reserve-then-append is the same state change as a plain
  append, and every failure leaves the sequence where it was.
\<close>

lemma reserve_seq_eq:
  "\<not> rl_closed l \<Longrightarrow> d \<noteq> '''' \<Longrightarrow>
   reserve_seq l d = (Inr (ds_next_seq (state_or_new l d)),
     l\<lparr>rl_domains := dict_set d ((state_or_new l d)\<lparr>ds_next_seq := ds_next_seq (state_or_new l d) + 1\<rparr>)
        (rl_domains l)\<rparr>)"
  by (simp add: reserve_seq_def Let_def)

lemma next_seq_self: "ds_next_seq st = n \<Longrightarrow> st\<lparr>ds_next_seq := n\<rparr> = st"
  by auto

lemma reserved_append:
  assumes core: "rl_core l" and nc: "\<not> rl_closed l" and d: "d \<noteq> ''''"
  defines "st \<equiv> state_or_new l d"
  defines "l1 \<equiv> l\<lparr>rl_domains := dict_set d (st\<lparr>ds_next_seq := ds_next_seq st + 1\<rparr>) (rl_domains l)\<rparr>"
  shows "rl_size_of l f = Some sz \<Longrightarrow>
      append_frame l1 d f kind (Some (ds_next_seq st)) now = append_frame l d f kind None now"
    and "rl_size_of l f = None \<Longrightarrow>
      append_frame l1 d f kind (Some (ds_next_seq st)) now = (Inl SizeOfError, l2) \<Longrightarrow>
      snd (rollback_seq l2 d (ds_next_seq st)) = snd (append_frame l d f kind None now)"
proof -
  have nx: "ds_next_seq st = ds_last_seq st + 1"
    using state_or_new_ok [OF core] by (simp add: st_def ds_ok_def)
  have s1: "state_or_new l1 d = st\<lparr>ds_next_seq := ds_next_seq st + 1\<rparr>"
    by (simp add: l1_def state_or_new_def)
  have tp: "ttl_prefix l1 now (st\<lparr>ds_next_seq := n\<rparr>) = ttl_prefix l now st" for n
    by (simp add: ttl_prefix_def l1_def)
  let ?k = "ttl_prefix l now st"
  have dn: "drop_n ?k (st\<lparr>ds_next_seq := n\<rparr>, t) =
      ((fst (drop_n ?k (st, t)))\<lparr>ds_next_seq := n\<rparr>, snd (drop_n ?k (st, t)))" for n t
    by (simp add: drop_n_def)
  have ttl: "fst (ttl_evict_head (rl_ttl_s l) now (s, t)) = drop_n (ttl_prefix l now s) (s, t)" for s t
    by (simp add: ttl_evict_head_eq ttl_prefix_def Let_def)
  have tp': "ttl_prefix l now (st\<lparr>ds_next_seq := n\<rparr>) = ttl_prefix l now st" for n
    by (simp add: ttl_prefix_def)
  have l1: "rl_closed l1 = rl_closed l" "rl_size_of l1 = rl_size_of l" "rl_total_bytes l1 = rl_total_bytes l"
    by (simp_all add: l1_def)
  have put: "put_state d p l1 = put_state d p l" for p
    by (simp add: put_state_def l1_def)
  show "rl_size_of l f = Some sz \<Longrightarrow>
      append_frame l1 d f kind (Some (ds_next_seq st)) now = append_frame l d f kind None now"
    using nc d nx s1
    by (simp add: append_frame_def Let_def append_seq_def ttl tp' dn put_state_def l1_def
        flip: st_def)
  show "snd (rollback_seq l2 d (ds_next_seq st)) = snd (append_frame l d f kind None now)"
    if "rl_size_of l f = None" "append_frame l1 d f kind (Some (ds_next_seq st)) now = (Inl SizeOfError, l2)"
  proof -
    have "l2 = put_state d (drop_n ?k (st\<lparr>ds_next_seq := ds_next_seq st + 1\<rparr>, rl_total_bytes l)) l"
      using that nc d append_frame_fail(3) [of l1 d f kind "Some (ds_next_seq st)" now]
      by (simp add: s1 tp put l1)
    moreover have "append_frame l d f kind None now = (Inl SizeOfError, put_state d (drop_n ?k (st, rl_total_bytes l)) l)"
      using that(1) nc d by (simp add: append_frame_fail st_def)
    ultimately show ?thesis
      using nx by (simp add: rollback_seq_def dn put_state_def next_seq_self)
  qed
qed

lemma publish_seq_eq:
  assumes core: "rl_core l"
  shows "publish_seq l d build kind now =
    (if rl_closed l \<or> d = '''' then (None, l)
     else (case build (ds_next_seq (state_or_new l d)) of
             None \<Rightarrow> (None, put_state d (state_or_new l d, rl_total_bytes l) l)
           | Some f \<Rightarrow>
               (case append_frame l d f kind None now of
                  (Inl _, l') \<Rightarrow> (None, l')
                | (Inr e, l') \<Rightarrow> (Some (e, f), l'))))"
proof (cases "rl_closed l \<or> d = ''''")
  case True
  then show ?thesis by (auto simp: publish_seq_def reserve_seq_def)
next
  case False
  let ?st = "state_or_new l d"
  let ?l1 = "l\<lparr>rl_domains := dict_set d (?st\<lparr>ds_next_seq := ds_next_seq ?st + 1\<rparr>) (rl_domains l)\<rparr>"
  have nx: "ds_next_seq ?st = ds_last_seq ?st + 1"
    using state_or_new_ok [OF core] by (simp add: ds_ok_def)
  show ?thesis
  proof (cases "build (ds_next_seq ?st)")
    case None
    then show ?thesis
      using False nx by (simp add: publish_seq_def reserve_seq_eq rollback_seq_def put_state_def next_seq_self)
  next
    case (Some f)
    show ?thesis
    proof (cases "rl_size_of l f")
      case None
      have a: "fst (append_frame l d f kind None now) = Inl SizeOfError"
        using False None by (simp add: append_frame_fail)
      obtain l2 where l2: "append_frame ?l1 d f kind (Some (ds_next_seq ?st)) now = (Inl SizeOfError, l2)"
        using False None by (simp add: append_frame_fail)
      have "snd (rollback_seq l2 d (ds_next_seq ?st)) = snd (append_frame l d f kind None now)"
        using reserved_append(2) [OF core _ _ None l2] False by simp
      with a False Some l2 show ?thesis
        by (cases "append_frame l d f kind None now") (simp add: publish_seq_def reserve_seq_eq)
    next
      case (Some sz)
      with \<open>build _ = Some f\<close> False show ?thesis
        using reserved_append(1) [OF core _ _ Some]
        by (simp add: publish_seq_def reserve_seq_eq append_frame_eq [OF core])
    qed
  qed
qed

lemma publish_seq_inv: "rl_inv l \<Longrightarrow> rl_inv (snd (publish_seq l d build kind now))"
proof -
  assume inv: "rl_inv l"
  then have core: "rl_core l" by (simp add: rl_inv_def)
  have "rl_inv (put_state d (state_or_new l d, rl_total_bytes l) l)"
    using shell_put_inv [OF inv, of d 0] by simp
  then show ?thesis
    using inv append_frame_inv [OF inv, of d _ kind now]
    by (auto simp: publish_seq_eq [OF core] split: option.splits prod.splits sum.splits) (metis snd_conv)+
qed

section \<open>The remaining operations\<close>

lemma map_of_map_snd: "map_of (map (\<lambda>(k, v). (k, f v)) d) k = map_option f (map_of d k)"
  by (induction d) auto

lemma dict_get_map: "dict_get (map (\<lambda>(k, v). (k, f v)) d) k = map_option f (dict_get d k)"
  by (simp add: dict_get_def map_of_map_snd)

lemma dict_wf_map: "dict_wf (map (\<lambda>(k, v). (k, f v)) d) = dict_wf d"
  by (simp add: dict_wf_def comp_def split_def)

lemma dict_sum_map: "dict_sum g (map (\<lambda>(k, v). (k, f v)) d) = dict_sum (\<lambda>v. g (f v)) d"
  by (induction d) auto

lemma raise_barrier_simps [simp]:
  "ds_entries (raise_barrier st) = ds_entries st"
  "ds_last_seq (raise_barrier st) = ds_last_seq st"
  "ds_next_seq (raise_barrier st) = ds_next_seq st"
  "ds_bytes (raise_barrier st) = ds_bytes st"
  "ds_invalidated (raise_barrier st) = ds_invalidated st"
  by (simp_all add: raise_barrier_def)

lemma raise_barrier_watermark:
  "ds_core ord d st \<Longrightarrow> ds_barrier_watermark (raise_barrier st) = Some (ds_last_seq st)"
  by (force simp: raise_barrier_def ds_core_def split: option.splits)

lemma ds_ok_raise: "ds_ok mx ord d st \<Longrightarrow> ds_ok mx ord d (raise_barrier st)"
  by (auto simp: ds_ok_def ds_core_def raise_barrier_def split: option.splits)

lemma gc_barrier_simps [simp]:
  "ds_entries (gc_barrier st) = ds_entries st"
  "ds_last_seq (gc_barrier st) = ds_last_seq st"
  "ds_next_seq (gc_barrier st) = ds_next_seq st"
  "ds_bytes (gc_barrier st) = ds_bytes st"
  "ds_invalidated (gc_barrier st) = ds_invalidated st"
  by (auto simp: gc_barrier_def split: list.splits option.splits)

lemma ds_ok_gc: "ds_ok mx ord d st \<Longrightarrow> ds_ok mx ord d (gc_barrier st)"
  by (auto simp: ds_ok_def ds_core_def gc_barrier_def split: list.splits option.splits)

lemma ds_ok_inval: "ds_ok mx ord d (st\<lparr>ds_invalidated := b\<rparr>) = ds_ok mx ord d st"
  by (simp add: ds_ok_def ds_core_def)

text \<open>Replacing every domain state by one with the same window keeps the invariant.\<close>

lemma rl_inv_map:
  assumes "rl_inv l"
    and "\<And>st. ds_bytes (f st) = ds_bytes st" and "\<And>st. ds_entries (f st) = ds_entries st"
    and "\<And>d st. ds_ok (rl_max_count l) (rl_order l) d st \<Longrightarrow> ds_ok (rl_max_count l) (rl_order l) d (f st)"
  shows "rl_inv (l\<lparr>rl_domains := map (\<lambda>(d, st). (d, f st)) (rl_domains l)\<rparr>)"
  using assms by (auto simp: rl_inv_def rl_core_def frame_count_def dict_get_map dict_wf_map dict_sum_map)

lemma rl_inv_set:
  assumes "rl_inv l" and "ds_bytes st' = ds_bytes (state_or_new l d)" and "ds_entries st' = ds_entries (state_or_new l d)"
    and "ds_ok (rl_max_count l) (rl_order l) d st'"
  shows "rl_inv (l\<lparr>rl_domains := dict_set d st' (rl_domains l)\<rparr>)"
proof -
  have eq: "l\<lparr>rl_domains := dict_set d st' (rl_domains l)\<rparr> = put_state d (st', rl_total_bytes l) l"
    by (simp add: put_state_def)
  have "rl_core (put_state d (st', rl_total_bytes l) l)"
    using assms by (intro put_state_core) (auto simp: rl_inv_def state_or_new_bytes)
  then show ?thesis
    using assms by (auto simp: eq rl_inv_def frame_count_put domain_frame_count_state)
qed

lemma count_outcome_inv [simp]: "rl_inv (count_outcome k l) = rl_inv l"
  by (simp add: count_outcome_def rl_inv_def rl_core_def frame_count_def)

lemma replay_touch_inv: "rl_inv l \<Longrightarrow> rl_inv (replay_touch l d now)"
  by (auto simp: replay_touch_def ttl_evict_head_eq Let_def evicted_put_inv split: option.splits)

lemma replay_inv: "rl_inv l \<Longrightarrow> rl_inv (snd (replay l d after_seq epoch now))"
  by (simp add: replay_def Let_def split_def replay_touch_inv)

lemma write_barrier_inv: "rl_inv l \<Longrightarrow> rl_inv (write_barrier l od)"
proof (cases od)
  case None
  then show "rl_inv l \<Longrightarrow> ?thesis" by (simp add: write_barrier_def rl_inv_map ds_ok_raise)
next
  case (Some d)
  assume inv: "rl_inv l"
  show ?thesis
  proof (cases "dict_get (rl_domains l) d")
    case None
    with Some inv show ?thesis by (simp add: write_barrier_def)
  next
    case st: (Some st)
    then have "ds_ok (rl_max_count l) (rl_order l) d st"
      using inv by (auto simp: rl_inv_def rl_core_def)
    with st Some inv show ?thesis
      by (simp add: write_barrier_def rl_inv_set state_or_new_def ds_ok_raise)
  qed
qed

lemma mark_invalidated_inv:
  "rl_inv l \<Longrightarrow> rl_inv (snd (mark_invalidated l d))"
proof -
  assume inv: "rl_inv l"
  then have "ds_ok (rl_max_count l) (rl_order l) d (state_or_new l d)"
    by (simp add: rl_inv_def state_or_new_ok)
  with inv show ?thesis by (simp add: mark_invalidated_def rl_inv_set ds_ok_inval)
qed

lemma first_connect_invalidated_inv:
  "rl_inv l \<Longrightarrow> rl_inv (snd (first_connect_invalidated l d))"
  by (simp add: first_connect_invalidated_def split: option.splits)

lemma recycle_domain_inv: "rl_inv l \<Longrightarrow> rl_inv (snd (recycle_domain l d))"
  by (auto simp: recycle_domain_def drop_all_eq evicted_put_inv split: option.splits)

lemma close_inv: "rl_inv l \<Longrightarrow> rl_inv (close l)"
  by (simp add: close_def rl_inv_def rl_core_def frame_count_def)

definition swept :: "'p replay_log \<Rightarrow> real \<Rightarrow> 'p domain_state \<Rightarrow> 'p domain_state" where
  "swept l now st = gc_barrier (fst (drop_n (ttl_prefix l now st) (st, 0)))"

lemma sweep_domains_eq:
  assumes "sweep_domains (rl_ttl_s l) now ds tot = (ds', tot', n)"
  shows "ds' = map (\<lambda>(d, st). (d, swept l now st)) ds"
    and "tot' = tot - dict_sum ds_bytes ds + dict_sum ds_bytes ds'"
proof -
  have "ds' = map (\<lambda>(d, st). (d, swept l now st)) ds \<and>
      tot' = tot - dict_sum ds_bytes ds + dict_sum ds_bytes ds'"
    using assms
  proof (induction ds arbitrary: tot ds' tot' n)
    case (Cons p ds)
    obtain d st where p: "p = (d, st)" by (cases p)
    let ?q = "drop_n (ttl_prefix l now st) (st, tot)"
    obtain ds1 tot1 m where rest: "sweep_domains (rl_ttl_s l) now ds (snd ?q) = (ds1, tot1, m)"
      by (metis surj_pair)
    have ttl: "ttl_evict_head (rl_ttl_s l) now (st, tot) = (?q, ttl_prefix l now st)"
      by (simp add: ttl_evict_head_eq ttl_prefix_def Let_def)
    have hd: "ds' = (d, swept l now st) # ds1 \<and> tot' = tot1"
      using Cons.prems p rest drop_n_fst_indep [of "ttl_prefix l now st" st tot 0]
      by (cases ?q) (simp add: ttl swept_def)
    have "ds_bytes (swept l now st) = ds_bytes (fst ?q)"
      using drop_n_fst_indep [of "ttl_prefix l now st" st tot 0] by (simp add: swept_def)
    then have "snd ?q = tot - ds_bytes st + ds_bytes (swept l now st)"
      using drop_n_total [of "ttl_prefix l now st" "(st, tot)"] by simp
    with Cons.IH [OF rest] hd p show ?case by simp
  qed simp
  then show "ds' = map (\<lambda>(d, st). (d, swept l now st)) ds"
    and "tot' = tot - dict_sum ds_bytes ds + dict_sum ds_bytes ds'" by auto
qed

lemma sweep_domains_of: "rl_domains (snd (sweep l now)) = map (\<lambda>(d, st). (d, swept l now st)) (rl_domains l)"
  by (auto simp: sweep_def dest: sweep_domains_eq(1) split: prod.splits)

lemma swept_ok: "ds_ok mx ord d st \<Longrightarrow> ds_ok mx ord d (swept l now st)"
  using ds_ok_drop_n [of mx ord d "(st, 0)"] by (simp add: swept_def ds_ok_gc)

lemma dict_sum_mono: "(\<And>v. f v \<le> g v) \<Longrightarrow> dict_sum f d \<le> dict_sum g d"
  by (induction d) (auto intro: add_mono)

lemma sweep_inv:
  assumes "rl_inv l"
  shows "rl_inv (snd (sweep l now))"
proof -
  obtain ds tot n where s: "sweep_domains (rl_ttl_s l) now (rl_domains l) (rl_total_bytes l) = (ds, tot, n)"
    by (metis surj_pair)
  note eqs = sweep_domains_eq [OF s]
  have sw: "snd (sweep l now) = l\<lparr>rl_domains := ds, rl_total_bytes := tot\<rparr>" by (simp add: sweep_def s)
  have core: "rl_core l" using assms by (simp add: rl_inv_def)
  have ds: "ds = map (\<lambda>(d, st). (d, swept l now st)) (rl_domains l)" by (rule eqs)
  have tot: "tot = dict_sum ds_bytes ds" using eqs core by (simp add: rl_core_def)
  have core': "rl_core (snd (sweep l now))"
    using core tot by (auto simp: sw ds rl_core_def dict_get_map dict_wf_map intro: swept_ok)
  have "ds_bytes (swept l now st) \<le> ds_bytes st" for st
    by (simp add: swept_def drop_n_def)
  then have "tot \<le> rl_total_bytes l"
    using core tot by (simp add: ds dict_sum_map rl_core_def dict_sum_mono)
  moreover have "frame_count (snd (sweep l now)) \<le> frame_count l"
    by (simp add: frame_count_def sw ds dict_sum_map swept_def dict_sum_mono)
  ultimately show ?thesis using assms core' by (auto simp: rl_inv_def sw)
qed

end
