(* ===== verification/Replay_History.thy ===== *)
theory Replay_History
  imports Replay_Invariant
begin

text \<open>
  The abstract specification of the replay log and its refinement. Abstractly a domain is the
  list of every payload ever published to it in this process (no bounds, no eviction), together
  with the highest upstream-loss barrier ever written (the wall). The concrete log with its ring
  windows, byte accounting and barrier collection refines it: evictions, sweeps, recycling and
  reads change nothing abstractly, and whatever \<open>replay\<close> serves is exactly the part of the
  history after the cursor, never from behind a wall.
\<close>

section \<open>Operations as data\<close>

datatype 'p rl_op =
    Op_Append string 'p string real
  | Op_Publish string "int \<Rightarrow> 'p option" string real
  | Op_Replay string int "string option" real
  | Op_Barrier "string option"
  | Op_Invalidate string
  | Op_First_Connect string
  | Op_Recycle string
  | Op_Sweep real
  | Op_Close

fun rl_step :: "'p rl_op \<Rightarrow> 'p replay_log \<Rightarrow> 'p replay_log" where
  "rl_step (Op_Append d p kind now) l = snd (append_frame l d p kind None now)"
| "rl_step (Op_Publish d build kind now) l = snd (publish_seq l d build kind now)"
| "rl_step (Op_Replay d q ep now) l = snd (replay l d q ep now)"
| "rl_step (Op_Barrier od) l = write_barrier l od"
| "rl_step (Op_Invalidate d) l = snd (mark_invalidated l d)"
| "rl_step (Op_First_Connect d) l = snd (first_connect_invalidated l d)"
| "rl_step (Op_Recycle d) l = snd (recycle_domain l d)"
| "rl_step (Op_Sweep now) l = snd (sweep l now)"
| "rl_step Op_Close l = close l"

section \<open>Abstract specification\<close>

record 'p history =
  h_frames :: "string \<Rightarrow> 'p list"
  h_wall :: "string \<Rightarrow> int"
  h_created :: "string set"
  h_closed :: bool
  h_size_of :: "'p \<Rightarrow> nat option"

definition h_create :: "string \<Rightarrow> 'p history \<Rightarrow> 'p history" where
  "h_create d h = h\<lparr>h_created := insert d (h_created h)\<rparr>"

definition h_push :: "string \<Rightarrow> 'p \<Rightarrow> 'p history \<Rightarrow> 'p history" where
  "h_push d p h = h\<lparr>h_frames := (h_frames h)(d := h_frames h d @ [p])\<rparr>"

definition h_publish :: "string \<Rightarrow> 'p \<Rightarrow> 'p history \<Rightarrow> 'p history" where
  "h_publish d p h =
     (if h_closed h \<or> d = '''' then h
      else if h_size_of h p = None then h_create d h
      else h_push d p (h_create d h))"

fun h_step :: "'p rl_op \<Rightarrow> 'p history \<Rightarrow> 'p history" where
  "h_step (Op_Append d p kind now) h = h_publish d p h"
| "h_step (Op_Publish d build kind now) h =
     (if h_closed h \<or> d = '''' then h
      else case build (int (length (h_frames h d)) + 1) of
             None \<Rightarrow> h_create d h
           | Some p \<Rightarrow> h_publish d p h)"
| "h_step (Op_Barrier od) h =
     h\<lparr>h_wall := (\<lambda>d. if d \<in> h_created h \<and> (od = None \<or> od = Some d)
                      then int (length (h_frames h d)) else h_wall h d)\<rparr>"
| "h_step (Op_Invalidate d) h = (if d = '''' then h else h_create d h)"
| "h_step Op_Close h =
     h\<lparr>h_frames := (\<lambda>_. []), h_wall := (\<lambda>_. - 1), h_created := {}, h_closed := True\<rparr>"
| "h_step _ h = h"

section \<open>The refinement relation\<close>

text \<open>
  A wall at \<open>w\<close> is respected by a live watermark at or above \<open>w\<close>, or by a window that no longer
  reaches back to seq \<open>w + 1\<close>.
\<close>

definition respects_wall :: "int \<Rightarrow> 'p domain_state \<Rightarrow> bool" where
  "respects_wall w st \<longleftrightarrow>
     (\<exists>b. ds_barrier_watermark st = Some b \<and> w \<le> b) \<or>
     w < ds_last_seq st - int (length (ds_entries st))"

definition ds_rel :: "'p list \<Rightarrow> int \<Rightarrow> 'p domain_state \<Rightarrow> bool" where
  "ds_rel hs w st \<longleftrightarrow>
     ds_last_seq st = int (length hs) \<and>
     map e_payload (ds_entries st) = drop (length hs - length (ds_entries st)) hs \<and>
     w \<le> ds_last_seq st \<and> respects_wall w st"

definition dom_rel :: "'p history \<Rightarrow> string \<Rightarrow> 'p domain_state option \<Rightarrow> bool" where
  "dom_rel h d ost =
     (case ost of
        None \<Rightarrow> d \<notin> h_created h \<and> h_frames h d = [] \<and> h_wall h d = - 1
      | Some st \<Rightarrow> d \<in> h_created h \<and> ds_rel (h_frames h d) (h_wall h d) st)"

definition rl_sim :: "'p replay_log \<Rightarrow> 'p history \<Rightarrow> bool" where
  "rl_sim l h \<longleftrightarrow>
     rl_core l \<and> h_closed h = rl_closed l \<and> h_size_of h = rl_size_of l \<and>
     (\<forall>d. dom_rel h d (dict_get (rl_domains l) d))"

definition rl_rel :: "'p replay_log \<Rightarrow> 'p history \<Rightarrow> bool" where
  "rl_rel l h \<longleftrightarrow> rl_sim l h \<and> rl_inv l"

definition h_init :: "('p \<Rightarrow> nat option) \<Rightarrow> 'p history" where
  "h_init size_of = \<lparr>h_frames = (\<lambda>_. []), h_wall = (\<lambda>_. - 1), h_created = {}, h_closed = False,
     h_size_of = size_of\<rparr>"

lemma rl_sim_dom: "rl_sim l h \<Longrightarrow> dom_rel h d (dict_get (rl_domains l) d)"
  by (simp add: rl_sim_def)

lemma rl_sim_get:
  assumes "rl_sim l h" and "dict_get (rl_domains l) d = Some st"
  shows "d \<in> h_created h" and "ds_rel (h_frames h d) (h_wall h d) st"
    and "ds_ok (rl_max_count l) (rl_order l) d st"
proof -
  show "d \<in> h_created h" "ds_rel (h_frames h d) (h_wall h d) st"
    using rl_sim_dom [OF assms(1), of d] assms(2) by (auto simp: dom_rel_def)
  show "ds_ok (rl_max_count l) (rl_order l) d st"
    using assms by (auto simp: rl_sim_def rl_core_def)
qed

lemma new_replay_log_rel:
  assumes "new_replay_log epoch nonce mc mb ttl size_of dflt = Inr l"
  shows "rl_rel l (h_init (rl_size_of l))"
  using assms
  by (auto simp: new_replay_log_def rl_rel_def rl_inv_def rl_sim_def dom_rel_def h_init_def rl_core_def
      frame_count_def pyfloat_le_0_def split: if_splits pyfloat.splits option.splits)

lemma ds_rel_new: "ds_rel [] (- 1) new_domain_state"
  by (simp add: ds_rel_def new_domain_state_def respects_wall_def)

lemma ds_rel_state_or_new:
  assumes "rl_sim l h"
  shows "ds_rel (h_frames h d) (h_wall h d) (state_or_new l d)"
  using rl_sim_dom [OF assms, of d]
  by (auto simp: dom_rel_def state_or_new_def ds_rel_new split: option.splits)

lemma ds_rel_drop_n:
  assumes "ds_rel hs w st" and "ds_core ord d st"
  shows "ds_rel hs w (fst (drop_n k (st, t)))"
proof -
  have le: "length (ds_entries st) \<le> length hs"
    using assms by (auto simp: ds_rel_def ds_core_def)
  have "drop k (map e_payload (ds_entries st)) = drop (length hs - (length (ds_entries st) - k)) hs"
    if "k \<le> length (ds_entries st)"
    using assms(1) that le by (simp add: ds_rel_def add.commute)
  moreover have "drop k (map e_payload (ds_entries st)) = [] \<and> length (ds_entries st) - k = 0"
    if "length (ds_entries st) < k" using that by simp
  ultimately show ?thesis
    using assms(1) le
    by (cases "k \<le> length (ds_entries st)") (auto simp: ds_rel_def respects_wall_def drop_map)
qed

lemma ds_rel_shrunk: "ds_rel hs w st \<Longrightarrow> ds_core ord d st \<Longrightarrow> ds_shrunk st st' \<Longrightarrow> ds_rel hs w st'"
  by (auto simp: ds_shrunk_def ds_rel_drop_n)

text \<open>Evictions are invisible abstractly.\<close>

lemma rl_sim_shrunk:
  assumes rel: "rl_sim l h" and shr: "rl_shrunk l l'" and "rl_core l'"
  shows "rl_sim l' h"
proof -
  have "dom_rel h d (dict_get (rl_domains l') d)" for d
  proof -
    have r: "rel_option ds_shrunk (dict_get (rl_domains l) d) (dict_get (rl_domains l') d)"
      using shr by (simp add: rl_shrunk_def)
    show ?thesis
    proof (cases "dict_get (rl_domains l) d")
      case None
      with r have "dict_get (rl_domains l') d = None" by simp
      with None rl_sim_dom [OF rel, of d] show ?thesis by simp
    next
      case (Some st)
      then obtain st' where st': "dict_get (rl_domains l') d = Some st'" "ds_shrunk st st'"
        using r by (auto simp: option_rel_Some1)
      have "ds_core (rl_order l) d st" using rl_sim_get(3) [OF rel Some] by (simp add: ds_ok_def)
      then have "ds_rel (h_frames h d) (h_wall h d) st'"
        using rl_sim_get(2) [OF rel Some] st'(2) ds_rel_shrunk by metis
      with st' rl_sim_get(1) [OF rel Some] show ?thesis by (simp add: dom_rel_def)
    qed
  qed
  with assms show ?thesis by (auto simp: rl_sim_def rl_shrunk_def same_config_def)
qed

text \<open>Replacing one domain state by a related one.\<close>

lemma rl_sim_set:
  assumes rel: "rl_sim l h" and inv: "rl_core l'"
    and get: "rl_domains l' = dict_set d st (rl_domains l)"
    and l': "rl_closed l' = rl_closed l" "rl_size_of l' = rl_size_of l"
    and st: "ds_rel (h_frames h' d) (h_wall h' d) st" and cr: "h_created h' = insert d (h_created h)"
    and fr: "\<And>x. x \<noteq> d \<Longrightarrow> h_frames h' x = h_frames h x \<and> h_wall h' x = h_wall h x"
    and h': "h_closed h' = h_closed h" "h_size_of h' = h_size_of h"
  shows "rl_sim l' h'"
proof -
  have "dom_rel h' x (dict_get (rl_domains l') x)" for x
  proof (cases "x = d")
    case True
    with get st cr show ?thesis by (simp add: dom_rel_def)
  next
    case False
    with get fr cr rl_sim_dom [OF rel, of x] show ?thesis by (simp add: dom_rel_def split: option.splits)
  qed
  with assms show ?thesis by (simp add: rl_sim_def)
qed

lemma ds_rel_push:
  assumes "ds_rel hs w st" and "ds_core ord d st" and "e_seq e = ds_last_seq st + 1"
    and "e_payload e = x"
  shows "ds_rel (hs @ [x]) w (push_entry e st)"
proof -
  have "length (ds_entries st) \<le> length hs" using assms by (auto simp: ds_rel_def ds_core_def)
  with assms show ?thesis
    by (auto simp: ds_rel_def push_entry_def respects_wall_def Suc_diff_le)
qed

section \<open>Simulation of each operation\<close>

lemma sim_shell:
  assumes sim: "rl_sim l h" and core: "rl_core (put_state d (drop_n k (state_or_new l d, t)) l)"
  shows "rl_sim (put_state d (drop_n k (state_or_new l d, t)) l) (h_create d h)"
proof -
  have "ds_core (rl_order l) d (state_or_new l d)"
    using sim state_or_new_ok by (auto simp: rl_sim_def ds_ok_def)
  with ds_rel_state_or_new [OF sim]
  have r: "ds_rel (h_frames h d) (h_wall h d) (fst (drop_n k (state_or_new l d, t)))"
    by (rule ds_rel_drop_n)
  show ?thesis
    using sim core by (rule rl_sim_set) (use r in \<open>auto simp: h_create_def\<close>)
qed

lemma sim_appended:
  assumes sim: "rl_sim l h" and core: "rl_core (appended l d e now k)"
    and e: "e = new_entry l d p kind now sz"
  shows "rl_sim (appended l d e now k) (h_push d p (h_create d h))"
proof -
  let ?st = "state_or_new l d"
  let ?q = "drop_n (ttl_prefix l now ?st) (?st, rl_total_bytes l)"
  have ok: "ds_ok (rl_max_count l) (rl_order l) d ?st"
    using sim state_or_new_ok by (auto simp: rl_sim_def)
  then have c: "ds_core (rl_order l) d (fst ?q)" by (simp add: ds_ok_def ds_core_drop_n)
  have r: "ds_rel (h_frames h d) (h_wall h d) (fst ?q)"
    using ds_rel_state_or_new [OF sim] ok ds_rel_drop_n by (metis ds_ok_def)
  have seq: "e_seq e = ds_last_seq (fst ?q) + 1" using ok by (simp add: e new_entry_def ds_ok_def)
  have "ds_rel (h_frames h d @ [p]) (h_wall h d) (push_entry e (fst ?q))"
    using r c seq by (rule ds_rel_push) (simp add: e new_entry_def)
  moreover have "ds_core (rl_order l + 1) d (push_entry e (fst ?q))"
    using c by (rule ds_core_push) (use ok in \<open>simp_all add: e new_entry_def ds_ok_def\<close>)
  ultimately have r4: "ds_rel (h_frames h d @ [p]) (h_wall h d)
      (fst (drop_n k (push_entry e (fst ?q), snd ?q + int (e_size e))))"
    by (rule ds_rel_drop_n)
  show ?thesis
    using sim core by (rule rl_sim_set) (use r4 in \<open>auto simp: h_create_def h_push_def appended_def\<close>)
qed

lemma append_frame_rel:
  assumes rel: "rl_rel l h"
  shows "rl_rel (snd (append_frame l d p kind None now)) (h_publish d p h)"
proof -
  have sim: "rl_sim l h" and inv: "rl_inv l" and core: "rl_core l"
    using rel by (auto simp: rl_rel_def rl_inv_def)
  have h: "h_closed h = rl_closed l" "h_size_of h = rl_size_of l" using sim by (auto simp: rl_sim_def)
  have inv': "rl_inv (snd (append_frame l d p kind None now))" using inv by (rule append_frame_inv)
  consider "rl_closed l \<or> d = ''''"
    | "\<not> rl_closed l" "d \<noteq> ''''" "rl_size_of l p = None"
    | sz where "\<not> rl_closed l" "d \<noteq> ''''" "rl_size_of l p = Some sz" by fastforce
  then have "rl_sim (snd (append_frame l d p kind None now)) (h_publish d p h)"
  proof cases
    case 1
    then show ?thesis using sim h by (auto simp: append_frame_fail h_publish_def append_frame_def)
  next
    case 2
    with inv' sim h show ?thesis
      by (simp add: append_frame_fail h_publish_def sim_shell rl_inv_def)
  next
    case 3
    let ?e = "new_entry l d p kind now sz"
    let ?k = "Suc (length (ds_entries (state_or_new l d)) - ttl_prefix l now (state_or_new l d))
            - nat (rl_max_count l)"
    have core': "rl_core (appended l d ?e now ?k)" using core refl refl by (rule appended_core)
    have "rl_sim (appended l d ?e now ?k) (h_push d p (h_create d h))"
      using sim core' refl by (rule sim_appended)
    then have "rl_sim (evict_for_bytes (appended l d ?e now ?k)) (h_push d p (h_create d h))"
      using evict_for_bytes_shrunk [OF core'] by (auto simp: rl_inv_def intro: rl_sim_shrunk)
    with 3 h show ?thesis by (simp add: append_frame_eq [OF core 3] h_publish_def)
  qed
  with inv' show ?thesis by (simp add: rl_rel_def)
qed

lemma publish_seq_rel:
  assumes rel: "rl_rel l h"
  shows "rl_rel (snd (publish_seq l d build kind now)) (h_step (Op_Publish d build kind now) h)"
proof -
  have sim: "rl_sim l h" and inv: "rl_inv l" and core: "rl_core l"
    using rel by (auto simp: rl_rel_def rl_inv_def)
  have h: "h_closed h = rl_closed l" using sim by (auto simp: rl_sim_def)
  have nx: "ds_next_seq (state_or_new l d) = int (length (h_frames h d)) + 1"
    using ds_rel_state_or_new [OF sim, of d] state_or_new_ok [OF core, of d]
    by (simp add: ds_rel_def ds_ok_def)
  have shell: "rl_rel (put_state d (state_or_new l d, rl_total_bytes l) l) (h_create d h)"
    using sim_shell [OF sim, of d 0 "rl_total_bytes l"] shell_put_inv [OF inv, of d 0]
    by (simp add: rl_rel_def rl_inv_def)
  show ?thesis
    using rel shell append_frame_rel [OF rel, of d _ kind now] h nx
    by (auto simp: publish_seq_eq [OF core] split: option.splits prod.splits sum.splits)
      (metis snd_conv)+
qed

lemma ds_rel_raise:
  "ds_rel hs w st \<Longrightarrow> ds_core ord d st \<Longrightarrow> ds_rel hs (int (length hs)) (raise_barrier st)"
  by (auto simp: ds_rel_def respects_wall_def raise_barrier_watermark)

lemma ds_rel_gc:
  assumes "ds_rel hs w st" and "ds_core ord d st"
  shows "ds_rel hs w (gc_barrier st)"
proof -
  have "respects_wall w (gc_barrier st)"
  proof (cases "ds_entries st")
    case Nil
    with assms(1) show ?thesis by (simp add: gc_barrier_def ds_rel_def)
  next
    case (Cons e es)
    have "e_seq e = ds_last_seq st - int (length (ds_entries st)) + 1"
      using assms(2) Cons upto_rec1 [of "ds_last_seq st - int (length (ds_entries st)) + 1" "ds_last_seq st"]
      by (auto simp: ds_core_def split: if_splits)
    with Cons assms(1) show ?thesis
      by (auto simp: gc_barrier_def ds_rel_def respects_wall_def split: option.splits)
  qed
  with assms(1) show ?thesis by (simp add: ds_rel_def)
qed

lemma write_barrier_rel:
  assumes rel: "rl_rel l h"
  shows "rl_rel (write_barrier l od) (h_step (Op_Barrier od) h)"
proof -
  have sim: "rl_sim l h" and inv: "rl_inv (write_barrier l od)"
    using rel by (auto simp: rl_rel_def write_barrier_inv)
  have get: "dict_get (rl_domains (write_barrier l od)) d =
      (if od = None \<or> od = Some d then map_option raise_barrier (dict_get (rl_domains l) d)
       else dict_get (rl_domains l) d)" for d
    by (auto simp: write_barrier_def dict_get_map split: option.splits)
  have "dom_rel (h_step (Op_Barrier od) h) d (dict_get (rl_domains (write_barrier l od)) d)" for d
    using rl_sim_dom [OF sim, of d] rl_sim_get(3) [OF sim, of d]
    by (auto simp: get dom_rel_def ds_ok_def split: option.splits intro: ds_rel_raise)
  with sim inv show ?thesis
    by (auto simp: rl_rel_def rl_sim_def rl_inv_def) (auto simp: write_barrier_def split: option.splits)
qed

lemma sweep_rel:
  assumes rel: "rl_rel l h"
  shows "rl_rel (snd (sweep l now)) h"
proof -
  have sim: "rl_sim l h" and inv: "rl_inv (snd (sweep l now))"
    using rel by (auto simp: rl_rel_def sweep_inv)
  have "ds_rel hs w (swept l now st)" if "ds_rel hs w st" "ds_core ord d st" for hs w ord d st
    using that ds_rel_drop_n ds_core_drop_n [of ord d "(st, 0)"] ds_rel_gc
    by (metis fst_conv swept_def)
  then have "dom_rel h d (dict_get (rl_domains (snd (sweep l now))) d)" for d
    using rl_sim_dom [OF sim, of d] rl_sim_get(3) [OF sim, of d]
    by (auto simp: sweep_domains_of dict_get_map dom_rel_def ds_ok_def split: option.splits)
  with sim inv show ?thesis
    by (auto simp: rl_rel_def rl_sim_def rl_inv_def) (auto simp: sweep_def split: prod.splits)
qed

lemma mark_invalidated_rel:
  assumes rel: "rl_rel l h"
  shows "rl_rel (snd (mark_invalidated l d)) (h_step (Op_Invalidate d) h)"
proof (cases "d = ''''")
  case False
  have sim: "rl_sim l h" and inv: "rl_inv (snd (mark_invalidated l d))"
    using rel by (auto simp: rl_rel_def mark_invalidated_inv)
  then have core: "rl_core (snd (mark_invalidated l d))" by (simp add: rl_inv_def)
  have r: "ds_rel (h_frames h d) (h_wall h d) ((state_or_new l d)\<lparr>ds_invalidated := True\<rparr>)"
    using ds_rel_state_or_new [OF sim, of d] by (auto simp: ds_rel_def respects_wall_def)
  have "rl_sim (snd (mark_invalidated l d)) (h_create d h)"
    using sim core by (rule rl_sim_set) (use r False in \<open>auto simp: mark_invalidated_def h_create_def\<close>)
  with inv False show ?thesis by (simp add: rl_rel_def)
qed (use rel in \<open>simp add: mark_invalidated_def\<close>)

lemma count_outcome_sim: "rl_sim (count_outcome k l) h = rl_sim l h"
  by (simp add: count_outcome_def rl_sim_def rl_core_def)

lemma replay_touch_shrunk: "rl_shrunk l (replay_touch l d now)"
  by (auto simp: replay_touch_def ttl_evict_head_eq Let_def rl_shrunk_put split: option.splits)

lemma replay_touch_rel: "rl_rel l h \<Longrightarrow> rl_rel (replay_touch l d now) h"
  using rl_sim_shrunk [OF _ replay_touch_shrunk] replay_touch_inv [of l d now]
  by (simp add: rl_rel_def) (auto simp: rl_inv_def)

lemma replay_rel: "rl_rel l h \<Longrightarrow> rl_rel (snd (replay l d q ep now)) h"
  using replay_touch_rel [of l h d now] by (simp add: replay_def rl_rel_def count_outcome_sim Let_def split_def)

lemma recycle_domain_rel: "rl_rel l h \<Longrightarrow> rl_rel (snd (recycle_domain l d)) h"
proof -
  assume rel: "rl_rel l h"
  have "rl_shrunk l (snd (recycle_domain l d))"
    by (auto simp: recycle_domain_def drop_all_eq rl_shrunk_put split: option.splits)
  with rel recycle_domain_inv [of l d] rl_sim_shrunk show ?thesis
    unfolding rl_rel_def rl_inv_def by blast
qed

lemma close_rel: "rl_rel l h \<Longrightarrow> rl_rel (close l) (h_step Op_Close h)"
  using close_inv [of l]
  by (auto simp: rl_rel_def rl_sim_def dom_rel_def close_def rl_inv_def rl_core_def)

lemma rl_step_rel: "rl_rel l h \<Longrightarrow> rl_rel (rl_step x l) (h_step x h)"
proof (cases x)
  case (Op_First_Connect d)
  then show "rl_rel l h \<Longrightarrow> ?thesis"
    by (auto simp: first_connect_invalidated_def rl_rel_def count_outcome_sim split: option.splits)
next
  case (Op_Invalidate d)
  then show "rl_rel l h \<Longrightarrow> ?thesis" using mark_invalidated_rel [of l h d] by simp
next
  case (Op_Publish d build kind now)
  then show "rl_rel l h \<Longrightarrow> ?thesis" using publish_seq_rel [of l h d build kind now] by simp
next
  case (Op_Barrier od)
  then show "rl_rel l h \<Longrightarrow> ?thesis" using write_barrier_rel [of l h od] by simp
next
  case Op_Close
  then show "rl_rel l h \<Longrightarrow> ?thesis" using close_rel [of l h] by simp
qed (simp_all add: append_frame_rel replay_rel recycle_domain_rel sweep_rel)

interpretation log_sim: simulation rl_step h_step "\<lambda>_ _. True" rl_rel
  by unfold_locales (rule rl_step_rel)

interpretation log_inv: invariant_system rl_step "\<lambda>_ _. True" "\<lambda>l. \<exists>h. rl_rel l h"
  by unfold_locales (blast intro: rl_step_rel)


lemmas run_rel = log_sim.sim_run [OF _ ok_run_True]

section \<open>What replay decides\<close>

lemma upto_ConsD: "x # xs = [a..b] \<Longrightarrow> a \<le> b \<and> x = a \<and> xs = [a + 1..b]"
  by (cases "a \<le> b") (simp_all add: upto_rec1 [of a b])

lemma window_seq: "ds_core ord d st \<Longrightarrow> e \<in> set (ds_entries st) \<Longrightarrow>
    ds_last_seq st - int (length (ds_entries st)) < e_seq e \<and> e_seq e \<le> ds_last_seq st"
proof -
  assume "ds_core ord d st" "e \<in> set (ds_entries st)"
  then have "e_seq e \<in> set [ds_last_seq st - int (length (ds_entries st)) + 1..ds_last_seq st]"
    by (metis ds_core_def image_eqI set_map)
  then show ?thesis by simp
qed

text \<open>The frames after a cursor inside the window are a suffix of the window.\<close>

lemma filter_after:
  assumes "map e_seq es = [a + 1..b]" and "a \<le> q"
  shows "filter (\<lambda>e. e_seq e > q) es = drop (nat (q - a)) es"
  using assms
proof (induction es arbitrary: a)
  case (Cons e es)
  have ab: "a + 1 \<le> b" and e: "e_seq e = a + 1" and es: "map e_seq es = [a + 1 + 1..b]"
    using upto_ConsD [of "e_seq e" "map e_seq es" "a + 1" b] Cons.prems(1) by simp_all
  show ?case
  proof (cases "q = a")
    case True
    have "\<forall>x\<in>set es. a + 1 < e_seq x"
      using es by (metis add_le_imp_le_right atLeastAtMost_iff image_eqI set_map set_upto zle_add1_eq_le
          zless_add1_eq order_less_le_trans)
    with True e show ?thesis by (auto simp: filter_id_conv)
  next
    case False
    with Cons.prems have "a + 1 \<le> q" by simp
    with Cons.IH [OF es this] e have "filter (\<lambda>e. q < e_seq e) (e # es) = drop (nat (q - (a + 1))) es"
      by simp
    moreover have "nat (q - a) = Suc (nat (q - (a + 1)))" using \<open>a + 1 \<le> q\<close> by linarith
    ultimately show ?thesis by simp
  qed
qed simp

lemma filter_all_after:
  assumes "\<And>e. e \<in> set es \<Longrightarrow> q < e_seq e"
  shows "filter (\<lambda>e. e_seq e > q) es = es"
  using assms by (simp add: filter_id_conv)

lemma contiguous_upto: "map e_seq es = [a..b] \<Longrightarrow> contiguous es"
proof (induction es arbitrary: a rule: contiguous.induct)
  case (1 x y es)
  then have "map e_seq (y # es) = [a + 1..b]" "e_seq x = a" "e_seq y = a + 1"
    using upto_ConsD [of "e_seq x" _ a b] upto_ConsD [of "e_seq y" _ "a + 1" b] by fastforce+
  with 1 show ?case by simp
qed simp_all

text \<open>
  The complete decision for a well-formed domain state: barrier, future cursor, window lost,
  or exactly the suffix of the window.
\<close>

lemma replay_decide_eq:
  assumes core: "ds_core ord d st" and q: "0 \<le> q"
  shows "snd (replay_decide (Some st) q) =
    (if (\<exists>w. ds_barrier_watermark st = Some w \<and> q \<le> w) then ReplayResync RESYNC_RECONNECT_NO_REPLAY
     else if q > ds_last_seq st then ReplayIgnoreReset q
     else if q < ds_last_seq st - int (length (ds_entries st)) then ReplayResync RESYNC_REPLAY_EXPIRED
     else ReplayFrames (drop (length (ds_entries st) - nat (ds_last_seq st - q)) (ds_entries st)))"
proof -
  let ?es = "ds_entries st"
  let ?a = "ds_last_seq st - int (length ?es)"
  let ?f = "filter (\<lambda>e. e_seq e > q) ?es"
  have seqs: "map e_seq ?es = [?a + 1..ds_last_seq st]" using core by (simp add: ds_core_def)
  have barrier: "(case ds_barrier_watermark st of None \<Rightarrow> False | Some w \<Rightarrow> x \<le> w) \<longleftrightarrow>
      (\<exists>w. ds_barrier_watermark st = Some w \<and> x \<le> w)" for x by (simp split: option.splits)
  consider (future) "q > ds_last_seq st" | (lost) "q \<le> ds_last_seq st" "q < ?a"
    | (inside) "q \<le> ds_last_seq st" "?a \<le> q" by linarith
  then show ?thesis
  proof cases
    case future
    then show ?thesis by (simp add: replay_decide_def Let_def barrier)
  next
    case lost
    have "?f = ?es" by (rule filter_all_after) (use window_seq [OF core] lost in force)
    moreover have "e_seq (hd ?es) = ?a + 1" if "?es \<noteq> []"
      using seqs that by (cases ?es) (simp_all, metis upto_ConsD)
    ultimately show ?thesis
      using lost by (cases ?es) (simp_all add: replay_decide_def Let_def barrier)
  next
    case inside
    have f: "?f = drop (nat (q - ?a)) ?es" using seqs inside(2) by (rule filter_after)
    have fs: "map e_seq ?f = [q + 1..ds_last_seq st]"
      using inside by (simp add: f seqs drop_upto add.commute flip: drop_map)
    have n: "nat (q - ?a) = length ?es - nat (ds_last_seq st - q)" using inside by linarith
    show ?thesis
    proof (cases "q = ds_last_seq st")
      case True
      then have "?f = []" using fs by simp
      then show ?thesis using True f n by (simp add: replay_decide_def Let_def barrier)
    next
      case False
      then obtain e rest where e: "?f = e # rest" using fs inside by (cases ?f) auto
      then have "e_seq e = q + 1" using fs by simp (metis upto_ConsD)
      then show ?thesis
        using e inside contiguous_upto [OF fs] f n
        by (simp add: replay_decide_def Let_def barrier flip: f)
    qed
  qed
qed

lemma replay_decide_None:
  "0 \<le> q \<Longrightarrow> snd (replay_decide None q) = (if q > 0 then ReplayIgnoreReset q else ReplayFrames [])"
  by (simp add: replay_decide_def)

end
