(* ===== verification/Replay_Guarantees.thy ===== *)
theory Replay_Guarantees
  imports Replay_History
begin

text \<open>
  What clients of the replay log rely on, over every sequence of operations on a freshly
  constructed log: what \<open>replay\<close> returns, in terms of the abstract history; the memory bounds
  and the byte ledger; sequence numbering; freshness; and the sticky invalidation flag.
\<close>

section \<open>Configuration is constant\<close>

lemma same_config_refl [simp]: "same_config l l"
  by (simp add: same_config_def)

lemma same_config_trans: "same_config a b \<Longrightarrow> same_config b c \<Longrightarrow> same_config a c"
  by (simp add: same_config_def)

lemma same_config_upd [simp]:
  "same_config l (put_state d p l') = same_config l l'"
  "same_config l (l'\<lparr>rl_order := n\<rparr>) = same_config l l'"
  "same_config l (l'\<lparr>rl_domains := ds\<rparr>) = same_config l l'"
  "same_config l (l'\<lparr>rl_total_bytes := t\<rparr>) = same_config l l'"
  "same_config l (count_outcome k l') = same_config l l'"
  "same_config l (drop_head_of d l') = same_config l l'"
  by (auto simp: same_config_def put_state_def count_outcome_def drop_head_of_def split: option.splits)

lemma evict_bytes_loop_config [simp]: "same_config l (evict_bytes_loop n l') = same_config l l'"
  by (induction n arbitrary: l') (auto split: option.splits)

lemma append_frame_config [simp]: "same_config l (snd (append_frame l' d p k s now)) = same_config l l'"
  by (auto simp: append_frame_def Let_def evict_for_bytes_def split: option.splits sum.splits prod.splits)

lemma reserve_seq_config [simp]: "same_config l (snd (reserve_seq l' d)) = same_config l l'"
  by (auto simp: reserve_seq_def Let_def)

lemma rollback_seq_config [simp]: "same_config l (snd (rollback_seq l' d q)) = same_config l l'"
  by (auto simp: rollback_seq_def split: option.splits)

lemma publish_seq_config [simp]: "same_config l (snd (publish_seq l' d b k now)) = same_config l l'"
proof -
  obtain r l1 where r: "reserve_seq l' d = (r, l1)" by fastforce
  then have l1: "same_config l l1 = same_config l l'" using reserve_seq_config [of l l' d] by simp
  show ?thesis
  proof (cases r)
    case (Inr q)
    show ?thesis
    proof (cases "b q")
      case (Some f)
      obtain a l2 where "append_frame l1 d f k (Some q) now = (a, l2)" by fastforce
      then show ?thesis
        using r l1 Inr Some append_frame_config [of l l1 d f k "Some q" now]
        by (cases a) (simp_all add: publish_seq_def)
    qed (use r l1 Inr in \<open>simp add: publish_seq_def\<close>)
  qed (use r l1 in \<open>simp add: publish_seq_def\<close>)
qed

lemma rl_step_config: "same_config l (rl_step x l') = same_config l l'"
  by (cases x)
    (auto simp: replay_def replay_touch_def Let_def write_barrier_def mark_invalidated_def
      first_connect_invalidated_def recycle_domain_def sweep_def close_def same_config_def [of l "_\<lparr>rl_closed := _, rl_domains := _, rl_total_bytes := _\<rparr>"]
      split_beta split: option.splits prod.splits, simp_all add: same_config_def)

lemma run_config: "same_config l (fold rl_step ops l') = same_config l l'"
  by (induction ops arbitrary: l') (simp_all add: rl_step_config)

section \<open>What replay returns\<close>

lemma touched_state:
  assumes "dict_get (rl_domains l) d = Some st"
  shows "\<exists>k. dict_get (rl_domains (replay_touch l d now)) d =
      Some (fst (drop_n k (st, rl_total_bytes l))) \<and>
      k = length (takeWhile (\<lambda>e. now - e_appended_at e > rl_ttl_s l) (ds_entries st))"
  using assms by (simp add: replay_touch_def ttl_evict_head_eq Let_def)

text \<open>The frames of a domain that the read of a replay still finds.\<close>

definition fresh_entries :: "'p replay_log \<Rightarrow> string \<Rightarrow> real \<Rightarrow> 'p replay_entry list" where
  "fresh_entries l d now =
     dropWhile (\<lambda>e. now - e_appended_at e > rl_ttl_s l) (ds_entries (state_or_new l d))"

lemma replay_outcome:
  assumes rel: "rl_rel l h" and q: "0 \<le> q"
  shows "fst (replay l d q ep now) = Inr
    (if ep \<noteq> Some (rl_epoch l) then ReplayResync RESYNC_EPOCH_CHANGED
     else if (\<exists>w. barrier_watermark l d = Some w \<and> q \<le> w) then ReplayResync RESYNC_RECONNECT_NO_REPLAY
     else if q > int (length (h_frames h d)) then ReplayIgnoreReset q
     else if q < int (length (h_frames h d)) - int (length (fresh_entries l d now))
          then ReplayResync RESYNC_REPLAY_EXPIRED
     else ReplayFrames (drop (nat (q - (int (length (h_frames h d)) - int (length (fresh_entries l d now)))))
            (fresh_entries l d now)))"
proof (cases "dict_get (rl_domains l) d")
  case None
  have "h_frames h d = []"
    using rel rl_sim_dom [of l h d] None by (simp add: rl_rel_def dom_rel_def)
  then show ?thesis
    using None q by (auto simp: replay_def Let_def split_beta replay_touch_def barrier_watermark_def
        fresh_entries_def state_or_new_def new_domain_state_def replay_decide_None)
next
  case (Some st)
  have sim: "rl_sim l h" using rel by (simp add: rl_rel_def)
  have len: "ds_last_seq st = int (length (h_frames h d))"
    using rl_sim_get(2) [OF sim Some] by (simp add: ds_rel_def)
  have core: "ds_core (rl_order l) d st"
    using rl_sim_get(3) [OF sim Some] by (simp add: ds_ok_def)
  obtain k where k: "dict_get (rl_domains (replay_touch l d now)) d = Some (fst (drop_n k (st, rl_total_bytes l)))"
      and kl: "k = length (takeWhile (\<lambda>e. now - e_appended_at e > rl_ttl_s l) (ds_entries st))"
    using touched_state [OF Some] by blast
  have fresh: "fresh_entries l d now = drop k (ds_entries st)"
    using Some by (simp add: fresh_entries_def state_or_new_def kl dropWhile_eq_drop)
  have core': "ds_core (rl_order l) d (fst (drop_n k (st, rl_total_bytes l)))"
    using ds_core_drop_n [of "rl_order l" d "(st, rl_total_bytes l)"] core by simp
  have le: "int (length (ds_entries st)) \<le> int (length (h_frames h d))"
    using core len by (simp add: ds_core_def)
  then have n: "length (drop k (ds_entries st)) - nat (int (length (h_frames h d)) - q)
      = nat (q - (int (length (h_frames h d)) - int (length (drop k (ds_entries st)))))"
    if "q \<le> int (length (h_frames h d))" "\<not> q < int (length (h_frames h d)) - int (length (drop k (ds_entries st)))"
    using that by linarith
  show ?thesis
    using replay_decide_eq [OF core' q] q Some k fresh n
    by (auto simp: replay_def Let_def split_beta barrier_watermark_def len)
qed

lemma run_refines:
  assumes "new_replay_log epoch nonce mc mb ttl size_of dflt = Inr l0"
  shows "rl_rel (fold rl_step ops l0) (fold h_step ops (h_init (rl_size_of l0)))"
  by (rule run_rel) (rule new_replay_log_rel [OF assms])

lemma fresh_window:
  assumes rel: "rl_rel l h"
  shows "map e_payload (fresh_entries l d now) =
           drop (length (h_frames h d) - length (fresh_entries l d now)) (h_frames h d)"
    and "map e_seq (fresh_entries l d now) =
           [int (length (h_frames h d)) - int (length (fresh_entries l d now)) + 1..int (length (h_frames h d))]"
    and "length (fresh_entries l d now) \<le> length (h_frames h d)"
proof -
  let ?st = "state_or_new l d"
  let ?k = "length (takeWhile (\<lambda>e. now - e_appended_at e > rl_ttl_s l) (ds_entries ?st))"
  let ?st' = "fst (drop_n ?k (?st, 0))"
  have sim: "rl_sim l h" using rel by (simp add: rl_rel_def)
  then have ok: "ds_core (rl_order l) d ?st"
    using state_or_new_ok [of l d] by (simp add: rl_sim_def ds_ok_def)
  have core: "ds_core (rl_order l) d ?st'"
    using ds_core_drop_n [of "rl_order l" d "(?st, 0)"] ok by simp
  have "ds_rel (h_frames h d) (h_wall h d) ?st'"
    by (rule ds_rel_shrunk [OF ds_rel_state_or_new [OF sim] ok]) simp
  moreover have "fresh_entries l d now = ds_entries ?st'"
    by (simp add: fresh_entries_def dropWhile_eq_drop)
  ultimately show "map e_payload (fresh_entries l d now) =
           drop (length (h_frames h d) - length (fresh_entries l d now)) (h_frames h d)"
    "map e_seq (fresh_entries l d now) =
           [int (length (h_frames h d)) - int (length (fresh_entries l d now)) + 1..int (length (h_frames h d))]"
    "length (fresh_entries l d now) \<le> length (h_frames h d)"
    using core unfolding ds_core_def ds_rel_def by (metis, metis, metis of_nat_le_iff)
qed

lemma wall_respected:
  assumes rel: "rl_rel l h" and q: "0 \<le> q"
    and nb: "\<not> (\<exists>w. barrier_watermark l d = Some w \<and> q \<le> w)"
    and win: "int (length (h_frames h d)) - int (length (fresh_entries l d now)) \<le> q"
  shows "h_wall h d < q"
proof (cases "dict_get (rl_domains l) d")
  case None
  with rel q show ?thesis using rl_sim_dom [of l h d] by (simp add: rl_rel_def dom_rel_def)
next
  case (Some st)
  have r: "ds_rel (h_frames h d) (h_wall h d) st"
    using rel Some rl_sim_get(2) [of l h d st] by (simp add: rl_rel_def)
  have "length (fresh_entries l d now) \<le> length (ds_entries st)"
    using Some by (simp add: fresh_entries_def state_or_new_def length_dropWhile_le)
  then show ?thesis
    using r nb win Some unfolding ds_rel_def respects_wall_def barrier_watermark_def by fastforce
qed

lemma replay_frames_history:
  assumes rel: "rl_rel l h" and r: "fst (replay l d q ep now) = Inr (ReplayFrames es)"
  shows "map e_payload es = drop (nat q) (h_frames h d)"
    and "map e_seq es = [q + 1..int (length (h_frames h d))]"
    and "h_wall h d < q" and "q \<le> int (length (h_frames h d))" and "ep = Some (rl_epoch l)"
proof -
  let ?n = "length (h_frames h d)" and ?fr = "fresh_entries l d now"
  have q: "0 \<le> q" using r by (auto simp: replay_def split: if_splits)
  have *: "ep = Some (rl_epoch l)" "\<not> (\<exists>w. barrier_watermark l d = Some w \<and> q \<le> w)" "q \<le> int ?n"
      "int ?n - int (length ?fr) \<le> q" "es = drop (nat (q - (int ?n - int (length ?fr)))) ?fr"
    using r replay_outcome [OF rel q, of d ep now] by (auto split: if_splits)
  note fw = fresh_window [OF rel, of d now]
  have n: "nat (q - (int ?n - int (length ?fr))) + (?n - length ?fr) = nat q"
    using * fw(3) by linarith
  show "map e_payload es = drop (nat q) (h_frames h d)"
    using n by (simp add: *(5) fw(1) flip: drop_map)
  show "map e_seq es = [q + 1..int ?n]"
    using *(4) by (simp add: *(5) fw(2) drop_upto flip: drop_map) (simp add: add.commute)
  show "h_wall h d < q" by (rule wall_respected [OF rel q *(2,4)])
  show "q \<le> int ?n" "ep = Some (rl_epoch l)" by (rule *)+
qed

section \<open>Appending\<close>

lemma append_frame_Inr:
  assumes core: "rl_core l" and r: "append_frame l d payload kind None now = (Inr e, l')"
  obtains sz where "\<not> rl_closed l" "d \<noteq> ''''" "rl_size_of l payload = Some sz"
    "e = new_entry l d payload kind now sz" "is_newest d e l'" "rl_inv l'" "rl_order l' = rl_order l + 1"
proof -
  have open_l: "\<not> rl_closed l" "d \<noteq> ''''" using r by (auto simp: append_frame_def split: if_splits)
  moreover have "rl_size_of l payload \<noteq> None"
    using r open_l append_frame_fail(3) [of l d payload kind None now] by auto
  then obtain sz where sz: "rl_size_of l payload = Some sz" by blast
  note eq = append_frame_eq [OF core open_l sz, of kind now]
  have e: "e = new_entry l d payload kind now sz" using r eq by simp
  note ac = appended_core [OF core e refl]
  have "is_newest d e l'" using r eq evict_for_bytes_newest [OF ac(2,1)] e by simp
  moreover have "rl_inv l'" "rl_order l' = rl_order l + 1"
    using r eq evict_for_bytes_shrunk [OF ac(1)] e by (auto simp: rl_shrunk_def appended_def)
  ultimately show thesis using that [OF open_l sz e] by blast
qed

lemma newest_last:
  assumes "rl_core l" and "is_newest d e l"
  shows "last_seq l d = e_seq e" and "window_start l d \<noteq> None"
proof -
  obtain st where st: "dict_get (rl_domains l) d = Some st" "ds_entries st \<noteq> []" "last (ds_entries st) = e"
    using assms(2) by (auto simp: is_newest_def)
  let ?n = "int (length (ds_entries st))"
  have m: "map e_seq (ds_entries st) = [ds_last_seq st - ?n + 1..ds_last_seq st]"
    using rl_coreD(3) [OF assms(1) st(1)] by (simp add: ds_ok_def ds_core_def)
  have "1 \<le> ?n" using st(2) by (cases "ds_entries st") auto
  then have "last (map e_seq (ds_entries st)) = ds_last_seq st"
    unfolding m by (subst upto_rec2) auto
  then have "e_seq e = ds_last_seq st" using st(2,3) by (simp add: last_map)
  then show "last_seq l d = e_seq e" "window_start l d \<noteq> None"
    using st by (auto simp: last_seq_def window_start_def ds_window_start_def split: list.splits)
qed

lemma last_seq_state: "last_seq l d = ds_last_seq (state_or_new l d)"
  by (simp add: last_seq_def state_or_new_def new_domain_state_def split: option.splits)

lemma append_frame_seq:
  assumes core: "rl_core l" and r: "append_frame l d payload kind None now = (Inr e, l')"
  shows "e_seq e = last_seq l d + 1" and "last_seq l' d = last_seq l d + 1"
proof -
  obtain sz where *: "e = new_entry l d payload kind now sz" "is_newest d e l'" "rl_inv l'"
    using append_frame_Inr [OF core r] .
  show "e_seq e = last_seq l d + 1"
    using state_or_new_ok [OF core, of d] by (simp add: *(1) new_entry_def ds_ok_def last_seq_state)
  then show "last_seq l' d = last_seq l d + 1"
    using newest_last(1) [OF _ *(2)] *(3) by (simp add: rl_inv_def)
qed

lemma append_frame_watermark:
  assumes core: "rl_core l" and r: "append_frame l d payload kind None now = (Inr e, l')"
  shows "barrier_watermark l' d = barrier_watermark l d"
proof -
  obtain sz where *: "\<not> rl_closed l" "d \<noteq> ''''" "rl_size_of l payload = Some sz"
      "e = new_entry l d payload kind now sz"
    using append_frame_Inr [OF core r] .
  obtain k where l': "l' = evict_for_bytes (appended l d e now k)"
      and k: "k = Suc (length (ds_entries (state_or_new l d)) - ttl_prefix l now (state_or_new l d))
               - nat (rl_max_count l)"
    using r append_frame_eq [OF core *(1-3), of kind now] *(4) by simp
  have "rel_option ds_shrunk (dict_get (rl_domains (appended l d e now k)) d) (dict_get (rl_domains l') d)"
    using evict_for_bytes_shrunk [OF appended_core(1) [OF core *(4) k]] by (simp add: l' rl_shrunk_def)
  then show ?thesis
    by (auto simp: appended_def option_rel_Some1 barrier_watermark_def ds_shrunk_def push_entry_def
        state_or_new_def new_domain_state_def split: option.splits)
qed

lemma replay_decide_newest:
  assumes core: "ds_core ord d st" and q: "0 \<le> q" "ds_last_seq st = q + 1"
    and es: "ds_entries st \<noteq> []" and w: "\<And>w. ds_barrier_watermark st = Some w \<Longrightarrow> w \<le> q"
  shows "snd (replay_decide (Some st) q) =
    (if ds_barrier_watermark st = Some q then ReplayResync RESYNC_RECONNECT_NO_REPLAY
     else ReplayFrames [last (ds_entries st)])"
proof -
  have "(\<exists>w. ds_barrier_watermark st = Some w \<and> q \<le> w) \<longleftrightarrow> ds_barrier_watermark st = Some q"
    using w by force
  moreover have "1 \<le> int (length (ds_entries st))" using es by (cases "ds_entries st") auto
  ultimately show ?thesis
    using replay_decide_eq [OF core q(1)] drop_last_single [OF es] es by (simp add: q(2))
qed

lemma replay_newest:
  assumes core: "rl_core l" and r: "append_frame l d payload kind None now = (Inr e, l')"
  shows "fst (replay l' d (last_seq l d) (Some (rl_epoch l)) now) =
    Inr (if barrier_watermark l d = Some (last_seq l d) then ReplayResync RESYNC_RECONNECT_NO_REPLAY
         else ReplayFrames [e])"
proof -
  obtain sz where e: "e = new_entry l d payload kind now sz" and new: "is_newest d e l'" and inv: "rl_inv l'"
    using append_frame_Inr [OF core r] .
  obtain st where st: "dict_get (rl_domains l') d = Some st" "ds_entries st \<noteq> []" "last (ds_entries st) = e"
    using new by (auto simp: is_newest_def)
  obtain k where k: "dict_get (rl_domains (replay_touch l' d now)) d = Some (fst (drop_n k (st, rl_total_bytes l')))"
      and kl: "k = length (takeWhile (\<lambda>e. now - e_appended_at e > rl_ttl_s l') (ds_entries st))"
    using touched_state [OF st(1)] by blast
  let ?st = "fst (drop_n k (st, rl_total_bytes l'))"
  have core': "rl_core l'" using inv by (simp add: rl_inv_def)
  have dcore: "ds_core (rl_order l') d ?st"
    using ds_core_drop_n [of _ _ "(st, rl_total_bytes l')"] rl_coreD(3) [OF core' st(1)] by (simp add: ds_ok_def)
  have "\<not> now - e_appended_at (last (ds_entries st)) > rl_ttl_s l'"
    using core' by (simp add: st(3) e new_entry_def rl_core_def)
  then have kn: "k < length (ds_entries st)"
    using st(2) kl by (metis last_in_set takeWhile_short)
  then have es: "ds_entries ?st \<noteq> []" "last (ds_entries ?st) = e"
    using st(3) by (simp_all add: last_drop)
  have last: "ds_last_seq ?st = last_seq l d + 1"
    using append_frame_seq(2) [OF core r] st(1) by (simp add: last_seq_def)
  have cfg: "rl_epoch l' = rl_epoch l"
    using append_frame_config [of l l d payload kind None now] r by (simp add: same_config_def)
  have q: "0 \<le> last_seq l d"
    using state_or_new_ok [OF core, of d] by (simp add: last_seq_state ds_ok_def ds_core_def)
  have wm: "ds_barrier_watermark ?st = barrier_watermark l d"
    using append_frame_watermark [OF core r] st(1) by (simp add: barrier_watermark_def)
  have wle: "w \<le> last_seq l d" if "barrier_watermark l d = Some w" for w
    using that state_or_new_ok [OF core, of d]
    by (auto simp: barrier_watermark_def last_seq_state ds_ok_def ds_core_def state_or_new_def
        split: option.splits)
  have "snd (replay_decide (Some ?st) (last_seq l d)) =
      (if barrier_watermark l d = Some (last_seq l d) then ReplayResync RESYNC_RECONNECT_NO_REPLAY
       else ReplayFrames [e])"
    using replay_decide_newest [OF dcore q last es(1)] wle by (simp only: wm es(2))
  then show ?thesis using q k by (simp add: replay_def Let_def split_beta cfg)
qed

section \<open>Freshness under a monotone clock\<close>

definition op_time :: "'p rl_op \<Rightarrow> real \<Rightarrow> real" where
  "op_time x t = (case x of Op_Append _ _ _ now \<Rightarrow> now | Op_Publish _ _ _ now \<Rightarrow> now
     | Op_Replay _ _ _ now \<Rightarrow> now | Op_Sweep now \<Rightarrow> now | _ \<Rightarrow> t)"

text \<open>The log together with the last clock reading it was given.\<close>

definition timed_step :: "'p rl_op \<Rightarrow> real \<times> 'p replay_log \<Rightarrow> real \<times> 'p replay_log" where
  "timed_step x s = (op_time x (fst s), rl_step x (snd s))"

definition clock_ok :: "'p rl_op \<Rightarrow> real \<times> 'p replay_log \<Rightarrow> bool" where
  "clock_ok x s \<longleftrightarrow> fst s \<le> op_time x (fst s)"

definition ds_timed :: "real \<Rightarrow> 'p domain_state \<Rightarrow> bool" where
  "ds_timed t st \<longleftrightarrow> sorted (map e_appended_at (ds_entries st)) \<and>
     (\<forall>e\<in>set (ds_entries st). e_appended_at e \<le> t)"

definition rl_timed :: "real \<times> 'p replay_log \<Rightarrow> bool" where
  "rl_timed s \<longleftrightarrow> rl_inv (snd s) \<and>
     (\<forall>d st. dict_get (rl_domains (snd s)) d = Some st \<longrightarrow> ds_timed (fst s) st)"

lemma ds_timed_mono: "ds_timed t st \<Longrightarrow> t \<le> t' \<Longrightarrow> ds_timed t' st"
  by (force simp: ds_timed_def)

lemma ds_timed_shrunk: "ds_timed t st \<Longrightarrow> ds_shrunk st st' \<Longrightarrow> ds_timed t st'"
  by (auto simp: ds_timed_def ds_shrunk_def sorted_wrt_drop simp flip: drop_map)
    (blast dest: in_set_dropD)

lemma rl_timed_shrunk:
  assumes "rl_timed (t, l)" and "rl_shrunk l l'" and "rl_inv l'" and "t \<le> t'"
  shows "rl_timed (t', l')"
proof -
  have "ds_timed t' st'" if "dict_get (rl_domains l') d = Some st'" for d st'
  proof -
    have "rel_option ds_shrunk (dict_get (rl_domains l) d) (Some st')"
      using assms(2) that by (metis rl_shrunk_def)
    then obtain st where "dict_get (rl_domains l) d = Some st" "ds_shrunk st st'"
      by (auto simp: option_rel_Some2)
    moreover from this(1) assms(1) have "ds_timed t st" by (simp add: rl_timed_def)
    ultimately show ?thesis using ds_timed_shrunk ds_timed_mono assms(4) by blast
  qed
  with assms(3) show ?thesis by (simp add: rl_timed_def)
qed

lemma rl_timed_set:
  assumes "rl_timed (t, l)" and "rl_inv l'" and "t \<le> t'"
    and "\<And>d st'. dict_get (rl_domains l') d = Some st' \<Longrightarrow>
           ds_entries st' = [] \<or> (\<exists>st. dict_get (rl_domains l) d = Some st \<and> ds_entries st' = ds_entries st)"
  shows "rl_timed (t', l')"
  using assms unfolding rl_timed_def ds_timed_def by (simp, fastforce intro: order_trans)

lemma ds_timed_push:
  assumes "ds_timed t st" and "t \<le> e_appended_at e"
  shows "ds_timed (e_appended_at e) (push_entry e st)"
  using assms by (force simp: ds_timed_def push_entry_def sorted_append)

lemma append_frame_timed:
  assumes inv: "rl_timed (t, l)" and t: "t \<le> now"
  shows "rl_timed (now, snd (append_frame l d p kind None now))"
proof -
  have rinv: "rl_inv l" and core: "rl_core l" using inv by (auto simp: rl_timed_def rl_inv_def)
  have st: "ds_timed now (state_or_new l d)"
    using inv t by (auto simp: rl_timed_def state_or_new_def ds_timed_def new_domain_state_def
        split: option.splits dest: order_trans)
  have old: "ds_timed now st'" if "dict_get (rl_domains l) d' = Some st'" for d' st'
    using inv that ds_timed_mono [OF _ t] by (auto simp: rl_timed_def)
  consider "rl_closed l \<or> d = ''''" | "\<not> rl_closed l" "d \<noteq> ''''" "rl_size_of l p = None"
    | sz where "\<not> rl_closed l" "d \<noteq> ''''" "rl_size_of l p = Some sz" by fastforce
  then show ?thesis
  proof cases
    case 1
    then have "snd (append_frame l d p kind None now) = l" by (auto simp: append_frame_def)
    then show ?thesis using rl_timed_shrunk [OF inv _ rinv t] by simp
  next
    case 2
    have "ds_timed now (fst (drop_n k (state_or_new l d, s)))" for k s
      using st ds_timed_shrunk ds_shrunk_drop_n by blast
    then show ?thesis
      using 2 old append_frame_inv [OF rinv, of d p kind now]
      by (auto simp: rl_timed_def append_frame_fail)
  next
    case 3
    let ?e = "new_entry l d p kind now sz"
    let ?k = "Suc (length (ds_entries (state_or_new l d)) - ttl_prefix l now (state_or_new l d)) - nat (rl_max_count l)"
    let ?a = "appended l d ?e now ?k"
    note ac = appended_core [OF core refl refl, of d p kind now sz]
    have push: "ds_timed now (push_entry ?e (fst (drop_n j (state_or_new l d, s))))" for j s
      using ds_timed_push [of now _ ?e] ds_timed_shrunk [OF st] by (simp add: new_entry_def)
    have "ds_timed now (fst (drop_n k (push_entry ?e (fst (drop_n j (state_or_new l d, s))), u)))" for k j s u
      using push ds_timed_shrunk ds_shrunk_drop_n by blast
    then have "\<forall>d' st. dict_get (rl_domains ?a) d' = Some st \<longrightarrow> ds_timed now st"
      using old by (auto simp: appended_def split: if_splits)
    then have "\<forall>d' st. dict_get (rl_domains (evict_for_bytes ?a)) d' = Some st \<longrightarrow> ds_timed now st"
      using evict_for_bytes_shrunk [OF ac(1)] ds_timed_shrunk
      unfolding rl_shrunk_def by (metis option_rel_Some2)
    then show ?thesis
      unfolding append_frame_eq [OF core 3] rl_timed_def using evict_for_bytes_shrunk [OF ac(1)] by simp
  qed
qed

lemma publish_seq_timed:
  assumes inv: "rl_timed (t, l)" and t: "t \<le> now"
  shows "rl_timed (now, snd (publish_seq l d build kind now))"
proof -
  have rinv: "rl_inv l" and core: "rl_core l" using inv by (auto simp: rl_timed_def rl_inv_def)
  have same: "rl_timed (now, l)" using rl_timed_shrunk [OF inv _ rinv t] by simp
  have "rl_inv (put_state d (state_or_new l d, rl_total_bytes l) l)"
    using shell_put_inv [OF rinv, of d 0] by simp
  then have shell: "rl_timed (now, put_state d (state_or_new l d, rl_total_bytes l) l)"
    by (rule rl_timed_set [OF inv _ t])
      (auto simp: state_or_new_def new_domain_state_def split: if_splits option.splits)
  show ?thesis
    using same shell append_frame_timed [OF inv t, of d _ kind]
    by (auto simp: publish_seq_eq [OF core] split: option.splits prod.splits sum.splits) (metis snd_conv)+
qed

lemma rl_step_timed:
  assumes inv: "rl_timed s" and ok: "clock_ok x s"
  shows "rl_timed (timed_step x s)"
proof -
  obtain t l where s: "s = (t, l)" by fastforce
  have rinv: "rl_inv l" using inv by (simp add: s rl_timed_def)
  have t: "t \<le> op_time x t" using ok by (simp add: s clock_ok_def)
  note keep = rl_timed_set [OF inv [unfolded s] _ t]
  have "rl_timed (op_time x t, rl_step x l)"
  proof (cases x)
    case (Op_Append d p kind now)
    then show ?thesis using append_frame_timed inv t by (simp add: s op_time_def)
  next
    case (Op_Publish d build kind now)
    then show ?thesis using publish_seq_timed inv t by (simp add: s op_time_def)
  next
    case (Op_Replay d q ep now)
    have "rl_timed (now, count_outcome k l')" if "rl_timed (now, l')" for k and l' :: "'a replay_log"
      using that by (simp add: rl_timed_def) (simp add: count_outcome_def)
    moreover have "rl_timed (now, replay_touch l d now)"
      using rl_timed_shrunk [OF inv [unfolded s] replay_touch_shrunk replay_touch_inv [OF rinv]] t
      by (simp add: Op_Replay op_time_def)
    moreover have "rl_timed (now, l)"
      using rl_timed_shrunk [OF inv [unfolded s] _ rinv t] by (simp add: Op_Replay op_time_def)
    ultimately show ?thesis
      by (simp add: Op_Replay op_time_def replay_def Let_def split_beta)
  next
    case (Op_Barrier od)
    then show ?thesis
      using write_barrier_inv [OF rinv, of od]
      by (intro keep) (auto simp: write_barrier_def dict_get_map split: option.splits if_splits)
  next
    case (Op_Invalidate d)
    then show ?thesis
      using mark_invalidated_inv [OF rinv, of d]
      by (intro keep) (auto simp: mark_invalidated_def state_or_new_def new_domain_state_def
          split: option.splits if_splits)
  next
    case (Op_First_Connect d)
    then show ?thesis
      using first_connect_invalidated_inv [OF rinv, of d]
      by (intro keep)
        (auto simp: first_connect_invalidated_def count_outcome_def split: option.splits if_splits)
  next
    case (Op_Recycle d)
    then show ?thesis
      using recycle_domain_inv [OF rinv, of d]
      by (intro keep) (auto simp: recycle_domain_def drop_all_eq split: option.splits if_splits)
  next
    case (Op_Sweep now)
    have "ds_timed now (swept l now st)" if "ds_timed t st" for st
    proof -
      have "ds_timed t (fst (drop_n k (st, u)))" for k u using that ds_timed_shrunk by fastforce
      then show ?thesis using t by (auto simp: swept_def Op_Sweep op_time_def ds_timed_def intro: order_trans)
    qed
    then show ?thesis
      using sweep_inv [OF rinv, of now] inv
      by (auto simp: Op_Sweep op_time_def rl_timed_def s sweep_domains_of dict_get_map)
  next
    case Op_Close
    then show ?thesis using close_inv [OF rinv] by (intro keep) (auto simp: close_def)
  qed
  then show ?thesis by (simp add: timed_step_def s)
qed

interpretation timed_inv: invariant_system timed_step clock_ok rl_timed
  by unfold_locales (rule rl_step_timed)

lemma fold_timed_step:
  "fold timed_step ops (t, l) = (fold op_time ops t, fold rl_step ops l)"
  by (induction ops arbitrary: t l) (simp_all add: timed_step_def)

lemma dropWhile_sorted_fresh:
  "sorted (map e_appended_at es) \<Longrightarrow> e \<in> set (dropWhile (\<lambda>e. now - e_appended_at e > ttl) es) \<Longrightarrow>
     now - e_appended_at e \<le> ttl"
proof (induction es)
  case (Cons a es)
  then show ?case by (cases "now - e_appended_at a > ttl") fastforce+
qed simp

lemma fresh_entries_fresh:
  assumes "rl_timed (t, l)" and "t \<le> now" and "e \<in> set (fresh_entries l d now)"
  shows "now - e_appended_at e \<le> rl_ttl_s l"
proof -
  have "ds_timed t (state_or_new l d)"
    using assms(1) by (auto simp: rl_timed_def state_or_new_def ds_timed_def new_domain_state_def
        split: option.splits)
  then show ?thesis
    using dropWhile_sorted_fresh assms(3) by (auto simp: ds_timed_def fresh_entries_def)
qed

lemma sweep_state: "ds_entries (state_or_new (snd (sweep l now)) d) = fresh_entries l d now"
  by (simp add: state_or_new_def sweep_domains_of dict_get_map fresh_entries_def swept_def ttl_prefix_def
      dropWhile_eq_drop new_domain_state_def split: option.splits)

section \<open>Sticky invalidation\<close>

definition is_invalidated :: "'p replay_log \<Rightarrow> string \<Rightarrow> bool" where
  "is_invalidated l d \<longleftrightarrow> ds_invalidated (state_or_new l d)"

lemma state_or_new_put [simp]: "state_or_new (put_state d p l) d' = (if d' = d then fst p else state_or_new l d')"
  by (simp add: state_or_new_def)

lemma is_invalidated_simps [simp]:
  "is_invalidated (put_state d p l) d' = (if d' = d then ds_invalidated (fst p) else is_invalidated l d')"
  "is_invalidated (l\<lparr>rl_order := n\<rparr>) d' = is_invalidated l d'"
  "is_invalidated (count_outcome k l) d' = is_invalidated l d'"
  "is_invalidated (l\<lparr>rl_domains := dict_set d st (rl_domains l)\<rparr>) d' =
     (if d' = d then ds_invalidated st else is_invalidated l d')"
  by (simp_all add: is_invalidated_def) (simp_all add: state_or_new_def count_outcome_def)

lemma drop_head_invalidated [simp]: "ds_invalidated (fst (drop_head p)) = ds_invalidated (fst p)"
  by (simp add: drop_head_drop_n)

lemma evict_for_count_invalidated [simp]:
  "ds_invalidated (fst (evict_for_count mx p)) = ds_invalidated (fst p)"
proof (induction mx p rule: evict_for_count.induct)
  case (1 mx p)
  then show ?case by (simp add: evict_for_count.simps [of mx p])
qed

lemma evict_bytes_loop_invalidated [simp]: "is_invalidated (evict_bytes_loop n l) d = is_invalidated l d"
proof (induction n arbitrary: l)
  case (Suc n)
  have "is_invalidated (drop_head_of d' l) d = is_invalidated l d" for d'
    by (auto simp: drop_head_of_def is_invalidated_def [of l] state_or_new_def split: option.splits)
  with Suc show ?case by (auto split: option.splits)
qed simp

lemma append_frame_invalidated [simp]:
  "is_invalidated (snd (append_frame l d p k q now)) d' = is_invalidated l d'"
proof -
  have st: "ds_invalidated (fst (fst (ttl_evict_head t now (state_or_new l d, b)))) = is_invalidated l d" for t b
    by (simp add: ttl_evict_head_eq Let_def is_invalidated_def)
  have "ds_invalidated st2 = ds_invalidated st1" if "append_seq q st1 = Inr (s, st2)" for s and st1 st2 :: "'a domain_state"
    using that by (auto simp: append_seq_def split: option.splits if_splits)
  then show ?thesis
    by (auto simp: append_frame_def Let_def st evict_for_bytes_def split: option.splits sum.splits prod.splits)
qed

lemma publish_seq_invalidated [simp]:
  "is_invalidated (snd (publish_seq l d b k now)) d' = is_invalidated l d'"
proof -
  obtain r l1 where r: "reserve_seq l d = (r, l1)" by fastforce
  then have l1: "is_invalidated l1 d' = is_invalidated l d'"
    by (auto simp: reserve_seq_def Let_def is_invalidated_def split: if_splits)
      (auto simp: state_or_new_def split: if_splits)
  have rb: "is_invalidated (snd (rollback_seq l' d q)) d' = is_invalidated l' d'" for l' :: "'a replay_log" and q
    by (auto simp: rollback_seq_def is_invalidated_def [of l'] state_or_new_def split: option.splits)
  show ?thesis
  proof (cases "case r of Inl _ \<Rightarrow> None | Inr q \<Rightarrow> b q")
    case None
    with r l1 rb show ?thesis by (auto simp: publish_seq_def split: sum.splits)
  next
    case (Some f)
    then obtain q where q: "r = Inr q" "b q = Some f" by (auto split: sum.splits)
    obtain a l2 where "append_frame l1 d f k (Some q) now = (a, l2)" by fastforce
    moreover from this have "is_invalidated l2 d' = is_invalidated l1 d'"
      using append_frame_invalidated [of l1 d f k "Some q" now d'] by simp
    ultimately show ?thesis using r q l1 rb by (cases a) (simp_all add: publish_seq_def)
  qed
qed

lemma rl_step_invalidated:
  "is_invalidated (rl_step x l) d =
     (x \<noteq> Op_Close \<and> (is_invalidated l d \<or> (x = Op_Invalidate d \<and> d \<noteq> '''')))"
proof (cases x)
  case (Op_Replay d' q ep now)
  then show ?thesis
    by (auto simp: replay_def Let_def split_beta replay_touch_def ttl_evict_head_eq is_invalidated_def [of l]
        state_or_new_def split: option.splits)
next
  case (Op_Sweep now)
  have "ds_invalidated (swept l now st) = ds_invalidated st" for st
    by (simp add: swept_def)
  then show ?thesis
    by (auto simp: Op_Sweep is_invalidated_def state_or_new_def sweep_domains_of dict_get_map
        split: option.splits)
next
  case (Op_Barrier od)
  then show ?thesis
    by (auto simp: write_barrier_def is_invalidated_def state_or_new_def dict_get_map split: option.splits)
qed (auto simp: mark_invalidated_def first_connect_invalidated_def recycle_domain_def drop_all_eq close_def
    is_invalidated_def [of l] is_invalidated_def [of "_\<lparr>rl_closed := _, rl_domains := _, rl_total_bytes := _\<rparr>"]
    state_or_new_def new_domain_state_def split: option.splits)

lemma first_connect_is_invalidated: "fst (first_connect_invalidated l d) = is_invalidated l d"
  by (simp add: first_connect_invalidated_def is_invalidated_def state_or_new_def new_domain_state_def
      split: option.splits)

section \<open>A concrete log\<close>

text \<open>A small log and a run on it, used to show that hypotheses can hold together.\<close>

definition demo_log :: "string replay_log" where
  "demo_log = \<lparr>rl_epoch = ''0123456789abcdef'', rl_max_count = 2, rl_max_bytes = 10, rl_ttl_s = 30,
     rl_total_bytes = 0, rl_outcomes = [], rl_size_of = (\<lambda>p. Some (length p)), rl_domains = [],
     rl_order = 0, rl_closed = False\<rparr>"

definition demo_ops :: "string rl_op list" where
  "demo_ops = [Op_Append ''g'' ''a'' ''business'' 0, Op_Append ''t:s'' ''xy'' ''business'' 1,
     Op_Barrier (Some ''g''), Op_Publish ''g'' (\<lambda>_. Some ''b'') ''business'' 2,
     Op_Publish ''g'' (\<lambda>_. Some ''c'') ''business'' 3, Op_Sweep 4]"

lemma demo_new:
  "new_replay_log (Some ''0123456789abcdef'') '''' 2 10 (Finite 30) (Some (\<lambda>p. Some (length p)))
     (\<lambda>p. None) = Inr demo_log"
proof -
  have "epoch_re_match ''0123456789abcdef''" by code_simp
  then show ?thesis
    by (simp add: new_replay_log_def pyfloat_le_0_def pyfloat_isfinite_def demo_log_def)
qed

lemma demo_core: "rl_core demo_log"
  by (simp add: rl_core_def demo_log_def)

section \<open>The guarantees\<close>

text \<open>
  C1. Whatever \<open>replay\<close> serves, after any sequence of operations on a new log, is exactly the
  part of everything ever published to that domain that lies after the client's cursor: no
  frame is missing, repeated or reordered, the seqs are the consecutive numbers after the
  cursor, the epoch matched, and the cursor lies strictly beyond the last upstream-loss barrier
  ever written to the domain, even when that barrier has been garbage-collected since.
\<close>

theorem replay_serves_history:
  assumes "new_replay_log epoch nonce mc mb ttl size_of dflt = Inr l0"
    and "fst (replay (fold rl_step ops l0) d q ep now) = Inr (ReplayFrames es)"
    and "h = fold h_step ops (h_init (rl_size_of l0))"
  shows "map e_payload es = drop (nat q) (h_frames h d) \<and>
    map e_seq es = [q + 1..int (length (h_frames h d))] \<and>
    h_wall h d < q \<and> q \<le> int (length (h_frames h d)) \<and> ep = Some (rl_epoch l0)"
  using replay_frames_history [OF run_refines [OF assms(1), of ops] assms(2)] run_config [of l0 ops l0]
  by (simp add: assms(3) same_config_def)

lemma demo_replay: "fst (replay (fold rl_step demo_ops demo_log) ''g'' 2 (Some ''0123456789abcdef'') 5) =
   Inr (ReplayFrames [\<lparr>e_domain = ''g'', e_seq = 3, e_payload = ''c'', e_kind = ''business'',
     e_appended_at = 3, e_size = 1, e_order = 4\<rparr>])"
  by code_simp

theorem replay_serves_history_witness:
  "drop 2 (h_frames (fold h_step demo_ops (h_init (rl_size_of demo_log))) ''g'') = [''c'']"
  using replay_serves_history [OF demo_new demo_replay refl] by simp

text \<open>
  The complete answer of \<open>replay\<close> on every reachable log, errors included: a negative cursor
  is rejected; a foreign epoch, a cursor at or below a live barrier, a cursor from the future
  and a cursor before the retained fresh window get their four different answers; in every
  other case all frames after the cursor are served. In particular the defensive
  \<open>replay_gap\<close> branch is never taken.
\<close>

theorem replay_total:
  assumes "new_replay_log epoch nonce mc mb ttl size_of dflt = Inr l0"
    and "l = fold rl_step ops l0"
    and "n = int (length (h_frames (fold h_step ops (h_init (rl_size_of l0))) d))"
    and "k = int (length (fresh_entries l d now))"
  shows "fst (replay l d q ep now) =
    (if q < 0 then Inl ValueError
     else if ep \<noteq> Some (rl_epoch l) then Inr (ReplayResync RESYNC_EPOCH_CHANGED)
     else if (\<exists>w. barrier_watermark l d = Some w \<and> q \<le> w)
          then Inr (ReplayResync RESYNC_RECONNECT_NO_REPLAY)
     else if n < q then Inr (ReplayIgnoreReset q)
     else if q < n - k then Inr (ReplayResync RESYNC_REPLAY_EXPIRED)
     else Inr (ReplayFrames (drop (nat (q - (n - k))) (fresh_entries l d now))))"
proof (cases "q < 0")
  case False
  then show ?thesis
    using replay_outcome [OF run_refines [OF assms(1), of ops], of q d ep now] by (auto simp: assms(2-))
qed (simp add: replay_def)

theorem replay_total_witness:
  "fst (replay (fold rl_step demo_ops demo_log) ''g'' (- 1) None 5) = Inl ValueError"
  using replay_total [OF demo_new refl refl refl, where q = "- 1"] by simp

text \<open>
  C2. Memory bounds and the byte ledger. On every reachable log each domain retains at most
  \<open>max_count\<close> frames in a window of consecutive seqs ending at the last published one, the byte
  total equals the sum of the retained sizes, and it exceeds \<open>max_bytes\<close> only when a single
  oversized frame is all that is left.
\<close>

theorem replay_log_bounds:
  assumes "new_replay_log epoch nonce mc mb ttl size_of dflt = Inr l0"
    and "l = fold rl_step ops l0"
  shows "domain_frame_count l d \<le> mc \<and>
    rl_total_bytes l = dict_sum (\<lambda>st. int (sum_list (map e_size (ds_entries st)))) (rl_domains l) \<and>
    (rl_total_bytes l \<le> mb \<or> frame_count l \<le> 1) \<and>
    map e_seq (ds_entries (state_or_new l d)) = [last_seq l d - domain_frame_count l d + 1..last_seq l d]"
proof -
  have inv: "rl_inv l" and core: "rl_core l"
    using run_refines [OF assms(1), of ops] by (simp_all add: rl_rel_def assms(2) rl_inv_def)
  have cfg: "rl_max_count l = mc" "rl_max_bytes l = mb"
    using run_config [of l0 ops l0] assms
    by (auto simp: same_config_def new_replay_log_def split: if_splits pyfloat.splits)
  note ok = state_or_new_ok [OF core, of d]
  have sum: "dict_sum ds_bytes (rl_domains l) = dict_sum (\<lambda>st. int (sum_list (map e_size (ds_entries st)))) (rl_domains l)"
    by (rule dict_sum_cong) (use core in \<open>auto simp: rl_core_def ds_ok_def ds_core_def dest: dict_in_set_get\<close>)
  show ?thesis
  proof (intro conjI)
    show "rl_total_bytes l = dict_sum (\<lambda>st. int (sum_list (map e_size (ds_entries st)))) (rl_domains l)"
      using core by (simp add: rl_core_def flip: sum)
    show "domain_frame_count l d \<le> mc" using ok cfg by (simp add: domain_frame_count_state ds_ok_def)
    show "rl_total_bytes l \<le> mb \<or> frame_count l \<le> 1" using inv cfg by (simp add: rl_inv_def)
    show "map e_seq (ds_entries (state_or_new l d)) = [last_seq l d - domain_frame_count l d + 1..last_seq l d]"
      using ok by (simp add: domain_frame_count_state last_seq_state ds_ok_def ds_core_def)
  qed
qed

theorem replay_log_bounds_witness:
  "domain_frame_count (fold rl_step demo_ops demo_log) ''g'' \<le> 2"
  using replay_log_bounds [OF demo_new refl, of demo_ops "''g''"] by simp

text \<open>
  A successful append gives the frame the next seq of its domain, keeps it whatever the
  bounds (eviction never takes the frame just written), and a client that was up to date before
  it receives exactly this frame, unless an upstream-loss barrier stands at its cursor.
\<close>

theorem append_then_replay:
  assumes "rl_inv l" and "append_frame l d payload kind None now = (Inr e, l')"
  shows "e_seq e = last_seq l d + 1 \<and> e_payload e = payload \<and> last_seq l' d = e_seq e \<and>
    fst (replay l' d (last_seq l d) (Some (rl_epoch l)) now) =
      Inr (if barrier_watermark l d = Some (last_seq l d) then ReplayResync RESYNC_RECONNECT_NO_REPLAY
           else ReplayFrames [e])"
proof -
  have core: "rl_core l" using assms(1) by (simp add: rl_inv_def)
  note seq = append_frame_seq [OF core assms(2)]
  obtain sz where e: "e = new_entry l d payload kind now sz" using append_frame_Inr [OF core assms(2)] .
  show ?thesis
    using seq replay_newest [OF core assms(2)] by (simp add: e new_entry_def)
qed

theorem append_then_replay_witness:
  "fst (replay (snd (append_frame demo_log ''g'' ''a'' ''business'' None 0)) ''g'' 0
      (Some ''0123456789abcdef'') 0) =
   Inr (ReplayFrames [\<lparr>e_domain = ''g'', e_seq = 1, e_payload = ''a'', e_kind = ''business'',
     e_appended_at = 0, e_size = 1, e_order = 1\<rparr>])"
proof -
  let ?e = "\<lparr>e_domain = ''g'', e_seq = 1, e_payload = ''a'', e_kind = ''business'',
     e_appended_at = 0, e_size = 1, e_order = 1\<rparr>"
  have inv: "rl_inv demo_log" using demo_core by (simp add: rl_inv_def) (simp add: demo_log_def)
  have "fst (append_frame demo_log ''g'' ''a'' ''business'' None 0) = Inr ?e" by code_simp
  then have "append_frame demo_log ''g'' ''a'' ''business'' None 0 =
      (Inr ?e, snd (append_frame demo_log ''g'' ''a'' ''business'' None 0))"
    by (metis prod.collapse)
  moreover have "last_seq demo_log ''g'' = 0" "barrier_watermark demo_log ''g'' = None"
    "rl_epoch demo_log = ''0123456789abcdef''" by code_simp+
  ultimately show ?thesis using append_then_replay [OF inv] by fastforce
qed

lemma publish_outcome:
  assumes rel: "rl_rel l h" and r: "publish_seq l d build kind now = (r, l')"
  shows "r = None \<Longrightarrow> last_seq l' d' = last_seq l d' \<and>
           h_frames (h_step (Op_Publish d build kind now) h) = h_frames h"
    and "r = Some (e, frame) \<Longrightarrow> e_seq e = last_seq l d + 1 \<and> build (e_seq e) = Some frame \<and>
        e_payload e = frame \<and> last_seq l' d = e_seq e \<and>
        h_frames (h_step (Op_Publish d build kind now) h) d = h_frames h d @ [frame]"
proof -
  let ?st = "state_or_new l d"
  have sim: "rl_sim l h" and core: "rl_core l" using rel by (auto simp: rl_rel_def rl_inv_def)
  have h: "h_closed h = rl_closed l" "h_size_of h = rl_size_of l" using sim by (auto simp: rl_sim_def)
  have nx: "ds_next_seq ?st = last_seq l d + 1" "int (length (h_frames h d)) = last_seq l d"
    using state_or_new_ok [OF core, of d] ds_rel_state_or_new [OF sim, of d]
    by (simp_all add: ds_ok_def last_seq_state ds_rel_def)
  note eq = r [unfolded publish_seq_eq [OF core] nx(1)]
  show "last_seq l' d' = last_seq l d' \<and> h_frames (h_step (Op_Publish d build kind now) h) = h_frames h"
    if "r = None"
  proof -
    have False if "append_frame l d f kind None now = (Inl er, x)" "rl_size_of l f = Some sz"
        "\<not> rl_closed l" "d \<noteq> ''''" for f er x sz
      using that append_frame_eq [OF core that(3,4,2), of kind now] by simp
    then show ?thesis
      using eq \<open>r = None\<close> append_frame_fail(3) [of l d _ kind None now]
      by (auto simp: nx(2) h h_create_def h_publish_def last_seq_state split: if_splits option.splits sum.splits prod.splits)
        fastforce+
  qed
  show "e_seq e = last_seq l d + 1 \<and> build (e_seq e) = Some frame \<and>
        e_payload e = frame \<and> last_seq l' d = e_seq e \<and>
        h_frames (h_step (Op_Publish d build kind now) h) d = h_frames h d @ [frame]"
    if "r = Some (e, frame)"
  proof -
    have a: "append_frame l d frame kind None now = (Inr e, l')" and b: "build (last_seq l d + 1) = Some frame"
        and c: "\<not> rl_closed l" "d \<noteq> ''''"
      using eq that by (auto split: if_splits option.splits sum.splits prod.splits)
    obtain sz where sz: "rl_size_of l frame = Some sz" "e = new_entry l d frame kind now sz"
      using append_frame_Inr [OF core a] .
    show ?thesis
      using append_frame_seq [OF core a] b c sz
      by (simp add: nx(2) h h_create_def h_publish_def h_push_def) (simp add: new_entry_def)
  qed
qed

text \<open>
  The publishing protocol (reserve a seq, build the frame around it, append, roll back on
  any failure) never burns a seq: a failed publish leaves every domain's last seq and the
  history unchanged, a successful one uses exactly the next seq, and the frame that is stored
  is the one built for that seq.
\<close>

theorem publish_no_hole:
  assumes "rl_rel l h" and "publish_seq l d build kind now = (r, l')"
  shows "case r of
      None \<Rightarrow> last_seq l' d' = last_seq l d' \<and> h_frames (h_step (Op_Publish d build kind now) h) = h_frames h
    | Some (e, frame) \<Rightarrow> e_seq e = last_seq l d + 1 \<and> build (e_seq e) = Some frame \<and>
        e_payload e = frame \<and> last_seq l' d = e_seq e \<and>
        h_frames (h_step (Op_Publish d build kind now) h) d = h_frames h d @ [frame]"
  using publish_outcome [OF assms] by (auto split: option.splits)

theorem publish_no_hole_witness:
  "last_seq (snd (publish_seq demo_log ''g'' (\<lambda>_. None) ''business'' 0)) ''g'' = 0"
proof -
  let ?p = "publish_seq demo_log ''g'' (\<lambda>_. None) ''business'' 0"
  have "fst ?p = None" by code_simp
  then have "?p = (None, snd ?p)" by (simp add: prod_eq_iff)
  then have "last_seq (snd ?p) ''g'' = last_seq demo_log ''g''"
    using publish_no_hole [OF new_replay_log_rel [OF demo_new]] by fastforce
  moreover have "last_seq demo_log ''g'' = 0" by code_simp
  ultimately show ?thesis by simp
qed

text \<open>
  Under a clock that never runs backwards, a replay serves no frame older than \<open>ttl_s\<close>, and
  after a sweep no domain retains one.
\<close>

theorem replay_fresh:
  assumes "new_replay_log epoch nonce mc mb ttl size_of dflt = Inr l0"
    and "ok_run timed_step clock_ok ops (t0, l0)"
    and "(t, l) = fold timed_step ops (t0, l0)" and "t \<le> now"
  shows "(\<forall>es. fst (replay l d q ep now) = Inr (ReplayFrames es) \<longrightarrow>
            (\<forall>e\<in>set es. now - e_appended_at e \<le> rl_ttl_s l0)) \<and>
         (\<forall>e\<in>set (ds_entries (state_or_new (snd (sweep l now)) d)). now - e_appended_at e \<le> rl_ttl_s l0)"
proof -
  have "rl_timed (t0, l0)"
    using new_replay_log_rel [OF assms(1)] assms(1)
    by (auto simp: rl_timed_def rl_rel_def new_replay_log_def split: if_splits pyfloat.splits)
  then have timed: "rl_timed (t, l)" using timed_inv.inv_run assms(2,3) by metis
  have l: "l = fold rl_step ops l0" using assms(3) by (simp add: fold_timed_step)
  have cfg: "rl_ttl_s l = rl_ttl_s l0" using run_config [of l0 ops l0] by (simp add: l same_config_def)
  note fresh = fresh_entries_fresh [OF timed assms(4), of _ d, unfolded cfg]
  have "set es \<subseteq> set (fresh_entries l d now)" if "fst (replay l d q ep now) = Inr (ReplayFrames es)" for es
  proof -
    have "0 \<le> q" using that by (auto simp: replay_def split: if_splits)
    then show ?thesis
      using replay_outcome [OF run_refines [OF assms(1), of ops], of q d ep now] that
      by (auto simp: l split: if_splits dest: in_set_dropD)
  qed
  then show ?thesis using fresh by (auto simp: sweep_state)
qed

theorem replay_fresh_witness:
  "list_all (\<lambda>e. 5 - e_appended_at e \<le> 30)
     [\<lparr>e_domain = ''g'', e_seq = 3, e_payload = ''c'', e_kind = ''business'',
       e_appended_at = 3, e_size = 1, e_order = 4\<rparr>]"
proof -
  have ok: "ok_run timed_step clock_ok demo_ops (0, demo_log)"
    by (simp add: demo_ops_def clock_ok_def timed_step_def op_time_def)
  have "(4, fold rl_step demo_ops demo_log) = fold timed_step demo_ops (0, demo_log)"
    by (simp add: fold_timed_step) (simp add: demo_ops_def op_time_def)
  from replay_fresh [OF demo_new ok this, of 5 "''g''" 2 "Some ''0123456789abcdef''"] demo_replay
  show ?thesis by (simp add: demo_log_def list_all_iff)
qed

text \<open>
  C3. An invalidated domain stays invalidated: whatever operations other than closing the log
  follow, a first connect to it is told to realign; and no domain is ever invalidated without
  a \<open>mark_invalidated\<close> call.
\<close>

theorem invalidation_sticky:
  "fst (first_connect_invalidated (fold rl_step ops l) d) \<longleftrightarrow>
     (\<exists>pre post. ops = pre @ post \<and> Op_Close \<notin> set post \<and>
        ((pre = [] \<and> fst (first_connect_invalidated l d)) \<or>
         (d \<noteq> '''' \<and> pre \<noteq> [] \<and> last pre = Op_Invalidate d)))"
proof (induction ops rule: rev_induct)
  case (snoc x ops)
  let ?R = "\<lambda>ops. \<exists>pre post. ops = pre @ post \<and> Op_Close \<notin> set post \<and>
        ((pre = [] \<and> fst (first_connect_invalidated l d)) \<or>
         (d \<noteq> '''' \<and> pre \<noteq> [] \<and> last pre = Op_Invalidate d))"
  have "?R (ops @ [x]) \<longleftrightarrow> x \<noteq> Op_Close \<and> (?R ops \<or> (x = Op_Invalidate d \<and> d \<noteq> ''''))" (is "?A \<longleftrightarrow> ?B")
  proof
    assume ?A
    then obtain pre post where p: "ops @ [x] = pre @ post" "Op_Close \<notin> set post"
        "(pre = [] \<and> fst (first_connect_invalidated l d)) \<or>
         (d \<noteq> '''' \<and> pre \<noteq> [] \<and> last pre = Op_Invalidate d)" by blast
    then show ?B by (cases post rule: rev_cases) auto
  next
    assume b: ?B
    then show ?A
    proof (elim conjE disjE)
      assume "x \<noteq> Op_Close" "?R ops"
      then obtain pre post where "ops = pre @ post" "Op_Close \<notin> set post"
        "(pre = [] \<and> fst (first_connect_invalidated l d)) \<or>
         (d \<noteq> '''' \<and> pre \<noteq> [] \<and> last pre = Op_Invalidate d)" by blast
      with \<open>x \<noteq> Op_Close\<close> show ?A by (intro exI [of _ pre] exI [of _ "post @ [x]"]) auto
    next
      assume "x = Op_Invalidate d" "d \<noteq> ''''"
      then show ?A by (intro exI [of _ "ops @ [x]"] exI [of _ "[]"]) auto
    qed
  qed
  with snoc show ?case by (simp add: first_connect_is_invalidated rl_step_invalidated)
qed simp

end
