(* ===== verification/Sse_Frames.thy ===== *)
theory Sse_Frames
  imports Prelude
begin

text \<open>
  JSON values and the SSE frames of \<^verbatim>\<open>sse/hub_types.py\<close> and \<^verbatim>\<open>sse/tokenstream/frames.py\<close>.

  A frame is kept as its event name and payload (\<open>frame\<close>); its bytes are \<open>frame_bytes\<close>, where the
  third-party serializer \<^verbatim>\<open>orjson.dumps\<close> is a parameter. The resync reasons and the field
  extraction helpers that both hubs share are here as well.
\<close>

section \<open>JSON\<close>

datatype json =
    JNull
  | JBool bool
  | JInt int
  | JFloat real
  | JStr string
  | JArr "json list"
  | JObj "(string \<times> json) list"

text \<open>\<^verbatim>\<open>d.get(k)\<close> on a value that is a dict; \<open>JNull\<close> is \<open>None\<close>, also for a missing key.\<close>

definition jget :: "(string \<times> json) list \<Rightarrow> string \<Rightarrow> json" where
  "jget d k = (case map_of d k of None \<Rightarrow> JNull | Some v \<Rightarrow> v)"

text \<open>The truth value of a decoded JSON value.\<close>

definition py_truthy :: "json \<Rightarrow> bool" where
  "py_truthy v =
     (case v of
        JNull \<Rightarrow> False
      | JBool b \<Rightarrow> b
      | JInt i \<Rightarrow> i \<noteq> 0
      | JFloat r \<Rightarrow> r \<noteq> 0
      | JStr s \<Rightarrow> s \<noteq> []
      | JArr xs \<Rightarrow> xs \<noteq> []
      | JObj d \<Rightarrow> d \<noteq> [])"

section \<open>Frames\<close>

record frame =
  fr_event :: "string option"
  fr_payload :: json

text \<open>\<open>sse_frame\<close>: an empty event name is no event line.\<close>

definition sse_frame :: "(json \<Rightarrow> string) \<Rightarrow> json \<Rightarrow> string option \<Rightarrow> string" where
  "sse_frame dumps payload event =
     (case event of
        None \<Rightarrow> []
      | Some e \<Rightarrow> if e = [] then [] else ''event: '' @ e @ [newline])
     @ ''data: '' @ dumps payload @ [newline, newline]"

definition frame_bytes :: "(json \<Rightarrow> string) \<Rightarrow> frame \<Rightarrow> string" where
  "frame_bytes dumps f = sse_frame dumps (fr_payload f) (fr_event f)"

type_synonym part_key = "string \<times> string \<times> string"

definition delta_frame :: "part_key \<Rightarrow> string \<Rightarrow> int option \<Rightarrow> int option \<Rightarrow> frame" where
  "delta_frame key txt part_revision seq =
     (case key of (sid, mid, pid) \<Rightarrow>
        \<lparr>fr_event = Some ''message.part.delta'',
         fr_payload = JObj ([(''sessionID'', JStr sid), (''messageID'', JStr mid), (''partID'', JStr pid),
             (''text'', JStr txt)]
           @ (case part_revision of None \<Rightarrow> [] | Some r \<Rightarrow> [(''partEventRevision'', JInt r)])
           @ (case seq of None \<Rightarrow> [] | Some q \<Rightarrow> [(''seq'', JInt q)]))\<rparr>)"

definition resync_frame :: "string \<Rightarrow> string \<Rightarrow> int option \<Rightarrow> frame" where
  "resync_frame sid reason seq =
     \<lparr>fr_event = Some ''resync'',
      fr_payload = JObj ([(''reason'', JStr reason), (''sessionID'', JStr sid)]
        @ (case seq of None \<Rightarrow> [] | Some q \<Rightarrow> [(''seq'', JInt q)]))\<rparr>"

definition heartbeat_frame :: frame where
  "heartbeat_frame = \<lparr>fr_event = Some ''server.heartbeat'', fr_payload = JObj []\<rparr>"

definition message_removed_frame :: "string \<Rightarrow> string \<Rightarrow> int option \<Rightarrow> frame" where
  "message_removed_frame sid mid seq =
     \<lparr>fr_event = Some ''message.removed'',
      fr_payload = JObj ([(''sessionID'', JStr sid), (''messageID'', JStr mid)]
        @ (case seq of None \<Rightarrow> [] | Some q \<Rightarrow> [(''seq'', JInt q)]))\<rparr>"

abbreviation TOKEN_FRAME_TYPE :: string where "TOKEN_FRAME_TYPE \<equiv> ''token''"

definition events_token_frame :: "part_key \<Rightarrow> string \<Rightarrow> frame" where
  "events_token_frame key txt =
     (case key of (sid, mid, pid) \<Rightarrow>
        \<lparr>fr_event = None,
         fr_payload = JObj [(''type'', JStr TOKEN_FRAME_TYPE), (''sessionID'', JStr sid),
           (''messageID'', JStr mid), (''partID'', JStr pid), (''delta'', JStr txt)]\<rparr>)"

section \<open>Resync reasons\<close>

abbreviation RESYNC_SUBSCRIBER_BACKPRESSURE :: string
  where "RESYNC_SUBSCRIBER_BACKPRESSURE \<equiv> ''subscriber_backpressure''"
abbreviation RESYNC_SESSION_IDLE :: string where "RESYNC_SESSION_IDLE \<equiv> ''session_idle''"
abbreviation RESYNC_SESSION_DELETED :: string where "RESYNC_SESSION_DELETED \<equiv> ''session_deleted''"
abbreviation RESYNC_TOKEN_MEMORY_LIMIT :: string where "RESYNC_TOKEN_MEMORY_LIMIT \<equiv> ''token_memory_limit''"

definition V4_RESYNC_REASONS :: "string list" where
  "V4_RESYNC_REASONS = [''epoch_changed'', ''replay_expired'', ''replay_gap'', ''reconnect_no_replay'']"

definition SSE_RESYNC_REASONS :: "string list" where
  "SSE_RESYNC_REASONS = V4_RESYNC_REASONS @
     [RESYNC_SUBSCRIBER_BACKPRESSURE, RESYNC_SESSION_IDLE, RESYNC_SESSION_DELETED,
      RESYNC_TOKEN_MEMORY_LIMIT]"

section \<open>Helpers shared by the hubs\<close>

abbreviation QP_LAST_ACTIVITY_MAX :: nat where "QP_LAST_ACTIVITY_MAX \<equiv> 10000"

text \<open>\<open>record_qp_activity\<close>: pop, insert at the end, evict from the front.\<close>

definition record_qp_activity :: "(string, real) dict \<Rightarrow> string \<Rightarrow> real \<Rightarrow> (string, real) dict" where
  "record_qp_activity table directory now =
     dict_cap QP_LAST_ACTIVITY_MAX (dict_set directory now (dict_pop directory table))"

text \<open>\<open>_upstream_line_bytes\<close>\<close>

definition upstream_line_bytes :: "string \<Rightarrow> nat" where
  "upstream_line_bytes line = utf8_len line + 1"

text \<open>\<open>_extract_session_id\<close>\<close>

definition extract_session_id ::
  "(string \<times> json) list \<Rightarrow> (string \<times> json) list \<Rightarrow> string option" where
  "extract_session_id payload props =
     (case jget props ''sessionID'' of
        JStr sid \<Rightarrow> Some sid
      | _ \<Rightarrow>
          let info = (case jget props ''info'' of JObj d \<Rightarrow> d | _ \<Rightarrow> [])
          in case jget info ''sessionID'' of
               JStr c \<Rightarrow> Some c
             | _ \<Rightarrow> (case (jget payload ''type'', jget info ''id'') of
                       (JStr t, JStr i) \<Rightarrow> if starts_with ''session.'' t then Some i else None
                     | _ \<Rightarrow> None))"

definition normalize_session_status :: "json \<Rightarrow> string option" where
  "normalize_session_status v =
     (case v of
        JStr s \<Rightarrow> Some s
      | JObj d \<Rightarrow> (case jget d ''type'' of JStr s \<Rightarrow> Some s | _ \<Rightarrow> None)
      | _ \<Rightarrow> None)"

section \<open>Digest frames\<close>

text \<open>The three states of \<open>last_error\<close>: unset, explicitly cleared, an object.\<close>

datatype last_error = Error_Unset | Error_Value json

record digest_fields =
  df_directory :: "string option"
  df_status :: "string option"
  df_message_id :: "string option"
  df_updated_at :: json
  df_archived :: "int option"
  df_deleted :: bool
  df_last_error :: last_error
  df_turn_incarnation :: "int option"
  df_turn :: "int option"
  df_changed :: "string list option"
  df_messages_revision :: "int option"

definition opt_field :: "string \<Rightarrow> json option \<Rightarrow> (string \<times> json) list" where
  "opt_field k v = (case v of None \<Rightarrow> [] | Some j \<Rightarrow> [(k, j)])"

definition to_payload :: "digest_fields \<Rightarrow> string \<Rightarrow> (string \<times> json) list" where
  "to_payload f session_id =
     [(''sessionID'', JStr session_id)]
     @ opt_field ''directory'' (map_option JStr (df_directory f))
     @ opt_field ''status'' (map_option JStr (df_status f))
     @ opt_field ''messageID'' (map_option JStr (df_message_id f))
     @ (if df_updated_at f \<noteq> JNull then [(''updatedAt'', df_updated_at f)] else [])
     @ opt_field ''archived'' (map_option JInt (df_archived f))
     @ (if df_deleted f then [(''deleted'', JBool True)] else [])
     @ (case df_last_error f of Error_Unset \<Rightarrow> [] | Error_Value j \<Rightarrow> [(''lastError'', j)])
     @ (case (df_turn_incarnation f, df_turn f) of
          (Some i, Some t) \<Rightarrow> [(''turnIncarnation'', JInt i), (''turn'', JInt t)]
        | _ \<Rightarrow> [])
     @ opt_field ''changed'' (map_option (\<lambda>ss. JArr (map JStr ss)) (df_changed f))
     @ opt_field ''messagesRevision'' (map_option JInt (df_messages_revision f))"

section \<open>Properties\<close>

lemma record_qp_activity_lru:
  "record_qp_activity table directory now = lru_put QP_LAST_ACTIVITY_MAX directory now table"
  by (simp add: record_qp_activity_def lru_put_def move_set dict_set_fresh)

definition digest_keys :: "digest_fields \<Rightarrow> (string \<times> bool) list" where
  "digest_keys f =
     [(''sessionID'', True), (''directory'', df_directory f \<noteq> None), (''status'', df_status f \<noteq> None),
      (''messageID'', df_message_id f \<noteq> None), (''updatedAt'', df_updated_at f \<noteq> JNull),
      (''archived'', df_archived f \<noteq> None), (''deleted'', df_deleted f),
      (''lastError'', df_last_error f \<noteq> Error_Unset),
      (''turnIncarnation'', df_turn f \<noteq> None \<and> df_turn_incarnation f \<noteq> None),
      (''turn'', df_turn f \<noteq> None \<and> df_turn_incarnation f \<noteq> None),
      (''changed'', df_changed f \<noteq> None), (''messagesRevision'', df_messages_revision f \<noteq> None)]"

lemma key_list_Cons:
  "map fst (filter snd ((k, b) # xs)) = (if b then [k] else []) @ map fst (filter snd xs)"
  by simp

lemma opt_field_keys: "map fst (opt_field k v) = (if v \<noteq> None then [k] else [])"
  by (simp add: opt_field_def split: option.splits)

lemma to_payload_keys: "map fst (to_payload f sid) = map fst (filter snd (digest_keys f))"
proof -
  have e: "map fst (case df_last_error f of Error_Unset \<Rightarrow> [] | Error_Value j \<Rightarrow> [(''lastError'', j)]) =
      (if df_last_error f \<noteq> Error_Unset then [''lastError''] else [])"
    by (simp split: last_error.splits)
  have t: "map fst (case (df_turn_incarnation f, df_turn f) of
          (Some i, Some t) \<Rightarrow> [(''turnIncarnation'', JInt i), (''turn'', JInt t)] | _ \<Rightarrow> []) =
      (if df_turn f \<noteq> None \<and> df_turn_incarnation f \<noteq> None then [''turnIncarnation''] else []) @
      (if df_turn f \<noteq> None \<and> df_turn_incarnation f \<noteq> None then [''turn''] else [])"
    by (simp split: option.splits)
  have d: "map fst (if b then [(k, v)] else []) = (if b then [k] else [])" for b k and v :: json
    by simp
  show ?thesis
    unfolding to_payload_def digest_keys_def key_list_Cons map_append opt_field_keys e t d
    by (simp only: list.map option.map_disc_iff filter.simps append_Nil append_Cons append_Nil2 append_assoc
        simp_thms if_True fst_conv)
qed

lemma digest_keys_distinct: "distinct (map fst (digest_keys f))"
  by (simp add: digest_keys_def)

lemma digest_key_present:
  "(k, b) \<in> set (digest_keys f) \<Longrightarrow> k \<in> fst ` set (to_payload f sid) \<longleftrightarrow> b"
proof -
  assume kb: "(k, b) \<in> set (digest_keys f)"
  have "k \<in> fst ` set (to_payload f sid) \<longleftrightarrow> k \<in> set (map fst (filter snd (digest_keys f)))"
    by (metis list.set_map to_payload_keys)
  also have "\<dots> \<longleftrightarrow> (k, True) \<in> set (digest_keys f)" by force
  also have "\<dots> \<longleftrightarrow> b" using kb digest_keys_distinct [of f] by (metis (full_types) eq_key_imp_eq_value)
  finally show ?thesis .
qed

text \<open>
  The digest payload: its keys never repeat, the turn fence is all or nothing (both fields
  or neither, and only together with both values), and an explicit \<^verbatim>\<open>lastError\<close> of null is
  distinguished from an unset one.
\<close>

theorem digest_payload_keys:
  "distinct (map fst (to_payload f sid)) \<and>
   (''turn'' \<in> fst ` set (to_payload f sid) \<longleftrightarrow> df_turn f \<noteq> None \<and> df_turn_incarnation f \<noteq> None) \<and>
   (''turnIncarnation'' \<in> fst ` set (to_payload f sid) \<longleftrightarrow> df_turn f \<noteq> None \<and> df_turn_incarnation f \<noteq> None) \<and>
   (''lastError'' \<in> fst ` set (to_payload f sid) \<longleftrightarrow> df_last_error f \<noteq> Error_Unset)"
proof (intro conjI)
  show "distinct (map fst (to_payload f sid))"
    unfolding to_payload_keys using digest_keys_distinct by (rule distinct_map_filter)
qed (rule digest_key_present, simp add: digest_keys_def)+

text \<open>
  The activity table is bounded: after a touch it holds at most 10000 directories, the
  touched one with the new time, and no directory changed its time otherwise.
\<close>

theorem record_qp_activity_bounded:
  assumes "dict_wf table" and "table' = record_qp_activity table directory now"
  shows "length table' \<le> QP_LAST_ACTIVITY_MAX \<and> dict_get table' directory = Some now \<and>
    (d \<noteq> directory \<and> dict_get table' d \<noteq> None \<longrightarrow> dict_get table' d = dict_get table d)"
  using assms lru_put_length [of QP_LAST_ACTIVITY_MAX] lru_put_same [of QP_LAST_ACTIVITY_MAX]
    lru_put_other [of table d directory QP_LAST_ACTIVITY_MAX now]
  by (auto simp: record_qp_activity_lru)

theorem record_qp_activity_bounded_witness:
  "dict_get (record_qp_activity [(''a'', 1), (''b'', 2)] ''a'' 3) ''b'' = Some (2::real)"
proof -
  have wf: "dict_wf [(''a'', 1::real), (''b'', 2)]" by (simp add: dict_wf_def)
  have "dict_get (record_qp_activity [(''a'', 1), (''b'', 2)] ''a'' 3) ''b'' \<noteq> None" by code_simp
  with record_qp_activity_bounded [OF wf refl, of "''a''" 3 "''b''"]
  show ?thesis by (simp add: dict_get_def)
qed

end
