(* ===== verification/Replay_Wire.thy ===== *)
theory Replay_Wire
  imports Replay_Guarantees Sse_Frames
begin

text \<open>
  The wire layer of the replay protocol, \<^verbatim>\<open>sse/replay_wire.py\<close>: the \<^verbatim>\<open>id:\<close> line of a frame,
  parsing of \<^verbatim>\<open>Last-Event-ID\<close> (steps 1 and 2), the full classification of a reconnect (which
  delegates steps 3 and 4 to the log), the meta extension and one tick of the maintenance loop.

  The classification only uses two methods of the log, which are its arguments; the locale
  \<open>replay_service\<close> states what it relies on, and the replay log provides it.
\<close>

section \<open>Identifiers on the wire\<close>

abbreviation colon :: char where "colon \<equiv> CHR '':''"

text \<open>The text between \<^verbatim>\<open>id: \<close> and the end of the line, which a client sends back.\<close>

definition wire_id :: "string \<Rightarrow> string \<Rightarrow> int \<Rightarrow> string" where
  "wire_id domain epoch seq = domain @ colon # epoch @ colon # show_int seq"

text \<open>\<open>None\<close> is the \<open>UnicodeEncodeError\<close> of \<^verbatim>\<open>.encode("ascii")\<close>.\<close>

definition sse_id_line :: "string \<Rightarrow> string \<Rightarrow> int \<Rightarrow> string option" where
  "sse_id_line domain epoch seq =
     (let line = ''id: '' @ wire_id domain epoch seq @ [newline]
      in if is_ascii line then Some line else None)"

definition frame_with_id :: "string \<Rightarrow> string \<Rightarrow> string \<Rightarrow> int \<Rightarrow> string option" where
  "frame_with_id frame domain epoch seq =
     (case sse_id_line domain epoch seq of None \<Rightarrow> None | Some line \<Rightarrow> Some (line @ frame))"

abbreviation GLOBAL_SEGMENTS :: nat where "GLOBAL_SEGMENTS \<equiv> 3"

definition seq_re_match :: "string \<Rightarrow> bool" where
  "seq_re_match s \<longleftrightarrow> dollar_body s \<noteq> [] \<and> list_all is_digit (dollar_body s)"

text \<open>The split into epoch and seq text: steps 1 and 2 up to the regular expressions.\<close>

definition id_parts :: "string \<Rightarrow> string option \<Rightarrow> (string \<times> string) option" where
  "id_parts header token_sid =
     (let parts = split_on colon header; n = length parts
      in case token_sid of
           None \<Rightarrow>
             if n \<noteq> GLOBAL_SEGMENTS \<or> parts ! 0 \<noteq> GLOBAL_DOMAIN then None
             else Some (parts ! 1, parts ! 2)
         | Some tsid \<Rightarrow>
             if n < GLOBAL_SEGMENTS + 1 \<or> parts ! 0 \<noteq> ''t'' then None
             else if join_with colon (take (n - 3) (drop 1 parts)) \<noteq> tsid then None
             else Some (parts ! (n - 2), parts ! (n - 1)))"

text \<open>
  After the regular expression, \<^verbatim>\<open>int()\<close> cannot raise; it ignores the final newline that the
  dollar lets through.
\<close>

definition parse_last_event_id :: "string option \<Rightarrow> string option \<Rightarrow> (string \<times> int) option" where
  "parse_last_event_id header token_sid =
     (case header of
        None \<Rightarrow> None
      | Some h \<Rightarrow>
          if h = '''' then None
          else (case id_parts h token_sid of
                  None \<Rightarrow> None
                | Some (epoch, seq_text) \<Rightarrow>
                    if \<not> epoch_re_match epoch \<or> \<not> seq_re_match seq_text then None
                    else if length seq_text > 19 then None
                    else Some (epoch, int (digits_val (dollar_body seq_text)))))"

section \<open>Classification\<close>

text \<open>
  \<open>classify_with\<close> is \<open>classify_reconnect\<close> over the two methods it calls on the log object;
  the result \<open>Inr None\<close> is first-connect semantics, \<open>Inl\<close> an exception of the log.
\<close>

definition classify_with ::
  "('l \<Rightarrow> string \<Rightarrow> bool \<times> 'l) \<Rightarrow>
   ('l \<Rightarrow> string \<Rightarrow> int \<Rightarrow> string option \<Rightarrow> real \<Rightarrow> (log_error + 'p replay_outcome) \<times> 'l) \<Rightarrow>
   string option \<Rightarrow> 'l \<Rightarrow> string \<Rightarrow> string option \<Rightarrow> real \<Rightarrow>
   (log_error + 'p replay_outcome option) \<times> 'l" where
  "classify_with first_connect rep header l domain token_sid now =
     (if header = None \<or> header = Some ''''
      then (case first_connect l domain of
              (True, l') \<Rightarrow> (Inr (Some (ReplayResync RESYNC_RECONNECT_NO_REPLAY)), l')
            | (False, l') \<Rightarrow> (Inr None, l'))
      else (case parse_last_event_id header token_sid of
              None \<Rightarrow> (Inr None, l)
            | Some (epoch, seq) \<Rightarrow>
                (case rep l domain seq (Some epoch) now of
                   (Inl er, l') \<Rightarrow> (Inl er, l')
                 | (Inr r, l') \<Rightarrow> (Inr (Some r), l'))))"

definition classify_reconnect ::
  "string option \<Rightarrow> 'p replay_log \<Rightarrow> string \<Rightarrow> string option \<Rightarrow> real \<Rightarrow>
   (log_error + 'p replay_outcome option) \<times> 'p replay_log" where
  "classify_reconnect = classify_with first_connect_invalidated replay"

section \<open>Meta extension and maintenance\<close>


abbreviation META_CAPABILITY_KEYS :: "(string, bool) dict" where
  "META_CAPABILITY_KEYS \<equiv> [(''sseReplay'', True)]"

definition meta_v4_extension :: "string \<Rightarrow> int \<Rightarrow> (string, json) dict" where
  "meta_v4_extension epoch seq_base =
     [(''capabilities'', JObj (map (\<lambda>(k, b). (k, JBool b)) META_CAPABILITY_KEYS)),
      (''epoch'', JStr epoch), (''seqBase'', JInt seq_base)]"

text \<open>
  One round of \<open>replay_sweep_loop\<close> after its wait: \<open>stop\<close> tells whether the stop event was set;
  the first component tells whether the loop goes on.
\<close>

definition replay_sweep_tick :: "bool \<Rightarrow> real \<Rightarrow> 'p replay_log \<Rightarrow> bool \<times> 'p replay_log" where
  "replay_sweep_tick stop now l =
     (if stop then (False, l) else if rl_closed l then (False, l) else (True, snd (sweep l now)))"

section \<open>Round trip of identifiers\<close>

lemma join_with_split_off:
  "join_with c (split_on c a @ split_on c b) = a @ c # b"
  using join_split [of c "a @ c # b"] by (simp add: split_on_append_sep)

lemma hex_no_colon: "epoch_re_match ep \<Longrightarrow> colon \<notin> set ep"
proof
  assume ep: "epoch_re_match ep" and c: "colon \<in> set ep"
  have "colon \<in> set (dollar_body ep)"
  proof (cases "ep \<noteq> [] \<and> last ep = newline")
    case True
    then have "ep = butlast ep @ [newline]" by (metis append_butlast_last_id)
    moreover have "colon \<noteq> newline" by (simp flip: code_point_inject) (simp add: code_point_def)
    ultimately have "colon \<in> set (butlast ep)" using c by (metis Un_iff empty_iff insert_iff list.set set_append)
    with True show ?thesis by (simp add: dollar_body_def)
  qed (use c in \<open>auto simp: dollar_body_def\<close>)
  with ep have "is_lower_hex colon" by (auto simp: epoch_re_match_def list_all_iff)
  then show False by (simp add: is_lower_hex_def is_digit_def code_point_def)
qed

lemma digits_no_colon: "colon \<notin> set (show_nat n)"
proof
  assume "colon \<in> set (show_nat n)"
  then have "is_digit colon" using show_nat_digits [of n] by (simp add: list_all_iff)
  then show False by (simp add: is_digit_def code_point_def)
qed

lemma show_int_nonneg: "0 \<le> q \<Longrightarrow> show_int q = show_nat (nat q)"
  by (simp add: show_int_def)

lemma split_wire_id:
  assumes "epoch_re_match ep" and "0 \<le> q"
  shows "split_on colon (wire_id d ep q) = split_on colon d @ [ep, show_nat (nat q)]"
  using assms by (simp add: wire_id_def split_on_append_sep split_on_no_sep hex_no_colon digits_no_colon
      show_int_nonneg)

lemma id_parts_global:
  "epoch_re_match ep \<Longrightarrow> 0 \<le> q \<Longrightarrow> id_parts (wire_id GLOBAL_DOMAIN ep q) None = Some (ep, show_nat (nat q))"
  by (simp add: id_parts_def split_wire_id Let_def)

lemma id_parts_token:
  assumes "epoch_re_match ep" and "0 \<le> q"
  shows "id_parts (wire_id (token_domain sid) ep q) (Some tsid) =
    (if sid = tsid then Some (ep, show_nat (nat q)) else None)"
proof -
  have "split_on colon (wire_id (token_domain sid) ep q) =
      ''t'' # split_on colon sid @ [ep, show_nat (nat q)]"
    using split_on_append_sep [of colon "''t''" sid] by (simp add: split_wire_id [OF assms] token_domain_def)
  then show ?thesis
    using join_split [of colon sid]
    by (cases "split_on colon sid") (auto simp: id_parts_def Let_def nth_append nth_Cons')
qed

lemma seq_re_show [simp]: "seq_re_match (show_nat n)" "dollar_body (show_nat n) = show_nat n"
  using show_nat_digits [of n] by (simp_all add: seq_re_match_def dollar_body_last show_nat_last_not_newline)

lemma wire_id_neq_Nil [simp]: "wire_id d ep q \<noteq> []"
  by (simp add: wire_id_def)

definition endpoint_domain :: "string option \<Rightarrow> string" where
  "endpoint_domain token_sid = (case token_sid of None \<Rightarrow> GLOBAL_DOMAIN | Some sid \<Rightarrow> token_domain sid)"

lemma parse_wire_id:
  assumes "epoch_re_match ep" and "0 \<le> q" and "q < 10 ^ 19"
  shows "parse_last_event_id (Some (wire_id (endpoint_domain tok) ep q)) tok = Some (ep, q)"
proof -
  have "length (show_nat (nat q)) \<le> 19"
    using assms(2,3) by (intro length_show_nat) (simp_all add: nat_less_iff)
  moreover have "id_parts (wire_id (endpoint_domain tok) ep q) tok = Some (ep, show_nat (nat q))"
    using assms by (cases tok) (simp_all add: endpoint_domain_def id_parts_global id_parts_token)
  ultimately show ?thesis using assms by (simp add: parse_last_event_id_def)
qed

lemma join_with_snoc: "xs \<noteq> [] \<Longrightarrow> join_with c (xs @ [a]) = join_with c xs @ c # a"
proof (induction c xs rule: join_with.induct)
  case (3 c s v va)
  then show ?case by simp
qed simp_all

lemma split_last_two:
  assumes "2 \<le> length xs"
  shows "xs = take (length xs - 2) xs @ [xs ! (length xs - 2), xs ! (length xs - 1)]"
proof (cases xs rule: rev_cases)
  case (snoc ys y)
  with assms show ?thesis by (cases ys rule: rev_cases) (simp_all add: nth_append)
qed (use assms in simp)

lemma id_parts_sound:
  assumes "id_parts h tok = Some (ep, qt)"
  shows "h = endpoint_domain tok @ colon # ep @ colon # qt"
proof -
  let ?ps = "split_on colon h"
  have h: "h = join_with colon ?ps" by simp
  show ?thesis
  proof (cases tok)
    case None
    then have "length ?ps = 3" "?ps ! 0 = ''g''" "?ps ! 1 = ep" "?ps ! 2 = qt"
      using assms by (auto simp: id_parts_def Let_def split: if_splits)
    then have "?ps = [''g'', ep, qt]" by (auto simp: numeral_3_eq_3 length_Suc_conv)
    then have "h = join_with colon [''g'', ep, qt]" using h by simp
    then show ?thesis by (simp add: None endpoint_domain_def)
  next
    case (Some sid)
    then have n: "4 \<le> length ?ps" "?ps ! 0 = ''t''" "?ps ! (length ?ps - 2) = ep" "?ps ! (length ?ps - 1) = qt"
        and sid: "join_with colon (take (length ?ps - 3) (drop 1 ?ps)) = sid"
      using assms by (auto simp: id_parts_def Let_def split: if_splits)
    obtain p rest where ps: "?ps = p # rest" by (cases ?ps) auto
    define mid where "mid = take (length rest - 2) rest"
    have r: "rest = mid @ [ep, qt]"
      using n split_last_two [of rest] unfolding mid_def by (auto simp: ps nth_Cons' numeral_2_eq_2 split: if_splits)
    then have "mid \<noteq> []" using n ps by auto
    moreover have "join_with colon mid = sid" using sid n by (simp add: ps mid_def)
    moreover have "p = ''t''" using n ps by simp
    ultimately have "h = ''t'' @ colon # sid @ colon # ep @ colon # qt"
      using h join_with_snoc [of "''t'' # mid @ [ep]" colon qt] join_with_snoc [of "''t'' # mid" colon ep]
      by (cases mid) (simp_all add: ps r)
    then show ?thesis by (simp add: Some endpoint_domain_def token_domain_def)
  qed
qed

section \<open>What the classification relies on\<close>

text \<open>
  A replay service: a store of published frames per domain, related to an abstract history by
  \<open>rel\<close>. Non-negative cursors are always answered, a foreign epoch is refused, and frames that
  are served continue the history.
\<close>

locale replay_service =
  fixes first_connect :: "'l \<Rightarrow> string \<Rightarrow> bool \<times> 'l"
    and rep :: "'l \<Rightarrow> string \<Rightarrow> int \<Rightarrow> string option \<Rightarrow> real \<Rightarrow> (log_error + 'p replay_outcome) \<times> 'l"
    and epoch_of :: "'l \<Rightarrow> string"
    and hist :: "'h \<Rightarrow> string \<Rightarrow> 'p list"
    and rel :: "'l \<Rightarrow> 'h \<Rightarrow> bool"
  assumes rep_answers: "rel l h \<Longrightarrow> 0 \<le> q \<Longrightarrow> \<exists>r. fst (rep l d q ep now) = Inr r"
    and rep_epoch: "ep \<noteq> Some (epoch_of l) \<Longrightarrow> 0 \<le> q \<Longrightarrow>
          fst (rep l d q ep now) = Inr (ReplayResync RESYNC_EPOCH_CHANGED)"
    and rep_frames: "rel l h \<Longrightarrow> fst (rep l d q ep now) = Inr (ReplayFrames es) \<Longrightarrow>
          map e_payload es = drop (nat q) (hist h d) \<and> map e_seq es = [q + 1..int (length (hist h d))]"
    and rep_keeps: "rel l h \<Longrightarrow> rel (snd (rep l d q ep now)) h"
    and first_connect_keeps: "rel l h \<Longrightarrow> rel (snd (first_connect l d)) h"
begin

lemma classify_never_fails:
  assumes "rel l h"
  shows "\<exists>r. fst (classify_with first_connect rep header l d tok now) = Inr r"
    and "rel (snd (classify_with first_connect rep header l d tok now)) h"
proof -
  have "\<exists>r. fst (classify_with first_connect rep header l d tok now) = Inr r \<and>
      rel (snd (classify_with first_connect rep header l d tok now)) h"
  proof (cases "header = None \<or> header = Some ''''")
    case True
    then show ?thesis
      using first_connect_keeps [OF assms, of d]
      by (cases "first_connect l d") (auto simp: classify_with_def split: bool.splits)
  next
    case False
    show ?thesis
    proof (cases "parse_last_event_id header tok")
      case None
      with False assms show ?thesis by (auto simp: classify_with_def)
    next
      case (Some p)
      obtain ep q where p: "p = (ep, q)" by fastforce
      then have "0 \<le> q" using Some by (auto simp: parse_last_event_id_def split: option.splits if_splits)
      then obtain r where "fst (rep l d q (Some ep) now) = Inr r" using rep_answers [OF assms] by blast
      then show ?thesis
        using False Some p rep_keeps [OF assms, of d q "Some ep" now]
        by (cases "rep l d q (Some ep) now") (auto simp: classify_with_def)
    qed
  qed
  then show "\<exists>r. fst (classify_with first_connect rep header l d tok now) = Inr r"
    "rel (snd (classify_with first_connect rep header l d tok now)) h" by blast+
qed

text \<open>A client that presents the identifier of the frame it received last.\<close>

lemma classify_own_id:
  assumes "epoch_re_match ep" and "0 \<le> q" and "q < 10 ^ 19"
  shows "fst (classify_with first_connect rep (Some (wire_id (endpoint_domain tok) ep q)) l d tok now) =
    map_sum id Some (fst (rep l d q (Some ep) now))"
  using parse_wire_id [OF assms, of tok]
  by (cases "rep l d q (Some ep) now") (auto simp: classify_with_def split: sum.splits)

lemma reconnect_resumes:
  assumes "rel l h" and "epoch_re_match ep" and "0 \<le> q" and "q < 10 ^ 19"
    and "fst (classify_with first_connect rep (Some (wire_id (endpoint_domain tok) ep q)) l d tok now) =
      Inr (Some (ReplayFrames es))"
  shows "ep = epoch_of l" and "map e_payload es = drop (nat q) (hist h d)"
    and "map e_seq es = [q + 1..int (length (hist h d))]"
proof -
  have r: "fst (rep l d q (Some ep) now) = Inr (ReplayFrames es)"
    using assms(5) unfolding classify_own_id [OF assms(2-4)]
    by (cases "fst (rep l d q (Some ep) now)") auto
  show "map e_payload es = drop (nat q) (hist h d)" "map e_seq es = [q + 1..int (length (hist h d))]"
    using rep_frames [OF assms(1) r] by auto
  show "ep = epoch_of l" using rep_epoch [of "Some ep" l q d now] assms(3) r by auto
qed

end

interpretation rlog: replay_service first_connect_invalidated replay rl_epoch h_frames rl_rel
proof unfold_locales
  fix l :: "'p replay_log" and h d q ep now es
  show "rl_rel l h \<Longrightarrow> 0 \<le> q \<Longrightarrow> \<exists>r. fst (replay l d q ep now) = Inr r"
    using replay_outcome by blast
  show "rl_rel l h \<Longrightarrow> fst (replay l d q ep now) = Inr (ReplayFrames es) \<Longrightarrow>
      map e_payload es = drop (nat q) (h_frames h d) \<and> map e_seq es = [q + 1..int (length (h_frames h d))]"
    using replay_frames_history by blast
  show "rl_rel l h \<Longrightarrow> rl_rel (snd (first_connect_invalidated l d)) h"
    using rl_step_rel [of l h "Op_First_Connect d"] by simp
qed (simp_all add: replay_def replay_rel [unfolded replay_def])

section \<open>Guarantees of the wire layer\<close>

text \<open>
  Round trip of event ids. The id that \<open>sse_id_line\<close> puts on a frame of the endpoint's domain,
  sent back as Last-Event-ID to the same endpoint, parses to exactly the epoch and seq it was
  built from, also for session ids that contain colons.
\<close>

theorem event_id_roundtrip:
  assumes "epoch_re_match ep" and "0 \<le> q" and "q < 10 ^ 19"
    and "sse_id_line (endpoint_domain tok) ep q = Some line"
  shows "\<exists>value. line = ''id: '' @ value @ [newline] \<and> parse_last_event_id (Some value) tok = Some (ep, q)"
proof (intro exI conjI)
  show "parse_last_event_id (Some (wire_id (endpoint_domain tok) ep q)) tok = Some (ep, q)"
    by (rule parse_wire_id) fact+
qed (use assms(4) in \<open>simp add: sse_id_line_def Let_def split: if_splits\<close>)

theorem event_id_roundtrip_witness:
  "\<exists>value. ''id: t:a:b:0123456789abcdef:7'' @ [newline] = ''id: '' @ value @ [newline] \<and>
     parse_last_event_id (Some value) (Some ''a:b'') = Some (''0123456789abcdef'', 7)"
proof (rule event_id_roundtrip)
  show "epoch_re_match ''0123456789abcdef''"
    "sse_id_line (endpoint_domain (Some ''a:b'')) ''0123456789abcdef'' 7 =
       Some (''id: t:a:b:0123456789abcdef:7'' @ [newline])" by code_simp+
qed simp_all

text \<open>
  Only ids of the endpoint's own grammar and domain are accepted: a parsed header is the
  endpoint's domain (global or this very session), a well-formed epoch and a decimal seq that
  fits in 19 digits.
\<close>

theorem parse_sound:
  assumes "parse_last_event_id header tok = Some (ep, q)"
  shows "epoch_re_match ep \<and> 0 \<le> q \<and> q < 10 ^ 19 \<and>
    (\<exists>qt. header = Some (endpoint_domain tok @ colon # ep @ colon # qt) \<and>
       list_all is_digit (dollar_body qt) \<and> q = int (digits_val (dollar_body qt)))"
proof -
  obtain h qt where h: "header = Some h" "id_parts h tok = Some (ep, qt)" "epoch_re_match ep"
      "seq_re_match qt" "length qt \<le> 19" "q = int (digits_val (dollar_body qt))"
    using assms by (auto simp: parse_last_event_id_def split: option.splits if_splits)
  have d: "list_all is_digit (dollar_body qt)" using h(4) by (simp add: seq_re_match_def)
  have "length (dollar_body qt) \<le> 19" using h(5) by (auto simp: dollar_body_def)
  then have "(10::nat) ^ length (dollar_body qt) \<le> 10 ^ 19" by (simp only: power_increasing one_le_numeral)
  then have "digits_val (dollar_body qt) < 10 ^ 19"
    using digits_val_bound [OF d] by (rule less_le_trans [rotated])
  then have "q < 10 ^ 19" using h(6) by simp
  with h d id_parts_sound [OF h(2)] show ?thesis by (intro conjI exI [of _ qt]) simp_all
qed

theorem parse_sound_witness:
  "\<exists>qt. Some ''g:0123456789abcdef:007'' =
      Some (endpoint_domain None @ colon # ''0123456789abcdef'' @ colon # qt) \<and>
    list_all is_digit (dollar_body qt) \<and> (7::int) = int (digits_val (dollar_body qt))"
proof -
  have "parse_last_event_id (Some ''g:0123456789abcdef:007'') None = Some (''0123456789abcdef'', 7)"
    by code_simp
  from parse_sound [OF this] show ?thesis by blast
qed

text \<open>
  C39. Reconnecting end to end. After any run on a new log, classification of any header never
  raises. A client that presents the id of frame \<open>q\<close> of its domain is answered as follows: with a
  resync if the id is of another process epoch, with a resync if a barrier of the log lies at or above
  \<open>q\<close>, with a reset if \<open>q\<close> was never published, with a resync if a frame after \<open>q\<close> is no longer in the
  log (evicted, or past its time to live); and in every other case with frames, which are exactly the frames
  published after \<open>q\<close>, in order, without gaps. The length of the history is the number of frames ever
  published to the domain, \<open>fresh_entries\<close> are those the log still holds.
\<close>

theorem reconnect_resumes_exactly:
  assumes "new_replay_log epoch nonce mc mb ttl size_of dflt = Inr l0"
    and "epoch_re_match ep" and "0 \<le> q" and "q < 10 ^ 19"
    and "l = fold rl_step ops l0" and "h = fold h_step ops (h_init (rl_size_of l0))" and "d = endpoint_domain tok"
    and "n = int (length (h_frames h d))"
  shows "(\<exists>r. fst (classify_reconnect header l d tok now) = Inr r) \<and>
    (if ep \<noteq> rl_epoch l0 then
       fst (classify_reconnect (Some (wire_id d ep q)) l d tok now) = Inr (Some (ReplayResync RESYNC_EPOCH_CHANGED))
     else if (\<exists>w. barrier_watermark l d = Some w \<and> q \<le> w) then
       fst (classify_reconnect (Some (wire_id d ep q)) l d tok now) = Inr (Some (ReplayResync RESYNC_RECONNECT_NO_REPLAY))
     else if n < q then
       fst (classify_reconnect (Some (wire_id d ep q)) l d tok now) = Inr (Some (ReplayIgnoreReset q))
     else if q < n - int (length (fresh_entries l d now)) then
       fst (classify_reconnect (Some (wire_id d ep q)) l d tok now) = Inr (Some (ReplayResync RESYNC_REPLAY_EXPIRED))
     else \<exists>es. fst (classify_reconnect (Some (wire_id d ep q)) l d tok now) = Inr (Some (ReplayFrames es)) \<and>
            map e_payload es = drop (nat q) (h_frames h d) \<and> map e_seq es = [q + 1..n])"
proof -
  have rel: "rl_rel l h" using run_refines [OF assms(1)] by (simp add: assms(5,6))
  have ep: "rl_epoch l = rl_epoch l0" using run_config [of l0 ops l0] by (simp add: assms(5) same_config_def)
  have own: "fst (classify_reconnect (Some (wire_id d ep q)) l d tok now) = map_sum id Some (fst (replay l d q (Some ep) now))"
    unfolding classify_reconnect_def assms(7) by (rule rlog.classify_own_id [OF assms(2-4)])
  have frames: "map e_payload es = drop (nat q) (h_frames h d) \<and> map e_seq es = [q + 1..n]"
    if "fst (replay l d q (Some ep) now) = Inr (ReplayFrames es)" for es
    using rlog.rep_frames [OF rel that] by (simp add: assms(8))
  show ?thesis
    using rlog.classify_never_fails(1) [OF rel, of header d tok now] frames replay_outcome [OF rel assms(3), of d "Some ep" now]
    unfolding own by (auto simp: classify_reconnect_def ep assms(8))
qed

lemma demo_id: "wire_id (endpoint_domain None) ''0123456789abcdef'' 2 = ''g:0123456789abcdef:2''"
  by code_simp

theorem reconnect_resumes_exactly_witness:
  "\<exists>es. fst (classify_reconnect (Some ''g:0123456789abcdef:2'') (fold rl_step demo_ops demo_log) ''g'' None 5) = Inr (Some (ReplayFrames es))
     \<and> map e_payload es = [''c''] \<and> map e_seq es = [3]"
proof -
  let ?l = "fold rl_step demo_ops demo_log" and ?h = "fold h_step demo_ops (h_init (rl_size_of demo_log))"
  have e: "epoch_re_match ''0123456789abcdef''" by code_simp
  have d: "''g'' = endpoint_domain None" by (simp add: endpoint_domain_def)
  have l: "rl_epoch demo_log = ''0123456789abcdef''" by (simp add: demo_log_def)
  have s: "h_frames ?h ''g'' = [''a'', ''b'', ''c'']" "barrier_watermark ?l ''g'' = Some 1"
    "length (fresh_entries ?l ''g'' 5) = 2" by code_simp+
  from reconnect_resumes_exactly [OF demo_new e, of 2 ?l demo_ops ?h "''g''" None 3 None 5] s d l
  show ?thesis by (simp add: demo_id upto.simps)
qed

end
