(* ===== verification/Subscribers.thy ===== *)
theory Subscribers
  imports Sse_Frames
begin

text \<open>
  The bounded outbound queues of one SSE client: \<open>Subscriber\<close> of \<^verbatim>\<open>sse/hub_types.py\<close> (control
  plane) and \<open>TokenSubscriber\<close> with its \<open>_SubscriberQueue\<close> of \<^verbatim>\<open>sse/tokenstream/subscriber.py\<close>
  (token streams).

  Queue entries are frames of any type with a byte length \<open>len\<close> (a parameter), or the \<open>STOP\<close>
  sentinel. \<^verbatim>\<open>asyncio.Queue.put_nowait\<close> raises \<open>QueueFull\<close> on a full queue; where the source lets
  that exception escape, the method's result is \<open>Inl QueueFull\<close>.

  The contract both queues share is the locale \<open>outbox\<close>: what a client receives is always a
  prefix of what was accepted, with nothing lost, repeated or reordered before a disconnect.
\<close>

section \<open>Queues\<close>

datatype 'f item = STOP | Frame 'f

datatype queue_error = QueueFull

text \<open>\<^verbatim>\<open>asyncio.Queue(maxsize)\<close>: a maxsize of zero or less means unbounded.\<close>

definition queue_full :: "int \<Rightarrow> 'f item list \<Rightarrow> bool" where
  "queue_full maxsize q \<longleftrightarrow> 0 < maxsize \<and> maxsize \<le> int (length q)"

fun item_len :: "('f \<Rightarrow> nat) \<Rightarrow> 'f item \<Rightarrow> int" where
  "item_len len STOP = 0"
| "item_len len (Frame f) = int (len f)"

definition queue_bytes :: "('f \<Rightarrow> nat) \<Rightarrow> 'f item list \<Rightarrow> int" where
  "queue_bytes len q = sum_list (map (item_len len) q)"

section \<open>Subscriber\<close>

record 'f subscriber =
  sb_queue_items :: int
  sb_buffer_bytes :: int
  sb_max_frame_bytes :: int
  sb_queued_bytes :: int
  sb_closed :: bool
  sb_dropped_frames :: int
  sb_forced_disconnects :: int
  sb_queue :: "'f item list"

definition new_subscriber :: "int \<Rightarrow> int \<Rightarrow> int \<Rightarrow> 'f subscriber" where
  "new_subscriber queue_items buffer_bytes max_frame_bytes =
     \<lparr>sb_queue_items = queue_items, sb_buffer_bytes = buffer_bytes, sb_max_frame_bytes = max_frame_bytes,
      sb_queued_bytes = 0, sb_closed = False, sb_dropped_frames = 0, sb_forced_disconnects = 0,
      sb_queue = []\<rparr>"

definition sb_clear_queue :: "'f subscriber \<Rightarrow> 'f subscriber" where
  "sb_clear_queue s = s\<lparr>sb_queue := [], sb_queued_bytes := 0\<rparr>"

text \<open>The overflow path: disconnect, drop the backlog, seal with one \<open>STOP\<close>.\<close>

definition sb_overflow :: "'f subscriber \<Rightarrow> 'f subscriber" where
  "sb_overflow s =
     (let s1 = sb_clear_queue (s\<lparr>sb_closed := True, sb_forced_disconnects := sb_forced_disconnects s + 1\<rparr>)
      in if queue_full (sb_queue_items s1) (sb_queue s1) then s1
         else s1\<lparr>sb_queue := sb_queue s1 @ [STOP]\<rparr>)"

definition sb_put :: "('f \<Rightarrow> nat) \<Rightarrow> 'f item \<Rightarrow> 'f subscriber \<Rightarrow> bool \<times> 'f subscriber" where
  "sb_put len x s =
     (if sb_closed s then (False, s)
      else case x of
        STOP \<Rightarrow>
          if queue_full (sb_queue_items s) (sb_queue s) then (False, s)
          else (True, s\<lparr>sb_queue := sb_queue s @ [STOP]\<rparr>)
      | Frame f \<Rightarrow>
          let sz = int (len f)
          in if sz > sb_max_frame_bytes s
             then (False, s\<lparr>sb_dropped_frames := sb_dropped_frames s + 1\<rparr>)
             else if int (length (sb_queue s)) < sb_queue_items s \<and>
                     sb_queued_bytes s + sz \<le> sb_buffer_bytes s \<and>
                     \<not> queue_full (sb_queue_items s) (sb_queue s)
             then (True, s\<lparr>sb_queue := sb_queue s @ [Frame f], sb_queued_bytes := sb_queued_bytes s + sz\<rparr>)
             else (False, sb_overflow s))"

definition sb_ack :: "('f \<Rightarrow> nat) \<Rightarrow> 'f item \<Rightarrow> 'f subscriber \<Rightarrow> 'f subscriber" where
  "sb_ack len x s =
     (case x of
        STOP \<Rightarrow> s
      | Frame f \<Rightarrow> s\<lparr>sb_queued_bytes := max 0 (sb_queued_bytes s - int (len f))\<rparr>)"

text \<open>\<^verbatim>\<open>queue.get_nowait()\<close>\<close>

definition sb_get :: "'f subscriber \<Rightarrow> ('f item \<times> 'f subscriber) option" where
  "sb_get s = (case sb_queue s of [] \<Rightarrow> None | x # q \<Rightarrow> Some (x, s\<lparr>sb_queue := q\<rparr>))"

section \<open>TokenSubscriber\<close>

record 'f subscriber_queue =
  sq_maxsize :: int
  sq_queue :: "'f item list"
  sq_runtime_bytes :: int

text \<open>\<open>put_nowait\<close> raises before the ledger is touched.\<close>

definition put_runtime :: "('f \<Rightarrow> nat) \<Rightarrow> 'f item \<Rightarrow> 'f subscriber_queue \<Rightarrow> (queue_error + unit) \<times> 'f subscriber_queue" where
  "put_runtime len x q =
     (if queue_full (sq_maxsize q) (sq_queue q) then (Inl QueueFull, q)
      else (Inr (), q\<lparr>sq_queue := sq_queue q @ [x], sq_runtime_bytes := sq_runtime_bytes q + item_len len x\<rparr>))"

definition clear_runtime :: "'f subscriber_queue \<Rightarrow> 'f subscriber_queue" where
  "clear_runtime q = q\<lparr>sq_queue := [], sq_runtime_bytes := 0\<rparr>"

definition put_runtime_terminal :: "'f item \<Rightarrow> 'f subscriber_queue \<Rightarrow> (queue_error + unit) \<times> 'f subscriber_queue" where
  "put_runtime_terminal x q =
     (if queue_full (sq_maxsize q) (sq_queue q) then (Inl QueueFull, q)
      else (Inr (), q\<lparr>sq_queue := sq_queue q @ [x]\<rparr>))"

definition ack_runtime :: "('f \<Rightarrow> nat) \<Rightarrow> 'f item \<Rightarrow> 'f subscriber_queue \<Rightarrow> 'f subscriber_queue" where
  "ack_runtime len x q =
     (case x of
        STOP \<Rightarrow> q
      | Frame f \<Rightarrow> q\<lparr>sq_runtime_bytes := max 0 (sq_runtime_bytes q - int (len f))\<rparr>)"

text \<open>
  The shared metrics object is not part of the record: \<open>tok_put\<close> also returns by how much
  \<^verbatim>\<open>dropped_frames_total\<close> grows.
\<close>

record 'f token_subscriber =
  tk_session_id :: string
  tk_queue_items :: int
  tk_buffer_bytes :: int
  tk_max_frame_bytes :: int
  tk_closed :: bool
  tk_dropped_frames :: int
  tk_forced_disconnects :: int
  tk_queue :: "'f subscriber_queue"

definition new_token_subscriber :: "string \<Rightarrow> int \<Rightarrow> int \<Rightarrow> int \<Rightarrow> 'f token_subscriber" where
  "new_token_subscriber sid queue_items buffer_bytes max_frame_bytes =
     \<lparr>tk_session_id = sid, tk_queue_items = queue_items, tk_buffer_bytes = buffer_bytes,
      tk_max_frame_bytes = max_frame_bytes, tk_closed = False, tk_dropped_frames = 0,
      tk_forced_disconnects = 0,
      tk_queue = \<lparr>sq_maxsize = queue_items, sq_queue = [], sq_runtime_bytes = 0\<rparr>\<rparr>"

definition tok_put ::
  "('f \<Rightarrow> nat) \<Rightarrow> 'f item \<Rightarrow> 'f token_subscriber \<Rightarrow> (queue_error + bool) \<times> int \<times> 'f token_subscriber" where
  "tok_put len x s =
     (if tk_closed s then (Inr False, 0, s)
      else case x of
        STOP \<Rightarrow>
          (case put_runtime len STOP (tk_queue s) of
             (Inl er, q) \<Rightarrow> (Inl er, 0, s\<lparr>tk_queue := q\<rparr>)
           | (Inr _, q) \<Rightarrow> (Inr True, 0, s\<lparr>tk_queue := q\<rparr>))
      | Frame f \<Rightarrow>
          let sz = int (len f)
          in if sz > tk_max_frame_bytes s
             then (Inr False, 1, s\<lparr>tk_dropped_frames := tk_dropped_frames s + 1\<rparr>)
             else if int (length (sq_queue (tk_queue s))) < tk_queue_items s \<and>
                     sq_runtime_bytes (tk_queue s) + sz \<le> tk_buffer_bytes s
             then (case put_runtime len (Frame f) (tk_queue s) of
                     (Inl er, q) \<Rightarrow> (Inl er, 0, s\<lparr>tk_queue := q\<rparr>)
                   | (Inr _, q) \<Rightarrow> (Inr True, 0, s\<lparr>tk_queue := q\<rparr>))
             else (case put_runtime_terminal STOP (clear_runtime (tk_queue s)) of
                     (r, q) \<Rightarrow>
                       ((case r of Inl er \<Rightarrow> Inl er | Inr _ \<Rightarrow> Inr False), 1,
                        s\<lparr>tk_closed := True, tk_dropped_frames := tk_dropped_frames s + 1,
                          tk_forced_disconnects := tk_forced_disconnects s + 1, tk_queue := q\<rparr>)))"

text \<open>\<open>terminate\<close>; \<open>mk\<close> builds the queued resync frame.\<close>

definition tok_terminate ::
  "(string \<Rightarrow> string \<Rightarrow> 'f) \<Rightarrow> string \<Rightarrow> 'f token_subscriber \<Rightarrow> (queue_error + unit) \<times> 'f token_subscriber" where
  "tok_terminate mk reason s =
     (let q0 = clear_runtime (tk_queue s);
          (r1, q1) = (if reason \<in> set V4_RESYNC_REASONS
                      then put_runtime_terminal (Frame (mk (tk_session_id s) reason)) q0 else (Inr (), q0))
      in case r1 of
           Inl er \<Rightarrow> (Inl er, s\<lparr>tk_closed := True, tk_queue := q1\<rparr>)
         | Inr _ \<Rightarrow> (case put_runtime_terminal STOP q1 of
                       (r2, q2) \<Rightarrow> (r2, s\<lparr>tk_closed := True, tk_queue := q2\<rparr>)))"

definition tok_ack :: "('f \<Rightarrow> nat) \<Rightarrow> 'f item \<Rightarrow> 'f token_subscriber \<Rightarrow> 'f token_subscriber" where
  "tok_ack len x s = (case x of STOP \<Rightarrow> s | Frame _ \<Rightarrow> s\<lparr>tk_queue := ack_runtime len x (tk_queue s)\<rparr>)"

definition tok_get :: "'f token_subscriber \<Rightarrow> ('f item \<times> 'f token_subscriber) option" where
  "tok_get s =
     (case sq_queue (tk_queue s) of
        [] \<Rightarrow> None
      | x # q \<Rightarrow> Some (x, s\<lparr>tk_queue := (tk_queue s)\<lparr>sq_queue := q\<rparr>\<rparr>))"

section \<open>The contract of an outbound queue\<close>

text \<open>A client session on a queue: frames offered, taken out by the generator, acknowledged.\<close>

datatype 'f outbox_op = Put "'f item" | Get | Ack

record ('s, 'f) session =
  ss_state :: 's
  ss_accepted :: "'f item list"
  ss_received :: "'f item list"
  ss_unacked :: "'f item list"

definition session_step ::
  "('f item \<Rightarrow> 's \<Rightarrow> bool \<times> 's) \<Rightarrow> ('s \<Rightarrow> ('f item \<times> 's) option) \<Rightarrow> ('f item \<Rightarrow> 's \<Rightarrow> 's) \<Rightarrow>
   'f outbox_op \<Rightarrow> ('s, 'f) session \<Rightarrow> ('s, 'f) session" where
  "session_step put get ack x c =
     (case x of
        Put i \<Rightarrow> (case put i (ss_state c) of
                    (b, s) \<Rightarrow> c\<lparr>ss_state := s, ss_accepted := ss_accepted c @ (if b then [i] else [])\<rparr>)
      | Get \<Rightarrow> (case get (ss_state c) of
                   None \<Rightarrow> c
                 | Some (i, s) \<Rightarrow> c\<lparr>ss_state := s, ss_received := ss_received c @ [i],
                                    ss_unacked := ss_unacked c @ [i]\<rparr>)
      | Ack \<Rightarrow> (case ss_unacked c of
                   [] \<Rightarrow> c
                 | i # rest \<Rightarrow> c\<lparr>ss_state := ack i (ss_state c), ss_unacked := rest\<rparr>))"

definition new_session :: "'s \<Rightarrow> ('s, 'f) session" where
  "new_session s = \<lparr>ss_state = s, ss_accepted = [], ss_received = [], ss_unacked = []\<rparr>"

locale outbox =
  fixes put :: "'f item \<Rightarrow> 's \<Rightarrow> bool \<times> 's"
    and get :: "'s \<Rightarrow> ('f item \<times> 's) option"
    and ack :: "'f item \<Rightarrow> 's \<Rightarrow> 's"
    and queue :: "'s \<Rightarrow> 'f item list"
    and ledger :: "'s \<Rightarrow> int"
    and closed :: "'s \<Rightarrow> bool"
    and budget :: "'s \<Rightarrow> int"
    and capacity :: "'s \<Rightarrow> int"
    and len :: "'f \<Rightarrow> nat"
  assumes put_closed: "closed s \<Longrightarrow> put x s = (False, s)"
    and put_accepted: "put x s = (True, s') \<Longrightarrow> queue s' = queue s @ [x] \<and> \<not> closed s' \<and>
          ledger s' = ledger s + item_len len x \<and> (ledger s \<le> budget s \<longrightarrow> ledger s' \<le> budget s')"
    and put_rejected: "put x s = (False, s') \<Longrightarrow> \<not> closed s \<Longrightarrow>
          (\<not> closed s' \<and> queue s' = queue s \<and> ledger s' = ledger s) \<or>
          (closed s' \<and> queue s' = [STOP] \<and> ledger s' = 0)"
    and put_capacity: "put x s = (True, s') \<Longrightarrow> 0 < capacity s \<Longrightarrow> int (length (queue s')) \<le> capacity s"
    and put_budget: "put x s = (b, s') \<Longrightarrow> budget s' = budget s \<and> capacity s' = capacity s"
    and get_head: "get s = None \<longleftrightarrow> queue s = []"
          "get s = Some (x, s') \<Longrightarrow> queue s = x # queue s' \<and> ledger s' = ledger s \<and> closed s' = closed s \<and>
             budget s' = budget s \<and> capacity s' = capacity s"
    and ack_ledger: "queue (ack x s) = queue s \<and> closed (ack x s) = closed s \<and> budget (ack x s) = budget s \<and>
          capacity (ack x s) = capacity s \<and>
          (0 \<le> ledger s \<longrightarrow> ledger (ack x s) = max 0 (ledger s - item_len len x))"
begin

definition session_inv :: "('s, 'f) session \<Rightarrow> bool" where
  "session_inv c \<longleftrightarrow>
     0 \<le> ledger (ss_state c) \<and> ledger (ss_state c) \<le> budget (ss_state c) \<and>
     (0 < capacity (ss_state c) \<longrightarrow> int (length (queue (ss_state c))) \<le> capacity (ss_state c)) \<and>
     (if closed (ss_state c)
      then \<exists>pre rest. ss_accepted c = pre @ rest \<and> ss_received c @ queue (ss_state c) = pre @ [STOP]
      else ss_accepted c = ss_received c @ queue (ss_state c) \<and>
           ledger (ss_state c) = queue_bytes len (queue (ss_state c)) + queue_bytes len (ss_unacked c))"

lemma item_len_nonneg [simp]: "0 \<le> item_len len x"
  by (cases x) auto

lemma queue_bytes_nonneg [simp]: "0 \<le> queue_bytes len q"
  by (induction q) (auto simp: queue_bytes_def)

lemma session_step_inv: "session_inv c \<Longrightarrow> session_inv (session_step put get ack x c)"
proof (cases x)
  case (Put i)
  assume inv: "session_inv c"
  obtain b s' where p: "put i (ss_state c) = (b, s')" by fastforce
  note bud = put_budget [OF p]
  show ?thesis
  proof (cases "closed (ss_state c)")
    case True
    with p put_closed have "b = False" "s' = ss_state c" by auto
    with inv p Put True show ?thesis by (auto simp: session_step_def session_inv_def)
  next
    case False
    show ?thesis
    proof (cases b)
      case True
      with p have acc: "put i (ss_state c) = (True, s')" by simp
      have "0 \<le> ledger s'" using put_accepted [OF acc] inv by (simp add: session_inv_def)
      then show ?thesis
        using put_accepted [OF acc] put_capacity [OF acc] inv False p bud True
        by (simp add: Put session_step_def session_inv_def queue_bytes_def)
    next
      case b: False
      with p have rej: "put i (ss_state c) = (False, s')" by simp
      from put_rejected [OF rej False] show ?thesis
      proof (elim disjE conjE)
        assume *: "closed s'" "queue s' = [STOP]" "ledger s' = 0"
        have "\<exists>rest. ss_accepted c = ss_received c @ rest"
          using inv False by (auto simp: session_inv_def)
        moreover have "0 \<le> budget s'" using inv bud by (simp add: session_inv_def)
        ultimately show ?thesis using * p b by (simp add: Put session_step_def session_inv_def)
      qed (use inv False p b bud in \<open>simp add: Put session_step_def session_inv_def\<close>)
    qed
  qed
next
  case Get
  assume inv: "session_inv c"
  show ?thesis
  proof (cases "get (ss_state c)")
    case (Some r)
    then obtain i s' where r: "get (ss_state c) = Some (i, s')" by (cases r) auto
    with inv get_head(2) [OF r] show ?thesis
      by (auto simp: Get session_step_def session_inv_def queue_bytes_def)
  qed (use inv in \<open>simp add: Get session_step_def\<close>)
next
  case Ack
  assume inv: "session_inv c"
  show ?thesis
  proof (cases "ss_unacked c")
    case (Cons i rest)
    have "item_len len i \<le> ledger (ss_state c)" if "\<not> closed (ss_state c)"
      using inv that Cons queue_bytes_nonneg [of "queue (ss_state c)"] queue_bytes_nonneg [of rest]
      by (simp add: session_inv_def queue_bytes_def)
    moreover have "max 0 (ledger (ss_state c) - item_len len i) \<le> budget (ss_state c)"
    proof -
      have "0 \<le> ledger (ss_state c)" "ledger (ss_state c) \<le> budget (ss_state c)"
        using inv by (simp_all add: session_inv_def)
      moreover have "0 \<le> item_len len i" by simp
      ultimately show ?thesis by linarith
    qed
    ultimately show ?thesis
      using inv ack_ledger [of i "ss_state c"] Cons by (auto simp: Ack session_step_def session_inv_def queue_bytes_def)
  qed (use inv in \<open>simp add: Ack session_step_def\<close>)
qed

lemma session_run_inv:
  assumes "queue s = []" and "ledger s = 0" and "\<not> closed s" and "0 \<le> budget s"
  shows "session_inv (fold (session_step put get ack) ops (new_session s))"
proof -
  have "session_inv (new_session s)"
    using assms by (simp add: session_inv_def new_session_def queue_bytes_def)
  then show ?thesis by (induction ops rule: rev_induct) (simp_all add: session_step_inv)
qed

text \<open>What the client has received is a prefix of what was accepted, then at most one \<open>STOP\<close>.\<close>

lemma received_prefix:
  assumes "session_inv c"
  shows "\<exists>n. ss_received c = take n (ss_accepted c) \<or> ss_received c = take n (ss_accepted c) @ [STOP]"
proof (cases "closed (ss_state c)")
  case True
  then obtain pre rest where pr: "ss_accepted c = pre @ rest" "ss_received c @ queue (ss_state c) = pre @ [STOP]"
    using assms by (auto simp: session_inv_def)
  show ?thesis
  proof (cases "queue (ss_state c)" rule: rev_cases)
    case Nil
    then show ?thesis using pr by (metis append_Nil2 append_eq_conv_conj)
  next
    case (snoc ys y)
    then have "ss_received c @ ys = pre" using pr(2) by simp
    then show ?thesis using pr(1) by (metis append.assoc append_eq_conv_conj)
  qed
next
  case False
  then show ?thesis using assms unfolding session_inv_def by (metis append_eq_conv_conj)
qed

end

section \<open>Both queues meet the contract\<close>

interpretation sub: outbox "sb_put len" sb_get "sb_ack len" sb_queue sb_queued_bytes sb_closed
  sb_buffer_bytes sb_queue_items len
  for len :: "'f \<Rightarrow> nat"
  by unfold_locales
    (auto simp: sb_put_def sb_get_def sb_ack_def sb_overflow_def sb_clear_queue_def Let_def queue_full_def
      split: if_splits item.splits list.splits)

text \<open>For a token subscriber the queue's bound is the configured number of items.\<close>

definition tok_offer :: "('f \<Rightarrow> nat) \<Rightarrow> 'f item \<Rightarrow> 'f token_subscriber \<Rightarrow> bool \<times> 'f token_subscriber" where
  "tok_offer len x s = (case tok_put len x s of (r, _, s') \<Rightarrow> (r = Inr True, s'))"

lemma tok_offer_eq:
  "tok_offer len x s =
     (if tk_closed s then (False, s)
      else case x of
        STOP \<Rightarrow> if queue_full (sq_maxsize (tk_queue s)) (sq_queue (tk_queue s)) then (False, s)
                else (True, s\<lparr>tk_queue := (tk_queue s)\<lparr>sq_queue := sq_queue (tk_queue s) @ [STOP]\<rparr>\<rparr>)
      | Frame f \<Rightarrow>
          if int (len f) > tk_max_frame_bytes s then (False, s\<lparr>tk_dropped_frames := tk_dropped_frames s + 1\<rparr>)
          else if int (length (sq_queue (tk_queue s))) < tk_queue_items s \<and>
                  sq_runtime_bytes (tk_queue s) + int (len f) \<le> tk_buffer_bytes s
          then if queue_full (sq_maxsize (tk_queue s)) (sq_queue (tk_queue s)) then (False, s)
               else (True, s\<lparr>tk_queue := (tk_queue s)\<lparr>sq_queue := sq_queue (tk_queue s) @ [Frame f],
                      sq_runtime_bytes := sq_runtime_bytes (tk_queue s) + int (len f)\<rparr>\<rparr>)
          else (False, s\<lparr>tk_closed := True, tk_dropped_frames := tk_dropped_frames s + 1,
                  tk_forced_disconnects := tk_forced_disconnects s + 1,
                  tk_queue := (tk_queue s)\<lparr>sq_queue := [STOP], sq_runtime_bytes := 0\<rparr>\<rparr>))"
  by (auto simp: tok_offer_def tok_put_def put_runtime_def put_runtime_terminal_def clear_runtime_def
      queue_full_def Let_def split: item.splits)

interpretation tok: outbox "tok_offer len" tok_get "tok_ack len" "\<lambda>s. sq_queue (tk_queue s)"
  "\<lambda>s. sq_runtime_bytes (tk_queue s)" tk_closed tk_buffer_bytes "\<lambda>s. sq_maxsize (tk_queue s)" len
  for len :: "'f \<Rightarrow> nat"
  by unfold_locales
    (auto simp: tok_offer_eq tok_get_def tok_ack_def ack_runtime_def queue_full_def
      split: if_splits item.splits list.splits)

section \<open>Guarantees of the queues\<close>

lemmas outbox_inv_defs = sub.session_inv_def tok.session_inv_def

text \<open>
  C38. Delivery on the control plane: however puts, gets and acks interleave, the frames a client
  has received are a prefix of the frames accepted for it, followed by at most one \<open>STOP\<close>; while
  it is connected nothing is lost (accepted = received + queued) and the byte ledger is exactly
  the queued and unacknowledged bytes; the ledger stays within the buffer and the queue within
  its capacity.
\<close>

theorem subscriber_delivery:
  assumes "0 \<le> buf"
    and "c = fold (session_step (sb_put len) sb_get (sb_ack len)) ops (new_session (new_subscriber qi buf mx))"
  shows "(\<exists>n. ss_received c = take n (ss_accepted c) \<or> ss_received c = take n (ss_accepted c) @ [STOP]) \<and>
    (sb_closed (ss_state c) \<or>
       ss_accepted c = ss_received c @ sb_queue (ss_state c) \<and>
       sb_queued_bytes (ss_state c) = queue_bytes len (sb_queue (ss_state c)) + queue_bytes len (ss_unacked c)) \<and>
    0 \<le> sb_queued_bytes (ss_state c) \<and> sb_queued_bytes (ss_state c) \<le> sb_buffer_bytes (ss_state c) \<and>
    (0 < sb_queue_items (ss_state c) \<longrightarrow> int (length (sb_queue (ss_state c))) \<le> sb_queue_items (ss_state c))"
proof -
  have inv: "sub.session_inv len c"
    unfolding assms(2) by (rule sub.session_run_inv) (simp_all add: new_subscriber_def assms(1))
  show ?thesis using sub.received_prefix [OF inv] inv unfolding sub.session_inv_def by auto
qed

theorem subscriber_delivery_witness:
  "sb_queued_bytes (ss_state (fold (session_step (sb_put length) sb_get (sb_ack length))
      [Put (Frame ''ab''), Get, Put (Frame ''cde''), Ack] (new_session (new_subscriber 1 4 9)))) \<le>
   sb_buffer_bytes (ss_state (fold (session_step (sb_put length) sb_get (sb_ack length))
      [Put (Frame ''ab''), Get, Put (Frame ''cde''), Ack] (new_session (new_subscriber 1 4 9))))"
  using subscriber_delivery [of 4 _ length "[Put (Frame ''ab''), Get, Put (Frame ''cde''), Ack]" 1 9] by simp

text \<open>
  Delivery on a token stream: the same contract holds for token subscribers.
\<close>

theorem token_subscriber_delivery:
  assumes "0 \<le> buf"
    and "c = fold (session_step (tok_offer len) tok_get (tok_ack len)) ops
               (new_session (new_token_subscriber sid qi buf mx))"
  shows "(\<exists>n. ss_received c = take n (ss_accepted c) \<or> ss_received c = take n (ss_accepted c) @ [STOP]) \<and>
    (tk_closed (ss_state c) \<or>
       ss_accepted c = ss_received c @ sq_queue (tk_queue (ss_state c)) \<and>
       sq_runtime_bytes (tk_queue (ss_state c)) =
         queue_bytes len (sq_queue (tk_queue (ss_state c))) + queue_bytes len (ss_unacked c)) \<and>
    0 \<le> sq_runtime_bytes (tk_queue (ss_state c)) \<and>
    sq_runtime_bytes (tk_queue (ss_state c)) \<le> tk_buffer_bytes (ss_state c)"
proof -
  have inv: "tok.session_inv len c"
    unfolding assms(2) by (rule tok.session_run_inv) (simp_all add: new_token_subscriber_def assms(1))
  show ?thesis using tok.received_prefix [OF inv] inv unfolding tok.session_inv_def by auto
qed

theorem token_subscriber_delivery_witness:
  "0 \<le> sq_runtime_bytes (tk_queue (ss_state (fold (session_step (tok_offer length) tok_get (tok_ack length))
      [Put (Frame ''ab''), Put (Frame ''cde''), Get] (new_session (new_token_subscriber ''s'' 2 4 9)))))"
  using token_subscriber_delivery [of 4 _ length "[Put (Frame ''ab''), Put (Frame ''cde''), Get]" "''s''" 2 9]
  by simp

text \<open>
  Termination of a token stream: with a queue of at least two entries \<open>terminate\<close> never
  raises, replaces the whole backlog by the control frames of the reason (a resync frame only
  for the four frozen reasons, then \<open>STOP\<close>), and no later frame gets in.
\<close>

theorem terminate_seals:
  assumes "2 \<le> sq_maxsize (tk_queue s)" and "tok_terminate mk reason s = (r, s')"
  shows "r = Inr () \<and>
    sq_queue (tk_queue s') =
      (if reason \<in> set V4_RESYNC_REASONS then [Frame (mk (tk_session_id s) reason), STOP] else [STOP]) \<and>
    tok_put len x s' = (Inr False, 0, s')"
  using assms
  by (auto simp: tok_terminate_def put_runtime_terminal_def clear_runtime_def queue_full_def tok_put_def Let_def
      split: if_splits)

theorem terminate_seals_witness:
  "sq_queue (tk_queue (snd (tok_terminate (@) ''session_idle'' (new_token_subscriber ''s'' 2 4 9)))) = [STOP]"
proof -
  have "2 \<le> sq_maxsize (tk_queue (new_token_subscriber ''s'' 2 4 9 :: string token_subscriber))"
    by (simp add: new_token_subscriber_def)
  from terminate_seals [OF this, of "(@)" "''session_idle''" _ _ length STOP]
  show ?thesis by (cases "tok_terminate (@) ''session_idle'' (new_token_subscriber ''s'' 2 4 9 :: string token_subscriber)")
      (simp add: V4_RESYNC_REASONS_def)
qed

end
