(* ===== verification/Token_Hub.thy ===== *)
theory Token_Hub
  imports Replay_Wire Subscribers
    "HOL-Library.Char_ord" "HOL-Library.List_Lexorder" "HOL-Library.Product_Lexorder"
begin

text \<open>
  The token-stream hub: \<^verbatim>\<open>sse/tokenstream/{models,budgets,ingest,flush_engine,fanout,hub}.py\<close>. The
  hub accumulates the text of parts that are being generated, publishes it in delta frames
  through the replay log and fans the frames out to the subscribers of a session, under byte and
  count budgets.

  \<open>TokenStreamHub\<close> is the record \<open>token_hub\<close>, its four mixins are the groups of definitions
  below. Subscribers are objects shared between the hub and the connections: \<open>th_subs\<close> is the
  store of token subscribers by identity, \<open>th_subs_by_sid\<close> holds identities (a Python set: the
  iteration order is fixed here to insertion order), \<open>th_events_tap\<close> the control-plane
  subscribers of \<^verbatim>\<open>/events?tokens=1\<close>. A queued frame is its id line and the frame; its length is
  the length of the bytes. Every handler takes the clock readings of its call: epoch
  milliseconds, and the monotonic clock of the replay log. Session ids are taken to be ASCII,
  so that the id line of a published frame exists.
\<close>

section \<open>Models and constants\<close>

record live_part =
  lp_chunks :: "string list"
  lp_byte_count :: int
  lp_ended :: bool
  lp_last_delta_ms :: int

record delta_acc =
  da_chunks :: "string list"
  da_byte_count :: int

definition new_delta_acc :: delta_acc where
  "new_delta_acc = \<lparr>da_chunks = [], da_byte_count = 0\<rparr>"

definition acc_append :: "string \<Rightarrow> delta_acc \<Rightarrow> delta_acc" where
  "acc_append txt acc =
     (if txt = [] then acc
      else acc\<lparr>da_chunks := da_chunks acc @ [txt], da_byte_count := da_byte_count acc + int (utf8_len txt)\<rparr>)"

definition acc_drain :: "delta_acc \<Rightarrow> string \<times> delta_acc" where
  "acc_drain acc =
     (if da_chunks acc = [] then ([], acc\<lparr>da_byte_count := 0\<rparr>)
      else (concat (da_chunks acc), acc\<lparr>da_chunks := [], da_byte_count := 0\<rparr>))"

record token_metrics =
  tm_orphan_deltas :: int
  tm_flushed_frames_total :: int
  tm_dropped_frames_total :: int
  tm_token_memory_limit_total :: int
  tm_seq_publish_failures_total :: int
  tm_seq_resync_failclosed_total :: int
  tm_flush_ticks_total :: int

abbreviation TOKEN_PENDING_MAX_BYTES :: int where "TOKEN_PENDING_MAX_BYTES \<equiv> 4 * 1024 * 1024"
abbreviation TOKEN_FLUSH_BYTES :: int where "TOKEN_FLUSH_BYTES \<equiv> 4096"
abbreviation TOKEN_ACC_IDLE_MS :: int where "TOKEN_ACC_IDLE_MS \<equiv> 60000"
abbreviation TOKEN_DISABLED_MAX :: nat where "TOKEN_DISABLED_MAX \<equiv> 4096"
abbreviation TOKEN_DISABLED_TTL_MS :: int where "TOKEN_DISABLED_TTL_MS \<equiv> 300 * 1000"
abbreviation TOKEN_RESYNC_QUEUE_CAP :: nat where "TOKEN_RESYNC_QUEUE_CAP \<equiv> 64"
abbreviation TOKEN_REMOVED_MESSAGES_MAX :: nat where "TOKEN_REMOVED_MESSAGES_MAX \<equiv> 1000"
abbreviation TOKEN_REMOVED_MESSAGES_TTL_MS :: int where "TOKEN_REMOVED_MESSAGES_TTL_MS \<equiv> 24 * 60 * 60 * 1000"
abbreviation SESSION_STATUS_MAX :: nat where "SESSION_STATUS_MAX \<equiv> 10000"
abbreviation TTL_TICK_INTERVAL :: nat where "TTL_TICK_INTERVAL \<equiv> 600"
abbreviation HEARTBEAT_TICK_INTERVAL :: nat where "HEARTBEAT_TICK_INTERVAL \<equiv> 150"

definition REPLAYABLE_RESYNC_REASONS :: "string list" where
  "REPLAYABLE_RESYNC_REASONS = [RESYNC_TOKEN_MEMORY_LIMIT]"

text \<open>The three budgets that the debug settings may override at start-up.\<close>

record token_caps =
  cap_part_max_bytes :: int
  cap_live_parts_max :: nat
  cap_liveparts_max_bytes :: int

definition default_token_caps :: token_caps where
  "default_token_caps = \<lparr>cap_part_max_bytes = 1024 * 1024, cap_live_parts_max = 32,
     cap_liveparts_max_bytes = 4 * 1024 * 1024\<rparr>"

definition apply_debug_budget_overrides ::
  "int option \<Rightarrow> int option \<Rightarrow> nat option \<Rightarrow> token_caps \<Rightarrow> token_caps" where
  "apply_debug_budget_overrides live_budget part_max live_parts c =
     c\<lparr>cap_liveparts_max_bytes := (case live_budget of None \<Rightarrow> cap_liveparts_max_bytes c | Some v \<Rightarrow> v),
       cap_part_max_bytes := (case part_max of None \<Rightarrow> cap_part_max_bytes c | Some v \<Rightarrow> v),
       cap_live_parts_max := (case live_parts of None \<Rightarrow> cap_live_parts_max c | Some v \<Rightarrow> v)\<rparr>"

section \<open>State\<close>

type_synonym wire_frame = "string \<times> frame"
type_synonym clock = "int \<times> real"

definition wire_len :: "(json \<Rightarrow> string) \<Rightarrow> wire_frame \<Rightarrow> nat" where
  "wire_len dumps w = length (fst w) + length (frame_bytes dumps (snd w))"

record token_hub =
  th_caps :: token_caps
  th_dumps :: "json \<Rightarrow> string"
  th_replay :: "frame replay_log"
  th_live_parts :: "(part_key, live_part) dict"
  th_nontext :: "(part_key, int) dict"
  th_disabled :: "(part_key, int) dict"
  th_pending :: "(part_key, delta_acc) dict"
  th_total_live :: int
  th_total_pending :: int
  th_metrics :: token_metrics
  th_session_status :: "(string, string) dict"
  th_pending_resyncs :: "(string \<times> string) list"
  th_subs_by_sid :: "(string, nat list) dict"
  th_subs :: "(nat, wire_frame token_subscriber) dict"
  th_events_tap :: "wire_frame subscriber list"
  th_part_revisions :: "(part_key, int) dict"
  th_retired_messages :: "(string \<times> string) list"
  th_deleted_sids :: "(string, int) dict"

definition new_token_hub :: "token_caps \<Rightarrow> (json \<Rightarrow> string) \<Rightarrow> frame replay_log \<Rightarrow> token_hub" where
  "new_token_hub caps dumps replay_log =
     \<lparr>th_caps = caps, th_dumps = dumps, th_replay = replay_log, th_live_parts = [], th_nontext = [],
      th_disabled = [], th_pending = [], th_total_live = 0, th_total_pending = 0,
      th_metrics = \<lparr>tm_orphan_deltas = 0, tm_flushed_frames_total = 0, tm_dropped_frames_total = 0,
        tm_token_memory_limit_total = 0, tm_seq_publish_failures_total = 0,
        tm_seq_resync_failclosed_total = 0, tm_flush_ticks_total = 0\<rparr>,
      th_session_status = [], th_pending_resyncs = [], th_subs_by_sid = [], th_subs = [],
      th_events_tap = [], th_part_revisions = [], th_retired_messages = [], th_deleted_sids = []\<rparr>"

section \<open>Fanout\<close>

definition subs_of :: "token_hub \<Rightarrow> string \<Rightarrow> nat list" where
  "subs_of h sid = dict_get_or (th_subs_by_sid h) sid []"

definition subscriber_count :: "token_hub \<Rightarrow> int" where
  "subscriber_count h = dict_sum (\<lambda>subs. int (length subs)) (th_subs_by_sid h)"

definition has_consumers :: "token_hub \<Rightarrow> bool" where
  "has_consumers h \<longleftrightarrow> subscriber_count h > 0 \<or> th_events_tap h \<noteq> []"

definition attach_subscriber :: "string \<Rightarrow> nat \<Rightarrow> token_hub \<Rightarrow> token_hub" where
  "attach_subscriber sid i h =
     (case dict_get (th_subs h) i of
        None \<Rightarrow> h
      | Some s \<Rightarrow>
          if tk_closed s then h
          else h\<lparr>th_subs_by_sid := dict_set sid (List.insert i (subs_of h sid)) (th_subs_by_sid h)\<rparr>)"

definition detach_subscriber :: "string \<Rightarrow> nat \<Rightarrow> token_hub \<Rightarrow> token_hub" where
  "detach_subscriber sid i h =
     (case dict_get (th_subs_by_sid h) sid of
        None \<Rightarrow> h
      | Some subs \<Rightarrow>
          let subs' = removeAll i subs
          in if subs' = [] then h\<lparr>th_subs_by_sid := dict_pop sid (th_subs_by_sid h)\<rparr>
             else h\<lparr>th_subs_by_sid := dict_set sid subs' (th_subs_by_sid h)\<rparr>)"

definition has_subscriber :: "string \<Rightarrow> nat \<Rightarrow> token_hub \<Rightarrow> bool" where
  "has_subscriber sid i h \<longleftrightarrow> i \<in> set (subs_of h sid)"

text \<open>\<^verbatim>\<open>sub.put(frame)\<close> on the stored object, with the shared drop counter.\<close>

definition sub_put :: "wire_frame \<Rightarrow> nat \<Rightarrow> token_hub \<Rightarrow> token_hub" where
  "sub_put w i h =
     (case dict_get (th_subs h) i of
        None \<Rightarrow> h
      | Some s \<Rightarrow>
          (case tok_put (wire_len (th_dumps h)) (Frame w) s of
             (_, d, s') \<Rightarrow>
               h\<lparr>th_subs := dict_set i s' (th_subs h),
                 th_metrics := (th_metrics h)\<lparr>tm_dropped_frames_total := tm_dropped_frames_total (th_metrics h) + d\<rparr>\<rparr>))"

definition sub_terminate :: "string \<Rightarrow> nat \<Rightarrow> token_hub \<Rightarrow> token_hub" where
  "sub_terminate reason i h =
     (case dict_get (th_subs h) i of
        None \<Rightarrow> h
      | Some s \<Rightarrow>
          h\<lparr>th_subs := dict_set i
              (snd (tok_terminate (\<lambda>sid r. ([], resync_frame sid r None)) reason s)) (th_subs h)\<rparr>)"

text \<open>\<open>_next_part_revision\<close>\<close>

definition next_part_revision :: "part_key \<Rightarrow> token_hub \<Rightarrow> int \<times> token_hub" where
  "next_part_revision key h =
     (let rev = dict_get_or (th_part_revisions h) key (- 1) + 1
      in (rev, h\<lparr>th_part_revisions := lru_put TOKEN_DISABLED_MAX key rev (th_part_revisions h)\<rparr>))"

definition id_line :: "string \<Rightarrow> string \<Rightarrow> int \<Rightarrow> string" where
  "id_line domain epoch seq = ''id: '' @ wire_id domain epoch seq @ [newline]"

text \<open>\<open>_publish_seq_frame\<close>: the id line and the frame, or the frame was dropped.\<close>

definition publish_seq_frame ::
  "clock \<Rightarrow> string \<Rightarrow> (int \<Rightarrow> frame) \<Rightarrow> string \<Rightarrow> token_hub \<Rightarrow> wire_frame option \<times> token_hub" where
  "publish_seq_frame t sid build kind h =
     (case publish_seq (th_replay h) (token_domain sid) (\<lambda>q. Some (build q)) kind (snd t) of
        (None, l) \<Rightarrow>
          (None, h\<lparr>th_replay := l,
             th_metrics := (th_metrics h)\<lparr>tm_seq_publish_failures_total :=
               tm_seq_publish_failures_total (th_metrics h) + 1\<rparr>\<rparr>)
      | (Some (e, f), l) \<Rightarrow>
          (Some (id_line (token_domain sid) (rl_epoch l) (e_seq e), f), h\<lparr>th_replay := l\<rparr>))"

definition write_replay_barrier :: "string \<Rightarrow> token_hub \<Rightarrow> token_hub" where
  "write_replay_barrier sid h = h\<lparr>th_replay := write_barrier (th_replay h) (Some (token_domain sid))\<rparr>"

definition deliver_logged :: "string \<Rightarrow> wire_frame \<Rightarrow> token_hub \<Rightarrow> int \<times> token_hub" where
  "deliver_logged sid w h = (int (length (subs_of h sid)), fold (sub_put w) (subs_of h sid) h)"

definition count_flushed :: "int \<Rightarrow> token_hub \<Rightarrow> token_hub" where
  "count_flushed n h =
     h\<lparr>th_metrics := (th_metrics h)\<lparr>tm_flushed_frames_total := tm_flushed_frames_total (th_metrics h) + n\<rparr>\<rparr>"

definition fanout_delta_frame :: "clock \<Rightarrow> part_key \<Rightarrow> string \<Rightarrow> token_hub \<Rightarrow> token_hub" where
  "fanout_delta_frame t key txt h =
     (let (rev, h1) = next_part_revision key h
      in case publish_seq_frame t (fst key) (\<lambda>q. delta_frame key txt (Some rev) (Some q))
                FRAME_KIND_BUSINESS h1 of
           (None, h2) \<Rightarrow> h2
         | (Some w, h2) \<Rightarrow> let (n, h3) = deliver_logged (fst key) w h2 in count_flushed n h3)"

definition fanout_message_removed :: "clock \<Rightarrow> string \<Rightarrow> string \<Rightarrow> token_hub \<Rightarrow> token_hub" where
  "fanout_message_removed t sid mid h =
     (case publish_seq_frame t sid (\<lambda>q. message_removed_frame sid mid (Some q)) FRAME_KIND_TOMBSTONE h of
        (None, h1) \<Rightarrow> h1
      | (Some w, h1) \<Rightarrow> let (n, h2) = deliver_logged sid w h1 in count_flushed n h2)"

definition fanout_resync :: "string \<Rightarrow> string \<Rightarrow> token_hub \<Rightarrow> token_hub" where
  "fanout_resync sid reason h =
     (if reason \<notin> set V4_RESYNC_REASONS then fold (sub_terminate reason) (subs_of h sid) h
      else fold (sub_put ([], resync_frame sid reason None)) (subs_of h sid) h)"

definition fanout_replayable_resync ::
  "clock \<Rightarrow> string \<Rightarrow> string \<Rightarrow> token_hub \<Rightarrow> (log_error + unit) \<times> token_hub" where
  "fanout_replayable_resync t sid reason h =
     (if reason \<notin> set REPLAYABLE_RESYNC_REASONS then (Inl ValueError, h)
      else case publish_seq_frame t sid (\<lambda>q. resync_frame sid reason (Some q)) FRAME_KIND_BUSINESS h of
        (Some w, h1) \<Rightarrow> (Inr (), snd (deliver_logged sid w h1))
      | (None, h1) \<Rightarrow>
          let h2 = h1\<lparr>th_metrics := (th_metrics h1)\<lparr>tm_seq_resync_failclosed_total :=
                       tm_seq_resync_failclosed_total (th_metrics h1) + 1\<rparr>\<rparr>;
              h3 = write_replay_barrier sid h2;
              h4 = h3\<lparr>th_replay := snd (mark_invalidated (th_replay h3) (token_domain sid))\<rparr>
          in (Inr (), fold (sub_terminate RESYNC_RECONNECT_NO_REPLAY) (subs_of h4 sid) h4))"

definition fanout_heartbeat :: "token_hub \<Rightarrow> token_hub" where
  "fanout_heartbeat h =
     fold (\<lambda>(sid, subs). fold (sub_put ([], heartbeat_frame)) subs) (th_subs_by_sid h) h"

text \<open>The events tap: every control-plane subscriber puts the frame under its own guards.\<close>

definition tap_events :: "frame \<Rightarrow> token_hub \<Rightarrow> token_hub" where
  "tap_events f h =
     h\<lparr>th_events_tap := map (\<lambda>s. snd (sb_put (wire_len (th_dumps h)) (Frame ([], f)) s)) (th_events_tap h)\<rparr>"

section \<open>Flush\<close>

text \<open>One key of the drain: \<open>tap\<close> tells whether the events tap is served (only by \<open>flush\<close>).\<close>

definition flush_key :: "bool \<Rightarrow> clock \<Rightarrow> part_key \<Rightarrow> token_hub \<Rightarrow> token_hub" where
  "flush_key tap t key h =
     (case dict_get (th_pending h) key of
        None \<Rightarrow> h
      | Some acc \<Rightarrow>
          if da_byte_count acc = 0 then h
          else let (txt, acc') = acc_drain acc;
                   h1 = h\<lparr>th_pending := dict_set key acc' (th_pending h),
                          th_total_pending := max 0 (th_total_pending h - da_byte_count acc)\<rparr>
               in if txt = [] then h1
                  else let h2 = fanout_delta_frame t key txt h1
                       in if tap \<and> th_events_tap h2 \<noteq> [] then tap_events (events_token_frame key txt) h2 else h2)"

definition drop_drained :: "(part_key \<Rightarrow> bool) \<Rightarrow> token_hub \<Rightarrow> token_hub" where
  "drop_drained P h =
     h\<lparr>th_pending := filter (\<lambda>(k, acc). \<not> (P k \<and> da_chunks acc = [])) (th_pending h)\<rparr>"

definition enqueue_session_resync :: "string \<Rightarrow> string \<Rightarrow> token_hub \<Rightarrow> token_hub" where
  "enqueue_session_resync sid reason h =
     (let q = th_pending_resyncs h @ [(sid, reason)]
      in h\<lparr>th_pending_resyncs := drop (length q - TOKEN_RESYNC_QUEUE_CAP) q\<rparr>)"

definition drain_pending_session_resyncs :: "token_hub \<Rightarrow> token_hub" where
  "drain_pending_session_resyncs h =
     fold (\<lambda>(sid, reason). fanout_resync sid reason) (th_pending_resyncs h) (h\<lparr>th_pending_resyncs := []\<rparr>)"

definition flush :: "clock \<Rightarrow> token_hub \<Rightarrow> token_hub" where
  "flush t h =
     (let h1 = drop_drained (\<lambda>_. True) (fold (flush_key True t) (sort (dict_keys (th_pending h))) h);
          h2 = drain_pending_session_resyncs h1
      in h2\<lparr>th_metrics := (th_metrics h2)\<lparr>tm_flush_ticks_total := tm_flush_ticks_total (th_metrics h2) + 1\<rparr>\<rparr>)"

definition flush_sid :: "clock \<Rightarrow> string \<Rightarrow> token_hub \<Rightarrow> token_hub" where
  "flush_sid t sid h =
     drop_drained (\<lambda>k. fst k = sid)
       (fold (flush_key False t) (sort (filter (\<lambda>k. fst k = sid) (dict_keys (th_pending h)))) h)"

section \<open>Budgets and tombstones\<close>

text \<open>\<open>_prune_bounded\<close>: expired entries from the front, then the size cap.\<close>

definition prune_bounded :: "int \<Rightarrow> (part_key, int) dict \<Rightarrow> (part_key, int) dict" where
  "prune_bounded now_ms store =
     dict_cap TOKEN_DISABLED_MAX (dropWhile (\<lambda>(_, ts). ts < now_ms - TOKEN_DISABLED_TTL_MS) store)"

definition remember_disabled :: "int \<Rightarrow> part_key \<Rightarrow> token_hub \<Rightarrow> token_hub" where
  "remember_disabled now_ms key h =
     (if dict_has (th_disabled h) key then h
      else h\<lparr>th_disabled := prune_bounded now_ms (dict_set key now_ms (th_disabled h))\<rparr>)"

definition remember_nontext :: "int \<Rightarrow> part_key \<Rightarrow> token_hub \<Rightarrow> token_hub" where
  "remember_nontext now_ms key h =
     (if dict_has (th_nontext h) key then h
      else h\<lparr>th_nontext := prune_bounded now_ms (dict_set key now_ms (th_nontext h))\<rparr>)"

definition is_disabled :: "token_hub \<Rightarrow> part_key \<Rightarrow> bool" where
  "is_disabled h key \<longleftrightarrow> dict_has (th_disabled h) key"

definition is_nontext :: "token_hub \<Rightarrow> part_key \<Rightarrow> bool" where
  "is_nontext h key \<longleftrightarrow> dict_has (th_nontext h) key"

definition discard_nontext :: "part_key \<Rightarrow> token_hub \<Rightarrow> token_hub" where
  "discard_nontext key h = h\<lparr>th_nontext := dict_pop key (th_nontext h)\<rparr>"

definition drop_part :: "int \<Rightarrow> part_key \<Rightarrow> token_hub \<Rightarrow> bool \<times> token_hub" where
  "drop_part now_ms key h =
     (let h1 = (case dict_get (th_pending h) key of
                  None \<Rightarrow> h
                | Some acc \<Rightarrow> h\<lparr>th_pending := dict_pop key (th_pending h),
                    th_total_pending := max 0 (th_total_pending h - da_byte_count acc)\<rparr>);
          h2 = (case dict_get (th_live_parts h1) key of
                  None \<Rightarrow> h1
                | Some live \<Rightarrow> h1\<lparr>th_live_parts := dict_pop key (th_live_parts h1),
                    th_total_live := max 0 (th_total_live h1 - lp_byte_count live)\<rparr>);
          h3 = discard_nontext key h2;
          h4 = h3\<lparr>th_part_revisions := dict_pop key (th_part_revisions h3)\<rparr>
      in if is_disabled h4 key then (False, h4) else (True, remember_disabled now_ms key h4))"

text \<open>\<open>_truncate_part_for_all\<close> keeps only its state effect: callers ignore the result.\<close>

definition truncate_part_for_all :: "int \<Rightarrow> part_key \<Rightarrow> token_hub \<Rightarrow> token_hub" where
  "truncate_part_for_all now_ms key h = snd (drop_part now_ms key h)"

definition evict_part_for_memory :: "clock \<Rightarrow> part_key \<Rightarrow> token_hub \<Rightarrow> token_hub" where
  "evict_part_for_memory t key h =
     (case drop_part (fst t) key h of
        (False, h1) \<Rightarrow> h1
      | (True, h1) \<Rightarrow>
          let h2 = flush_sid t (fst key) h1;
              h3 = snd (fanout_replayable_resync t (fst key) RESYNC_TOKEN_MEMORY_LIMIT h2)
          in h3\<lparr>th_metrics := (th_metrics h3)\<lparr>tm_token_memory_limit_total :=
                 tm_token_memory_limit_total (th_metrics h3) + 1\<rparr>\<rparr>)"

text \<open>\<^verbatim>\<open>min(keys, key=last_delta_ms)\<close>: the first key with the least value.\<close>

fun oldest_of :: "(part_key, live_part) dict \<Rightarrow> (part_key \<times> int) option \<Rightarrow> (part_key \<times> int) option" where
  "oldest_of [] best = best"
| "oldest_of ((k, lp) # d) best =
     oldest_of d
       (case best of
          None \<Rightarrow> Some (k, lp_last_delta_ms lp)
        | Some (_, m) \<Rightarrow> if lp_last_delta_ms lp < m then Some (k, lp_last_delta_ms lp) else best)"

definition oldest_candidate :: "(part_key \<Rightarrow> bool) \<Rightarrow> token_hub \<Rightarrow> part_key option" where
  "oldest_candidate P h = map_option fst (oldest_of (filter (\<lambda>(k, _). P k) (th_live_parts h)) None)"

text \<open>
  Publishing and delivering touch the replay log, the subscriber stores, the revisions and the
  metrics only; \<open>acc_view\<close> is the rest of the state.
\<close>

definition acc_view where
  "acc_view h = (th_caps h, th_dumps h, th_live_parts h, th_nontext h, th_disabled h, th_pending h,
     th_total_live h, th_total_pending h, th_session_status h, th_pending_resyncs h, th_subs_by_sid h,
     th_retired_messages h, th_deleted_sids h)"

lemma acc_viewD:
  assumes "acc_view h' = acc_view h"
  shows "th_caps h' = th_caps h" "th_dumps h' = th_dumps h" "th_live_parts h' = th_live_parts h"
    "th_nontext h' = th_nontext h" "th_disabled h' = th_disabled h" "th_pending h' = th_pending h"
    "th_total_live h' = th_total_live h" "th_total_pending h' = th_total_pending h"
    "th_session_status h' = th_session_status h" "th_pending_resyncs h' = th_pending_resyncs h"
    "th_subs_by_sid h' = th_subs_by_sid h" "th_retired_messages h' = th_retired_messages h"
    "th_deleted_sids h' = th_deleted_sids h"
  using assms by (simp_all add: acc_view_def)

lemma fold_keeps:
  assumes "\<And>x s. f (g x s) = f s"
  shows "f (fold g xs s) = f s"
  using assms by (induction xs arbitrary: s) auto

lemma acc_view_upd [simp]:
  "acc_view (h\<lparr>th_replay := l\<rparr>) = acc_view h"
  "acc_view (h\<lparr>th_metrics := m\<rparr>) = acc_view h"
  "acc_view (h\<lparr>th_subs := s\<rparr>) = acc_view h"
  "acc_view (h\<lparr>th_events_tap := e\<rparr>) = acc_view h"
  "acc_view (h\<lparr>th_part_revisions := r\<rparr>) = acc_view h"
  by (simp_all add: acc_view_def)

lemma acc_view_sub_put [simp]: "acc_view (sub_put w i h) = acc_view h"
  by (simp add: sub_put_def split: option.splits prod.splits)

lemma acc_view_sub_terminate [simp]: "acc_view (sub_terminate r i h) = acc_view h"
  by (simp add: sub_terminate_def split: option.splits)

lemma acc_view_publish [simp]: "acc_view (snd (publish_seq_frame t sid b k h)) = acc_view h"
  by (simp add: publish_seq_frame_def split_beta split: option.splits)

lemma acc_view_deliver [simp]: "acc_view (snd (deliver_logged sid w h)) = acc_view h"
  by (simp add: deliver_logged_def fold_keeps [of acc_view])

lemma acc_view_count [simp]: "acc_view (count_flushed n h) = acc_view h"
  by (simp add: count_flushed_def)

lemma acc_view_revision [simp]: "acc_view (snd (next_part_revision key h)) = acc_view h"
  by (simp add: next_part_revision_def Let_def)

lemma acc_view_fanout_delta [simp]: "acc_view (fanout_delta_frame t key txt h) = acc_view h"
  by (simp add: fanout_delta_frame_def Let_def split_beta split: option.splits)

lemma acc_view_fanout_removed [simp]: "acc_view (fanout_message_removed t sid mid h) = acc_view h"
  by (simp add: fanout_message_removed_def Let_def split_beta split: option.splits)

lemma acc_view_fanout_resync [simp]: "acc_view (fanout_resync sid reason h) = acc_view h"
  by (simp add: fanout_resync_def fold_keeps [of acc_view])

lemma acc_view_barrier [simp]: "acc_view (write_replay_barrier sid h) = acc_view h"
  by (simp add: write_replay_barrier_def)

lemma acc_view_replayable [simp]: "acc_view (snd (fanout_replayable_resync t sid reason h)) = acc_view h"
  by (simp add: fanout_replayable_resync_def Let_def split_beta fold_keeps [of acc_view] split: option.splits)

lemma acc_view_heartbeat [simp]: "acc_view (fanout_heartbeat h) = acc_view h"
proof -
  have "acc_view (case p of (sid, subs) \<Rightarrow> fold (sub_put w) subs h') = acc_view h'" for p w h'
    by (simp add: split_beta fold_keeps [of acc_view])
  then show ?thesis unfolding fanout_heartbeat_def by (intro fold_keeps) (simp add: split_beta)
qed

lemma acc_view_tap [simp]: "acc_view (tap_events f h) = acc_view h"
  by (simp add: tap_events_def)

lemmas fanout_fields [simp] =
  acc_viewD [OF acc_view_fanout_delta] acc_viewD [OF acc_view_fanout_removed]
  acc_viewD [OF acc_view_fanout_resync] acc_viewD [OF acc_view_barrier]
  acc_viewD [OF acc_view_replayable] acc_viewD [OF acc_view_tap] acc_viewD [OF acc_view_heartbeat]

text \<open>The part of the state that a flush leaves alone.\<close>

definition live_view where
  "live_view h = (th_caps h, th_dumps h, th_live_parts h, th_nontext h, th_disabled h, th_total_live h,
     th_session_status h, th_subs_by_sid h, th_retired_messages h, th_deleted_sids h)"

lemma live_viewD:
  assumes "live_view h' = live_view h"
  shows "th_caps h' = th_caps h" "th_dumps h' = th_dumps h" "th_live_parts h' = th_live_parts h"
    "th_nontext h' = th_nontext h" "th_disabled h' = th_disabled h"
    "th_total_live h' = th_total_live h" "th_session_status h' = th_session_status h"
    "th_subs_by_sid h' = th_subs_by_sid h" "th_retired_messages h' = th_retired_messages h"
    "th_deleted_sids h' = th_deleted_sids h"
  using assms by (simp_all add: live_view_def)

lemma live_view_acc: "acc_view h' = acc_view h \<Longrightarrow> live_view h' = live_view h"
  by (simp add: acc_view_def live_view_def)

lemma live_view_upd [simp]:
  "live_view (h\<lparr>th_pending := p\<rparr>) = live_view h"
  "live_view (h\<lparr>th_total_pending := n\<rparr>) = live_view h"
  "live_view (h\<lparr>th_pending_resyncs := q\<rparr>) = live_view h"
  "live_view (h\<lparr>th_metrics := m\<rparr>) = live_view h"
  by (simp_all add: live_view_def)

lemma live_view_flush_key [simp]: "live_view (flush_key tap t key h) = live_view h"
  by (simp add: flush_key_def Let_def split_beta live_view_acc [OF acc_view_fanout_delta]
      live_view_acc [OF acc_view_tap] split: option.splits)

lemma live_view_drop_drained [simp]: "live_view (drop_drained P h) = live_view h"
  by (simp add: drop_drained_def)

lemma live_view_drain [simp]: "live_view (drain_pending_session_resyncs h) = live_view h"
proof -
  have "live_view (case p of (sid, reason) \<Rightarrow> fanout_resync sid reason h') = live_view h'" for p h'
    by (simp add: split_beta live_view_acc [OF acc_view_fanout_resync])
  then have "live_view (fold (\<lambda>p. case p of (sid, reason) \<Rightarrow> fanout_resync sid reason) ps h') = live_view h'" for ps h'
    by (intro fold_keeps) (simp add: split_beta)
  then show ?thesis by (simp add: drain_pending_session_resyncs_def)
qed

lemma live_view_flush [simp]: "live_view (flush t h) = live_view h"
  by (simp add: flush_def Let_def fold_keeps [of live_view])

lemma live_view_flush_sid [simp]: "live_view (flush_sid t sid h) = live_view h"
  by (simp add: flush_sid_def fold_keeps [of live_view])

lemmas flush_fields [simp] = live_viewD [OF live_view_flush] live_viewD [OF live_view_flush_sid]
  live_viewD [OF live_view_flush_key] live_viewD [OF live_view_drop_drained]

lemma drop_part_fields [simp]:
  "th_live_parts (snd (drop_part n key h)) = dict_pop key (th_live_parts h)"
  "th_caps (snd (drop_part n key h)) = th_caps h"
  by (simp_all add: drop_part_def Let_def remember_disabled_def discard_nontext_def dict_pop_fresh
      split: option.splits)
    (simp_all add: dict_get_def map_of_eq_None_iff dict_pop_fresh)

lemma evict_fields [simp]:
  "th_live_parts (evict_part_for_memory t key h) = dict_pop key (th_live_parts h)"
  "th_caps (evict_part_for_memory t key h) = th_caps h"
  using drop_part_fields [of "fst t" key h]
  by (cases "drop_part (fst t) key h"; simp add: evict_part_for_memory_def Let_def split: bool.splits)+

lemma oldest_of_key: "oldest_of d best = Some (k, m) \<Longrightarrow> (best = Some (k, m)) \<or> k \<in> fst ` set d"
  by (induction d best rule: oldest_of.induct) (fastforce split: option.splits if_splits prod.splits)+

lemma oldest_candidate_in: "oldest_candidate P h = Some k \<Longrightarrow> P k \<and> k \<in> fst ` set (th_live_parts h)"
  using oldest_of_key by (fastforce simp: oldest_candidate_def)

lemma evict_shrinks:
  assumes "oldest_candidate P h = Some k"
  shows "length (dict_pop k (th_live_parts h)) < length (th_live_parts h)"
  using oldest_candidate_in [OF assms]
  by (auto simp: dict_pop_def intro!: length_filter_less)

text \<open>\<open>_reserve\<close>: the eviction loop, then the method.\<close>

function reserve_loop :: "clock \<Rightarrow> int \<Rightarrow> part_key \<Rightarrow> token_hub \<Rightarrow> bool \<times> token_hub" where
  "reserve_loop t n key h =
     (if th_total_live h + n > cap_liveparts_max_bytes (th_caps h)
      then (case oldest_candidate (\<lambda>k. k \<noteq> key) h of
              None \<Rightarrow> (False, truncate_part_for_all (fst t) key h)
            | Some oldest \<Rightarrow> reserve_loop t n key (evict_part_for_memory t oldest h))
      else (True, h))"
  by pat_completeness auto
termination
  by (relation "measure (\<lambda>(t, n, key, h). length (th_live_parts h))") (auto intro: evict_shrinks)

declare reserve_loop.simps [simp del]

definition reserve :: "clock \<Rightarrow> live_part \<Rightarrow> int \<Rightarrow> part_key \<Rightarrow> token_hub \<Rightarrow> bool \<times> token_hub" where
  "reserve t live n key h =
     (if lp_byte_count live + n > cap_part_max_bytes (th_caps h)
      then (False, truncate_part_for_all (fst t) key h)
      else reserve_loop t n key h)"

definition check_pending_budget :: "clock \<Rightarrow> part_key \<Rightarrow> token_hub \<Rightarrow> token_hub" where
  "check_pending_budget t current_key h =
     (if th_total_pending h \<le> TOKEN_PENDING_MAX_BYTES then h
      else let had_subs = subscriber_count h > 0;
               h1 = flush t h
           in if \<not> had_subs \<or> th_total_pending h1 > TOKEN_PENDING_MAX_BYTES
              then (case oldest_candidate (\<lambda>k. k \<noteq> current_key) h1 of
                      None \<Rightarrow> h1
                    | Some oldest \<Rightarrow> evict_part_for_memory t oldest h1)
              else h1)"

text \<open>The count loop of \<open>_start_part\<close>; \<^verbatim>\<open>min\<close> of no parts would raise, which a positive cap excludes.\<close>

function start_count_loop :: "clock \<Rightarrow> token_hub \<Rightarrow> token_hub" where
  "start_count_loop t h =
     (if length (th_live_parts h) \<ge> cap_live_parts_max (th_caps h)
      then (case oldest_candidate (\<lambda>_. True) h of
              None \<Rightarrow> h
            | Some oldest \<Rightarrow> start_count_loop t (evict_part_for_memory t oldest h))
      else h)"
  by pat_completeness auto
termination
  by (relation "measure (\<lambda>(t, h). length (th_live_parts h))") (auto intro: evict_shrinks)

function start_bytes_loop :: "clock \<Rightarrow> part_key \<Rightarrow> token_hub \<Rightarrow> token_hub" where
  "start_bytes_loop t key h =
     (if th_total_live h > cap_liveparts_max_bytes (th_caps h)
      then (case oldest_candidate (\<lambda>k. k \<noteq> key) h of
              None \<Rightarrow> h
            | Some oldest \<Rightarrow> start_bytes_loop t key (evict_part_for_memory t oldest h))
      else h)"
  by pat_completeness auto
termination
  by (relation "measure (\<lambda>(t, key, h). length (th_live_parts h))") (auto intro: evict_shrinks)

declare start_count_loop.simps [simp del] start_bytes_loop.simps [simp del]

definition start_part :: "clock \<Rightarrow> part_key \<Rightarrow> string \<Rightarrow> token_hub \<Rightarrow> token_hub" where
  "start_part t key seed h =
     (let h1 = start_count_loop t h;
          live = \<lparr>lp_chunks = [], lp_byte_count = 0, lp_ended = False, lp_last_delta_ms = fst t\<rparr>;
          h2 = h1\<lparr>th_live_parts := dict_set key live (th_live_parts h1)\<rparr>
      in if seed = [] then h2
         else let seed_bytes = int (utf8_len seed)
              in if seed_bytes > cap_part_max_bytes (th_caps h2)
                 then truncate_part_for_all (fst t) key h2
                 else start_bytes_loop t key
                        (h2\<lparr>th_live_parts := dict_set key (live\<lparr>lp_chunks := [seed], lp_byte_count := seed_bytes\<rparr>)
                                (th_live_parts h2),
                            th_total_live := th_total_live h2 + seed_bytes\<rparr>))"

text \<open>The gate of deleted sessions, with its lazy expiry.\<close>

definition prune_deleted_sids :: "int \<Rightarrow> (string, int) dict \<Rightarrow> (string, int) dict" where
  "prune_deleted_sids now_ms d =
     dict_cap TOKEN_REMOVED_MESSAGES_MAX (filter (\<lambda>(_, ts). \<not> ts < now_ms - TOKEN_REMOVED_MESSAGES_TTL_MS) d)"

definition remember_deleted_sid :: "int \<Rightarrow> string \<Rightarrow> token_hub \<Rightarrow> token_hub" where
  "remember_deleted_sid now_ms sid h =
     h\<lparr>th_deleted_sids := prune_deleted_sids now_ms
         (dict_move_to_end sid (dict_set sid now_ms (th_deleted_sids h)))\<rparr>"

definition is_deleted_sid :: "int \<Rightarrow> string \<Rightarrow> token_hub \<Rightarrow> bool \<times> token_hub" where
  "is_deleted_sid now_ms sid h =
     (case dict_get (th_deleted_sids h) sid of
        None \<Rightarrow> (False, h)
      | Some ts \<Rightarrow>
          if ts < now_ms - TOKEN_REMOVED_MESSAGES_TTL_MS
          then (False, h\<lparr>th_deleted_sids := dict_pop sid (th_deleted_sids h)\<rparr>)
          else (True, h))"

definition prune_session_status :: "token_hub \<Rightarrow> token_hub" where
  "prune_session_status h = h\<lparr>th_session_status := dict_cap SESSION_STATUS_MAX (th_session_status h)\<rparr>"

section \<open>Ingest\<close>

definition finish_part :: "clock \<Rightarrow> part_key \<Rightarrow> token_hub \<Rightarrow> token_hub" where
  "finish_part t key h =
     (let h1 = (case dict_get (th_pending h) key of
                  None \<Rightarrow> h
                | Some acc \<Rightarrow>
                    let h0 = h\<lparr>th_pending := dict_pop key (th_pending h)\<rparr>
                    in if da_byte_count acc = 0 then h0
                       else let (txt, _) = acc_drain acc;
                                h' = h0\<lparr>th_total_pending := max 0 (th_total_pending h0 - da_byte_count acc)\<rparr>
                            in if txt = [] then h' else fanout_delta_frame t key txt h')
      in snd (drop_part (fst t) key h1))"

text \<open>\<^verbatim>\<open>isinstance(x, str) and x\<close>\<close>

definition jstr_ne :: "json \<Rightarrow> string option" where
  "jstr_ne v = (case v of JStr s \<Rightarrow> if s = [] then None else Some s | _ \<Rightarrow> None)"

definition on_part_updated :: "clock \<Rightarrow> (string \<times> json) list \<Rightarrow> token_hub \<Rightarrow> token_hub" where
  "on_part_updated t props h =
     (case jget props ''part'' of
        JObj part \<Rightarrow>
          (case (jstr_ne (jget part ''sessionID''), jstr_ne (jget part ''messageID''), jstr_ne (jget part ''id'')) of
             (Some sid, Some mid, Some pid) \<Rightarrow>
               (case is_deleted_sid (fst t) sid h of
                  (True, h1) \<Rightarrow> h1
                | (False, h1) \<Rightarrow>
                    if (sid, mid) \<in> set (th_retired_messages h1) then h1
                    else (case jget part ''time'' of
                            JObj tm \<Rightarrow>
                              let key = (sid, mid, pid)
                              in if jget part ''type'' \<noteq> JStr ''text'' then remember_nontext (fst t) key h1
                                 else if is_disabled h1 key then h1
                                 else if jget tm ''end'' = JNull
                                 then (if dict_has (th_live_parts h1) key then h1
                                       else start_part t key
                                              (case jget part ''text'' of JStr s \<Rightarrow> s | _ \<Rightarrow> []) h1)
                                 else finish_part t key h1
                          | _ \<Rightarrow> h1))
           | _ \<Rightarrow> h)
      | _ \<Rightarrow> h)"

text \<open>The accepted branch of \<open>on_part_delta\<close>: accumulate, early flush, pending budget.\<close>

definition accept_delta :: "clock \<Rightarrow> part_key \<Rightarrow> string \<Rightarrow> live_part \<Rightarrow> token_hub \<Rightarrow> token_hub" where
  "accept_delta t key delta live h =
     (let n = int (utf8_len delta);
          h1 = h\<lparr>th_live_parts := dict_set key (live\<lparr>lp_chunks := lp_chunks live @ [delta],
                     lp_byte_count := lp_byte_count live + n, lp_last_delta_ms := fst t\<rparr>) (th_live_parts h),
                  th_total_live := th_total_live h + n\<rparr>;
          acc = acc_append delta (dict_get_or (th_pending h1) key new_delta_acc);
          h2 = h1\<lparr>th_pending := dict_set key acc (th_pending h1), th_total_pending := th_total_pending h1 + n\<rparr>;
          h3 = (if da_byte_count acc \<ge> TOKEN_FLUSH_BYTES
                then let (txt, _) = acc_drain acc;
                         h' = h2\<lparr>th_pending := dict_pop key (th_pending h2),
                                th_total_pending := max 0 (th_total_pending h2 - da_byte_count acc)\<rparr>
                     in if txt = [] then h' else fanout_delta_frame t key txt h'
                else h2)
      in check_pending_budget t key h3)"

definition on_part_delta :: "clock \<Rightarrow> (string \<times> json) list \<Rightarrow> token_hub \<Rightarrow> token_hub" where
  "on_part_delta t props h =
     (if jget props ''field'' \<noteq> JStr ''text'' then h
      else case (jstr_ne (jget props ''sessionID''), jstr_ne (jget props ''messageID''), jstr_ne (jget props ''partID'')) of
        (Some sid, Some mid, Some pid) \<Rightarrow>
          (case is_deleted_sid (fst t) sid h of
             (True, h1) \<Rightarrow> h1
           | (False, h1) \<Rightarrow>
               if (sid, mid) \<in> set (th_retired_messages h1) then h1
               else (case jstr_ne (jget props ''delta'') of
                       None \<Rightarrow> h1
                     | Some delta \<Rightarrow>
                         let key = (sid, mid, pid)
                         in if is_nontext h1 key \<or> is_disabled h1 key then h1
                            else (case dict_get (th_live_parts h1) key of
                                    None \<Rightarrow>
                                      h1\<lparr>th_metrics := (th_metrics h1)\<lparr>tm_orphan_deltas :=
                                           tm_orphan_deltas (th_metrics h1) + 1\<rparr>\<rparr>
                                  | Some live \<Rightarrow>
                                      if lp_ended live then h1
                                      else (case reserve t live (int (utf8_len delta)) key h1 of
                                              (False, h2) \<Rightarrow> h2
                                            | (True, h2) \<Rightarrow> accept_delta t key delta live h2))))
      | _ \<Rightarrow> h)"

text \<open>The retirement of every key that satisfies \<open>P\<close>; each gauge update is floored at zero.\<close>

definition retire_where :: "(part_key \<Rightarrow> bool) \<Rightarrow> token_hub \<Rightarrow> token_hub" where
  "retire_where P h =
     h\<lparr>th_live_parts := dict_drop_keys P (th_live_parts h),
       th_total_live := foldl (\<lambda>tot (_, lp). max 0 (tot - lp_byte_count lp)) (th_total_live h)
         (filter (\<lambda>(k, _). P k) (th_live_parts h)),
       th_pending := dict_drop_keys P (th_pending h),
       th_total_pending := foldl (\<lambda>tot (_, acc). max 0 (tot - da_byte_count acc)) (th_total_pending h)
         (filter (\<lambda>(k, _). P k) (th_pending h)),
       th_nontext := dict_drop_keys P (th_nontext h),
       th_disabled := dict_drop_keys P (th_disabled h),
       th_part_revisions := dict_drop_keys P (th_part_revisions h)\<rparr>"

definition retire_message :: "string \<Rightarrow> string \<Rightarrow> token_hub \<Rightarrow> token_hub" where
  "retire_message sid mid h =
     (let h1 = retire_where (\<lambda>k. fst k = sid \<and> fst (snd k) = mid) h
      in h1\<lparr>th_retired_messages := List.insert (sid, mid) (th_retired_messages h1)\<rparr>)"

definition retire_session :: "string \<Rightarrow> token_hub \<Rightarrow> token_hub" where
  "retire_session sid h = retire_where (\<lambda>k. fst k = sid) h"

definition on_message_removed :: "clock \<Rightarrow> string \<Rightarrow> string \<Rightarrow> token_hub \<Rightarrow> token_hub" where
  "on_message_removed t sid mid h = fanout_message_removed t sid mid (retire_message sid mid h)"

definition on_part_removed :: "clock \<Rightarrow> string \<Rightarrow> string \<Rightarrow> string \<Rightarrow> token_hub \<Rightarrow> token_hub" where
  "on_part_removed t sid mid pid h =
     (case is_deleted_sid (fst t) sid h of
        (True, h1) \<Rightarrow> h1
      | (False, h1) \<Rightarrow>
          if (sid, mid) \<in> set (th_retired_messages h1) then h1
          else if pid = [] then h1
          else snd (drop_part (fst t) (sid, mid, pid) h1))"

definition on_session_status :: "clock \<Rightarrow> string \<Rightarrow> json \<Rightarrow> token_hub \<Rightarrow> token_hub" where
  "on_session_status t sid status h =
     (case normalize_session_status status of
        None \<Rightarrow> h
      | Some st \<Rightarrow>
          if st \<noteq> ''busy'' \<and> st \<noteq> ''idle'' then h
          else let h1 = prune_session_status
                          (h\<lparr>th_session_status := dict_move_to_end sid (dict_set sid st (th_session_status h))\<rparr>)
               in if st = ''busy'' then h1
                  else enqueue_session_resync sid RESYNC_SESSION_IDLE
                         (write_replay_barrier sid (retire_session sid h1)))"

definition on_session_deleted :: "clock \<Rightarrow> string \<Rightarrow> token_hub \<Rightarrow> token_hub" where
  "on_session_deleted t sid h =
     (let h1 = retire_session sid h;
          h2 = write_replay_barrier sid (h1\<lparr>th_session_status := dict_pop sid (th_session_status h1)\<rparr>);
          h3 = h2\<lparr>th_retired_messages := filter (\<lambda>k. fst k \<noteq> sid) (th_retired_messages h2)\<rparr>;
          h4 = remember_deleted_sid (fst t) sid h3
      in fold (sub_terminate RESYNC_SESSION_DELETED) (subs_of h4 sid) h4)"

text \<open>\<open>ttl_sweep\<close>: the decision per part reads only the session status, so the loop is a fold.\<close>

definition ttl_expired :: "int \<Rightarrow> token_hub \<Rightarrow> part_key \<times> live_part \<Rightarrow> bool" where
  "ttl_expired now_ms h p \<longleftrightarrow>
     \<not> lp_last_delta_ms (snd p) \<ge> now_ms - TOKEN_ACC_IDLE_MS \<and>
     dict_get (th_session_status h) (fst (fst p)) = Some ''idle''"

definition ttl_retire :: "part_key \<times> live_part \<Rightarrow> token_hub \<Rightarrow> token_hub" where
  "ttl_retire p h =
     (let key = fst p;
          h1 = (case dict_get (th_pending h) key of
                  None \<Rightarrow> h
                | Some acc \<Rightarrow> h\<lparr>th_pending := dict_pop key (th_pending h),
                    th_total_pending := max 0 (th_total_pending h - da_byte_count acc)\<rparr>);
          h2 = h1\<lparr>th_total_live := max 0 (th_total_live h1 - lp_byte_count (snd p)),
                   th_live_parts := dict_pop key (th_live_parts h1)\<rparr>;
          h3 = discard_nontext key h2
      in h3\<lparr>th_part_revisions := dict_pop key (th_part_revisions h3)\<rparr>)"

definition ttl_sweep :: "int \<Rightarrow> token_hub \<Rightarrow> part_key list \<times> token_hub" where
  "ttl_sweep now_ms h =
     (let retired = filter (ttl_expired now_ms h) (th_live_parts h)
      in (map fst retired, fold ttl_retire retired h))"

definition on_upstream_reconnect :: "token_hub \<Rightarrow> token_hub" where
  "on_upstream_reconnect h =
     (let h1 = h\<lparr>th_live_parts := [], th_nontext := [], th_disabled := [], th_pending := [],
                  th_total_live := 0, th_total_pending := 0, th_session_status := [],
                  th_pending_resyncs := [], th_retired_messages := [], th_deleted_sids := []\<rparr>
      in fold (\<lambda>sid. fanout_resync sid RESYNC_RECONNECT_NO_REPLAY) (dict_keys (th_subs_by_sid h1)) h1)"

text \<open>One round of \<open>flush_loop\<close> after its sleep, with the two tick counters.\<close>

definition flush_loop_tick :: "clock \<Rightarrow> nat \<times> nat \<Rightarrow> token_hub \<Rightarrow> (nat \<times> nat) \<times> token_hub" where
  "flush_loop_tick t ticks h =
     (let h1 = flush t h;
          ttl = fst ticks + 1; hb = snd ticks + 1;
          (ttl', h2) = (if ttl \<ge> TTL_TICK_INTERVAL then (0, snd (ttl_sweep (fst t) h1)) else (ttl, h1));
          (hb', h3) = (if hb \<ge> HEARTBEAT_TICK_INTERVAL then (0, fanout_heartbeat h2) else (hb, h2))
      in ((ttl', hb'), h3))"

end
