(* ===== verification/Token_Hub_Invariant.thy ===== *)
theory Token_Hub_Invariant
  imports Token_Hub
begin

text \<open>
  The memory accounting of the token hub: the two byte gauges are exact, pending text belongs to
  live parts, tombstones exclude live parts, and all budgets and caps hold between handlers,
  whatever events arrive in whatever order.
\<close>

section \<open>Accounting\<close>

definition part_ok :: "int \<Rightarrow> live_part \<Rightarrow> bool" where
  "part_ok mx lp \<longleftrightarrow> lp_byte_count lp = int (utf8_len (concat (lp_chunks lp))) \<and> lp_byte_count lp \<le> mx \<and>
     \<not> lp_ended lp"

definition acc_ok :: "delta_acc \<Rightarrow> bool" where
  "acc_ok acc \<longleftrightarrow> da_byte_count acc = int (utf8_len (concat (da_chunks acc))) \<and> [] \<notin> set (da_chunks acc)"

text \<open>The pending side: exact gauge; drained accumulators may still be in the map.\<close>

definition pend_core :: "token_hub \<Rightarrow> bool" where
  "pend_core h \<longleftrightarrow> dict_wf (th_pending h) \<and> (\<forall>p\<in>set (th_pending h). acc_ok (snd p)) \<and>
     th_total_pending h = dict_sum da_byte_count (th_pending h)"

definition live_core :: "token_hub \<Rightarrow> bool" where
  "live_core h \<longleftrightarrow> dict_wf (th_live_parts h) \<and>
     (\<forall>p\<in>set (th_live_parts h). part_ok (cap_part_max_bytes (th_caps h)) (snd p)) \<and>
     th_total_live h = dict_sum lp_byte_count (th_live_parts h)"

definition tomb_core :: "token_hub \<Rightarrow> bool" where
  "tomb_core h \<longleftrightarrow> dict_wf (th_nontext h) \<and> length (th_nontext h) \<le> TOKEN_DISABLED_MAX \<and>
     dict_wf (th_disabled h) \<and> length (th_disabled h) \<le> TOKEN_DISABLED_MAX \<and>
     (\<forall>k. dict_has (th_disabled h) k \<longrightarrow> \<not> dict_has (th_live_parts h) k)"

definition misc_core :: "token_hub \<Rightarrow> bool" where
  "misc_core h \<longleftrightarrow> dict_wf (th_part_revisions h) \<and> length (th_part_revisions h) \<le> TOKEN_DISABLED_MAX \<and>
     dict_wf (th_session_status h) \<and> length (th_session_status h) \<le> SESSION_STATUS_MAX \<and>
     dict_wf (th_deleted_sids h) \<and> length (th_deleted_sids h) \<le> TOKEN_REMOVED_MESSAGES_MAX \<and>
     length (th_pending_resyncs h) \<le> TOKEN_RESYNC_QUEUE_CAP"

definition pend_live :: "token_hub \<Rightarrow> bool" where
  "pend_live h \<longleftrightarrow> (\<forall>k acc. dict_get (th_pending h) k = Some acc \<longrightarrow>
     da_chunks acc \<noteq> [] \<and> dict_has (th_live_parts h) k)"

definition caps_ok :: "token_caps \<Rightarrow> bool" where
  "caps_ok c \<longleftrightarrow> 0 < cap_live_parts_max c \<and> 0 \<le> cap_part_max_bytes c \<and>
     cap_part_max_bytes c \<le> cap_liveparts_max_bytes c"

definition hub_core :: "token_hub \<Rightarrow> bool" where
  "hub_core h \<longleftrightarrow> caps_ok (th_caps h) \<and> live_core h \<and> pend_core h \<and> pend_live h \<and> tomb_core h \<and> misc_core h"

definition hub_inv :: "token_hub \<Rightarrow> bool" where
  "hub_inv h \<longleftrightarrow> hub_core h \<and> th_total_live h \<le> cap_liveparts_max_bytes (th_caps h) \<and>
     length (th_live_parts h) \<le> cap_live_parts_max (th_caps h) \<and>
     th_total_pending h \<le> TOKEN_PENDING_MAX_BYTES"

lemmas core_defs = hub_core_def live_core_def pend_core_def pend_live_def tomb_core_def misc_core_def

lemma acc_ok_drained [simp]: "acc_ok \<lparr>da_chunks = [], da_byte_count = 0\<rparr>"
  by (simp add: acc_ok_def)

lemma acc_ok_zero: "acc_ok acc \<Longrightarrow> da_byte_count acc = 0 \<longleftrightarrow> da_chunks acc = []"
proof -
  assume ok: "acc_ok acc"
  then have "da_byte_count acc = 0 \<longleftrightarrow> concat (da_chunks acc) = []" by (simp add: acc_ok_def)
  also have "\<dots> \<longleftrightarrow> da_chunks acc = []" using ok by (cases "da_chunks acc") (auto simp: acc_ok_def)
  finally show ?thesis .
qed

lemma acc_ok_nonneg: "acc_ok acc \<Longrightarrow> 0 \<le> da_byte_count acc"
  by (simp add: acc_ok_def)

lemma acc_drain_eq: "acc_ok acc \<Longrightarrow> acc_drain acc = (concat (da_chunks acc), \<lparr>da_chunks = [], da_byte_count = 0\<rparr>)"
  by (cases "da_chunks acc = []") (auto simp: acc_drain_def acc_ok_def)

lemma acc_ok_append: "acc_ok acc \<Longrightarrow> acc_ok (acc_append txt acc)"
  by (simp add: acc_ok_def acc_append_def)

lemma acc_append_bytes: "da_byte_count (acc_append txt acc) = da_byte_count acc + int (utf8_len txt)"
  by (simp add: acc_append_def)

lemma part_ok_nonneg: "part_ok mx lp \<Longrightarrow> 0 \<le> lp_byte_count lp"
  by (simp add: part_ok_def)

section \<open>Revisions under publishing\<close>

lemma revs_sub_put [simp]: "th_part_revisions (sub_put w i h) = th_part_revisions h"
  by (simp add: sub_put_def split: option.splits prod.splits)

lemma revs_sub_terminate [simp]: "th_part_revisions (sub_terminate r i h) = th_part_revisions h"
  by (simp add: sub_terminate_def split: option.splits)

lemma revs_publish [simp]: "th_part_revisions (snd (publish_seq_frame t sid b k h)) = th_part_revisions h"
  by (simp add: publish_seq_frame_def split_beta split: option.splits)

lemma revs_deliver [simp]: "th_part_revisions (snd (deliver_logged sid w h)) = th_part_revisions h"
  by (simp add: deliver_logged_def fold_keeps [of th_part_revisions])

lemma revs_fanout_delta [simp]: "th_part_revisions (fanout_delta_frame t key txt h) =
    lru_put TOKEN_DISABLED_MAX key (dict_get_or (th_part_revisions h) key (- 1) + 1) (th_part_revisions h)"
  by (simp add: fanout_delta_frame_def next_part_revision_def Let_def split_beta count_flushed_def
      split: option.splits)

lemma revs_fanout [simp]:
  "th_part_revisions (fanout_message_removed t sid mid h) = th_part_revisions h"
  "th_part_revisions (fanout_resync sid reason h) = th_part_revisions h"
  "th_part_revisions (write_replay_barrier sid h) = th_part_revisions h"
  "th_part_revisions (snd (fanout_replayable_resync t sid reason h)) = th_part_revisions h"
  "th_part_revisions (tap_events f h) = th_part_revisions h"
  by (simp_all add: fanout_message_removed_def fanout_resync_def write_replay_barrier_def
      fanout_replayable_resync_def tap_events_def Let_def split_beta count_flushed_def
      fold_keeps [of th_part_revisions] split: option.splits)

lemma revs_heartbeat [simp]: "th_part_revisions (fanout_heartbeat h) = th_part_revisions h"
  unfolding fanout_heartbeat_def by (intro fold_keeps) (simp add: split_beta fold_keeps [of th_part_revisions])

definition revs_ok :: "token_hub \<Rightarrow> bool" where
  "revs_ok h \<longleftrightarrow> dict_wf (th_part_revisions h) \<and> length (th_part_revisions h) \<le> TOKEN_DISABLED_MAX"

lemma revs_ok_delta [simp]: "revs_ok h \<Longrightarrow> revs_ok (fanout_delta_frame t key txt h)"
  using lru_put_length by (simp add: revs_ok_def)

text \<open>The invariant looks at the accumulator state and the revisions only.\<close>

lemma hub_core_view:
  assumes "hub_core h" and "acc_view h' = acc_view h" and "revs_ok h'"
  shows "hub_core h'"
  using assms acc_viewD [OF assms(2)] by (simp add: core_defs revs_ok_def)

lemma hub_core_revs: "hub_core h \<Longrightarrow> revs_ok h"
  by (simp add: core_defs revs_ok_def)

section \<open>Flushing\<close>

lemma dict_set_present_keys: "dict_has d k \<Longrightarrow> map fst (dict_set k v d) = map fst d"
  unfolding dict_has_keys dict_set_def by (induction d) auto

lemma dict_set_elem: "p \<in> set (dict_set k v d) \<Longrightarrow> p = (k, v) \<or> p \<in> set d"
  unfolding dict_set_def by (induction d) (auto split: if_splits)

lemma pend_get_ok: "pend_core h \<Longrightarrow> dict_get (th_pending h) k = Some acc \<Longrightarrow> acc_ok acc"
  using dict_get_in_set [of "th_pending h" k acc] by (force simp: pend_core_def)

lemma pend_total_ge:
  assumes "pend_core h" and "dict_get (th_pending h) k = Some acc"
  shows "da_byte_count acc \<le> th_total_pending h"
proof -
  have "dict_sum da_byte_count (th_pending h) =
      da_byte_count acc + dict_sum da_byte_count (dict_pop k (th_pending h))"
    using assms dict_sum_pop [of "th_pending h" da_byte_count k] by (simp add: pend_core_def)
  moreover have "0 \<le> dict_sum da_byte_count (dict_pop k (th_pending h))"
    using assms(1) by (intro dict_sum_nonneg_in) (auto simp: pend_core_def dict_pop_def acc_ok_nonneg)
  ultimately show ?thesis using assms(1) by (simp add: pend_core_def)
qed

abbreviation drained :: delta_acc where "drained \<equiv> \<lparr>da_chunks = [], da_byte_count = 0\<rparr>"

text \<open>One key of a flush, in closed form.\<close>

lemma flush_key_eq:
  assumes "pend_core h"
  shows "flush_key tap t key h =
    (case dict_get (th_pending h) key of
       None \<Rightarrow> h
     | Some acc \<Rightarrow>
         if da_chunks acc = [] then h
         else let h1 = h\<lparr>th_pending := dict_set key drained (th_pending h),
                          th_total_pending := th_total_pending h - da_byte_count acc\<rparr>;
                  h2 = fanout_delta_frame t key (concat (da_chunks acc)) h1
              in if tap \<and> th_events_tap h2 \<noteq> [] then tap_events (events_token_frame key (concat (da_chunks acc))) h2
                 else h2)"
proof (cases "dict_get (th_pending h) key")
  case (Some acc)
  note ok = pend_get_ok [OF assms Some]
  have "concat (da_chunks acc) \<noteq> []" if "da_chunks acc \<noteq> []"
    using ok that by (cases "da_chunks acc") (auto simp: acc_ok_def)
  then show ?thesis
    using Some pend_total_ge [OF assms Some] acc_ok_zero [OF ok] acc_drain_eq [OF ok]
    by (auto simp: flush_key_def Let_def)
qed (simp add: flush_key_def)

lemma flush_key_pending:
  assumes "pend_core h"
  shows "th_pending (flush_key tap t key h) =
      (case dict_get (th_pending h) key of None \<Rightarrow> th_pending h | Some _ \<Rightarrow> dict_set key drained (th_pending h))"
    and "pend_core (flush_key tap t key h)"
proof -
  have same: "dict_set key drained (th_pending h) = th_pending h"
    if "dict_get (th_pending h) key = Some acc" "da_chunks acc = []" for acc
  proof -
    have "acc = drained" using that pend_get_ok [OF assms that(1)] by (cases acc) (simp add: acc_ok_def)
    with that show ?thesis by (simp add: dict_set_get_same)
  qed
  show p: "th_pending (flush_key tap t key h) =
      (case dict_get (th_pending h) key of None \<Rightarrow> th_pending h | Some _ \<Rightarrow> dict_set key drained (th_pending h))"
    by (auto simp: flush_key_eq [OF assms] Let_def same split: option.splits)
  have tot: "th_total_pending (flush_key tap t key h) =
      th_total_pending h - (case dict_get (th_pending h) key of None \<Rightarrow> 0 | Some acc \<Rightarrow> da_byte_count acc)"
    using pend_get_ok [OF assms] acc_ok_zero
    by (auto simp: flush_key_eq [OF assms] Let_def split: option.splits)
  show "pend_core (flush_key tap t key h)"
    using assms unfolding pend_core_def p tot
    by (auto simp: dict_sum_set split: option.splits dest!: dict_set_elem)
qed

lemma flush_key_keys: "pend_core h \<Longrightarrow> map fst (th_pending (flush_key tap t key h)) = map fst (th_pending h)"
  by (auto simp: flush_key_pending dict_set_present_keys dict_has_get split: option.splits)

lemma flush_keys_pending:
  assumes "pend_core h"
  shows "pend_core (fold (flush_key tap t) ks h) \<and>
    map fst (th_pending (fold (flush_key tap t) ks h)) = map fst (th_pending h) \<and>
    (\<forall>k. dict_get (th_pending (fold (flush_key tap t) ks h)) k =
       (if k \<in> set ks then map_option (\<lambda>_. drained) (dict_get (th_pending h) k) else dict_get (th_pending h) k))"
  using assms
proof (induction ks arbitrary: h)
  case (Cons x ks)
  note IH = Cons.IH [OF flush_key_pending(2) [OF Cons.prems]]
  have get: "dict_get (th_pending (flush_key tap t x h)) k =
      (if k = x then map_option (\<lambda>_. drained) (dict_get (th_pending h) k) else dict_get (th_pending h) k)" for k
    by (auto simp: flush_key_pending(1) [OF Cons.prems] split: option.splits)
  show ?case
    using IH flush_key_keys [OF Cons.prems] by (auto simp: get option.map_comp comp_def)
qed simp

lemma revs_flush_key: "pend_core h \<Longrightarrow> revs_ok h \<Longrightarrow> revs_ok (flush_key tap t key h)"
  using revs_ok_delta
  by (auto simp: flush_key_eq Let_def revs_ok_def lru_put_length split: option.splits)

lemma revs_flush_keys: "pend_core h \<Longrightarrow> revs_ok h \<Longrightarrow> revs_ok (fold (flush_key tap t) ks h)"
  by (induction ks arbitrary: h) (simp_all add: revs_flush_key flush_key_pending(2))

text \<open>After the fold, dropping the drained accumulators leaves the others.\<close>

lemma dict_eq_filterI:
  assumes "dict_wf d" and "dict_wf d'" and "map fst d' = map fst d"
    and "\<And>k v. dict_get d' k = Some v \<Longrightarrow> \<not> P k \<Longrightarrow> dict_get d k = Some v"
    and "\<And>k v. dict_get d' k = Some v \<Longrightarrow> P k \<longleftrightarrow> Q (k, v)"
  shows "filter (\<lambda>p. \<not> Q p) d' = filter (\<lambda>p. \<not> P (fst p)) d"
  using assms
proof (induction d' arbitrary: d)
  case (Cons p d')
  obtain k v where p: "p = (k, v)" by fastforce
  from Cons.prems(3) p obtain w ds where d: "d = (k, w) # ds" by (cases d) auto
  have nk: "k \<notin> fst ` set d'" "k \<notin> fst ` set ds"
    using Cons.prems(1,2) by (auto simp: d p dict_wf_def)
  have get: "k' \<noteq> k \<Longrightarrow> dict_get (p # d') k' = dict_get d' k'" "k' \<noteq> k \<Longrightarrow> dict_get d k' = dict_get ds k'" for k'
    by (auto simp: p d dict_get_def)
  have ne: "dict_get d' k' = Some v' \<Longrightarrow> k' \<noteq> k" for k' v'
    using nk(1) dict_get_in_set [of d' k' v'] by force
  have "filter (\<lambda>p. \<not> Q p) d' = filter (\<lambda>p. \<not> P (fst p)) ds"
  proof (rule Cons.IH)
    show "dict_wf ds" "dict_wf d'" using Cons.prems(1,2) by (auto simp: d p dict_wf_def)
    show "map fst d' = map fst ds" using Cons.prems(3) by (simp add: d p)
    show "dict_get ds k' = Some v'" if "dict_get d' k' = Some v'" "\<not> P k'" for k' v'
      using Cons.prems(4) [of k' v'] get [OF ne [OF that(1)]] that by simp
    show "P k' \<longleftrightarrow> Q (k', v')" if "dict_get d' k' = Some v'" for k' v'
      using Cons.prems(5) [of k' v'] get(1) [OF ne [OF that]] that by simp
  qed
  moreover have "\<not> P k \<Longrightarrow> v = w" "P k \<longleftrightarrow> Q (k, v)"
    using Cons.prems(4) [of k v] Cons.prems(5) [of k v] by (auto simp: p d dict_get_def)
  ultimately show ?case by (auto simp: p d)
qed simp

lemma flush_key_resyncs: "th_pending_resyncs (flush_key tap t key h) = th_pending_resyncs h"
  by (simp add: flush_key_def Let_def split_beta split: option.splits)

lemma flush_where_pending:
  assumes core: "hub_core h" and ks: "set ks = {k. dict_has (th_pending h) k \<and> P k}"
    and h': "h' = drop_drained P (fold (flush_key tap t) ks h)"
  shows "th_pending h' = dict_drop_keys P (th_pending h)"
    and "th_total_pending h' = dict_sum da_byte_count (th_pending h')"
proof -
  let ?f = "fold (flush_key tap t) ks h"
  have pc: "pend_core h" and pl: "pend_live h" using core by (simp_all add: hub_core_def)
  note f = flush_keys_pending [OF pc, of tap t ks]
  have fpc: "pend_core ?f" using f by simp
  have q: "P k \<longleftrightarrow> P k \<and> da_chunks v = []" if "dict_get (th_pending ?f) k = Some v" for k v
  proof -
    have "k \<in> set ks" if "P k" using that \<open>dict_get (th_pending ?f) k = Some v\<close> f ks
      by (auto simp: dict_has_get split: if_splits)
    then show ?thesis using that f by (auto split: if_splits)
  qed
  have n: "dict_get (th_pending h) k = Some v" if "dict_get (th_pending ?f) k = Some v" "\<not> P k" for k v
    using that f ks by (auto split: if_splits)
  have "filter (\<lambda>p. \<not> (P (fst p) \<and> da_chunks (snd p) = [])) (th_pending ?f) =
      filter (\<lambda>p. \<not> P (fst p)) (th_pending h)"
  proof (rule dict_eq_filterI)
    show "dict_wf (th_pending h)" "dict_wf (th_pending ?f)" using pc fpc by (simp_all add: pend_core_def)
    show "map fst (th_pending ?f) = map fst (th_pending h)" using f by blast
    fix k v assume g: "dict_get (th_pending ?f) k = Some v"
    show "\<not> P k \<Longrightarrow> dict_get (th_pending h) k = Some v" by (rule n [OF g])
    show "P k \<longleftrightarrow> P (fst (k, v)) \<and> da_chunks (snd (k, v)) = []" using q [OF g] by simp
  qed
  then show p: "th_pending h' = dict_drop_keys P (th_pending h)"
    by (simp add: h' drop_drained_def dict_drop_keys_def case_prod_unfold)
  have zero: "da_byte_count (snd p) = 0" if "p \<in> set (th_pending ?f)" "P (fst p)" for p
  proof -
    have g: "dict_get (th_pending ?f) (fst p) = Some (snd p)"
      using that fpc by (intro dict_in_set_get) (auto simp: pend_core_def)
    then have "da_chunks (snd p) = []" using q that by blast
    then show ?thesis using acc_ok_zero [OF pend_get_ok [OF fpc g]] by simp
  qed
  have "dict_sum da_byte_count (filter (\<lambda>p. \<not> (P (fst p) \<and> da_chunks (snd p) = [])) (th_pending ?f)) =
      dict_sum da_byte_count (th_pending ?f)"
    using zero by (intro dict_sum_filter) auto
  then show "th_total_pending h' = dict_sum da_byte_count (th_pending h')"
    using fpc by (simp add: h' drop_drained_def pend_core_def case_prod_unfold)
qed

lemma flush_where_core:
  assumes core: "hub_core h" and ks: "set ks = {k. dict_has (th_pending h) k \<and> P k}"
    and h': "h' = drop_drained P (fold (flush_key tap t) ks h)"
  shows "hub_core h'"
proof -
  have view: "live_view h' = live_view h" by (simp add: h' fold_keeps [of live_view])
  have "revs_ok (fold (flush_key tap t) ks h)"
    using core by (intro revs_flush_keys) (simp_all add: hub_core_def core_defs revs_ok_def)
  then have revs: "revs_ok h'" by (simp add: h' drop_drained_def revs_ok_def)
  have res: "th_pending_resyncs h' = th_pending_resyncs h"
    by (simp add: h' drop_drained_def fold_keeps [of th_pending_resyncs, OF flush_key_resyncs])
  show ?thesis
    using core flush_where_pending [OF assms] live_viewD [OF view] revs res
    by (auto simp: core_defs revs_ok_def dest: set_dict_drop_keys split: if_splits)
qed

lemma flush_sid_core:
  assumes "hub_core h"
  shows "hub_core (flush_sid t sid h)"
    and "th_pending (flush_sid t sid h) = dict_drop_keys (\<lambda>k. fst k = sid) (th_pending h)"
proof -
  have ks: "set (sort (filter (\<lambda>k. fst k = sid) (dict_keys (th_pending h)))) =
      {k. dict_has (th_pending h) k \<and> fst k = sid}"
    by (auto simp: dict_keys_def dict_has_keys)
  show "hub_core (flush_sid t sid h)" by (rule flush_where_core [OF assms ks flush_sid_def])
  show "th_pending (flush_sid t sid h) = dict_drop_keys (\<lambda>k. fst k = sid) (th_pending h)"
    by (rule flush_where_pending(1) [OF assms ks flush_sid_def])
qed

text \<open>The pending resyncs are gone after their drain, the rest of the state stays.\<close>

lemma drain_view: "acc_view (drain_pending_session_resyncs h) = acc_view (h\<lparr>th_pending_resyncs := []\<rparr>)"
  unfolding drain_pending_session_resyncs_def by (intro fold_keeps) (simp add: split_beta)

lemma revs_drain [simp]: "th_part_revisions (drain_pending_session_resyncs h) = th_part_revisions h"
proof -
  have "th_part_revisions (fold (\<lambda>p. case p of (sid, reason) \<Rightarrow> fanout_resync sid reason) ps h') =
      th_part_revisions h'" for ps h'
    by (intro fold_keeps) (simp add: split_beta)
  then show ?thesis by (simp add: drain_pending_session_resyncs_def)
qed

lemma flush_core:
  assumes core: "hub_core h"
  shows "hub_core (flush t h)" and "th_pending (flush t h) = []" and "th_total_pending (flush t h) = 0"
    and "th_pending_resyncs (flush t h) = []"
proof -
  let ?h1 = "drop_drained (\<lambda>_. True) (fold (flush_key True t) (sort (dict_keys (th_pending h))) h)"
  have ks: "set (sort (dict_keys (th_pending h))) = {k. dict_has (th_pending h) k \<and> True}"
    by (auto simp: dict_keys_def dict_has_keys)
  have c1: "hub_core ?h1" by (rule flush_where_core [OF core ks refl])
  have p1: "th_pending ?h1 = []" "th_total_pending ?h1 = 0"
    using flush_where_pending [OF core ks refl] by (auto simp: dict_drop_keys_def)
  have c2: "hub_core (?h1\<lparr>th_pending_resyncs := []\<rparr>)" using c1 by (simp add: core_defs)
  have "revs_ok (drain_pending_session_resyncs ?h1)" using hub_core_revs [OF c1] by (simp add: revs_ok_def)
  then have c3: "hub_core (drain_pending_session_resyncs ?h1)" by (rule hub_core_view [OF c2 drain_view])
  then show "hub_core (flush t h)" by (simp add: flush_def Let_def core_defs)
  show "th_pending (flush t h) = []" "th_total_pending (flush t h) = 0" "th_pending_resyncs (flush t h) = []"
    using acc_viewD [OF drain_view [of ?h1]] p1 by (simp_all add: flush_def Let_def)
qed

section \<open>Dropping and evicting\<close>

lemma live_total_ge:
  assumes "live_core h" and "dict_get (th_live_parts h) k = Some lp"
  shows "lp_byte_count lp \<le> th_total_live h"
proof -
  have "dict_sum lp_byte_count (th_live_parts h) =
      lp_byte_count lp + dict_sum lp_byte_count (dict_pop k (th_live_parts h))"
    using assms dict_sum_pop [of "th_live_parts h" lp_byte_count k] by (simp add: live_core_def)
  moreover have "0 \<le> dict_sum lp_byte_count (dict_pop k (th_live_parts h))"
    using assms(1) by (intro dict_sum_nonneg_in) (auto simp: live_core_def dict_pop_def intro: part_ok_nonneg)
  ultimately show ?thesis using assms(1) by (simp add: live_core_def)
qed

lemma dict_pop_None: "dict_get d k = None \<Longrightarrow> dict_pop k d = d"
  by (rule dict_pop_fresh) (simp add: dict_get_def map_of_eq_None_iff)

lemma drop_part_eq:
  assumes "live_core h" and "pend_core h"
  shows "snd (drop_part n key h) =
    (let h4 = h\<lparr>th_pending := dict_pop key (th_pending h),
                 th_total_pending := dict_sum da_byte_count (dict_pop key (th_pending h)),
                 th_live_parts := dict_pop key (th_live_parts h),
                 th_total_live := dict_sum lp_byte_count (dict_pop key (th_live_parts h)),
                 th_nontext := dict_pop key (th_nontext h),
                 th_part_revisions := dict_pop key (th_part_revisions h)\<rparr>
     in remember_disabled n key h4)"
proof -
  have p: "th_total_pending h - da_byte_count acc = dict_sum da_byte_count (dict_pop key (th_pending h))"
    "da_byte_count acc \<le> th_total_pending h"
    if "dict_get (th_pending h) key = Some acc" for acc
    using that assms(2) pend_total_ge [OF assms(2) that] by (simp_all add: pend_core_def dict_sum_pop)
  have l: "th_total_live h - lp_byte_count lp = dict_sum lp_byte_count (dict_pop key (th_live_parts h))"
    "lp_byte_count lp \<le> th_total_live h"
    if "dict_get (th_live_parts h) key = Some lp" for lp
    using that assms(1) live_total_ge [OF assms(1) that] by (simp_all add: live_core_def dict_sum_pop)
  have same: "th_total_pending h = dict_sum da_byte_count (th_pending h)"
    "th_total_live h = dict_sum lp_byte_count (th_live_parts h)"
    using assms by (simp_all add: live_core_def pend_core_def)
  show ?thesis
    using p l same
    by (cases "dict_get (th_pending h) key"; cases "dict_get (th_live_parts h) key")
      (simp_all add: drop_part_def Let_def discard_nontext_def is_disabled_def dict_pop_None remember_disabled_def)
qed

lemma dict_wf_suffix: "dict_wf d \<Longrightarrow> dict_wf (dropWhile P d)"
  by (metis dict_wf_def distinct_map_drop dropWhile_eq_drop)

lemma prune_bounded_wf: "dict_wf d \<Longrightarrow> dict_wf (prune_bounded n d)"
  by (simp add: prune_bounded_def dict_wf_suffix)

lemma prune_bounded_length: "length (prune_bounded n d) \<le> TOKEN_DISABLED_MAX"
  by (simp add: prune_bounded_def length_dict_cap)

lemma prune_bounded_has: "dict_has (prune_bounded n d) k \<Longrightarrow> dict_has d k"
  by (auto simp: dict_has_keys prune_bounded_def dict_cap_drop dest!: in_set_dropD set_dropWhileD)

lemma dict_has_set [simp]: "dict_has (dict_set k v d) k' \<longleftrightarrow> k' = k \<or> dict_has d k'"
  by (simp add: dict_has_get)

lemma dict_has_pop [simp]: "dict_has (dict_pop k d) k' \<longleftrightarrow> k' \<noteq> k \<and> dict_has d k'"
  by (simp add: dict_has_get)

lemma tomb_core_disable:
  assumes "tomb_core h" and "\<not> dict_has (th_live_parts h) key"
  shows "tomb_core (remember_disabled n key h)"
  using assms prune_bounded_wf prune_bounded_length
  by (auto simp: tomb_core_def remember_disabled_def dest!: prune_bounded_has)

lemma remember_disabled_fields [simp]:
  "th_caps (remember_disabled n key h) = th_caps h"
  "th_live_parts (remember_disabled n key h) = th_live_parts h"
  "th_pending (remember_disabled n key h) = th_pending h"
  "th_total_live (remember_disabled n key h) = th_total_live h"
  "th_total_pending (remember_disabled n key h) = th_total_pending h"
  "th_part_revisions (remember_disabled n key h) = th_part_revisions h"
  "th_session_status (remember_disabled n key h) = th_session_status h"
  "th_deleted_sids (remember_disabled n key h) = th_deleted_sids h"
  "th_pending_resyncs (remember_disabled n key h) = th_pending_resyncs h"
  "th_retired_messages (remember_disabled n key h) = th_retired_messages h"
  "th_replay (remember_disabled n key h) = th_replay h"
  by (simp_all add: remember_disabled_def)

lemma set_dict_pop: "p \<in> set (dict_pop k d) \<Longrightarrow> p \<in> set d"
  by (simp add: dict_pop_def)

lemma length_dict_pop: "length (dict_pop k d) \<le> length d"
  by (simp add: dict_pop_def)

lemma drop_part_core:
  assumes core: "hub_core h"
  shows "hub_core (snd (drop_part n key h))"
    and "th_pending (snd (drop_part n key h)) = dict_pop key (th_pending h)"
    and "th_total_live (snd (drop_part n key h)) = dict_sum lp_byte_count (dict_pop key (th_live_parts h))"
    and "th_total_pending (snd (drop_part n key h)) = dict_sum da_byte_count (dict_pop key (th_pending h))"
proof -
  have lc: "live_core h" and pc: "pend_core h" using core by (simp_all add: hub_core_def)
  let ?h4 = "h\<lparr>th_pending := dict_pop key (th_pending h),
                 th_total_pending := dict_sum da_byte_count (dict_pop key (th_pending h)),
                 th_live_parts := dict_pop key (th_live_parts h),
                 th_total_live := dict_sum lp_byte_count (dict_pop key (th_live_parts h)),
                 th_nontext := dict_pop key (th_nontext h),
                 th_part_revisions := dict_pop key (th_part_revisions h)\<rparr>"
  have eq: "snd (drop_part n key h) = remember_disabled n key ?h4"
    using drop_part_eq [OF lc pc] by (simp add: Let_def)
  have len: "length (dict_pop key d) \<le> m" if "length d \<le> m" for d :: "(part_key, int) dict" and m
    using that length_dict_pop [of key d] by simp
  have "tomb_core ?h4" using core len by (auto simp: core_defs)
  then have "tomb_core (remember_disabled n key ?h4)" by (rule tomb_core_disable) simp
  moreover have "live_core ?h4" "pend_core ?h4" "misc_core ?h4" "pend_live ?h4"
    using core len by (auto simp: core_defs dest: set_dict_pop)
  ultimately show "hub_core (snd (drop_part n key h))"
    using core unfolding eq by (simp add: hub_core_def live_core_def pend_core_def pend_live_def misc_core_def)
  show "th_pending (snd (drop_part n key h)) = dict_pop key (th_pending h)"
    "th_total_live (snd (drop_part n key h)) = dict_sum lp_byte_count (dict_pop key (th_live_parts h))"
    "th_total_pending (snd (drop_part n key h)) = dict_sum da_byte_count (dict_pop key (th_pending h))"
    unfolding eq by simp_all
qed

lemma dict_sum_drop_keys_le:
  "(\<And>p. p \<in> set d \<Longrightarrow> 0 \<le> f (snd p)) \<Longrightarrow> dict_sum f (dict_drop_keys P d) \<le> dict_sum f d"
  by (induction d) (auto simp: dict_drop_keys_def add_increasing)

lemma pend_core_sub:
  assumes "pend_core h"
  shows "dict_sum da_byte_count (dict_drop_keys P (th_pending h)) \<le> th_total_pending h"
  using assms dict_sum_drop_keys_le [of "th_pending h" da_byte_count P]
  by (auto simp: pend_core_def acc_ok_nonneg)

lemma dict_pop_drop_keys: "dict_pop k d = dict_drop_keys (\<lambda>x. x = k) d"
  by (simp add: dict_pop_def dict_drop_keys_def)

text \<open>Eviction keeps the accounting and never raises a gauge.\<close>

lemma evict_core:
  assumes core: "hub_core h"
  shows "hub_core (evict_part_for_memory t key h)"
    and "th_total_live (evict_part_for_memory t key h) = dict_sum lp_byte_count (dict_pop key (th_live_parts h))"
    and "th_total_pending (evict_part_for_memory t key h) \<le> th_total_pending h"
proof -
  obtain b h1 where d: "drop_part (fst t) key h = (b, h1)" by fastforce
  note dc = drop_part_core [OF core, of "fst t" key, unfolded d, simplified]
  have tp: "th_total_pending h1 \<le> th_total_pending h"
    using core dc(4) pend_core_sub [of h "\<lambda>x. x = key"] by (simp add: hub_core_def dict_pop_drop_keys)
  let ?h2 = "flush_sid t (fst key) h1"
  let ?h3 = "snd (fanout_replayable_resync t (fst key) RESYNC_TOKEN_MEMORY_LIMIT ?h2)"
  note f = flush_sid_core [OF dc(1), of t "fst key"]
  have "hub_core ?h3"
    using hub_core_revs [OF f(1)] by (intro hub_core_view [OF f(1) acc_view_replayable]) (simp add: revs_ok_def)
  then have c3: "hub_core (?h3\<lparr>th_metrics := m\<rparr>)" for m by (simp add: core_defs)
  have tp2: "th_total_pending ?h2 \<le> th_total_pending h1"
    using f pend_core_sub [of h1] dc(1) by (auto simp: hub_core_def pend_core_def)
  show "hub_core (evict_part_for_memory t key h)"
    "th_total_live (evict_part_for_memory t key h) = dict_sum lp_byte_count (dict_pop key (th_live_parts h))"
    "th_total_pending (evict_part_for_memory t key h) \<le> th_total_pending h"
    using c3 dc tp tp2 by (auto simp: evict_part_for_memory_def d Let_def split: bool.splits)
qed

section \<open>Admission\<close>

text \<open>What every eviction does to the bounded quantities: nothing grows.\<close>

definition shrinks :: "token_hub \<Rightarrow> token_hub \<Rightarrow> bool" where
  "shrinks h h' \<longleftrightarrow> hub_core h' \<and> th_caps h' = th_caps h \<and> th_total_live h' \<le> th_total_live h \<and>
     length (th_live_parts h') \<le> length (th_live_parts h) \<and> th_total_pending h' \<le> th_total_pending h"

lemma shrinks_refl: "hub_core h \<Longrightarrow> shrinks h h"
  by (simp add: shrinks_def)

lemma shrinks_trans: "shrinks a b \<Longrightarrow> shrinks b c \<Longrightarrow> shrinks a c"
  by (auto simp: shrinks_def)

lemma pop_sum_le:
  assumes "live_core h"
  shows "dict_sum lp_byte_count (dict_pop key (th_live_parts h)) \<le> th_total_live h"
proof -
  have "dict_sum lp_byte_count (dict_drop_keys (\<lambda>x. x = key) (th_live_parts h)) \<le>
      dict_sum lp_byte_count (th_live_parts h)"
    using assms by (intro dict_sum_drop_keys_le) (auto simp: live_core_def intro: part_ok_nonneg)
  with assms show ?thesis by (simp add: live_core_def dict_pop_drop_keys)
qed

lemma hub_coreD:
  assumes "hub_core h"
  shows "live_core h" "pend_core h" "pend_live h" "tomb_core h" "misc_core h" "caps_ok (th_caps h)"
  using assms by (simp_all add: hub_core_def)

lemma evict_shrinks_state: "hub_core h \<Longrightarrow> shrinks h (evict_part_for_memory t key h)"
  using pop_sum_le [OF hub_coreD(1), of h key] by (simp add: shrinks_def evict_core length_dict_pop)

lemma drop_part_shrinks: "hub_core h \<Longrightarrow> shrinks h (snd (drop_part n key h))"
  using pop_sum_le [OF hub_coreD(1), of h key] pend_core_sub [OF hub_coreD(2), of h "\<lambda>x. x = key"]
  by (simp add: shrinks_def drop_part_core length_dict_pop flip: dict_pop_drop_keys)

lemma shrinks_inv: "hub_inv h \<Longrightarrow> shrinks h h' \<Longrightarrow> hub_inv h'"
  by (auto simp: hub_inv_def shrinks_def)

lemma reserve_loop_spec:
  assumes "hub_core h" and "reserve_loop t n key h = (b, h')"
  shows "shrinks h h'" and "b \<Longrightarrow> th_total_live h' + n \<le> cap_liveparts_max_bytes (th_caps h')"
    and "b \<Longrightarrow> dict_get (th_live_parts h') key = dict_get (th_live_parts h) key"
proof -
  have "shrinks h h' \<and> (b \<longrightarrow> th_total_live h' + n \<le> cap_liveparts_max_bytes (th_caps h') \<and>
      dict_get (th_live_parts h') key = dict_get (th_live_parts h) key)"
    using assms
  proof (induction t n key h rule: reserve_loop.induct)
    case (1 t n key h)
    show ?case
    proof (cases "th_total_live h + n > cap_liveparts_max_bytes (th_caps h)")
      case False
      with 1 show ?thesis by (auto simp: reserve_loop.simps [of t n key h] shrinks_refl)
    next
      case True
      show ?thesis
      proof (cases "oldest_candidate (\<lambda>k. k \<noteq> key) h")
        case None
        with 1 True show ?thesis
          by (auto simp: reserve_loop.simps [of t n key h] truncate_part_for_all_def drop_part_shrinks)
      next
        case (Some k)
        have e: "reserve_loop t n key (evict_part_for_memory t k h) = (b, h')"
          using "1.prems"(2) True Some by (simp add: reserve_loop.simps [of t n key h])
        have "k \<noteq> key" using oldest_candidate_in [OF Some] by simp
        then show ?thesis
          using "1.IH" [OF True Some evict_core(1) [OF "1.prems"(1)] e]
            shrinks_trans [OF evict_shrinks_state [OF "1.prems"(1), of t k]] by auto
      qed
    qed
  qed
  then show "shrinks h h'" "b \<Longrightarrow> th_total_live h' + n \<le> cap_liveparts_max_bytes (th_caps h')"
    "b \<Longrightarrow> dict_get (th_live_parts h') key = dict_get (th_live_parts h) key" by blast+
qed

lemma reserve_spec:
  assumes "hub_core h" and "reserve t live n key h = (b, h')"
  shows "shrinks h h'" and "b \<Longrightarrow> th_total_live h' + n \<le> cap_liveparts_max_bytes (th_caps h')"
    and "b \<Longrightarrow> dict_get (th_live_parts h') key = dict_get (th_live_parts h) key"
    and "b \<Longrightarrow> lp_byte_count live + n \<le> cap_part_max_bytes (th_caps h')"
proof -
  show s: "shrinks h h'"
    using assms reserve_loop_spec(1) [OF assms(1)] drop_part_shrinks [OF assms(1), of "fst t" key]
    by (auto simp: reserve_def truncate_part_for_all_def split: if_splits)
  show "b \<Longrightarrow> th_total_live h' + n \<le> cap_liveparts_max_bytes (th_caps h')"
    "b \<Longrightarrow> dict_get (th_live_parts h') key = dict_get (th_live_parts h) key"
    using assms reserve_loop_spec(2,3) [OF assms(1)] by (auto simp: reserve_def split: if_splits)
  show "b \<Longrightarrow> lp_byte_count live + n \<le> cap_part_max_bytes (th_caps h')"
    using assms s by (auto simp: reserve_def shrinks_def split: if_splits)
qed

lemma oldest_of_None: "oldest_of d best = None \<longleftrightarrow> d = [] \<and> best = None"
  by (induction d best rule: oldest_of.induct) (auto split: option.splits if_splits)

lemma oldest_candidate_None: "oldest_candidate P h = None \<longleftrightarrow> (\<forall>p\<in>set (th_live_parts h). \<not> P (fst p))"
  by (force simp: oldest_candidate_def oldest_of_None filter_empty_conv)

lemma start_count_loop_spec:
  assumes "hub_core h"
  shows "shrinks h (start_count_loop t h) \<and>
    length (th_live_parts (start_count_loop t h)) < cap_live_parts_max (th_caps h) \<and>
    (\<forall>k. dict_has (th_live_parts (start_count_loop t h)) k \<longrightarrow> dict_has (th_live_parts h) k)"
  using assms
proof (induction t h rule: start_count_loop.induct)
  case (1 t h)
  have cap: "0 < cap_live_parts_max (th_caps h)" using "1.prems" by (simp add: hub_core_def caps_ok_def)
  show ?case
  proof (cases "length (th_live_parts h) \<ge> cap_live_parts_max (th_caps h)")
    case False
    with "1.prems" show ?thesis by (simp add: start_count_loop.simps [of t h] shrinks_refl)
  next
    case True
    with cap have "th_live_parts h \<noteq> []" by auto
    then obtain k where k: "oldest_candidate (\<lambda>_. True) h = Some k"
      using oldest_candidate_None [of "\<lambda>_. True" h]
      by (cases "oldest_candidate (\<lambda>_. True) h") (auto, metis list.set_intros(1) neq_Nil_conv prod.collapse)
    have "start_count_loop t h = start_count_loop t (evict_part_for_memory t k h)"
      using True k by (simp add: start_count_loop.simps [of t h])
    then show ?thesis
      using "1.IH" [OF True k evict_core(1) [OF "1.prems"]]
        shrinks_trans [OF evict_shrinks_state [OF "1.prems", of t k]] by auto
  qed
qed

lemma start_bytes_loop_spec:
  assumes "hub_core h" and "dict_get (th_live_parts h) key = Some lp"
  shows "shrinks h (start_bytes_loop t key h) \<and>
    th_total_live (start_bytes_loop t key h) \<le> cap_liveparts_max_bytes (th_caps h)"
  using assms
proof (induction t key h rule: start_bytes_loop.induct)
  case (1 t key h)
  show ?case
  proof (cases "th_total_live h > cap_liveparts_max_bytes (th_caps h)")
    case False
    with "1.prems" show ?thesis by (simp add: start_bytes_loop.simps [of t key h] shrinks_refl)
  next
    case True
    show ?thesis
    proof (cases "oldest_candidate (\<lambda>k. k \<noteq> key) h")
      case None
      have lc: "live_core h" using "1.prems" by (simp add: hub_core_def)
      have "dict_pop key (th_live_parts h) = []"
        using None by (auto simp: oldest_candidate_None dict_pop_def)
      then have "th_total_live h = lp_byte_count lp"
        using "1.prems"(2) lc dict_sum_pop [of "th_live_parts h" lp_byte_count key] by (simp add: live_core_def)
      moreover have "lp_byte_count lp \<le> cap_part_max_bytes (th_caps h)"
        using lc dict_get_in_set [OF "1.prems"(2)] by (force simp: live_core_def part_ok_def)
      ultimately show ?thesis using True "1.prems" by (simp add: hub_core_def caps_ok_def)
    next
      case (Some k)
      have ne: "k \<noteq> key" using oldest_candidate_in [OF Some] by simp
      have eq: "start_bytes_loop t key h = start_bytes_loop t key (evict_part_for_memory t k h)"
        using True Some by (simp add: start_bytes_loop.simps [of t key h])
      have "dict_get (th_live_parts (evict_part_for_memory t k h)) key = Some lp"
        using "1.prems"(2) ne by simp
      from "1.IH" [OF True Some evict_core(1) [OF "1.prems"(1)] this] show ?thesis
        unfolding eq using shrinks_trans [OF evict_shrinks_state [OF "1.prems"(1), of t k]] by simp
    qed
  qed
qed

lemma drop_part_disabled:
  assumes "hub_core h" and "dict_has (th_disabled (snd (drop_part n key h))) x"
  shows "x = key \<or> dict_has (th_disabled h) x"
proof -
  note eq = drop_part_eq [OF hub_coreD(1,2) [OF assms(1)], of n key]
  from assms(2) show ?thesis
    unfolding eq Let_def by (auto simp: remember_disabled_def split: if_splits dest: prune_bounded_has)
qed

lemma evict_disabled:
  assumes "hub_core h" and "dict_has (th_disabled (evict_part_for_memory t key h)) x"
  shows "x = key \<or> dict_has (th_disabled h) x"
proof -
  obtain b h1 where d: "drop_part (fst t) key h = (b, h1)" by fastforce
  have "dict_has (th_disabled h1) x"
    using assms(2) by (auto simp: evict_part_for_memory_def d Let_def split: bool.splits)
  then show ?thesis using drop_part_disabled [OF assms(1), of "fst t" key x] by (simp add: d)
qed

lemma start_count_loop_disabled:
  assumes "hub_core h" and "dict_has (th_disabled (start_count_loop t h)) x"
  shows "dict_has (th_live_parts h) x \<or> dict_has (th_disabled h) x"
  using assms
proof (induction t h rule: start_count_loop.induct)
  case (1 t h)
  show ?case
  proof (cases "length (th_live_parts h) \<ge> cap_live_parts_max (th_caps h)")
    case False
    with "1.prems" show ?thesis by (simp add: start_count_loop.simps [of t h])
  next
    case True
    show ?thesis
    proof (cases "oldest_candidate (\<lambda>_. True) h")
      case None
      with True "1.prems" show ?thesis by (simp add: start_count_loop.simps [of t h])
    next
      case (Some k)
      have "dict_has (th_disabled (start_count_loop t (evict_part_for_memory t k h))) x"
        using "1.prems"(2) True Some by (simp add: start_count_loop.simps [of t h])
      note IH = "1.IH" [OF True Some evict_core(1) [OF "1.prems"(1)] this]
      have "dict_has (th_live_parts h) k" using oldest_candidate_in [OF Some] by (simp add: dict_has_keys)
      with IH show ?thesis using evict_disabled [OF "1.prems"(1), of t k x] by auto
    qed
  qed
qed

lemma hub_core_put_live:
  assumes core: "hub_core h" and nd: "\<not> dict_has (th_disabled h) key"
    and ok: "part_ok (cap_part_max_bytes (th_caps h)) lp"
  shows "hub_core (h\<lparr>th_live_parts := dict_set key lp (th_live_parts h),
     th_total_live := dict_sum lp_byte_count (dict_set key lp (th_live_parts h))\<rparr>)"
  using assms by (auto simp: core_defs dest!: dict_set_elem)

text \<open>A new part after the count loop, and with its seed text.\<close>

definition fresh_part :: "clock \<Rightarrow> live_part" where
  "fresh_part t = \<lparr>lp_chunks = [], lp_byte_count = 0, lp_ended = False, lp_last_delta_ms = fst t\<rparr>"

definition started :: "clock \<Rightarrow> part_key \<Rightarrow> token_hub \<Rightarrow> token_hub" where
  "started t key h =
     (start_count_loop t h)\<lparr>th_live_parts := dict_set key (fresh_part t) (th_live_parts (start_count_loop t h))\<rparr>"

definition seeded :: "clock \<Rightarrow> part_key \<Rightarrow> string \<Rightarrow> token_hub \<Rightarrow> token_hub" where
  "seeded t key seed h =
     h\<lparr>th_live_parts := dict_set key ((fresh_part t)\<lparr>lp_chunks := [seed], lp_byte_count := int (utf8_len seed)\<rparr>) (th_live_parts h),
       th_total_live := th_total_live h + int (utf8_len seed)\<rparr>"

lemma start_part_split:
  "start_part t key seed h =
     (if seed = [] then started t key h
      else if int (utf8_len seed) > cap_part_max_bytes (th_caps (started t key h))
      then truncate_part_for_all (fst t) key (started t key h)
      else start_bytes_loop t key (seeded t key seed (started t key h)))"
  by (simp add: start_part_def started_def seeded_def fresh_part_def Let_def)

lemma started_inv:
  assumes inv: "hub_inv h" and nl: "\<not> dict_has (th_live_parts h) key" and nd: "\<not> is_disabled h key"
  shows "hub_inv (started t key h)" and "\<not> dict_has (th_disabled (started t key h)) key"
proof -
  have core: "hub_core h" using inv by (simp add: hub_inv_def)
  let ?h1 = "start_count_loop t h"
  note sc = start_count_loop_spec [OF core, of t]
  have c1: "hub_core ?h1" and i1: "hub_inv ?h1" using sc shrinks_inv [OF inv] by (auto simp: shrinks_def)
  have caps: "th_caps ?h1 = th_caps h" using sc by (simp add: shrinks_def)
  have nl1: "\<not> dict_has (th_live_parts ?h1) key" using sc nl by blast
  have nd1: "\<not> dict_has (th_disabled ?h1) key"
    using start_count_loop_disabled [OF core, of t key] nl nd by (auto simp: is_disabled_def)
  then show "\<not> dict_has (th_disabled (started t key h)) key" by (simp add: started_def)
  have capok: "caps_ok (th_caps ?h1)" by (rule hub_coreD [OF c1])
  have sum2: "dict_sum lp_byte_count (dict_set key (fresh_part t) (th_live_parts ?h1)) = th_total_live ?h1"
    using c1 nl1 by (simp add: dict_sum_set core_defs dict_has_get fresh_part_def)
  have "hub_core (?h1\<lparr>th_live_parts := dict_set key (fresh_part t) (th_live_parts ?h1),
      th_total_live := dict_sum lp_byte_count (dict_set key (fresh_part t) (th_live_parts ?h1))\<rparr>)"
    using capok by (intro hub_core_put_live [OF c1 nd1]) (simp add: part_ok_def caps_ok_def fresh_part_def)
  then have c2: "hub_core (started t key h)" unfolding sum2 by (simp add: started_def)
  have "length (dict_set key (fresh_part t) (th_live_parts ?h1)) \<le> cap_live_parts_max (th_caps ?h1)"
    using sc nl1 caps by (simp add: length_dict_set)
  then show "hub_inv (started t key h)" using c2 i1 by (simp add: hub_inv_def started_def)
qed

lemma started_part: "dict_get (th_live_parts (started t key h)) key = Some (fresh_part t)"
  by (simp add: started_def)

lemma seeded_core:
  assumes core: "hub_core h" and part: "dict_get (th_live_parts h) key = Some (fresh_part t)"
    and nd: "\<not> dict_has (th_disabled h) key" and small: "int (utf8_len seed) \<le> cap_part_max_bytes (th_caps h)"
  shows "hub_core (seeded t key seed h)"
proof -
  let ?lp = "(fresh_part t)\<lparr>lp_chunks := [seed], lp_byte_count := int (utf8_len seed)\<rparr>"
  have "dict_sum lp_byte_count (dict_set key ?lp (th_live_parts h)) = th_total_live h + int (utf8_len seed)"
    using core part by (simp add: dict_sum_set core_defs fresh_part_def)
  then show ?thesis
    using hub_core_put_live [OF core nd, of ?lp] small by (simp add: seeded_def part_ok_def fresh_part_def)
qed

lemma start_part_inv:
  assumes inv: "hub_inv h" and nl: "\<not> dict_has (th_live_parts h) key" and nd: "\<not> is_disabled h key"
  shows "hub_inv (start_part t key seed h)"
proof -
  let ?g = "started t key h"
  note st = started_inv [OF inv nl nd, of t]
  have core: "hub_core ?g" using st(1) by (simp add: hub_inv_def)
  have "hub_inv (truncate_part_for_all (fst t) key ?g)"
    unfolding truncate_part_for_all_def by (rule shrinks_inv [OF st(1) drop_part_shrinks [OF core]])
  moreover have "hub_inv (start_bytes_loop t key (seeded t key seed ?g))"
    if "int (utf8_len seed) \<le> cap_part_max_bytes (th_caps ?g)"
  proof -
    have "\<exists>lp. dict_get (th_live_parts (seeded t key seed ?g)) key = Some lp" by (simp add: seeded_def)
    then obtain lp where "dict_get (th_live_parts (seeded t key seed ?g)) key = Some lp" ..
    note sb = start_bytes_loop_spec [OF seeded_core [OF core started_part st(2) that] this, of t]
    have "length (th_live_parts (seeded t key seed ?g)) = length (th_live_parts ?g)"
      using started_part [of t key h] by (simp add: seeded_def length_dict_set dict_has_get)
    then show ?thesis using sb st(1) by (auto simp: hub_inv_def shrinks_def seeded_def)
  qed
  ultimately show ?thesis using st(1) by (simp add: start_part_split)
qed

section \<open>Handlers\<close>

definition live_budget_ok :: "token_hub \<Rightarrow> bool" where
  "live_budget_ok h \<longleftrightarrow> th_total_live h \<le> cap_liveparts_max_bytes (th_caps h) \<and>
     length (th_live_parts h) \<le> cap_live_parts_max (th_caps h)"

lemma hub_inv_alt: "hub_inv h \<longleftrightarrow> hub_core h \<and> live_budget_ok h \<and> th_total_pending h \<le> TOKEN_PENDING_MAX_BYTES"
  by (auto simp: hub_inv_def live_budget_ok_def)

lemma flush_inv: "hub_core h \<Longrightarrow> live_budget_ok h \<Longrightarrow> hub_inv (flush t h)"
  by (simp add: hub_inv_alt flush_core live_budget_ok_def)

lemma check_pending_inv:
  assumes "hub_core h" and "live_budget_ok h"
  shows "hub_inv (check_pending_budget t key h)"
proof -
  have f: "hub_inv (flush t h)" by (rule flush_inv [OF assms])
  then have "hub_inv (evict_part_for_memory t k (flush t h))" for k
    using shrinks_inv [OF f evict_shrinks_state] by (simp add: hub_inv_def)
  with f assms show ?thesis
    by (simp add: check_pending_budget_def Let_def hub_inv_alt split: option.splits)
qed

lemma hub_core_put_pending:
  assumes "hub_core h" and "acc_ok acc" and "da_chunks acc \<noteq> []" and "dict_has (th_live_parts h) key"
  shows "hub_core (h\<lparr>th_pending := dict_set key acc (th_pending h),
     th_total_pending := dict_sum da_byte_count (dict_set key acc (th_pending h))\<rparr>)"
  using assms by (auto simp: core_defs dest!: dict_set_elem)

lemma hub_core_pop_pending:
  assumes "hub_core h"
  shows "hub_core (h\<lparr>th_pending := dict_pop key (th_pending h),
     th_total_pending := dict_sum da_byte_count (dict_pop key (th_pending h))\<rparr>)"
  using assms by (auto simp: core_defs dest: set_dict_pop)

lemma fanout_delta_core: "hub_core h \<Longrightarrow> hub_core (fanout_delta_frame t key txt h)"
  by (rule hub_core_view [OF _ acc_view_fanout_delta]) (simp_all add: hub_core_revs)

lemma pop_pending_total:
  assumes "hub_core h" and "dict_get (th_pending h) key = Some acc"
  shows "max 0 (th_total_pending h - da_byte_count acc) = dict_sum da_byte_count (dict_pop key (th_pending h))"
  using assms pend_total_ge [OF hub_coreD(2) [OF assms(1)] assms(2)]
  by (simp add: core_defs dict_sum_pop)

lemma live_not_disabled: "hub_core h \<Longrightarrow> dict_has (th_live_parts h) key \<Longrightarrow> \<not> dict_has (th_disabled h) key"
  unfolding hub_core_def tomb_core_def by blast

text \<open>The state of an accepted delta before the early flush.\<close>

definition accumulated :: "clock \<Rightarrow> part_key \<Rightarrow> string \<Rightarrow> live_part \<Rightarrow> token_hub \<Rightarrow> token_hub" where
  "accumulated t key delta live h =
     h\<lparr>th_live_parts := dict_set key (live\<lparr>lp_chunks := lp_chunks live @ [delta],
         lp_byte_count := lp_byte_count live + int (utf8_len delta), lp_last_delta_ms := fst t\<rparr>) (th_live_parts h),
       th_total_live := th_total_live h + int (utf8_len delta),
       th_pending := dict_set key (acc_append delta (dict_get_or (th_pending h) key new_delta_acc)) (th_pending h),
       th_total_pending := th_total_pending h + int (utf8_len delta)\<rparr>"

definition early_flush :: "clock \<Rightarrow> part_key \<Rightarrow> token_hub \<Rightarrow> token_hub" where
  "early_flush t key h =
     (let acc = dict_get_or (th_pending h) key new_delta_acc;
          g = h\<lparr>th_pending := dict_pop key (th_pending h),
                 th_total_pending := max 0 (th_total_pending h - da_byte_count acc)\<rparr>
      in if da_byte_count acc \<ge> TOKEN_FLUSH_BYTES
         then if concat (da_chunks acc) = [] then g else fanout_delta_frame t key (concat (da_chunks acc)) g
         else h)"

lemma drain_text [simp]: "fst (acc_drain acc) = concat (da_chunks acc)"
  by (simp add: acc_drain_def)

lemma accept_delta_split:
  "accept_delta t key delta live h = check_pending_budget t key (early_flush t key (accumulated t key delta live h))"
  by (simp add: accept_delta_def early_flush_def accumulated_def Let_def case_prod_unfold dict_get_or_get)

lemma accumulated_core:
  assumes inv: "hub_inv h" and live: "dict_get (th_live_parts h) key = Some live" and ne: "delta \<noteq> []"
    and part: "lp_byte_count live + int (utf8_len delta) \<le> cap_part_max_bytes (th_caps h)"
    and tot: "th_total_live h + int (utf8_len delta) \<le> cap_liveparts_max_bytes (th_caps h)"
  shows "hub_core (accumulated t key delta live h)" and "live_budget_ok (accumulated t key delta live h)"
proof -
  have core: "hub_core h" using inv by (simp add: hub_inv_def)
  let ?n = "int (utf8_len delta)"
  let ?lp = "live\<lparr>lp_chunks := lp_chunks live @ [delta], lp_byte_count := lp_byte_count live + ?n, lp_last_delta_ms := fst t\<rparr>"
  let ?h1 = "h\<lparr>th_live_parts := dict_set key ?lp (th_live_parts h), th_total_live := th_total_live h + ?n\<rparr>"
  let ?acc = "acc_append delta (dict_get_or (th_pending h) key new_delta_acc)"
  have ok: "part_ok (cap_part_max_bytes (th_caps h)) live"
    using dict_get_in_set [OF live] hub_coreD(1) [OF core] by (force simp: live_core_def)
  have nd: "\<not> dict_has (th_disabled h) key"
    using live_not_disabled [OF core] live by (simp add: dict_has_get)
  have s1: "dict_sum lp_byte_count (dict_set key ?lp (th_live_parts h)) = th_total_live h + ?n"
    using live core by (simp add: dict_sum_set core_defs)
  have c1: "hub_core ?h1"
    by (rule hub_core_put_live [OF core nd, of ?lp, unfolded s1]) (use ok part in \<open>simp add: part_ok_def\<close>)
  have aok: "acc_ok (dict_get_or (th_pending h) key new_delta_acc)"
    using pend_get_ok [OF hub_coreD(2) [OF core]]
    by (auto simp: dict_get_or_get new_delta_acc_def split: option.splits)
  have s2: "dict_sum da_byte_count (dict_set key ?acc (th_pending h)) = th_total_pending h + ?n"
    using core by (auto simp: dict_sum_set acc_append_bytes dict_get_or_get new_delta_acc_def core_defs
        split: option.splits)
  have "da_chunks ?acc \<noteq> []" using ne by (simp add: acc_append_def)
  then show "hub_core (accumulated t key delta live h)"
    using hub_core_put_pending [OF c1 acc_ok_append [OF aok], of delta key] by (simp add: s2 accumulated_def)
  show "live_budget_ok (accumulated t key delta live h)"
    using inv tot live by (simp add: accumulated_def hub_inv_alt live_budget_ok_def length_dict_set dict_has_get)
qed

lemma early_flush_core:
  assumes core: "hub_core h"
  shows "hub_core (early_flush t key h)" and "live_budget_ok h \<Longrightarrow> live_budget_ok (early_flush t key h)"
proof -
  let ?acc = "dict_get_or (th_pending h) key new_delta_acc"
  let ?g = "h\<lparr>th_pending := dict_pop key (th_pending h),
      th_total_pending := max 0 (th_total_pending h - da_byte_count ?acc)\<rparr>"
  have "hub_core ?g" if "da_byte_count ?acc \<ge> TOKEN_FLUSH_BYTES"
  proof -
    have "dict_get (th_pending h) key \<noteq> None"
      using that by (auto simp: dict_get_or_get new_delta_acc_def split: option.splits)
    then obtain acc where "dict_get (th_pending h) key = Some acc" by blast
    then show ?thesis
      using hub_core_pop_pending [OF core, of key] pop_pending_total [OF core, of key acc] by (simp add: dict_get_or_get)
  qed
  then show "hub_core (early_flush t key h)" using core by (simp add: early_flush_def Let_def fanout_delta_core)
  show "live_budget_ok h \<Longrightarrow> live_budget_ok (early_flush t key h)"
    by (simp add: early_flush_def Let_def live_budget_ok_def)
qed

lemma accept_delta_inv:
  assumes "hub_inv h" and "dict_get (th_live_parts h) key = Some live" and "delta \<noteq> []"
    and "lp_byte_count live + int (utf8_len delta) \<le> cap_part_max_bytes (th_caps h)"
    and "th_total_live h + int (utf8_len delta) \<le> cap_liveparts_max_bytes (th_caps h)"
  shows "hub_inv (accept_delta t key delta live h)"
  unfolding accept_delta_split
  by (intro check_pending_inv early_flush_core accumulated_core [OF assms])

lemma pending_nonzero:
  assumes core: "hub_core h" and get: "dict_get (th_pending h) key = Some acc"
  shows "da_byte_count acc \<noteq> 0"
proof -
  have "da_chunks acc \<noteq> []" using hub_coreD(3) [OF core] get unfolding pend_live_def by blast
  then show ?thesis using acc_ok_zero [OF pend_get_ok [OF hub_coreD(2) [OF core] get]] by simp
qed

lemma finish_part_inv:
  assumes inv: "hub_inv h"
  shows "hub_inv (finish_part t key h)"
proof -
  have core: "hub_core h" using inv by (simp add: hub_inv_def)
  have key: "hub_inv (snd (drop_part (fst t) key h'))" if "shrinks h h'" for h'
    using shrinks_inv [OF inv shrinks_trans [OF that drop_part_shrinks]] that by (simp add: shrinks_def)
  show ?thesis
  proof (cases "dict_get (th_pending h) key")
    case None
    then show ?thesis using key [OF shrinks_refl [OF core]] by (simp add: finish_part_def)
  next
    case (Some acc)
    let ?h0 = "h\<lparr>th_pending := dict_pop key (th_pending h)\<rparr>"
    let ?h1 = "?h0\<lparr>th_total_pending := max 0 (th_total_pending h - da_byte_count acc)\<rparr>"
    have c1: "hub_core ?h1"
      using hub_core_pop_pending [OF core, of key] pop_pending_total [OF core Some] by simp
    have le: "max 0 (th_total_pending h - da_byte_count acc) \<le> th_total_pending h"
      using pend_total_ge [OF hub_coreD(2) [OF core] Some] acc_ok_nonneg [OF pend_get_ok [OF hub_coreD(2) [OF core] Some]]
      by simp
    have s1: "shrinks h ?h1" "shrinks h (fanout_delta_frame t key s ?h1)" for s
      using c1 le by (simp_all add: shrinks_def fanout_delta_core)
    have "da_byte_count acc \<noteq> 0" using pending_nonzero [OF core Some] .
    then show ?thesis
      using key [OF s1(1)] key [OF s1(2)] unfolding finish_part_def Let_def case_prod_unfold by (simp add: Some)
  qed
qed

lemma deleted_sid_inv: "hub_inv h \<Longrightarrow> hub_inv (snd (is_deleted_sid n sid h))"
  using length_dict_pop [of sid "th_deleted_sids h"]
  by (auto simp: is_deleted_sid_def hub_inv_def core_defs split: option.splits)

lemma remember_nontext_inv: "hub_inv h \<Longrightarrow> hub_inv (remember_nontext n key h)"
  using prune_bounded_wf prune_bounded_length
  by (auto simp: remember_nontext_def hub_inv_def core_defs)

lemma on_part_updated_inv: "hub_inv h \<Longrightarrow> hub_inv (on_part_updated t props h)"
  using deleted_sid_inv [of h "fst t"]
  by (auto simp: on_part_updated_def Let_def case_prod_unfold intro!: remember_nontext_inv start_part_inv finish_part_inv
      split: json.splits option.splits bool.splits)

lemma on_part_delta_accept_inv:
  assumes inv: "hub_inv h" and live: "dict_get (th_live_parts h) key = Some live" and ne: "delta \<noteq> []"
    and r: "reserve t live (int (utf8_len delta)) key h = (b, h2)"
  shows "hub_inv (if b then accept_delta t key delta live h2 else h2)"
proof -
  have core: "hub_core h" using inv by (simp add: hub_inv_def)
  note s = reserve_spec [OF core r]
  have "hub_inv h2" by (rule shrinks_inv [OF inv s(1)])
  then show ?thesis using s live ne by (auto intro: accept_delta_inv)
qed

lemma jstr_ne_Some: "jstr_ne v = Some s \<Longrightarrow> s \<noteq> []"
  by (auto simp: jstr_ne_def split: json.splits if_splits)

lemma on_part_delta_inv:
  assumes "hub_inv h"
  shows "hub_inv (on_part_delta t props h)"
proof -
  have "hub_inv (case reserve t live (int (utf8_len d)) key h1 of
      (True, h2) \<Rightarrow> accept_delta t key d live h2 | (False, h2) \<Rightarrow> h2)"
    if "hub_inv h1" "dict_get (th_live_parts h1) key = Some live" "jstr_ne (jget props ''delta'') = Some d" for h1 key live d
    using on_part_delta_accept_inv [OF that(1,2) jstr_ne_Some [OF that(3)], of t]
    by (auto split: prod.splits bool.splits)
  moreover have "hub_inv (h1\<lparr>th_metrics := m\<rparr>)" if "hub_inv h1" for h1 m
    using that by (simp add: hub_inv_def core_defs)
  moreover have "hub_inv (snd (is_deleted_sid (fst t) sid h))" for sid by (rule deleted_sid_inv [OF assms])
  ultimately show ?thesis
    using assms unfolding on_part_delta_def Let_def case_prod_unfold
    by (simp split: option.splits bool.splits)
qed

lemma on_part_removed_inv: "hub_inv h \<Longrightarrow> hub_inv (on_part_removed t sid mid pid h)"
  using deleted_sid_inv [of h "fst t" sid] shrinks_inv [OF _ drop_part_shrinks]
  by (auto simp: on_part_removed_def hub_inv_def split: prod.splits bool.splits)


text \<open>Retiring: the floors at zero never bite, the gauges lose exactly the retired bytes.\<close>

lemma foldl_floor_exact:
  assumes "\<And>p. p \<in> set ps \<Longrightarrow> 0 \<le> f (snd p)" and "dict_sum f ps \<le> tot"
  shows "foldl (\<lambda>tot (_, v). max 0 (tot - f v)) tot ps = tot - dict_sum f ps"
  using assms
proof (induction ps arbitrary: tot)
  case (Cons p ps)
  have nn: "0 \<le> dict_sum f ps" using Cons.prems(1) by (intro dict_sum_nonneg_in) simp
  have "max 0 (tot - f (snd p)) = tot - f (snd p)" using Cons.prems(2) nn by simp
  then show ?case using Cons.IH [of "tot - f (snd p)"] Cons.prems by (simp add: case_prod_unfold)
qed simp

lemma dict_sum_partition: "dict_sum f d = dict_sum f (filter (\<lambda>(k, _). P k) d) + dict_sum f (dict_drop_keys P d)"
  by (induction d) (auto simp: dict_drop_keys_def)

lemma foldl_floor_drop:
  assumes nn: "\<And>p. p \<in> set d \<Longrightarrow> 0 \<le> f (snd p)"
  shows "foldl (\<lambda>tot (_, v). max 0 (tot - f v)) (dict_sum f d) (filter (\<lambda>(k, _). P k) d) =
    dict_sum f (dict_drop_keys P d)"
proof -
  have "0 \<le> dict_sum f (dict_drop_keys P d)"
    using nn by (intro dict_sum_nonneg_in) (auto simp: dict_drop_keys_def)
  then show ?thesis
    using foldl_floor_exact [of "filter (\<lambda>(k, _). P k) d" f "dict_sum f d"] nn dict_sum_partition [of f d P]
    by auto
qed

lemma length_dict_drop_keys: "length (dict_drop_keys P d) \<le> length d"
  by (simp add: dict_drop_keys_def)

lemma dict_has_drop_keys [simp]: "dict_has (dict_drop_keys P d) k \<longleftrightarrow> \<not> P k \<and> dict_has d k"
  by (simp add: dict_has_get)

lemma retire_where_eq:
  assumes core: "hub_core h"
  shows "retire_where P h = h\<lparr>th_live_parts := dict_drop_keys P (th_live_parts h),
       th_total_live := dict_sum lp_byte_count (dict_drop_keys P (th_live_parts h)),
       th_pending := dict_drop_keys P (th_pending h),
       th_total_pending := dict_sum da_byte_count (dict_drop_keys P (th_pending h)),
       th_nontext := dict_drop_keys P (th_nontext h),
       th_disabled := dict_drop_keys P (th_disabled h),
       th_part_revisions := dict_drop_keys P (th_part_revisions h)\<rparr>"
proof -
  have "\<And>p. p \<in> set (th_live_parts h) \<Longrightarrow> 0 \<le> lp_byte_count (snd p)"
    using hub_coreD(1) [OF core] by (auto simp: live_core_def intro: part_ok_nonneg)
  moreover have "\<And>p. p \<in> set (th_pending h) \<Longrightarrow> 0 \<le> da_byte_count (snd p)"
    using hub_coreD(2) [OF core] by (auto simp: pend_core_def intro: acc_ok_nonneg)
  moreover have "th_total_live h = dict_sum lp_byte_count (th_live_parts h)"
    "th_total_pending h = dict_sum da_byte_count (th_pending h)"
    using core by (simp_all add: core_defs)
  ultimately show ?thesis
    using foldl_floor_drop [of "th_live_parts h" lp_byte_count P] foldl_floor_drop [of "th_pending h" da_byte_count P]
    by (simp add: retire_where_def)
qed

lemma retire_where_shrinks:
  assumes core: "hub_core h"
  shows "shrinks h (retire_where P h)"
proof -
  have len: "length (dict_drop_keys P d) \<le> m" if "length d \<le> m" for d :: "(part_key, int) dict" and m
    using that length_dict_drop_keys [of P d] by simp
  have "live_core (retire_where P h)" "pend_core (retire_where P h)"
    using core unfolding retire_where_eq [OF core] by (auto simp: core_defs dest: set_dict_drop_keys)
  moreover have "pend_live (retire_where P h)" "tomb_core (retire_where P h)" "misc_core (retire_where P h)"
    using core unfolding retire_where_eq [OF core] by (auto simp: core_defs len)
  moreover have "dict_sum lp_byte_count (dict_drop_keys P (th_live_parts h)) \<le> th_total_live h"
    using dict_sum_drop_keys_le [of "th_live_parts h" lp_byte_count P] hub_coreD(1) [OF core]
    by (auto simp: live_core_def intro: part_ok_nonneg)
  ultimately show ?thesis
    using core pend_core_sub [OF hub_coreD(2) [OF core], of P]
    by (simp add: shrinks_def hub_core_def retire_where_eq [OF core] length_dict_drop_keys)
qed

lemma shrinks_view:
  assumes "shrinks h h'" and "acc_view h'' = acc_view h'" and "revs_ok h''"
  shows "shrinks h h''"
  using assms hub_core_view [of h' h''] acc_viewD [OF assms(2)] by (simp add: shrinks_def)

lemma hub_core_upd [simp]:
  "hub_core (h\<lparr>th_retired_messages := r\<rparr>) \<longleftrightarrow> hub_core h"
  "hub_core (h\<lparr>th_metrics := m\<rparr>) \<longleftrightarrow> hub_core h"
  "hub_core (h\<lparr>th_replay := l\<rparr>) \<longleftrightarrow> hub_core h"
  "hub_core (h\<lparr>th_subs := s\<rparr>) \<longleftrightarrow> hub_core h"
  "hub_core (h\<lparr>th_subs_by_sid := b\<rparr>) \<longleftrightarrow> hub_core h"
  "hub_core (h\<lparr>th_events_tap := e\<rparr>) \<longleftrightarrow> hub_core h"
  by (simp_all add: core_defs)

lemma retire_message_shrinks: "hub_core h \<Longrightarrow> shrinks h (retire_message sid mid h)"
  using retire_where_shrinks [of h "\<lambda>k. fst k = sid \<and> fst (snd k) = mid"]
  by (simp add: retire_message_def Let_def shrinks_def)

lemma on_message_removed_inv: "hub_inv h \<Longrightarrow> hub_inv (on_message_removed t sid mid h)"
proof -
  assume inv: "hub_inv h"
  then have s: "shrinks h (retire_message sid mid h)" by (simp add: retire_message_shrinks hub_inv_def)
  have "revs_ok (on_message_removed t sid mid h)"
    using hub_core_revs [of "retire_message sid mid h"] s by (simp add: on_message_removed_def revs_ok_def shrinks_def)
  from shrinks_inv [OF inv shrinks_view [OF s _ this]] show ?thesis by (simp add: on_message_removed_def)
qed


text \<open>Updates of the small bounded maps keep the accounting.\<close>

lemma dict_wf_filter: "dict_wf d \<Longrightarrow> dict_wf (filter P d)"
  by (simp add: dict_wf_def distinct_map_filter_key)

lemma hub_core_small:
  assumes "hub_core h"
  shows "dict_wf s \<Longrightarrow> length s \<le> SESSION_STATUS_MAX \<Longrightarrow> hub_core (h\<lparr>th_session_status := s\<rparr>)"
    and "dict_wf d \<Longrightarrow> length d \<le> TOKEN_REMOVED_MESSAGES_MAX \<Longrightarrow> hub_core (h\<lparr>th_deleted_sids := d\<rparr>)"
    and "length q \<le> TOKEN_RESYNC_QUEUE_CAP \<Longrightarrow> hub_core (h\<lparr>th_pending_resyncs := q\<rparr>)"
  using assms by (simp_all add: core_defs)

lemma session_wf:
  assumes "hub_core h"
  shows "dict_wf (th_session_status h)" "length (th_session_status h) \<le> SESSION_STATUS_MAX"
    "dict_wf (th_deleted_sids h)" "length (th_deleted_sids h) \<le> TOKEN_REMOVED_MESSAGES_MAX"
  using hub_coreD(5) [OF assms] by (simp_all add: misc_core_def)

lemma retire_session_shrinks: "hub_core h \<Longrightarrow> shrinks h (retire_session sid h)"
  by (simp add: retire_session_def retire_where_shrinks)

lemma barrier_core [simp]: "hub_core (write_replay_barrier sid h) \<longleftrightarrow> hub_core h"
  by (simp add: write_replay_barrier_def)

lemma enqueue_core: "hub_core h \<Longrightarrow> hub_core (enqueue_session_resync sid r h)"
  by (simp add: enqueue_session_resync_def Let_def hub_core_small)

lemma shrinks_enqueue:
  assumes "shrinks h h'"
  shows "shrinks h (enqueue_session_resync sid r (write_replay_barrier sid' h'))"
proof -
  have "hub_core (enqueue_session_resync sid r (write_replay_barrier sid' h'))"
    using assms by (intro enqueue_core) (simp add: shrinks_def)
  moreover have "th_caps (enqueue_session_resync sid r g) = th_caps g"
    "th_total_live (enqueue_session_resync sid r g) = th_total_live g"
    "th_live_parts (enqueue_session_resync sid r g) = th_live_parts g"
    "th_total_pending (enqueue_session_resync sid r g) = th_total_pending g" for g
    by (simp_all add: enqueue_session_resync_def)
  ultimately show ?thesis using assms by (simp add: shrinks_def)
qed

lemma inv_of_shrinks: "hub_inv h \<Longrightarrow> (hub_core h \<Longrightarrow> shrinks h h') \<Longrightarrow> hub_inv h'"
  by (rule shrinks_inv [of h h']) (simp_all only: hub_inv_def simp_thms)

lemma on_session_status_inv:
  assumes inv: "hub_inv h"
  shows "hub_inv (on_session_status t sid status h)"
proof -
  have core: "hub_core h" using inv by (simp add: hub_inv_def)
  let ?h1 = "\<lambda>st. prune_session_status (h\<lparr>th_session_status := dict_move_to_end sid (dict_set sid st (th_session_status h))\<rparr>)"
  have c1: "hub_core (?h1 st)" for st
    using session_wf [OF core] by (simp add: prune_session_status_def hub_core_small [OF core] length_dict_cap)
  then have s1: "shrinks h (?h1 st)" for st by (simp add: shrinks_def prune_session_status_def)
  have "shrinks h (enqueue_session_resync sid RESYNC_SESSION_IDLE (write_replay_barrier sid (retire_session sid (?h1 st))))" for st
    by (intro shrinks_enqueue shrinks_trans [OF s1 retire_session_shrinks [OF c1]])
  with s1 show ?thesis
    using inv by (auto simp: on_session_status_def Let_def intro: shrinks_inv [OF inv] split: option.splits)
qed

lemma terminate_core [simp]: "hub_core (sub_terminate r i h) \<longleftrightarrow> hub_core h"
  by (simp add: sub_terminate_def split: option.splits)

lemma sub_put_core [simp]: "hub_core (sub_put w i h) \<longleftrightarrow> hub_core h"
  by (simp add: sub_put_def split: option.splits prod.splits)

lemma fold_core: "(\<And>x s. hub_core (g x s) \<longleftrightarrow> hub_core s) \<Longrightarrow> hub_core (fold g xs h) \<longleftrightarrow> hub_core h"
  by (rule fold_keeps)

lemma on_session_deleted_inv:
  assumes inv: "hub_inv h"
  shows "hub_inv (on_session_deleted t sid h)"
proof (rule inv_of_shrinks [OF inv])
  assume core: "hub_core h"
  let ?h1 = "retire_session sid h"
  let ?d = "prune_deleted_sids (fst t) (dict_move_to_end sid (dict_set sid (fst t) (th_deleted_sids h)))"
  have s1: "shrinks h ?h1" by (rule retire_session_shrinks [OF core])
  then have c1: "hub_core ?h1" by (simp add: shrinks_def)
  have "length (dict_pop sid (th_session_status ?h1)) \<le> SESSION_STATUS_MAX"
    using length_dict_pop [of sid "th_session_status ?h1"] session_wf [OF c1] by simp
  then have c2: "hub_core (?h1\<lparr>th_session_status := dict_pop sid (th_session_status ?h1)\<rparr>)"
    using session_wf [OF c1] by (intro hub_core_small [OF c1]) simp_all
  have dwf: "dict_wf ?d"
    using session_wf [OF core] by (simp add: prune_deleted_sids_def dict_wf_filter)
  have "length ?d \<le> TOKEN_REMOVED_MESSAGES_MAX" by (simp add: prune_deleted_sids_def length_dict_cap)
  moreover have "hub_core (?h1\<lparr>th_session_status := dict_pop sid (th_session_status ?h1), th_replay := l,
      th_retired_messages := r\<rparr>)" for l r
    using c2 by simp
  ultimately have c3: "hub_core (?h1\<lparr>th_session_status := dict_pop sid (th_session_status ?h1), th_replay := l,
      th_retired_messages := r, th_deleted_sids := ?d\<rparr>)" for l r
    using hub_core_small(2) [OF _ dwf] by blast
  have del: "th_deleted_sids (retire_session sid h) = th_deleted_sids h"
    by (simp add: retire_session_def retire_where_def)
  have "acc_view (fold (sub_terminate r) xs g) = acc_view g" for r xs g by (rule fold_keeps) simp
  note v = acc_viewD [OF this]
  have f: "hub_core (fold (sub_terminate r) xs g) \<longleftrightarrow> hub_core g" for r xs g
    by (rule fold_core) simp
  show "shrinks h (on_session_deleted t sid h)"
    using s1 c3 by (simp add: on_session_deleted_def Let_def shrinks_def v f remember_deleted_sid_def
        write_replay_barrier_def del)
qed


lemma ttl_retire_core:
  assumes core: "hub_core h" and live: "dict_get (th_live_parts h) key = Some lp"
  shows "shrinks h (ttl_retire (key, lp) h)"
    and "th_live_parts (ttl_retire (key, lp) h) = dict_pop key (th_live_parts h)"
proof -
  let ?h4 = "h\<lparr>th_pending := dict_pop key (th_pending h),
                 th_total_pending := dict_sum da_byte_count (dict_pop key (th_pending h)),
                 th_live_parts := dict_pop key (th_live_parts h),
                 th_total_live := dict_sum lp_byte_count (dict_pop key (th_live_parts h)),
                 th_nontext := dict_pop key (th_nontext h),
                 th_part_revisions := dict_pop key (th_part_revisions h)\<rparr>"
  have l: "max 0 (th_total_live h - lp_byte_count lp) = dict_sum lp_byte_count (dict_pop key (th_live_parts h))"
    using live core live_total_ge [OF hub_coreD(1) [OF core] live] by (simp add: core_defs dict_sum_pop)
  have none: "th_total_pending h = dict_sum da_byte_count (th_pending h)" using core by (simp add: core_defs)
  have eq: "ttl_retire (key, lp) h = ?h4"
    using pop_pending_total [OF core, of key] l none
    by (cases "dict_get (th_pending h) key")
      (simp_all add: ttl_retire_def Let_def discard_nontext_def dict_pop_None)
  have len: "length (dict_pop key d) \<le> m" if "length d \<le> m" for d :: "(part_key, int) dict" and m
    using that length_dict_pop [of key d] by simp
  have "live_core ?h4" "pend_core ?h4" "misc_core ?h4" "pend_live ?h4" "tomb_core ?h4"
    using core len by (auto simp: core_defs dest: set_dict_pop)
  then show "shrinks h (ttl_retire (key, lp) h)"
    using core pop_sum_le [OF hub_coreD(1) [OF core], of key] pend_core_sub [OF hub_coreD(2) [OF core], of "\<lambda>x. x = key"]
    by (simp add: eq shrinks_def hub_core_def length_dict_pop flip: dict_pop_drop_keys)
  show "th_live_parts (ttl_retire (key, lp) h) = dict_pop key (th_live_parts h)" by (simp add: eq)
qed

lemma ttl_fold_shrinks:
  assumes "hub_core h" and "distinct (map fst ps)"
    and "\<And>p. p \<in> set ps \<Longrightarrow> dict_get (th_live_parts h) (fst p) = Some (snd p)"
  shows "shrinks h (fold ttl_retire ps h)"
  using assms
proof (induction ps arbitrary: h)
  case (Cons p ps)
  have p: "dict_get (th_live_parts h) (fst p) = Some (snd p)" using Cons.prems(3) by simp
  note r = ttl_retire_core [OF Cons.prems(1) p, simplified]
  have "shrinks (ttl_retire p h) (fold ttl_retire ps (ttl_retire p h))"
  proof (rule Cons.IH)
    show "hub_core (ttl_retire p h)" using r(1) by (simp add: shrinks_def)
    show "distinct (map fst ps)" using Cons.prems(2) by simp
    show "dict_get (th_live_parts (ttl_retire p h)) (fst q) = Some (snd q)" if "q \<in> set ps" for q
    proof -
      have "fst q \<noteq> fst p" using Cons.prems(2) that by (auto simp: image_iff)
      then show ?thesis using Cons.prems(3) [of q] that by (simp add: r(2))
    qed
  qed
  with r(1) show ?case by (auto intro: shrinks_trans)
qed (simp add: shrinks_refl)

lemma ttl_sweep_inv: "hub_inv h \<Longrightarrow> hub_inv (snd (ttl_sweep n h))"
proof (rule inv_of_shrinks, assumption)
  assume core: "hub_core h"
  have wf: "dict_wf (th_live_parts h)" using core by (simp add: core_defs)
  then have "distinct (map fst (filter (ttl_expired n h) (th_live_parts h)))"
    by (simp add: dict_wf_def distinct_map_filter_key)
  moreover have "dict_get (th_live_parts h) (fst p) = Some (snd p)"
    if "p \<in> set (filter (ttl_expired n h) (th_live_parts h))" for p
    using that dict_in_set_get [OF wf, of "fst p" "snd p"] by simp
  ultimately show "shrinks h (snd (ttl_sweep n h))"
    unfolding ttl_sweep_def Let_def snd_conv by (rule ttl_fold_shrinks [OF core])
qed

lemma fanout_resync_core [simp]: "hub_core (fanout_resync sid r h) \<longleftrightarrow> hub_core h"
  by (simp add: fanout_resync_def fold_core)

lemma on_upstream_reconnect_inv:
  assumes inv: "hub_inv h"
  shows "hub_inv (on_upstream_reconnect h)"
proof -
  let ?h1 = "h\<lparr>th_live_parts := [], th_nontext := [], th_disabled := [], th_pending := [],
                  th_total_live := 0, th_total_pending := 0, th_session_status := [],
                  th_pending_resyncs := [], th_retired_messages := [], th_deleted_sids := []\<rparr>"
  let ?f = "fold (\<lambda>sid. fanout_resync sid RESYNC_RECONNECT_NO_REPLAY) (dict_keys (th_subs_by_sid h))"
  have c1: "hub_core ?h1" and b: "caps_ok (th_caps h)" using inv by (simp_all add: hub_inv_def core_defs dict_has_get)
  have "hub_core (?f ?h1)" using c1 by (simp add: fold_core)
  moreover have "acc_view (?f ?h1) = acc_view ?h1" by (rule fold_keeps) simp
  ultimately show ?thesis
    using b acc_viewD(1,3,7,8) [of "?f ?h1" ?h1]
    by (simp add: on_upstream_reconnect_def Let_def hub_inv_def caps_ok_def)
qed

lemma fanout_heartbeat_core [simp]: "hub_core (fanout_heartbeat h) \<longleftrightarrow> hub_core h"
  unfolding fanout_heartbeat_def by (intro fold_core) (simp add: case_prod_unfold fold_core)

lemma flush_loop_tick_inv:
  assumes inv: "hub_inv h"
  shows "hub_inv (snd (flush_loop_tick t ticks h))"
proof -
  have f: "hub_inv (flush t h)" using inv by (intro flush_inv) (simp_all add: hub_inv_alt)
  have hb: "hub_inv (fanout_heartbeat g)" if "hub_inv g" for g
    using that by (simp add: hub_inv_def)
  show ?thesis
    using f hb [OF f] ttl_sweep_inv [OF f] hb [OF ttl_sweep_inv [OF f]]
    by (simp add: flush_loop_tick_def Let_def)
qed


section \<open>Runs of the hub\<close>

text \<open>
  What can happen to a hub: the upstream events that the global hub dispatches to it, a round of
  the flush loop, and the connection side (a subscriber object appears and is attached, its
  writer takes and acknowledges one item, it is detached).
\<close>

datatype hub_op =
    PartUpdated clock "(string \<times> json) list"
  | PartDelta clock "(string \<times> json) list"
  | PartRemoved clock string string string
  | MessageRemoved clock string string
  | SessionStatus clock string json
  | SessionDeleted clock string
  | UpstreamReconnect
  | FlushTick clock "nat \<times> nat"
  | Attach string nat "wire_frame token_subscriber"
  | WriterTurn nat
  | Detach string nat

definition writer_turn :: "nat \<Rightarrow> token_hub \<Rightarrow> token_hub" where
  "writer_turn i h =
     (case dict_get (th_subs h) i of
        None \<Rightarrow> h
      | Some s \<Rightarrow>
          (case tok_get s of
             None \<Rightarrow> h
           | Some (x, s') \<Rightarrow> h\<lparr>th_subs := dict_set i (tok_ack (wire_len (th_dumps h)) x s') (th_subs h)\<rparr>))"

fun hub_step :: "hub_op \<Rightarrow> token_hub \<Rightarrow> token_hub" where
  "hub_step (PartUpdated t props) h = on_part_updated t props h"
| "hub_step (PartDelta t props) h = on_part_delta t props h"
| "hub_step (PartRemoved t sid mid pid) h = on_part_removed t sid mid pid h"
| "hub_step (MessageRemoved t sid mid) h = on_message_removed t sid mid h"
| "hub_step (SessionStatus t sid st) h = on_session_status t sid st h"
| "hub_step (SessionDeleted t sid) h = on_session_deleted t sid h"
| "hub_step UpstreamReconnect h = on_upstream_reconnect h"
| "hub_step (FlushTick t ticks) h = snd (flush_loop_tick t ticks h)"
| "hub_step (Attach sid i s) h = attach_subscriber sid i (h\<lparr>th_subs := dict_set i s (th_subs h)\<rparr>)"
| "hub_step (WriterTurn i) h = writer_turn i h"
| "hub_step (Detach sid i) h = detach_subscriber sid i h"

lemma hub_inv_conn [simp]:
  "hub_inv (h\<lparr>th_subs := s\<rparr>) \<longleftrightarrow> hub_inv h"
  "hub_inv (h\<lparr>th_subs_by_sid := b\<rparr>) \<longleftrightarrow> hub_inv h"
  by (simp_all add: hub_inv_def)

lemma hub_step_inv:
  assumes "hub_inv h"
  shows "hub_inv (hub_step x h)"
  using assms
  by (cases x)
    (simp_all add: on_part_updated_inv on_part_delta_inv on_part_removed_inv on_message_removed_inv
      on_session_status_inv on_session_deleted_inv on_upstream_reconnect_inv flush_loop_tick_inv
      attach_subscriber_def detach_subscriber_def writer_turn_def Let_def split: option.splits prod.splits)

interpretation hub_sys: invariant_system hub_step "\<lambda>_ _. True" hub_inv
  by unfold_locales (rule hub_step_inv)

lemma new_token_hub_inv: "caps_ok caps \<Longrightarrow> hub_inv (new_token_hub caps dumps l)"
  by (simp add: new_token_hub_def hub_inv_def core_defs caps_ok_def dict_has_get)

lemmas hub_run_inv = hub_sys.inv_run [OF _ ok_run_True]

text \<open>The budgets are fixed at start-up.\<close>

lemma caps_reserve_loop [simp]: "th_caps (snd (reserve_loop t n key h)) = th_caps h"
proof (induction t n key h rule: reserve_loop.induct)
  case (1 t n key h)
  then show ?case
    by (subst reserve_loop.simps) (auto simp: truncate_part_for_all_def split: option.splits)
qed

lemma caps_count_loop [simp]: "th_caps (start_count_loop t h) = th_caps h"
proof (induction t h rule: start_count_loop.induct)
  case (1 t h)
  then show ?case by (subst start_count_loop.simps) (auto split: option.splits)
qed

lemma caps_bytes_loop [simp]: "th_caps (start_bytes_loop t key h) = th_caps h"
proof (induction t key h rule: start_bytes_loop.induct)
  case (1 t key h)
  then show ?case by (subst start_bytes_loop.simps) (auto split: option.splits)
qed

lemma caps_ingest [simp]:
  "th_caps (start_part t key seed h) = th_caps h"
  "th_caps (finish_part t key h) = th_caps h"
  "th_caps (snd (reserve t live n key h)) = th_caps h"
  "th_caps (check_pending_budget t key h) = th_caps h"
  "th_caps (snd (is_deleted_sid n sid h)) = th_caps h"
  "th_caps (remember_nontext n key h) = th_caps h"
  by (simp_all add: start_part_def finish_part_def reserve_def check_pending_budget_def is_deleted_sid_def
      remember_nontext_def truncate_part_for_all_def Let_def split_beta split: option.splits)

lemma caps_accept [simp]: "th_caps (accept_delta t key d live h) = th_caps h"
  by (simp add: accept_delta_def Let_def split_beta)

lemma caps_retire [simp]: "th_caps (ttl_retire p h) = th_caps h" "th_caps (retire_where P h) = th_caps h"
  by (simp_all add: ttl_retire_def retire_where_def discard_nontext_def Let_def split: option.splits)

lemma caps_conn [simp]: "th_caps (fold (sub_terminate r) xs h) = th_caps h"
  using acc_viewD(1) [OF acc_view_sub_terminate] by (rule fold_keeps)

lemma caps_part_updated [simp]: "th_caps (on_part_updated t props h) = th_caps h"
  by (auto simp: on_part_updated_def Let_def case_prod_unfold split: json.splits option.splits bool.splits)

lemma caps_part_delta [simp]: "th_caps (on_part_delta t props h) = th_caps h"
  unfolding on_part_delta_def Let_def case_prod_unfold by (simp split: option.splits bool.splits)

lemma caps_step: "th_caps (hub_step x h) = th_caps h"
proof (cases x)
  case (FlushTick t ticks)
  have "th_caps (snd (ttl_sweep n g)) = th_caps g" for n g
    by (simp add: ttl_sweep_def Let_def fold_keeps [of th_caps])
  then show ?thesis by (simp add: FlushTick flush_loop_tick_def Let_def)
next
  case UpstreamReconnect
  then show ?thesis by (simp add: on_upstream_reconnect_def Let_def fold_keeps [of th_caps])
next
  case (PartRemoved t sid mid pid)
  then show ?thesis by (simp add: on_part_removed_def case_prod_unfold split: bool.splits)
qed (simp_all add: on_message_removed_def retire_message_def retire_session_def on_session_status_def
    on_session_deleted_def prune_session_status_def enqueue_session_resync_def remember_deleted_sid_def
    attach_subscriber_def detach_subscriber_def writer_turn_def Let_def split: option.splits prod.splits)

lemma hub_run_caps: "th_caps (fold hub_step ops h) = th_caps h"
  by (rule fold_keeps) (rule caps_step)


section \<open>The memory guarantee\<close>

definition demo_token_log :: "frame replay_log" where
  "demo_token_log = \<lparr>rl_epoch = ''0123456789abcdef'', rl_max_count = 100, rl_max_bytes = 1000, rl_ttl_s = 30,
     rl_total_bytes = 0, rl_outcomes = [], rl_size_of = (\<lambda>_. Some 1), rl_domains = [],
     rl_order = 0, rl_closed = False\<rparr>"

definition demo_hub :: token_hub where
  "demo_hub = new_token_hub default_token_caps (\<lambda>_. ''{}'') demo_token_log"

definition demo_start :: hub_op where
  "demo_start = PartUpdated (0, 0) [(''part'', JObj [(''sessionID'', JStr ''s''), (''messageID'', JStr ''m''),
     (''id'', JStr ''p''), (''type'', JStr ''text''), (''text'', JStr ''''), (''time'', JObj [])])]"

definition demo_delta :: "string \<Rightarrow> hub_op" where
  "demo_delta s = PartDelta (1, 1) [(''field'', JStr ''text''), (''sessionID'', JStr ''s''), (''messageID'', JStr ''m''),
     (''partID'', JStr ''p''), (''delta'', JStr s)]"

lemma budget_facts:
  assumes "caps_ok caps" and "h = fold hub_step ops (new_token_hub caps dumps l)"
  shows "th_total_live h = dict_sum (\<lambda>lp. int (utf8_len (concat (lp_chunks lp)))) (th_live_parts h)"
    and "th_total_pending h = dict_sum (\<lambda>acc. int (utf8_len (concat (da_chunks acc)))) (th_pending h)"
    and "th_total_live h \<le> cap_liveparts_max_bytes caps" and "th_total_pending h \<le> TOKEN_PENDING_MAX_BYTES"
    and "length (th_live_parts h) \<le> cap_live_parts_max caps"
    and "dict_get (th_live_parts h) key = Some lp \<Longrightarrow>
      int (utf8_len (concat (lp_chunks lp))) \<le> cap_part_max_bytes caps \<and> \<not> dict_has (th_disabled h) key"
    and "dict_has (th_pending h) key \<Longrightarrow> dict_has (th_live_parts h) key"
    and "length (th_disabled h) \<le> TOKEN_DISABLED_MAX \<and> length (th_nontext h) \<le> TOKEN_DISABLED_MAX \<and>
      length (th_part_revisions h) \<le> TOKEN_DISABLED_MAX \<and> length (th_session_status h) \<le> SESSION_STATUS_MAX \<and>
      length (th_deleted_sids h) \<le> TOKEN_REMOVED_MESSAGES_MAX \<and>
      length (th_pending_resyncs h) \<le> TOKEN_RESYNC_QUEUE_CAP"
proof -
  have caps: "th_caps h = caps" unfolding assms(2) by (simp add: hub_run_caps) (simp add: new_token_hub_def)
  have inv: "hub_inv h" unfolding assms(2) by (rule hub_run_inv [OF new_token_hub_inv [OF assms(1)]])
  then have core: "hub_core h" by (simp add: hub_inv_def)
  note lc = hub_coreD(1) [OF core] and pc = hub_coreD(2) [OF core]
  show "th_total_live h = dict_sum (\<lambda>lp. int (utf8_len (concat (lp_chunks lp)))) (th_live_parts h)"
    using lc by (auto simp: live_core_def part_ok_def intro: dict_sum_cong)
  show "th_total_pending h = dict_sum (\<lambda>acc. int (utf8_len (concat (da_chunks acc)))) (th_pending h)"
    using pc by (auto simp: pend_core_def acc_ok_def intro: dict_sum_cong)
  show "th_total_live h \<le> cap_liveparts_max_bytes caps" "th_total_pending h \<le> TOKEN_PENDING_MAX_BYTES"
    "length (th_live_parts h) \<le> cap_live_parts_max caps"
    using inv by (simp_all add: hub_inv_def caps)
  show "int (utf8_len (concat (lp_chunks lp))) \<le> cap_part_max_bytes caps \<and> \<not> dict_has (th_disabled h) key"
    if "dict_get (th_live_parts h) key = Some lp"
  proof -
    have "part_ok (cap_part_max_bytes (th_caps h)) lp"
      using lc dict_get_in_set [OF that] unfolding live_core_def by force
    moreover have "\<not> dict_has (th_disabled h) key"
      using live_not_disabled [OF core] that by (simp add: dict_has_get)
    ultimately show ?thesis by (simp add: part_ok_def caps)
  qed
  show "dict_has (th_live_parts h) key" if has: "dict_has (th_pending h) key"
  proof -
    obtain acc where "dict_get (th_pending h) key = Some acc" using has by (auto simp: dict_has_get)
    then show ?thesis using hub_coreD(3) [OF core] unfolding pend_live_def by blast
  qed
  show "length (th_disabled h) \<le> TOKEN_DISABLED_MAX \<and> length (th_nontext h) \<le> TOKEN_DISABLED_MAX \<and>
      length (th_part_revisions h) \<le> TOKEN_DISABLED_MAX \<and> length (th_session_status h) \<le> SESSION_STATUS_MAX \<and>
      length (th_deleted_sids h) \<le> TOKEN_REMOVED_MESSAGES_MAX \<and>
      length (th_pending_resyncs h) \<le> TOKEN_RESYNC_QUEUE_CAP"
    using hub_coreD(4,5) [OF core] by (simp add: tomb_core_def misc_core_def)
qed

text \<open>
  C35. The memory budgets of the token hub hold after any sequence of upstream events, flush
  rounds and connection events, from a new hub on: the two gauges are exactly the UTF-8 sizes of
  the texts they stand for and stay within the live and pending budgets, no part exceeds the
  per-part cap, the number of live parts and of remembered keys stays within its cap, pending text
  always belongs to a live part, and a disabled part is never live.
\<close>

theorem hub_budgets:
  assumes "caps_ok caps" and "h = fold hub_step ops (new_token_hub caps dumps l)"
  shows "th_total_live h = dict_sum (\<lambda>lp. int (utf8_len (concat (lp_chunks lp)))) (th_live_parts h) \<and>
    th_total_pending h = dict_sum (\<lambda>acc. int (utf8_len (concat (da_chunks acc)))) (th_pending h) \<and>
    th_total_live h \<le> cap_liveparts_max_bytes caps \<and> th_total_pending h \<le> TOKEN_PENDING_MAX_BYTES \<and>
    length (th_live_parts h) \<le> cap_live_parts_max caps \<and>
    (\<forall>key lp. dict_get (th_live_parts h) key = Some lp \<longrightarrow>
      int (utf8_len (concat (lp_chunks lp))) \<le> cap_part_max_bytes caps \<and> \<not> dict_has (th_disabled h) key) \<and>
    (\<forall>key. dict_has (th_pending h) key \<longrightarrow> dict_has (th_live_parts h) key) \<and>
    length (th_disabled h) \<le> TOKEN_DISABLED_MAX \<and> length (th_nontext h) \<le> TOKEN_DISABLED_MAX \<and>
    length (th_part_revisions h) \<le> TOKEN_DISABLED_MAX \<and> length (th_session_status h) \<le> SESSION_STATUS_MAX \<and>
    length (th_deleted_sids h) \<le> TOKEN_REMOVED_MESSAGES_MAX \<and>
    length (th_pending_resyncs h) \<le> TOKEN_RESYNC_QUEUE_CAP"
  by (intro conjI allI impI) (use budget_facts [OF assms] in blast)+

theorem hub_budgets_witness:
  "th_total_live (fold hub_step [demo_start, demo_delta ''ab'', demo_delta ''c''] demo_hub) = 3 \<and>
   th_total_live (fold hub_step [demo_start, demo_delta ''ab'', demo_delta ''c''] demo_hub) \<le> 4194304"
proof -
  have "caps_ok default_token_caps" by code_simp
  from hub_budgets [OF this refl, of "[demo_start, demo_delta ''ab'', demo_delta ''c'']" "\<lambda>_. ''{}''" demo_token_log]
  have "th_total_live (fold hub_step [demo_start, demo_delta ''ab'', demo_delta ''c''] demo_hub)
      \<le> cap_liveparts_max_bytes default_token_caps" unfolding demo_hub_def by blast
  moreover have "cap_liveparts_max_bytes default_token_caps = 4194304" by code_simp
  moreover have "th_total_live (fold hub_step [demo_start, demo_delta ''ab'', demo_delta ''c''] demo_hub) = 3"
    by code_simp
  ultimately show ?thesis by simp
qed

end
