(* ===== verification/Token_Hub_Text.thy ===== *)
theory Token_Hub_Text
  imports Token_Hub_Invariant
begin

text \<open>
  The text of a part: what the hub accepts is what it publishes. The published text of a part is
  read off the abstract history of its session's replay domain; a step \<open>emits\<close> text when it
  extends that history, and it \<open>conserves\<close> a part when published and pending text together grow
  by exactly the accepted delta. Both compose along the calls of a handler.
\<close>

section \<open>Published and pending text\<close>

definition frame_text :: "part_key \<Rightarrow> frame \<Rightarrow> string" where
  "frame_text key f =
     (case fr_payload f of
        JObj d \<Rightarrow>
          if fr_event f = Some ''message.part.delta'' \<and> jget d ''sessionID'' = JStr (fst key) \<and>
             jget d ''messageID'' = JStr (fst (snd key)) \<and> jget d ''partID'' = JStr (snd (snd key))
          then (case jget d ''text'' of JStr s \<Rightarrow> s | _ \<Rightarrow> [])
          else []
      | _ \<Rightarrow> [])"

definition published :: "part_key \<Rightarrow> frame history \<Rightarrow> string" where
  "published key H = concat (map (frame_text key) (h_frames H (token_domain (fst key))))"

definition pending_text :: "part_key \<Rightarrow> token_hub \<Rightarrow> string" where
  "pending_text key h = concat (da_chunks (dict_get_or (th_pending h) key new_delta_acc))"

definition live_text :: "part_key \<Rightarrow> token_hub \<Rightarrow> string" where
  "live_text key h = (case dict_get (th_live_parts h) key of None \<Rightarrow> [] | Some lp \<Rightarrow> concat (lp_chunks lp))"

text \<open>An open log whose size function accepts every frame, as the application configures it.\<close>

definition serving :: "frame history \<Rightarrow> bool" where
  "serving H \<longleftrightarrow> \<not> h_closed H \<and> (\<forall>f. h_size_of H f \<noteq> None)"

definition emits :: "part_key \<Rightarrow> string \<Rightarrow> token_hub \<Rightarrow> token_hub \<Rightarrow> bool" where
  "emits key s h h' \<longleftrightarrow>
     (\<forall>H. rl_rel (th_replay h) H \<and> serving H \<longrightarrow>
        (\<exists>H'. rl_rel (th_replay h') H' \<and> serving H' \<and> published key H' = published key H @ s))"

definition conserves :: "part_key \<Rightarrow> string \<Rightarrow> token_hub \<Rightarrow> token_hub \<Rightarrow> bool" where
  "conserves key s h h' \<longleftrightarrow> live_text key h' = live_text key h @ s \<and>
     (\<exists>e. emits key e h h' \<and> e @ pending_text key h' = pending_text key h @ s)"

lemma frame_text_simps [simp]:
  "frame_text key (delta_frame key' s r q) = (if key = key' then s else [])"
  "frame_text key (resync_frame sid reason q) = []"
  "frame_text key (message_removed_frame sid mid q) = []"
  by (auto simp: frame_text_def delta_frame_def resync_frame_def message_removed_frame_def jget_def
      split: prod.splits option.splits)

lemma emits_same: "th_replay h' = th_replay h \<Longrightarrow> emits key [] h h'"
  by (auto simp: emits_def)

lemma emits_trans: "emits key a h h1 \<Longrightarrow> emits key b h1 h2 \<Longrightarrow> emits key (a @ b) h h2"
  unfolding emits_def by (metis append.assoc)

lemma conservesI:
  "emits key e h h' \<Longrightarrow> e @ pending_text key h' = pending_text key h @ s \<Longrightarrow>
     live_text key h' = live_text key h @ s \<Longrightarrow> conserves key s h h'"
  unfolding conserves_def by blast

lemma conserves_trans:
  assumes "conserves key a h h1" and "conserves key b h1 h2"
  shows "conserves key (a @ b) h h2"
proof -
  obtain e1 e2 where "emits key e1 h h1" "e1 @ pending_text key h1 = pending_text key h @ a"
    "emits key e2 h1 h2" "e2 @ pending_text key h2 = pending_text key h1 @ b"
    using assms by (auto simp: conserves_def)
  then have "emits key (e1 @ e2) h h2" "(e1 @ e2) @ pending_text key h2 = pending_text key h @ a @ b"
    by (auto intro: emits_trans)
  then show ?thesis using assms unfolding conserves_def by (metis append.assoc)
qed

lemma conserves_trans0: "conserves key [] h h1 \<Longrightarrow> conserves key b h1 h2 \<Longrightarrow> conserves key b h h2"
  using conserves_trans [of key "[]"] by simp

lemma conserves_emits:
  assumes "emits key [] h h'" and "dict_get (th_pending h') key = dict_get (th_pending h) key"
    and "dict_get (th_live_parts h') key = dict_get (th_live_parts h) key"
  shows "conserves key [] h h'"
proof -
  have "pending_text key h' = pending_text key h" "live_text key h' = live_text key h"
    using assms(2,3) by (simp_all add: pending_text_def live_text_def dict_get_or_get)
  then show ?thesis using assms(1) unfolding conserves_def by force
qed

lemmas conserves_same = conserves_emits [OF emits_same]

lemma conserves_refl: "conserves key [] h h"
  by (rule conserves_same) simp_all

lemma conserves_view: "emits key [] h h' \<Longrightarrow> acc_view h' = acc_view h \<Longrightarrow> conserves key [] h h'"
  using acc_viewD [of h' h] by (intro conserves_emits) simp_all

section \<open>Publishing\<close>

lemma token_domain_inj [simp]: "token_domain a = token_domain b \<longleftrightarrow> a = b"
  by (simp add: token_domain_def)

lemma token_domain_ne [simp]: "token_domain a \<noteq> []" "[] \<noteq> token_domain a"
  by (simp_all add: token_domain_def)

text \<open>An operation of the log that leaves the frames of all domains alone.\<close>

lemma emits_op:
  assumes "th_replay h' = rl_step x (th_replay h)"
    and "\<And>H. serving H \<Longrightarrow> serving (h_step x H) \<and>
      h_frames (h_step x H) (token_domain (fst key)) = h_frames H (token_domain (fst key)) @ fs H"
    and "\<And>H. concat (map (frame_text key) (fs H)) = s"
  shows "emits key s h h'"
  unfolding emits_def
proof (intro allI impI)
  fix H assume H: "rl_rel (th_replay h) H \<and> serving H"
  then have "rl_rel (th_replay h') (h_step x H)" using rl_step_rel [of "th_replay h" H x] by (simp add: assms(1))
  then show "\<exists>H'. rl_rel (th_replay h') H' \<and> serving H' \<and> published key H' = published key H @ s"
    using assms(2) [of H] assms(3) [of H] H by (auto simp: published_def)
qed

lemma publish_replay:
  "th_replay (snd (publish_seq_frame t sid build kind h)) =
     rl_step (Op_Publish (token_domain sid) (\<lambda>q. Some (build q)) kind (snd t)) (th_replay h)"
  by (simp add: publish_seq_frame_def split_beta split: option.splits)

lemma publish_emits:
  assumes "\<And>q. frame_text key (build q) = s" and "fst key \<noteq> sid \<Longrightarrow> s = []"
  shows "emits key s h (snd (publish_seq_frame t sid build kind h))"
proof (rule emits_op [OF publish_replay, where fs = "\<lambda>H. if fst key = sid
    then [build (int (length (h_frames H (token_domain sid))) + 1)] else []"])
  fix H :: "frame history"
  assume "serving H"
  then show "serving (h_step (Op_Publish (token_domain sid) (\<lambda>q. Some (build q)) kind (snd t)) H) \<and>
      h_frames (h_step (Op_Publish (token_domain sid) (\<lambda>q. Some (build q)) kind (snd t)) H) (token_domain (fst key)) =
      h_frames H (token_domain (fst key)) @ (if fst key = sid
        then [build (int (length (h_frames H (token_domain sid))) + 1)] else [])"
    by (auto simp: serving_def h_publish_def h_push_def h_create_def)
qed (use assms in auto)

lemma replay_sub_put [simp]: "th_replay (sub_put w i h) = th_replay h"
  by (simp add: sub_put_def split: option.splits prod.splits)

lemma replay_sub_terminate [simp]: "th_replay (sub_terminate r i h) = th_replay h"
  by (simp add: sub_terminate_def split: option.splits)

lemma replay_deliver [simp]: "th_replay (snd (deliver_logged sid w h)) = th_replay h"
  by (simp add: deliver_logged_def fold_keeps [of th_replay])

lemma replay_fanout_resync [simp]: "th_replay (fanout_resync sid reason h) = th_replay h"
  by (simp add: fanout_resync_def fold_keeps [of th_replay])

lemma replay_tap [simp]: "th_replay (tap_events f h) = th_replay h"
  by (simp add: tap_events_def)

lemma replay_count [simp]: "th_replay (count_flushed n h) = th_replay h"
  by (simp add: count_flushed_def)

lemma emits_cong: "th_replay h1 = th_replay h \<Longrightarrow> th_replay h2 = th_replay h' \<Longrightarrow> emits key s h1 h2 = emits key s h h'"
  by (simp add: emits_def)

lemma fanout_delta_replay:
  "th_replay (fanout_delta_frame t key s h) =
     th_replay (snd (publish_seq_frame t (fst key)
       (\<lambda>q. delta_frame key s (Some (fst (next_part_revision key h))) (Some q)) FRAME_KIND_BUSINESS h))"
  by (simp add: fanout_delta_frame_def Let_def split_beta publish_seq_frame_def next_part_revision_def
      split: option.splits)

lemma fanout_delta_emits: "emits key (if key = key' then s else []) h (fanout_delta_frame t key' s h)"
proof -
  have "emits key (if key = key' then s else []) h (snd (publish_seq_frame t (fst key')
       (\<lambda>q. delta_frame key' s (Some (fst (next_part_revision key' h))) (Some q)) FRAME_KIND_BUSINESS h))"
    by (rule publish_emits) auto
  then show ?thesis by (simp add: emits_def fanout_delta_replay)
qed

lemma fanout_removed_emits: "emits key [] h (fanout_message_removed t sid mid h)"
proof -
  have "emits key [] h (snd (publish_seq_frame t sid (\<lambda>q. message_removed_frame sid mid (Some q)) FRAME_KIND_TOMBSTONE h))"
    by (rule publish_emits) auto
  moreover have "th_replay (fanout_message_removed t sid mid h) =
      th_replay (snd (publish_seq_frame t sid (\<lambda>q. message_removed_frame sid mid (Some q)) FRAME_KIND_TOMBSTONE h))"
    by (simp add: fanout_message_removed_def Let_def split_beta split: option.splits)
  ultimately show ?thesis by (simp add: emits_def)
qed

lemma barrier_emits: "emits key [] h (write_replay_barrier sid h)"
  by (rule emits_op [where x = "Op_Barrier (Some (token_domain sid))" and fs = "\<lambda>_. []"])
    (simp_all add: write_replay_barrier_def serving_def)

lemma invalidate_emits: "emits key [] h (h\<lparr>th_replay := snd (mark_invalidated (th_replay h) (token_domain sid))\<rparr>)"
  by (rule emits_op [where x = "Op_Invalidate (token_domain sid)" and fs = "\<lambda>_. []"])
    (simp_all add: serving_def h_create_def)

lemma replayable_emits: "emits key [] h (snd (fanout_replayable_resync t sid reason h))"
proof (cases "reason \<in> set REPLAYABLE_RESYNC_REASONS")
  case False
  then show ?thesis by (simp add: fanout_replayable_resync_def emits_same)
next
  case True
  obtain r h1 where p: "publish_seq_frame t sid (\<lambda>q. resync_frame sid reason (Some q)) FRAME_KIND_BUSINESS h = (r, h1)"
    by fastforce
  have e1: "emits key [] h h1"
    using publish_emits [of key "\<lambda>q. resync_frame sid reason (Some q)" "[]" sid h t FRAME_KIND_BUSINESS] by (simp add: p)
  show ?thesis
  proof (cases r)
    case (Some w)
    then show ?thesis
      using True p emits_trans [OF e1 emits_same, of "snd (deliver_logged sid w h1)"]
      by (simp add: fanout_replayable_resync_def)
  next
    case None
    let ?m = "(th_metrics h1)\<lparr>tm_seq_resync_failclosed_total := tm_seq_resync_failclosed_total (th_metrics h1) + 1\<rparr>"
    let ?h3 = "write_replay_barrier sid (h1\<lparr>th_metrics := ?m\<rparr>)"
    let ?h4 = "?h3\<lparr>th_replay := snd (mark_invalidated (th_replay ?h3) (token_domain sid))\<rparr>"
    have "emits key [] h1 (h1\<lparr>th_metrics := ?m\<rparr>)" by (rule emits_same) simp
    from emits_trans [OF e1 emits_trans [OF this emits_trans [OF barrier_emits invalidate_emits]]]
    have "emits key [] h ?h4" by simp
    moreover have "th_replay (fold (sub_terminate q) xs g) = th_replay g" for q xs g by (rule fold_keeps) simp
    ultimately show ?thesis
      using True None p by (simp add: fanout_replayable_resync_def Let_def emits_def)
  qed
qed


section \<open>Flushing\<close>

lemma tap_replay_view: "th_replay (if b then tap_events f h else h) = th_replay h"
  "acc_view (if b then tap_events f h else h) = acc_view h"
  by simp_all

lemma flush_key_conserves:
  assumes pc: "pend_core h"
  shows "conserves key [] h (flush_key tap t k h)"
proof (cases "dict_get (th_pending h) k")
  case None
  then show ?thesis by (simp add: flush_key_def conserves_refl)
next
  case (Some acc)
  show ?thesis
  proof (cases "da_chunks acc = []")
    case True
    then show ?thesis using Some by (simp add: flush_key_eq [OF pc] conserves_refl)
  next
    case False
    let ?h1 = "h\<lparr>th_pending := dict_set k drained (th_pending h), th_total_pending := th_total_pending h - da_byte_count acc\<rparr>"
    let ?h2 = "fanout_delta_frame t k (concat (da_chunks acc)) ?h1"
    let ?f = "flush_key tap t k h"
    have eq: "?f = (if tap \<and> th_events_tap ?h2 \<noteq> [] then tap_events (events_token_frame k (concat (da_chunks acc))) ?h2 else ?h2)"
      using Some False by (simp add: flush_key_eq [OF pc] Let_def)
    have rep: "th_replay ?f = th_replay ?h2" and lp: "th_live_parts ?f = th_live_parts h"
      and pd: "th_pending ?f = dict_set k drained (th_pending h)"
      unfolding eq by simp_all
    have "emits key (if key = k then concat (da_chunks acc) else []) h ?f"
      using fanout_delta_emits [of key k "concat (da_chunks acc)" ?h1 t] by (simp add: emits_def rep)
    moreover have "(if key = k then concat (da_chunks acc) else []) @ pending_text key ?f = pending_text key h"
      using Some by (simp add: pending_text_def pd dict_get_or_get)
    moreover have "live_text key ?f = live_text key h" by (simp add: live_text_def lp)
    ultimately show ?thesis unfolding conserves_def by auto
  qed
qed

lemma flush_keys_conserves: "pend_core h \<Longrightarrow> conserves key [] h (fold (flush_key tap t) ks h)"
proof (induction ks arbitrary: h)
  case (Cons k ks)
  show ?case
    using conserves_trans0 [OF flush_key_conserves [OF Cons.prems] Cons.IH [OF flush_key_pending(2) [OF Cons.prems]]]
    by simp
qed (simp add: conserves_refl)

lemma dict_get_filter:
  "dict_wf d \<Longrightarrow> dict_get (filter P d) k =
     (case dict_get d k of None \<Rightarrow> None | Some v \<Rightarrow> if P (k, v) then Some v else None)"
proof (induction d)
  case (Cons p d)
  then have "fst p \<notin> fst ` set d" and wf: "dict_wf d" by (simp_all add: dict_wf_def)
  then have "dict_get d (fst p) = None" by (simp add: dict_get_def map_of_eq_None_iff)
  with Cons.IH [OF wf] show ?case by (cases p) (auto simp: dict_get_def split: option.splits)
qed simp

lemma drop_drained_conserves: "pend_core h \<Longrightarrow> conserves key [] h (drop_drained P h)"
  unfolding conserves_def
  using emits_same [of "drop_drained P h" h key]
  by (auto simp: drop_drained_def pending_text_def live_text_def dict_get_or_get dict_get_filter pend_core_def
      new_delta_acc_def split: option.splits intro!: exI [of _ "[]"])

lemma flush_sid_conserves:
  assumes "hub_core h"
  shows "conserves key [] h (flush_sid t sid h)"
  unfolding flush_sid_def
  using flush_keys_pending [OF hub_coreD(2) [OF assms]]
  by (intro conserves_trans0 [OF flush_keys_conserves drop_drained_conserves] hub_coreD(2) [OF assms]) blast

lemma drain_replay [simp]: "th_replay (drain_pending_session_resyncs h) = th_replay h"
proof -
  have "th_replay (fold (\<lambda>p. case p of (sid, reason) \<Rightarrow> fanout_resync sid reason) ps h') = th_replay h'" for ps h'
    by (intro fold_keeps) (simp add: split_beta)
  then show ?thesis by (simp add: drain_pending_session_resyncs_def)
qed

lemma flush_conserves:
  assumes "hub_core h"
  shows "conserves key [] h (flush t h)"
proof -
  let ?f = "fold (flush_key True t) (sort (dict_keys (th_pending h))) h"
  have pc: "pend_core ?f" using flush_keys_pending [OF hub_coreD(2) [OF assms]] by blast
  have "conserves key [] h (drop_drained (\<lambda>_. True) ?f)"
    by (rule conserves_trans0 [OF flush_keys_conserves drop_drained_conserves [OF pc]]) (rule hub_coreD(2) [OF assms])
  moreover have "conserves key [] g (drain_pending_session_resyncs g)" for g
    using acc_viewD [OF drain_view [of g]] by (intro conserves_same) simp_all
  ultimately have "conserves key [] h (drain_pending_session_resyncs (drop_drained (\<lambda>_. True) ?f))"
    by (rule conserves_trans0)
  from conserves_trans0 [OF this conserves_same] show ?thesis by (simp add: flush_def Let_def)
qed

section \<open>Eviction\<close>

lemma drop_part_replay [simp]: "th_replay (snd (drop_part n key h)) = th_replay h"
  by (simp add: drop_part_def Let_def discard_nontext_def split: option.splits)

lemma drop_part_conserves:
  assumes "hub_core h" and "key \<noteq> k"
  shows "conserves key [] h (snd (drop_part n k h))"
  using assms(2) by (intro conserves_same) (simp_all add: drop_part_core [OF assms(1)])

lemma evict_conserves:
  assumes core: "hub_core h" and ne: "key \<noteq> k"
  shows "conserves key [] h (evict_part_for_memory t k h)"
proof -
  obtain b h1 where d: "drop_part (fst t) k h = (b, h1)" by fastforce
  have c1: "conserves key [] h h1" using drop_part_conserves [OF core ne, of "fst t"] by (simp add: d)
  have core1: "hub_core h1" using drop_part_core(1) [OF core, of "fst t" k] by (simp add: d)
  let ?h3 = "snd (fanout_replayable_resync t (fst k) RESYNC_TOKEN_MEMORY_LIMIT (flush_sid t (fst k) h1))"
  have "conserves key [] h ?h3"
    by (rule conserves_trans0 [OF c1 conserves_trans0 [OF flush_sid_conserves [OF core1]
          conserves_view [OF replayable_emits acc_view_replayable]]])
  from conserves_trans0 [OF this conserves_same] have "conserves key [] h (?h3\<lparr>th_metrics := m\<rparr>)" for m by simp
  then show ?thesis using c1 by (auto simp: evict_part_for_memory_def d Let_def split: bool.splits)
qed


text \<open>The loops evict one part after the other; a part that is live in the end was never chosen.\<close>

lemma evict_chain:
  assumes "hub_core h" and "conserves key [] (evict_part_for_memory t k h) h' \<and> dict_has (th_live_parts (evict_part_for_memory t k h)) key"
  shows "conserves key [] h h' \<and> dict_has (th_live_parts h) key"
proof -
  have "key \<noteq> k" "dict_has (th_live_parts h) key" using assms(2) by simp_all
  then show ?thesis using assms conserves_trans0 [OF evict_conserves [OF assms(1)]] by blast
qed

lemma reserve_loop_conserves:
  assumes "hub_core h" and "dict_has (th_live_parts (snd (reserve_loop t n k h))) key"
  shows "conserves key [] h (snd (reserve_loop t n k h)) \<and> dict_has (th_live_parts h) key"
  using assms
proof (induction t n k h rule: reserve_loop.induct)
  case (1 t n k h)
  show ?case
  proof (cases "th_total_live h + n > cap_liveparts_max_bytes (th_caps h)")
    case False
    with "1.prems" show ?thesis by (simp add: reserve_loop.simps [of t n k h] conserves_refl)
  next
    case True
    show ?thesis
    proof (cases "oldest_candidate (\<lambda>k'. k' \<noteq> k) h")
      case None
      then show ?thesis
        using True "1.prems" drop_part_conserves [OF "1.prems"(1), of key k "fst t"]
        by (simp add: reserve_loop.simps [of t n k h] truncate_part_for_all_def)
    next
      case (Some k0)
      have "reserve_loop t n k h = reserve_loop t n k (evict_part_for_memory t k0 h)"
        using True Some by (simp add: reserve_loop.simps [of t n k h])
      then show ?thesis
        using evict_chain [OF "1.prems"(1) "1.IH" [OF True Some evict_core(1) [OF "1.prems"(1)]]] "1.prems"(2) by simp
    qed
  qed
qed

lemma start_count_conserves:
  assumes "hub_core h" and "dict_has (th_live_parts (start_count_loop t h)) key"
  shows "conserves key [] h (start_count_loop t h) \<and> dict_has (th_live_parts h) key"
  using assms
proof (induction t h rule: start_count_loop.induct)
  case (1 t h)
  show ?case
  proof (cases "length (th_live_parts h) \<ge> cap_live_parts_max (th_caps h) \<and> oldest_candidate (\<lambda>_. True) h \<noteq> None")
    case False
    with "1.prems" show ?thesis by (simp add: start_count_loop.simps [of t h] conserves_refl option.case_eq_if del: not_None_eq split: if_splits)
  next
    case True
    then obtain k0 where c: "length (th_live_parts h) \<ge> cap_live_parts_max (th_caps h)"
      and Some: "oldest_candidate (\<lambda>_. True) h = Some k0" by blast
    have "start_count_loop t h = start_count_loop t (evict_part_for_memory t k0 h)"
      using c Some by (simp add: start_count_loop.simps [of t h])
    then show ?thesis
      using evict_chain [OF "1.prems"(1) "1.IH" [OF c Some evict_core(1) [OF "1.prems"(1)]]] "1.prems"(2) by simp
  qed
qed

lemma start_bytes_conserves:
  assumes "hub_core h" and "dict_has (th_live_parts (start_bytes_loop t k h)) key"
  shows "conserves key [] h (start_bytes_loop t k h) \<and> dict_has (th_live_parts h) key"
  using assms
proof (induction t k h rule: start_bytes_loop.induct)
  case (1 t k h)
  show ?case
  proof (cases "th_total_live h > cap_liveparts_max_bytes (th_caps h) \<and> oldest_candidate (\<lambda>k'. k' \<noteq> k) h \<noteq> None")
    case False
    with "1.prems" show ?thesis by (simp add: start_bytes_loop.simps [of t k h] conserves_refl option.case_eq_if del: not_None_eq split: if_splits)
  next
    case True
    then obtain k0 where c: "th_total_live h > cap_liveparts_max_bytes (th_caps h)"
      and Some: "oldest_candidate (\<lambda>k'. k' \<noteq> k) h = Some k0" by blast
    have "start_bytes_loop t k h = start_bytes_loop t k (evict_part_for_memory t k0 h)"
      using c Some by (simp add: start_bytes_loop.simps [of t k h])
    then show ?thesis
      using evict_chain [OF "1.prems"(1) "1.IH" [OF c Some evict_core(1) [OF "1.prems"(1)]]] "1.prems"(2) by simp
  qed
qed


section \<open>Handlers\<close>

lemma reserve_refused:
  assumes core: "hub_core h" and r: "reserve t lp n k h = (False, h')"
  shows "\<not> dict_has (th_live_parts h') k"
proof -
  have "\<not> dict_has (th_live_parts h') k" if "reserve_loop t n k h = (False, h')"
    using that
  proof (induction t n k h rule: reserve_loop.induct)
    case (1 t n k h)
    then show ?case
      by (auto simp: reserve_loop.simps [of t n k h] truncate_part_for_all_def split: if_splits option.splits)
  qed
  then show ?thesis using r by (auto simp: reserve_def truncate_part_for_all_def split: if_splits)
qed

lemma check_pending_live: "dict_has (th_live_parts (check_pending_budget t k h)) key \<Longrightarrow> dict_has (th_live_parts h) key"
  by (auto simp: check_pending_budget_def Let_def split: if_splits option.splits)


lemma reserve_conserves:
  assumes core: "hub_core h" and r: "reserve t live n k h = (b, h')" and has: "dict_has (th_live_parts h') key"
  shows "conserves key [] h h'"
  using assms reserve_loop_conserves [OF core, of t n k key] drop_part_conserves [OF core, of key k "fst t"]
  by (auto simp: reserve_def truncate_part_for_all_def split: if_splits)

lemma check_pending_conserves:
  assumes core: "hub_core h" and has: "dict_has (th_live_parts (check_pending_budget t k h)) key"
  shows "conserves key [] h (check_pending_budget t k h)"
proof -
  have f: "conserves key [] h (flush t h)" by (rule flush_conserves [OF core])
  have c: "hub_core (flush t h)" by (rule flush_core [OF core])
  have e: "conserves key [] h (evict_part_for_memory t k0 (flush t h))" if "key \<noteq> k0" for k0
    by (rule conserves_trans0 [OF f evict_conserves [OF c that]])
  show ?thesis
    using has f e by (auto simp: check_pending_budget_def Let_def conserves_refl split: option.splits if_splits)
qed

lemma live_text_put: "live_text key (h\<lparr>th_live_parts := dict_set k lp d\<rparr>) =
    (if key = k then concat (lp_chunks lp) else live_text key (h\<lparr>th_live_parts := d\<rparr>))"
  by (simp add: live_text_def)

text \<open>Taking a part's accumulator out of the map and publishing its text.\<close>

lemma pop_flush_conserves:
  assumes "dict_get (th_pending h) k = Some acc"
    and g: "g = h\<lparr>th_pending := dict_pop k (th_pending h), th_total_pending := x\<rparr>"
  shows "conserves key [] h (if concat (da_chunks acc) = [] then g else fanout_delta_frame t k (concat (da_chunks acc)) g)"
    (is "conserves key [] h ?f")
proof -
  have "emits key (if key = k then concat (da_chunks acc) else []) h ?f"
  proof (cases "concat (da_chunks acc) = []")
    case True
    then show ?thesis unfolding True using emits_same [of g h key] by (simp add: g)
  next
    case False
    then show ?thesis
      using fanout_delta_emits [of key k "concat (da_chunks acc)" g t]
      by (simp add: emits_def g del: concat_eq_Nil_conv)
  qed
  moreover have "(if key = k then concat (da_chunks acc) else []) @ pending_text key ?f = pending_text key h"
    using assms(1) by (simp add: pending_text_def g dict_get_or_get new_delta_acc_def)
  moreover have "live_text key ?f = live_text key h" by (simp add: live_text_def g)
  ultimately show ?thesis by (intro conservesI) simp_all
qed

lemma accumulated_conserves:
  assumes "dict_get (th_live_parts h) k = Some live"
  shows "conserves key (if key = k then delta else []) h (accumulated t k delta live h)"
proof -
  have "emits key [] h (accumulated t k delta live h)" by (rule emits_same) (simp add: accumulated_def)
  moreover have "pending_text key (accumulated t k delta live h) = pending_text key h @ (if key = k then delta else [])"
    by (simp add: accumulated_def pending_text_def dict_get_or_get acc_append_def new_delta_acc_def split: option.splits)
  moreover have "live_text key (accumulated t k delta live h) = live_text key h @ (if key = k then delta else [])"
    using assms by (simp add: accumulated_def live_text_def)
  ultimately show ?thesis unfolding conserves_def by force
qed

lemma early_flush_conserves:
  assumes "dict_has (th_pending h) k"
  shows "conserves key [] h (early_flush t k h)"
proof -
  obtain acc where acc: "dict_get (th_pending h) k = Some acc" using assms by (auto simp: dict_has_get)
  show ?thesis
    using pop_flush_conserves [OF acc refl, of key "max 0 (th_total_pending h - da_byte_count acc)" t]
    by (simp add: early_flush_def Let_def dict_get_or_get acc conserves_refl del: concat_eq_Nil_conv)
qed

lemma accept_conserves:
  assumes inv: "hub_inv h" and live: "dict_get (th_live_parts h) k = Some live" and ne: "delta \<noteq> []"
    and part: "lp_byte_count live + int (utf8_len delta) \<le> cap_part_max_bytes (th_caps h)"
    and tot: "th_total_live h + int (utf8_len delta) \<le> cap_liveparts_max_bytes (th_caps h)"
    and has: "dict_has (th_live_parts (accept_delta t k delta live h)) key"
  shows "conserves key (if key = k then delta else []) h (accept_delta t k delta live h)"
proof -
  let ?a = "accumulated t k delta live h"
  note ac = accumulated_core [OF inv live ne part tot, of t]
  have "dict_has (th_pending ?a) k" by (simp add: accumulated_def)
  note c = conserves_trans0 [OF early_flush_conserves [OF this]
      check_pending_conserves [OF early_flush_core(1) [OF ac(1)] has [unfolded accept_delta_split]]]
  show ?thesis using conserves_trans [OF accumulated_conserves [OF live] c] by (simp add: accept_delta_split)
qed

text \<open>The delta that an event carries for a part, if the gates of the hub let it through.\<close>

definition delta_for :: "part_key \<Rightarrow> hub_op \<Rightarrow> token_hub \<Rightarrow> string" where
  "delta_for key x h =
     (case x of
        PartDelta t props \<Rightarrow>
          if jget props ''field'' = JStr ''text'' \<and> jstr_ne (jget props ''sessionID'') = Some (fst key) \<and>
             jstr_ne (jget props ''messageID'') = Some (fst (snd key)) \<and>
             jstr_ne (jget props ''partID'') = Some (snd (snd key)) \<and>
             \<not> fst (is_deleted_sid (fst t) (fst key) h) \<and>
             (fst key, fst (snd key)) \<notin> set (th_retired_messages h) \<and> \<not> is_nontext h key
          then (case jstr_ne (jget props ''delta'') of None \<Rightarrow> [] | Some d \<Rightarrow> d)
          else []
      | _ \<Rightarrow> [])"

lemma deleted_sid_conserves: "conserves key [] h (snd (is_deleted_sid n sid h))"
  by (rule conserves_same) (simp_all add: is_deleted_sid_def split: option.splits)

lemma deleted_sid_fields [simp]:
  "th_live_parts (snd (is_deleted_sid n sid h)) = th_live_parts h"
  "th_retired_messages (snd (is_deleted_sid n sid h)) = th_retired_messages h"
  "is_nontext (snd (is_deleted_sid n sid h)) key = is_nontext h key"
  "is_disabled (snd (is_deleted_sid n sid h)) key = is_disabled h key"
  by (simp_all add: is_deleted_sid_def is_nontext_def is_disabled_def split: option.splits)

lemma start_part_conserves:
  assumes inv: "hub_inv h" and nl: "\<not> dict_has (th_live_parts h) k" and nd: "\<not> is_disabled h k"
    and ne: "key \<noteq> k" and has: "dict_has (th_live_parts (start_part t k seed h)) key"
  shows "conserves key [] h (start_part t k seed h)"
proof -
  let ?g = "started t k h"
  note st = started_inv [OF inv nl nd, of t]
  have core: "hub_core h" "hub_core ?g" using inv st(1) by (simp_all add: hub_inv_def)
  have g: "conserves key [] h ?g" if "dict_has (th_live_parts ?g) key"
  proof -
    have "dict_has (th_live_parts (start_count_loop t h)) key" using that ne by (simp add: started_def)
    from start_count_conserves [OF core(1) this] have "conserves key [] h (start_count_loop t h)" by blast
    moreover have "conserves key [] (start_count_loop t h) ?g"
      using ne by (intro conserves_same) (simp_all add: started_def)
    ultimately show ?thesis by (rule conserves_trans0)
  qed
  have s: "conserves key [] ?g (seeded t k seed ?g)"
    using ne by (intro conserves_same) (simp_all add: seeded_def)
  have bytes: "conserves key [] h (start_bytes_loop t k (seeded t k seed ?g))"
    if small: "int (utf8_len seed) \<le> cap_part_max_bytes (th_caps ?g)"
      and live: "dict_has (th_live_parts (start_bytes_loop t k (seeded t k seed ?g))) key"
  proof -
    note sb = start_bytes_conserves [OF seeded_core [OF core(2) started_part st(2) small] live]
    then have "dict_has (th_live_parts ?g) key" using ne by (simp add: seeded_def)
    from conserves_trans0 [OF g [OF this] conserves_trans0 [OF s]] show ?thesis using sb by blast
  qed
  have trunc: "conserves key [] h (snd (drop_part (fst t) k ?g))" if "dict_has (th_live_parts ?g) key"
    by (rule conserves_trans0 [OF g [OF that] drop_part_conserves [OF core(2) ne]])
  show ?thesis
    using has g bytes trunc by (auto simp: start_part_split truncate_part_for_all_def split: if_splits)
qed

lemma finish_part_conserves:
  assumes core: "hub_core h" and ne: "key \<noteq> k"
  shows "conserves key [] h (finish_part t k h)"
proof (cases "dict_get (th_pending h) k")
  case None
  then show ?thesis by (simp add: finish_part_def drop_part_conserves [OF core ne])
next
  case (Some acc)
  let ?x = "max 0 (th_total_pending h - da_byte_count acc)"
  let ?g = "h\<lparr>th_pending := dict_pop k (th_pending h), th_total_pending := ?x\<rparr>"
  let ?f = "if concat (da_chunks acc) = [] then ?g else fanout_delta_frame t k (concat (da_chunks acc)) ?g"
  have "hub_core ?g" using hub_core_pop_pending [OF core, of k] pop_pending_total [OF core Some] by simp
  then have c: "hub_core ?f" by (simp add: fanout_delta_core del: concat_eq_Nil_conv)
  have "finish_part t k h = snd (drop_part (fst t) k ?f)"
    using pending_nonzero [OF core Some]
    by (simp add: finish_part_def Some Let_def case_prod_unfold del: concat_eq_Nil_conv)
  then show ?thesis
    using conserves_trans0 [OF pop_flush_conserves [OF Some refl] drop_part_conserves [OF c ne]] by simp
qed


text \<open>The gates of \<open>on_part_updated\<close>: either nothing but the expiry of a gate entry happens, or the
  event reaches the part's own transition.\<close>

lemma on_part_updated_gate:
  obtains (shut) sid where "on_part_updated t props h = h \<or> on_part_updated t props h = snd (is_deleted_sid (fst t) sid h)"
  | (pass) part sid mid pid tm where "(sid, mid) \<notin> set (th_retired_messages h)" "on_part_updated t props h =
      (let key = (sid, mid, pid); g = snd (is_deleted_sid (fst t) sid h)
       in if jget part ''type'' \<noteq> JStr ''text'' then remember_nontext (fst t) key g
          else if is_disabled g key then g
          else if jget tm ''end'' = JNull
          then (if dict_has (th_live_parts g) key then g
                else start_part t key (case jget part ''text'' of JStr s \<Rightarrow> s | _ \<Rightarrow> []) g)
          else finish_part t key g)"
proof (cases "jget props ''part''")
  case (JObj part)
  show ?thesis
  proof (cases "jstr_ne (jget part ''sessionID'') = None \<or> jstr_ne (jget part ''messageID'') = None \<or>
      jstr_ne (jget part ''id'') = None")
    case True
    then have "on_part_updated t props h = h" by (auto simp: on_part_updated_def JObj split: option.splits)
    then show ?thesis using shut by blast
  next
    case False
    then obtain sid mid pid where ids: "jstr_ne (jget part ''sessionID'') = Some sid"
      "jstr_ne (jget part ''messageID'') = Some mid" "jstr_ne (jget part ''id'') = Some pid" by auto
    show ?thesis
    proof (cases "\<exists>tm. jget part ''time'' = JObj tm \<and> \<not> fst (is_deleted_sid (fst t) sid h) \<and>
        (sid, mid) \<notin> set (th_retired_messages h)")
      case True
      then obtain tm where tm: "jget part ''time'' = JObj tm" "\<not> fst (is_deleted_sid (fst t) sid h)"
        "(sid, mid) \<notin> set (th_retired_messages h)" by blast
      show ?thesis
        by (rule pass [where part = part and sid = sid and mid = mid and pid = pid and tm = tm])
          (use tm in \<open>simp_all add: on_part_updated_def JObj ids case_prod_unfold Let_def del: deleted_sid_fields(3,4)\<close>)
    next
      case False
      then have "on_part_updated t props h = snd (is_deleted_sid (fst t) sid h)"
        by (auto simp: on_part_updated_def JObj ids case_prod_unfold split: json.splits bool.splits)
      then show ?thesis using shut by blast
    qed
  qed
qed (use shut in \<open>simp_all add: on_part_updated_def\<close>)

lemma part_updated_conserves:
  assumes inv: "hub_inv h" and live: "dict_has (th_live_parts h) key"
    and has: "dict_has (th_live_parts (on_part_updated t props h)) key"
  shows "conserves key [] h (on_part_updated t props h)"
proof -
  let ?g = "\<lambda>sid. snd (is_deleted_sid (fst t) sid h)"
  have g: "hub_inv (?g sid)" "conserves key [] h (?g sid)" "dict_has (th_live_parts (?g sid)) key" for sid
    using deleted_sid_inv [OF inv] deleted_sid_conserves live by simp_all
  have nontext: "conserves key [] h (remember_nontext (fst t) k (?g sid))" for sid k
    by (rule conserves_trans0 [OF g(2) conserves_same]) (simp_all add: remember_nontext_def)
  have start: "conserves key [] h (start_part t k seed (?g sid))"
    if "\<not> dict_has (th_live_parts (?g sid)) k" "\<not> is_disabled (?g sid) k"
      "dict_has (th_live_parts (start_part t k seed (?g sid))) key" for sid k seed
    using that g(3) by (intro conserves_trans0 [OF g(2) start_part_conserves [OF g(1)]]) auto
  have fin: "conserves key [] h (finish_part t k (?g sid))"
    if "dict_has (th_live_parts (finish_part t k (?g sid))) key" for sid k
  proof -
    have "key \<noteq> k" using that by (auto simp: finish_part_def Let_def)
    moreover have "hub_core (?g sid)" using g(1) by (simp add: hub_inv_def)
    ultimately show ?thesis by (intro conserves_trans0 [OF g(2) finish_part_conserves])
  qed
  show ?thesis
  proof (cases rule: on_part_updated_gate [of t props h])
    case (shut sid)
    then show ?thesis using g(2) [of sid] conserves_refl [of key h] by auto
  next
    case (pass part sid mid pid tm)
    then show ?thesis
      using has g(2) [of sid] nontext [of "(sid, mid, pid)" sid] start [of sid "(sid, mid, pid)"] fin [of "(sid, mid, pid)" sid]
      by (auto simp: Let_def split: if_splits)
  qed
qed

lemma on_part_delta_gate:
  obtains (shut) sid where "on_part_delta t props h = h \<or> on_part_delta t props h = snd (is_deleted_sid (fst t) sid h)"
      "\<And>key. delta_for key (PartDelta t props) h = []"
  | (pass) sid mid pid d where "jstr_ne (jget props ''delta'') = Some d"
      "\<And>key. delta_for key (PartDelta t props) h = (if key = (sid, mid, pid) \<and> \<not> is_nontext h key then d else [])"
      "on_part_delta t props h =
      (let key = (sid, mid, pid); g = snd (is_deleted_sid (fst t) sid h)
       in if is_nontext g key \<or> is_disabled g key then g
          else (case dict_get (th_live_parts g) key of
                  None \<Rightarrow> g\<lparr>th_metrics := (th_metrics g)\<lparr>tm_orphan_deltas := tm_orphan_deltas (th_metrics g) + 1\<rparr>\<rparr>
                | Some live \<Rightarrow>
                    if lp_ended live then g
                    else (case reserve t live (int (utf8_len d)) key g of
                            (False, h2) \<Rightarrow> h2
                          | (True, h2) \<Rightarrow> accept_delta t key d live h2)))"
proof (cases "jget props ''field'' \<noteq> JStr ''text'' \<or> jstr_ne (jget props ''sessionID'') = None \<or>
    jstr_ne (jget props ''messageID'') = None \<or> jstr_ne (jget props ''partID'') = None")
  case True
  then have "on_part_delta t props h = h" "\<And>key. delta_for key (PartDelta t props) h = []"
    by (auto simp: on_part_delta_def delta_for_def split: option.splits)
  then show ?thesis using shut by blast
next
  case False
  then obtain sid mid pid where ids: "jget props ''field'' = JStr ''text''" "jstr_ne (jget props ''sessionID'') = Some sid"
    "jstr_ne (jget props ''messageID'') = Some mid" "jstr_ne (jget props ''partID'') = Some pid" by auto
  show ?thesis
  proof (cases "\<exists>d. jstr_ne (jget props ''delta'') = Some d \<and> \<not> fst (is_deleted_sid (fst t) sid h) \<and>
      (sid, mid) \<notin> set (th_retired_messages h)")
    case True
    then obtain d where d: "jstr_ne (jget props ''delta'') = Some d" "\<not> fst (is_deleted_sid (fst t) sid h)"
      "(sid, mid) \<notin> set (th_retired_messages h)" by blast
    show ?thesis
    proof (rule pass [OF d(1)])
      show "delta_for key (PartDelta t props) h = (if key = (sid, mid, pid) \<and> \<not> is_nontext h key then d else [])" for key
        using d by (cases key) (auto simp: delta_for_def ids)
    qed (use d in \<open>simp add: on_part_delta_def ids case_prod_unfold Let_def del: deleted_sid_fields(3,4)\<close>)
  next
    case False
    then have "on_part_delta t props h = snd (is_deleted_sid (fst t) sid h)"
      by (auto simp: on_part_delta_def ids case_prod_unfold split: option.splits bool.splits)
    moreover have "delta_for key (PartDelta t props) h = []" for key
      using False by (cases key) (auto simp: delta_for_def ids split: option.splits)
    ultimately show ?thesis using shut by blast
  qed
qed

lemma reserved_delta_conserves:
  assumes inv: "hub_inv g" and lp: "dict_get (th_live_parts g) k = Some lp" and ne: "d \<noteq> []"
    and r: "reserve t lp (int (utf8_len d)) k g = (b, h2)" and live: "dict_has (th_live_parts g) key"
    and has: "dict_has (th_live_parts (if b then accept_delta t k d lp h2 else h2)) key"
  shows "conserves key (if key = k then d else []) g (if b then accept_delta t k d lp h2 else h2)"
proof -
  have core: "hub_core g" using inv by (simp add: hub_inv_def)
  note s = reserve_spec [OF core r]
  have inv2: "hub_inv h2" by (rule shrinks_inv [OF inv s(1)])
  show ?thesis
  proof (cases b)
    case True
    then have has': "dict_has (th_live_parts (accept_delta t k d lp h2)) key" using has by simp
    have lp2: "dict_get (th_live_parts h2) k = Some lp" using s(3) True lp by simp
    have "dict_has (th_live_parts h2) key"
      using has' check_pending_live [of t k "early_flush t k (accumulated t k d lp h2)" key] lp2
      by (auto simp: accept_delta_split early_flush_def accumulated_def Let_def dict_has_get split: if_splits)
    from conserves_trans0 [OF reserve_conserves [OF core r this]
        accept_conserves [OF inv2 lp2 ne s(4,2) [OF True] has']] show ?thesis using True by simp
  next
    case False
    then have h2: "dict_has (th_live_parts h2) key" using has by simp
    have "\<not> dict_has (th_live_parts h2) k"
      by (rule reserve_refused [OF core]) (use r False in simp)
    then have "key \<noteq> k" using h2 by auto
    then show ?thesis using reserve_conserves [OF core r h2] False by simp
  qed
qed

lemma part_delta_conserves:
  assumes inv: "hub_inv h" and live: "dict_has (th_live_parts h) key"
    and has: "dict_has (th_live_parts (on_part_delta t props h)) key"
  shows "conserves key (delta_for key (PartDelta t props) h) h (on_part_delta t props h)"
proof (cases rule: on_part_delta_gate [of t props h])
  case (shut sid)
  then show ?thesis using deleted_sid_conserves [of key h] conserves_refl [of key h] by auto
next
  case (pass sid mid pid d)
  let ?k = "(sid, mid, pid)" and ?g = "snd (is_deleted_sid (fst t) sid h)"
  have inv': "hub_inv ?g" and core: "hub_core h" using deleted_sid_inv [OF inv] inv by (simp_all add: hub_inv_def)
  have g: "conserves key [] h ?g" by (rule deleted_sid_conserves)
  have ne: "d \<noteq> []" using jstr_ne_Some [OF pass(1)] .
  show ?thesis
  proof (cases "is_nontext h ?k \<or> is_disabled h ?k \<or> \<not> dict_has (th_live_parts h) ?k")
    case True
    then have "delta_for key (PartDelta t props) h = []"
      using live live_not_disabled [OF core, of ?k] by (auto simp: pass(2) is_disabled_def)
    moreover have "conserves key [] h (on_part_delta t props h)"
      unfolding pass(3)
      by (rule conserves_trans0 [OF g conserves_same])
        (use True in \<open>auto simp: Let_def dict_has_get\<close>)
    ultimately show ?thesis by simp
  next
    case False
    then obtain lp where lp: "dict_get (th_live_parts h) ?k = Some lp" by (auto simp: dict_has_get)
    have "\<not> lp_ended lp"
      using dict_get_in_set [OF lp] hub_coreD(1) [OF core] by (force simp: live_core_def part_ok_def)
    obtain b h2 where r: "reserve t lp (int (utf8_len d)) ?k ?g = (b, h2)" by fastforce
    have eq: "on_part_delta t props h = (if b then accept_delta t ?k d lp h2 else h2)"
      using False lp r \<open>\<not> lp_ended lp\<close> by (simp add: pass(3) Let_def)
    have "conserves key (if key = ?k then d else []) ?g (on_part_delta t props h)"
      unfolding eq by (rule reserved_delta_conserves [OF inv' _ ne r]) (use lp live has eq in simp_all)
    then show ?thesis using conserves_trans0 [OF g] False by (auto simp: pass(2))
  qed
qed

lemma retire_where_conserves:
  assumes core: "hub_core h" and "\<not> P key"
  shows "conserves key [] h (retire_where P h)"
  using assms(2) by (intro conserves_same) (simp_all add: retire_where_eq [OF core])

lemma retire_has: "hub_core h \<Longrightarrow> dict_has (th_live_parts (retire_where P h)) key \<Longrightarrow> \<not> P key"
  by (simp add: retire_where_eq)

lemma message_removed_conserves:
  assumes core: "hub_core h" and has: "dict_has (th_live_parts (on_message_removed t sid mid h)) key"
  shows "conserves key [] h (on_message_removed t sid mid h)"
proof -
  let ?P = "\<lambda>k. fst k = sid \<and> fst (snd k) = mid"
  have "\<not> ?P key"
    by (rule retire_has [OF core]) (use has in \<open>simp add: on_message_removed_def retire_message_def Let_def\<close>)
  then have "conserves key [] h (retire_where ?P h)" by (rule retire_where_conserves [OF core])
  from conserves_trans0 [OF this conserves_same] have "conserves key [] h (retire_message sid mid h)"
    by (simp add: retire_message_def Let_def)
  then show ?thesis
    unfolding on_message_removed_def
    by (rule conserves_trans0 [OF _ conserves_view [OF fanout_removed_emits acc_view_fanout_removed]])
qed

lemma retire_session_conserves:
  assumes "hub_core h" and "dict_has (th_live_parts (retire_session sid h)) key"
  shows "conserves key [] h (retire_session sid h)"
  unfolding retire_session_def
  by (rule retire_where_conserves [OF assms(1) retire_has [OF assms(1)]]) (use assms(2) in \<open>simp add: retire_session_def\<close>)

lemma barrier_conserves: "conserves key [] h (write_replay_barrier sid h)"
  by (rule conserves_view [OF barrier_emits acc_view_barrier])

lemma session_status_conserves:
  assumes inv: "hub_inv h" and has: "dict_has (th_live_parts (on_session_status t sid st h)) key"
  shows "conserves key [] h (on_session_status t sid st h)"
proof -
  let ?h1 = "\<lambda>s. prune_session_status (h\<lparr>th_session_status := dict_move_to_end sid (dict_set sid s (th_session_status h))\<rparr>)"
  have core: "hub_core h" using inv by (simp add: hub_inv_def)
  have c1: "hub_core (?h1 s)" for s
    using session_wf [OF core] by (simp add: prune_session_status_def hub_core_small [OF core] length_dict_cap)
  have k1: "conserves key [] h (?h1 s)" for s by (rule conserves_same) (simp_all add: prune_session_status_def)
  have enq: "conserves key [] g (enqueue_session_resync sid r g)"
    "th_live_parts (enqueue_session_resync sid r g) = th_live_parts g" for g r
    by (rule conserves_same) (simp_all add: enqueue_session_resync_def Let_def)
  have "conserves key [] h (enqueue_session_resync sid RESYNC_SESSION_IDLE (write_replay_barrier sid (retire_session sid (?h1 s))))"
    if "dict_has (th_live_parts (retire_session sid (?h1 s))) key" for s
    by (rule conserves_trans0 [OF k1 conserves_trans0 [OF retire_session_conserves [OF c1 that]
          conserves_trans0 [OF barrier_conserves enq(1)]]])
  then show ?thesis
    using has k1 by (auto simp: on_session_status_def Let_def conserves_refl enq(2) split: option.splits if_splits)
qed

lemma session_deleted_conserves:
  assumes core: "hub_core h" and has: "dict_has (th_live_parts (on_session_deleted t sid h)) key"
  shows "conserves key [] h (on_session_deleted t sid h)"
proof -
  let ?h1 = "retire_session sid h"
  have v: "th_live_parts (fold (sub_terminate r) xs g) = th_live_parts g"
    "th_pending (fold (sub_terminate r) xs g) = th_pending g"
    "th_replay (fold (sub_terminate r) xs g) = th_replay g" for r xs g
    by (rule fold_keeps, simp add: acc_viewD [OF acc_view_sub_terminate])+
  have "dict_has (th_live_parts ?h1) key"
    using has by (simp add: on_session_deleted_def Let_def v remember_deleted_sid_def)
  note k1 = retire_session_conserves [OF core this]
  have "conserves key [] (write_replay_barrier sid (?h1\<lparr>th_session_status := dict_pop sid (th_session_status ?h1)\<rparr>))
      (on_session_deleted t sid h)"
    by (rule conserves_same) (simp_all add: on_session_deleted_def Let_def v remember_deleted_sid_def)
  moreover have "conserves key [] ?h1 (?h1\<lparr>th_session_status := dict_pop sid (th_session_status ?h1)\<rparr>)"
    by (rule conserves_same) simp_all
  ultimately show ?thesis using k1 barrier_conserves conserves_trans0 by meson
qed


lemma ttl_fold_conserves:
  assumes "hub_core h" and "distinct (map fst ps)"
    and "\<And>p. p \<in> set ps \<Longrightarrow> dict_get (th_live_parts h) (fst p) = Some (snd p)"
    and "dict_has (th_live_parts (fold ttl_retire ps h)) key"
  shows "conserves key [] h (fold ttl_retire ps h) \<and> dict_has (th_live_parts h) key"
  using assms
proof (induction ps arbitrary: h)
  case (Cons p ps)
  have p: "dict_get (th_live_parts h) (fst p) = Some (snd p)" using Cons.prems(3) by simp
  note r = ttl_retire_core [OF Cons.prems(1) p, simplified]
  have "conserves key [] (ttl_retire p h) (fold ttl_retire ps (ttl_retire p h)) \<and>
      dict_has (th_live_parts (ttl_retire p h)) key"
  proof (rule Cons.IH)
    show "hub_core (ttl_retire p h)" using r(1) by (simp add: shrinks_def)
    show "distinct (map fst ps)" using Cons.prems(2) by simp
    show "dict_get (th_live_parts (ttl_retire p h)) (fst q) = Some (snd q)" if "q \<in> set ps" for q
    proof -
      have "fst q \<noteq> fst p" using Cons.prems(2) that by (auto simp: image_iff)
      then show ?thesis using Cons.prems(3) [of q] that by (simp add: r(2))
    qed
    show "dict_has (th_live_parts (fold ttl_retire ps (ttl_retire p h))) key" using Cons.prems(4) by simp
  qed
  moreover from this have ne: "key \<noteq> fst p" and live: "dict_has (th_live_parts h) key" by (auto simp: r(2))
  moreover have "conserves key [] h (ttl_retire p h)"
    using ne by (intro conserves_same) (simp_all add: r(2) ttl_retire_def Let_def discard_nontext_def split: option.splits)
  ultimately show ?case using conserves_trans0 by auto
qed (simp add: conserves_refl)

lemma ttl_sweep_conserves:
  assumes core: "hub_core h" and has: "dict_has (th_live_parts (snd (ttl_sweep n h))) key"
  shows "conserves key [] h (snd (ttl_sweep n h))"
proof -
  have wf: "dict_wf (th_live_parts h)" using core by (simp add: core_defs)
  then have "distinct (map fst (filter (ttl_expired n h) (th_live_parts h)))"
    by (simp add: dict_wf_def distinct_map_filter_key)
  moreover have "dict_get (th_live_parts h) (fst p) = Some (snd p)"
    if "p \<in> set (filter (ttl_expired n h) (th_live_parts h))" for p
    using that dict_in_set_get [OF wf, of "fst p" "snd p"] by simp
  ultimately show ?thesis
    using ttl_fold_conserves [OF core] has unfolding ttl_sweep_def Let_def snd_conv by blast
qed

lemma heartbeat_conserves: "conserves key [] h (fanout_heartbeat h)"
proof (rule conserves_same)
  show "th_replay (fanout_heartbeat h) = th_replay h"
    unfolding fanout_heartbeat_def by (intro fold_keeps) (simp add: split_beta fold_keeps [of th_replay])
qed simp_all

lemma flush_tick_conserves:
  assumes inv: "hub_inv h" and has: "dict_has (th_live_parts (snd (flush_loop_tick t ticks h))) key"
  shows "conserves key [] h (snd (flush_loop_tick t ticks h))"
proof -
  let ?f = "flush t h" and ?s = "snd (ttl_sweep (fst t) (flush t h))"
  have core: "hub_core h" using inv by (simp add: hub_inv_def)
  note f = flush_conserves [OF core, of key t]
  note hf = conserves_trans0 [OF f heartbeat_conserves]
  have s: "conserves key [] h ?s" if "dict_has (th_live_parts ?s) key"
    by (rule conserves_trans0 [OF f ttl_sweep_conserves [OF flush_core(1) [OF core] that]])
  have hs: "conserves key [] h (fanout_heartbeat ?s)" if "dict_has (th_live_parts ?s) key"
    by (rule conserves_trans0 [OF s [OF that] heartbeat_conserves])
  show ?thesis
    using has f hf s hs by (auto simp: flush_loop_tick_def Let_def split: if_splits)
qed

lemma part_removed_conserves:
  assumes inv: "hub_inv h" and has: "dict_has (th_live_parts (on_part_removed t sid mid pid h)) key"
  shows "conserves key [] h (on_part_removed t sid mid pid h)"
proof -
  let ?g = "snd (is_deleted_sid (fst t) sid h)" and ?k = "(sid, mid, pid)"
  have g: "conserves key [] h ?g" by (rule deleted_sid_conserves)
  have "hub_core ?g" using deleted_sid_inv [OF inv] by (simp add: hub_inv_def)
  then have d: "conserves key [] h (snd (drop_part (fst t) ?k ?g))" if "key \<noteq> ?k"
    by (rule conserves_trans0 [OF g drop_part_conserves]) (rule that)
  show ?thesis
    using has g d by (auto simp: on_part_removed_def case_prod_unfold split: bool.splits if_splits)
qed

text \<open>Every step conserves the text of a part that lives through it.\<close>

lemma hub_step_conserves:
  assumes inv: "hub_inv h" and live: "dict_has (th_live_parts h) key"
    and has: "dict_has (th_live_parts (hub_step x h)) key"
  shows "conserves key (delta_for key x h) h (hub_step x h)"
proof -
  have core: "hub_core h" using inv by (simp add: hub_inv_def)
  show ?thesis
  proof (cases x)
    case UpstreamReconnect
    have "acc_view (fold (\<lambda>sid. fanout_resync sid r) ks g) = acc_view g" for r ks g by (rule fold_keeps) simp
    note v = acc_viewD(3) [OF this]
    have False
      using has by (simp add: UpstreamReconnect on_upstream_reconnect_def Let_def v dict_has_get)
    then show ?thesis ..
  next
    case (Attach sid i s)
    have "conserves key [] h (hub_step x h)"
      by (rule conserves_same) (simp_all add: Attach attach_subscriber_def split: option.splits)
    then show ?thesis by (simp add: Attach delta_for_def)
  next
    case (WriterTurn i)
    have "conserves key [] h (hub_step x h)"
      by (rule conserves_same) (simp_all add: WriterTurn writer_turn_def split: option.splits prod.splits)
    then show ?thesis by (simp add: WriterTurn delta_for_def)
  next
    case (Detach sid i)
    have "conserves key [] h (hub_step x h)"
      by (rule conserves_same) (simp_all add: Detach detach_subscriber_def Let_def split: option.splits)
    then show ?thesis by (simp add: Detach delta_for_def)
  qed (use assms core in \<open>simp_all add: delta_for_def [of _ "PartUpdated _ _"] delta_for_def [of _ "PartRemoved _ _ _ _"]
      delta_for_def [of _ "MessageRemoved _ _ _"] delta_for_def [of _ "SessionStatus _ _ _"]
      delta_for_def [of _ "SessionDeleted _ _"] delta_for_def [of _ "FlushTick _ _"]
      part_updated_conserves part_delta_conserves part_removed_conserves message_removed_conserves
      session_status_conserves session_deleted_conserves flush_tick_conserves\<close>)
qed


section \<open>Whole lives of a part\<close>

fun stays_live :: "part_key \<Rightarrow> hub_op list \<Rightarrow> token_hub \<Rightarrow> bool" where
  "stays_live key [] h = dict_has (th_live_parts h) key"
| "stays_live key (x # xs) h = (dict_has (th_live_parts h) key \<and> stays_live key xs (hub_step x h))"

fun deltas_of :: "part_key \<Rightarrow> hub_op list \<Rightarrow> token_hub \<Rightarrow> string" where
  "deltas_of key [] h = []"
| "deltas_of key (x # xs) h = delta_for key x h @ deltas_of key xs (hub_step x h)"

lemma stays_live_now: "stays_live key ops h \<Longrightarrow> dict_has (th_live_parts h) key"
  by (cases ops) simp_all

lemma run_conserves:
  "hub_inv h \<Longrightarrow> stays_live key ops h \<Longrightarrow> conserves key (deltas_of key ops h) h (fold hub_step ops h)"
proof (induction ops arbitrary: h)
  case (Cons x xs)
  then have live: "dict_has (th_live_parts h) key" and rest: "stays_live key xs (hub_step x h)" by simp_all
  have "conserves key (delta_for key x h) h (hub_step x h)"
    by (rule hub_step_conserves [OF Cons.prems(1) live stays_live_now [OF rest]])
  from conserves_trans [OF this Cons.IH [OF hub_step_inv [OF Cons.prems(1)] rest]] show ?case by simp
qed (simp add: conserves_refl)

lemma finish_part_emits:
  assumes core: "hub_core h"
  shows "emits key (pending_text key h) h (finish_part t key h)"
proof (cases "dict_get (th_pending h) key")
  case None
  then show ?thesis
    by (simp add: finish_part_def pending_text_def dict_get_or_get new_delta_acc_def emits_same)
next
  case (Some acc)
  let ?g = "h\<lparr>th_pending := dict_pop key (th_pending h), th_total_pending := max 0 (th_total_pending h - da_byte_count acc)\<rparr>"
  let ?f = "if concat (da_chunks acc) = [] then ?g else fanout_delta_frame t key (concat (da_chunks acc)) ?g"
  have "finish_part t key h = snd (drop_part (fst t) key ?f)"
    using pending_nonzero [OF core Some]
    by (simp add: finish_part_def Some Let_def case_prod_unfold del: concat_eq_Nil_conv)
  moreover have "pending_text key ?f = []" by (simp add: pending_text_def dict_get_or_get new_delta_acc_def)
  moreover obtain e where "emits key e h ?f" "e @ pending_text key ?f = pending_text key h"
    using pop_flush_conserves [OF Some refl, of key _ t] unfolding conserves_def by auto
  ultimately show ?thesis by (simp add: emits_def)
qed

lemma remember_disabled_has: "dict_has (th_disabled (remember_disabled n key h)) key"
proof (cases "dict_has (th_disabled h) key")
  case True
  then show ?thesis by (simp add: remember_disabled_def)
next
  case False
  then have "dict_set key n (th_disabled h) = th_disabled h @ [(key, n)]" by (simp add: dict_set_fresh dict_has_keys)
  moreover have "last (prune_bounded n (ds @ [(key, n)])) = (key, n) \<and> prune_bounded n (ds @ [(key, n)]) \<noteq> []" for ds
  proof -
    have "dropWhile (\<lambda>(_, ts). ts < n - TOKEN_DISABLED_TTL_MS) (ds @ [(key, n)]) =
        dropWhile (\<lambda>(_, ts). ts < n - TOKEN_DISABLED_TTL_MS) ds @ [(key, n)]"
      by (induction ds) auto
    then show ?thesis by (simp add: prune_bounded_def dict_cap_drop)
  qed
  ultimately have "(key, n) \<in> set (prune_bounded n (dict_set key n (th_disabled h)))" by (metis last_in_set)
  then show ?thesis using False by (force simp: remember_disabled_def dict_has_keys)
qed

lemma drop_part_disables: "is_disabled (snd (drop_part n key h)) key"
  using remember_disabled_has by (simp add: drop_part_def Let_def is_disabled_def)

lemma finish_part_retires:
  assumes core: "hub_core h"
  shows "is_disabled (finish_part t key h) key" and "\<not> dict_has (th_pending (finish_part t key h)) key"
proof -
  show "is_disabled (finish_part t key h) key" by (simp add: finish_part_def Let_def drop_part_disables)
  have "\<not> dict_has (th_pending (snd (drop_part n key g))) key" for n g
    by (auto simp: drop_part_def Let_def discard_nontext_def dict_has_get split: option.splits)
  then show "\<not> dict_has (th_pending (finish_part t key h)) key" by (simp add: finish_part_def Let_def)
qed

text \<open>
  C36. No text is lost, repeated or reordered while a part lives. Over any sequence of events, flush rounds
  and connection events through which the part stays live, its published text followed by its
  pending text grows by exactly the deltas that the gates let through, in order, and so does its
  accumulated text; this holds under eviction of other parts, early flushes and forced flushes.
\<close>

theorem part_text_conserved:
  assumes "caps_ok caps" and "h = fold hub_step before (new_token_hub caps dumps l)"
    and "rl_rel (th_replay h) H" and "serving H" and "stays_live key ops h" and "h' = fold hub_step ops h"
  shows "(\<exists>H'. rl_rel (th_replay h') H' \<and>
      published key H' @ pending_text key h' = published key H @ pending_text key h @ deltas_of key ops h) \<and>
    live_text key h' = live_text key h @ deltas_of key ops h"
proof -
  have "hub_inv h" unfolding assms(2) by (rule hub_run_inv [OF new_token_hub_inv [OF assms(1)]])
  from run_conserves [OF this assms(5)] obtain e where e: "emits key e h h'"
    "e @ pending_text key h' = pending_text key h @ deltas_of key ops h"
    "live_text key h' = live_text key h @ deltas_of key ops h"
    by (auto simp: conserves_def assms(6))
  from e(1) assms(3,4) obtain H' where "rl_rel (th_replay h') H'" "published key H' = published key H @ e"
    unfolding emits_def by blast
  then show ?thesis using e(2,3) by (metis append.assoc)
qed

lemma demo_log_rel: "rl_rel demo_token_log (h_init (\<lambda>_. Some 1))"
proof -
  have "epoch_re_match ''0123456789abcdef''" by code_simp
  then have "new_replay_log (Some ''0123456789abcdef'') '''' 100 1000 (Finite 30) (Some (\<lambda>_. Some 1)) (\<lambda>_. None) =
      Inr demo_token_log"
    by (simp add: new_replay_log_def pyfloat_le_0_def pyfloat_isfinite_def demo_token_log_def)
  from new_replay_log_rel [OF this] show ?thesis by (simp add: demo_token_log_def)
qed

lemma demo_hub_rel: "rl_rel (th_replay (fold hub_step [demo_start] demo_hub)) (h_init (\<lambda>_. Some 1))"
proof -
  have "th_replay (fold hub_step [demo_start] demo_hub) = demo_token_log"
    by (simp add: demo_start_def demo_hub_def on_part_updated_def jget_def jstr_ne_def is_deleted_sid_def
        new_token_hub_def is_disabled_def dict_has_get start_part_def start_count_loop.simps default_token_caps_def)
  then show ?thesis by (simp only: demo_log_rel)
qed

lemma demo_hub_run: "fold hub_step [demo_start] demo_hub =
    fold hub_step [demo_start] (new_token_hub default_token_caps (\<lambda>_. ''{}'') demo_token_log)"
  by (simp only: demo_hub_def)

theorem part_text_conserved_witness:
  "live_text (''s'', ''m'', ''p'') (fold hub_step [demo_delta ''ab'', FlushTick (2, 2) (0, 0), demo_delta ''c'']
     (fold hub_step [demo_start] demo_hub)) = ''abc''"
proof -
  let ?ops = "[demo_delta ''ab'', FlushTick (2, 2) (0, 0), demo_delta ''c'']" and ?k = "(''s'', ''m'', ''p'')"
  have caps: "caps_ok default_token_caps" by code_simp
  have live: "stays_live ?k ?ops (fold hub_step [demo_start] demo_hub)" by code_simp
  have "live_text ?k (fold hub_step ?ops (fold hub_step [demo_start] demo_hub)) =
      live_text ?k (fold hub_step [demo_start] demo_hub) @ deltas_of ?k ?ops (fold hub_step [demo_start] demo_hub)"
    using part_text_conserved [OF caps _ demo_hub_rel _ live refl, of "[demo_start]" "\<lambda>_. ''{}''" demo_token_log]
    by (simp only: demo_hub_def serving_def h_init_def history.simps option.simps) simp
  moreover have "live_text ?k (fold hub_step [demo_start] demo_hub) @
      deltas_of ?k ?ops (fold hub_step [demo_start] demo_hub) = ''abc''" by code_simp
  ultimately show ?thesis by simp
qed


text \<open>
  When the upstream ends a part, everything still pending for it is published before the part
  is retired: the published text is then the text published before the run, what was pending, and
  every delta let through since, with nothing left behind; and the part is tombstoned, so that late
  deltas for it are dropped.
\<close>

theorem part_end_publishes_all:
  assumes "caps_ok caps" and "h = fold hub_step before (new_token_hub caps dumps l)"
    and "rl_rel (th_replay h) H" and "serving H" and "stays_live key ops h"
    and "h' = finish_part t key (fold hub_step ops h)"
  shows "(\<exists>H'. rl_rel (th_replay h') H' \<and>
      published key H' = published key H @ pending_text key h @ deltas_of key ops h) \<and>
    \<not> dict_has (th_live_parts h') key \<and> \<not> dict_has (th_pending h') key \<and> is_disabled h' key"
proof -
  let ?g = "fold hub_step ops h"
  have inv: "hub_inv h" unfolding assms(2) by (rule hub_run_inv [OF new_token_hub_inv [OF assms(1)]])
  have core: "hub_core ?g" using hub_run_inv [OF inv] by (simp add: hub_inv_def)
  obtain e where e: "emits key e h ?g" "e @ pending_text key ?g = pending_text key h @ deltas_of key ops h"
    using run_conserves [OF inv assms(5)] by (auto simp: conserves_def)
  have "emits key (e @ pending_text key ?g) h h'"
    unfolding assms(6) by (rule emits_trans [OF e(1) finish_part_emits [OF core]])
  then have "\<exists>H'. rl_rel (th_replay h') H' \<and> published key H' = published key H @ pending_text key h @ deltas_of key ops h"
    using assms(3,4) unfolding emits_def e(2) by blast
  moreover have "\<not> dict_has (th_live_parts h') key" by (simp add: assms(6) finish_part_def Let_def)
  moreover have "is_disabled h' key" "\<not> dict_has (th_pending h') key"
    using finish_part_inv [OF hub_run_inv [OF inv], of t key ops] finish_part_retires [OF core]
    by (simp_all add: assms(6))
  ultimately show ?thesis by blast
qed

theorem part_end_publishes_all_witness:
  "is_disabled (finish_part (3, 3) (''s'', ''m'', ''p'') (fold hub_step [demo_delta ''ab''] (fold hub_step [demo_start] demo_hub)))
     (''s'', ''m'', ''p'') \<and>
   (\<exists>H'. rl_rel (th_replay (finish_part (3, 3) (''s'', ''m'', ''p'') (fold hub_step [demo_delta ''ab'']
       (fold hub_step [demo_start] demo_hub)))) H' \<and> published (''s'', ''m'', ''p'') H' = ''ab'')"
proof -
  let ?ops = "[demo_delta ''ab'']" and ?k = "(''s'', ''m'', ''p'')"
  have caps: "caps_ok default_token_caps" by code_simp
  have live: "stays_live ?k ?ops (fold hub_step [demo_start] demo_hub)" by code_simp
  have texts: "pending_text ?k (fold hub_step [demo_start] demo_hub) = ''''"
    "deltas_of ?k ?ops (fold hub_step [demo_start] demo_hub) = ''ab''" by code_simp+
  have h0: "serving (h_init (\<lambda>_. Some 1))" "published ?k (h_init (\<lambda>_. Some 1)) = ''''"
    by (simp_all add: serving_def h_init_def published_def)
  show ?thesis
    using part_end_publishes_all [OF caps demo_hub_run demo_hub_rel h0(1) live refl, of "(3, 3)"]
    by (simp only: texts h0 append_Nil)
qed


section \<open>Removed messages\<close>

text \<open>A part only becomes live through \<open>on_part_updated\<close>, and not behind a gate.\<close>

lemma loops_live:
  "dict_has (th_live_parts (snd (reserve_loop t n k h))) key \<Longrightarrow> dict_has (th_live_parts h) key"
  "dict_has (th_live_parts (start_count_loop t h)) key \<Longrightarrow> dict_has (th_live_parts h) key"
  "dict_has (th_live_parts (start_bytes_loop t k h)) key \<Longrightarrow> dict_has (th_live_parts h) key"
proof -
  show "dict_has (th_live_parts (snd (reserve_loop t n k h))) key \<Longrightarrow> dict_has (th_live_parts h) key"
  proof (induction t n k h rule: reserve_loop.induct)
    case (1 t n k h)
    then show ?case
      by (auto simp: reserve_loop.simps [of t n k h] truncate_part_for_all_def split: if_splits option.splits)
  qed
  show "dict_has (th_live_parts (start_count_loop t h)) key \<Longrightarrow> dict_has (th_live_parts h) key"
  proof (induction t h rule: start_count_loop.induct)
    case (1 t h)
    then show ?case by (auto simp: start_count_loop.simps [of t h] split: if_splits option.splits)
  qed
  show "dict_has (th_live_parts (start_bytes_loop t k h)) key \<Longrightarrow> dict_has (th_live_parts h) key"
  proof (induction t k h rule: start_bytes_loop.induct)
    case (1 t k h)
    then show ?case by (auto simp: start_bytes_loop.simps [of t k h] split: if_splits option.splits)
  qed
qed

lemma start_part_live:
  "dict_has (th_live_parts (start_part t k seed h)) key \<Longrightarrow> key = k \<or> dict_has (th_live_parts h) key"
  using loops_live(2) [of t h key] loops_live(3) [of t k "seeded t k seed (started t k h)" key]
  by (auto simp: start_part_split started_def seeded_def truncate_part_for_all_def split: if_splits)

lemma retired_drop [simp]: "th_retired_messages (snd (drop_part n k h)) = th_retired_messages h"
  by (simp add: drop_part_def Let_def discard_nontext_def split: option.splits)

lemma retired_evict [simp]: "th_retired_messages (evict_part_for_memory t k h) = th_retired_messages h"
  using retired_drop [of "fst t" k h]
  by (cases "drop_part (fst t) k h") (simp add: evict_part_for_memory_def Let_def split: bool.splits)

lemma retired_loops [simp]:
  "th_retired_messages (snd (reserve_loop t n k h)) = th_retired_messages h"
  "th_retired_messages (start_count_loop t h) = th_retired_messages h"
  "th_retired_messages (start_bytes_loop t k h) = th_retired_messages h"
proof -
  show "th_retired_messages (snd (reserve_loop t n k h)) = th_retired_messages h"
  proof (induction t n k h rule: reserve_loop.induct)
    case (1 t n k h)
    then show ?case by (subst reserve_loop.simps) (auto simp: truncate_part_for_all_def split: option.splits)
  qed
  show "th_retired_messages (start_count_loop t h) = th_retired_messages h"
  proof (induction t h rule: start_count_loop.induct)
    case (1 t h)
    then show ?case by (subst start_count_loop.simps) (auto split: option.splits)
  qed
  show "th_retired_messages (start_bytes_loop t k h) = th_retired_messages h"
  proof (induction t k h rule: start_bytes_loop.induct)
    case (1 t k h)
    then show ?case by (subst start_bytes_loop.simps) (auto split: option.splits)
  qed
qed

lemma retired_ingest [simp]:
  "th_retired_messages (start_part t key seed h) = th_retired_messages h"
  "th_retired_messages (finish_part t key h) = th_retired_messages h"
  "th_retired_messages (snd (reserve t live n key h)) = th_retired_messages h"
  "th_retired_messages (check_pending_budget t key h) = th_retired_messages h"
  "th_retired_messages (remember_nontext n key h) = th_retired_messages h"
  by (simp_all add: start_part_def finish_part_def reserve_def check_pending_budget_def remember_nontext_def
      truncate_part_for_all_def Let_def split_beta split: option.splits)

lemma retired_accept [simp]: "th_retired_messages (accept_delta t key d live h) = th_retired_messages h"
  by (simp add: accept_delta_def Let_def split_beta)

lemma retired_part_updated [simp]: "th_retired_messages (on_part_updated t props h) = th_retired_messages h"
  by (cases rule: on_part_updated_gate [of t props h]) (auto simp: Let_def)

lemma retired_part_delta [simp]: "th_retired_messages (on_part_delta t props h) = th_retired_messages h"
  by (cases rule: on_part_delta_gate [of t props h])
    (auto simp: Let_def case_prod_unfold split: option.splits bool.splits)


lemma finish_part_live: "th_live_parts (finish_part t k h) = dict_pop k (th_live_parts h)"
  by (simp add: finish_part_def Let_def split_beta split: option.splits)

lemma part_updated_live:
  assumes "dict_has (th_live_parts (on_part_updated t props h)) key"
  shows "dict_has (th_live_parts h) key \<or> (fst key, fst (snd key)) \<notin> set (th_retired_messages h)"
proof (cases rule: on_part_updated_gate [of t props h])
  case (shut sid)
  then show ?thesis using assms by auto
next
  case (pass part sid mid pid tm)
  let ?g = "snd (is_deleted_sid (fst t) sid h)"
  have "dict_has (th_live_parts h) key \<or> key = (sid, mid, pid)"
    using assms start_part_live [of t "(sid, mid, pid)" _ ?g key] unfolding pass(2)
    by (auto simp: Let_def remember_nontext_def finish_part_live split: if_splits)
  then show ?thesis using pass(1) by auto
qed

lemma accept_delta_live:
  assumes "dict_has (th_live_parts (accept_delta t k d lp h)) key"
  shows "key = k \<or> dict_has (th_live_parts h) key"
  using check_pending_live [OF assms [unfolded accept_delta_split]]
  by (auto simp: early_flush_def accumulated_def Let_def split: if_splits)

lemma reserve_live:
  assumes "dict_has (th_live_parts (snd (reserve t lp n k h))) key"
  shows "dict_has (th_live_parts h) key"
  using assms loops_live(1) [of t n k h key] by (auto simp: reserve_def truncate_part_for_all_def split: if_splits)

lemma part_delta_live:
  assumes "dict_has (th_live_parts (on_part_delta t props h)) key"
  shows "dict_has (th_live_parts h) key"
proof (cases rule: on_part_delta_gate [of t props h])
  case (shut sid)
  then show ?thesis using assms by auto
next
  case (pass sid mid pid d)
  let ?k = "(sid, mid, pid)" and ?g = "snd (is_deleted_sid (fst t) sid h)"
  show ?thesis
  proof (cases "dict_get (th_live_parts h) ?k")
    case None
    then show ?thesis using assms by (simp add: pass(3) Let_def split: if_splits)
  next
    case (Some lp)
    obtain b h2 where r: "reserve t lp (int (utf8_len d)) ?k ?g = (b, h2)" by fastforce
    have "dict_has (th_live_parts h2) key \<Longrightarrow> dict_has (th_live_parts h) key"
      using reserve_live [of t lp "int (utf8_len d)" ?k ?g key] by (simp add: r)
    then show ?thesis
      using assms accept_delta_live [of t ?k d lp h2 key] Some
      by (cases "key = ?k"; cases b) (auto simp: pass(3) Let_def r dict_has_get split: if_splits)
  qed
qed

lemma ttl_fold_live:
  "dict_has (th_live_parts (fold ttl_retire ps h)) key \<Longrightarrow> dict_has (th_live_parts h) key"
proof (induction ps arbitrary: h)
  case (Cons p ps)
  then have "dict_has (th_live_parts (ttl_retire p h)) key" by simp
  then show ?case by (simp add: ttl_retire_def Let_def discard_nontext_def split: option.splits)
qed simp

lemma step_live:
  assumes "dict_has (th_live_parts (hub_step x h)) key"
  shows "dict_has (th_live_parts h) key \<or> (fst key, fst (snd key)) \<notin> set (th_retired_messages h)"
proof (cases x)
  case (PartUpdated t props)
  then show ?thesis using assms part_updated_live by simp
next
  case (PartDelta t props)
  then show ?thesis using assms part_delta_live by simp
next
  case (FlushTick t ticks)
  then show ?thesis
    using assms ttl_fold_live [of _ "flush t h" key]
    by (auto simp: flush_loop_tick_def ttl_sweep_def Let_def split: if_splits)
next
  case UpstreamReconnect
  have "acc_view (fold (\<lambda>sid. fanout_resync sid r) ks g) = acc_view g" for r ks g by (rule fold_keeps) simp
  note v = acc_viewD(3) [OF this]
  show ?thesis using assms by (simp add: UpstreamReconnect on_upstream_reconnect_def Let_def v dict_has_get)
next
  case (SessionDeleted t sid)
  have "acc_view (fold (sub_terminate r) xs g) = acc_view g" for r xs g by (rule fold_keeps) simp
  note v = acc_viewD(3) [OF this]
  show ?thesis
    using assms by (simp add: SessionDeleted on_session_deleted_def Let_def v remember_deleted_sid_def
        retire_session_def retire_where_def)
qed (use assms in \<open>auto simp: on_part_removed_def on_message_removed_def retire_message_def retire_where_def
    on_session_status_def retire_session_def enqueue_session_resync_def prune_session_status_def
    attach_subscriber_def detach_subscriber_def writer_turn_def case_prod_unfold Let_def
    split: option.splits bool.splits if_splits prod.splits\<close>)

text \<open>The events that forget a removed message: a new upstream epoch and the deletion of its session.\<close>

definition forgets :: "string \<Rightarrow> hub_op \<Rightarrow> bool" where
  "forgets sid x \<longleftrightarrow> x = UpstreamReconnect \<or> (\<exists>t. x = SessionDeleted t sid)"

lemma step_retired:
  assumes "(sid, mid) \<in> set (th_retired_messages h)" and "\<not> forgets sid x"
  shows "(sid, mid) \<in> set (th_retired_messages (hub_step x h))"
proof (cases x)
  case (FlushTick t ticks)
  have "th_retired_messages (fold ttl_retire ps g) = th_retired_messages g" for ps g
    by (rule fold_keeps) (simp add: ttl_retire_def Let_def discard_nontext_def split: option.splits)
  then show ?thesis using assms by (simp add: FlushTick flush_loop_tick_def ttl_sweep_def Let_def)
next
  case (SessionDeleted t sid')
  have "acc_view (fold (sub_terminate r) xs g) = acc_view g" for r xs g by (rule fold_keeps) simp
  note v = acc_viewD(12) [OF this]
  show ?thesis
    using assms by (auto simp: SessionDeleted on_session_deleted_def Let_def v remember_deleted_sid_def
        retire_session_def retire_where_def forgets_def)
next
  case UpstreamReconnect
  then show ?thesis using assms by (simp add: forgets_def)
qed (use assms in \<open>auto simp: on_part_removed_def on_message_removed_def retire_message_def retire_where_def
    on_session_status_def retire_session_def enqueue_session_resync_def prune_session_status_def
    attach_subscriber_def detach_subscriber_def writer_turn_def case_prod_unfold Let_def
    split: option.splits bool.splits if_splits prod.splits\<close>)


definition gone :: "string \<Rightarrow> string \<Rightarrow> token_hub \<Rightarrow> bool" where
  "gone sid mid h \<longleftrightarrow> (sid, mid) \<in> set (th_retired_messages h) \<and>
     (\<forall>pid. \<not> dict_has (th_live_parts h) (sid, mid, pid))"

interpretation gone: invariant_system hub_step "\<lambda>x _. \<not> forgets sid x" "gone sid mid"
proof unfold_locales
  fix h x
  assume g: "gone sid mid h" and "\<not> forgets sid x"
  then have r: "(sid, mid) \<in> set (th_retired_messages (hub_step x h))" by (simp add: gone_def step_retired)
  have "\<not> dict_has (th_live_parts (hub_step x h)) (sid, mid, pid)" for pid
    using g step_live [of x h "(sid, mid, pid)"] by (auto simp: gone_def)
  with r show "gone sid mid (hub_step x h)" by (simp add: gone_def)
qed

lemma removed_gone: "gone sid mid (on_message_removed t sid mid h)"
  by (simp add: gone_def on_message_removed_def retire_message_def retire_where_def Let_def dict_has_get)

lemma ok_run_list_all: "ok_run step (\<lambda>x _. P x) xs s \<longleftrightarrow> list_all P xs"
  by (induction xs arbitrary: s) auto

text \<open>
  C37. A removed message is never revived: after \<open>message.removed\<close>, whatever events follow in whatever
  order, late part events of that message included, no part of it becomes live or pending again,
  until its session is deleted or the upstream starts a new epoch.
\<close>

theorem removed_message_stays_removed:
  assumes "caps_ok caps" and "h = fold hub_step before (new_token_hub caps dumps l)"
    and "list_all (\<lambda>x. \<not> forgets sid x) ops" and "h' = fold hub_step ops (on_message_removed t sid mid h)"
  shows "(sid, mid) \<in> set (th_retired_messages h') \<and> \<not> dict_has (th_live_parts h') (sid, mid, pid) \<and>
    \<not> dict_has (th_pending h') (sid, mid, pid)"
proof -
  have "hub_inv h" unfolding assms(2) by (rule hub_run_inv [OF new_token_hub_inv [OF assms(1)]])
  from hub_run_inv [OF on_message_removed_inv [OF this]] have "hub_inv h'" by (simp add: assms(4))
  then have pl: "pend_live h'" by (simp add: hub_inv_def hub_core_def)
  have g: "gone sid mid h'"
    unfolding assms(4) by (rule gone.inv_run [OF removed_gone]) (simp add: ok_run_list_all assms(3))
  then have nl: "\<not> dict_has (th_live_parts h') (sid, mid, pid)" by (simp add: gone_def)
  have "\<not> dict_has (th_pending h') (sid, mid, pid)"
  proof
    assume "dict_has (th_pending h') (sid, mid, pid)"
    then obtain acc where "dict_get (th_pending h') (sid, mid, pid) = Some acc" by (auto simp: dict_has_get)
    with pl nl show False unfolding pend_live_def by blast
  qed
  with g nl show ?thesis by (simp add: gone_def)
qed

theorem removed_message_stays_removed_witness:
  "\<not> dict_has (th_live_parts (fold hub_step [demo_start, demo_delta ''x''] (on_message_removed (2, 2) ''s'' ''m''
       (fold hub_step [demo_start] demo_hub)))) (''s'', ''m'', ''p'')"
proof -
  have caps: "caps_ok default_token_caps" by code_simp
  have "list_all (\<lambda>x. \<not> forgets ''s'' x) [demo_start, demo_delta ''x'']"
    by (simp add: forgets_def demo_start_def demo_delta_def)
  from removed_message_stays_removed [OF caps demo_hub_run this refl] show ?thesis by blast
qed

end
