(* ===== verification/Py_Regex.thy ===== *)
theory Py_Regex
  imports Prelude
begin

text \<open>
  The part of Python's \<^verbatim>\<open>re\<close> module that the program uses: a backtracking matcher over characters up to
  code point 255. \<open>rx r p s\<close> lists, in the order of the backtracking search, the ways to match \<open>r\<close> at a position with
  previous character \<open>p\<close> and rest \<open>s\<close>; the first one is what the engine reports. \<^verbatim>\<open>search\<close> tries the positions from
  left to right, \<^verbatim>\<open>fullmatch\<close> asks for a match that consumes everything, \<^verbatim>\<open>sub\<close> replaces the
  non-overlapping matches.
\<close>

datatype regex =
    Eps
  | Cls "char \<Rightarrow> bool"
  | Seq regex regex
  | Alt regex regex
  | Star regex
  | Lazy regex
  | Not_Ahead regex
  | Not_Behind "char \<Rightarrow> bool"
  | Boundary

text \<open>\<^verbatim>\<open>\w\<close>: what \<^verbatim>\<open>str.isalnum\<close> accepts below 256, and the underscore.\<close>

definition in_range :: "nat \<Rightarrow> nat \<Rightarrow> char \<Rightarrow> bool" where
  "in_range a b c \<longleftrightarrow> a \<le> code_point c \<and> code_point c \<le> b"

definition is_lower_az :: "char \<Rightarrow> bool" where "is_lower_az = in_range 97 122"
definition is_upper_az :: "char \<Rightarrow> bool" where "is_upper_az = in_range 65 90"

definition is_alnum :: "char \<Rightarrow> bool" where
  "is_alnum c \<longleftrightarrow> is_lower_az c \<or> is_upper_az c \<or> is_digit c"

definition is_word :: "char \<Rightarrow> bool" where
  "is_word c \<longleftrightarrow> is_alnum c \<or> code_point c \<in> {95, 170, 178, 179, 181, 185, 186, 188, 189, 190} \<or>
     in_range 192 214 c \<or> in_range 216 246 c \<or> in_range 248 255 c"

text \<open>\<^verbatim>\<open>str.lower\<close> below 256.\<close>

definition lower_char :: "char \<Rightarrow> char" where
  "lower_char c =
     (if is_upper_az c \<or> in_range 192 214 c \<or> in_range 216 222 c then char_of (code_point c + 32) else c)"

definition py_lower :: "string \<Rightarrow> string" where
  "py_lower s = map lower_char s"

definition word_at :: "char option \<Rightarrow> bool" where
  "word_at p = (case p of None \<Rightarrow> False | Some c \<Rightarrow> is_word c)"

definition next_char :: "string \<Rightarrow> char option" where
  "next_char s = (case s of [] \<Rightarrow> None | c # _ \<Rightarrow> Some c)"

function rx :: "regex \<Rightarrow> char option \<Rightarrow> string \<Rightarrow> (char option \<times> string) list" where
  "rx Eps p s = [(p, s)]"
| "rx (Cls P) p s = (case s of [] \<Rightarrow> [] | c # t \<Rightarrow> if P c then [(Some c, t)] else [])"
| "rx (Seq a b) p s = concat (map (\<lambda>(q, t). rx b q t) (rx a p s))"
| "rx (Alt a b) p s = rx a p s @ rx b p s"
| "rx (Star a) p s =
     concat (map (\<lambda>(q, t). if length t < length s then rx (Star a) q t else []) (rx a p s)) @ [(p, s)]"
| "rx (Lazy a) p s =
     (p, s) # concat (map (\<lambda>(q, t). if length t < length s then rx (Lazy a) q t else []) (rx a p s))"
| "rx (Not_Ahead a) p s = (if rx a p s = [] then [(p, s)] else [])"
| "rx (Not_Behind P) p s = (if (case p of None \<Rightarrow> False | Some c \<Rightarrow> P c) then [] else [(p, s)])"
| "rx Boundary p s = (if word_at p \<noteq> word_at (next_char s) then [(p, s)] else [])"
  by pat_completeness auto
termination
  by (relation "measures [\<lambda>(r, p, s). size r, \<lambda>(r, p, s). length s]") auto

declare rx.simps(5,6) [simp del]

fun rx_search :: "regex \<Rightarrow> char option \<Rightarrow> string \<Rightarrow> bool" where
  "rx_search r p [] = (rx r p [] \<noteq> [])"
| "rx_search r p (c # s) = (rx r p (c # s) \<noteq> [] \<or> rx_search r (Some c) s)"

definition search :: "regex \<Rightarrow> string \<Rightarrow> bool" where
  "search r s = rx_search r None s"

definition fullmatch :: "regex \<Rightarrow> string \<Rightarrow> bool" where
  "fullmatch r s \<longleftrightarrow> list_ex (\<lambda>(_, t). t = []) (rx r None s)"

text \<open>
  \<^verbatim>\<open>r.sub(repl, s)\<close> for a pattern that matches no empty string and a replacement without
  back references.
\<close>

function rx_sub :: "regex \<Rightarrow> string \<Rightarrow> char option \<Rightarrow> string \<Rightarrow> string" where
  "rx_sub r repl p s =
     (case s of
        [] \<Rightarrow> []
      | c # rest \<Rightarrow>
          (case filter (\<lambda>(_, t). length t < length s) (rx r p s) of
             [] \<Rightarrow> c # rx_sub r repl (Some c) rest
           | (q, t) # _ \<Rightarrow> repl @ rx_sub r repl q t))"
  by pat_completeness auto
termination
  by (relation "measure (\<lambda>(r, repl, p, s). length s)") (auto simp: filter_eq_Cons_iff)

declare rx_sub.simps [simp del]

definition sub_all :: "regex \<Rightarrow> string \<Rightarrow> string \<Rightarrow> string" where
  "sub_all r repl s = rx_sub r repl None s"

section \<open>Pattern builders\<close>

fun lit :: "string \<Rightarrow> regex" where
  "lit [] = Eps"
| "lit (c # s) = Seq (Cls (\<lambda>x. x = c)) (lit s)"

text \<open>A literal under \<^verbatim>\<open>(?i)\<close>, written in lower case.\<close>

fun lit_i :: "string \<Rightarrow> regex" where
  "lit_i [] = Eps"
| "lit_i (c # s) = Seq (Cls (\<lambda>x. lower_char x = c)) (lit_i s)"

definition plus :: "regex \<Rightarrow> regex" where "plus a = Seq a (Star a)"
definition maybe :: "regex \<Rightarrow> regex" where "maybe a = Alt a Eps"

fun alts :: "regex list \<Rightarrow> regex" where
  "alts [] = Cls (\<lambda>_. False)"
| "alts [a] = a"
| "alts (a # as) = Alt a (alts as)"

fun seqs :: "regex list \<Rightarrow> regex" where
  "seqs [] = Eps"
| "seqs [a] = a"
| "seqs (a # as) = Seq a (seqs as)"

fun rep :: "nat \<Rightarrow> regex \<Rightarrow> regex" where
  "rep 0 a = Eps"
| "rep (Suc n) a = Seq a (rep n a)"

section \<open>Lemmas\<close>

text \<open>What remains after a match is a suffix.\<close>

lemma rx_suffix: "(q, t) \<in> set (rx r p s) \<Longrightarrow> \<exists>u. s = u @ t"
proof (induction r p s arbitrary: q t rule: rx.induct)
  case (2 P p s)
  then show ?case by (cases s) (auto split: if_splits)
next
  case (3 a b p s)
  from "3.prems" obtain q1 t1 where m: "(q1, t1) \<in> set (rx a p s)" "(q, t) \<in> set (rx b q1 t1)" by auto
  obtain u1 where "s = u1 @ t1" using "3.IH"(1) [OF m(1)] ..
  moreover obtain u2 where "t1 = u2 @ t" using "3.IH"(2) [OF m(1) refl m(2)] ..
  ultimately show ?case by simp
next
  case (5 a p s)
  from "5.prems" [unfolded rx.simps(5) [of a p s]] consider (stop) "t = s"
    | (more) q1 t1 where "(q1, t1) \<in> set (rx a p s)" "length t1 < length s" "(q, t) \<in> set (rx (Star a) q1 t1)"
    by (auto split: if_splits)
  then show ?case
  proof cases
    case more
    obtain u1 where "s = u1 @ t1" using "5.IH"(1) [OF more(1)] ..
    moreover obtain u2 where "t1 = u2 @ t" using "5.IH"(2) [OF more(1) refl more(2,3)] ..
    ultimately show ?thesis by simp
  qed simp
next
  case (6 a p s)
  from "6.prems" [unfolded rx.simps(6) [of a p s]] consider (stop) "t = s"
    | (more) q1 t1 where "(q1, t1) \<in> set (rx a p s)" "length t1 < length s" "(q, t) \<in> set (rx (Lazy a) q1 t1)"
    by (auto split: if_splits)
  then show ?case
  proof cases
    case more
    obtain u1 where "s = u1 @ t1" using "6.IH"(1) [OF more(1)] ..
    moreover obtain u2 where "t1 = u2 @ t" using "6.IH"(2) [OF more(1) refl more(2,3)] ..
    ultimately show ?thesis by simp
  qed simp
qed (auto split: if_splits)

lemma rx_lit: "rx (lit u) p s \<noteq> [] \<longleftrightarrow> (\<exists>t. s = u @ t)"
proof (induction u arbitrary: p s)
  case (Cons c u)
  then show ?case by (cases s) (auto split: if_splits)
qed simp

lemma rx_search_iff: "rx_search r p s \<longleftrightarrow> (\<exists>u t q. s = u @ t \<and> q = (if u = [] then p else Some (last u)) \<and> rx r q t \<noteq> [])"
proof (induction s arbitrary: p)
  case (Cons c s)
  show ?case (is "?l \<longleftrightarrow> ?r")
  proof
    assume ?l
    then show ?r
    proof (cases "rx r p (c # s) \<noteq> []")
      case True
      then show ?thesis by (intro exI [of _ "[]"] exI [of _ "c # s"]) auto
    next
      case False
      then obtain u t where "s = u @ t" "rx r (if u = [] then Some c else Some (last u)) t \<noteq> []"
        using \<open>?l\<close> Cons.IH [of "Some c"] by auto
      then show ?thesis by (intro exI [of _ "c # u"] exI [of _ t]) auto
    qed
  next
    assume ?r
    then obtain u t where u: "c # s = u @ t" "rx r (if u = [] then p else Some (last u)) t \<noteq> []" by auto
    show ?l
    proof (cases u)
      case Nil
      then have "t = c # s" using u(1) by simp
      then show ?thesis using u(2) Nil by simp
    next
      case (Cons x v)
      then have "rx_search r (Some c) s" using u Cons.IH [of "Some c"] by (auto split: if_splits)
      then show ?thesis by simp
    qed
  qed
qed auto

text \<open>Searching for a literal is the substring test.\<close>

lemma search_lit: "search (lit w) s \<longleftrightarrow> (\<exists>u v. s = u @ w @ v)"
  unfolding search_def rx_search_iff rx_lit by auto

end
