(* ===== verification/Provider_Errors.thy ===== *)
theory Provider_Errors
  imports Sse_Frames Py_Regex
begin

text \<open>
  What of an upstream \<^verbatim>\<open>session.error\<close> reaches the wire: the redaction of the error text
  (\<open>_sanitize_error_message\<close> of \<^verbatim>\<open>sse/hub_types.py\<close>) and the structured classification of
  \<^verbatim>\<open>sse/provider_errors.py\<close>. Strings hold code points below 256, so the patterns with Chinese words
  never match and are left out. The ISO-8601 parser of \<^verbatim>\<open>datetime\<close> is the argument \<open>iso_ok\<close>.
\<close>

section \<open>Redaction\<close>

definition name_char :: "char \<Rightarrow> bool" where
  "name_char c \<longleftrightarrow> is_alnum c \<or> c = CHR ''.'' \<or> c = CHR ''_'' \<or> c = CHR ''-''"

abbreviation backslash :: char where "backslash \<equiv> CHR 0x5C"

definition UNIX_PATH_RE :: regex where
  "UNIX_PATH_RE = seqs [lit ''/'', Star (Seq (plus (Cls name_char)) (lit ''/'')), plus (Cls name_char)]"

definition WIN_PATH_RE :: regex where
  "WIN_PATH_RE = seqs [Cls (\<lambda>c. is_lower_az c \<or> is_upper_az c), lit '':'',
     plus (Seq (Cls (\<lambda>c. c = backslash \<or> c = CHR ''/'')) (plus (Cls name_char)))]"

definition STACK_FRAME_RE :: regex where
  "STACK_FRAME_RE = seqs [Star (Cls is_py_space), Boundary, lit_i ''at'', plus (Cls is_py_space),
     Cls (\<lambda>c. \<not> is_py_space c), Lazy (Cls (\<lambda>c. \<not> is_py_space c)), lit '':'', plus (Cls is_digit),
     maybe (Seq (lit '':'') (plus (Cls is_digit)))]"

definition dash_opt :: regex where
  "dash_opt = maybe (Cls (\<lambda>c. c = CHR ''_'' \<or> c = CHR ''-''))"

definition SECRET_RE :: regex where
  "SECRET_RE = seqs [Boundary,
     alts [seqs [lit_i ''access'', dash_opt, lit_i ''token''], seqs [lit_i ''refresh'', dash_opt, lit_i ''token''],
           seqs [lit_i ''client'', dash_opt, lit_i ''secret''], seqs [lit_i ''auth'', dash_opt, lit_i ''token''],
           seqs [lit_i ''api'', dash_opt, lit_i ''key''], lit_i ''token'', lit_i ''key'', lit_i ''bearer'',
           lit_i ''password'', lit_i ''passwd'', lit_i ''secret'', lit_i ''authorization''],
     Boundary, Star (Cls is_py_space), Cls (\<lambda>c. c = CHR '':'' \<or> c = CHR ''=''), Star (Cls is_py_space),
     maybe (Seq (lit_i ''bearer'') (plus (Cls is_py_space))),
     maybe (Cls (\<lambda>c. c = CHR 0x22 \<or> c = CHR 0x27)),
     plus (Cls (\<lambda>c. name_char c \<or> c = CHR ''/'' \<or> c = CHR ''='' \<or> c = CHR ''+''))]"

text \<open>\<^verbatim>\<open>x or y or "(no detail)"\<close>\<close>

definition fallback_text :: "string option \<Rightarrow> string" where
  "fallback_text name = (case name of None \<Rightarrow> ''(no detail)'' | Some n \<Rightarrow> if n = [] then ''(no detail)'' else n)"

definition sanitize_error_message :: "json \<Rightarrow> string option \<Rightarrow> string" where
  "sanitize_error_message message fallback_name =
     (case message of
        JStr m \<Rightarrow>
          if m = [] then fallback_text fallback_name
          else let l0 = takeWhile (\<lambda>c. c \<noteq> newline) m;
                   l1 = sub_all WIN_PATH_RE ''<path>'' l0;
                   l2 = sub_all UNIX_PATH_RE ''<path>'' l1;
                   l3 = sub_all STACK_FRAME_RE [] l2;
                   l4 = sub_all SECRET_RE ''<redacted>'' l3;
                   l5 = py_strip l4;
                   l6 = (if length l5 > 512 then take 512 l5 else l5)
               in if l6 = [] then fallback_text fallback_name else l6
      | _ \<Rightarrow> fallback_text fallback_name)"

section \<open>Codes and patterns\<close>

definition PROVIDER_ERROR_CODES :: "string list" where
  "PROVIDER_ERROR_CODES = [''provider_rate_limited'', ''provider_quota_exceeded'', ''provider_model_overloaded'',
     ''provider_context_length_exceeded'', ''provider_unauthorized'', ''provider_model_not_found'', ''provider_error'']"

definition lower_or_digit :: "char \<Rightarrow> bool" where
  "lower_or_digit c \<longleftrightarrow> is_digit c \<or> is_lower_az c"

definition bounded :: "string \<Rightarrow> regex" where
  "bounded w = seqs [Not_Behind lower_or_digit, lit w, Not_Ahead (Cls lower_or_digit)]"

definition CATEGORY_ORDER :: "(string \<times> regex list) list" where
  "CATEGORY_ORDER =
     [(''provider_unauthorized'', [lit ''unauthorized'', bounded ''401'', lit ''invalid api key'',
        lit ''invalid_api_key'', lit ''authentication'']),
      (''provider_model_not_found'', [lit ''model not found'', lit ''model_not_found'', lit ''no such model'',
        lit ''unknown model'', lit ''model does not exist'']),
      (''provider_context_length_exceeded'', [lit ''context length'', lit ''context_length'', lit ''maximum context'',
        lit ''context window'', lit ''prompt is too long'', lit ''too long'', lit ''token limit'']),
      (''provider_quota_exceeded'', [lit ''quota'', lit ''insufficient quota'', lit ''billing'']),
      (''provider_rate_limited'', [lit ''rate limit'', lit ''rate_limit'', bounded ''429'', lit ''too many requests'',
        lit ''retry after'']),
      (''provider_model_overloaded'', [lit ''overloaded'', lit ''overload'', lit ''high load''])]"

abbreviation PROVIDER_ERROR_FALLBACK :: string where "PROVIDER_ERROR_FALLBACK \<equiv> ''provider_error''"

definition TYPE_CODE_MAP :: "(string, string) dict" where
  "TYPE_CODE_MAP = [(''rate_limit_error'', ''provider_rate_limited''), (''overloaded_error'', ''provider_model_overloaded''),
     (''authentication_error'', ''provider_unauthorized''), (''insufficient_quota'', ''provider_quota_exceeded'')]"

definition STATUS_CODE_MAP :: "(int, string) dict" where
  "STATUS_CODE_MAP = [(401, ''provider_unauthorized''), (429, ''provider_rate_limited''), (402, ''provider_quota_exceeded'')]"

abbreviation (input) RETRY_AFTER_MIN_S :: int where "RETRY_AFTER_MIN_S \<equiv> 1"
abbreviation (input) RETRY_AFTER_MAX_S :: int where "RETRY_AFTER_MAX_S \<equiv> 86400"

definition token_char :: "char \<Rightarrow> bool" where
  "token_char c \<longleftrightarrow> name_char c \<or> c = CHR ''/'' \<or> c = CHR '':''"

text \<open>\<^verbatim>\<open>[A-Za-z0-9._\-/:]{1,64}\<close> under \<^verbatim>\<open>fullmatch\<close>.\<close>

definition safe_token_match :: "string \<Rightarrow> bool" where
  "safe_token_match s \<longleftrightarrow> 1 \<le> length s \<and> length s \<le> 64 \<and> list_all token_char s"

definition CREDENTIAL_PREFIXES :: "string list" where
  "CREDENTIAL_PREFIXES = [''sk-'', ''sk_'', ''pk-'', ''rk-'', ''ghp_'', ''gho_'', ''ghu_'', ''ghs_'', ''github_pat_'',
     ''xoxb-'', ''xoxp-'', ''xoxa-'', ''akia'', ''agpa'', ''aida'', ''aiza'', ''eyj'']"

text \<open>\<^verbatim>\<open>[A-Za-z0-9]{32,}\<close> under \<^verbatim>\<open>search\<close>: a run of at least 32 alphanumeric characters.\<close>

fun alnum_run :: "nat \<Rightarrow> string \<Rightarrow> bool" where
  "alnum_run n [] = (n \<ge> 32)"
| "alnum_run n (c # s) = (n \<ge> 32 \<or> alnum_run (if is_alnum c then Suc n else 0) s)"

abbreviation (input) QUOTA_RESET_MAX_LEN :: nat where "QUOTA_RESET_MAX_LEN \<equiv> 64"
abbreviation INT64_MIN :: int where "INT64_MIN \<equiv> - (2 ^ 63)"
abbreviation INT64_MAX :: int where "INT64_MAX \<equiv> 2 ^ 63 - 1"

section \<open>Classification\<close>

definition lower_str :: "json \<Rightarrow> string" where
  "lower_str v = (case v of JStr s \<Rightarrow> py_lower s | _ \<Rightarrow> [])"

definition safe_token :: "json \<Rightarrow> string option" where
  "safe_token v =
     (case v of
        JStr s \<Rightarrow>
          if \<not> safe_token_match s then None
          else if list_ex (\<lambda>p. starts_with p (py_lower s)) CREDENTIAL_PREFIXES then None
          else if alnum_run 0 s then None
          else Some s
      | _ \<Rightarrow> None)"

definition clamp_retry_after :: "int \<Rightarrow> int" where
  "clamp_retry_after v = max RETRY_AFTER_MIN_S (min RETRY_AFTER_MAX_S v)"

definition code_from_data :: "(string \<times> json) list \<Rightarrow> string option" where
  "code_from_data data =
     (case (case jget data ''code'' of JStr c \<Rightarrow> if c \<in> set PROVIDER_ERROR_CODES then Some c else None | _ \<Rightarrow> None) of
        Some c \<Rightarrow> Some c
      | None \<Rightarrow>
          (case dict_get TYPE_CODE_MAP (lower_str (jget data ''type'')) of
             Some c \<Rightarrow> Some c
           | None \<Rightarrow> (case jget data ''status'' of JInt st \<Rightarrow> dict_get STATUS_CODE_MAP st | _ \<Rightarrow> None)))"

definition code_from_text :: "string \<Rightarrow> string \<Rightarrow> string" where
  "code_from_text name_l message_l =
     (case List.find (\<lambda>(_, pats). list_ex (\<lambda>p. search p name_l \<or> search p message_l) pats) CATEGORY_ORDER of
        None \<Rightarrow> PROVIDER_ERROR_FALLBACK
      | Some (candidate, _) \<Rightarrow> candidate)"

text \<open>
  \<open>_RETRY_AFTER_TEXT_RE\<close> in three pieces, so that the text of its group is what the middle piece consumed.
\<close>

definition RETRY_PRE :: regex where
  "RETRY_PRE = seqs [Alt (lit_i ''retry'') (lit_i ''try again''), plus (Cls is_py_space),
     Alt (lit_i ''in'') (lit_i ''after''), plus (Cls is_py_space)]"

definition RETRY_NUM :: regex where
  "RETRY_NUM = Seq (plus (Cls is_digit)) (maybe (Seq (lit ''.'') (plus (Cls is_digit))))"

definition is_blank :: "char \<Rightarrow> bool" where "is_blank c \<longleftrightarrow> c = CHR '' '' \<or> c = char_of (9::nat)"
definition is_letter :: "char \<Rightarrow> bool" where "is_letter c \<longleftrightarrow> is_lower_az c \<or> is_upper_az c"

definition RETRY_POST :: regex where
  "RETRY_POST = Alt
     (seqs [Star (Cls is_blank),
        alts [Seq (lit_i ''second'') (maybe (lit_i ''s'')), Seq (lit_i ''sec'') (maybe (lit_i ''s'')), lit_i ''s''],
        Not_Ahead (Cls is_alnum)])
     (Seq (Not_Ahead (Cls (\<lambda>c. is_alnum c \<or> c = CHR ''.''))) (Not_Ahead (Seq (Star (Cls is_blank)) (Cls is_letter))))"

definition retry_at :: "char option \<Rightarrow> string \<Rightarrow> string list" where
  "retry_at p s =
     concat (map (\<lambda>(q1, s1). concat (map (\<lambda>(q2, s2).
       if rx RETRY_POST q2 s2 = [] then [] else [take (length s1 - length s2) s1]) (rx RETRY_NUM q1 s1)))
       (rx RETRY_PRE p s))"

fun retry_search :: "char option \<Rightarrow> string \<Rightarrow> string option" where
  "retry_search p [] = (case retry_at p [] of [] \<Rightarrow> None | d # _ \<Rightarrow> Some d)"
| "retry_search p (c # s) =
     (case retry_at p (c # s) of d # _ \<Rightarrow> Some d | [] \<Rightarrow> retry_search (Some c) s)"

text \<open>
  \<^verbatim>\<open>math.ceil(float(digits))\<close> on at most 15 characters, where the conversion rounds by less than the
  distance to the next integer: the integer part, plus one if a fractional digit is not zero.
\<close>

definition ceil_digits :: "string \<Rightarrow> int" where
  "ceil_digits d =
     (let ip = takeWhile (\<lambda>c. c \<noteq> CHR ''.'') d; fp = drop (Suc (length ip)) d
      in int (digits_val ip) + (if list_ex (\<lambda>c. c \<noteq> CHR ''0'') fp then 1 else 0))"

definition retry_after_from_text :: "string \<Rightarrow> int option" where
  "retry_after_from_text message =
     (case retry_search None message of
        None \<Rightarrow> None
      | Some digits \<Rightarrow>
          let int_part = takeWhile (\<lambda>c. c \<noteq> CHR ''.'') digits
          in if length int_part > 9 \<or> (CHR ''.'' \<in> set digits \<and> length digits > 15) then Some RETRY_AFTER_MAX_S
             else Some (clamp_retry_after (ceil_digits digits)))"

text \<open>JSON numbers are finite, so the checks for infinities and NaN never fire.\<close>

definition retry_after_from_data :: "json \<Rightarrow> int option" where
  "retry_after_from_data v =
     (case v of
        JInt i \<Rightarrow> Some (if i > RETRY_AFTER_MAX_S then RETRY_AFTER_MAX_S else if i < RETRY_AFTER_MIN_S then RETRY_AFTER_MIN_S else i)
      | JFloat r \<Rightarrow> Some (clamp_retry_after (ceiling r))
      | _ \<Rightarrow> None)"

definition quota_reset_from_data :: "(string \<Rightarrow> bool) \<Rightarrow> json \<Rightarrow> json option" where
  "quota_reset_from_data iso_ok v =
     (case v of
        JInt i \<Rightarrow> if INT64_MIN \<le> i \<and> i \<le> INT64_MAX then Some (JInt i) else None
      | JFloat r \<Rightarrow> Some (JFloat r)
      | JStr s \<Rightarrow> if 0 < length s \<and> length s \<le> QUOTA_RESET_MAX_LEN \<and> iso_ok s then Some (JStr s) else None
      | _ \<Rightarrow> None)"

text \<open>\<open>x if x is not None else y\<close>\<close>

definition or_else :: "'a option \<Rightarrow> 'a option \<Rightarrow> 'a option" where
  "or_else x y = (case x of None \<Rightarrow> y | Some _ \<Rightarrow> x)"

definition classify_provider_error ::
  "(string \<Rightarrow> bool) \<Rightarrow> json \<Rightarrow> json \<Rightarrow> json \<Rightarrow> (string \<times> json) list" where
  "classify_provider_error iso_ok name message data0 =
     (let data = (case data0 of JObj d \<Rightarrow> d | _ \<Rightarrow> []);
          raw_message = (case message of JStr m \<Rightarrow> m | _ \<Rightarrow> []);
          code = (case code_from_data data of Some c \<Rightarrow> c | None \<Rightarrow> code_from_text (lower_str name) (lower_str message));
          retry = or_else (retry_after_from_data (jget data ''retryAfter''))
                    (or_else (retry_after_from_data (jget data ''retry_after'')) (retry_after_from_text raw_message));
          quota = or_else (quota_reset_from_data iso_ok (jget data ''quotaResetAt''))
                    (quota_reset_from_data iso_ok (jget data ''quota_reset_at''))
      in [(''code'', JStr code)]
         @ opt_field ''provider'' (map_option JStr (safe_token (jget data ''provider'')))
         @ opt_field ''model'' (map_option JStr (safe_token (jget data ''model'')))
         @ opt_field ''retryAfter'' (map_option JInt retry)
         @ opt_field ''quotaResetAt'' quota)"


section \<open>Lemmas\<close>

lemma set_rx_sub: "set (rx_sub r repl p s) \<subseteq> set s \<union> set repl"
proof (induction r repl p s rule: rx_sub.induct)
  case (1 r repl p s)
  show ?case
  proof (cases s)
    case Nil
    then show ?thesis by (simp add: rx_sub.simps)
  next
    case sc: (Cons c rest)
    show ?thesis
    proof (cases "filter (\<lambda>(_, t). length t < length s) (rx r p s)")
      case Nil
      then have "rx_sub r repl p s = c # rx_sub r repl (Some c) rest"
        by (subst rx_sub.simps) (simp add: sc)
      then show ?thesis using "1.IH"(1) [OF sc Nil] sc by auto
    next
      case (Cons m ms)
      obtain q t where m: "m = (q, t)" by fastforce
      have eq: "rx_sub r repl p s = repl @ rx_sub r repl q t"
        using Cons by (subst rx_sub.simps) (simp add: sc m)
      have "(q, t) \<in> set (filter (\<lambda>(_, t). length t < length s) (rx r p s))"
        unfolding Cons m by simp
      then have "(q, t) \<in> set (rx r p s)" by simp
      from rx_suffix [OF this] have "set t \<subseteq> set s" by auto
      then show ?thesis using "1.IH"(2) [OF sc Cons m [symmetric]] eq by auto
    qed
  qed
qed

lemma set_sub_all: "set (sub_all r repl s) \<subseteq> set s \<union> set repl"
  by (simp add: sub_all_def set_rx_sub)

lemma set_py_strip: "set (py_strip s) \<subseteq> set s"
  by (auto simp: py_strip_def dest!: set_dropWhileD)

lemma alnum_run_mono: "alnum_run n s \<Longrightarrow> n \<le> m \<Longrightarrow> alnum_run m s"
proof (induction s arbitrary: n m)
  case (Cons c s)
  have "alnum_run (if is_alnum c then Suc m else 0) s" if "alnum_run (if is_alnum c then Suc n else 0) s"
    using Cons.IH [of "Suc n" "Suc m"] Cons.prems(2) that by (auto split: if_splits)
  then show ?case using Cons.prems by auto
qed simp

lemma alnum_run_prefix: "list_all is_alnum w \<Longrightarrow> n + length w \<ge> 32 \<Longrightarrow> alnum_run n (w @ v)"
proof (induction w arbitrary: n)
  case Nil
  then show ?case by (cases v) simp_all
qed simp

lemma alnum_run_inside: "alnum_run 0 s \<Longrightarrow> alnum_run n (u @ s)"
proof (induction u arbitrary: n)
  case Nil
  then show ?case using alnum_run_mono [of 0 s n] by simp
qed simp

lemma no_alnum_run:
  assumes "\<not> alnum_run 0 s" and "s = u @ w @ v" and "length w = 32"
  shows "\<not> list_all is_alnum w"
  using assms alnum_run_inside [OF alnum_run_prefix [of w 0 v], of 0 u] by auto

lemma code_from_data_known: "code_from_data data = Some c \<Longrightarrow> c \<in> set PROVIDER_ERROR_CODES"
  by (auto simp: code_from_data_def TYPE_CODE_MAP_def STATUS_CODE_MAP_def PROVIDER_ERROR_CODES_def dict_get_def
      split: option.splits json.splits if_splits)

lemma code_from_text_known: "code_from_text n m \<in> set PROVIDER_ERROR_CODES"
proof -
  have "\<forall>c \<in> fst ` set CATEGORY_ORDER. c \<in> set PROVIDER_ERROR_CODES" by code_simp
  moreover have "PROVIDER_ERROR_FALLBACK \<in> set PROVIDER_ERROR_CODES" by code_simp
  ultimately show ?thesis
    by (auto simp: code_from_text_def find_Some_iff split: option.splits) (metis fst_conv image_eqI nth_mem)
qed

lemma retry_bounds:
  "retry_after_from_data v = Some i \<Longrightarrow> 1 \<le> i \<and> i \<le> RETRY_AFTER_MAX_S"
  "retry_after_from_text m = Some i \<Longrightarrow> 1 \<le> i \<and> i \<le> RETRY_AFTER_MAX_S"
  by (auto simp: retry_after_from_data_def retry_after_from_text_def clamp_retry_after_def Let_def
      split: json.splits option.splits if_splits)

lemma in_opt_field: "(a, b) \<in> set (opt_field k v) \<longleftrightarrow> a = k \<and> v = Some b"
  by (auto simp: opt_field_def split: option.splits)

lemma in_fields:
  "(k, v) \<in> set ([(k1, x)] @ opt_field k2 f2 @ opt_field k3 f3 @ opt_field k4 f4 @ opt_field k5 f5) \<longleftrightarrow>
     k = k1 \<and> v = x \<or> k = k2 \<and> f2 = Some v \<or> k = k3 \<and> f3 = Some v \<or> k = k4 \<and> f4 = Some v \<or> k = k5 \<and> f5 = Some v"
  by (simp add: in_opt_field)

lemma or_else_Some: "or_else x y = Some v \<Longrightarrow> x = Some v \<or> y = Some v"
  by (auto simp: or_else_def split: option.splits)

text \<open>A provider or model name that passed: safe alphabet and length, no credential.\<close>

lemma safe_token_clean:
  assumes "map_option JStr (safe_token x) = Some v"
  shows "\<exists>s. v = JStr s \<and> s \<noteq> [] \<and> length s \<le> 64 \<and> list_all token_char s \<and>
    (\<forall>p \<in> set CREDENTIAL_PREFIXES. \<not> starts_with p (py_lower s)) \<and>
    (\<forall>u w z. s = u @ w @ z \<and> length w = 32 \<longrightarrow> \<not> list_all is_alnum w)"
proof -
  obtain s where s: "safe_token x = Some s" "v = JStr s" using assms by auto
  then have "safe_token_match s" "\<not> list_ex (\<lambda>p. starts_with p (py_lower s)) CREDENTIAL_PREFIXES" "\<not> alnum_run 0 s"
    by (auto simp: safe_token_def split: json.splits if_splits)
  then show ?thesis using s(2) no_alnum_run by (auto simp: safe_token_match_def list_ex_iff)
qed

lemma quota_in_range: "quota_reset_from_data iso_ok v = Some (JInt i) \<Longrightarrow> - (2 ^ 63) \<le> i \<and> i < 2 ^ 63"
  by (auto simp: quota_reset_from_data_def split: json.splits if_splits)

text \<open>The result as a list of fields, each with its origin.\<close>

lemma classify_fields:
  obtains code prov mdl retry quota where
    "classify_provider_error iso_ok name message data = [(''code'', JStr code)] @ opt_field ''provider'' (map_option JStr prov) @
       opt_field ''model'' (map_option JStr mdl) @ opt_field ''retryAfter'' (map_option JInt retry) @ opt_field ''quotaResetAt'' quota"
    "code \<in> set PROVIDER_ERROR_CODES" "\<exists>v. prov = safe_token v" "\<exists>v. mdl = safe_token v"
    "\<forall>i. retry = Some i \<longrightarrow> 1 \<le> i \<and> i \<le> 86400" "\<forall>i. quota = Some (JInt i) \<longrightarrow> - (2 ^ 63) \<le> i \<and> i < 2 ^ 63"
proof -
  define d where "d = (case data of JObj d \<Rightarrow> d | _ \<Rightarrow> [])"
  define retry where "retry = or_else (retry_after_from_data (jget d ''retryAfter''))
      (or_else (retry_after_from_data (jget d ''retry_after'')) (retry_after_from_text (case message of JStr m \<Rightarrow> m | _ \<Rightarrow> [])))"
  define quota where "quota = or_else (quota_reset_from_data iso_ok (jget d ''quotaResetAt''))
      (quota_reset_from_data iso_ok (jget d ''quota_reset_at''))"
  define code where "code = (case code_from_data d of Some c \<Rightarrow> c | None \<Rightarrow> code_from_text (lower_str name) (lower_str message))"
  show thesis
  proof (rule that [of code "safe_token (jget d ''provider'')" "safe_token (jget d ''model'')" retry quota])
    show "code \<in> set PROVIDER_ERROR_CODES"
      using code_from_data_known code_from_text_known by (auto simp: code_def split: option.splits)
    show "\<forall>i. retry = Some i \<longrightarrow> 1 \<le> i \<and> i \<le> 86400"
      using retry_bounds by (auto simp: retry_def dest!: or_else_Some)
    show "\<forall>i. quota = Some (JInt i) \<longrightarrow> - (2 ^ 63) \<le> i \<and> i < 2 ^ 63"
      by (auto simp: quota_def dest!: or_else_Some quota_in_range)
  qed (auto simp: classify_provider_error_def d_def retry_def quota_def code_def Let_def)
qed

section \<open>Properties\<close>

text \<open>
  C23. The classification of an error leaks nothing: whatever the upstream sends, the result has a
  known code and no key outside the whitelist, a retry time between one second and a day, reset
  times that the serializer can carry, and provider or model names only of the safe alphabet, of
  at most 64 characters, without a known credential prefix and without a run of 32 alphanumeric
  characters.
\<close>

theorem classification_whitelisted:
  assumes "r = classify_provider_error iso_ok name message data"
  shows "distinct (map fst r) \<and> set (map fst r) \<subseteq> {''code'', ''provider'', ''model'', ''retryAfter'', ''quotaResetAt''} \<and>
    (\<exists>c. c \<in> set PROVIDER_ERROR_CODES \<and> hd r = (''code'', JStr c)) \<and>
    (\<forall>k v. (k, v) \<in> set r \<longrightarrow>
      (k = ''retryAfter'' \<longrightarrow> (\<exists>i. v = JInt i \<and> 1 \<le> i \<and> i \<le> 86400)) \<and>
      (k = ''quotaResetAt'' \<longrightarrow> (\<forall>i. v = JInt i \<longrightarrow> - (2 ^ 63) \<le> i \<and> i < 2 ^ 63)) \<and>
      (k = ''provider'' \<or> k = ''model'' \<longrightarrow>
        (\<exists>s. v = JStr s \<and> s \<noteq> [] \<and> length s \<le> 64 \<and> list_all token_char s \<and>
          (\<forall>p \<in> set CREDENTIAL_PREFIXES. \<not> starts_with p (py_lower s)) \<and>
          (\<forall>u w z. s = u @ w @ z \<and> length w = 32 \<longrightarrow> \<not> list_all is_alnum w))))"
proof -
  obtain code prov mdl retry quota where r: "r = [(''code'', JStr code)] @ opt_field ''provider'' (map_option JStr prov) @
       opt_field ''model'' (map_option JStr mdl) @ opt_field ''retryAfter'' (map_option JInt retry) @ opt_field ''quotaResetAt'' quota"
    and c: "code \<in> set PROVIDER_ERROR_CODES" and t: "\<exists>v. prov = safe_token v" "\<exists>v. mdl = safe_token v"
    and b: "\<forall>i. retry = Some i \<longrightarrow> 1 \<le> i \<and> i \<le> 86400" "\<forall>i. quota = Some (JInt i) \<longrightarrow> - (2 ^ 63) \<le> i \<and> i < 2 ^ 63"
    unfolding assms by (rule classify_fields)
  have el: "(k, v) \<in> set r \<longleftrightarrow> k = ''code'' \<and> v = JStr code \<or> k = ''provider'' \<and> map_option JStr prov = Some v \<or>
      k = ''model'' \<and> map_option JStr mdl = Some v \<or> k = ''retryAfter'' \<and> map_option JInt retry = Some v \<or>
      k = ''quotaResetAt'' \<and> quota = Some v" for k v
    unfolding r by (rule in_fields)
  have retry: "\<exists>i. v = JInt i \<and> 1 \<le> i \<and> i \<le> 86400" if "(k, v) \<in> set r" "k = ''retryAfter''" for k v
    using that b(1) unfolding el by auto
  have quota: "- (2 ^ 63) \<le> i \<and> i < 2 ^ 63" if "(k, v) \<in> set r" "k = ''quotaResetAt''" "v = JInt i" for k v i
    using that b(2) unfolding el by auto
  have origin: "\<exists>x. map_option JStr (safe_token x) = Some v" if "(k, v) \<in> set r" "k = ''provider'' \<or> k = ''model''" for k v
    using that t unfolding el by auto
  have tok: "\<exists>s. v = JStr s \<and> s \<noteq> [] \<and> length s \<le> 64 \<and> list_all token_char s \<and>
      (\<forall>p \<in> set CREDENTIAL_PREFIXES. \<not> starts_with p (py_lower s)) \<and>
      (\<forall>u w z. s = u @ w @ z \<and> length w = 32 \<longrightarrow> \<not> list_all is_alnum w)"
    if "(k, v) \<in> set r" "k = ''provider'' \<or> k = ''model''" for k v
    using origin [OF that] by (elim exE) (rule safe_token_clean)
  have shape: "distinct (map fst r)" "set (map fst r) \<subseteq> {''code'', ''provider'', ''model'', ''retryAfter'', ''quotaResetAt''}"
    by (auto simp: r opt_field_def split: option.splits)
  have "\<exists>c. c \<in> set PROVIDER_ERROR_CODES \<and> hd r = (''code'', JStr c)" using c by (simp add: r)
  with shape show ?thesis
    by (intro conjI allI impI) (assumption | erule (1) retry | erule (1) tok | rule quota [THEN conjunct1] quota [THEN conjunct2])+
qed

theorem classification_whitelisted_witness:
  "distinct (map fst (classify_provider_error (\<lambda>_. True) JNull (JStr ''429 retry after 2s'')
     (JObj [(''provider'', JStr ''sk-abc''), (''model'', JStr ''gpt-4'')]))) \<and>
   classify_provider_error (\<lambda>_. True) JNull (JStr ''429 retry after 2s'')
     (JObj [(''provider'', JStr ''sk-abc''), (''model'', JStr ''gpt-4'')]) =
   [(''code'', JStr ''provider_rate_limited''), (''model'', JStr ''gpt-4''), (''retryAfter'', JInt 2)]"
proof -
  have "classify_provider_error (\<lambda>_. True) JNull (JStr ''429 retry after 2s'')
     (JObj [(''provider'', JStr ''sk-abc''), (''model'', JStr ''gpt-4'')]) =
     [(''code'', JStr ''provider_rate_limited''), (''model'', JStr ''gpt-4''), (''retryAfter'', JInt 2)]"
    by code_simp
  with classification_whitelisted [OF refl, of "\<lambda>_. True" JNull "JStr ''429 retry after 2s''"
      "JObj [(''provider'', JStr ''sk-abc''), (''model'', JStr ''gpt-4'')]"] show ?thesis by blast
qed

text \<open>
  The redacted error text is never empty, and unless it is the fall-back it is one line of at
  most 512 characters.
\<close>

theorem sanitized_bounded:
  "sanitize_error_message message name \<noteq> [] \<and>
   (sanitize_error_message message name = fallback_text name \<or>
    length (sanitize_error_message message name) \<le> 512 \<and> newline \<notin> set (sanitize_error_message message name))"
proof -
  have fb: "fallback_text name \<noteq> []" by (simp add: fallback_text_def split: option.splits)
  have nl: "newline \<notin> set (sub_all r repl s)" if "newline \<notin> set s" "newline \<notin> set repl" for r repl s
    using that set_sub_all [of r repl s] by blast
  have lits: "newline \<notin> set ''<path>''" "newline \<notin> set ''<redacted>''" by code_simp+
  have main: "newline \<notin> set (py_strip (sub_all SECRET_RE ''<redacted>'' (sub_all STACK_FRAME_RE [] (sub_all UNIX_PATH_RE ''<path>''
      (sub_all WIN_PATH_RE ''<path>'' (takeWhile (\<lambda>c. c \<noteq> newline) m))))))" for m
    using set_py_strip lits by (intro contra_subsetD [OF set_py_strip] nl) (auto dest: set_takeWhileD)
  show ?thesis
  proof (cases message)
    case (JStr m)
    then show ?thesis
      using fb main [of m] by (auto simp: sanitize_error_message_def Let_def dest: in_set_takeD)
  qed (use fb in \<open>simp_all add: sanitize_error_message_def\<close>)
qed

end
