(* ===== verification/Turn_Registry.thy ===== *)
theory Turn_Registry
  imports Prelude
begin

text \<open>
  The turn fence of \<^verbatim>\<open>turn_registry.py\<close>: the persisted incarnation counter
  (\<open>IncarnationStore\<close>), the per-session turn counter with its LRU cap (\<open>TurnRegistry\<close>) and the
  path classifiers that decide which writes bump a turn.

  The file system is the record \<open>inc_disk\<close> with the two files the store reads; whether each write
  attempt of a start-up succeeds is an argument (a list of outcomes), as is the wall clock.
  A write either replaces the primary file atomically or leaves it untouched. The interpreter's limit
  on the number of digits of \<^verbatim>\<open>int()\<close> and \<^verbatim>\<open>f"{inc}"\<close> is part of the model.
\<close>

section \<open>IncarnationStore\<close>

text \<open>
  What a path holds: nothing, a path that cannot even be tested (\<^verbatim>\<open>path.exists()\<close> raises, as it does
  up to Python 3.13 for a \<open>PermissionError\<close> of \<^verbatim>\<open>stat\<close>, a directory without search permission say), a
  file that cannot be read (\<open>OSError\<close>), bytes that are not UTF-8, or text.
\<close>

datatype inc_file = Missing | Unsearchable | Unreadable | Undecodable | Content string

record inc_disk =
  dk_path :: inc_file
  dk_legacy_path :: "inc_file option"

datatype inc_error = PermissionError | UnicodeDecodeError | ValueError

text \<open>
  \<open>_read_path\<close>: the \<open>OSError\<close> of reading is caught, the one of \<^verbatim>\<open>path.exists()\<close> and the decoding error
  are not. A \<open>ValueError\<close> of \<^verbatim>\<open>int()\<close>, for too many digits too, makes the file count as absent.
\<close>

definition read_path :: "inc_file \<Rightarrow> inc_error + bool \<times> int" where
  "read_path f =
     (case f of
        Missing \<Rightarrow> Inr (False, 0)
      | Unsearchable \<Rightarrow> Inl PermissionError
      | Unreadable \<Rightarrow> Inr (False, 0)
      | Undecodable \<Rightarrow> Inl UnicodeDecodeError
      | Content s \<Rightarrow>
          let txt = py_strip s
          in if txt = '''' then Inr (False, 0)
             else (case py_int txt of
                     None \<Rightarrow> Inr (False, 0)
                   | Some v \<Rightarrow> if v < 0 then Inr (False, 0) else Inr (True, v)))"

abbreviation WRITE_ATTEMPTS :: nat where "WRITE_ATTEMPTS \<equiv> 3"

text \<open>
  \<open>_write_persisted\<close>: \<open>ok\<close> tells whether the replacement of the file went through. The text is
  formatted before the \<^verbatim>\<open>try\<close>, so the \<open>ValueError\<close> of a number with too many digits escapes.
\<close>

definition write_persisted :: "bool \<Rightarrow> int \<Rightarrow> inc_disk \<Rightarrow> inc_error + bool \<times> inc_disk" where
  "write_persisted ok inc dk =
     (case py_str_int inc of
        None \<Rightarrow> Inl ValueError
      | Some s \<Rightarrow>
          Inr (if ok then (True, dk\<lparr>dk_path := Content (s @ [newline])\<rparr>) else (False, dk)))"

text \<open>The bounded retry loop; a missing outcome stands for a failed attempt.\<close>

fun write_loop :: "nat \<Rightarrow> bool list \<Rightarrow> int \<Rightarrow> inc_disk \<Rightarrow> inc_error + bool \<times> inc_disk" where
  "write_loop 0 oks inc dk = Inr (False, dk)"
| "write_loop (Suc n) oks inc dk =
     (case write_persisted (case oks of [] \<Rightarrow> False | ok # _ \<Rightarrow> ok) inc dk of
        Inl er \<Rightarrow> Inl er
      | Inr (True, dk') \<Rightarrow> Inr (True, dk')
      | Inr (False, dk') \<Rightarrow> write_loop n (tl oks) inc dk')"

record incarnation_value =
  iv_value :: int
  iv_durable :: bool

text \<open>The high watermark over the primary and the legacy file.\<close>

definition inc_base :: "inc_disk \<Rightarrow> inc_error + int" where
  "inc_base dk =
     (case read_path (dk_path dk) of
        Inl er \<Rightarrow> Inl er
      | Inr (v1, n1) \<Rightarrow>
          (case (case dk_legacy_path dk of None \<Rightarrow> Inr (False, 0) | Some f \<Rightarrow> read_path f) of
             Inl er \<Rightarrow> Inl er
           | Inr (v2, n2) \<Rightarrow>
               Inr (case map snd (filter fst [(v1, n1), (v2, n2)]) of
                      [] \<Rightarrow> 0
                    | x # xs \<Rightarrow> foldl max x xs)))"

definition load_or_bump :: "inc_disk \<Rightarrow> bool list \<Rightarrow> int \<Rightarrow> (inc_error + incarnation_value) \<times> inc_disk" where
  "load_or_bump dk oks now =
     (case inc_base dk of
        Inl er \<Rightarrow> (Inl er, dk)
      | Inr base \<Rightarrow>
          (case write_loop WRITE_ATTEMPTS oks (base + 1) dk of
             Inl er \<Rightarrow> (Inl er, dk)
           | Inr (durable, dk') \<Rightarrow>
               (Inr \<lparr>iv_value = (if durable then base + 1 else max (base + 1) (now + 1)),
                  iv_durable = durable\<rparr>, dk')))"

section \<open>TurnRegistry\<close>

abbreviation TURNS_MAX :: nat where "TURNS_MAX \<equiv> 10000"

record turn_registry =
  tr_incarnation :: int
  tr_durable :: bool
  tr_turns :: "(string, int) dict"

definition new_turn_registry :: "incarnation_value \<Rightarrow> turn_registry" where
  "new_turn_registry inc =
     \<lparr>tr_incarnation = iv_value inc, tr_durable = iv_durable inc, tr_turns = []\<rparr>"

definition bump_turn :: "string \<Rightarrow> turn_registry \<Rightarrow> int option \<times> turn_registry" where
  "bump_turn sid r =
     (let turns = dict_set sid (dict_get_or (tr_turns r) sid 0 + 1) (tr_turns r);
          turns = dict_move_to_end sid turns;
          turns = dict_cap TURNS_MAX turns
      in (dict_get turns sid, r\<lparr>tr_turns := turns\<rparr>))"

definition snapshot :: "turn_registry \<Rightarrow> string \<Rightarrow> int option \<times> int option" where
  "snapshot r sid =
     (if \<not> tr_durable r then (None, None)
      else (Some (tr_incarnation r), Some (dict_get_or (tr_turns r) sid 0)))"

section \<open>Path classifiers\<close>

abbreviation slash :: char where "slash \<equiv> CHR ''/''"

definition extract_sid_from_path :: "string \<Rightarrow> string option" where
  "extract_sid_from_path p =
     (if \<not> starts_with ''/session/'' p then None
      else let sid = takeWhile (\<lambda>c. c \<noteq> slash) (drop 9 p) in if sid = '''' then None else Some sid)"

definition is_turn_bumping_path :: "string \<Rightarrow> bool" where
  "is_turn_bumping_path p \<longleftrightarrow>
     starts_with ''/session/'' p \<and>
     takeWhile (\<lambda>c. c \<noteq> slash) (drop 9 p) \<noteq> '''' \<and>
     (case dropWhile (\<lambda>c. c \<noteq> slash) (drop 9 p) of
        [] \<Rightarrow> False
      | _ # r \<Rightarrow> dollar_body r \<in> {''prompt_async'', ''prompt_async/'', ''abort'', ''abort/''})"

section \<open>Incarnations across restarts\<close>

lemma py_strip_plain:
  assumes "s \<noteq> []" and "list_all is_digit s"
  shows "py_strip s = s"
proof -
  have "\<not> is_py_space (hd s)" "\<not> is_py_space (last s)"
    using assms by (auto simp: list_all_iff intro!: digit_not_space)
  then have "dropWhile is_py_space s = s" "rev (dropWhile is_py_space (rev s)) = s"
    using assms(1) dropWhile_last [of s] by (cases s, auto)
  then show ?thesis by (simp add: py_strip_def)
qed

lemma read_path_digits:
  assumes "s \<noteq> []" and "list_all is_digit s" and "length s \<le> INT_MAX_STR_DIGITS"
  shows "read_path (Content (s @ [newline])) = Inr (True, int (digits_val s))"
proof -
  have "py_int s = py_int (s @ [newline])"
    using assms by (simp add: py_int_def py_strip_plain py_strip_digits)
  then show ?thesis using assms by (simp add: py_int_digits read_path_def py_strip_digits)
qed

lemma read_own_write:
  assumes "0 \<le> n" and "py_str_int n = Some s"
  shows "read_path (Content (s @ [newline])) = Inr (True, n)"
proof -
  have "s = show_nat (nat n)" "length s \<le> INT_MAX_STR_DIGITS"
    using assms by (auto simp: py_str_int_def show_int_def split: if_splits)
  then show ?thesis using read_path_digits[of s] assms(1) by (simp add: show_nat_digits)
qed

lemma read_path_bound: "read_path f = Inr (v, n) \<Longrightarrow> n < 10 ^ INT_MAX_STR_DIGITS"
  by (auto simp: read_path_def Let_def dest: py_int_bound split: inc_file.splits option.splits if_splits)

lemma read_path_nonneg: "read_path f = Inr (v, n) \<Longrightarrow> 0 \<le> n"
  by (auto simp: read_path_def Let_def split: inc_file.splits option.splits if_splits)

lemma inc_base_nonneg: "inc_base dk = Inr b \<Longrightarrow> 0 \<le> b"
  by (auto simp: inc_base_def split: sum.splits option.splits prod.splits if_splits
      dest!: read_path_nonneg)

lemma inc_base_after_write:
  assumes "inc_base dk = Inr b" and "py_str_int (b + 1) = Some s"
  shows "inc_base (dk\<lparr>dk_path := Content (s @ [newline])\<rparr>) = Inr (b + 1)"
proof -
  have "read_path (Content (s @ [newline])) = Inr (True, b + 1)"
    using inc_base_nonneg [OF assms(1)] assms(2) by (intro read_own_write) simp_all
  with assms(1) show ?thesis
    by (auto simp: inc_base_def split: sum.splits option.splits prod.splits if_splits)
qed

lemma write_loop_eq:
  "py_str_int inc = Some s \<Longrightarrow> write_loop n oks inc dk =
     Inr (if True \<in> set (take n oks) then (True, dk\<lparr>dk_path := Content (s @ [newline])\<rparr>) else (False, dk))"
proof (induction n arbitrary: oks)
  case (Suc n)
  then show ?case by (cases oks) (simp_all add: write_persisted_def)
qed simp

lemma write_loop_fails: "py_str_int inc = None \<Longrightarrow> 0 < n \<Longrightarrow> write_loop n oks inc dk = Inl ValueError"
  by (cases n) (simp_all add: write_persisted_def)

text \<open>Consecutive processes on one disk, each with its write outcomes and clock.\<close>

fun published :: "(bool list \<times> int) list \<Rightarrow> inc_disk \<Rightarrow> int list" where
  "published [] dk = []"
| "published ((oks, now) # ps) dk =
     (case load_or_bump dk oks now of
        (Inl _, dk') \<Rightarrow> published ps dk'
      | (Inr iv, dk') \<Rightarrow> (if iv_durable iv then [iv_value iv] else []) @ published ps dk')"

lemma published_above:
  "inc_base dk = Inr b \<Longrightarrow> sorted_wrt (<) (published ps dk) \<and> (\<forall>v\<in>set (published ps dk). b < v)"
proof (induction ps arbitrary: dk b)
  case (Cons p ps)
  obtain oks now where p: "p = (oks, now)" by fastforce
  show ?case
  proof (cases "py_str_int (b + 1)")
    case None
    then show ?thesis
      using Cons.prems Cons.IH [OF Cons.prems] by (simp add: p load_or_bump_def write_loop_fails)
  next
    case (Some s)
    show ?thesis
      using Cons.prems Cons.IH [OF Cons.prems] Cons.IH [OF inc_base_after_write [OF Cons.prems Some]]
      by (cases "True \<in> set (take WRITE_ATTEMPTS oks)") (auto simp: p load_or_bump_def write_loop_eq [OF Some])
  qed
qed simp

section \<open>Turns\<close>

lemma bump_turn_eq:
  "bump_turn sid r =
     (Some (dict_get_or (tr_turns r) sid 0 + 1),
      r\<lparr>tr_turns := lru_put TURNS_MAX sid (dict_get_or (tr_turns r) sid 0 + 1) (tr_turns r)\<rparr>)"
  using lru_put_same [of TURNS_MAX sid "dict_get_or (tr_turns r) sid 0 + 1" "tr_turns r"]
  by (simp add: bump_turn_def Let_def lru_put_def)

definition tr_inv :: "turn_registry \<Rightarrow> bool" where
  "tr_inv r \<longleftrightarrow> dict_wf (tr_turns r) \<and> length (tr_turns r) \<le> TURNS_MAX"

lemma bump_turn_inv: "tr_inv r \<Longrightarrow> tr_inv (snd (bump_turn sid r))"
  using lru_put_length by (simp add: tr_inv_def bump_turn_eq)

interpretation turn_inv: invariant_system "\<lambda>sid r. snd (bump_turn sid r)" "\<lambda>_ _. True" tr_inv
  by unfold_locales (rule bump_turn_inv)

lemma bump_fold_fields:
  "tr_incarnation (fold (\<lambda>sid r. snd (bump_turn sid r)) sids r) = tr_incarnation r"
  "tr_durable (fold (\<lambda>sid r. snd (bump_turn sid r)) sids r) = tr_durable r"
  by (induction sids arbitrary: r) (simp_all add: bump_turn_eq)

lemma dict_length_keys: "dict_wf d \<Longrightarrow> length d = card (set (map fst d))"
  by (metis dict_wf_def distinct_card length_map)

text \<open>While at most \<open>TURNS_MAX\<close> sessions are active nothing is evicted: turns count bumps.\<close>

lemma turns_count:
  assumes "card (set sids) \<le> TURNS_MAX" and "tr_turns r = []"
  shows "dict_wf (tr_turns (fold (\<lambda>sid r. snd (bump_turn sid r)) sids r)) \<and>
    (\<forall>s. dict_get (tr_turns (fold (\<lambda>sid r. snd (bump_turn sid r)) sids r)) s =
      (if s \<in> set sids then Some (int (count_list sids s)) else None))"
  using assms
proof (induction sids rule: rev_induct)
  case (snoc x sids)
  let ?r = "fold (\<lambda>sid r. snd (bump_turn sid r)) sids r"
  let ?v = "dict_get_or (tr_turns ?r) x 0 + 1"
  have "card (set sids) \<le> card (set (sids @ [x]))" by (intro card_mono) auto
  then have wf: "dict_wf (tr_turns ?r)"
    and get: "\<And>s. dict_get (tr_turns ?r) s = (if s \<in> set sids then Some (int (count_list sids s)) else None)"
    using snoc by auto
  have "set (map fst (dict_set x ?v (tr_turns ?r))) \<subseteq> set (sids @ [x])"
  proof
    fix s assume "s \<in> set (map fst (dict_set x ?v (tr_turns ?r)))"
    then have "dict_get (dict_set x ?v (tr_turns ?r)) s \<noteq> None"
      using dict_has_keys dict_has_get by metis
    then show "s \<in> set (sids @ [x])" using get [of s] by (auto split: if_splits)
  qed
  then have "card (set (map fst (dict_set x ?v (tr_turns ?r)))) \<le> card (set (sids @ [x]))"
    by (intro card_mono) auto
  then have "length (dict_set x ?v (tr_turns ?r)) \<le> TURNS_MAX"
    using snoc.prems(1) dict_length_keys [OF dict_wf_set [OF wf]] by (simp only: le_trans)
  then have fits: "s \<noteq> x \<Longrightarrow> dict_get (lru_put TURNS_MAX x ?v (tr_turns ?r)) s = dict_get (tr_turns ?r) s" for s
    by (rule lru_put_fits)
  have v: "?v = int (count_list sids x) + 1"
    by (simp add: dict_get_or_get get)
  show ?case
    using wf fits get v lru_put_same [of TURNS_MAX x] by (auto simp: bump_turn_eq)
qed simp

text \<open>The path classifiers agree.\<close>

section \<open>Guarantees of the turn fence\<close>

text \<open>
  Incarnations never repeat across restarts: over any sequence of process starts on one
  disk, whatever writes fail, the incarnations that are published (confirmed on disk) are
  strictly increasing and above every value that was on disk before.
\<close>

theorem incarnations_increase:
  "sorted_wrt (<) (published ps dk) \<and> (\<forall>b. inc_base dk = Inr b \<longrightarrow> (\<forall>v\<in>set (published ps dk). b < v))"
proof (cases "inc_base dk")
  case (Inl er)
  then have "published ps dk = []"
    by (induction ps) (auto simp: load_or_bump_def)
  with Inl show ?thesis by simp
next
  case (Inr b)
  with published_above [OF Inr, of ps] show ?thesis by simp
qed

theorem incarnations_increase_witness:
  "published [([True], 9), ([False, False, False], 10), ([False, True], 11)]
     \<lparr>dk_path = Content ''7'', dk_legacy_path = Some (Content ''41'')\<rparr> = [42, 43] \<and>
   list_all (\<lambda>v. (41::int) < v) [42, 43]"
proof -
  let ?dk = "\<lparr>dk_path = Content ''7'', dk_legacy_path = Some (Content ''41'')\<rparr>"
  have p: "published [([True], 9), ([False, False, False], 10), ([False, True], 11)] ?dk = [42, 43]"
    by code_simp
  have "inc_base ?dk = Inr 41" by code_simp
  with incarnations_increase [of "[([True], 9), ([False, False, False], 10), ([False, True], 11)]" ?dk]
  show ?thesis unfolding p by simp
qed

text \<open>
  Start-up outcome: the published incarnation is one above the high watermark of the two
  files; it counts as durable exactly when one of the three write attempts succeeded, and then
  the file holds it; otherwise the disk is untouched and the registry withholds the fence for
  every session.
\<close>

theorem load_or_bump_outcome:
  assumes "inc_base dk = Inr b" and "load_or_bump dk oks now = (Inr iv, dk')"
  shows "iv_durable iv = (True \<in> set (take WRITE_ATTEMPTS oks)) \<and>
    (if iv_durable iv
     then iv_value iv = b + 1 \<and> inc_base dk' = Inr (b + 1) \<and>
       snapshot (new_turn_registry iv) sid = (Some (b + 1), Some 0)
     else dk' = dk \<and> snapshot (new_turn_registry iv) sid = (None, None))"
proof -
  have sn: "snapshot (new_turn_registry iv) sid =
      (if iv_durable iv then (Some (iv_value iv), Some 0) else (None, None))"
    by (simp add: snapshot_def new_turn_registry_def dict_get_or_get)
  obtain s where s: "py_str_int (b + 1) = Some s"
    using assms by (cases "py_str_int (b + 1)") (auto simp: load_or_bump_def write_loop_fails)
  show ?thesis
    using assms inc_base_after_write [OF assms(1) s] sn
    by (cases "True \<in> set (take WRITE_ATTEMPTS oks)") (auto simp: load_or_bump_def write_loop_eq [OF s])
qed

theorem load_or_bump_outcome_witness:
  "snapshot (new_turn_registry \<lparr>iv_value = 100, iv_durable = False\<rparr>) ''s'' = (None, None)"
proof -
  let ?dk = "\<lparr>dk_path = Missing, dk_legacy_path = None\<rparr>"
  have "inc_base ?dk = Inr 0" by code_simp
  moreover have "load_or_bump ?dk [False, False, False, True] 99 =
      (Inr \<lparr>iv_value = 100, iv_durable = False\<rparr>, ?dk)" by code_simp
  ultimately show ?thesis using load_or_bump_outcome [of ?dk 0 "[False, False, False, True]" 99] by simp
qed

text \<open>
  Turn counting: as long as at most 10000 sessions were bumped, the fence of a session is
  the incarnation paired with the exact number of its bumps, independent of the interleaving
  with other sessions; and the registry never holds more than 10000 sessions.
\<close>

theorem turns_count_bumps:
  assumes "card (set sids) \<le> TURNS_MAX"
    and "r = fold (\<lambda>sid r. snd (bump_turn sid r)) sids (new_turn_registry \<lparr>iv_value = inc, iv_durable = True\<rparr>)"
  shows "snapshot r sid = (Some inc, Some (int (count_list sids sid))) \<and>
    fst (bump_turn sid r) = Some (int (count_list sids sid) + 1) \<and> length (tr_turns r) \<le> TURNS_MAX"
proof -
  let ?r0 = "new_turn_registry \<lparr>iv_value = inc, iv_durable = True\<rparr>"
  have g: "dict_get_or (tr_turns r) sid 0 = int (count_list sids sid)"
    using turns_count [OF assms(1), of ?r0]
    by (auto simp: assms(2) new_turn_registry_def dict_get_or_get count_notin)
  have "tr_inv r" unfolding assms(2)
    by (rule turn_inv.inv_run) (simp_all add: tr_inv_def new_turn_registry_def)
  moreover have "tr_incarnation r = inc" "tr_durable r"
    unfolding assms(2) by (simp_all add: bump_fold_fields new_turn_registry_def)
  ultimately show ?thesis by (simp add: snapshot_def g bump_turn_eq tr_inv_def)
qed

theorem turns_count_bumps_witness:
  "fst (bump_turn ''a'' (fold (\<lambda>sid r. snd (bump_turn sid r)) [''a'', ''b'', ''a'']
     (new_turn_registry \<lparr>iv_value = 3, iv_durable = True\<rparr>))) = Some 3"
  using turns_count_bumps [of "[''a'', ''b'', ''a'']" _ 3 "''a''"] by (simp add: card_insert_if)

text \<open>
  A write that bumps a turn always has a session id to bump: every path that
  \<open>is_turn_bumping_path\<close> accepts yields the segment after \<^verbatim>\<open>/session/\<close>, and both collected
  writes of a session are accepted, with or without a trailing slash.
\<close>

theorem bumping_path_has_sid:
  "(is_turn_bumping_path p \<longrightarrow> (\<exists>sid. extract_sid_from_path p = Some sid \<and> sid \<noteq> '''' \<and> slash \<notin> set sid)) \<and>
   (sid \<noteq> '''' \<and> slash \<notin> set sid \<and> verb \<in> {''prompt_async'', ''abort''} \<and> tail \<in> {'''', ''/''} \<longrightarrow>
      is_turn_bumping_path (''/session/'' @ sid @ slash # verb @ tail) \<and>
      extract_sid_from_path (''/session/'' @ sid @ slash # verb @ tail) = Some sid)"
proof (intro conjI impI)
  assume "is_turn_bumping_path p"
  then show "\<exists>sid. extract_sid_from_path p = Some sid \<and> sid \<noteq> '''' \<and> slash \<notin> set sid"
    by (auto simp: is_turn_bumping_path_def extract_sid_from_path_def Let_def dest: set_takeWhileD)
next
  assume a: "sid \<noteq> '''' \<and> slash \<notin> set sid \<and> verb \<in> {''prompt_async'', ''abort''} \<and> tail \<in> {'''', ''/''}"
  let ?p = "''/session/'' @ sid @ slash # verb @ tail"
  have tw: "takeWhile (\<lambda>c. c \<noteq> slash) (sid @ slash # verb @ tail) = sid"
    "dropWhile (\<lambda>c. c \<noteq> slash) (sid @ slash # verb @ tail) = slash # verb @ tail"
    using a by (auto simp: takeWhile_append2 dropWhile_append2 takeWhile_append dropWhile_append)
  have st: "starts_with ''/session/'' ?p" by (rule starts_with_append)
  have d9: "drop 9 ?p = sid @ slash # verb @ tail" by simp
  have "CHR ''c'' \<noteq> newline" "CHR ''t'' \<noteq> newline" "slash \<noteq> newline" by code_simp+
  with a have nl: "last (verb @ tail) \<noteq> newline" by auto
  show "is_turn_bumping_path ?p"
    unfolding is_turn_bumping_path_def d9 tw using a st dollar_body_last [OF nl] by auto
  show "extract_sid_from_path ?p = Some sid"
    unfolding extract_sid_from_path_def d9 tw using a st by simp
qed

theorem bumping_path_has_sid_witness:
  "is_turn_bumping_path (''/session/'' @ ''ses_1'' @ slash # ''abort'' @ ''/'') \<and>
   (\<exists>sid. extract_sid_from_path ''/session/x/prompt_async'' = Some sid)"
proof -
  have "is_turn_bumping_path ''/session/x/prompt_async''" by code_simp
  with bumping_path_has_sid [of "''/session/x/prompt_async''" "''ses_1''" "''abort''" "''/''"]
  show ?thesis by auto
qed

text \<open>
  The two files of a store and what makes it fail.
\<close>

definition inc_files :: "inc_disk \<Rightarrow> inc_file list" where
  "inc_files dk = dk_path dk # (case dk_legacy_path dk of None \<Rightarrow> [] | Some f \<Rightarrow> [f])"

lemma read_path_fails: "(\<exists>r. read_path f = Inr r) \<longleftrightarrow> f \<noteq> Unsearchable \<and> f \<noteq> Undecodable"
  by (auto simp: read_path_def Let_def split: inc_file.splits option.splits)

lemma inc_base_fails:
  "(\<exists>b. inc_base dk = Inr b) \<longleftrightarrow> list_all (\<lambda>f. f \<noteq> Unsearchable \<and> f \<noteq> Undecodable) (inc_files dk)"
  using read_path_fails [of "dk_path dk"] read_path_fails [of "the (dk_legacy_path dk)"]
  by (cases "dk_legacy_path dk") (auto simp: inc_base_def inc_files_def split: sum.splits prod.splits)

text \<open>The watermark is the highest value read, so it reaches a value as soon as one file does.\<close>

lemma inc_base_top:
  assumes "inc_base dk = Inr b" and "0 < m" and "\<And>f v n. read_path f = Inr (v, n) \<Longrightarrow> n \<le> m"
  shows "b = m \<longleftrightarrow> \<not> list_all (\<lambda>f. read_path f \<noteq> Inr (True, m)) (inc_files dk)"
proof -
  obtain v1 n1 where 1: "read_path (dk_path dk) = Inr (v1, n1)" "n1 \<le> m"
    using assms(1,3) by (fastforce simp: inc_base_def split: sum.splits)
  show ?thesis
  proof (cases "dk_legacy_path dk")
    case None
    with 1 assms(1,2) show ?thesis by (cases v1) (auto simp: inc_base_def inc_files_def)
  next
    case (Some f)
    obtain v2 n2 where 2: "read_path f = Inr (v2, n2)" "n2 \<le> m"
      using assms(1,3) Some 1 by (fastforce simp: inc_base_def split: sum.splits)
    from 1 2 Some assms(1,2) show ?thesis
      by (cases v1; cases v2) (auto simp: inc_base_def inc_files_def max_def split: if_splits)
  qed
qed

text \<open>
  C40. Start-up fails in exactly three cases: \<^verbatim>\<open>exists()\<close> raises for one of the two files (a directory
  that may not be searched), one of them is not valid UTF-8, or one of them holds the largest number
  that \<^verbatim>\<open>int()\<close> still reads, 4300 nines, whose successor can no longer be formatted. These errors escape
  \<open>load_or_bump\<close>, and the disk is then untouched. Every other damage (missing, unreadable, empty, not a
  number, too many digits, negative) is treated as an absent file, and failing writes do not raise.
\<close>

theorem startup_fails_iff:
  "((\<exists>iv. fst (load_or_bump dk oks now) = Inr iv) \<longleftrightarrow>
      list_all (\<lambda>f. f \<noteq> Unsearchable \<and> f \<noteq> Undecodable) (inc_files dk) \<and>
      list_all (\<lambda>f. read_path f \<noteq> Inr (True, 10 ^ INT_MAX_STR_DIGITS - 1)) (inc_files dk))
   \<and> (\<forall>er. fst (load_or_bump dk oks now) = Inl er \<longrightarrow> snd (load_or_bump dk oks now) = dk)"
proof (cases "inc_base dk")
  case (Inl er)
  then show ?thesis using inc_base_fails [of dk] by (auto simp: load_or_bump_def)
next
  case (Inr b)
  have "(1::int) < 10 ^ INT_MAX_STR_DIGITS" by (intro one_less_power) simp_all
  then have top: "b = 10 ^ INT_MAX_STR_DIGITS - 1
      \<longleftrightarrow> \<not> list_all (\<lambda>f. read_path f \<noteq> Inr (True, 10 ^ INT_MAX_STR_DIGITS - 1)) (inc_files dk)"
    by (intro inc_base_top [OF Inr]) (auto dest: read_path_bound)
  have "b < 10 ^ INT_MAX_STR_DIGITS"
    using Inr by (auto simp: inc_base_def dest!: read_path_bound split: sum.splits option.splits prod.splits if_splits)
  then have fmt: "py_str_int (b + 1) = None \<longleftrightarrow> b = 10 ^ INT_MAX_STR_DIGITS - 1"
    using inc_base_nonneg [OF Inr] by (auto simp: py_str_int_eq)
  show ?thesis
  proof (cases "py_str_int (b + 1)")
    case None
    with Inr fmt top show ?thesis by (simp add: load_or_bump_def write_loop_fails)
  next
    case (Some s)
    with Inr fmt top inc_base_fails [of dk] show ?thesis by (auto simp: load_or_bump_def write_loop_eq [OF Some] split: prod.splits)
  qed
qed

theorem startup_fails_iff_witness:
  "(\<nexists>iv. fst (load_or_bump \<lparr>dk_path = Content (replicate INT_MAX_STR_DIGITS (CHR ''9'') @ [newline]), dk_legacy_path = None\<rparr> [True] 0)
      = Inr iv)
   \<and> snd (load_or_bump \<lparr>dk_path = Unsearchable, dk_legacy_path = Some (Content ''7'')\<rparr> [True] 0)
      = \<lparr>dk_path = Unsearchable, dk_legacy_path = Some (Content ''7'')\<rparr>"
proof -
  let ?nines = "replicate INT_MAX_STR_DIGITS (CHR ''9'')"
  let ?dk = "\<lparr>dk_path = Unsearchable, dk_legacy_path = Some (Content ''7'')\<rparr>"
  have "int (digits_val ?nines) = 10 ^ INT_MAX_STR_DIGITS - 1"
    using digits_val_nines [of INT_MAX_STR_DIGITS] by (metis add_diff_cancel_right' of_nat_1 of_nat_add of_nat_numeral of_nat_power)
  moreover have "?nines \<noteq> []" "list_all is_digit ?nines" by (simp_all add: list_all_iff is_digit_def code_point_def)
  ultimately have "read_path (Content (?nines @ [newline])) = Inr (True, 10 ^ INT_MAX_STR_DIGITS - 1)"
    using read_path_digits [of ?nines] by simp
  moreover have "fst (load_or_bump ?dk [True] 0) = Inl PermissionError"
    by (simp add: load_or_bump_def inc_base_def read_path_def)
  ultimately show ?thesis
    using startup_fails_iff [of "\<lparr>dk_path = Content (?nines @ [newline]), dk_legacy_path = None\<rparr>" "[True]" 0]
      startup_fails_iff [of ?dk "[True]" 0] by (simp add: inc_files_def)
qed

end
