(* ===== verification/Global_Hub.thy ===== *)
theory Global_Hub
  imports Token_Hub_Text Provider_Errors Turn_Registry
begin

text \<open>
  The control plane: \<open>GlobalHub\<close> of \<^verbatim>\<open>sse/global_hub.py\<close>. It consumes the single upstream event
  stream, folds session and message events into per-session digests that a debounce timer flushes,
  forwards the blocking signals at once, keeps the last error of every session, and routes the
  part events to the token hub.

  The replay log and the subscriber objects are shared with the token hub: \<open>token_call\<close> hands the
  current ones to a token-hub operation and takes the changed ones back, which is what a
  synchronous call on shared objects does. \<^verbatim>\<open>directory_allowed\<close> of \<^verbatim>\<open>config.py\<close> resolves symbolic
  links on disk, so the verdict is the argument \<open>gh_dir_ok\<close>. A handler reads its clocks once. The
  iteration order over the subscriber set is immaterial, each subscriber has its own queue.
  \<open>gh_emitted\<close> is a ghost: the frames that passed the allowlist, in the order they were published.
\<close>

section \<open>State\<close>

definition IMMEDIATE :: "string list" where
  "IMMEDIATE = [''question.asked'', ''question.v2.asked'', ''question.replied'', ''question.rejected'',
     ''question.v2.replied'', ''question.v2.rejected'', ''permission.asked'', ''permission.replied'',
     ''permission.v2.asked'', ''permission.v2.replied'']"

definition SESSION_EVENTS :: "string list" where
  "SESSION_EVENTS = [''session.status'', ''session.updated'', ''session.deleted'']"

definition MESSAGE_EVENTS :: "string list" where
  "MESSAGE_EVENTS = [''message.updated'', ''message.appended'']"

abbreviation ABORT_NAME :: string where "ABORT_NAME \<equiv> ''MessageAbortedError''"
abbreviation LAST_UPDATED_AT_BY_SID_MAX :: nat where "LAST_UPDATED_AT_BY_SID_MAX \<equiv> 10000"
abbreviation DROPPED_TYPES_MAX :: nat where "DROPPED_TYPES_MAX \<equiv> 256"
abbreviation DROPPED_LOG_INTERVAL_SECONDS :: real where "DROPPED_LOG_INTERVAL_SECONDS \<equiv> 60"
abbreviation OTHER_TYPE :: string where "OTHER_TYPE \<equiv> ''__other__''"

text \<open>The clocks: epoch milliseconds, the monotonic clock, and \<^verbatim>\<open>time.time()\<close>.\<close>

type_synonym hub_clock = "clock \<times> real"

abbreviation now_ms :: "hub_clock \<Rightarrow> int" where "now_ms t \<equiv> fst (fst t)"
abbreviation mono_now :: "hub_clock \<Rightarrow> real" where "mono_now t \<equiv> snd (fst t)"

record global_hub =
  gh_queue_items :: int
  gh_buffer_bytes :: int
  gh_max_frame_bytes :: int
  gh_dumps :: "json \<Rightarrow> string"
  gh_allowlist :: "string list option"
  gh_dir_ok :: "string list \<Rightarrow> json \<Rightarrow> bool"
  gh_replay :: "frame replay_log"
  gh_turns :: "turn_registry option"
  gh_token :: "token_hub option"
  gh_store :: "(nat, wire_frame subscriber) dict"
  gh_next_id :: nat
  gh_subs :: "nat list"
  gh_tap :: "nat list"
  gh_ever_connected :: bool
  gh_loss_notified :: bool
  gh_pending :: "(string, digest_fields) dict"
  gh_qp_last_activity :: "(string, real) dict"
  gh_observed :: "string list option"
  gh_last_updated_at :: "(string, int) dict"
  gh_callbacks :: "nat list"
  gh_callback_calls :: "nat list"
  gh_sticky :: "(string, json) dict"
  gh_tombstones :: "(string, unit) dict"
  gh_upstream_events_total :: int
  gh_emitted_frames_total :: int
  gh_reconnects_total :: int
  gh_allowlist_dropped :: int
  gh_dropped :: "(string, int) dict"
  gh_dropped_last_log :: real
  gh_dropped_since_log :: int
  gh_retired :: "(string \<times> string, int) dict"
  gh_revision :: int
  gh_upstream_bytes :: nat
  gh_emitted :: "wire_frame list"

text \<open>\<open>revision\<close> is the process-wide \<^verbatim>\<open>_message_revision_seq\<close> at that time, 0 at start-up.\<close>

definition new_global_hub ::
  "int \<Rightarrow> int \<Rightarrow> int \<Rightarrow> (json \<Rightarrow> string) \<Rightarrow> (string list \<Rightarrow> json \<Rightarrow> bool) \<Rightarrow> string list option \<Rightarrow>
   turn_registry option \<Rightarrow> frame replay_log \<Rightarrow> int \<Rightarrow> global_hub" where
  "new_global_hub queue_items buffer_bytes max_frame_bytes dumps dir_ok allowlist turns replay_log revision =
     \<lparr>gh_queue_items = queue_items, gh_buffer_bytes = buffer_bytes, gh_max_frame_bytes = max_frame_bytes,
      gh_dumps = dumps, gh_allowlist = allowlist, gh_dir_ok = dir_ok, gh_replay = replay_log, gh_turns = turns,
      gh_token = None, gh_store = [], gh_next_id = 0, gh_subs = [], gh_tap = [], gh_ever_connected = False,
      gh_loss_notified = False, gh_pending = [], gh_qp_last_activity = [], gh_observed = None,
      gh_last_updated_at = [], gh_callbacks = [], gh_callback_calls = [], gh_sticky = [], gh_tombstones = [],
      gh_upstream_events_total = 0, gh_emitted_frames_total = 0, gh_reconnects_total = 0,
      gh_allowlist_dropped = 0, gh_dropped = [], gh_dropped_last_log = 0, gh_dropped_since_log = 0,
      gh_retired = [], gh_revision = revision, gh_upstream_bytes = 0, gh_emitted = []\<rparr>"

definition new_digest_fields :: digest_fields where
  "new_digest_fields =
     \<lparr>df_directory = None, df_status = None, df_message_id = None, df_updated_at = JNull, df_archived = None,
      df_deleted = False, df_last_error = Error_Unset, df_turn_incarnation = None, df_turn = None,
      df_changed = None, df_messages_revision = None\<rparr>"

section \<open>Wiring\<close>

definition set_token_hub :: "token_hub option \<Rightarrow> global_hub \<Rightarrow> global_hub" where
  "set_token_hub th g = g\<lparr>gh_token := th\<rparr>"

definition set_directory_observer :: "bool \<Rightarrow> global_hub \<Rightarrow> global_hub" where
  "set_directory_observer wired g = g\<lparr>gh_observed := (if wired then Some [] else None)\<rparr>"

definition set_turn_registry :: "turn_registry option \<Rightarrow> global_hub \<Rightarrow> global_hub" where
  "set_turn_registry r g = g\<lparr>gh_turns := r\<rparr>"

definition set_directory_allowlist :: "string list option \<Rightarrow> global_hub \<Rightarrow> global_hub" where
  "set_directory_allowlist a g = g\<lparr>gh_allowlist := a\<rparr>"

definition add_upstream_loss_callback :: "nat \<Rightarrow> global_hub \<Rightarrow> global_hub" where
  "add_upstream_loss_callback c g = g\<lparr>gh_callbacks := gh_callbacks g @ [c]\<rparr>"

text \<open>A synchronous call of the token hub on the shared log and the shared subscriber objects.\<close>

definition token_call :: "(token_hub \<Rightarrow> token_hub) \<Rightarrow> global_hub \<Rightarrow> global_hub" where
  "token_call f g =
     (case gh_token g of
        None \<Rightarrow> g
      | Some th \<Rightarrow>
          let tap = filter (dict_has (gh_store g)) (gh_tap g);
              th' = f (th\<lparr>th_replay := gh_replay g, th_events_tap := List.map_filter (dict_get (gh_store g)) tap\<rparr>)
          in g\<lparr>gh_token := Some th', gh_replay := th_replay th',
               gh_store := fold (\<lambda>(i, s). dict_set i s) (zip tap (th_events_tap th')) (gh_store g)\<rparr>)"

section \<open>Publishing\<close>

definition observe_directory :: "json \<Rightarrow> global_hub \<Rightarrow> global_hub" where
  "observe_directory directory g =
     (case (gh_observed g, directory) of
        (Some seen, JStr d) \<Rightarrow> if d = [] then g else g\<lparr>gh_observed := Some (seen @ [d])\<rparr>
      | _ \<Rightarrow> g)"

definition directory_allowed :: "json \<Rightarrow> global_hub \<Rightarrow> bool" where
  "directory_allowed directory g =
     (case gh_allowlist g of
        None \<Rightarrow> True
      | Some a \<Rightarrow> if a = [] then True else gh_dir_ok g a directory)"

definition replay_publish :: "hub_clock \<Rightarrow> frame \<Rightarrow> global_hub \<Rightarrow> string option \<times> global_hub" where
  "replay_publish t frame g =
     (case append_frame (gh_replay g) GLOBAL_DOMAIN frame FRAME_KIND_BUSINESS None (mono_now t) of
        (Inl _, l) \<Rightarrow> (None, g\<lparr>gh_replay := l\<rparr>)
      | (Inr e, l) \<Rightarrow> (Some (id_line GLOBAL_DOMAIN (rl_epoch l) (e_seq e)), g\<lparr>gh_replay := l\<rparr>))"

definition store_put :: "(json \<Rightarrow> string) \<Rightarrow> wire_frame \<Rightarrow> nat \<Rightarrow>
  (nat, wire_frame subscriber) dict \<Rightarrow> (nat, wire_frame subscriber) dict" where
  "store_put dumps w i store =
     (case dict_get store i of
        None \<Rightarrow> store
      | Some s \<Rightarrow> dict_set i (snd (sb_put (wire_len dumps) (Frame w) s)) store)"

text \<open>\<^verbatim>\<open>for subscriber in tuple(self.subscribers): subscriber.put(frame)\<close> and the counter.\<close>

definition put_all :: "wire_frame \<Rightarrow> global_hub \<Rightarrow> global_hub" where
  "put_all w g =
     g\<lparr>gh_store := fold (store_put (gh_dumps g) w) (gh_subs g) (gh_store g),
       gh_emitted_frames_total := gh_emitted_frames_total g + int (length (gh_subs g))\<rparr>"

definition emit_directory_frame :: "hub_clock \<Rightarrow> frame \<Rightarrow> json \<Rightarrow> global_hub \<Rightarrow> global_hub" where
  "emit_directory_frame t frame directory g =
     (if \<not> directory_allowed directory g
      then g\<lparr>gh_allowlist_dropped := gh_allowlist_dropped g + 1\<rparr>
      else case replay_publish t frame g of
             (idl, g1) \<Rightarrow>
               let w = (case idl of None \<Rightarrow> [] | Some l \<Rightarrow> l, frame)
               in put_all w (g1\<lparr>gh_emitted := gh_emitted g1 @ [w]\<rparr>))"

definition opt_str :: "string option \<Rightarrow> json" where
  "opt_str d = (case d of None \<Rightarrow> JNull | Some s \<Rightarrow> JStr s)"

section \<open>Digests\<close>

definition digest_frame :: "string \<Rightarrow> digest_fields \<Rightarrow> frame" where
  "digest_frame sid f = \<lparr>fr_event = Some ''session.digest'', fr_payload = JObj (to_payload f sid)\<rparr>"

text \<open>The sticky error goes in when this window neither set nor cleared one.\<close>

definition merge_sticky :: "(string, json) dict \<Rightarrow> string \<Rightarrow> digest_fields \<Rightarrow> digest_fields" where
  "merge_sticky sticky sid f =
     (case (df_last_error f, dict_get sticky sid) of
        (Error_Unset, Some e) \<Rightarrow> f\<lparr>df_last_error := Error_Value e\<rparr>
      | _ \<Rightarrow> f)"

definition emit_digest :: "hub_clock \<Rightarrow> string \<times> digest_fields \<Rightarrow> global_hub \<Rightarrow> global_hub" where
  "emit_digest t p g =
     (case p of (sid, entry) \<Rightarrow>
        let f = (merge_sticky (gh_sticky g) sid entry)\<lparr>df_changed := Some [sid]\<rparr>;
            directory = opt_str (df_directory f)
        in emit_directory_frame t (digest_frame sid f) directory (observe_directory directory g))"

definition gh_flush_sid :: "hub_clock \<Rightarrow> string \<Rightarrow> global_hub \<Rightarrow> global_hub" where
  "gh_flush_sid t sid g =
     (case dict_get (gh_pending g) sid of
        None \<Rightarrow> g
      | Some entry \<Rightarrow> emit_digest t (sid, entry) (g\<lparr>gh_pending := dict_pop sid (gh_pending g)\<rparr>))"

definition prune_retired_messages :: "int \<Rightarrow> global_hub \<Rightarrow> global_hub" where
  "prune_retired_messages now g =
     g\<lparr>gh_retired := dict_cap TOKEN_REMOVED_MESSAGES_MAX
         (filter (\<lambda>(_, ts). \<not> ts < now - TOKEN_REMOVED_MESSAGES_TTL_MS) (gh_retired g))\<rparr>"

definition prune_last_updated_at :: "global_hub \<Rightarrow> global_hub" where
  "prune_last_updated_at g = g\<lparr>gh_last_updated_at := dict_cap LAST_UPDATED_AT_BY_SID_MAX (gh_last_updated_at g)\<rparr>"

definition prune_sticky_last_error :: "global_hub \<Rightarrow> global_hub" where
  "prune_sticky_last_error g = g\<lparr>gh_sticky := dict_cap LAST_UPDATED_AT_BY_SID_MAX (gh_sticky g)\<rparr>"

definition prune_deleted_tombstones :: "global_hub \<Rightarrow> global_hub" where
  "prune_deleted_tombstones g = g\<lparr>gh_tombstones := dict_cap LAST_UPDATED_AT_BY_SID_MAX (gh_tombstones g)\<rparr>"

definition gh_flush :: "hub_clock \<Rightarrow> global_hub \<Rightarrow> global_hub" where
  "gh_flush t g =
     (let g1 = prune_deleted_tombstones (prune_sticky_last_error (prune_last_updated_at
                 (prune_retired_messages (now_ms t) g)))
      in fold (emit_digest t) (gh_pending g1) (g1\<lparr>gh_pending := []\<rparr>))"

text \<open>\<open>_bump_updated_at\<close>: the entry's own value counts only when it is an integer.\<close>

definition bump_updated_at :: "int \<Rightarrow> string \<Rightarrow> digest_fields \<Rightarrow> global_hub \<Rightarrow> digest_fields \<times> global_hub" where
  "bump_updated_at now sid entry g =
     (let entry_prev = (case df_updated_at entry of JInt i \<Rightarrow> i | _ \<Rightarrow> 0);
          session_prev = dict_get_or (gh_last_updated_at g) sid 0;
          previous = max entry_prev session_prev;
          updated_at = max now (previous + 1)
      in (entry\<lparr>df_updated_at := JInt updated_at\<rparr>,
          g\<lparr>gh_last_updated_at := dict_move_to_end sid (dict_set sid updated_at (gh_last_updated_at g))\<rparr>))"

text \<open>\<^verbatim>\<open>self.pending.setdefault(sid, DigestFields())\<close>\<close>

definition pending_entry :: "global_hub \<Rightarrow> string \<Rightarrow> digest_fields" where
  "pending_entry g sid = dict_get_or (gh_pending g) sid new_digest_fields"

definition stamp_directory :: "json \<Rightarrow> digest_fields \<Rightarrow> digest_fields" where
  "stamp_directory directory e = (case directory of JStr d \<Rightarrow> e\<lparr>df_directory := Some d\<rparr> | _ \<Rightarrow> e)"

definition put_entry :: "string \<Rightarrow> digest_fields \<Rightarrow> global_hub \<Rightarrow> global_hub" where
  "put_entry sid e g = g\<lparr>gh_pending := dict_set sid e (gh_pending g)\<rparr>"

definition bump_message_revision :: "hub_clock \<Rightarrow> string \<Rightarrow> json \<Rightarrow> json \<Rightarrow> global_hub \<Rightarrow> global_hub" where
  "bump_message_revision t sid directory message_id g =
     (let e1 = stamp_directory directory (pending_entry g sid);
          e2 = (case message_id of JStr m \<Rightarrow> e1\<lparr>df_message_id := Some m\<rparr> | _ \<Rightarrow> e1);
          (e3, g1) = bump_updated_at (now_ms t) sid e2 g
      in put_entry sid (e3\<lparr>df_messages_revision := Some (gh_revision g1 + 1)\<rparr>)
           (g1\<lparr>gh_revision := gh_revision g1 + 1\<rparr>))"

section \<open>The event handler\<close>

text \<open>\<open>_record_dropped_event\<close>; the log line of the sampling window is left out, its bookkeeping is not.\<close>

definition record_dropped_event :: "hub_clock \<Rightarrow> json \<Rightarrow> global_hub \<Rightarrow> global_hub" where
  "record_dropped_event t event_type g =
     (let key0 = (case event_type of JStr s \<Rightarrow> s | _ \<Rightarrow> OTHER_TYPE);
          key = (if \<not> dict_has (gh_dropped g) key0 \<and> length (gh_dropped g) \<ge> DROPPED_TYPES_MAX then OTHER_TYPE else key0);
          g1 = g\<lparr>gh_dropped := counter_inc key (gh_dropped g), gh_dropped_since_log := gh_dropped_since_log g + 1\<rparr>
      in if mono_now t - gh_dropped_last_log g1 \<ge> DROPPED_LOG_INTERVAL_SECONDS
         then g1\<lparr>gh_dropped_last_log := mono_now t, gh_dropped_since_log := 0\<rparr>
         else g1)"

definition publish_immediate ::
  "hub_clock \<Rightarrow> string \<Rightarrow> json \<Rightarrow> (string \<times> json) list \<Rightarrow> global_hub \<Rightarrow> global_hub" where
  "publish_immediate t event_type directory props g =
     (let g1 = (case directory of
                  JStr d \<Rightarrow>
                    if (starts_with ''question.'' event_type \<or> starts_with ''permission.'' event_type) \<and> d \<noteq> []
                    then g\<lparr>gh_qp_last_activity := record_qp_activity (gh_qp_last_activity g) d (snd t)\<rparr>
                    else g
                | _ \<Rightarrow> g);
          g2 = (if event_type = ''question.asked'' \<or> event_type = ''question.v2.asked''
                then (case jstr_ne (jget props ''sessionID'') of
                        Some qsid \<Rightarrow> gh_flush_sid t qsid g1
                      | None \<Rightarrow> g1)
                else g1)
      in emit_directory_frame t
           \<lparr>fr_event = None, fr_payload = JObj [(''directory'', directory), (''type'', JStr event_type),
              (''properties'', JObj props)]\<rparr> directory g2)"

text \<open>The three session events, each with its mirror call of the token hub.\<close>

definition session_status_event ::
  "hub_clock \<Rightarrow> string \<Rightarrow> json \<Rightarrow> (string \<times> json) list \<Rightarrow> global_hub \<Rightarrow> global_hub" where
  "session_status_event t sid directory props g =
     (let e0 = stamp_directory directory (pending_entry g sid);
          status = normalize_session_status (jget props ''status'');
          e1 = (case status of None \<Rightarrow> e0 | Some s \<Rightarrow> e0\<lparr>df_status := Some s\<rparr>);
          e2 = (case gh_turns g of
                  None \<Rightarrow> e1
                | Some r \<Rightarrow> e1\<lparr>df_turn_incarnation := fst (snapshot r sid), df_turn := snd (snapshot r sid)\<rparr>);
          g1 = (if status = Some ''busy'' \<and> dict_has (gh_sticky g) sid
                then gh_flush_sid t sid (put_entry sid (e2\<lparr>df_last_error := Error_Value JNull\<rparr>)
                       (g\<lparr>gh_sticky := dict_pop sid (gh_sticky g)\<rparr>))
                else put_entry sid e2 g)
      in case status of
           None \<Rightarrow> g1
         | Some s \<Rightarrow> token_call (on_session_status (fst t) sid (JStr s)) g1)"

definition session_deleted_event :: "hub_clock \<Rightarrow> string \<Rightarrow> json \<Rightarrow> global_hub \<Rightarrow> global_hub" where
  "session_deleted_event t sid directory g =
     (let e0 = stamp_directory directory (pending_entry g sid);
          g1 = prune_deleted_tombstones
                 (g\<lparr>gh_tombstones := dict_move_to_end sid (dict_set sid () (gh_tombstones g))\<rparr>);
          g2 = put_entry sid (e0\<lparr>df_deleted := True, df_last_error := Error_Unset\<rparr>)
                 (g1\<lparr>gh_sticky := dict_pop sid (gh_sticky g1),
                     gh_retired := dict_drop_keys (\<lambda>k. fst k = sid) (gh_retired g1),
                     gh_last_updated_at := dict_pop sid (gh_last_updated_at g1)\<rparr>)
      in token_call (on_session_deleted (fst t) sid) g2)"

definition session_updated_event ::
  "string \<Rightarrow> json \<Rightarrow> (string \<times> json) list \<Rightarrow> global_hub \<Rightarrow> global_hub" where
  "session_updated_event sid directory props g =
     (let e0 = stamp_directory directory (pending_entry g sid);
          info = (case jget props ''info'' of JObj d \<Rightarrow> d | _ \<Rightarrow> []);
          time_obj = (case jget info ''time'' of JObj d \<Rightarrow> d | _ \<Rightarrow> []);
          e1 = (case jget time_obj ''archived'' of JInt i \<Rightarrow> e0\<lparr>df_archived := Some i\<rparr> | _ \<Rightarrow> e0)
      in put_entry sid e1 g)"

definition publish_session ::
  "hub_clock \<Rightarrow> string \<Rightarrow> (string \<times> json) list \<Rightarrow> json \<Rightarrow> (string \<times> json) list \<Rightarrow> global_hub \<Rightarrow> global_hub" where
  "publish_session t event_type payload directory props g =
     (case extract_session_id payload props of
        None \<Rightarrow> g
      | Some sid \<Rightarrow>
          if event_type = ''session.status'' then session_status_event t sid directory props g
          else if event_type = ''session.deleted'' then session_deleted_event t sid directory g
          else session_updated_event sid directory props g)"

definition publish_message ::
  "hub_clock \<Rightarrow> (string \<times> json) list \<Rightarrow> json \<Rightarrow> (string \<times> json) list \<Rightarrow> global_hub \<Rightarrow> global_hub" where
  "publish_message t payload directory props g =
     (case extract_session_id payload props of
        None \<Rightarrow> g
      | Some sid \<Rightarrow>
          let info = (case jget props ''info'' of JObj d \<Rightarrow> d | _ \<Rightarrow> []);
              message_id = (case jget info ''id'' of JStr i \<Rightarrow> JStr i | _ \<Rightarrow> jget props ''messageID'')
          in bump_message_revision t sid directory message_id g)"

text \<open>The error object of a \<^verbatim>\<open>session.error\<close>; \<open>None\<close> for the abort that is dropped silently.\<close>

definition error_object :: "(string \<Rightarrow> bool) \<Rightarrow> int \<Rightarrow> (string \<times> json) list \<Rightarrow> (string \<times> json) list option" where
  "error_object iso_ok now props =
     (let err = (case jget props ''error'' of JObj d \<Rightarrow> d | _ \<Rightarrow> []);
          name = (case jget err ''name'' of JStr n \<Rightarrow> Some n | _ \<Rightarrow> None);
          err_data = (case jget err ''data'' of JObj d \<Rightarrow> JObj d | _ \<Rightarrow> JNull);
          raw_msg = (case err_data of JObj d \<Rightarrow> jget d ''message'' | _ \<Rightarrow> JNull)
      in if name = Some ABORT_NAME then None
         else Some ([(''name'', JStr (take 128 (case name of None \<Rightarrow> [] | Some n \<Rightarrow> n))),
                     (''message'', JStr (sanitize_error_message raw_msg name)), (''at'', JInt now)]
                    @ classify_provider_error iso_ok (opt_str name) raw_msg err_data))"

definition publish_error ::
  "(string \<Rightarrow> bool) \<Rightarrow> hub_clock \<Rightarrow> json \<Rightarrow> (string \<times> json) list \<Rightarrow> global_hub \<Rightarrow> global_hub" where
  "publish_error iso_ok t directory props g =
     (case error_object iso_ok (now_ms t) props of
        None \<Rightarrow> g
      | Some obj \<Rightarrow>
          (case jstr_ne (jget props ''sessionID'') of
             Some sid \<Rightarrow>
               if dict_has (gh_tombstones g) sid then g
               else let entry = pending_entry g sid
                    in if df_deleted entry then put_entry sid entry g
                       else let g1 = prune_sticky_last_error
                                  (g\<lparr>gh_sticky := dict_move_to_end sid (dict_set sid (JObj obj) (gh_sticky g))\<rparr>)
                            in gh_flush_sid t sid
                                 (put_entry sid (stamp_directory directory (entry\<lparr>df_last_error := Error_Value (JObj obj)\<rparr>)) g1)
           | None \<Rightarrow>
               emit_directory_frame t
                 \<lparr>fr_event = Some ''session.error'',
                  fr_payload = JObj (obj @ (if py_truthy directory then [(''directory'', directory)] else []))\<rparr>
                 directory g))"

text \<open>
  The part events. A part event with a malformed payload falls through to the token hub, which
  is handed the properties as a part update, also when the event was a removal.
\<close>

definition PART_EVENTS :: "string list" where
  "PART_EVENTS = [''message.part.delta'', ''message.part.updated'', ''message.part.removed'', ''message.removed'']"

definition part_ids :: "(string \<times> json) list \<Rightarrow> string \<Rightarrow> (string \<times> string \<times> string) option" where
  "part_ids d pid_key =
     (case (jstr_ne (jget d ''sessionID''), jstr_ne (jget d ''messageID''), jstr_ne (jget d pid_key)) of
        (Some sid, Some mid, Some pid) \<Rightarrow> Some (sid, mid, pid)
      | _ \<Rightarrow> None)"

definition part_changed_event ::
  "hub_clock \<Rightarrow> json \<Rightarrow> (string \<times> string \<times> string) \<Rightarrow> (token_hub \<Rightarrow> token_hub) \<Rightarrow> global_hub \<Rightarrow> global_hub" where
  "part_changed_event t directory ids f g =
     (case ids of (psid, pmid, ppid) \<Rightarrow>
        if dict_has (gh_retired g) (psid, pmid) then g
        else bump_message_revision t psid directory (JStr pmid) (token_call f g))"

definition message_removed_event :: "hub_clock \<Rightarrow> string \<Rightarrow> string \<Rightarrow> global_hub \<Rightarrow> global_hub" where
  "message_removed_event t psid pmid g =
     (let g1 = prune_retired_messages (now_ms t)
                 (g\<lparr>gh_retired := dict_move_to_end (psid, pmid) (dict_set (psid, pmid) (now_ms t) (gh_retired g))\<rparr>);
          g2 = token_call (on_message_removed (fst t) psid pmid) g1;
          g3 = g2\<lparr>gh_revision := gh_revision g2 + 1\<rparr>
      in case dict_get (gh_pending g3) psid of
           None \<Rightarrow> g3
         | Some e \<Rightarrow> put_entry psid (e\<lparr>df_messages_revision := Some (gh_revision g3)\<rparr>) g3)"

definition publish_part ::
  "hub_clock \<Rightarrow> string \<Rightarrow> json \<Rightarrow> (string \<times> json) list \<Rightarrow> global_hub \<Rightarrow> global_hub" where
  "publish_part t event_type directory props g =
     (if event_type = ''message.removed''
      then (case (jstr_ne (jget props ''sessionID''), jstr_ne (jget props ''messageID'')) of
              (Some psid, Some pmid) \<Rightarrow> message_removed_event t psid pmid g
            | _ \<Rightarrow> g)
      else if event_type = ''message.part.delta'' then token_call (on_part_delta (fst t) props) g
      else let removed = (event_type = ''message.part.removed'');
               ids = (if removed then part_ids props ''partID''
                      else case jget props ''part'' of JObj part \<Rightarrow> part_ids part ''id'' | _ \<Rightarrow> None)
           in case ids of
                None \<Rightarrow> token_call (on_part_updated (fst t) props) g
              | Some (psid, pmid, ppid) \<Rightarrow>
                  part_changed_event t directory (psid, pmid, ppid)
                    (if removed then on_part_removed (fst t) psid pmid ppid else on_part_updated (fst t) props) g)"

datatype publish_error = AttributeError | TypeError

text \<open>
  \<open>publish\<close>. A document that is not an object has no \<open>get\<close>; an event type that is a list or an
  object is not hashable, so the first membership test raises.
\<close>

definition publish ::
  "(string \<Rightarrow> bool) \<Rightarrow> hub_clock \<Rightarrow> json \<Rightarrow> global_hub \<Rightarrow> (publish_error + unit) \<times> global_hub" where
  "publish iso_ok t global_event g0 =
     (let g1 = g0\<lparr>gh_upstream_events_total := gh_upstream_events_total g0 + 1\<rparr>
      in case global_event of
           JObj ev \<Rightarrow>
             (let directory = jget ev ''directory'';
                  g = observe_directory directory g1
              in case jget ev ''payload'' of
                   JObj payload \<Rightarrow>
                     (let props = (case jget payload ''properties'' of JObj d \<Rightarrow> d | _ \<Rightarrow> [])
                      in case jget payload ''type'' of
                           JArr _ \<Rightarrow> (Inl TypeError, g)
                         | JObj _ \<Rightarrow> (Inl TypeError, g)
                         | JStr event_type \<Rightarrow>
                             (Inr (),
                              if event_type \<in> set IMMEDIATE then publish_immediate t event_type directory props g
                              else if event_type \<in> set SESSION_EVENTS then publish_session t event_type payload directory props g
                              else if event_type \<in> set MESSAGE_EVENTS then publish_message t payload directory props g
                              else if event_type = ''session.error'' then publish_error iso_ok t directory props g
                              else if event_type \<in> set PART_EVENTS then publish_part t event_type directory props g
                              else record_dropped_event t (JStr event_type) g)
                         | other \<Rightarrow> (Inr (), record_dropped_event t other g))
                 | _ \<Rightarrow> (Inr (), g))
         | _ \<Rightarrow> (Inl AttributeError, g1))"

section \<open>Loss, heartbeat, subscription\<close>

definition resync_all :: "global_hub \<Rightarrow> global_hub" where
  "resync_all g =
     put_all ([], \<lparr>fr_event = Some ''resync'', fr_payload = JObj [(''reason'', JStr RESYNC_RECONNECT_NO_REPLAY)]\<rparr>)
       (g\<lparr>gh_tombstones := [], gh_retired := [], gh_last_updated_at := []\<rparr>)"

definition fire_callbacks :: "global_hub \<Rightarrow> global_hub" where
  "fire_callbacks g = g\<lparr>gh_callback_calls := gh_callback_calls g @ gh_callbacks g\<rparr>"

definition notify_upstream_loss :: "global_hub \<Rightarrow> global_hub" where
  "notify_upstream_loss g =
     (let g1 = resync_all g;
          g2 = g1\<lparr>gh_replay := write_barrier (gh_replay g1) None\<rparr>
      in fire_callbacks (token_call on_upstream_reconnect g2))"

text \<open>The same steps, each guarded on its own; none of the modelled ones raises.\<close>

definition notify_idle_recycle_loss :: "global_hub \<Rightarrow> global_hub" where
  "notify_idle_recycle_loss g =
     (let g1 = resync_all g;
          g2 = g1\<lparr>gh_replay := write_barrier (gh_replay g1) None\<rparr>;
          g3 = token_call on_upstream_reconnect g2
      in fire_callbacks g3)"

definition heartbeat_tick :: "global_hub \<Rightarrow> global_hub" where
  "heartbeat_tick g = put_all ([], heartbeat_frame) g"

definition gh_subscribe :: "global_hub \<Rightarrow> nat \<times> global_hub" where
  "gh_subscribe g =
     (let i = gh_next_id g
      in (i, g\<lparr>gh_next_id := i + 1, gh_subs := gh_subs g @ [i],
            gh_store := dict_set i (new_subscriber (gh_queue_items g) (gh_buffer_bytes g) (gh_max_frame_bytes g)) (gh_store g)\<rparr>))"

definition gh_unsubscribe :: "nat \<Rightarrow> global_hub \<Rightarrow> global_hub" where
  "gh_unsubscribe i g = g\<lparr>gh_subs := removeAll i (gh_subs g)\<rparr>"

definition gh_has_consumers :: "global_hub \<Rightarrow> bool" where
  "gh_has_consumers g \<longleftrightarrow>
     gh_subs g \<noteq> [] \<or> (case gh_token g of None \<Rightarrow> False | Some th \<Rightarrow> subscriber_count th > 0)"

section \<open>The upstream connection\<close>

text \<open>
  \<open>run\<close> as a machine: it is about to test the condition of its loop (a fresh task, or one that sleeps
  before the next round), awaits the connection, reads the stream, or has returned. \<open>Woken\<close> is the turn
  of the event loop in which the condition is tested: without consumers the loop ends, with some the
  connection is requested, and from then on consumers play no role until the next round. The HTTP
  client delivers the other events: the connection stands (after \<^verbatim>\<open>raise_for_status\<close>), a line, the
  regular end of the stream, or an exception; \<open>NoClient\<close> is the sleep of a hub without a client.
  \<open>Spawned\<close> is a new \<open>run\<close> task, also after a cancellation. The JSON decoder is the
  argument \<open>loads\<close>, \<open>None\<close> for a decode error. The sleeps are not modelled, their durations are.
\<close>

datatype run_phase = AtHead | Connecting | Streaming | Returned

record run_loop =
  rn_phase :: run_phase
  rn_delay :: real
  rn_lines :: "string list"

datatype run_event = Spawned | Woken | NoClient | Connected | Line hub_clock string | Eof | Failed

definition new_run_loop :: run_loop where
  "new_run_loop = \<lparr>rn_phase = AtHead, rn_delay = 1, rn_lines = []\<rparr>"

definition back_off :: "run_loop \<Rightarrow> run_loop" where
  "back_off r = r\<lparr>rn_phase := AtHead, rn_delay := min (rn_delay r * 2) 30\<rparr>"

definition run_connected :: "run_loop \<times> global_hub \<Rightarrow> run_loop \<times> global_hub" where
  "run_connected rg =
     (case rg of (r, g) \<Rightarrow>
        let g1 = (if gh_ever_connected g
                  then let g' = g\<lparr>gh_reconnects_total := gh_reconnects_total g + 1\<rparr>
                       in if \<not> gh_loss_notified g' then notify_upstream_loss g' else g'
                  else g)
        in (r\<lparr>rn_phase := Streaming, rn_delay := 1, rn_lines := []\<rparr>,
            g1\<lparr>gh_ever_connected := True, gh_loss_notified := False\<rparr>))"

text \<open>The common tail of the end of the stream and of an exception.\<close>

definition run_lost :: "run_loop \<times> global_hub \<Rightarrow> run_loop \<times> global_hub" where
  "run_lost rg =
     (case rg of (r, g) \<Rightarrow>
        (back_off r,
         if gh_ever_connected g \<and> \<not> gh_loss_notified g
         then (notify_upstream_loss g)\<lparr>gh_loss_notified := True\<rparr> else g))"

definition py_lstrip :: "string \<Rightarrow> string" where
  "py_lstrip s = dropWhile is_py_space s"

definition run_line ::
  "(string \<Rightarrow> json option) \<Rightarrow> (string \<Rightarrow> bool) \<Rightarrow> hub_clock \<Rightarrow> string \<Rightarrow> run_loop \<times> global_hub \<Rightarrow> run_loop \<times> global_hub" where
  "run_line loads iso_ok t line rg =
     (case rg of (r, g0) \<Rightarrow>
        let g = g0\<lparr>gh_upstream_bytes := gh_upstream_bytes g0 + upstream_line_bytes line\<rparr>
        in if starts_with ''data:'' line
           then (r\<lparr>rn_lines := rn_lines r @ [py_lstrip (drop 5 line)]\<rparr>, g)
           else if line = [] \<and> rn_lines r \<noteq> []
           then (case loads (join_with newline (rn_lines r)) of
                   None \<Rightarrow> (r\<lparr>rn_lines := []\<rparr>, g)
                 | Some ev \<Rightarrow>
                     (case publish iso_ok t ev g of
                        (Inr _, g') \<Rightarrow> (r\<lparr>rn_lines := []\<rparr>, g')
                      | (Inl _, g') \<Rightarrow> run_lost (r, g')))
           else (r, g))"

definition run_step ::
  "(string \<Rightarrow> json option) \<Rightarrow> (string \<Rightarrow> bool) \<Rightarrow> run_event \<Rightarrow> run_loop \<times> global_hub \<Rightarrow> run_loop \<times> global_hub" where
  "run_step loads iso_ok ev rg =
     (case rg of (r, g) \<Rightarrow>
        case ev of
          Spawned \<Rightarrow> (new_run_loop, g)
        | _ \<Rightarrow>
            (case rn_phase r of
               Returned \<Rightarrow> (r, g)
             | AtHead \<Rightarrow>
                 (case ev of
                    Woken \<Rightarrow> (r\<lparr>rn_phase := (if gh_has_consumers g then Connecting else Returned)\<rparr>, g)
                  | _ \<Rightarrow> (r, g))
             | Connecting \<Rightarrow>
                 (case ev of
                    NoClient \<Rightarrow> (back_off r, g)
                  | Connected \<Rightarrow> run_connected (r, g)
                  | Failed \<Rightarrow> run_lost (r, g)
                  | _ \<Rightarrow> (r, g))
             | Streaming \<Rightarrow>
                 (case ev of
                    Line t line \<Rightarrow> run_line loads iso_ok t line (r, g)
                  | Eof \<Rightarrow> run_lost (r, g)
                  | Failed \<Rightarrow> run_lost (r, g)
                  | _ \<Rightarrow> (r, g))))"

end
