(* ===== verification/Token_Hub_Log.thy ===== *)
theory Token_Hub_Log
  imports Token_Hub_Text
begin

text \<open>
  What the token hub does to the shared replay log: every handler moves it by a sequence of log
  operations on token domains only. The rules are stated for a log that has moved already, so
  that they chain along the calls of a handler.
\<close>

fun token_log_op :: "frame rl_op \<Rightarrow> bool" where
  "token_log_op (Op_Publish d _ _ _) \<longleftrightarrow> starts_with ''t:'' d"
| "token_log_op (Op_Barrier (Some d)) \<longleftrightarrow> starts_with ''t:'' d"
| "token_log_op (Op_Invalidate d) \<longleftrightarrow> starts_with ''t:'' d"
| "token_log_op _ \<longleftrightarrow> False"

definition log_moves :: "frame replay_log \<Rightarrow> frame replay_log \<Rightarrow> bool" where
  "log_moves l l' \<longleftrightarrow> (\<exists>ops. list_all token_log_op ops \<and> l' = fold rl_step ops l)"

lemma log_moves_refl [simp]: "log_moves l l"
  unfolding log_moves_def by (rule exI [of _ "[]"]) simp

lemma log_moves_step: "log_moves l l' \<Longrightarrow> token_log_op x \<Longrightarrow> log_moves l (rl_step x l')"
proof -
  assume "log_moves l l'" and x: "token_log_op x"
  then obtain ops where "list_all token_log_op ops" "l' = fold rl_step ops l" by (auto simp: log_moves_def)
  then have "list_all token_log_op (ops @ [x])" "rl_step x l' = fold rl_step (ops @ [x]) l" using x by simp_all
  then show ?thesis unfolding log_moves_def by blast
qed

lemma token_domain_prefix [simp]: "starts_with ''t:'' (token_domain sid)"
  by (simp add: token_domain_def starts_with_def)

named_theorems moves \<open>log movements of the token hub\<close>

lemma fold_moves:
  assumes "\<And>x h. log_moves l (th_replay h) \<Longrightarrow> log_moves l (th_replay (f x h))" and "log_moves l (th_replay h)"
  shows "log_moves l (th_replay (fold f xs h))"
  using assms(2) by (induction xs arbitrary: h) (simp_all add: assms(1))

lemma publish_moves [moves]:
  "log_moves l (th_replay h) \<Longrightarrow> log_moves l (th_replay (snd (publish_seq_frame t sid build kind h)))"
  unfolding publish_replay by (rule log_moves_step) simp_all

lemma fanout_delta_moves [moves]: "log_moves l (th_replay h) \<Longrightarrow> log_moves l (th_replay (fanout_delta_frame t key s h))"
  unfolding fanout_delta_replay by (rule publish_moves)

lemma fanout_removed_moves [moves]:
  "log_moves l (th_replay h) \<Longrightarrow> log_moves l (th_replay (fanout_message_removed t sid mid h))"
  using publish_moves [of l h t sid "\<lambda>q. message_removed_frame sid mid (Some q)" FRAME_KIND_TOMBSTONE]
  by (simp add: fanout_message_removed_def Let_def split_beta split: option.splits)

lemma barrier_moves [moves]: "log_moves l (th_replay h) \<Longrightarrow> log_moves l (th_replay (write_replay_barrier sid h))"
  using log_moves_step [of l "th_replay h" "Op_Barrier (Some (token_domain sid))"] by (simp add: write_replay_barrier_def)

lemma invalidate_moves: "log_moves l l' \<Longrightarrow> log_moves l (snd (mark_invalidated l' (token_domain sid)))"
  using log_moves_step [of l l' "Op_Invalidate (token_domain sid)"] by simp

lemma terminate_replay [simp]: "th_replay (fold (sub_terminate r) xs h) = th_replay h"
  by (rule fold_keeps) simp

lemma replayable_moves [moves]:
  assumes "log_moves l (th_replay h)"
  shows "log_moves l (th_replay (snd (fanout_replayable_resync t sid reason h)))"
  using assms publish_moves [OF assms, of t sid "\<lambda>q. resync_frame sid reason (Some q)" FRAME_KIND_BUSINESS]
    barrier_moves invalidate_moves
  by (auto simp: fanout_replayable_resync_def Let_def write_replay_barrier_def split: option.splits prod.splits)

lemma flush_key_moves [moves]: "log_moves l (th_replay h) \<Longrightarrow> log_moves l (th_replay (flush_key tap t k h))"
  by (auto simp: flush_key_def Let_def split_beta split: option.splits intro!: fanout_delta_moves)

lemma drop_drained_replay [simp]: "th_replay (drop_drained P h) = th_replay h"
  by (simp add: drop_drained_def)

lemma flush_moves [moves]: "log_moves l (th_replay h) \<Longrightarrow> log_moves l (th_replay (flush t h))"
  by (simp add: flush_def Let_def fold_moves flush_key_moves)

lemma flush_sid_moves [moves]: "log_moves l (th_replay h) \<Longrightarrow> log_moves l (th_replay (flush_sid t sid h))"
  by (simp add: flush_sid_def fold_moves flush_key_moves)

lemma evict_moves [moves]:
  assumes "log_moves l (th_replay h)"
  shows "log_moves l (th_replay (evict_part_for_memory t k h))"
proof (cases "drop_part (fst t) k h")
  case (Pair b h1)
  then have "log_moves l (th_replay h1)" using assms by (metis drop_part_replay snd_conv)
  then show ?thesis
    by (auto simp: evict_part_for_memory_def Pair Let_def split: bool.splits intro!: moves)
qed

lemma truncate_replay [simp]: "th_replay (truncate_part_for_all n k h) = th_replay h"
  by (simp add: truncate_part_for_all_def)

lemma reserve_loop_moves [moves]:
  "log_moves l (th_replay h) \<Longrightarrow> log_moves l (th_replay (snd (reserve_loop t n k h)))"
proof (induction t n k h rule: reserve_loop.induct)
  case (1 t n k h)
  then show ?case by (subst reserve_loop.simps) (auto simp: evict_moves split: option.splits)
qed

lemma start_count_moves [moves]: "log_moves l (th_replay h) \<Longrightarrow> log_moves l (th_replay (start_count_loop t h))"
proof (induction t h rule: start_count_loop.induct)
  case (1 t h)
  then show ?case by (subst start_count_loop.simps) (auto simp: evict_moves split: option.splits)
qed

lemma start_bytes_moves [moves]: "log_moves l (th_replay h) \<Longrightarrow> log_moves l (th_replay (start_bytes_loop t k h))"
proof (induction t k h rule: start_bytes_loop.induct)
  case (1 t k h)
  then show ?case by (subst start_bytes_loop.simps) (auto simp: evict_moves split: option.splits)
qed

lemma reserve_moves [moves]: "log_moves l (th_replay h) \<Longrightarrow> log_moves l (th_replay (snd (reserve t lp n k h)))"
  by (simp add: reserve_def reserve_loop_moves)

lemma check_pending_moves [moves]: "log_moves l (th_replay h) \<Longrightarrow> log_moves l (th_replay (check_pending_budget t k h))"
  by (auto simp: check_pending_budget_def Let_def split: option.splits intro!: moves)

lemma start_part_moves [moves]: "log_moves l (th_replay h) \<Longrightarrow> log_moves l (th_replay (start_part t k s h))"
  by (auto simp: start_part_def Let_def intro!: moves)

lemma finish_part_moves [moves]: "log_moves l (th_replay h) \<Longrightarrow> log_moves l (th_replay (finish_part t k h))"
  by (auto simp: finish_part_def Let_def split_beta split: option.splits intro!: fanout_delta_moves)

lemma accept_moves [moves]: "log_moves l (th_replay h) \<Longrightarrow> log_moves l (th_replay (accept_delta t k d lp h))"
  by (auto simp: accept_delta_def Let_def split_beta intro!: moves)

lemma deleted_sid_replay [simp]: "th_replay (snd (is_deleted_sid n sid h)) = th_replay h"
  by (simp add: is_deleted_sid_def split: option.splits)

lemma deleted_sid_eq: "is_deleted_sid n sid h = (b, h1) \<Longrightarrow> th_replay h1 = th_replay h"
  by (metis deleted_sid_replay snd_conv)

lemma on_part_updated_moves [moves]:
  assumes "log_moves l (th_replay h)"
  shows "log_moves l (th_replay (on_part_updated t props h))"
proof (cases rule: on_part_updated_gate [of t props h])
  case (shut sid)
  then show ?thesis using assms by auto
next
  case (pass part sid mid pid tm)
  show ?thesis unfolding pass(2) using assms
    by (simp add: Let_def remember_nontext_def start_part_moves finish_part_moves)
qed

lemma on_part_delta_moves [moves]:
  assumes "log_moves l (th_replay h)"
  shows "log_moves l (th_replay (on_part_delta t props h))"
proof (cases rule: on_part_delta_gate [of t props h])
  case (shut sid)
  then show ?thesis using assms by auto
next
  case (pass sid mid pid d)
  let ?g = "snd (is_deleted_sid (fst t) sid h)"
  have "log_moves l (th_replay (snd (reserve t lp n k ?g)))" for lp n k
    using assms by (simp add: reserve_moves)
  then have "log_moves l (th_replay (case reserve t lp n k ?g of (False, h2) \<Rightarrow> h2 | (True, h2) \<Rightarrow> accept_delta t k d lp h2))"
    for lp n k
    using accept_moves by (simp add: case_prod_unfold bool.case_eq_if)
  then show ?thesis unfolding pass(3) using assms by (simp add: Let_def split: option.splits)
qed

lemma retire_replay [simp]:
  "th_replay (retire_where P h) = th_replay h" "th_replay (retire_message sid mid h) = th_replay h"
  "th_replay (retire_session sid h) = th_replay h"
  by (simp_all add: retire_where_def retire_message_def retire_session_def Let_def)

lemma on_part_removed_replay [simp]: "th_replay (on_part_removed t sid mid pid h) = th_replay h"
  by (auto simp: on_part_removed_def split: prod.splits bool.splits dest: deleted_sid_eq)

lemma ttl_retire_replay [simp]: "th_replay (fold ttl_retire xs h) = th_replay h"
  by (rule fold_keeps) (simp add: ttl_retire_def Let_def discard_nontext_def split: option.splits)

lemma heartbeat_replay [simp]: "th_replay (fanout_heartbeat h) = th_replay h"
  unfolding fanout_heartbeat_def by (intro fold_keeps) (simp add: split_beta fold_keeps [of th_replay])

lemma reconnect_replay [simp]: "th_replay (on_upstream_reconnect h) = th_replay h"
  by (simp add: on_upstream_reconnect_def Let_def fold_keeps [of th_replay])

lemma flush_tick_moves: "log_moves l (th_replay h) \<Longrightarrow> log_moves l (th_replay (snd (flush_loop_tick t ticks h)))"
  by (simp add: flush_loop_tick_def Let_def split_beta ttl_sweep_def flush_moves)

lemma hub_step_moves: "log_moves l (th_replay h) \<Longrightarrow> log_moves l (th_replay (hub_step x h))"
  by (cases x)
    (auto simp: on_message_removed_def on_session_status_def on_session_deleted_def Let_def enqueue_session_resync_def
      prune_session_status_def remember_deleted_sid_def attach_subscriber_def detach_subscriber_def writer_turn_def
      split: option.splits prod.splits intro!: moves flush_tick_moves)

section \<open>The global domain under token operations\<close>

lemma token_op_global:
  "token_log_op x \<Longrightarrow> h_frames (h_step x H) GLOBAL_DOMAIN = h_frames H GLOBAL_DOMAIN \<and>
     h_wall (h_step x H) GLOBAL_DOMAIN = h_wall H GLOBAL_DOMAIN \<and> serving (h_step x H) = serving H"
  by (cases x rule: token_log_op.cases)
    (auto simp: starts_with_def serving_def h_create_def h_publish_def h_push_def split: option.splits)

lemma moves_history:
  assumes "log_moves l l'" and "rl_rel l H"
  shows "\<exists>H'. rl_rel l' H' \<and> h_frames H' GLOBAL_DOMAIN = h_frames H GLOBAL_DOMAIN \<and>
    h_wall H' GLOBAL_DOMAIN = h_wall H GLOBAL_DOMAIN \<and> serving H' = serving H"
proof -
  obtain ops where ops: "list_all token_log_op ops" "l' = fold rl_step ops l" using assms(1) by (auto simp: log_moves_def)
  have "h_frames (fold h_step ops H) GLOBAL_DOMAIN = h_frames H GLOBAL_DOMAIN \<and>
      h_wall (fold h_step ops H) GLOBAL_DOMAIN = h_wall H GLOBAL_DOMAIN \<and> serving (fold h_step ops H) = serving H"
    using ops(1) by (induction ops arbitrary: H) (simp_all add: token_op_global)
  then show ?thesis using run_rel [OF assms(2), of ops] ops(2) by blast
qed

lemma moves_config: "log_moves l l' \<Longrightarrow> same_config l l'"
  by (auto simp: log_moves_def run_config)

end
