(* ===== verification/Global_Hub_Invariant.thy ===== *)
theory Global_Hub_Invariant
  imports Global_Hub Token_Hub_Log
begin

text \<open>
  The invariant of the control plane and that every operation keeps it.
\<close>

section \<open>What an operation leaves alone\<close>

lemma token_call_frame [simp]:
  "gh_dumps (token_call f g) = gh_dumps g" "gh_subs (token_call f g) = gh_subs g" "gh_tap (token_call f g) = gh_tap g"
  "gh_pending (token_call f g) = gh_pending g" "gh_sticky (token_call f g) = gh_sticky g"
  "gh_tombstones (token_call f g) = gh_tombstones g" "gh_retired (token_call f g) = gh_retired g"
  "gh_last_updated_at (token_call f g) = gh_last_updated_at g" "gh_revision (token_call f g) = gh_revision g"
  "gh_dropped (token_call f g) = gh_dropped g" "gh_qp_last_activity (token_call f g) = gh_qp_last_activity g"
  "gh_emitted (token_call f g) = gh_emitted g" "gh_callbacks (token_call f g) = gh_callbacks g"
  "gh_callback_calls (token_call f g) = gh_callback_calls g" "gh_ever_connected (token_call f g) = gh_ever_connected g"
  "gh_loss_notified (token_call f g) = gh_loss_notified g" "gh_allowlist (token_call f g) = gh_allowlist g"
  "gh_dir_ok (token_call f g) = gh_dir_ok g" "gh_turns (token_call f g) = gh_turns g"
  "gh_allowlist_dropped (token_call f g) = gh_allowlist_dropped g"
  by (simp_all add: token_call_def Let_def split: option.split)

lemma observe_directory_frame [simp]:
  "gh_dumps (observe_directory d g) = gh_dumps g" "gh_subs (observe_directory d g) = gh_subs g"
  "gh_tap (observe_directory d g) = gh_tap g" "gh_store (observe_directory d g) = gh_store g"
  "gh_pending (observe_directory d g) = gh_pending g" "gh_sticky (observe_directory d g) = gh_sticky g"
  "gh_tombstones (observe_directory d g) = gh_tombstones g" "gh_retired (observe_directory d g) = gh_retired g"
  "gh_last_updated_at (observe_directory d g) = gh_last_updated_at g" "gh_revision (observe_directory d g) = gh_revision g"
  "gh_dropped (observe_directory d g) = gh_dropped g" "gh_qp_last_activity (observe_directory d g) = gh_qp_last_activity g"
  "gh_emitted (observe_directory d g) = gh_emitted g" "gh_callbacks (observe_directory d g) = gh_callbacks g"
  "gh_callback_calls (observe_directory d g) = gh_callback_calls g" "gh_ever_connected (observe_directory d g) = gh_ever_connected g"
  "gh_loss_notified (observe_directory d g) = gh_loss_notified g" "gh_allowlist (observe_directory d g) = gh_allowlist g"
  "gh_dir_ok (observe_directory d g) = gh_dir_ok g" "gh_turns (observe_directory d g) = gh_turns g"
  "gh_token (observe_directory d g) = gh_token g" "gh_replay (observe_directory d g) = gh_replay g"
  "gh_allowlist_dropped (observe_directory d g) = gh_allowlist_dropped g"
  by (simp_all add: observe_directory_def split: option.split json.split)

lemma put_all_frame [simp]:
  "gh_dumps (put_all w g) = gh_dumps g" "gh_subs (put_all w g) = gh_subs g" "gh_tap (put_all w g) = gh_tap g"
  "gh_pending (put_all w g) = gh_pending g" "gh_sticky (put_all w g) = gh_sticky g"
  "gh_tombstones (put_all w g) = gh_tombstones g" "gh_retired (put_all w g) = gh_retired g"
  "gh_last_updated_at (put_all w g) = gh_last_updated_at g" "gh_revision (put_all w g) = gh_revision g"
  "gh_dropped (put_all w g) = gh_dropped g" "gh_qp_last_activity (put_all w g) = gh_qp_last_activity g"
  "gh_emitted (put_all w g) = gh_emitted g" "gh_callbacks (put_all w g) = gh_callbacks g"
  "gh_callback_calls (put_all w g) = gh_callback_calls g" "gh_ever_connected (put_all w g) = gh_ever_connected g"
  "gh_loss_notified (put_all w g) = gh_loss_notified g" "gh_allowlist (put_all w g) = gh_allowlist g"
  "gh_dir_ok (put_all w g) = gh_dir_ok g" "gh_turns (put_all w g) = gh_turns g"
  "gh_token (put_all w g) = gh_token g" "gh_replay (put_all w g) = gh_replay g"
  "gh_allowlist_dropped (put_all w g) = gh_allowlist_dropped g"
  by (simp_all add: put_all_def)

lemmas emit_defs = emit_directory_frame_def replay_publish_def Let_def

lemma emit_frame [simp]:
  "gh_dumps (emit_directory_frame t f d g) = gh_dumps g" "gh_subs (emit_directory_frame t f d g) = gh_subs g"
  "gh_tap (emit_directory_frame t f d g) = gh_tap g" "gh_pending (emit_directory_frame t f d g) = gh_pending g"
  "gh_sticky (emit_directory_frame t f d g) = gh_sticky g" "gh_tombstones (emit_directory_frame t f d g) = gh_tombstones g"
  "gh_retired (emit_directory_frame t f d g) = gh_retired g"
  "gh_last_updated_at (emit_directory_frame t f d g) = gh_last_updated_at g"
  "gh_revision (emit_directory_frame t f d g) = gh_revision g" "gh_dropped (emit_directory_frame t f d g) = gh_dropped g"
  "gh_qp_last_activity (emit_directory_frame t f d g) = gh_qp_last_activity g"
  "gh_callbacks (emit_directory_frame t f d g) = gh_callbacks g"
  "gh_callback_calls (emit_directory_frame t f d g) = gh_callback_calls g"
  "gh_ever_connected (emit_directory_frame t f d g) = gh_ever_connected g"
  "gh_loss_notified (emit_directory_frame t f d g) = gh_loss_notified g"
  "gh_allowlist (emit_directory_frame t f d g) = gh_allowlist g" "gh_dir_ok (emit_directory_frame t f d g) = gh_dir_ok g"
  "gh_turns (emit_directory_frame t f d g) = gh_turns g" "gh_token (emit_directory_frame t f d g) = gh_token g"
  by (simp_all add: emit_defs split: prod.split sum.split)

lemma emit_digest_frame [simp]:
  "gh_dumps (emit_digest t p g) = gh_dumps g" "gh_subs (emit_digest t p g) = gh_subs g"
  "gh_tap (emit_digest t p g) = gh_tap g" "gh_pending (emit_digest t p g) = gh_pending g"
  "gh_sticky (emit_digest t p g) = gh_sticky g" "gh_tombstones (emit_digest t p g) = gh_tombstones g"
  "gh_retired (emit_digest t p g) = gh_retired g" "gh_last_updated_at (emit_digest t p g) = gh_last_updated_at g"
  "gh_revision (emit_digest t p g) = gh_revision g" "gh_dropped (emit_digest t p g) = gh_dropped g"
  "gh_qp_last_activity (emit_digest t p g) = gh_qp_last_activity g" "gh_callbacks (emit_digest t p g) = gh_callbacks g"
  "gh_callback_calls (emit_digest t p g) = gh_callback_calls g"
  "gh_ever_connected (emit_digest t p g) = gh_ever_connected g" "gh_loss_notified (emit_digest t p g) = gh_loss_notified g"
  "gh_allowlist (emit_digest t p g) = gh_allowlist g" "gh_dir_ok (emit_digest t p g) = gh_dir_ok g"
  "gh_turns (emit_digest t p g) = gh_turns g" "gh_token (emit_digest t p g) = gh_token g"
  by (simp_all add: emit_digest_def Let_def split: prod.split)

lemma flush_sid_frame [simp]:
  "gh_dumps (gh_flush_sid t sid g) = gh_dumps g" "gh_subs (gh_flush_sid t sid g) = gh_subs g"
  "gh_tap (gh_flush_sid t sid g) = gh_tap g" "gh_sticky (gh_flush_sid t sid g) = gh_sticky g"
  "gh_tombstones (gh_flush_sid t sid g) = gh_tombstones g" "gh_retired (gh_flush_sid t sid g) = gh_retired g"
  "gh_last_updated_at (gh_flush_sid t sid g) = gh_last_updated_at g" "gh_revision (gh_flush_sid t sid g) = gh_revision g"
  "gh_dropped (gh_flush_sid t sid g) = gh_dropped g" "gh_qp_last_activity (gh_flush_sid t sid g) = gh_qp_last_activity g"
  "gh_callbacks (gh_flush_sid t sid g) = gh_callbacks g" "gh_callback_calls (gh_flush_sid t sid g) = gh_callback_calls g"
  "gh_ever_connected (gh_flush_sid t sid g) = gh_ever_connected g" "gh_loss_notified (gh_flush_sid t sid g) = gh_loss_notified g"
  "gh_allowlist (gh_flush_sid t sid g) = gh_allowlist g" "gh_dir_ok (gh_flush_sid t sid g) = gh_dir_ok g"
  "gh_turns (gh_flush_sid t sid g) = gh_turns g" "gh_token (gh_flush_sid t sid g) = gh_token g"
  by (simp_all add: gh_flush_sid_def split: option.split)

lemma flush_sid_pending [simp]: "gh_pending (gh_flush_sid t sid g) = dict_pop sid (gh_pending g)"
  by (auto simp: gh_flush_sid_def dict_pop_def dict_get_def map_of_eq_None_iff split: option.split
      intro!: filter_True [symmetric])

section \<open>The invariant\<close>

definition entry_ok :: "int \<Rightarrow> digest_fields \<Rightarrow> bool" where
  "entry_ok revision e \<longleftrightarrow> df_last_error e = Error_Unset \<and>
     (case df_messages_revision e of None \<Rightarrow> True | Some r \<Rightarrow> r \<le> revision)"

definition tables_ok :: "global_hub \<Rightarrow> bool" where
  "tables_ok g \<longleftrightarrow> dict_wf (gh_pending g) \<and> dict_wf (gh_sticky g) \<and> dict_wf (gh_tombstones g) \<and>
     dict_wf (gh_retired g) \<and> dict_wf (gh_last_updated_at g) \<and> dict_wf (gh_dropped g) \<and> dict_wf (gh_qp_last_activity g) \<and>
     length (gh_sticky g) \<le> LAST_UPDATED_AT_BY_SID_MAX \<and> length (gh_tombstones g) \<le> LAST_UPDATED_AT_BY_SID_MAX \<and>
     length (gh_retired g) \<le> TOKEN_REMOVED_MESSAGES_MAX \<and> length (gh_qp_last_activity g) \<le> QP_LAST_ACTIVITY_MAX \<and>
     length (dict_pop OTHER_TYPE (gh_dropped g)) \<le> DROPPED_TYPES_MAX"

definition sessions_ok :: "global_hub \<Rightarrow> bool" where
  "sessions_ok g \<longleftrightarrow> (\<forall>e \<in> snd ` set (gh_pending g). entry_ok (gh_revision g) e) \<and>
     (\<forall>sid. dict_has (gh_tombstones g) sid \<longrightarrow> \<not> dict_has (gh_sticky g) sid)"

definition token_ok :: "global_hub \<Rightarrow> bool" where
  "token_ok g = (case gh_token g of None \<Rightarrow> True | Some th \<Rightarrow> hub_inv th)"

definition gh_inv :: "global_hub \<Rightarrow> bool" where
  "gh_inv g \<longleftrightarrow> tables_ok g \<and> sessions_ok g \<and> token_ok g"

lemma hub_inv_shared [simp]:
  "hub_inv (h\<lparr>th_replay := l\<rparr>) \<longleftrightarrow> hub_inv h" "hub_inv (h\<lparr>th_events_tap := tap\<rparr>) \<longleftrightarrow> hub_inv h"
  by (simp_all add: hub_inv_def core_defs)

lemma token_call_ok:
  assumes "\<And>h. hub_inv h \<Longrightarrow> hub_inv (f h)" and "token_ok g"
  shows "token_ok (token_call f g)"
  using assms by (simp add: token_ok_def token_call_def Let_def split: option.splits)

lemma token_call_inv: "(\<And>h. hub_inv h \<Longrightarrow> hub_inv (f h)) \<Longrightarrow> gh_inv g \<Longrightarrow> gh_inv (token_call f g)"
  unfolding gh_inv_def by (intro conjI token_call_ok) (auto simp: tables_ok_def sessions_ok_def)

text \<open>Operations that touch none of the tables keep the invariant.\<close>

definition tables_view where
  "tables_view g = (gh_pending g, gh_sticky g, gh_tombstones g, gh_retired g, gh_last_updated_at g, gh_dropped g,
     gh_qp_last_activity g, gh_revision g, gh_token g)"

lemma gh_inv_view: "tables_view g' = tables_view g \<Longrightarrow> gh_inv g' = gh_inv g"
  by (simp add: tables_view_def gh_inv_def tables_ok_def sessions_ok_def token_ok_def)

lemma emit_inv [simp]:
  "gh_inv (emit_directory_frame t f d g) = gh_inv g" "gh_inv (observe_directory d g) = gh_inv g"
  "gh_inv (put_all w g) = gh_inv g" "gh_inv (emit_digest t p g) = gh_inv g"
  by (rule gh_inv_view, simp add: tables_view_def)+

lemma entry_ok_new [simp]: "entry_ok r new_digest_fields"
  by (simp add: entry_ok_def new_digest_fields_def)

lemma entry_ok_mono: "entry_ok r e \<Longrightarrow> r \<le> r' \<Longrightarrow> entry_ok r' e"
  by (auto simp: entry_ok_def split: option.splits)

lemma entry_ok_upd [simp]:
  "entry_ok r (e\<lparr>df_directory := d\<rparr>) = entry_ok r e" "entry_ok r (e\<lparr>df_status := s\<rparr>) = entry_ok r e"
  "entry_ok r (e\<lparr>df_message_id := m\<rparr>) = entry_ok r e" "entry_ok r (e\<lparr>df_updated_at := u\<rparr>) = entry_ok r e"
  "entry_ok r (e\<lparr>df_archived := a\<rparr>) = entry_ok r e" "entry_ok r (e\<lparr>df_deleted := b\<rparr>) = entry_ok r e"
  "entry_ok r (e\<lparr>df_turn_incarnation := i\<rparr>) = entry_ok r e" "entry_ok r (e\<lparr>df_turn := n\<rparr>) = entry_ok r e"
  by (simp_all add: entry_ok_def)

lemma stamp_directory_ok [simp]: "entry_ok r (stamp_directory d e) = entry_ok r e"
  by (simp add: stamp_directory_def split: json.splits)

lemma pending_entry_ok: "sessions_ok g \<Longrightarrow> entry_ok (gh_revision g) (pending_entry g sid)"
  by (force simp: sessions_ok_def pending_entry_def dict_get_or_def dest!: map_of_SomeD split: option.splits)

lemma put_entry_simps [simp]:
  "gh_sticky (put_entry sid e g) = gh_sticky g" "gh_tombstones (put_entry sid e g) = gh_tombstones g"
  "gh_retired (put_entry sid e g) = gh_retired g" "gh_last_updated_at (put_entry sid e g) = gh_last_updated_at g"
  "gh_dropped (put_entry sid e g) = gh_dropped g" "gh_qp_last_activity (put_entry sid e g) = gh_qp_last_activity g"
  "gh_revision (put_entry sid e g) = gh_revision g" "gh_token (put_entry sid e g) = gh_token g"
  "gh_pending (put_entry sid e g) = dict_set sid e (gh_pending g)" "gh_emitted (put_entry sid e g) = gh_emitted g"
  "gh_callbacks (put_entry sid e g) = gh_callbacks g" "gh_callback_calls (put_entry sid e g) = gh_callback_calls g"
  "gh_ever_connected (put_entry sid e g) = gh_ever_connected g" "gh_loss_notified (put_entry sid e g) = gh_loss_notified g"
  "gh_replay (put_entry sid e g) = gh_replay g" "gh_allowlist (put_entry sid e g) = gh_allowlist g"
  "gh_dir_ok (put_entry sid e g) = gh_dir_ok g"
  by (simp_all add: put_entry_def)

lemma put_entry_inv:
  assumes "gh_inv g" and "entry_ok (gh_revision g) e"
  shows "gh_inv (put_entry sid e g)"
  using assms by (auto simp: gh_inv_def tables_ok_def sessions_ok_def token_ok_def dest!: dict_set_elem)

lemma dict_pop_elem: "p \<in> set (dict_pop k d) \<longleftrightarrow> p \<in> set d \<and> fst p \<noteq> k"
  by (simp add: dict_pop_def)

lemma flush_sid_inv:
  assumes "tables_ok g" and "token_ok g"
    and "\<forall>k e. (k, e) \<in> set (gh_pending g) \<and> k \<noteq> sid \<longrightarrow> entry_ok (gh_revision g) e"
    and "\<forall>k. dict_has (gh_tombstones g) k \<longrightarrow> \<not> dict_has (gh_sticky g) k"
  shows "gh_inv (gh_flush_sid t sid g)"
  using assms by (auto simp: gh_inv_def tables_ok_def sessions_ok_def token_ok_def dict_pop_elem)

lemma flush_sid_inv': "gh_inv g \<Longrightarrow> gh_inv (gh_flush_sid t sid g)"
  by (rule flush_sid_inv) (auto simp: gh_inv_def sessions_ok_def)

section \<open>Every operation keeps it\<close>

lemma dict_cap_has: "dict_has (dict_cap n d) k \<Longrightarrow> dict_has d k"
  by (auto simp: dict_has_keys dict_cap_drop dest: in_set_dropD)

lemma dict_cap_wf: "dict_wf d \<Longrightarrow> dict_wf (dict_cap n d)"
  by (simp add: dict_wf_def dict_cap_drop distinct_map_drop)

lemma dict_filter_wf: "dict_wf d \<Longrightarrow> dict_wf (filter P d)"
  by (simp add: dict_wf_def distinct_map_filter)

lemma prune_inv:
  "gh_inv g \<Longrightarrow> gh_inv (prune_deleted_tombstones g)" "gh_inv g \<Longrightarrow> gh_inv (prune_sticky_last_error g)"
  "gh_inv g \<Longrightarrow> gh_inv (prune_last_updated_at g)" "gh_inv g \<Longrightarrow> gh_inv (prune_retired_messages n g)"
  by (auto simp: gh_inv_def tables_ok_def sessions_ok_def token_ok_def prune_deleted_tombstones_def prune_sticky_last_error_def
      prune_last_updated_at_def prune_retired_messages_def length_dict_cap dict_cap_wf dict_filter_wf dest: dict_cap_has)

lemma gh_inv_clear_pending: "gh_inv g \<Longrightarrow> gh_inv (g\<lparr>gh_pending := []\<rparr>)"
  by (simp add: gh_inv_def tables_ok_def sessions_ok_def token_ok_def)

lemma fold_emit_inv [simp]: "gh_inv (fold (emit_digest t) ps g) = gh_inv g"
  by (induction ps arbitrary: g) simp_all

lemma gh_flush_inv: "gh_inv g \<Longrightarrow> gh_inv (gh_flush t g)"
  by (simp add: gh_flush_def Let_def prune_inv gh_inv_clear_pending)

lemma bump_message_revision_eq:
  "\<exists>e upd. bump_message_revision t sid directory message_id g =
     put_entry sid (e\<lparr>df_updated_at := JInt upd, df_messages_revision := Some (gh_revision g + 1)\<rparr>)
       (g\<lparr>gh_last_updated_at := dict_move_to_end sid (dict_set sid upd (gh_last_updated_at g)),
          gh_revision := gh_revision g + 1\<rparr>) \<and>
     df_last_error e = df_last_error (pending_entry g sid) \<and>
     upd > dict_get_or (gh_last_updated_at g) sid 0 \<and> upd \<ge> now_ms t \<and>
     (\<forall>u. df_updated_at (pending_entry g sid) = JInt u \<longrightarrow> u < upd)"
proof -
  define e where "e = (case message_id of
      JStr m \<Rightarrow> (stamp_directory directory (pending_entry g sid))\<lparr>df_message_id := Some m\<rparr>
    | _ \<Rightarrow> stamp_directory directory (pending_entry g sid))"
  define upd where "upd = max (now_ms t) (max (case df_updated_at e of JInt i \<Rightarrow> i | _ \<Rightarrow> 0)
      (dict_get_or (gh_last_updated_at g) sid 0) + 1)"
  have "df_updated_at e = df_updated_at (pending_entry g sid)" "df_last_error e = df_last_error (pending_entry g sid)"
    by (simp_all add: e_def stamp_directory_def split: json.splits)
  moreover have "bump_message_revision t sid directory message_id g =
     put_entry sid (e\<lparr>df_updated_at := JInt upd, df_messages_revision := Some (gh_revision g + 1)\<rparr>)
       (g\<lparr>gh_last_updated_at := dict_move_to_end sid (dict_set sid upd (gh_last_updated_at g)),
          gh_revision := gh_revision g + 1\<rparr>)"
    by (simp add: bump_message_revision_def bump_updated_at_def Let_def e_def upd_def)
  ultimately show ?thesis by (intro exI [of _ e] exI [of _ upd]) (auto simp: upd_def)
qed

lemma bump_revision_mono: "gh_inv g \<Longrightarrow> gh_inv (g\<lparr>gh_revision := gh_revision g + 1\<rparr>)"
  by (auto simp: gh_inv_def tables_ok_def sessions_ok_def token_ok_def intro: entry_ok_mono)

lemma bump_message_revision_inv: "gh_inv g \<Longrightarrow> gh_inv (bump_message_revision t sid directory message_id g)"
proof -
  assume inv: "gh_inv g"
  obtain e upd where eq: "bump_message_revision t sid directory message_id g =
     put_entry sid (e\<lparr>df_updated_at := JInt upd, df_messages_revision := Some (gh_revision g + 1)\<rparr>)
       (g\<lparr>gh_last_updated_at := dict_move_to_end sid (dict_set sid upd (gh_last_updated_at g)),
          gh_revision := gh_revision g + 1\<rparr>)"
    and e: "df_last_error e = df_last_error (pending_entry g sid)"
    using bump_message_revision_eq [of t sid directory message_id g] by blast
  have "gh_inv (g\<lparr>gh_last_updated_at := dict_move_to_end sid (dict_set sid upd (gh_last_updated_at g)),
          gh_revision := gh_revision g + 1\<rparr>)"
    using bump_revision_mono [OF inv] by (simp add: gh_inv_def tables_ok_def sessions_ok_def token_ok_def)
  moreover have "df_last_error (pending_entry g sid) = Error_Unset"
    using inv pending_entry_ok [of g sid] by (simp add: gh_inv_def entry_ok_def)
  ultimately show ?thesis unfolding eq by (intro put_entry_inv) (simp_all add: entry_ok_def e)
qed

lemma record_dropped_inv: "gh_inv g \<Longrightarrow> gh_inv (record_dropped_event t v g)"
proof -
  assume inv: "gh_inv g"
  define key0 where "key0 = (case v of JStr s \<Rightarrow> s | _ \<Rightarrow> OTHER_TYPE)"
  define key where "key = (if \<not> dict_has (gh_dropped g) key0 \<and> length (gh_dropped g) \<ge> DROPPED_TYPES_MAX then OTHER_TYPE else key0)"
  have len: "length (dict_pop OTHER_TYPE (counter_inc key (gh_dropped g))) \<le> DROPPED_TYPES_MAX"
  proof (cases "dict_has (gh_dropped g) key \<or> key = OTHER_TYPE")
    case True
    have "length (dict_pop OTHER_TYPE (dict_set key n d)) = length (dict_pop OTHER_TYPE d)"
      if "dict_has d key \<or> key = OTHER_TYPE" for n and d :: "(string, int) dict"
      using that by (induction d) (auto simp: dict_pop_def dict_set_def dict_has_def split: if_splits)
    then show ?thesis using True inv by (simp add: counter_inc_def gh_inv_def tables_ok_def)
  next
    case False
    then have "length (gh_dropped g) < DROPPED_TYPES_MAX" by (auto simp: key_def split: if_splits)
    moreover have "length (dict_pop OTHER_TYPE (counter_inc key (gh_dropped g))) \<le> Suc (length (gh_dropped g))"
      using length_filter_le [of _ "counter_inc key (gh_dropped g)"] False
      by (simp add: counter_inc_def dict_pop_def length_dict_set)
    ultimately show ?thesis by simp
  qed
  have "tables_view (record_dropped_event t v g) = tables_view (g\<lparr>gh_dropped := counter_inc key (gh_dropped g)\<rparr>)"
    unfolding record_dropped_event_def Let_def key0_def [symmetric] key_def [symmetric] by (simp add: tables_view_def)
  moreover have "gh_inv (g\<lparr>gh_dropped := counter_inc key (gh_dropped g)\<rparr>)"
    using inv len by (simp add: gh_inv_def tables_ok_def sessions_ok_def token_ok_def counter_inc_def)
  ultimately show ?thesis using gh_inv_view by blast
qed

lemma publish_immediate_inv: "gh_inv g \<Longrightarrow> gh_inv (publish_immediate t et directory props g)"
proof -
  assume inv: "gh_inv g"
  have "gh_inv (g\<lparr>gh_qp_last_activity := record_qp_activity (gh_qp_last_activity g) d now\<rparr>)" for d now
    using inv lru_put_length [of QP_LAST_ACTIVITY_MAX]
    by (simp add: gh_inv_def tables_ok_def sessions_ok_def token_ok_def record_qp_activity_lru)
  then show ?thesis
    using inv by (simp add: publish_immediate_def Let_def flush_sid_inv' split: json.splits option.splits)
qed

lemma sticky_pop_inv: "gh_inv g \<Longrightarrow> gh_inv (g\<lparr>gh_sticky := dict_pop sid (gh_sticky g)\<rparr>)"
  by (auto simp: gh_inv_def tables_ok_def sessions_ok_def token_ok_def dict_pop_def dict_has_keys dict_filter_wf
      intro: order_trans [OF length_filter_le])

text \<open>An entry with an error may be put when it is flushed at once.\<close>

lemma put_flush_inv:
  assumes "gh_inv g"
  shows "gh_inv (gh_flush_sid t sid (put_entry sid e g))"
  using assms
  by (intro flush_sid_inv) (auto simp: gh_inv_def tables_ok_def sessions_ok_def token_ok_def dest!: dict_set_elem)

lemma session_status_inv: "gh_inv g \<Longrightarrow> gh_inv (session_status_event t sid directory props g)"
proof -
  assume inv: "gh_inv g"
  define status where "status = normalize_session_status (jget props ''status'')"
  define e2 where "e2 = (let e0 = stamp_directory directory (pending_entry g sid);
          e1 = (case status of None \<Rightarrow> e0 | Some s \<Rightarrow> e0\<lparr>df_status := Some s\<rparr>)
      in case gh_turns g of None \<Rightarrow> e1
         | Some r \<Rightarrow> e1\<lparr>df_turn_incarnation := fst (snapshot r sid), df_turn := snd (snapshot r sid)\<rparr>)"
  define g1 where "g1 = (if status = Some ''busy'' \<and> dict_has (gh_sticky g) sid
                then gh_flush_sid t sid (put_entry sid (e2\<lparr>df_last_error := Error_Value JNull\<rparr>)
                       (g\<lparr>gh_sticky := dict_pop sid (gh_sticky g)\<rparr>))
                else put_entry sid e2 g)"
  have "entry_ok (gh_revision g) (pending_entry g sid)" using inv by (simp add: gh_inv_def pending_entry_ok)
  then have "entry_ok (gh_revision g) e2" by (simp add: e2_def Let_def split: option.splits)
  then have g1: "gh_inv g1" using inv by (simp add: g1_def put_entry_inv put_flush_inv sticky_pop_inv)
  have eq: "session_status_event t sid directory props g =
      (case status of None \<Rightarrow> g1 | Some s \<Rightarrow> token_call (on_session_status (fst t) sid (JStr s)) g1)"
    unfolding session_status_event_def g1_def e2_def status_def Let_def by (rule refl)
  show ?thesis using g1 unfolding eq by (auto intro: token_call_inv on_session_status_inv split: option.splits)
qed

lemma session_deleted_inv: "gh_inv g \<Longrightarrow> gh_inv (session_deleted_event t sid directory g)"
proof -
  assume inv: "gh_inv g"
  let ?tombs = "dict_cap LAST_UPDATED_AT_BY_SID_MAX (dict_move_to_end sid (dict_set sid () (gh_tombstones g)))"
  let ?g = "g\<lparr>gh_tombstones := ?tombs, gh_sticky := dict_pop sid (gh_sticky g),
      gh_retired := dict_drop_keys (\<lambda>k. fst k = sid) (gh_retired g),
      gh_last_updated_at := dict_pop sid (gh_last_updated_at g)\<rparr>"
  have t: "dict_has (gh_tombstones g) k \<or> k = sid" if "dict_has ?tombs k" for k
    using dict_cap_has [OF that] by (auto simp: dict_has_keys move_set dict_pop_def)
  have w: "dict_wf ?tombs" "length ?tombs \<le> LAST_UPDATED_AT_BY_SID_MAX"
    using inv lru_put_wf [of "gh_tombstones g"] lru_put_length [of LAST_UPDATED_AT_BY_SID_MAX]
    by (simp_all add: gh_inv_def tables_ok_def lru_put_def)
  have s: "\<not> dict_has (dict_pop sid (gh_sticky g)) k" if "dict_has ?tombs k" for k
    using t [OF that] inv by (auto simp: gh_inv_def sessions_ok_def dict_has_keys dict_pop_def)
  have len: "length (dict_pop sid (gh_sticky g)) \<le> LAST_UPDATED_AT_BY_SID_MAX"
    "length (dict_drop_keys (\<lambda>k. fst k = sid) (gh_retired g)) \<le> TOKEN_REMOVED_MESSAGES_MAX"
    using inv by (auto simp: gh_inv_def tables_ok_def dict_pop_def dict_drop_keys_def intro: order_trans [OF length_filter_le])
  have "gh_inv ?g"
    using inv w s len by (simp add: gh_inv_def tables_ok_def sessions_ok_def token_ok_def dict_drop_keys_def dict_filter_wf)
  then have "gh_inv (put_entry sid ((stamp_directory directory (pending_entry g sid))\<lparr>df_deleted := True, df_last_error := Error_Unset\<rparr>) ?g)"
    using inv pending_entry_ok [of g sid] by (intro put_entry_inv) (simp_all add: gh_inv_def entry_ok_def stamp_directory_def split: json.splits)
  then show ?thesis
    using on_session_deleted_inv
    by (simp add: session_deleted_event_def Let_def prune_deleted_tombstones_def token_call_inv)
qed

lemma publish_session_inv: "gh_inv g \<Longrightarrow> gh_inv (publish_session t et payload directory props g)"
proof -
  assume inv: "gh_inv g"
  have "gh_inv (session_updated_event sid directory props g)" for sid
    using inv pending_entry_ok [of g sid]
    by (auto simp: session_updated_event_def Let_def gh_inv_def [of g] split: json.splits intro!: put_entry_inv [OF inv])
  then show ?thesis
    using inv by (simp add: publish_session_def session_status_inv session_deleted_inv split: option.splits)
qed

lemma publish_error_inv: "gh_inv g \<Longrightarrow> gh_inv (publish_error iso_ok t directory props g)"
proof -
  assume inv: "gh_inv g"
  have p: "gh_inv (put_entry sid (pending_entry g sid) g)" for sid
    using inv by (intro put_entry_inv) (simp_all add: gh_inv_def pending_entry_ok)
  have s: "gh_inv (prune_sticky_last_error (g\<lparr>gh_sticky := dict_move_to_end sid (dict_set sid v (gh_sticky g))\<rparr>))"
    if "\<not> dict_has (gh_tombstones g) sid" for sid v
  proof -
    have "k = sid \<or> dict_has (gh_sticky g) k" if "dict_has (dict_cap LAST_UPDATED_AT_BY_SID_MAX (dict_move_to_end sid (dict_set sid v (gh_sticky g)))) k" for k
      using dict_cap_has [OF that] by (auto simp: dict_has_keys move_set dict_pop_def)
    then have "\<not> dict_has (dict_cap LAST_UPDATED_AT_BY_SID_MAX (dict_move_to_end sid (dict_set sid v (gh_sticky g)))) k"
      if "dict_has (gh_tombstones g) k" for k
      using that inv \<open>\<not> dict_has (gh_tombstones g) sid\<close> unfolding gh_inv_def sessions_ok_def by metis
    then show ?thesis
      using inv lru_put_wf [of "gh_sticky g"] lru_put_length [of LAST_UPDATED_AT_BY_SID_MAX]
      by (auto simp: gh_inv_def tables_ok_def sessions_ok_def token_ok_def prune_sticky_last_error_def lru_put_def)
  qed
  show ?thesis
    using inv p s by (simp add: publish_error_def Let_def put_flush_inv split: option.splits)
qed

lemma retire_put_inv:
  "gh_inv g \<Longrightarrow> gh_inv (prune_retired_messages n (g\<lparr>gh_retired := dict_move_to_end k (dict_set k v (gh_retired g))\<rparr>))"
  by (auto simp: gh_inv_def tables_ok_def sessions_ok_def token_ok_def prune_retired_messages_def length_dict_cap
      intro!: dict_cap_wf dict_filter_wf)

lemma message_removed_inv: "gh_inv g \<Longrightarrow> gh_inv (message_removed_event t sid mid g)"
proof -
  assume inv: "gh_inv g"
  let ?g1 = "prune_retired_messages (now_ms t)
      (g\<lparr>gh_retired := dict_move_to_end (sid, mid) (dict_set (sid, mid) (now_ms t) (gh_retired g))\<rparr>)"
  let ?g2 = "token_call (on_message_removed (fst t) sid mid) ?g1"
  have g3: "gh_inv (?g2\<lparr>gh_revision := gh_revision ?g2 + 1\<rparr>)"
    by (intro bump_revision_mono token_call_inv retire_put_inv inv) (rule on_message_removed_inv)
  have "entry_ok (gh_revision ?g2 + 1) (e\<lparr>df_messages_revision := Some (gh_revision ?g2 + 1)\<rparr>)"
    if "dict_get (gh_pending ?g2) sid = Some e" for e
    using g3 that by (force simp: gh_inv_def sessions_ok_def entry_ok_def dict_get_def dest!: map_of_SomeD)
  then show ?thesis
    using g3 by (simp add: message_removed_event_def Let_def put_entry_inv split: option.splits)
qed

lemma publish_part_inv: "gh_inv g \<Longrightarrow> gh_inv (publish_part t et directory props g)"
proof -
  assume inv: "gh_inv g"
  have c: "gh_inv (part_changed_event t directory ids f g)" if "\<And>h. hub_inv h \<Longrightarrow> hub_inv (f h)" for ids f
    using inv that by (simp add: part_changed_event_def bump_message_revision_inv token_call_inv split: prod.splits)
  have "gh_inv (token_call (on_part_delta (fst t) props) g)" "gh_inv (token_call (on_part_updated (fst t) props) g)"
    by (rule token_call_inv [OF on_part_delta_inv inv] token_call_inv [OF on_part_updated_inv inv], assumption)+
  then show ?thesis
    using inv c [OF on_part_removed_inv] c [OF on_part_updated_inv] message_removed_inv [OF inv]
    by (simp add: publish_part_def Let_def split: option.split json.split)
qed

text \<open>The branches of \<open>publish\<close>, for case analysis: the handlers all run on the counted and observed hub.\<close>

definition received :: "json \<Rightarrow> global_hub \<Rightarrow> global_hub" where
  "received d g = observe_directory d (g\<lparr>gh_upstream_events_total := gh_upstream_events_total g + 1\<rparr>)"

lemma publish_branches:
  obtains (reject) "snd (publish iso_ok t ev g) = g\<lparr>gh_upstream_events_total := gh_upstream_events_total g + 1\<rparr>"
  | (ignore) d where "snd (publish iso_ok t ev g) = received d g"
  | (drop) d v where "snd (publish iso_ok t ev g) = record_dropped_event t v (received d g)"
  | (immediate) et d props where "snd (publish iso_ok t ev g) = publish_immediate t et d props (received d g)"
  | (session) et p d props where "snd (publish iso_ok t ev g) = publish_session t et p d props (received d g)"
  | (message) p d props where "snd (publish iso_ok t ev g) = publish_message t p d props (received d g)"
  | (error) d props where "snd (publish iso_ok t ev g) = publish_error iso_ok t d props (received d g)"
  | (part) et d props where "snd (publish iso_ok t ev g) = publish_part t et d props (received d g)"
proof (cases ev)
  case e: (JObj e)
  show ?thesis
  proof (cases "jget e ''payload''")
    case p: (JObj p)
    note pd = publish_def Let_def e p received_def [symmetric]
    show ?thesis
    proof (cases "jget p ''type''")
      case t: (JStr et)
      note td = pd t json.case
      consider "et \<in> set IMMEDIATE" | "et \<notin> set IMMEDIATE" "et \<in> set SESSION_EVENTS"
        | "et \<notin> set IMMEDIATE" "et \<notin> set SESSION_EVENTS" "et \<in> set MESSAGE_EVENTS"
        | "et \<notin> set IMMEDIATE" "et \<notin> set SESSION_EVENTS" "et \<notin> set MESSAGE_EVENTS" "et = ''session.error''"
        | "et \<notin> set IMMEDIATE" "et \<notin> set SESSION_EVENTS" "et \<notin> set MESSAGE_EVENTS" "et \<noteq> ''session.error''" "et \<in> set PART_EVENTS"
        | "et \<notin> set IMMEDIATE" "et \<notin> set SESSION_EVENTS" "et \<notin> set MESSAGE_EVENTS" "et \<noteq> ''session.error''" "et \<notin> set PART_EVENTS"
        by blast
      then show ?thesis
      proof cases
        case 1
        show ?thesis by (rule immediate, simp only: td 1 if_True snd_conv)
      next
        case 2
        show ?thesis by (rule session, simp only: td 2 if_True if_False snd_conv)
      next
        case 3
        show ?thesis by (rule message, simp only: td 3 if_True if_False snd_conv)
      next
        case 4
        show ?thesis by (rule error, simp only: td 4(1-3) if_True if_False snd_conv) (simp add: 4(4))
      next
        case 5
        show ?thesis by (rule part, simp only: td 5 if_True if_False snd_conv)
      next
        case 6
        show ?thesis by (rule drop, simp only: td 6 if_True if_False snd_conv)
      qed
    qed (rule drop ignore, simp only: pd json.case snd_conv)+
  qed (rule ignore, simp only: publish_def Let_def e received_def [symmetric] json.case snd_conv)+
qed (rule reject, simp only: publish_def Let_def json.case snd_conv)+

lemma received_frame [simp]:
  "gh_pending (received d g) = gh_pending g" "gh_sticky (received d g) = gh_sticky g" "gh_tombstones (received d g) = gh_tombstones g"
  "gh_retired (received d g) = gh_retired g" "gh_last_updated_at (received d g) = gh_last_updated_at g"
  "gh_revision (received d g) = gh_revision g" "gh_emitted (received d g) = gh_emitted g" "gh_replay (received d g) = gh_replay g"
  "gh_callbacks (received d g) = gh_callbacks g" "gh_callback_calls (received d g) = gh_callback_calls g"
  "gh_ever_connected (received d g) = gh_ever_connected g" "gh_loss_notified (received d g) = gh_loss_notified g"
  "gh_token (received d g) = gh_token g" "gh_allowlist (received d g) = gh_allowlist g" "gh_dir_ok (received d g) = gh_dir_ok g"
  by (simp_all add: received_def)

lemma publish_inv: "gh_inv g \<Longrightarrow> gh_inv (snd (publish iso_ok t ev g))"
proof -
  assume "gh_inv g"
  then have i: "gh_inv (g\<lparr>gh_upstream_events_total := n\<rparr>)" for n
    by (simp add: gh_inv_def tables_ok_def sessions_ok_def token_ok_def)
  then have r: "gh_inv (received d g)" for d by (simp add: received_def)
  have m: "gh_inv (publish_message t payload d props (received d' g))" for payload d props d'
    using r by (simp add: publish_message_def Let_def bump_message_revision_inv split: option.splits)
  show ?thesis
    by (cases rule: publish_branches [of iso_ok t ev g])
      (simp_all add: i r m publish_immediate_inv publish_session_inv publish_error_inv publish_part_inv record_dropped_inv)
qed

section \<open>The control plane as a system\<close>

text \<open>
  Everything that changes the hub: upstream events, the two timers, the notifications of a loss,
  the connections and their writers, and the operations of the token hub that do not come through
  \<open>publish\<close> (its own flush loop and its own connections).
\<close>

datatype gh_op =
    Publish hub_clock json
  | DigestFlush hub_clock
  | Heartbeat
  | UpstreamLoss
  | IdleRecycle
  | Subscribe
  | Unsubscribe nat
  | SubscriberTurn nat
  | TapAttach nat
  | TapDetach nat
  | TokenOp hub_op

definition subscriber_turn :: "nat \<Rightarrow> global_hub \<Rightarrow> global_hub" where
  "subscriber_turn i g =
     (case dict_get (gh_store g) i of
        None \<Rightarrow> g
      | Some s \<Rightarrow>
          (case sb_get s of
             None \<Rightarrow> g
           | Some (x, s') \<Rightarrow> g\<lparr>gh_store := dict_set i (sb_ack (wire_len (gh_dumps g)) x s') (gh_store g)\<rparr>))"

fun gh_step :: "(string \<Rightarrow> bool) \<Rightarrow> gh_op \<Rightarrow> global_hub \<Rightarrow> global_hub" where
  "gh_step iso_ok (Publish t ev) g = snd (publish iso_ok t ev g)"
| "gh_step iso_ok (DigestFlush t) g = gh_flush t g"
| "gh_step iso_ok Heartbeat g = heartbeat_tick g"
| "gh_step iso_ok UpstreamLoss g = notify_upstream_loss g"
| "gh_step iso_ok IdleRecycle g = notify_idle_recycle_loss g"
| "gh_step iso_ok Subscribe g = snd (gh_subscribe g)"
| "gh_step iso_ok (Unsubscribe i) g = gh_unsubscribe i g"
| "gh_step iso_ok (SubscriberTurn i) g = subscriber_turn i g"
| "gh_step iso_ok (TapAttach i) g = g\<lparr>gh_tap := List.insert i (gh_tap g)\<rparr>"
| "gh_step iso_ok (TapDetach i) g = g\<lparr>gh_tap := removeAll i (gh_tap g)\<rparr>"
| "gh_step iso_ok (TokenOp x) g = token_call (hub_step x) g"

lemma gh_inv_conn [simp]:
  "gh_inv (g\<lparr>gh_store := s\<rparr>) = gh_inv g" "gh_inv (g\<lparr>gh_subs := b\<rparr>) = gh_inv g" "gh_inv (g\<lparr>gh_tap := p\<rparr>) = gh_inv g"
  "gh_inv (g\<lparr>gh_next_id := n\<rparr>) = gh_inv g" "gh_inv (g\<lparr>gh_replay := l\<rparr>) = gh_inv g"
  "gh_inv (g\<lparr>gh_callback_calls := c\<rparr>) = gh_inv g" "gh_inv (g\<lparr>gh_upstream_bytes := u\<rparr>) = gh_inv g"
  "gh_inv (g\<lparr>gh_reconnects_total := r\<rparr>) = gh_inv g" "gh_inv (g\<lparr>gh_ever_connected := e\<rparr>) = gh_inv g"
  "gh_inv (g\<lparr>gh_loss_notified := f\<rparr>) = gh_inv g"
  by (rule gh_inv_view, simp add: tables_view_def)+

lemma resync_all_inv: "gh_inv g \<Longrightarrow> gh_inv (resync_all g)"
  by (simp add: resync_all_def) (simp add: gh_inv_def tables_ok_def sessions_ok_def token_ok_def dict_has_def dict_wf_def)

lemma notify_inv: "gh_inv g \<Longrightarrow> gh_inv (notify_upstream_loss g)"
  by (simp add: notify_upstream_loss_def fire_callbacks_def Let_def resync_all_inv token_call_inv on_upstream_reconnect_inv)

lemma idle_notify: "notify_idle_recycle_loss g = notify_upstream_loss g"
  by (simp add: notify_idle_recycle_loss_def notify_upstream_loss_def Let_def)

lemma gh_step_inv:
  assumes "gh_inv g"
  shows "gh_inv (gh_step iso_ok x g)"
  using assms
  by (cases x)
    (simp_all add: publish_inv gh_flush_inv heartbeat_tick_def notify_inv idle_notify gh_subscribe_def gh_unsubscribe_def
      subscriber_turn_def Let_def token_call_inv hub_step_inv split: option.split prod.split)

interpretation gh_sys: invariant_system "gh_step iso_ok" "\<lambda>_ _. True" gh_inv for iso_ok
  by unfold_locales (rule gh_step_inv)

lemmas gh_run_inv = gh_sys.inv_run [OF _ ok_run_True]

lemma new_global_hub_inv:
  "gh_inv (new_global_hub qi bb mf dumps dir_ok allow turns l r)"
  "hub_inv th \<Longrightarrow> gh_inv (set_token_hub (Some th) (new_global_hub qi bb mf dumps dir_ok allow turns l r))"
  by (simp_all add: new_global_hub_def set_token_hub_def gh_inv_def tables_ok_def sessions_ok_def token_ok_def dict_wf_def
      dict_has_def dict_pop_def)

text \<open>A step of the connection is, on the hub, at most a few operations and some flags.\<close>

lemma run_step_inv:
  assumes "gh_inv g"
  shows "gh_inv (snd (run_step loads iso_ok ev (r, g)))"
proof -
  have lost: "gh_inv (snd (run_lost (r', g')))" if "gh_inv g'" for r' g'
    using that by (simp add: run_lost_def notify_inv)
  have conn: "gh_inv (snd (run_connected (r, g)))"
    using assms by (simp add: run_connected_def Let_def notify_inv)
  have line: "gh_inv (snd (run_line loads iso_ok t line (r, g)))" for t line
  proof -
    have "gh_inv (snd (publish iso_ok t ev (g\<lparr>gh_upstream_bytes := n\<rparr>)))" for ev n using assms by (simp add: publish_inv)
    then have "gh_inv g'" if "publish iso_ok t ev (g\<lparr>gh_upstream_bytes := n\<rparr>) = (x, g')" for ev n x g'
      using that by (metis snd_conv)
    then show ?thesis
      using assms lost by (auto simp: run_line_def Let_def split: option.split prod.split sum.split)
  qed
  show ?thesis
    using assms lost conn line by (auto simp: run_step_def split: run_event.split run_phase.split)
qed

end
