(* ===== verification/Global_Hub_Guarantees.thy ===== *)
theory Global_Hub_Guarantees
  imports Global_Hub_Invariant
begin

text \<open>
  What the clients of the control plane can rely on: the stamps of the digests grow, a deleted
  session stays silent, the blocking signals come after the digest they refer to, a loss is
  announced once, and the replay log holds what was published.
\<close>

section \<open>Digests on the wire\<close>

definition digest_payload :: "string \<Rightarrow> wire_frame \<Rightarrow> (string \<times> json) list option" where
  "digest_payload sid w =
     (case fr_payload (snd w) of
        JObj d \<Rightarrow> if fr_event (snd w) = Some ''session.digest'' \<and> jget d ''sessionID'' = JStr sid then Some d else None
      | _ \<Rightarrow> None)"

definition json_int :: "json \<Rightarrow> int option" where
  "json_int v = (case v of JInt i \<Rightarrow> Some i | _ \<Rightarrow> None)"

text \<open>The values of the field \<open>k\<close> in the digests of a session, in order of publication.\<close>

definition digest_ints :: "string \<Rightarrow> string \<Rightarrow> wire_frame list \<Rightarrow> int list" where
  "digest_ints k sid ws = List.map_filter (\<lambda>d. json_int (jget d k)) (List.map_filter (digest_payload sid) ws)"

lemma map_filter_append [simp]: "List.map_filter f (xs @ ys) = List.map_filter f xs @ List.map_filter f ys"
  by (simp add: List.map_filter_def)

lemma digest_ints_append [simp]: "digest_ints k sid (xs @ ys) = digest_ints k sid xs @ digest_ints k sid ys"
  by (simp add: digest_ints_def)

lemma digest_ints_Nil [simp]: "digest_ints k sid [] = []"
  by (simp add: digest_ints_def List.map_filter_def)

lemma jget_append: "jget (xs @ ys) k = (if k \<in> fst ` set xs then jget xs k else jget ys k)"
proof (cases "map_of xs k")
  case None
  then have "k \<notin> fst ` set xs" by (simp add: map_of_eq_None_iff)
  with None show ?thesis by (simp add: jget_def map_add_def split: option.split)
next
  case (Some v)
  then have "k \<in> fst ` set xs" by (metis map_of_eq_None_iff option.distinct(1))
  with Some show ?thesis by (simp add: jget_def map_add_def)
qed

lemma payload_sid [simp]: "jget (to_payload f sid) ''sessionID'' = JStr sid"
  by (simp add: to_payload_def jget_def)

lemma digest_payload_digest [simp]: "digest_payload sid (i, digest_frame sid' f) = (if sid' = sid then Some (to_payload f sid) else None)"
  by (simp add: digest_payload_def digest_frame_def)

lemma digest_payload_other [simp]: "fr_event f \<noteq> Some ''session.digest'' \<Longrightarrow> digest_payload sid (i, f) = None"
  by (simp add: digest_payload_def split: json.splits)

lemma in_opt_field_keys: "k \<in> fst ` set (opt_field k' v) \<longleftrightarrow> k = k' \<and> v \<noteq> None"
  by (auto simp: opt_field_def split: option.splits)

lemma jget_opt_field: "jget (opt_field k v) k = (case v of None \<Rightarrow> JNull | Some j \<Rightarrow> j)"
  by (simp add: opt_field_def jget_def split: option.splits)

text \<open>A key of the payload is written by one field only.\<close>

lemma jget_to_payload:
  "json_int (jget (to_payload f sid) ''messagesRevision'') = df_messages_revision f"
  "jget (to_payload f sid) ''updatedAt'' = df_updated_at f"
proof -
  have turn: "k \<in> fst ` set (case (df_turn_incarnation f, df_turn f) of
        (Some i, Some t) \<Rightarrow> [(''turnIncarnation'', JInt i), (''turn'', JInt t)] | _ \<Rightarrow> []) \<Longrightarrow> k = ''turnIncarnation'' \<or> k = ''turn''"
    and err: "k \<in> fst ` set (case df_last_error f of Error_Unset \<Rightarrow> [] | Error_Value j \<Rightarrow> [(''lastError'', j)]) \<Longrightarrow> k = ''lastError''"
    for k by (auto split: option.splits last_error.splits)
  have t: "''messagesRevision'' \<notin> fst ` set (case (df_turn_incarnation f, df_turn f) of
        (Some i, Some t) \<Rightarrow> [(''turnIncarnation'', JInt i), (''turn'', JInt t)] | _ \<Rightarrow> [])"
    using turn [of "''messagesRevision''"] by auto
  have e: "''messagesRevision'' \<notin> fst ` set (case df_last_error f of Error_Unset \<Rightarrow> [] | Error_Value j \<Rightarrow> [(''lastError'', j)])"
    using err [of "''messagesRevision''"] by auto
  show "json_int (jget (to_payload f sid) ''messagesRevision'') = df_messages_revision f"
    unfolding to_payload_def jget_append
    using t e by (simp add: in_opt_field_keys jget_opt_field json_int_def split: option.splits)
  have te: "''updatedAt'' \<notin> fst ` set (case (df_turn_incarnation f, df_turn f) of
        (Some i, Some t) \<Rightarrow> [(''turnIncarnation'', JInt i), (''turn'', JInt t)] | _ \<Rightarrow> [])"
      "''updatedAt'' \<notin> fst ` set (case df_last_error f of Error_Unset \<Rightarrow> [] | Error_Value j \<Rightarrow> [(''lastError'', j)])"
    using turn [of "''updatedAt''"] err [of "''updatedAt''"] by auto
  have "jget (opt_field ''messagesRevision'' v) ''updatedAt'' = JNull" for v
    by (simp add: opt_field_def jget_def split: option.splits)
  then show "jget (to_payload f sid) ''updatedAt'' = df_updated_at f"
    unfolding to_payload_def jget_append
    using te by (simp add: in_opt_field_keys) (simp add: jget_def)
qed

section \<open>Growing stamps\<close>

text \<open>
  The life of a stamp: published values \<open>es\<close>, the value \<open>p\<close> waiting in the pending entry, and the
  mark \<open>m\<close> above which the next value is drawn.
\<close>

definition growing :: "int list \<Rightarrow> int option \<Rightarrow> int \<Rightarrow> bool" where
  "growing es p m \<longleftrightarrow> sorted_wrt (<) es \<and> (\<forall>e \<in> set es. e \<le> m) \<and>
     (\<forall>v. p = Some v \<longrightarrow> v \<le> m \<and> (\<forall>e \<in> set es. e < v))"

text \<open>What an operation may do that draws no new value: nothing, publish the waiting value, or drop it.\<close>

definition settles :: "int list \<times> int option \<Rightarrow> int list \<times> int option \<Rightarrow> bool" where
  "settles a b \<longleftrightarrow> b = a \<or> snd b = None \<and> (fst b = fst a \<or> (\<exists>v. snd a = Some v \<and> fst b = fst a @ [v]))"

lemma settles_refl [simp]: "settles a a"
  by (simp add: settles_def)

lemma settles_trans: "settles a b \<Longrightarrow> settles b c \<Longrightarrow> settles a c"
  by (auto simp: settles_def)

lemma settles_growing: "growing es p m \<Longrightarrow> settles (es, p) (es', p') \<Longrightarrow> m \<le> m' \<Longrightarrow> growing es' p' m'"
  by (force simp: growing_def settles_def sorted_wrt_append)

lemma growing_draw: "growing es p m \<Longrightarrow> m < v \<Longrightarrow> v \<le> m' \<Longrightarrow> growing es (Some v) m'"
  by (force simp: growing_def)

locale stamp =
  fixes k :: string and val :: "digest_fields \<Rightarrow> int option" and mark :: "global_hub \<Rightarrow> string \<Rightarrow> int"
  assumes payload: "json_int (jget (to_payload f sid) k) = val f"
    and val_new: "val new_digest_fields = None"
    and val_upd: "val (f\<lparr>df_changed := c\<rparr>) = val f" "val (f\<lparr>df_last_error := le\<rparr>) = val f"
      "val (f\<lparr>df_directory := dr\<rparr>) = val f" "val (f\<lparr>df_status := st\<rparr>) = val f"
      "val (f\<lparr>df_archived := ar\<rparr>) = val f" "val (f\<lparr>df_deleted := b\<rparr>) = val f"
      "val (f\<lparr>df_turn_incarnation := ti\<rparr>) = val f" "val (f\<lparr>df_turn := tu\<rparr>) = val f"
    and bump_draws: "\<exists>v. val (pending_entry (bump_message_revision t sid d m g) sid) = Some v \<and>
      mark g sid < v \<and> v \<le> mark (bump_message_revision t sid d m g) sid"
    and removed_draws: "val (pending_entry (message_removed_event t sid' mid g) sid) = val (pending_entry g sid) \<or>
      (\<exists>v. val (pending_entry (message_removed_event t sid' mid g) sid) = Some v \<and>
        mark g sid < v \<and> v \<le> mark (message_removed_event t sid' mid g) sid)"
    and mark_token: "mark (token_call tf g) sid = mark g sid"
    and mark_event: "mark (observe_directory d g) sid = mark g sid" "mark (g\<lparr>gh_upstream_events_total := n\<rparr>) sid = mark g sid"
begin

definition waiting :: "string \<Rightarrow> global_hub \<Rightarrow> int list \<times> int option" where
  "waiting sid g = (digest_ints k sid (gh_emitted g), val (pending_entry g sid))"

definition stamped :: "string \<Rightarrow> global_hub \<Rightarrow> bool" where
  "stamped sid g \<longleftrightarrow> growing (fst (waiting sid g)) (snd (waiting sid g)) (mark g sid)"

lemma waiting_cong: "gh_emitted g' = gh_emitted g \<Longrightarrow> gh_pending g' = gh_pending g \<Longrightarrow> waiting sid g' = waiting sid g"
  by (simp add: waiting_def pending_entry_def)

lemma val_merge [simp]: "val (merge_sticky s i f) = val f"
  by (simp add: merge_sticky_def val_upd split: last_error.split option.split)

lemma val_stamp [simp]: "val (stamp_directory d f) = val f"
  by (simp add: stamp_directory_def val_upd split: json.split)

lemma digest_ints_digest:
  "digest_ints k sid [(i, digest_frame sid' f)] = (if sid' = sid then (case val f of None \<Rightarrow> [] | Some v \<Rightarrow> [v]) else [])"
  using payload [of f sid] by (simp add: digest_ints_def List.map_filter_def split: option.split)

lemma emit_other:
  "fr_event f \<noteq> Some ''session.digest'' \<Longrightarrow> waiting sid (emit_directory_frame t f d g) = waiting sid g"
  by (auto simp: waiting_def emit_defs pending_entry_def digest_ints_def List.map_filter_def split: prod.split sum.split)

lemma emit_digest_ints:
  "digest_ints k sid (gh_emitted (emit_digest t (sid', e) g)) =
     digest_ints k sid (gh_emitted g) @
       (if sid' = sid \<and> directory_allowed (opt_str (df_directory e)) g then (case val e of None \<Rightarrow> [] | Some v \<Rightarrow> [v]) else [])"
proof -
  have "df_directory ((merge_sticky s i f)\<lparr>df_changed := c\<rparr>) = df_directory f" for s i f c
    by (simp add: merge_sticky_def split: last_error.split option.split)
  moreover have "directory_allowed d (observe_directory d' g) = directory_allowed d g" for d d'
    by (simp add: directory_allowed_def split: option.split)
  ultimately show ?thesis
    by (auto simp: emit_digest_def emit_defs digest_ints_digest val_upd split: prod.split sum.split)
qed

lemma settles_flush_sid: "settles a (waiting sid g) \<Longrightarrow> settles a (waiting sid (gh_flush_sid t sid' g))"
proof (cases "dict_get (gh_pending g) sid'")
  case (Some e)
  assume a: "settles a (waiting sid g)"
  have "digest_ints k sid (gh_emitted (gh_flush_sid t sid' g)) = digest_ints k sid (gh_emitted g) @
       (if sid' = sid \<and> directory_allowed (opt_str (df_directory e)) (g\<lparr>gh_pending := dict_pop sid' (gh_pending g)\<rparr>)
        then (case val e of None \<Rightarrow> [] | Some v \<Rightarrow> [v]) else [])"
    by (simp add: gh_flush_sid_def Some emit_digest_ints)
  moreover have "pending_entry (gh_flush_sid t sid' g) sid = (if sid' = sid then new_digest_fields else pending_entry g sid)"
    by (auto simp: pending_entry_def dict_get_or_get)
  moreover have "sid' = sid \<Longrightarrow> pending_entry g sid = e" using Some by (simp add: pending_entry_def dict_get_or_get)
  ultimately have "settles (waiting sid g) (waiting sid (gh_flush_sid t sid' g))"
    by (auto simp: waiting_def settles_def val_new split: option.split)
  with a show ?thesis by (rule settles_trans)
qed (simp add: gh_flush_sid_def)

lemma settles_put: "val e = val (pending_entry g sid') \<Longrightarrow> waiting sid (put_entry sid' e g) = waiting sid g"
  by (auto simp: waiting_def pending_entry_def dict_get_or_get)

lemma waiting_token [simp]: "waiting sid (token_call f g) = waiting sid g"
  by (rule waiting_cong) simp_all

lemma waiting_observe [simp]: "waiting sid (observe_directory d g) = waiting sid g"
  by (rule waiting_cong) simp_all

lemma waiting_put_all [simp]: "waiting sid (put_all w g) = waiting sid g"
  by (rule waiting_cong) simp_all

lemma emitted_bump [simp]: "gh_emitted (bump_message_revision t sid d m g) = gh_emitted g"
  using bump_message_revision_eq [of t sid d m g] by auto

lemma pending_bump: "sid' \<noteq> sid \<Longrightarrow> pending_entry (bump_message_revision t sid' d m g) sid = pending_entry g sid"
  using bump_message_revision_eq [of t sid' d m g] by (auto simp: pending_entry_def dict_get_or_get)

lemma emitted_removed [simp]: "gh_emitted (message_removed_event t sid m g) = gh_emitted g"
  by (simp add: message_removed_event_def Let_def prune_retired_messages_def split: option.split)

lemma settles_flush:
  assumes "tables_ok g"
  shows "settles (waiting sid g) (waiting sid (gh_flush t g))"
proof -
  let ?g1 = "prune_deleted_tombstones (prune_sticky_last_error (prune_last_updated_at (prune_retired_messages (now_ms t) g)))"
  have same: "gh_pending ?g1 = gh_pending g" "gh_emitted ?g1 = gh_emitted g"
    by (simp_all add: prune_deleted_tombstones_def prune_sticky_last_error_def prune_last_updated_at_def prune_retired_messages_def)
  have none: "digest_ints k sid (gh_emitted (fold (emit_digest t) ps h)) = digest_ints k sid (gh_emitted h)"
    if "sid \<notin> fst ` set ps" for ps h
    using that by (induction ps arbitrary: h) (auto simp: emit_digest_ints)
  have allow: "directory_allowed d (emit_digest t p h) = directory_allowed d h" for d p h
    by (simp add: directory_allowed_def split: option.split)
  have one: "\<exists>vs. digest_ints k sid (gh_emitted (fold (emit_digest t) ps h)) = digest_ints k sid (gh_emitted h) @ vs \<and>
      (vs = [] \<or> (\<exists>v. val (dict_get_or ps sid new_digest_fields) = Some v \<and> vs = [v]))" if "distinct (map fst ps)" for ps h
    using that
  proof (induction ps arbitrary: h)
    case (Cons p ps)
    obtain i e where p: "p = (i, e)" by fastforce
    show ?case
    proof (cases "i = sid")
      case True
      then have "sid \<notin> fst ` set ps" using Cons.prems p by simp
      then show ?thesis
        using True by (simp add: p none emit_digest_ints dict_get_or_get dict_get_def split: option.split)
    next
      case False
      then show ?thesis
        using Cons.IH [of "emit_digest t p h"] Cons.prems by (simp add: p emit_digest_ints dict_get_or_get dict_get_def)
    qed
  qed simp
  have "gh_pending (fold (emit_digest t) ps h) = gh_pending h" for ps h by (rule fold_keeps) simp
  then have pe: "pending_entry (gh_flush t g) sid = new_digest_fields"
    by (simp add: gh_flush_def Let_def pending_entry_def dict_get_or_get dict_get_def)
  have d: "distinct (map fst (gh_pending g))" using assms by (simp add: tables_ok_def dict_wf_def)
  have "gh_emitted (gh_flush t g) = gh_emitted (fold (emit_digest t) (gh_pending g) (?g1\<lparr>gh_pending := []\<rparr>))"
    by (simp add: gh_flush_def Let_def same)
  then show ?thesis
    using one [OF d, of "?g1\<lparr>gh_pending := []\<rparr>"] pe same
    by (auto simp: waiting_def settles_def val_new pending_entry_def)
qed

lemma settles_status: "settles (waiting sid g) (waiting sid (session_status_event t sid' d props g))"
proof -
  have e: "val (pending_entry (g\<lparr>gh_sticky := x\<rparr>) s) = val (pending_entry g s)" for x s by (simp add: pending_entry_def)
  have w: "waiting sid (g\<lparr>gh_sticky := x\<rparr>) = waiting sid g" for x by (rule waiting_cong) simp_all
  show ?thesis
    by (auto simp: session_status_event_def Let_def settles_put val_upd e w split: option.split intro!: settles_flush_sid)
qed

lemma waiting_deleted: "waiting sid (session_deleted_event t sid' d g) = waiting sid g"
  by (simp add: session_deleted_event_def Let_def prune_deleted_tombstones_def)
    (subst settles_put, simp_all add: val_upd pending_entry_def waiting_def)

lemma waiting_updated: "waiting sid (session_updated_event sid' d props g) = waiting sid g"
  by (simp add: session_updated_event_def Let_def) (subst settles_put, simp_all add: val_upd split: json.split)

lemma settles_error: "settles (waiting sid g) (waiting sid (publish_error iso_ok t d props g))"
proof -
  have w: "waiting s (prune_sticky_last_error (g\<lparr>gh_sticky := x\<rparr>)) = waiting s g"
    "pending_entry (prune_sticky_last_error (g\<lparr>gh_sticky := x\<rparr>)) s = pending_entry g s" for x s
    by (simp_all add: prune_sticky_last_error_def waiting_def pending_entry_def)
  show ?thesis
    by (auto simp: publish_error_def Let_def settles_put emit_other val_upd w split: option.split intro!: settles_flush_sid)
qed

lemma settles_immediate: "settles (waiting sid g) (waiting sid (publish_immediate t et d props g))"
proof -
  have "waiting sid (g\<lparr>gh_qp_last_activity := x\<rparr>) = waiting sid g" for x by (rule waiting_cong) simp_all
  then show ?thesis
    by (auto simp: publish_immediate_def Let_def emit_other split: option.split json.split intro!: settles_flush_sid)
qed

lemma stamped_settles:
  "stamped sid g \<Longrightarrow> settles (waiting sid g) (waiting sid g') \<Longrightarrow> mark g sid \<le> mark g' sid \<Longrightarrow> stamped sid g'"
  unfolding stamped_def using settles_growing by (metis prod.collapse)

lemma stamped_draws:
  assumes "stamped sid g" and "fst (waiting sid g') = fst (waiting sid g)"
    and "\<exists>v. snd (waiting sid g') = Some v \<and> mark g sid < v \<and> v \<le> mark g' sid"
  shows "stamped sid g'"
  using assms growing_draw [of "fst (waiting sid g)" "snd (waiting sid g)" "mark g sid"] unfolding stamped_def by auto

lemma stamped_bump:
  assumes "stamped sid g" and "mark g sid \<le> mark (bump_message_revision t sid' d m g) sid"
  shows "stamped sid (bump_message_revision t sid' d m g)"
proof (cases "sid' = sid")
  case True
  show ?thesis
    by (rule stamped_draws [OF assms(1)]) (use bump_draws [of t sid d m g] True in \<open>simp_all add: waiting_def\<close>)
next
  case False
  then have "waiting sid (bump_message_revision t sid' d m g) = waiting sid g" by (simp add: waiting_def pending_bump)
  then show ?thesis using assms by (intro stamped_settles [OF assms(1)]) simp_all
qed

lemma stamped_removed:
  assumes "stamped sid g" and "mark g sid \<le> mark (message_removed_event t sid' mid g) sid"
  shows "stamped sid (message_removed_event t sid' mid g)"
  using removed_draws [of t sid' mid g sid]
proof
  assume "val (pending_entry (message_removed_event t sid' mid g) sid) = val (pending_entry g sid)"
  then have "waiting sid (message_removed_event t sid' mid g) = waiting sid g" by (simp add: waiting_def)
  then show ?thesis using assms by (intro stamped_settles [OF assms(1)]) simp_all
next
  assume "\<exists>v. val (pending_entry (message_removed_event t sid' mid g) sid) = Some v \<and>
        mark g sid < v \<and> v \<le> mark (message_removed_event t sid' mid g) sid"
  then show ?thesis by (intro stamped_draws [OF assms(1)]) (simp_all add: waiting_def)
qed

lemma stamped_token:
  "stamped sid (token_call f g) = stamped sid g" "stamped sid (observe_directory d g) = stamped sid g"
  by (simp_all add: stamped_def mark_token mark_event)

lemma stamped_part:
  assumes "stamped sid g" and "mark g sid \<le> mark (publish_part t et d props g) sid"
  shows "stamped sid (publish_part t et d props g)"
proof -
  have c: "stamped sid (part_changed_event t d ids f g)" if "mark g sid \<le> mark (part_changed_event t d ids f g) sid" for ids f
    using that assms(1) stamped_bump [of sid "token_call f g"]
    by (auto simp: part_changed_event_def stamped_token mark_token split: prod.splits if_splits)
  show ?thesis
    using assms c stamped_removed [OF assms(1)]
    by (auto simp: publish_part_def Let_def stamped_token split: option.splits if_splits)
qed

lemma stamped_publish:
  assumes "stamped sid g" and "mark g sid \<le> mark (snd (publish iso_ok t ev g)) sid"
  shows "stamped sid (snd (publish iso_ok t ev g))"
proof -
  have "waiting sid (g\<lparr>gh_upstream_events_total := n\<rparr>) = waiting sid g" for n by (rule waiting_cong) simp_all
  then have r: "stamped sid (received d g)" "mark (received d g) sid = mark g sid"
      "stamped sid (g\<lparr>gh_upstream_events_total := n\<rparr>)" for d n
    using assms(1) by (simp_all add: received_def stamped_def mark_event)
  have set: "stamped sid g'" if "settles (waiting sid (received d g)) (waiting sid g')" "mark g sid \<le> mark g' sid" for d g'
    using stamped_settles [OF r(1) that(1)] that(2) by (simp add: r(2))
  have drop: "waiting sid (record_dropped_event t v g') = waiting sid g'" for v g'
    by (rule waiting_cong) (simp_all add: record_dropped_event_def Let_def)
  have sess: "settles (waiting sid g') (waiting sid (publish_session t et p d props g'))" for et p d props g'
    by (simp add: publish_session_def settles_status waiting_deleted waiting_updated split: option.split)
  show ?thesis
  proof (cases rule: publish_branches [of iso_ok t ev g])
    case (message p d props)
    then show ?thesis
      using assms(2) stamped_bump [OF r(1)] r by (auto simp: publish_message_def Let_def split: option.splits)
  next
    case (part et d props)
    then show ?thesis using assms(2) stamped_part [OF r(1)] by (simp add: r)
  next
    case (drop d v)
    then show ?thesis using assms(2) set [of d "record_dropped_event t v (received d g)"] \<open>\<And>v g'. waiting sid (record_dropped_event t v g') = waiting sid g'\<close> by simp
  next
    case (immediate et d props)
    then show ?thesis using assms(2) set [OF settles_immediate] by simp
  next
    case (session et p d props)
    then show ?thesis using assms(2) set [OF sess] by simp
  next
    case (error d props)
    then show ?thesis using assms(2) set [OF settles_error] by simp
  qed (use r in simp_all)
qed

lemma stamped_step:
  assumes "gh_inv g" and "stamped sid g" and "mark g sid \<le> mark (gh_step iso_ok x g) sid"
  shows "stamped sid (gh_step iso_ok x g)"
proof (cases "\<exists>t ev. x = Publish t ev")
  case True
  then show ?thesis using stamped_publish [OF assms(2)] assms(3) by auto
next
  case False
  have notify: "waiting sid (notify_upstream_loss g) = waiting sid g"
    by (simp add: notify_upstream_loss_def fire_callbacks_def resync_all_def Let_def waiting_def pending_entry_def)
  have "settles (waiting sid g) (waiting sid (gh_step iso_ok x g))"
  proof (cases x)
    case (DigestFlush t)
    then show ?thesis using settles_flush assms(1) by (simp add: gh_inv_def)
  qed (use False notify in \<open>simp_all add: heartbeat_tick_def idle_notify gh_subscribe_def gh_unsubscribe_def subscriber_turn_def
      Let_def waiting_def pending_entry_def split: option.split\<close>)
  then show ?thesis using stamped_settles [OF assms(2)] assms(3) by blast
qed

end

interpretation rev_stamp: stamp "''messagesRevision''" df_messages_revision "\<lambda>g _. gh_revision g"
proof unfold_locales
  fix t d m g and sid :: string
  show "\<exists>v. df_messages_revision (pending_entry (bump_message_revision t sid d m g) sid) = Some v \<and>
      gh_revision g < v \<and> v \<le> gh_revision (bump_message_revision t sid d m g)"
    using bump_message_revision_eq [of t sid d m g] by (auto simp: pending_entry_def dict_get_or_get)
  fix sid' mid
  show "df_messages_revision (pending_entry (message_removed_event t sid' mid g) sid) = df_messages_revision (pending_entry g sid) \<or>
      (\<exists>v. df_messages_revision (pending_entry (message_removed_event t sid' mid g) sid) = Some v \<and>
        gh_revision g < v \<and> v \<le> gh_revision (message_removed_event t sid' mid g))"
    by (auto simp: message_removed_event_def Let_def prune_retired_messages_def pending_entry_def dict_get_or_get split: option.split)
qed (simp_all add: jget_to_payload new_digest_fields_def)

interpretation upd_stamp: stamp "''updatedAt''" "\<lambda>f. json_int (df_updated_at f)" "\<lambda>g sid. dict_get_or (gh_last_updated_at g) sid 0"
proof unfold_locales
  fix t d m g and sid :: string
  have "dict_get (dict_move_to_end sid (dict_set sid u dd)) sid = Some u" for u :: int and dd
    by simp
  then show "\<exists>v. json_int (df_updated_at (pending_entry (bump_message_revision t sid d m g) sid)) = Some v \<and>
      dict_get_or (gh_last_updated_at g) sid 0 < v \<and>
      v \<le> dict_get_or (gh_last_updated_at (bump_message_revision t sid d m g)) sid 0"
    using bump_message_revision_eq [of t sid d m g] by (auto simp: pending_entry_def dict_get_or_get json_int_def)
  fix sid' mid
  show "json_int (df_updated_at (pending_entry (message_removed_event t sid' mid g) sid)) = json_int (df_updated_at (pending_entry g sid)) \<or>
      (\<exists>v. json_int (df_updated_at (pending_entry (message_removed_event t sid' mid g) sid)) = Some v \<and>
        dict_get_or (gh_last_updated_at g) sid 0 < v \<and>
        v \<le> dict_get_or (gh_last_updated_at (message_removed_event t sid' mid g)) sid 0)"
    by (auto simp: message_removed_event_def Let_def prune_retired_messages_def pending_entry_def dict_get_or_get split: option.split)
qed (simp_all add: jget_to_payload new_digest_fields_def json_int_def)

lemma revision_token [simp]: "gh_revision (message_removed_event t sid mid g) = gh_revision g + 1"
  by (simp add: message_removed_event_def Let_def prune_retired_messages_def split: option.split)

lemma revision_bump [simp]: "gh_revision (bump_message_revision t sid d m g) = gh_revision g + 1"
  using bump_message_revision_eq [of t sid d m g] by auto

lemma revision_session [simp]:
  "gh_revision (session_status_event t sid d props g) = gh_revision g" "gh_revision (session_deleted_event t sid d g) = gh_revision g"
  "gh_revision (session_updated_event sid d props g) = gh_revision g"
  by (simp_all add: session_status_event_def session_deleted_event_def session_updated_event_def Let_def
      prune_deleted_tombstones_def split: option.split)

lemma revision_handlers:
  "gh_revision (publish_immediate t et d props g) = gh_revision g"
  "gh_revision (publish_error iso_ok t d props g) = gh_revision g"
  "gh_revision (record_dropped_event t v g) = gh_revision g"
  by (simp_all add: publish_immediate_def publish_error_def record_dropped_event_def prune_sticky_last_error_def Let_def
      split: option.split json.split)

lemma revision_session_event: "gh_revision (publish_session t et p d props g) = gh_revision g"
  by (simp add: publish_session_def split: option.split)

lemma revision_part: "gh_revision g \<le> gh_revision (publish_part t et d props g)"
proof -
  have "gh_revision g \<le> gh_revision (part_changed_event t d ids f g)" for ids f
    by (simp add: part_changed_event_def split: prod.split)
  then show ?thesis by (simp add: publish_part_def Let_def split: option.split)
qed

lemma revision_publish: "gh_revision g \<le> gh_revision (snd (publish iso_ok t ev g))"
  by (cases rule: publish_branches [of iso_ok t ev g])
    (use revision_part [of "received d g" t et d props for et d props] in \<open>simp_all add: revision_handlers revision_session_event
      publish_message_def Let_def split: option.split\<close>)

lemma revision_fold [simp]: "gh_revision (fold (emit_digest t) ps g) = gh_revision g"
  by (rule fold_keeps) simp

lemma revision_step: "gh_revision g \<le> gh_revision (gh_step iso_ok x g)"
  by (cases x)
    (simp_all add: revision_publish gh_flush_def prune_deleted_tombstones_def prune_sticky_last_error_def prune_last_updated_at_def
      prune_retired_messages_def heartbeat_tick_def notify_upstream_loss_def idle_notify resync_all_def fire_callbacks_def
      gh_subscribe_def gh_unsubscribe_def subscriber_turn_def Let_def split: option.split prod.split)

definition keeps_mark :: "(string \<Rightarrow> bool) \<Rightarrow> string \<Rightarrow> gh_op \<Rightarrow> global_hub \<Rightarrow> bool" where
  "keeps_mark iso_ok sid x g \<longleftrightarrow>
     dict_get_or (gh_last_updated_at g) sid 0 \<le> dict_get_or (gh_last_updated_at (gh_step iso_ok x g)) sid 0"

interpretation rev_sys: invariant_system "gh_step iso_ok" "\<lambda>_ _. True" "\<lambda>g. gh_inv g \<and> rev_stamp.stamped sid g" for iso_ok sid
  by unfold_locales (simp add: gh_step_inv rev_stamp.stamped_step revision_step)

interpretation upd_sys: invariant_system "gh_step iso_ok" "keeps_mark iso_ok sid" "\<lambda>g. gh_inv g \<and> upd_stamp.stamped sid g" for iso_ok sid
  by unfold_locales (simp add: gh_step_inv upd_stamp.stamped_step keeps_mark_def)

text \<open>The hub as the application starts it, with or without a token hub.\<close>

definition started_hub ::
  "int \<times> int \<times> int \<Rightarrow> (json \<Rightarrow> string) \<Rightarrow> (string list \<Rightarrow> json \<Rightarrow> bool) \<Rightarrow> string list option \<Rightarrow> turn_registry option \<Rightarrow>
   frame replay_log \<Rightarrow> token_caps option \<Rightarrow> global_hub" where
  "started_hub limits dumps dir_ok allowlist turns l caps =
     set_token_hub (map_option (\<lambda>c. new_token_hub c dumps l) caps)
       (new_global_hub (fst limits) (fst (snd limits)) (snd (snd limits)) dumps dir_ok allowlist turns l 0)"

definition caps_valid :: "token_caps option \<Rightarrow> bool" where
  "caps_valid caps = (case caps of None \<Rightarrow> True | Some c \<Rightarrow> caps_ok c)"

lemma started_hub_inv: "caps_valid caps \<Longrightarrow> gh_inv (started_hub limits dumps dir_ok allowlist turns l caps)"
proof (cases caps)
  case None
  then show ?thesis using new_global_hub_inv(1) by (simp add: started_hub_def set_token_hub_def new_global_hub_def)
qed (simp add: started_hub_def caps_valid_def new_global_hub_inv new_token_hub_inv)

lemma started_hub_fields [simp]:
  "gh_emitted (started_hub limits dumps dir_ok allowlist turns l caps) = []"
  "gh_pending (started_hub limits dumps dir_ok allowlist turns l caps) = []"
  "gh_replay (started_hub limits dumps dir_ok allowlist turns l caps) = l"
  "gh_callback_calls (started_hub limits dumps dir_ok allowlist turns l caps) = []"
  "gh_callbacks (started_hub limits dumps dir_ok allowlist turns l caps) = []"
  "gh_ever_connected (started_hub limits dumps dir_ok allowlist turns l caps) = False"
  "gh_loss_notified (started_hub limits dumps dir_ok allowlist turns l caps) = False"
  by (simp_all add: started_hub_def set_token_hub_def new_global_hub_def)

lemma started_stamped:
  "rev_stamp.stamped sid (started_hub limits dumps dir_ok allowlist turns l caps)"
  "upd_stamp.stamped sid (started_hub limits dumps dir_ok allowlist turns l caps)"
  unfolding rev_stamp.stamped_def upd_stamp.stamped_def rev_stamp.waiting_def upd_stamp.waiting_def
  by (simp_all add: growing_def pending_entry_def dict_get_or_def new_digest_fields_def json_int_def)

text \<open>A small hub without limits, and the events of the examples.\<close>

definition demo_gh :: global_hub where
  "demo_gh = started_hub (10, 1000, 1000) (\<lambda>_. ''{}'') (\<lambda>_ _. True) None None demo_token_log None"

definition demo_event :: "string \<Rightarrow> (string \<times> json) list \<Rightarrow> json" where
  "demo_event et props = JObj [(''directory'', JStr ''/w''), (''payload'', JObj [(''type'', JStr et), (''properties'', JObj props)])]"

definition demo_time :: "int \<Rightarrow> hub_clock" where
  "demo_time n = ((n, of_int n), of_int n)"

definition demo_updates :: "gh_op list" where
  "demo_updates =
     [Publish (demo_time 7) (demo_event ''message.updated'' [(''sessionID'', JStr ''s''), (''messageID'', JStr ''m'')]),
      DigestFlush (demo_time 7),
      Publish (demo_time 5) (demo_event ''message.updated'' [(''sessionID'', JStr ''s''), (''messageID'', JStr ''n'')]),
      DigestFlush (demo_time 5)]"

section \<open>Properties\<close>

text \<open>
  C27. The revisions that a client sees for a session only grow: in the digests of a session, in the
  order in which they are published, the values of \<^verbatim>\<open>messagesRevision\<close> strictly increase, whatever
  upstream events, flushes, losses of the upstream connection, deletions and client connections
  happen in between.
\<close>

theorem digest_revisions_increase:
  assumes "caps_valid caps"
    and "g = fold (gh_step iso_ok) ops (started_hub limits dumps dir_ok allowlist turns l caps)"
  shows "sorted_wrt (<) (digest_ints ''messagesRevision'' sid (gh_emitted g))"
  using rev_sys.inv_run [of "started_hub limits dumps dir_ok allowlist turns l caps" sid iso_ok ops]
    started_hub_inv [OF assms(1)] started_stamped(1)
  by (simp add: assms(2) rev_stamp.stamped_def rev_stamp.waiting_def growing_def)

theorem digest_revisions_increase_witness:
  "sorted_wrt (<) (digest_ints ''messagesRevision'' ''s'' (gh_emitted (fold (gh_step (\<lambda>_. True)) demo_updates demo_gh))) \<and>
   digest_ints ''messagesRevision'' ''s'' (gh_emitted (fold (gh_step (\<lambda>_. True)) demo_updates demo_gh)) = [1, 2]"
proof
  have c: "caps_valid None" by (simp add: caps_valid_def)
  show "sorted_wrt (<) (digest_ints ''messagesRevision'' ''s'' (gh_emitted (fold (gh_step (\<lambda>_. True)) demo_updates demo_gh)))"
    unfolding demo_gh_def by (rule digest_revisions_increase [OF c refl])
  show "digest_ints ''messagesRevision'' ''s'' (gh_emitted (fold (gh_step (\<lambda>_. True)) demo_updates demo_gh)) = [1, 2]"
    by code_simp
qed

text \<open>
  As long as the high-water mark of a session is not thrown away (by its deletion, by a loss of
  the upstream connection, or by the cap of 10000 sessions), the values of \<^verbatim>\<open>updatedAt\<close> in its
  digests strictly increase, even when the wall clock stands still or runs backwards.
\<close>

theorem digest_updated_at_increases:
  assumes "caps_valid caps"
    and "g0 = started_hub limits dumps dir_ok allowlist turns l caps"
    and "ok_run (gh_step iso_ok) (keeps_mark iso_ok sid) ops g0"
    and "g = fold (gh_step iso_ok) ops g0"
  shows "sorted_wrt (<) (digest_ints ''updatedAt'' sid (gh_emitted g))"
  using upd_sys.inv_run [of g0 sid iso_ok ops] started_hub_inv [OF assms(1)] started_stamped(2) assms(3)
  by (simp add: assms(2,4) upd_stamp.stamped_def upd_stamp.waiting_def growing_def)

theorem digest_updated_at_increases_witness:
  "sorted_wrt (<) (digest_ints ''updatedAt'' ''s'' (gh_emitted (fold (gh_step (\<lambda>_. True)) demo_updates demo_gh))) \<and>
   digest_ints ''updatedAt'' ''s'' (gh_emitted (fold (gh_step (\<lambda>_. True)) demo_updates demo_gh)) = [7, 8]"
proof
  have c: "caps_valid None" by (simp add: caps_valid_def)
  have o: "ok_run (gh_step (\<lambda>_. True)) (keeps_mark (\<lambda>_. True) ''s'') demo_updates demo_gh" by code_simp
  show "sorted_wrt (<) (digest_ints ''updatedAt'' ''s'' (gh_emitted (fold (gh_step (\<lambda>_. True)) demo_updates demo_gh)))"
    by (rule digest_updated_at_increases [OF c demo_gh_def o refl])
  show "digest_ints ''updatedAt'' ''s'' (gh_emitted (fold (gh_step (\<lambda>_. True)) demo_updates demo_gh)) = [7, 8]"
    by code_simp
qed

end
