(* ===== verification/Upstream_Link.thy ===== *)
theory Upstream_Link
  imports Global_Hub_Guarantees
begin

text \<open>
  The upstream connection in the middle of everything else: the run loop interleaved with the
  other operations of the hub, and what they leave of its bookkeeping.
\<close>

section \<open>The bookkeeping of the connection\<close>

definition link_view :: "global_hub \<Rightarrow> nat list \<times> nat list \<times> int \<times> bool \<times> bool" where
  "link_view g = (gh_callbacks g, gh_callback_calls g, gh_reconnects_total g, gh_ever_connected g, gh_loss_notified g)"

lemma link_plain [simp]:
  "link_view (put_entry sid e g) = link_view g" "link_view (g\<lparr>gh_pending := p\<rparr>) = link_view g"
  "link_view (g\<lparr>gh_sticky := s\<rparr>) = link_view g" "link_view (g\<lparr>gh_revision := v\<rparr>) = link_view g"
  "link_view (g\<lparr>gh_retired := rt\<rparr>) = link_view g" "link_view (g\<lparr>gh_qp_last_activity := q\<rparr>) = link_view g"
  "link_view (g\<lparr>gh_tombstones := tb\<rparr>) = link_view g" "link_view (g\<lparr>gh_last_updated_at := lu\<rparr>) = link_view g"
  "link_view (prune_retired_messages n g) = link_view g" "link_view (prune_last_updated_at g) = link_view g"
  "link_view (prune_sticky_last_error g) = link_view g" "link_view (prune_deleted_tombstones g) = link_view g"
  "link_view (put_all x g) = link_view g" "link_view (g\<lparr>gh_upstream_events_total := u\<rparr>) = link_view g"
  "link_view (g\<lparr>gh_upstream_bytes := b\<rparr>) = link_view g" "link_view (record_dropped_event t w g) = link_view g"
  by (simp_all add: link_view_def put_entry_def prune_retired_messages_def prune_last_updated_at_def prune_sticky_last_error_def
      prune_deleted_tombstones_def put_all_def record_dropped_event_def Let_def)

lemma link_calls [simp]:
  "link_view (token_call f g) = link_view g" "link_view (observe_directory d g) = link_view g" "link_view (received d g) = link_view g"
  by (simp_all add: link_view_def token_call_def observe_directory_def received_def Let_def split: option.split json.split)

lemma link_emit [simp]: "link_view (emit_directory_frame t f d g) = link_view g"
  by (simp add: link_view_def emit_defs put_all_def split: prod.split sum.split)

lemma link_digest [simp]: "link_view (emit_digest t p g) = link_view g" "link_view (gh_flush_sid t sid g) = link_view g"
  by (simp_all add: emit_digest_def gh_flush_sid_def Let_def split: prod.split option.split)

lemma link_flush [simp]: "link_view (gh_flush t g) = link_view g"
  by (simp add: gh_flush_def Let_def fold_keeps [of link_view])

lemma link_bump [simp]: "link_view (bump_message_revision t sid d m g) = link_view g"
  using bump_message_revision_eq [of t sid d m g] by auto

lemma link_session [simp]: "link_view (publish_session t et p d props g) = link_view g"
  by (simp add: publish_session_def session_status_event_def session_deleted_event_def session_updated_event_def Let_def
      split: option.split)

lemma link_handlers [simp]:
  "link_view (publish_immediate t et d props g) = link_view g" "link_view (publish_error iso_ok t d props g) = link_view g"
  "link_view (publish_message t p d props g) = link_view g" "link_view (message_removed_event t sid mid g) = link_view g"
  "link_view (part_changed_event t d ids f g) = link_view g"
  by (simp_all add: publish_immediate_def publish_error_def publish_message_def message_removed_event_def part_changed_event_def
      Let_def split: option.split json.split prod.split)

lemma link_part [simp]: "link_view (publish_part t et d props g) = link_view g"
  by (simp add: publish_part_def Let_def split: option.split)

lemma link_publish [simp]: "link_view (snd (publish iso_ok t ev g)) = link_view g"
  by (cases rule: publish_branches [of iso_ok t ev g]) simp_all

lemma link_notify:
  "link_view (notify_upstream_loss g) =
     (gh_callbacks g, gh_callback_calls g @ gh_callbacks g, gh_reconnects_total g, gh_ever_connected g, gh_loss_notified g)"
proof -
  have "link_view (g'\<lparr>gh_replay := l\<rparr>) = link_view g'" for g' l by (simp add: link_view_def)
  then have "link_view (token_call on_upstream_reconnect ((resync_all g)\<lparr>gh_replay := l\<rparr>)) = link_view g" for l
    by (simp add: resync_all_def)
  then show ?thesis
    by (auto simp: notify_upstream_loss_def fire_callbacks_def Let_def link_view_def)
qed

lemma link_step: "x \<noteq> UpstreamLoss \<Longrightarrow> x \<noteq> IdleRecycle \<Longrightarrow> link_view (gh_step iso_ok x g) = link_view g"
  by (cases x)
    (simp_all add: heartbeat_tick_def gh_subscribe_def gh_unsubscribe_def subscriber_turn_def Let_def
      split: option.split, simp_all add: link_view_def split: prod.split)

section \<open>The interleaved system\<close>

datatype plane_op = Link run_event | Hub gh_op

definition plane_step ::
  "(string \<Rightarrow> json option) \<Rightarrow> (string \<Rightarrow> bool) \<Rightarrow> plane_op \<Rightarrow> run_loop \<times> global_hub \<Rightarrow> run_loop \<times> global_hub" where
  "plane_step loads iso_ok x rg =
     (case x of Link e \<Rightarrow> run_step loads iso_ok e rg | Hub y \<Rightarrow> (fst rg, gh_step iso_ok y (snd rg)))"

text \<open>
  Only the run loop announces the loss of a connection. The teardown of an idle hub is another
  operation, which announces on its own, without a look at the flag; the number of teardowns is
  counted beside the run.
\<close>

definition plane_ok :: "plane_op \<Rightarrow> run_loop \<times> global_hub \<Rightarrow> bool" where
  "plane_ok x rg \<longleftrightarrow> x \<noteq> Hub UpstreamLoss"

definition recycle_step :: "plane_op \<Rightarrow> nat \<Rightarrow> nat" where
  "recycle_step x n = (if x = Hub IdleRecycle then Suc n else n)"

lemma recycle_count: "fold recycle_step ops n = n + count_list ops (Hub IdleRecycle)"
  by (induction ops arbitrary: n) (simp_all add: recycle_step_def)

definition link_inv :: "nat \<Rightarrow> run_loop \<times> global_hub \<Rightarrow> nat \<Rightarrow> bool" where
  "link_inv c rg n \<longleftrightarrow> (case rg of (r, g) \<Rightarrow>
     gh_callbacks g = [c] \<and> 0 \<le> gh_reconnects_total g \<and>
     gh_callback_calls g = replicate (nat (gh_reconnects_total g) + (if gh_loss_notified g then 1 else 0) + n) c \<and>
     (gh_loss_notified g \<longrightarrow> gh_ever_connected g) \<and>
     (rn_phase r = Streaming \<longrightarrow> gh_ever_connected g \<and> \<not> gh_loss_notified g) \<and>
     (\<not> gh_ever_connected g \<longrightarrow> gh_reconnects_total g = 0) \<and>
     1 \<le> rn_delay r \<and> rn_delay r \<le> 30)"

lemma link_inv_cong:
  assumes "link_view g' = link_view g" and "link_inv c (r, g) n"
  shows "link_inv c (r, g') n"
  using assms by (auto simp: link_inv_def link_view_def)

lemma replicate_snoc: "replicate n c @ [c] = replicate (Suc n) c"
  by (simp add: replicate_append_same)

lemma lost_inv:
  assumes "link_inv c (r, g) n"
  shows "link_inv c (run_lost (r, g)) n"
proof -
  have n: "gh_callbacks (notify_upstream_loss g) = [c]" "gh_callback_calls (notify_upstream_loss g) = gh_callback_calls g @ [c]"
      "gh_reconnects_total (notify_upstream_loss g) = gh_reconnects_total g" "gh_ever_connected (notify_upstream_loss g) = gh_ever_connected g"
    using link_notify [of g] assms by (auto simp: link_view_def link_inv_def)
  show ?thesis
    using assms n by (auto simp: run_lost_def link_inv_def back_off_def replicate_snoc)
qed

lemma connected_inv:
  assumes "link_inv c (r, g) n"
  shows "link_inv c (run_connected (r, g)) n"
proof -
  let ?g = "g\<lparr>gh_reconnects_total := gh_reconnects_total g + 1\<rparr>"
  have n: "gh_callbacks (notify_upstream_loss ?g) = [c]" "gh_callback_calls (notify_upstream_loss ?g) = gh_callback_calls g @ [c]"
      "gh_reconnects_total (notify_upstream_loss ?g) = gh_reconnects_total g + 1"
    using link_notify [of ?g] assms by (auto simp: link_view_def link_inv_def)
  show ?thesis
    using assms n by (auto simp: run_connected_def link_inv_def Let_def replicate_snoc nat_add_distrib)
qed

lemma line_inv:
  assumes "link_inv c (r, g) n"
  shows "link_inv c (run_line loads iso_ok t line (r, g)) n"
proof -
  define h where "h = g\<lparr>gh_upstream_bytes := gh_upstream_bytes g + upstream_line_bytes line\<rparr>"
  have h: "link_inv c (r, h) n" by (rule link_inv_cong [OF _ assms]) (simp add: h_def)
  have l: "link_inv c (r\<lparr>rn_lines := ls\<rparr>, g') n" if "link_inv c (r, g') n" for ls g' using that by (simp add: link_inv_def)
  have p: "link_inv c (r, g') n" if "publish iso_ok t ev h = (x, g')" for ev x g'
    using link_inv_cong [OF link_publish h, of iso_ok t ev] by (simp add: that)
  show ?thesis
    unfolding run_line_def prod.case Let_def h_def [symmetric]
    using h l p lost_inv by (auto split: option.split prod.split sum.split)
qed

lemma recycle_inv:
  assumes "link_inv c (r, g) n"
  shows "link_inv c (r, notify_idle_recycle_loss g) (Suc n)"
  using link_notify [of g] assms unfolding idle_notify by (auto simp: link_inv_def link_view_def replicate_snoc)

lemma plane_step_inv:
  assumes "link_inv c rg n" and "plane_ok x rg"
  shows "link_inv c (plane_step loads iso_ok x rg) (recycle_step x n)"
proof (cases x)
  case (Hub y)
  obtain r g where rg: "rg = (r, g)" by fastforce
  show ?thesis
  proof (cases "y = IdleRecycle")
    case True
    then show ?thesis using assms recycle_inv by (simp add: plane_step_def recycle_step_def Hub rg)
  next
    case False
    then show ?thesis
      using assms link_inv_cong [OF link_step [of y iso_ok g]] by (simp add: plane_step_def plane_ok_def recycle_step_def Hub rg)
  qed
next
  case (Link e)
  obtain r g where rg: "rg = (r, g)" by fastforce
  have inv: "link_inv c (r, g) n" using assms(1) by (simp add: rg)
  have b: "link_inv c (back_off r, g) n" using inv by (auto simp: link_inv_def back_off_def)
  have d: "link_inv c (new_run_loop, g) n" "link_inv c (r\<lparr>rn_phase := Returned\<rparr>, g) n" "link_inv c (r\<lparr>rn_phase := Connecting\<rparr>, g) n"
    using inv by (auto simp: link_inv_def new_run_loop_def)
  show ?thesis
    using inv b d lost_inv [OF inv] connected_inv [OF inv] line_inv [OF inv]
    by (simp add: plane_step_def recycle_step_def Link rg run_step_def split: run_event.split run_phase.split)
qed

interpretation plane: simulation "plane_step loads iso_ok" recycle_step plane_ok "link_inv c" for loads iso_ok c
  by unfold_locales (rule plane_step_inv)

lemma started_link: "link_inv c (new_run_loop, add_upstream_loss_callback c (started_hub limits dumps dir_ok allowlist turns l caps)) 0"
  by (simp add: link_inv_def new_run_loop_def add_upstream_loss_callback_def)
    (simp add: started_hub_def set_token_hub_def new_global_hub_def)

lemma plane_ok_run: "Hub UpstreamLoss \<notin> set ops \<Longrightarrow> ok_run (plane_step loads iso_ok) plane_ok ops rg"
  by (induction ops arbitrary: rg) (auto simp: plane_ok_def)

section \<open>Properties\<close>

text \<open>
  C26. Every lost upstream connection is announced exactly once: at any time, and however reconnects,
  failures, regular ends of the stream, malformed events, cancelled and respawned loops and all
  other operations interleave, the loss observers have been called once for every reconnect, once
  more when the connection is down and that loss has been announced, and besides once for every
  teardown of the idle hub. The teardown neither tests nor sets the flag of an announced loss, so after
  a loss that was announced already it announces again. \<open>UpstreamLoss\<close> is no step here: only the run
  loop calls \<open>_notify_upstream_loss\<close>. While the stream is being read no announcement is outstanding, and the
  back-off stays between 1 and 30 seconds.
\<close>

theorem loss_announced_once:
  assumes "Hub UpstreamLoss \<notin> set ops"
    and "(r, g) = fold (plane_step loads iso_ok) ops
      (new_run_loop, add_upstream_loss_callback c (started_hub limits dumps dir_ok allowlist turns l caps))"
  shows "gh_callback_calls g =
      replicate (nat (gh_reconnects_total g) + (if gh_loss_notified g then 1 else 0) + count_list ops (Hub IdleRecycle)) c \<and>
    (rn_phase r = Streaming \<longrightarrow> \<not> gh_loss_notified g) \<and> 1 \<le> rn_delay r \<and> rn_delay r \<le> 30"
proof -
  have "link_inv c (r, g) (count_list ops (Hub IdleRecycle))"
    using plane.sim_run [OF started_link plane_ok_run [OF assms(1)]] unfolding assms(2) recycle_count by simp
  then show ?thesis unfolding link_inv_def prod.case by blast
qed

definition demo_link :: "plane_op list" where
  "demo_link = [Hub Subscribe, Link Woken, Link Connected, Link (Line (demo_time 1) ''data: x''), Link (Line (demo_time 1) []),
     Link Eof, Link Woken, Link Failed, Hub IdleRecycle, Link Woken, Link Connected, Link Spawned, Link Woken, Link Connected]"

definition demo_plane :: "run_loop \<times> global_hub" where
  "demo_plane = fold (plane_step (\<lambda>_. None) (\<lambda>_. True)) demo_link (new_run_loop, add_upstream_loss_callback 5 demo_gh)"

theorem loss_announced_once_witness:
  "gh_callback_calls (snd demo_plane) = [5, 5, 5] \<and> gh_reconnects_total (snd demo_plane) = 2 \<and> rn_phase (fst demo_plane) = Streaming"
proof -
  have n: "Hub UpstreamLoss \<notin> set demo_link" "count_list demo_link (Hub IdleRecycle) = 1" by (simp_all add: demo_link_def)
  have e: "(fst demo_plane, snd demo_plane) = fold (plane_step (\<lambda>_. None) (\<lambda>_. True)) demo_link (new_run_loop,
      add_upstream_loss_callback 5 (started_hub (10, 1000, 1000) (\<lambda>_. ''{}'') (\<lambda>_ _. True) None None demo_token_log None))"
    by (simp add: demo_plane_def demo_gh_def)
  have v: "gh_reconnects_total (snd demo_plane) = 2" "rn_phase (fst demo_plane) = Streaming" by code_simp+
  from loss_announced_once [OF n(1) e] v n(2) show ?thesis by (simp add: numeral_2_eq_2)
qed

text \<open>
  C29. An upstream event whose type is a list (or an object) is not counted as a dropped event: it
  raises in \<open>publish\<close>, and the run loop treats that as a loss of the connection. All subscribers
  are told to resynchronise, the loss observers run, and the loop backs off.
\<close>

theorem malformed_type_breaks_link:
  assumes "rn_phase r = Streaming" and "rn_lines r = [doc]" and "loads doc = Some (JObj ev)"
    and "jget ev ''payload'' = JObj p" and "jget p ''type'' = JArr xs"
    and "gh_ever_connected g" and "\<not> gh_loss_notified g"
    and "(r', g') = run_step loads iso_ok (Line t []) (r, g)"
  shows "rn_phase r' = AtHead \<and> rn_delay r' = min (rn_delay r * 2) 30 \<and> gh_loss_notified g' \<and>
    gh_callback_calls g' = gh_callback_calls g @ gh_callbacks g \<and> gh_dropped g' = gh_dropped g"
proof -
  define g1 where "g1 = g\<lparr>gh_upstream_bytes := gh_upstream_bytes g + upstream_line_bytes []\<rparr>"
  define h where "h = received (jget ev ''directory'') g1"
  have "publish iso_ok t (JObj ev) g1 = (Inl TypeError, h)"
    using assms(4,5) by (simp add: publish_def h_def received_def)
  moreover have "join_with newline [doc] = doc" by simp
  ultimately have "run_step loads iso_ok (Line t []) (r, g) = run_lost (r, h)"
    using assms(1-3) by (simp add: run_step_def run_line_def g1_def starts_with_def)
  moreover have hv: "link_view h = link_view g" by (simp add: h_def g1_def)
  moreover have "gh_dropped (notify_upstream_loss h) = gh_dropped g"
    by (simp add: notify_upstream_loss_def resync_all_def fire_callbacks_def Let_def h_def received_def g1_def)
  ultimately show ?thesis
    using assms(6-8) link_notify [of h] by (auto simp: run_lost_def back_off_def link_view_def)
qed

definition demo_bad :: "(string \<times> json) list" where
  "demo_bad = [(''payload'', JObj [(''type'', JArr [])])]"

theorem malformed_type_breaks_link_witness:
  "gh_callback_calls (snd (run_step (\<lambda>_. Some (JObj demo_bad)) (\<lambda>_. True) (Line (demo_time 1) [])
     (\<lparr>rn_phase = Streaming, rn_delay = 1, rn_lines = [''{}'']\<rparr>, demo_gh\<lparr>gh_ever_connected := True, gh_callbacks := [5]\<rparr>))) = [5]"
proof -
  let ?r = "\<lparr>rn_phase = Streaming, rn_delay = 1, rn_lines = [''{}'']\<rparr>" and ?g = "demo_gh\<lparr>gh_ever_connected := True, gh_callbacks := [5]\<rparr>"
  have "jget demo_bad ''payload'' = JObj [(''type'', JArr [])]" "jget [(''type'', JArr [])] ''type'' = JArr []"
    by (simp_all add: demo_bad_def jget_def)
  moreover have "\<not> gh_loss_notified ?g" "gh_callback_calls ?g = []" by (simp_all add: demo_gh_def)
  ultimately show ?thesis
    using malformed_type_breaks_link [of ?r "''{}''" "\<lambda>_. Some (JObj demo_bad)" demo_bad "[(''type'', JArr [])]" "[]" ?g,
        OF _ _ _ _ _ _ _ prod.collapse] by simp
qed

end
