(* ===== verification/Global_Hub_Events.thy ===== *)
theory Global_Hub_Events
  imports Global_Hub_Guarantees
begin

text \<open>
  The behaviour of single events of the control plane, and the silence of deleted sessions.
\<close>

section \<open>What one emission appends\<close>

lemma emitted_emit:
  "map snd (gh_emitted (emit_directory_frame t f d g)) = map snd (gh_emitted g) @ (if directory_allowed d g then [f] else [])"
  by (simp add: emit_defs split: prod.split sum.split)

text \<open>The frame that a pending entry becomes.\<close>

definition digest_of :: "(string, json) dict \<Rightarrow> string \<Rightarrow> digest_fields \<Rightarrow> frame" where
  "digest_of sticky sid e = digest_frame sid ((merge_sticky sticky sid e)\<lparr>df_changed := Some [sid]\<rparr>)"

lemma merge_sticky_directory [simp]: "df_directory (merge_sticky s sid e) = df_directory e"
  by (simp add: merge_sticky_def split: last_error.split option.split)

lemma allowed_observe [simp]: "directory_allowed d (observe_directory d' g) = directory_allowed d g"
  by (simp add: directory_allowed_def split: option.split)

lemma allowed_frame [simp]:
  "directory_allowed d (emit_directory_frame t f d' g) = directory_allowed d g"
  "directory_allowed d (emit_digest t p g) = directory_allowed d g" "directory_allowed d (gh_flush_sid t sid g) = directory_allowed d g"
  "directory_allowed d (put_entry sid e g) = directory_allowed d g" "directory_allowed d (g\<lparr>gh_pending := x\<rparr>) = directory_allowed d g"
  "directory_allowed d (received d' g) = directory_allowed d g" "directory_allowed d (token_call tf g) = directory_allowed d g"
  "directory_allowed d (g\<lparr>gh_qp_last_activity := q\<rparr>) = directory_allowed d g"
  by (simp_all add: directory_allowed_def split: option.split)

lemma emitted_digest:
  "map snd (gh_emitted (emit_digest t (sid, e) g)) =
     map snd (gh_emitted g) @ (if directory_allowed (opt_str (df_directory e)) g then [digest_of (gh_sticky g) sid e] else [])"
  by (simp add: emit_digest_def Let_def emitted_emit digest_of_def)

lemma emitted_flush_sid:
  "map snd (gh_emitted (gh_flush_sid t sid g)) =
     map snd (gh_emitted g) @ (case dict_get (gh_pending g) sid of
        None \<Rightarrow> []
      | Some e \<Rightarrow> if directory_allowed (opt_str (df_directory e)) g then [digest_of (gh_sticky g) sid e] else [])"
  by (simp add: gh_flush_sid_def emitted_digest split: option.split)

lemma emitted_fold_digest:
  "map snd (gh_emitted (fold (emit_digest t) ps g)) = map snd (gh_emitted g) @
     map (\<lambda>(sid, e). digest_of (gh_sticky g) sid e) (filter (\<lambda>(sid, e). directory_allowed (opt_str (df_directory e)) g) ps)"
  by (induction ps arbitrary: g) (auto simp: emitted_digest split: prod.split)

section \<open>Deleted sessions\<close>

definition carries_error :: "string \<Rightarrow> frame \<Rightarrow> bool" where
  "carries_error sid f \<longleftrightarrow> (\<exists>d. digest_payload sid ([], f) = Some d \<and> ''lastError'' \<in> fst ` set d)"

definition silent :: "string \<Rightarrow> global_hub \<Rightarrow> global_hub \<Rightarrow> bool" where
  "silent sid g g' \<longleftrightarrow> (\<exists>fs. map snd (gh_emitted g') = map snd (gh_emitted g) @ fs \<and> list_all (\<lambda>f. \<not> carries_error sid f) fs)"

lemma silent_refl [simp]: "gh_emitted g' = gh_emitted g \<Longrightarrow> silent sid g g'"
  by (simp add: silent_def)

lemma silent_trans: "silent sid g g1 \<Longrightarrow> silent sid g1 g2 \<Longrightarrow> silent sid g g2"
  by (auto simp: silent_def)

lemma silentI:
  "map snd (gh_emitted g') = map snd (gh_emitted g) @ fs \<Longrightarrow> (\<And>f. f \<in> set fs \<Longrightarrow> \<not> carries_error sid f) \<Longrightarrow> silent sid g g'"
  unfolding silent_def by (auto simp: list_all_iff)

lemma carries_other: "fr_event f \<noteq> Some ''session.digest'' \<Longrightarrow> \<not> carries_error sid f"
  by (simp add: carries_error_def)

lemma carries_digest:
  "sid' \<noteq> sid \<or> df_last_error e = Error_Unset \<and> dict_get sticky sid = None \<Longrightarrow> \<not> carries_error sid (digest_of sticky sid' e)"
  using digest_key_present [of "''lastError''" False "e\<lparr>df_changed := Some [sid]\<rparr>" sid]
  by (auto simp: carries_error_def digest_of_def merge_sticky_def digest_keys_def)

text \<open>While a session is deleted: it has a tombstone, and then no error is kept for it.\<close>

lemma deleted_facts:
  assumes "gh_inv g" and "dict_has (gh_tombstones g) sid"
  shows "dict_get (gh_sticky g) sid = None" and "(k, e) \<in> set (gh_pending g) \<Longrightarrow> df_last_error e = Error_Unset"
    and "dict_get (gh_pending g) k = Some e \<Longrightarrow> df_last_error e = Error_Unset"
  using assms by (auto simp: gh_inv_def sessions_ok_def dict_has_get entry_ok_def dest!: dict_get_in_set)

lemma silent_emit: "fr_event f \<noteq> Some ''session.digest'' \<Longrightarrow> silent sid g (emit_directory_frame t f d g)"
  by (rule silentI [OF emitted_emit]) (auto simp: carries_other split: if_splits)

lemma silent_flush_sid:
  assumes "sid' \<noteq> sid \<or> dict_get (gh_sticky g) sid = None \<and> (\<forall>e. dict_get (gh_pending g) sid = Some e \<longrightarrow> df_last_error e = Error_Unset)"
  shows "silent sid g (gh_flush_sid t sid' g)"
  by (rule silentI [OF emitted_flush_sid]) (use assms carries_digest in \<open>auto split: option.splits if_splits\<close>)

lemma silent_publish:
  assumes inv: "gh_inv g" and tomb: "dict_has (gh_tombstones g) sid"
  shows "silent sid g (snd (publish iso_ok t ev g))"
proof -
  note del = deleted_facts [OF assms]
  have r: "silent sid g (received d g)" for d by simp
  have rs: "silent sid g g'" if "silent sid (received d g) g'" for d g' by (rule silent_trans [OF r that])
  show ?thesis
  proof (cases rule: publish_branches [of iso_ok t ev g])
    case (immediate et d props)
    let ?f = "\<lparr>fr_event = None, fr_payload = JObj [(''directory'', d), (''type'', JStr et), (''properties'', JObj props)]\<rparr>"
    define h where "h = (case d of JStr dir \<Rightarrow>
        if (starts_with ''question.'' et \<or> starts_with ''permission.'' et) \<and> dir \<noteq> []
        then (received d g)\<lparr>gh_qp_last_activity := record_qp_activity (gh_qp_last_activity (received d g)) dir (snd t)\<rparr>
        else received d g | _ \<Rightarrow> received d g)"
    have h: "gh_emitted h = gh_emitted (received d g)" "gh_pending h = gh_pending g" "gh_sticky h = gh_sticky g"
      by (simp_all add: h_def split: json.split)
    have q: "silent sid (received d g) (gh_flush_sid t s h)" "silent sid (received d g) h" for s
      using silent_trans [OF silent_refl silent_flush_sid [of s sid h t], of "received d g"] del h by simp_all
    have e: "silent sid g' (emit_directory_frame t ?f d g')" for g' by (rule silent_emit) simp
    show ?thesis
      unfolding immediate publish_immediate_def Let_def h_def [symmetric]
      by (rule rs [of d], rule silent_trans [OF _ e]) (simp add: q split: option.split)
  next
    case (session et p d props)
    have flush: "silent sid (received d g) (gh_flush_sid t s (put_entry s e ((received d g)\<lparr>gh_sticky := x\<rparr>)))"
      if "dict_has (gh_sticky g) s" for s e x
    proof -
      have "s \<noteq> sid" using that del(1) by (auto simp: dict_has_get)
      then show ?thesis
        by (intro silent_trans [OF silent_refl silent_flush_sid [of s sid "put_entry s e ((received d g)\<lparr>gh_sticky := x\<rparr>)" t]]) simp_all
    qed
    have tok: "silent sid (received d g) (token_call f h)" if "silent sid (received d g) h" for f h
      by (rule silent_trans [OF that]) simp
    have "silent sid (received d g) (session_status_event t s d props (received d g))" for s
      unfolding session_status_event_def Let_def
      by (cases "normalize_session_status (jget props ''status'')") (simp_all add: tok flush)
    then have "silent sid (received d g) (publish_session t et p d props (received d g))"
      by (simp add: publish_session_def session_deleted_event_def session_updated_event_def Let_def
          prune_deleted_tombstones_def split: option.split)
    then show ?thesis unfolding session by (rule rs)
  next
    case (error d props)
    have "silent sid (received d g) (gh_flush_sid t s (put_entry s e (prune_sticky_last_error ((received d g)\<lparr>gh_sticky := x\<rparr>))))"
      if "\<not> dict_has (gh_tombstones g) s" for s e x
    proof -
      have "s \<noteq> sid" using that tomb by auto
      then show ?thesis
        by (intro silent_trans [OF silent_refl
              silent_flush_sid [of s sid "put_entry s e (prune_sticky_last_error ((received d g)\<lparr>gh_sticky := x\<rparr>))" t]])
          (simp_all add: prune_sticky_last_error_def)
    qed
    moreover have "silent sid h (emit_directory_frame t \<lparr>fr_event = Some ''session.error'', fr_payload = y\<rparr> d' h)" for y d' h
      by (rule silent_emit) simp
    ultimately have "silent sid (received d g) (publish_error iso_ok t d props (received d g))"
      by (simp add: publish_error_def Let_def split: option.split)
    then show ?thesis unfolding error by (rule rs)
  next
    case (part et d props)
    have "gh_emitted (part_changed_event t d ids f h) = gh_emitted h" for ids f h
      by (simp add: part_changed_event_def rev_stamp.emitted_bump split: prod.split)
    then have "gh_emitted (publish_part t et d props (received d g)) = gh_emitted g"
      by (simp add: publish_part_def Let_def rev_stamp.emitted_removed split: option.split)
    then show ?thesis unfolding part by simp
  qed (simp_all add: record_dropped_event_def publish_message_def Let_def rev_stamp.emitted_bump split: option.split)
qed

lemma silent_step:
  assumes inv: "gh_inv g" and tomb: "dict_has (gh_tombstones g) sid"
  shows "silent sid g (gh_step iso_ok x g)"
proof (cases x)
  case (DigestFlush t)
  note del = deleted_facts [OF assms]
  let ?g1 = "(prune_deleted_tombstones (prune_sticky_last_error (prune_last_updated_at (prune_retired_messages (now_ms t) g))))\<lparr>gh_pending := []\<rparr>"
  have s: "dict_get (gh_sticky ?g1) sid = None"
    using del(1) dict_cap_has [of LAST_UPDATED_AT_BY_SID_MAX "gh_sticky g" sid]
    by (cases "dict_get (dict_cap LAST_UPDATED_AT_BY_SID_MAX (gh_sticky g)) sid")
      (simp_all add: prune_deleted_tombstones_def prune_sticky_last_error_def prune_last_updated_at_def prune_retired_messages_def dict_has_get)
  have p: "gh_flush t g = fold (emit_digest t) (gh_pending g) ?g1" "gh_emitted ?g1 = gh_emitted g"
    by (simp_all add: gh_flush_def Let_def prune_deleted_tombstones_def prune_sticky_last_error_def prune_last_updated_at_def prune_retired_messages_def)
  show ?thesis
    unfolding DigestFlush gh_step.simps p(1)
    by (rule silentI [OF emitted_fold_digest [of t "gh_pending g" ?g1, unfolded p(2)]]) (use s carries_digest del(2) in auto)
qed (simp_all add: silent_publish [OF assms] heartbeat_tick_def notify_upstream_loss_def idle_notify resync_all_def fire_callbacks_def
    gh_subscribe_def gh_unsubscribe_def subscriber_turn_def Let_def split: option.split prod.split)

definition stays_deleted :: "(string \<Rightarrow> bool) \<Rightarrow> string \<Rightarrow> gh_op \<Rightarrow> global_hub \<Rightarrow> bool" where
  "stays_deleted iso_ok sid x g \<longleftrightarrow> dict_has (gh_tombstones (gh_step iso_ok x g)) sid"

lemma silent_run:
  assumes "gh_inv g" and "dict_has (gh_tombstones g) sid" and "ok_run (gh_step iso_ok) (stays_deleted iso_ok sid) ops g"
  shows "silent sid g (fold (gh_step iso_ok) ops g) \<and> dict_get (gh_sticky (fold (gh_step iso_ok) ops g)) sid = None"
  using assms
proof (induction ops arbitrary: g)
  case (Cons x ops)
  then show ?case
    using silent_trans [OF silent_step [OF Cons.prems(1,2), of iso_ok x]] Cons.IH [of "gh_step iso_ok x g"] gh_step_inv
    by (simp add: stays_deleted_def)
qed (simp add: deleted_facts)

section \<open>Properties\<close>

text \<open>
  A deleted session stays silent about errors: from the moment its tombstone stands, and as long
  as it stands, no digest of the session carries an error, although late error events, status
  changes and digests of it keep arriving; and no error is remembered for it.
\<close>

theorem deleted_session_no_error:
  assumes "caps_valid caps"
    and "g = fold (gh_step iso_ok) ops (started_hub limits dumps dir_ok allowlist turns l caps)"
    and "dict_has (gh_tombstones g) sid"
    and "ok_run (gh_step iso_ok) (stays_deleted iso_ok sid) ops' g"
    and "g' = fold (gh_step iso_ok) ops' g"
  shows "(\<exists>fs. map snd (gh_emitted g') = map snd (gh_emitted g) @ fs \<and> list_all (\<lambda>f. \<not> carries_error sid f) fs) \<and>
    dict_get (gh_sticky g') sid = None"
  using silent_run [OF _ assms(3,4)] gh_run_inv [OF started_hub_inv [OF assms(1)]]
  unfolding assms(2,5) silent_def by blast

definition demo_deleted :: "gh_op list" where
  "demo_deleted = [Publish (demo_time 1) (demo_event ''session.deleted'' [(''sessionID'', JStr ''s'')])]"

definition demo_late :: "gh_op list" where
  "demo_late = [DigestFlush (demo_time 2),
     Publish (demo_time 3) (demo_event ''session.error'' [(''sessionID'', JStr ''s''), (''error'', JObj [(''name'', JStr ''X'')])]),
     Publish (demo_time 3) (demo_event ''session.status'' [(''sessionID'', JStr ''s''), (''status'', JStr ''busy'')]),
     DigestFlush (demo_time 4)]"

theorem deleted_session_no_error_witness:
  "dict_get (gh_sticky (fold (gh_step (\<lambda>_. True)) demo_late (fold (gh_step (\<lambda>_. True)) demo_deleted demo_gh))) ''s'' = None \<and>
   length (gh_emitted (fold (gh_step (\<lambda>_. True)) demo_late (fold (gh_step (\<lambda>_. True)) demo_deleted demo_gh))) = 2"
proof
  have c: "caps_valid None" by (simp add: caps_valid_def)
  have t: "dict_has (gh_tombstones (fold (gh_step (\<lambda>_. True)) demo_deleted demo_gh)) ''s''" by code_simp
  have o: "ok_run (gh_step (\<lambda>_. True)) (stays_deleted (\<lambda>_. True) ''s'') demo_late (fold (gh_step (\<lambda>_. True)) demo_deleted demo_gh)"
    by code_simp
  show "dict_get (gh_sticky (fold (gh_step (\<lambda>_. True)) demo_late (fold (gh_step (\<lambda>_. True)) demo_deleted demo_gh))) ''s'' = None"
    using deleted_session_no_error [OF c, where limits = "(10, 1000, 1000)" and dumps = "\<lambda>_. ''{}''" and dir_ok = "\<lambda>_ _. True"
      and allowlist = None and turns = None and l = demo_token_log, folded demo_gh_def, OF refl t o refl] by blast
  show "length (gh_emitted (fold (gh_step (\<lambda>_. True)) demo_late (fold (gh_step (\<lambda>_. True)) demo_deleted demo_gh))) = 2"
    by code_simp
qed

text \<open>
  A question is never ahead of the digest it refers to: when a question is asked in a session with
  a pending digest, the hub publishes that digest (with the remembered error, when the window set
  none) and directly after it the question, and the digests of the other sessions stay pending.
\<close>

theorem question_after_digest:
  assumes "et \<in> {''question.asked'', ''question.v2.asked''}"
    and "jget ev ''directory'' = JStr dir" and "jget ev ''payload'' = JObj payload" and "jget payload ''type'' = JStr et"
    and "jget payload ''properties'' = JObj props" and "jget props ''sessionID'' = JStr sid" and "sid \<noteq> []"
    and "dict_get (gh_pending g) sid = Some e"
    and "directory_allowed (opt_str (df_directory e)) g" and "directory_allowed (JStr dir) g"
    and "g' = snd (publish iso_ok t (JObj ev) g)"
  shows "map snd (gh_emitted g') = map snd (gh_emitted g) @ [digest_of (gh_sticky g) sid e,
      \<lparr>fr_event = None, fr_payload = JObj [(''directory'', JStr dir), (''type'', JStr et), (''properties'', JObj props)]\<rparr>] \<and>
    gh_pending g' = dict_pop sid (gh_pending g)"
proof -
  have et: "et \<in> set IMMEDIATE" "starts_with ''question.'' et" using assms(1) by (auto simp: IMMEDIATE_def starts_with_def)
  define h where "h = (if dir = [] then received (JStr dir) g
    else (received (JStr dir) g)\<lparr>gh_qp_last_activity := record_qp_activity (gh_qp_last_activity g) dir (snd t)\<rparr>)"
  have qp: "gh_qp_last_activity (received d g) = gh_qp_last_activity g" for d by (simp add: received_def)
  have "g' = publish_immediate t et (JStr dir) props (received (JStr dir) g)"
    using assms(2-5) et(1) by (simp add: assms(11) publish_def received_def [symmetric] Let_def)
  also have "\<dots> = emit_directory_frame t
      \<lparr>fr_event = None, fr_payload = JObj [(''directory'', JStr dir), (''type'', JStr et), (''properties'', JObj props)]\<rparr>
      (JStr dir) (gh_flush_sid t sid h)"
    using assms(1,6,7) et(2) qp by (auto simp: publish_immediate_def Let_def jstr_ne_def h_def)
  finally have g': "g' = \<dots>" .
  have h: "gh_pending h = gh_pending g" "gh_sticky h = gh_sticky g" "gh_emitted h = gh_emitted g" "directory_allowed d h = directory_allowed d g" for d
    by (simp_all add: h_def)
  show ?thesis using assms(8-10) unfolding g' by (simp add: emitted_emit emitted_flush_sid h)
qed

definition demo_asked :: "(string \<times> json) list" where
  "demo_asked = [(''directory'', JStr ''/w''), (''payload'', JObj [(''type'', JStr ''question.asked''),
     (''properties'', JObj [(''sessionID'', JStr ''s'')])])]"

definition demo_pending :: global_hub where
  "demo_pending = demo_gh\<lparr>gh_pending := [(''r'', new_digest_fields), (''s'', new_digest_fields)]\<rparr>"

theorem question_after_digest_witness:
  "map fr_event (map snd (gh_emitted (snd (publish (\<lambda>_. True) (demo_time 1) (JObj demo_asked) demo_pending)))) = [Some ''session.digest'', None] \<and>
   map fst (gh_pending (snd (publish (\<lambda>_. True) (demo_time 1) (JObj demo_asked) demo_pending))) = [''r'']"
proof -
  have j: "jget demo_asked ''directory'' = JStr ''/w''" "jget demo_asked ''payload'' =
      JObj [(''type'', JStr ''question.asked''), (''properties'', JObj [(''sessionID'', JStr ''s'')])]"
    "jget [(''type'', JStr ''question.asked''), (''properties'', JObj [(''sessionID'', JStr ''s'')])] ''type'' = JStr ''question.asked''"
    "jget [(''type'', JStr ''question.asked''), (''properties'', JObj [(''sessionID'', JStr ''s'')])] ''properties'' = JObj [(''sessionID'', JStr ''s'')]"
    "jget [(''sessionID'', JStr ''s'')] ''sessionID'' = JStr ''s''"
    by (simp_all add: demo_asked_def jget_def)
  have p: "dict_get (gh_pending demo_pending) ''s'' = Some new_digest_fields" "directory_allowed d demo_pending" for d
    by (simp_all add: demo_pending_def dict_get_def directory_allowed_def demo_gh_def started_hub_def new_global_hub_def set_token_hub_def)
  have e: "gh_emitted demo_pending = []" by (simp add: demo_pending_def demo_gh_def)
  from question_after_digest [OF _ j _ p(1) p(2) p(2) refl, of "\<lambda>_. True" "demo_time 1"]
  show ?thesis by (simp add: e digest_of_def digest_frame_def) (simp add: demo_pending_def dict_pop_def)
qed

text \<open>
  C28. The debounce timer is live: one flush publishes the digest of every session that is pending and
  allowed, in the order in which the sessions became pending, and leaves none behind.
\<close>

theorem flush_publishes_pending:
  "gh_pending (gh_flush t g) = [] \<and>
   map snd (gh_emitted (gh_flush t g)) = map snd (gh_emitted g) @
     map (\<lambda>(sid, e). digest_of (dict_cap LAST_UPDATED_AT_BY_SID_MAX (gh_sticky g)) sid e)
       (filter (\<lambda>(sid, e). directory_allowed (opt_str (df_directory e)) g) (gh_pending g))"
proof -
  let ?g1 = "(prune_deleted_tombstones (prune_sticky_last_error (prune_last_updated_at (prune_retired_messages (now_ms t) g))))\<lparr>gh_pending := []\<rparr>"
  have p: "gh_flush t g = fold (emit_digest t) (gh_pending g) ?g1" "gh_emitted ?g1 = gh_emitted g"
      "gh_sticky ?g1 = dict_cap LAST_UPDATED_AT_BY_SID_MAX (gh_sticky g)"
    by (simp_all add: gh_flush_def Let_def prune_deleted_tombstones_def prune_sticky_last_error_def prune_last_updated_at_def prune_retired_messages_def)
  have d: "directory_allowed d ?g1 = directory_allowed d g" for d
    by (simp add: directory_allowed_def prune_deleted_tombstones_def prune_sticky_last_error_def prune_last_updated_at_def
        prune_retired_messages_def split: option.split)
  have "gh_pending (fold (emit_digest t) ps h) = gh_pending h" for ps h by (rule fold_keeps) simp
  then show ?thesis unfolding p(1) emitted_fold_digest p(2,3) d by simp
qed

text \<open>
  The control plane runs in bounded memory: after any sequence of operations the tables of errors
  and tombstones hold at most 10000 sessions, the gate of removed messages at most 1000, the
  activity table at most 10000 directories and the table of dropped event types at most 257, and
  the token hub it drives is within its own budgets.
\<close>

theorem global_hub_bounds:
  assumes "caps_valid caps"
    and "g = fold (gh_step iso_ok) ops (started_hub limits dumps dir_ok allowlist turns l caps)"
  shows "length (gh_sticky g) \<le> 10000 \<and> length (gh_tombstones g) \<le> 10000 \<and> length (gh_retired g) \<le> 1000 \<and>
    length (gh_qp_last_activity g) \<le> 10000 \<and> length (gh_dropped g) \<le> 257 \<and>
    (case gh_token g of None \<Rightarrow> True | Some h \<Rightarrow> hub_inv h)"
proof -
  have inv: "gh_inv g" unfolding assms(2) by (rule gh_run_inv [OF started_hub_inv [OF assms(1)]])
  have "length d \<le> Suc (length (dict_pop k d))" if "dict_wf d" for d :: "(string, int) dict" and k
    using that unfolding dict_wf_def dict_pop_def
  proof (induction d)
    case (Cons p d)
    have "filter (\<lambda>q. fst q \<noteq> k) d = d" if "fst p = k"
      using Cons.prems that by (intro filter_True) (auto simp: image_iff)
    then show ?case using Cons by simp
  qed simp
  note pop = this [of "gh_dropped g" OTHER_TYPE]
  have t: "tables_ok g" "token_ok g" using inv by (simp_all add: gh_inv_def)
  have "length (dict_pop OTHER_TYPE (gh_dropped g)) \<le> 256" "dict_wf (gh_dropped g)"
    using t(1) unfolding tables_ok_def by blast+
  then have "length (gh_dropped g) \<le> 257" using pop by linarith
  then show ?thesis using t unfolding tables_ok_def token_ok_def by blast
qed

theorem global_hub_bounds_witness:
  "length (gh_tombstones (fold (gh_step (\<lambda>_. True)) demo_deleted demo_gh)) \<le> 10000 \<and>
   length (gh_tombstones (fold (gh_step (\<lambda>_. True)) demo_deleted demo_gh)) = 1"
proof
  have c: "caps_valid None" by (simp add: caps_valid_def)
  show "length (gh_tombstones (fold (gh_step (\<lambda>_. True)) demo_deleted demo_gh)) \<le> 10000"
    using global_hub_bounds [OF c, where limits = "(10, 1000, 1000)" and dumps = "\<lambda>_. ''{}''" and dir_ok = "\<lambda>_ _. True"
      and allowlist = None and turns = None and l = demo_token_log, folded demo_gh_def, OF refl] by blast
  show "length (gh_tombstones (fold (gh_step (\<lambda>_. True)) demo_deleted demo_gh)) = 1" by code_simp
qed

end
