(* ===== verification/Global_Hub_Replay.thy ===== *)
theory Global_Hub_Replay
  imports Global_Hub_Guarantees
begin

text \<open>
  The hubs on the shared replay log: the history of the global domain is what the control plane
  published, with the ids it put on the wire, whatever the token hub does to the same log.
\<close>

definition pub_ok :: "int \<Rightarrow> string \<Rightarrow> global_hub \<Rightarrow> bool" where
  "pub_ok w epoch g \<longleftrightarrow> rl_epoch (gh_replay g) = epoch \<and>
     (\<exists>H. rl_rel (gh_replay g) H \<and> serving H \<and> h_frames H GLOBAL_DOMAIN = map snd (gh_emitted g) \<and>
       w \<le> h_wall H GLOBAL_DOMAIN) \<and>
     map fst (gh_emitted g) = map (id_line GLOBAL_DOMAIN epoch) [1..int (length (gh_emitted g))]"

lemma pub_ok_cong:
  "gh_replay g' = gh_replay g \<Longrightarrow> gh_emitted g' = gh_emitted g \<Longrightarrow> pub_ok w epoch g' = pub_ok w epoch g"
  by (simp add: pub_ok_def)

lemma last_seq_history: "rl_rel l H \<Longrightarrow> last_seq l d = int (length (h_frames H d))"
  using rl_sim_dom [of l H d]
  by (auto simp: rl_rel_def dom_rel_def ds_rel_def last_seq_def split: option.splits)

lemma wall_le: "rl_rel l H \<Longrightarrow> h_wall H d \<le> int (length (h_frames H d))"
  using rl_sim_dom [of l H d] by (auto simp: rl_rel_def dom_rel_def ds_rel_def split: option.splits)

lemma pub_emit:
  assumes "pub_ok w epoch g"
  shows "pub_ok w epoch (emit_directory_frame t f d g)"
proof (cases "directory_allowed d g")
  case False
  then show ?thesis using assms by (simp add: emit_directory_frame_def pub_ok_def)
next
  case True
  obtain H where ep: "rl_epoch (gh_replay g) = epoch" and H: "rl_rel (gh_replay g) H" "serving H"
      "h_frames H GLOBAL_DOMAIN = map snd (gh_emitted g)" "w \<le> h_wall H GLOBAL_DOMAIN"
    and ids: "map fst (gh_emitted g) = map (id_line GLOBAL_DOMAIN epoch) [1..int (length (gh_emitted g))]"
    using assms by (auto simp: pub_ok_def)
  have core: "rl_core (gh_replay g)" and op: "\<not> rl_closed (gh_replay g)" "rl_size_of (gh_replay g) f \<noteq> None"
    using H(1,2) by (auto simp: rl_rel_def rl_sim_def serving_def)
  then obtain e l where ap: "append_frame (gh_replay g) GLOBAL_DOMAIN f FRAME_KIND_BUSINESS None (mono_now t) = (Inr e, l)"
    using append_frame_eq [OF core op(1), of GLOBAL_DOMAIN f _ FRAME_KIND_BUSINESS "mono_now t"] by fastforce
  have seq: "e_seq e = int (length (gh_emitted g)) + 1"
    using append_frame_seq(1) [OF core ap] last_seq_history [OF H(1)] H(3) by simp
  have rel: "rl_rel l (h_publish GLOBAL_DOMAIN f H)" using append_frame_rel [OF H(1), of GLOBAL_DOMAIN f] by (metis ap snd_conv)
  have hp: "h_frames (h_publish GLOBAL_DOMAIN f H) GLOBAL_DOMAIN = map snd (gh_emitted g) @ [f]"
      "h_wall (h_publish GLOBAL_DOMAIN f H) = h_wall H" "serving (h_publish GLOBAL_DOMAIN f H)"
    using H(2,3) by (auto simp: h_publish_def h_push_def h_create_def serving_def)
  have epl: "rl_epoch l = epoch"
    using append_frame_config [of "gh_replay g" "gh_replay g" GLOBAL_DOMAIN f FRAME_KIND_BUSINESS None "mono_now t"] ep
    by (simp add: ap same_config_def)
  have up: "[1..int n + 1] = [1..int n] @ [int n + 1]" for n :: nat by (simp add: upto_rec2)
  have "gh_replay (emit_directory_frame t f d g) = l"
      "gh_emitted (emit_directory_frame t f d g) = gh_emitted g @ [(id_line GLOBAL_DOMAIN epoch (int (length (gh_emitted g)) + 1), f)]"
    using True by (simp_all add: emit_defs ap epl seq)
  then show ?thesis
    unfolding pub_ok_def using epl rel hp H(4) ids up [of "length (gh_emitted g)"]
    by (auto simp: add.commute intro!: exI [of _ "h_publish GLOBAL_DOMAIN f H"])
qed

lemma pub_token:
  assumes "pub_ok w epoch g"
  shows "pub_ok w epoch (token_call (hub_step x) g)"
proof (cases "gh_token g")
  case (Some th)
  obtain H where H: "rl_rel (gh_replay g) H" "serving H" "h_frames H GLOBAL_DOMAIN = map snd (gh_emitted g)"
      "w \<le> h_wall H GLOBAL_DOMAIN"
    using assms by (auto simp: pub_ok_def)
  have "log_moves (gh_replay g) (gh_replay (token_call (hub_step x) g))"
    by (simp add: token_call_def Some Let_def hub_step_moves)
  then obtain H' where "rl_rel (gh_replay (token_call (hub_step x) g)) H'" "h_frames H' GLOBAL_DOMAIN = h_frames H GLOBAL_DOMAIN"
      "h_wall H' GLOBAL_DOMAIN = h_wall H GLOBAL_DOMAIN" "serving H'"
      "same_config (gh_replay g) (gh_replay (token_call (hub_step x) g))"
    using moves_history [OF _ H(1)] moves_config H(2) by blast
  then show ?thesis using assms H by (auto simp: pub_ok_def same_config_def)
qed (simp add: token_call_def assms)

lemmas pub_token_ops = pub_token [of _ _ _ "PartUpdated t props" for t props, unfolded hub_step.simps]
  pub_token [of _ _ _ "PartDelta t props" for t props, unfolded hub_step.simps]
  pub_token [of _ _ _ "PartRemoved t sid mid pid" for t sid mid pid, unfolded hub_step.simps]
  pub_token [of _ _ _ "MessageRemoved t sid mid" for t sid mid, unfolded hub_step.simps]
  pub_token [of _ _ _ "SessionStatus t sid st" for t sid st, unfolded hub_step.simps]
  pub_token [of _ _ _ "SessionDeleted t sid" for t sid, unfolded hub_step.simps]
  pub_token [of _ _ _ UpstreamReconnect, unfolded hub_step.simps]

lemma pub_observe [simp]: "pub_ok w epoch (observe_directory d g) = pub_ok w epoch g"
  by (rule pub_ok_cong) simp_all

lemma pub_digest: "pub_ok w epoch g \<Longrightarrow> pub_ok w epoch (emit_digest t p g)"
  by (simp add: emit_digest_def Let_def pub_emit split: prod.split)

lemma pub_plain [simp]:
  "pub_ok w epoch (put_entry sid e g) = pub_ok w epoch g" "pub_ok w epoch (g\<lparr>gh_pending := p\<rparr>) = pub_ok w epoch g"
  "pub_ok w epoch (g\<lparr>gh_sticky := s\<rparr>) = pub_ok w epoch g" "pub_ok w epoch (received d g) = pub_ok w epoch g"
  "pub_ok w epoch (g\<lparr>gh_revision := v\<rparr>) = pub_ok w epoch g" "pub_ok w epoch (g\<lparr>gh_retired := rt\<rparr>) = pub_ok w epoch g"
  "pub_ok w epoch (g\<lparr>gh_qp_last_activity := q\<rparr>) = pub_ok w epoch g"
  "pub_ok w epoch (g\<lparr>gh_tombstones := tb\<rparr>) = pub_ok w epoch g" "pub_ok w epoch (g\<lparr>gh_last_updated_at := lu\<rparr>) = pub_ok w epoch g"
  "pub_ok w epoch (prune_retired_messages n g) = pub_ok w epoch g" "pub_ok w epoch (prune_last_updated_at g) = pub_ok w epoch g"
  "pub_ok w epoch (prune_sticky_last_error g) = pub_ok w epoch g" "pub_ok w epoch (prune_deleted_tombstones g) = pub_ok w epoch g"
  "pub_ok w epoch (put_all x g) = pub_ok w epoch g" "pub_ok w epoch (g\<lparr>gh_upstream_events_total := u\<rparr>) = pub_ok w epoch g"
  "pub_ok w epoch (record_dropped_event tt v' g) = pub_ok w epoch g"
  by (rule pub_ok_cong; simp add: prune_retired_messages_def prune_last_updated_at_def prune_sticky_last_error_def
      prune_deleted_tombstones_def record_dropped_event_def Let_def)+

lemma pub_flush_sid: "pub_ok w epoch g \<Longrightarrow> pub_ok w epoch (gh_flush_sid t sid g)"
  by (simp add: gh_flush_sid_def pub_digest split: option.split)

lemma pub_flush: "pub_ok w epoch g \<Longrightarrow> pub_ok w epoch (gh_flush t g)"
proof -
  assume "pub_ok w epoch g"
  moreover have "pub_ok w epoch g' \<Longrightarrow> pub_ok w epoch (fold (emit_digest t) ps g')" for ps g'
    by (induction ps arbitrary: g') (simp_all add: pub_digest)
  ultimately show ?thesis by (simp add: gh_flush_def Let_def)
qed

lemma pub_bump [simp]: "pub_ok w epoch (bump_message_revision t sid d m g) = pub_ok w epoch g"
  using bump_message_revision_eq [of t sid d m g] by auto

lemma pub_immediate: "pub_ok w epoch g \<Longrightarrow> pub_ok w epoch (publish_immediate t et d props g)"
  by (simp add: publish_immediate_def Let_def pub_emit pub_flush_sid split: option.split json.split)

lemma pub_session_events:
  assumes "pub_ok w epoch g"
  shows "pub_ok w epoch (session_status_event t sid d props g)" "pub_ok w epoch (session_deleted_event t sid d g)"
    "pub_ok w epoch (session_updated_event sid d props g)"
  using assms by (simp_all add: session_status_event_def session_deleted_event_def session_updated_event_def Let_def
      pub_flush_sid pub_token_ops split: option.split)

lemma pub_session: "pub_ok w epoch g \<Longrightarrow> pub_ok w epoch (publish_session t et p d props g)"
  by (simp add: publish_session_def pub_session_events split: option.split)

lemma pub_error: "pub_ok w epoch g \<Longrightarrow> pub_ok w epoch (publish_error iso_ok t d props g)"
  by (simp add: publish_error_def Let_def pub_emit pub_flush_sid split: option.split)

lemma pub_part:
  assumes "pub_ok w epoch g"
  shows "pub_ok w epoch (publish_part t et d props g)"
proof -
  have c: "pub_ok w epoch (part_changed_event t d ids f g)" if "pub_ok w epoch (token_call f g)" for ids f
    using assms that by (simp add: part_changed_event_def split: prod.split)
  have r: "pub_ok w epoch (message_removed_event t sid mid g)" for sid mid
    using assms by (simp add: message_removed_event_def Let_def pub_token_ops split: option.split)
  show ?thesis
    using assms c [OF pub_token_ops(1) [OF assms]] c [OF pub_token_ops(3) [OF assms]] r
    by (simp add: publish_part_def Let_def pub_token_ops split: option.split json.split)
qed

lemma pub_publish: "pub_ok w epoch g \<Longrightarrow> pub_ok w epoch (snd (publish iso_ok t ev g))"
  by (cases rule: publish_branches [of iso_ok t ev g])
    (simp_all add: pub_immediate pub_session pub_error pub_part publish_message_def Let_def split: option.split)

lemma pub_notify: "pub_ok w epoch g \<Longrightarrow> pub_ok w epoch (notify_upstream_loss g) \<and>
    (gh_emitted g \<noteq> [] \<longrightarrow> pub_ok (int (length (gh_emitted g))) epoch (notify_upstream_loss g))"
proof -
  assume p: "pub_ok w epoch g"
  let ?g1 = "resync_all g"
  let ?g2 = "?g1\<lparr>gh_replay := write_barrier (gh_replay ?g1) None\<rparr>"
  have p1: "pub_ok w epoch ?g1" and em: "gh_emitted ?g1 = gh_emitted g" using p by (simp_all add: resync_all_def)
  then obtain H where H: "rl_rel (gh_replay ?g1) H" "serving H" "h_frames H GLOBAL_DOMAIN = map snd (gh_emitted g)"
      "w \<le> h_wall H GLOBAL_DOMAIN"
    by (auto simp: pub_ok_def)
  define H' where "H' = h_step (Op_Barrier None) H"
  have rel: "rl_rel (write_barrier (gh_replay ?g1) None) H'"
    using rl_step_rel [OF H(1), of "Op_Barrier None"] by (simp add: H'_def)
  have cfg: "rl_epoch (write_barrier (gh_replay ?g1) None) = rl_epoch (gh_replay ?g1)"
    using rl_step_config [of "gh_replay ?g1" "Op_Barrier None" "gh_replay ?g1"] by (simp add: same_config_def)
  have dom: "GLOBAL_DOMAIN \<in> h_created H \<longleftrightarrow> h_wall H GLOBAL_DOMAIN \<noteq> - 1 \<or> h_frames H GLOBAL_DOMAIN \<noteq> [] \<or> GLOBAL_DOMAIN \<in> h_created H"
      "h_wall H GLOBAL_DOMAIN \<le> int (length (h_frames H GLOBAL_DOMAIN)) \<or> GLOBAL_DOMAIN \<notin> h_created H"
    using rl_sim_dom [of "gh_replay ?g1" H GLOBAL_DOMAIN] H(1)
    by (auto simp: rl_rel_def dom_rel_def ds_rel_def split: option.splits)
  have h': "serving H'" "h_frames H' GLOBAL_DOMAIN = map snd (gh_emitted g)" "w \<le> h_wall H' GLOBAL_DOMAIN"
      "gh_emitted g \<noteq> [] \<Longrightarrow> int (length (gh_emitted g)) \<le> h_wall H' GLOBAL_DOMAIN"
    using H dom by (auto simp: H'_def serving_def)
  have p2: "pub_ok w' epoch ?g2" if "w' \<le> h_wall H' GLOBAL_DOMAIN" for w'
    using p1 rel h' cfg that em by (auto simp: pub_ok_def)
  have "pub_ok w' epoch (notify_upstream_loss g)" if "w' \<le> h_wall H' GLOBAL_DOMAIN" for w'
    unfolding notify_upstream_loss_def Let_def fire_callbacks_def
    using pub_token_ops(7) [OF p2 [OF that]] by (subst pub_ok_cong [where g = "token_call on_upstream_reconnect ?g2"]) simp_all
  then show ?thesis using h'(3,4) by blast
qed

lemma pub_step:
  assumes "pub_ok w epoch g"
  shows "pub_ok w epoch (gh_step iso_ok x g)"
proof -
  have same: "pub_ok w epoch g'" if "gh_replay g' = gh_replay g" "gh_emitted g' = gh_emitted g" for g'
    using pub_ok_cong [OF that] assms by simp
  show ?thesis
    by (cases x)
      (use assms in \<open>simp_all add: pub_publish pub_flush pub_notify idle_notify pub_token heartbeat_tick_def same
        gh_subscribe_def gh_unsubscribe_def subscriber_turn_def Let_def split: option.split\<close>)
qed

interpretation pub_sys: invariant_system "gh_step iso_ok" "\<lambda>_ _. True" "pub_ok w epoch" for iso_ok w epoch
  by unfold_locales (rule pub_step)

lemma started_pub:
  assumes "new_replay_log epoch nonce mc mb ttl size_of dflt = Inr l" and "\<forall>f. rl_size_of l f \<noteq> None"
  shows "pub_ok (- 1) (rl_epoch l) (started_hub limits dumps dir_ok allowlist turns l caps)"
  using new_replay_log_rel [OF assms(1)] assms(2) unfolding pub_ok_def
  by (auto simp: serving_def h_init_def intro!: exI [of _ "h_init (rl_size_of l)"])

lemma demo_token_log_new:
  "new_replay_log (Some ''0123456789abcdef'') '''' 100 1000 (Finite 30) (Some (\<lambda>_. Some 1)) (\<lambda>_. None) = Inr demo_token_log"
proof -
  have "epoch_re_match ''0123456789abcdef''" by code_simp
  then show ?thesis by (simp add: new_replay_log_def pyfloat_le_0_def pyfloat_isfinite_def demo_token_log_def)
qed

section \<open>Properties\<close>

text \<open>
  C24. Nothing that the control plane published is lost or changed on the way to a reconnecting
  client: whatever the hubs did to the shared log, when the log answers a cursor of the global
  stream with frames, these are exactly the frames that were published after it, in order, with
  the ids that were put on the wire.
\<close>

theorem global_frames_replayable:
  assumes "new_replay_log epoch nonce mc mb ttl size_of dflt = Inr l" and "\<forall>f. rl_size_of l f \<noteq> None"
    and "g = fold (gh_step iso_ok) ops (started_hub limits dumps dir_ok allowlist turns l caps)"
    and "fst (replay (gh_replay g) GLOBAL_DOMAIN q ep now) = Inr (ReplayFrames es)"
  shows "map e_payload es = drop (nat q) (map snd (gh_emitted g)) \<and>
    map (\<lambda>e. id_line GLOBAL_DOMAIN (rl_epoch l) (e_seq e)) es = drop (nat q) (map fst (gh_emitted g)) \<and> ep = Some (rl_epoch l)"
proof -
  have "pub_ok (- 1) (rl_epoch l) g"
    using pub_sys.inv_run [OF started_pub [OF assms(1,2)] ok_run_True] by (simp add: assms(3))
  then obtain H where H: "rl_rel (gh_replay g) H" "h_frames H GLOBAL_DOMAIN = map snd (gh_emitted g)"
    and ep: "rl_epoch (gh_replay g) = rl_epoch l"
    and ids: "map fst (gh_emitted g) = map (id_line GLOBAL_DOMAIN (rl_epoch l)) [1..int (length (gh_emitted g))]"
    by (auto simp: pub_ok_def)
  note r = replay_frames_history [OF H(1) assms(4)]
  have q: "0 \<le> q" using assms(4) by (auto simp: replay_def split: if_splits)
  have "map (\<lambda>e. id_line GLOBAL_DOMAIN (rl_epoch l) (e_seq e)) es = map (id_line GLOBAL_DOMAIN (rl_epoch l)) (map e_seq es)"
    by simp
  also have "map e_seq es = drop (nat q) [1..int (length (gh_emitted g))]"
    using r(2) q by (simp add: H(2) drop_upto add.commute)
  finally show ?thesis using r(1,5) H(2) ids ep by (simp add: drop_map)
qed

theorem global_frames_replayable_witness:
  "map e_payload (case fst (replay (gh_replay (fold (gh_step (\<lambda>_. True)) demo_updates demo_gh)) ''g'' 1 (Some ''0123456789abcdef'') 9) of
     Inr (ReplayFrames es) \<Rightarrow> es | _ \<Rightarrow> []) =
   drop 1 (map snd (gh_emitted (fold (gh_step (\<lambda>_. True)) demo_updates demo_gh))) \<and>
   length (gh_emitted (fold (gh_step (\<lambda>_. True)) demo_updates demo_gh)) = 2"
proof
  show "length (gh_emitted (fold (gh_step (\<lambda>_. True)) demo_updates demo_gh)) = 2" by code_simp
  let ?r = "fst (replay (gh_replay (fold (gh_step (\<lambda>_. True)) demo_updates demo_gh)) ''g'' 1 (Some ''0123456789abcdef'') 9)"
  have "(case ?r of Inr (ReplayFrames es) \<Rightarrow> True | _ \<Rightarrow> False)" by code_simp
  then obtain es where es: "?r = Inr (ReplayFrames es)" by (auto split: sum.splits replay_outcome.splits)
  have sz: "\<forall>f. rl_size_of demo_token_log f \<noteq> None" by (simp add: demo_token_log_def)
  from global_frames_replayable [OF demo_token_log_new sz, where limits = "(10, 1000, 1000)" and dumps = "\<lambda>_. ''{}''"
      and dir_ok = "\<lambda>_ _. True" and allowlist = None and turns = None and caps = None, folded demo_gh_def, OF refl es]
  show "map e_payload (case ?r of Inr (ReplayFrames es) \<Rightarrow> es | _ \<Rightarrow> []) =
   drop 1 (map snd (gh_emitted (fold (gh_step (\<lambda>_. True)) demo_updates demo_gh)))" unfolding es by simp
qed

text \<open>
  C25. After a loss of the upstream connection no client is told that it is up to date: a cursor that
  was issued before the loss is answered with a resync for ever after, whatever happens later and
  although the frames before it may still be in the log.
\<close>

theorem loss_forces_resync:
  assumes "new_replay_log epoch nonce mc mb ttl size_of dflt = Inr l" and "\<forall>f. rl_size_of l f \<noteq> None"
    and "g1 = fold (gh_step iso_ok) ops (started_hub limits dumps dir_ok allowlist turns l caps)"
    and "g2 = fold (gh_step iso_ok) ops' (notify_upstream_loss g1)"
    and "1 \<le> q" and "q \<le> int (length (gh_emitted g1))"
  shows "\<exists>reason. fst (replay (gh_replay g2) GLOBAL_DOMAIN q ep now) = Inr (ReplayResync reason)"
proof -
  have "pub_ok (- 1) (rl_epoch l) g1"
    using pub_sys.inv_run [OF started_pub [OF assms(1,2)] ok_run_True] by (simp add: assms(3))
  moreover have "gh_emitted g1 \<noteq> []" using assms(5,6) by auto
  ultimately have "pub_ok (int (length (gh_emitted g1))) (rl_epoch l) (notify_upstream_loss g1)" using pub_notify by blast
  then have "pub_ok (int (length (gh_emitted g1))) (rl_epoch l) g2"
    using pub_sys.inv_run [OF _ ok_run_True] by (simp add: assms(4))
  then obtain H where H: "rl_rel (gh_replay g2) H" "int (length (gh_emitted g1)) \<le> h_wall H GLOBAL_DOMAIN"
    by (auto simp: pub_ok_def)
  have "fst (replay (gh_replay g2) GLOBAL_DOMAIN q ep now) \<noteq> Inr (ReplayFrames es)" for es
    using replay_frames_history(3) [OF H(1), of GLOBAL_DOMAIN q ep now es] H(2) assms(6) by auto
  moreover have "\<exists>x. fst (replay (gh_replay g2) GLOBAL_DOMAIN q ep now) = Inr x"
    using replay_outcome [OF H(1) order_trans [OF zero_le_one assms(5)], of GLOBAL_DOMAIN ep now] by (rule exI)
  moreover have "fst (replay (gh_replay g2) GLOBAL_DOMAIN q ep now) \<noteq> Inr (ReplayIgnoreReset n)" for n
    using replay_outcome [OF H(1), of q GLOBAL_DOMAIN ep now] wall_le [OF H(1), of GLOBAL_DOMAIN] H(2) assms(5,6)
    by (simp split: if_splits)
  ultimately show ?thesis by (metis replay_outcome.exhaust)
qed

theorem loss_forces_resync_witness:
  "\<exists>reason. fst (replay (gh_replay (fold (gh_step (\<lambda>_. True)) demo_updates
     (notify_upstream_loss (fold (gh_step (\<lambda>_. True)) demo_updates demo_gh)))) ''g'' 2 (Some ''0123456789abcdef'') 9) =
     Inr (ReplayResync reason)"
proof -
  have sz: "\<forall>f. rl_size_of demo_token_log f \<noteq> None" by (simp add: demo_token_log_def)
  have "2 \<le> int (length (gh_emitted (fold (gh_step (\<lambda>_. True)) demo_updates demo_gh)))" by code_simp
  from loss_forces_resync [OF demo_token_log_new sz, where limits = "(10, 1000, 1000)" and dumps = "\<lambda>_. ''{}''"
      and dir_ok = "\<lambda>_ _. True" and allowlist = None and turns = None and caps = None, folded demo_gh_def, OF refl refl _ this]
  show ?thesis by simp
qed

end
