(* ===== verification/Hub_Tasks.thy ===== *)
theory Hub_Tasks
  imports Prelude
begin

text \<open>
  The asyncio tasks behind the control plane: the run / flush / heartbeat group that
  \<open>GlobalHub\<close> supervises (\<open>ensure_upstream\<close>, \<open>_cancel_live_members\<close>, \<open>_revive_after_group\<close>,
  \<open>_spawn_group\<close>, \<open>_make_group_done_callback\<close>, \<open>stop_after_grace\<close>) and the life cycle of the hub
  itself in \<open>HubRegistry\<close> (\<open>get\<close>, \<open>subscribe\<close>, \<open>unsubscribe\<close>, \<open>maybe_arm_grace_if_idle\<close>,
  \<open>_remove_hub_after_grace\<close>, \<open>close\<close>).

  A task is an entry of the pool \<open>sy_tasks\<close>; its index is its identity. It is created, started by
  the loop, and finished with an outcome; \<open>tk_cancels\<close> is the count behind \<open>Task.cancelling()\<close>, and
  \<open>tk_cb\<close> says that the done callback of a finished group member is scheduled and has not run.
  Cancelling a task that is parked in \<open>asyncio.gather\<close> cancels the children of the gather too, as
  \<open>asyncio\<close> does. Everything between two awaits of the source is one function here; what runs when
  is left open by the step relation \<open>life_step\<close>, whose steps may interleave in any order.
\<close>

section \<open>Tasks\<close>

type_synonym tid = nat
type_synonym hid = nat

datatype outcome = Cancelled | Returned | Died

datatype phase = Created | Running | Finished outcome

datatype role = Run_role | Flush_role | Heartbeat_role

text \<open>What a task executes: a member of the group \<open>(run_task, flush_task, heartbeat_task)\<close> of a hub,
  the grace timer of a hub, the waiter that rebuilds a group, or the removal of an idle hub (asleep,
  or parked in the gather of the tasks it cancelled).\<close>

datatype coro =
    Member hid role tid tid tid
  | Grace_timer hid
  | Reviver hid "tid option" "tid option" "tid option"
  | Removal hid "tid list option"

record task =
  tk_coro :: coro
  tk_phase :: phase
  tk_cancels :: nat
  tk_cb :: bool

text \<open>The task slots of one \<open>GlobalHub\<close>, its closing barrier and its subscriber set.\<close>

record hub_slots =
  hb_task :: "tid option"
  hb_flush_task :: "tid option"
  hb_heartbeat_task :: "tid option"
  hb_stop_task :: "tid option"
  hb_revive_task :: "tid option"
  hb_closing :: bool
  hb_subscribers :: "nat list"

text \<open>Where \<open>HubRegistry.close()\<close> stands: not called, awaiting the removal task, awaiting the tasks
  it cancelled, or returned.\<close>

datatype close_phase =
    Not_closing
  | Await_removal hid "tid list" tid
  | Await_pending "tid list"
  | Closed

record sys =
  sy_tasks :: "task list"
  sy_hubs :: "hub_slots list"
  sy_token_count :: int
  rg_global :: "hid option"
  rg_removal :: "tid option"
  rg_total :: int
  rg_rejected :: int
  rg_max_dir :: int
  rg_max_total :: int
  rg_next_sub :: nat
  rg_close :: close_phase
  rg_recycled :: "hid list"

abbreviation tk :: "sys \<Rightarrow> tid \<Rightarrow> task" where
  "tk s t \<equiv> sy_tasks s ! t"

abbreviation hub :: "sys \<Rightarrow> hid \<Rightarrow> hub_slots" where
  "hub s h \<equiv> sy_hubs s ! h"

definition upd_task :: "tid \<Rightarrow> (task \<Rightarrow> task) \<Rightarrow> sys \<Rightarrow> sys" where
  "upd_task t f s = s\<lparr>sy_tasks := (sy_tasks s)[t := f (tk s t)]\<rparr>"

definition upd_hub :: "hid \<Rightarrow> (hub_slots \<Rightarrow> hub_slots) \<Rightarrow> sys \<Rightarrow> sys" where
  "upd_hub h f s = s\<lparr>sy_hubs := (sy_hubs s)[h := f (hub s h)]\<rparr>"

definition add_task :: "coro \<Rightarrow> sys \<Rightarrow> sys" where
  "add_task c s =
     s\<lparr>sy_tasks := sy_tasks s @ [\<lparr>tk_coro = c, tk_phase = Created, tk_cancels = 0, tk_cb = False\<rparr>]\<rparr>"

definition task_done :: "sys \<Rightarrow> tid \<Rightarrow> bool" where
  "task_done s t = (case tk_phase (tk s t) of Finished _ \<Rightarrow> True | _ \<Rightarrow> False)"

definition task_cancelling :: "sys \<Rightarrow> tid \<Rightarrow> bool" where
  "task_cancelling s t = (tk_cancels (tk s t) > 0)"

text \<open>\<open>Task.cancel()\<close>: a no-op on a finished task; a task parked in a gather hands the request to
  every unfinished child.\<close>

definition cancel_one :: "tid \<Rightarrow> sys \<Rightarrow> sys" where
  "cancel_one t s =
     (if task_done s t then s else upd_task t (\<lambda>k. k\<lparr>tk_cancels := tk_cancels k + 1\<rparr>) s)"

definition awaited :: "coro \<Rightarrow> tid list" where
  "awaited c =
     (case c of Reviver _ r f b \<Rightarrow> List.map_filter id [r, f, b]
      | Removal _ (Some ts) \<Rightarrow> ts
      | _ \<Rightarrow> [])"

definition cancel :: "tid \<Rightarrow> sys \<Rightarrow> sys" where
  "cancel t s =
     (if tk_phase (tk s t) = Running then fold cancel_one (awaited (tk_coro (tk s t))) (cancel_one t s)
      else cancel_one t s)"

definition finish :: "tid \<Rightarrow> outcome \<Rightarrow> bool \<Rightarrow> sys \<Rightarrow> sys" where
  "finish t oc cb = upd_task t (\<lambda>k. k\<lparr>tk_phase := Finished oc, tk_cb := cb\<rparr>)"


section \<open>The task group of a hub\<close>

definition hub_has_consumers :: "sys \<Rightarrow> hid \<Rightarrow> bool" where
  "hub_has_consumers s h = (hb_subscribers (hub s h) \<noteq> [] \<or> sy_token_count s > 0)"

definition member_live :: "sys \<Rightarrow> tid option \<Rightarrow> bool" where
  "member_live s m = (case m of None \<Rightarrow> False | Some t \<Rightarrow> \<not> task_done s t \<and> \<not> task_cancelling s t)"

definition member_quiet :: "sys \<Rightarrow> tid option \<Rightarrow> bool" where
  "member_quiet s m = (case m of None \<Rightarrow> True | Some t \<Rightarrow> task_done s t)"

definition cancel_unfinished :: "tid option \<Rightarrow> sys \<Rightarrow> sys" where
  "cancel_unfinished m s =
     (case m of None \<Rightarrow> s | Some t \<Rightarrow> if task_done s t then s else cancel t s)"

definition cancel_live_members :: "tid option list \<Rightarrow> sys \<Rightarrow> sys" where
  "cancel_live_members ms = fold (\<lambda>m s. if member_live s m then cancel (the m) s else s) ms"

definition group_slots :: "hub_slots \<Rightarrow> tid option list" where
  "group_slots b = [hb_task b, hb_flush_task b, hb_heartbeat_task b]"

definition spawn_group :: "hid \<Rightarrow> sys \<Rightarrow> sys" where
  "spawn_group h s =
     (let s1 = cancel_unfinished (hb_heartbeat_task (hub s h))
                 (cancel_unfinished (hb_flush_task (hub s h)) s);
          r = length (sy_tasks s1); f = Suc r; b = Suc f
      in upd_hub h (\<lambda>x. x\<lparr>hb_task := Some r, hb_flush_task := Some f, hb_heartbeat_task := Some b\<rparr>)
           (add_task (Member h Heartbeat_role r f b)
              (add_task (Member h Flush_role r f b) (add_task (Member h Run_role r f b) s1))))"

definition disarm_stop :: "hid \<Rightarrow> sys \<Rightarrow> sys" where
  "disarm_stop h s =
     (case hb_stop_task (hub s h) of None \<Rightarrow> s
      | Some t \<Rightarrow> upd_hub h (\<lambda>x. x\<lparr>hb_stop_task := None\<rparr>) (cancel t s))"

definition arm_reviver :: "hid \<Rightarrow> sys \<Rightarrow> sys" where
  "arm_reviver h s =
     (let b = hub s h;
          s1 = cancel_live_members (group_slots b) s;
          w = length (sy_tasks s1)
      in upd_hub h (\<lambda>x. x\<lparr>hb_revive_task := Some w\<rparr>)
           (add_task (Reviver h (hb_task b) (hb_flush_task b) (hb_heartbeat_task b)) s1))"

definition ensure_upstream :: "hid \<Rightarrow> sys \<Rightarrow> sys" where
  "ensure_upstream h s =
     (if hb_closing (hub s h) then s
      else
        let s1 = disarm_stop h s
        in if hb_revive_task (hub s1 h) \<noteq> None then s1
           else if member_live s1 (hb_task (hub s1 h)) then s1
           else if list_all (member_quiet s1) (group_slots (hub s1 h)) then spawn_group h s1
           else arm_reviver h s1)"

text \<open>The end of \<open>_revive_after_group\<close>: the gather over the old group has returned (or the waiter
  was cancelled, and the gather raises once its children have finished).\<close>

definition clear_revive_if_current :: "hid \<Rightarrow> tid \<Rightarrow> sys \<Rightarrow> sys" where
  "clear_revive_if_current h t s =
     (if hb_revive_task (hub s h) = Some t then upd_hub h (\<lambda>x. x\<lparr>hb_revive_task := None\<rparr>) s else s)"

definition revive_after_group :: "hid \<Rightarrow> tid option \<Rightarrow> tid \<Rightarrow> sys \<Rightarrow> sys" where
  "revive_after_group h old_run t s =
     (if task_cancelling s t then finish t Cancelled False (clear_revive_if_current h t s)
      else
        let s1 = (if hb_closing (hub s h) then s
                  else if hb_task (hub s h) \<noteq> old_run then s
                  else if \<not> hub_has_consumers s h then s
                  else spawn_group h s)
        in finish t Returned False (clear_revive_if_current h t s1))"

definition on_done :: "tid \<Rightarrow> hid \<Rightarrow> role \<Rightarrow> tid \<Rightarrow> tid \<Rightarrow> tid \<Rightarrow> outcome \<Rightarrow> sys \<Rightarrow> sys" where
  "on_done t h ro r f b oc s0 =
     (let s = upd_task t (\<lambda>k. k\<lparr>tk_cb := False\<rparr>) s0
      in if oc = Cancelled then s
         else if hb_task (hub s h) \<noteq> Some r then s
         else if oc = Returned then
           (if ro = Run_role then cancel_unfinished (Some b) (cancel_unfinished (Some f) s) else s)
         else
           let s1 = cancel_live_members [Some r, Some f, Some b] s
           in if hub_has_consumers s1 h then ensure_upstream h s1 else s1)"

text \<open>The body of \<open>stop_after_grace\<close> once its sleep is over.\<close>

definition stop_after_grace :: "hid \<Rightarrow> tid \<Rightarrow> sys \<Rightarrow> sys" where
  "stop_after_grace h t s =
     (if task_cancelling s t then finish t Cancelled False s
      else finish t Returned False
        (if hub_has_consumers s h then s
         else fold (\<lambda>m s. case m of None \<Rightarrow> s | Some u \<Rightarrow> cancel u s) (group_slots (hub s h)) s))"

definition hub_subscribe :: "hid \<Rightarrow> sys \<Rightarrow> sys" where
  "hub_subscribe h s =
     ensure_upstream h
       (upd_hub h (\<lambda>x. x\<lparr>hb_subscribers := hb_subscribers x @ [rg_next_sub s]\<rparr>)
          (s\<lparr>rg_next_sub := Suc (rg_next_sub s)\<rparr>))"

definition hub_unsubscribe :: "hid \<Rightarrow> nat \<Rightarrow> sys \<Rightarrow> sys" where
  "hub_unsubscribe h i s =
     (let s1 = upd_hub h (\<lambda>x. x\<lparr>hb_subscribers := removeAll i (hb_subscribers x)\<rparr>) s
      in if \<not> hub_has_consumers s1 h \<and> hb_stop_task (hub s1 h) = None
         then let t = length (sy_tasks s1)
              in upd_hub h (\<lambda>x. x\<lparr>hb_stop_task := Some t\<rparr>) (add_task (Grace_timer h) s1)
         else s1)"


section \<open>The hub registry\<close>

datatype capacity_error = Limit_directory int int | Limit_total int int

definition new_hub :: hub_slots where
  "new_hub = \<lparr>hb_task = None, hb_flush_task = None, hb_heartbeat_task = None, hb_stop_task = None,
     hb_revive_task = None, hb_closing = False, hb_subscribers = []\<rparr>"

definition get_global :: "sys \<Rightarrow> hid \<times> sys" where
  "get_global s =
     (case rg_global s of Some h \<Rightarrow> (h, s)
      | None \<Rightarrow>
          let h = length (sy_hubs s)
          in (h, s\<lparr>sy_hubs := sy_hubs s @ [new_hub], rg_global := Some h\<rparr>))"

definition cancel_pending_removal :: "sys \<Rightarrow> sys" where
  "cancel_pending_removal s =
     (case rg_removal s of None \<Rightarrow> s | Some t \<Rightarrow> (cancel t s)\<lparr>rg_removal := None\<rparr>)"

definition maybe_arm_grace_if_idle :: "sys \<Rightarrow> sys" where
  "maybe_arm_grace_if_idle s =
     (case rg_global s of None \<Rightarrow> s
      | Some h \<Rightarrow>
          if hub_has_consumers s h \<or> rg_removal s \<noteq> None then s
          else (add_task (Removal h None) s)\<lparr>rg_removal := Some (length (sy_tasks s))\<rparr>)"

definition reg_subscribe :: "sys \<Rightarrow> (capacity_error + nat) \<times> sys" where
  "reg_subscribe s0 =
     (let (h, s) = get_global s0;
          current_hub = int (length (hb_subscribers (hub s h)))
      in if current_hub \<ge> rg_max_dir s
         then (Inl (Limit_directory (rg_max_dir s) current_hub), s\<lparr>rg_rejected := rg_rejected s + 1\<rparr>)
         else if rg_total s \<ge> rg_max_total s
         then (Inl (Limit_total (rg_max_total s) (rg_total s)), s\<lparr>rg_rejected := rg_rejected s + 1\<rparr>)
         else let s1 = hub_subscribe h s
              in (Inr (rg_next_sub s), s1\<lparr>rg_total := rg_total s1 + 1\<rparr>))"

definition reg_unsubscribe :: "nat \<Rightarrow> sys \<Rightarrow> sys" where
  "reg_unsubscribe i s =
     (case rg_global s of None \<Rightarrow> s
      | Some h \<Rightarrow>
          if i \<notin> set (hb_subscribers (hub s h)) then s
          else
            let s1 = upd_hub h (\<lambda>x. x\<lparr>hb_subscribers := removeAll i (hb_subscribers x)\<rparr>) s;
                n = rg_total s1 - 1
            in maybe_arm_grace_if_idle (s1\<lparr>rg_total := (if n < 0 then 0 else n)\<rparr>))"

definition clear_removal_if_current :: "tid \<Rightarrow> sys \<Rightarrow> sys" where
  "clear_removal_if_current t s = (if rg_removal s = Some t then s\<lparr>rg_removal := None\<rparr> else s)"

text \<open>The three segments of \<open>_remove_hub_after_grace\<close>: after the sleep, up to the gather; after the
  gather; and the part both paths share when there was nothing to wait for.\<close>

definition removal_tail :: "hid \<Rightarrow> tid \<Rightarrow> sys \<Rightarrow> sys" where
  "removal_tail h t s =
     (if rg_global s \<noteq> Some h \<or> hub_has_consumers s h
      then
        let s1 = clear_removal_if_current t s
        in finish t Returned False (if rg_global s1 = Some h then ensure_upstream h s1 else s1)
      else
        finish t Returned False
          (clear_removal_if_current t (s\<lparr>rg_recycled := rg_recycled s @ [h], rg_global := None\<rparr>)))"

definition removal_targets :: "hid \<Rightarrow> sys \<Rightarrow> tid list" where
  "removal_targets h s =
     filter (\<lambda>t. \<not> task_done s t)
       (List.map_filter id (group_slots (hub s h) @ [hb_stop_task (hub s h)]))"

definition cancel_fresh :: "tid \<Rightarrow> sys \<Rightarrow> sys" where
  "cancel_fresh t s = (if task_cancelling s t then s else cancel t s)"

definition removal_wake :: "hid \<Rightarrow> tid \<Rightarrow> sys \<Rightarrow> sys" where
  "removal_wake h t s =
     (if task_cancelling s t then finish t Returned False (clear_removal_if_current t s)
      else if rg_global s \<noteq> Some h \<or> hub_has_consumers s h
      then finish t Returned False (clear_removal_if_current t s)
      else
        let ts = removal_targets h s;
            s1 = fold cancel_fresh ts s
        in if ts = [] then removal_tail h t s1
           else upd_task t (\<lambda>k. k\<lparr>tk_coro := Removal h (Some ts)\<rparr>) s1)"

definition removal_gathered :: "hid \<Rightarrow> tid \<Rightarrow> sys \<Rightarrow> sys" where
  "removal_gathered h t s =
     (if task_cancelling s t then finish t Returned False (clear_removal_if_current t s)
      else removal_tail h t s)"


section \<open>Closing the registry\<close>

definition close_end :: "sys \<Rightarrow> sys" where
  "close_end s = s\<lparr>rg_global := None, rg_total := 0, rg_close := Closed\<rparr>"

definition close_cancel_pass :: "tid list \<Rightarrow> tid option \<Rightarrow> sys \<Rightarrow> sys" where
  "close_cancel_pass ts removal s =
     (let targets = filter (\<lambda>t. \<not> task_done s t \<and> \<not> task_cancelling s t) ts;
          s1 = fold cancel targets s;
          pending = targets @ filter (\<lambda>t. \<not> task_done s1 t) (case removal of None \<Rightarrow> [] | Some t \<Rightarrow> [t])
      in if pending = [] then close_end s1 else s1\<lparr>rg_close := Await_pending pending\<rparr>)"

definition close_tasks :: "hub_slots \<Rightarrow> tid list" where
  "close_tasks b = List.map_filter id (group_slots b @ [hb_stop_task b, hb_revive_task b])"

definition close_begin :: "sys \<Rightarrow> sys" where
  "close_begin s0 =
     (case rg_global s0 of None \<Rightarrow> cancel_pending_removal s0
      | Some h \<Rightarrow>
          let s = upd_hub h (\<lambda>x. x\<lparr>hb_closing := True\<rparr>) s0;
              ts = close_tasks (hub s h);
              s1 = s\<lparr>rg_removal := None\<rparr>
          in case rg_removal s of
               None \<Rightarrow> close_cancel_pass ts None s1
             | Some t \<Rightarrow>
                 if task_done s1 t \<or> task_cancelling s1 t then close_cancel_pass ts (Some t) s1
                 else if list_ex (\<lambda>u. \<not> task_done s1 u \<and> task_cancelling s1 u) ts
                 then s1\<lparr>rg_close := Await_removal h ts t\<rparr>
                 else close_cancel_pass ts (Some t) (cancel t s1))"

end
