(* ===== verification/Hub_Lifecycle.thy ===== *)
theory Hub_Lifecycle
  imports Hub_Tasks
begin

text \<open>
  The interleavings of the hub's tasks: \<open>life_step\<close> has one rule per point where a task, a done
  callback or a caller may run, and \<open>reachable\<close> closes it from a fresh registry. The invariants
  are proved by rule induction: the members of a group belong together and an unfinished member is
  in the slots of its hub (\<open>groups_ok\<close>); the waiter slot holds the only unfinished waiter of its hub
  (\<open>waiters_ok\<close>); and while the registry is not closing, a hub with consumers is served
  (\<open>hub_served\<close>).
\<close>

section \<open>The step relation\<close>

definition start_task :: "tid \<Rightarrow> sys \<Rightarrow> sys" where
  "start_task t = upd_task t (\<lambda>k. k\<lparr>tk_phase := Running\<rparr>)"

definition is_member :: "coro \<Rightarrow> bool" where
  "is_member c = (case c of Member _ _ _ _ _ \<Rightarrow> True | _ \<Rightarrow> False)"

text \<open>How a caller of the token registry reaches the hub registry: a token subscription that
  succeeds, one that fails and is rolled back, and a detach.\<close>

definition token_reach :: "sys \<Rightarrow> sys" where
  "token_reach s = (let (h, s1) = get_global s in ensure_upstream h (cancel_pending_removal s1))"

definition token_attach :: "sys \<Rightarrow> sys" where
  "token_attach s = (let s1 = token_reach s in s1\<lparr>sy_token_count := sy_token_count s1 + 1\<rparr>)"

definition token_attach_failed :: "sys \<Rightarrow> sys" where
  "token_attach_failed s = maybe_arm_grace_if_idle (token_reach s)"

definition token_detach :: "sys \<Rightarrow> sys" where
  "token_detach s = maybe_arm_grace_if_idle (s\<lparr>sy_token_count := sy_token_count s - 1\<rparr>)"

inductive life_step :: "bool \<Rightarrow> sys \<Rightarrow> sys \<Rightarrow> bool" for bare :: bool where
  start: "\<lbrakk>t < length (sy_tasks s); tk_phase (tk s t) = Created; \<not> task_cancelling s t\<rbrakk> \<Longrightarrow>
    life_step bare s (start_task t s)"
| unstarted: "\<lbrakk>t < length (sy_tasks s); tk_phase (tk s t) = Created; task_cancelling s t\<rbrakk> \<Longrightarrow>
    life_step bare s (finish t Cancelled (is_member (tk_coro (tk s t))) s)"
| member_end: "\<lbrakk>t < length (sy_tasks s); tk_coro (tk s t) = Member h ro r f b;
     tk_phase (tk s t) = Running; oc = Cancelled \<longrightarrow> task_cancelling s t;
     oc = Returned \<longrightarrow> ro = Run_role \<and> \<not> hub_has_consumers s h\<rbrakk> \<Longrightarrow>
    life_step bare s (finish t oc True s)"
| callback: "\<lbrakk>t < length (sy_tasks s); tk_coro (tk s t) = Member h ro r f b;
     tk_phase (tk s t) = Finished oc; tk_cb (tk s t)\<rbrakk> \<Longrightarrow>
    life_step bare s (on_done t h ro r f b oc s)"
| timer: "\<lbrakk>t < length (sy_tasks s); tk_coro (tk s t) = Grace_timer h; tk_phase (tk s t) = Running\<rbrakk> \<Longrightarrow>
    life_step bare s (stop_after_grace h t s)"
| revive: "\<lbrakk>t < length (sy_tasks s); tk_coro (tk s t) = Reviver h r f b; tk_phase (tk s t) = Running;
     list_all (task_done s) (awaited (Reviver h r f b))\<rbrakk> \<Longrightarrow>
    life_step bare s (revive_after_group h r t s)"
| removal: "\<lbrakk>t < length (sy_tasks s); tk_coro (tk s t) = Removal h None; tk_phase (tk s t) = Running\<rbrakk> \<Longrightarrow>
    life_step bare s (removal_wake h t s)"
| gathered: "\<lbrakk>t < length (sy_tasks s); tk_coro (tk s t) = Removal h (Some ts);
     tk_phase (tk s t) = Running; list_all (task_done s) ts\<rbrakk> \<Longrightarrow>
    life_step bare s (removal_gathered h t s)"
| peek: "life_step bare s (snd (get_global s))"
| subscribe: "life_step bare s (snd (reg_subscribe s))"
| unsubscribe: "life_step bare s (reg_unsubscribe i s)"
| token_in: "life_step bare s (token_attach s)"
| token_failed: "life_step bare s (token_attach_failed s)"
| token_out: "sy_token_count s > 0 \<Longrightarrow> life_step bare s (token_detach s)"
| idle_check: "life_step bare s (maybe_arm_grace_if_idle s)"
| closing: "rg_close s = Not_closing \<Longrightarrow> life_step bare s (close_begin s)"
| close_removal: "\<lbrakk>rg_close s = Await_removal h ts t; task_done s t\<rbrakk> \<Longrightarrow>
    life_step bare s (close_cancel_pass ts None s)"
| close_pending: "\<lbrakk>rg_close s = Await_pending ts; list_all (task_done s) ts\<rbrakk> \<Longrightarrow>
    life_step bare s (close_end s)"
| bare_unsubscribe: "\<lbrakk>bare; h < length (sy_hubs s)\<rbrakk> \<Longrightarrow> life_step bare s (hub_unsubscribe h i s)"

definition fresh_sys :: "int \<Rightarrow> int \<Rightarrow> sys" where
  "fresh_sys per_dir tot =
     \<lparr>sy_tasks = [], sy_hubs = [], sy_token_count = 0, rg_global = None, rg_removal = None,
      rg_total = 0, rg_rejected = 0, rg_max_dir = per_dir, rg_max_total = tot, rg_next_sub = 0,
      rg_close = Not_closing, rg_recycled = []\<rparr>"

inductive reachable :: "bool \<Rightarrow> sys \<Rightarrow> bool" for bare :: bool where
  fresh: "reachable bare (fresh_sys per_dir tot)"
| step: "reachable bare s \<Longrightarrow> life_step bare s s' \<Longrightarrow> reachable bare s'"


section \<open>What a cancellation touches\<close>

text \<open>\<open>core\<close> forgets the cancellation counts; every cancelling operation keeps it.\<close>

definition core :: "sys \<Rightarrow> sys" where
  "core s = s\<lparr>sy_tasks := map (\<lambda>k. k\<lparr>tk_cancels := 0\<rparr>) (sy_tasks s)\<rparr>"

definition touches :: "tid set \<Rightarrow> sys \<Rightarrow> sys \<Rightarrow> bool" where
  "touches T s s' \<longleftrightarrow> core s' = core s \<and> (\<forall>u. u \<notin> T \<longrightarrow> u < length (sy_tasks s) \<longrightarrow> tk s' u = tk s u)"

lemma core_fields:
  assumes "core s' = core s"
  shows "sy_hubs s' = sy_hubs s" "sy_token_count s' = sy_token_count s" "rg_global s' = rg_global s"
    "rg_removal s' = rg_removal s" "rg_total s' = rg_total s" "rg_rejected s' = rg_rejected s"
    "rg_max_dir s' = rg_max_dir s" "rg_max_total s' = rg_max_total s"
    "rg_next_sub s' = rg_next_sub s" "rg_close s' = rg_close s" "rg_recycled s' = rg_recycled s"
    "length (sy_tasks s') = length (sy_tasks s)"
  using assms by (cases s; cases s'; auto simp: core_def dest: map_eq_imp_length_eq)+

lemma core_task:
  assumes "core s' = core s" and "t < length (sy_tasks s)"
  shows "tk_coro (tk s' t) = tk_coro (tk s t)" "tk_phase (tk s' t) = tk_phase (tk s t)"
    "tk_cb (tk s' t) = tk_cb (tk s t)"
proof -
  have l: "length (sy_tasks s') = length (sy_tasks s)" using assms(1) by (rule core_fields)
  have "sy_tasks (core s') ! t = sy_tasks (core s) ! t" using assms by simp
  hence "(tk s' t)\<lparr>tk_cancels := 0\<rparr> = (tk s t)\<lparr>tk_cancels := 0\<rparr>"
    using assms(2) l by (simp add: core_def)
  thus "tk_coro (tk s' t) = tk_coro (tk s t)" "tk_phase (tk s' t) = tk_phase (tk s t)"
    "tk_cb (tk s' t) = tk_cb (tk s t)"
    by (cases "tk s' t"; cases "tk s t"; simp)+
qed

lemma touches_refl [intro, simp]: "touches T s s"
  by (simp add: touches_def)

lemma touches_trans [trans]:
  assumes "touches T s s'" and "touches U s' s''"
  shows "touches (T \<union> U) s s''"
  using assms core_fields(12)[of s' s] by (auto simp: touches_def)

lemma touches_mono: "touches T s s' \<Longrightarrow> T \<subseteq> U \<Longrightarrow> touches U s s'"
  by (auto simp: touches_def)

lemma map_update_same:
  assumes "g x = g (xs ! i)"
  shows "map g (xs[i := x]) = map g xs"
  using assms by (cases "i < length xs") (simp_all add: map_update list_update_same_conv list_update_beyond)

lemma touches_cancel_one: "touches {t} s (cancel_one t s)"
  by (auto simp: touches_def cancel_one_def upd_task_def core_def map_update_same)

lemma touches_fold:
  assumes "\<And>x s. x \<in> set xs \<Longrightarrow> touches T s (g x s)"
  shows "touches T s (fold g xs s)"
  using assms
proof (induction xs arbitrary: s)
  case (Cons x xs)
  have "touches T s (g x s)" using Cons.prems by simp
  moreover have "touches T (g x s) (fold g xs (g x s))" using Cons by simp
  ultimately show ?case using touches_trans[of T s "g x s" T] by simp
qed simp

lemma touches_cancel: "touches (insert t (set (awaited (tk_coro (tk s t))))) s (cancel t s)"
proof -
  have 1: "touches {t} s (cancel_one t s)" by (rule touches_cancel_one)
  have "touches (set xs) s' (fold cancel_one xs s')" for xs s'
    by (rule touches_fold) (blast intro: touches_mono touches_cancel_one)
  with 1 show ?thesis
    using touches_trans[OF 1] by (auto simp: cancel_def intro: touches_mono)
qed

lemmas core_cancel = touches_cancel[THEN touches_def[THEN iffD1], THEN conjunct1]

text \<open>Group members and grace timers await no other task: cancelling one touches it alone.\<close>

definition leaf :: "sys \<Rightarrow> tid \<Rightarrow> bool" where
  "leaf s t \<longleftrightarrow>
     (case tk_coro (tk s t) of Member _ _ _ _ _ \<Rightarrow> True | Grace_timer _ \<Rightarrow> True | _ \<Rightarrow> False)"

lemma leaf_awaited: "leaf s t \<Longrightarrow> awaited (tk_coro (tk s t)) = []"
  by (auto simp: leaf_def awaited_def split: coro.splits)

definition leaves :: "sys \<Rightarrow> tid set \<Rightarrow> bool" where
  "leaves s T \<longleftrightarrow> (\<forall>t\<in>T. t < length (sy_tasks s) \<and> leaf s t)"

lemma leaves_core:
  assumes "core s' = core s"
  shows "leaves s' T = leaves s T"
  by (simp add: leaves_def leaf_def core_fields(12)[OF assms] core_task(1)[OF assms] cong: conj_cong)

lemma leaves_touches: "touches U s s' \<Longrightarrow> leaves s' T = leaves s T"
  by (rule leaves_core) (simp add: touches_def)

lemma touches_cancel_leaf: "leaves s {t} \<Longrightarrow> touches {t} s (cancel t s)"
  using touches_cancel[of t s] by (simp add: leaves_def leaf_awaited)

lemma touches_fold_leaf:
  assumes "leaves s T"
    and "\<And>x s'. x \<in> set xs \<Longrightarrow> leaves s' T \<Longrightarrow> touches T s' (g x s')"
  shows "touches T s (fold g xs s)"
  using assms
proof (induction xs arbitrary: s)
  case (Cons x xs)
  have 1: "touches T s (g x s)" using Cons.prems by simp
  hence "leaves (g x s) T" using leaves_touches Cons.prems(1) by blast
  hence "touches T (g x s) (fold g xs (g x s))" using Cons by simp
  with 1 show ?case using touches_trans[of T s "g x s" T] by simp
qed simp

lemma touches_member:
  "leaves s T \<Longrightarrow> t \<in> T \<Longrightarrow> touches T s (cancel t s)"
  by (rule touches_mono[OF touches_cancel_leaf]) (auto simp: leaves_def)

lemma touches_unfinished:
  "leaves s T \<Longrightarrow> set_option m \<subseteq> T \<Longrightarrow> touches T s (cancel_unfinished m s)"
  by (auto simp: cancel_unfinished_def touches_member split: option.splits)

lemma touches_live_members:
  "leaves s T \<Longrightarrow> (\<Union>m\<in>set ms. set_option m) \<subseteq> T \<Longrightarrow> touches T s (cancel_live_members ms s)"
  unfolding cancel_live_members_def
  by (rule touches_fold_leaf) (auto simp: member_live_def split: option.splits intro!: touches_member)

lemma touches_fresh:
  "leaves s T \<Longrightarrow> set ts \<subseteq> T \<Longrightarrow> touches T s (fold cancel_fresh ts s)"
  by (rule touches_fold_leaf) (auto simp: cancel_fresh_def touches_member)

lemma touches_slots:
  "leaves s T \<Longrightarrow> (\<Union>m\<in>set ms. set_option m) \<subseteq> T \<Longrightarrow>
   touches T s (fold (\<lambda>m s. case m of None \<Rightarrow> s | Some u \<Rightarrow> cancel u s) ms s)"
  by (rule touches_fold_leaf) (auto split: option.splits intro!: touches_member)

lemma core_fold_cancel: "core (fold cancel ts s) = core s"
  by (induction ts arbitrary: s) (simp_all add: core_cancel)

section \<open>Groups belong together\<close>

fun pick :: "role \<Rightarrow> tid \<Rightarrow> tid \<Rightarrow> tid \<Rightarrow> tid" where
  "pick Run_role r f b = r"
| "pick Flush_role r f b = f"
| "pick Heartbeat_role r f b = b"

text \<open>The group slots of a hub are empty or hold the three members of one group.\<close>

definition group_at :: "sys \<Rightarrow> hid \<Rightarrow> tid \<Rightarrow> tid \<Rightarrow> tid \<Rightarrow> bool" where
  "group_at s h r f b \<longleftrightarrow>
     r < length (sy_tasks s) \<and> f < length (sy_tasks s) \<and> b < length (sy_tasks s) \<and>
     tk_coro (tk s r) = Member h Run_role r f b \<and> tk_coro (tk s f) = Member h Flush_role r f b \<and>
     tk_coro (tk s b) = Member h Heartbeat_role r f b"

definition slots_ok :: "sys \<Rightarrow> hid \<Rightarrow> bool" where
  "slots_ok s h \<longleftrightarrow>
     (group_slots (hub s h) = [None, None, None] \<or>
      (\<exists>r f b. group_slots (hub s h) = [Some r, Some f, Some b] \<and> group_at s h r f b)) \<and>
     (\<forall>t. hb_stop_task (hub s h) = Some t \<longrightarrow>
        t < length (sy_tasks s) \<and> tk_coro (tk s t) = Grace_timer h) \<and>
     (\<forall>t. hb_revive_task (hub s h) = Some t \<longrightarrow>
        t < length (sy_tasks s) \<and> (\<exists>r f b. tk_coro (tk s t) = Reviver h r f b))"

definition task_ok :: "sys \<Rightarrow> tid \<Rightarrow> bool" where
  "task_ok s t \<longleftrightarrow>
     (case tk_coro (tk s t) of
        Member h ro r f b \<Rightarrow>
          h < length (sy_hubs s) \<and> t = pick ro r f b \<and> group_at s h r f b \<and>
          (\<not> task_done s t \<longrightarrow> hb_task (hub s h) = Some r)
      | Reviver h r f b \<Rightarrow>
          h < length (sy_hubs s) \<and>
          (\<exists>r' f' b'. r = Some r' \<and> f = Some f' \<and> b = Some b' \<and> group_at s h r' f' b')
      | Removal h ts \<Rightarrow>
          h < length (sy_hubs s) \<and> leaves s (set (case ts of None \<Rightarrow> [] | Some xs \<Rightarrow> xs))
      | Grace_timer h \<Rightarrow> h < length (sy_hubs s))"

definition groups_ok :: "sys \<Rightarrow> bool" where
  "groups_ok s \<longleftrightarrow>
     (\<forall>h<length (sy_hubs s). slots_ok s h) \<and> (\<forall>t<length (sy_tasks s). task_ok s t) \<and>
     (\<forall>t. rg_removal s = Some t \<longrightarrow>
        t < length (sy_tasks s) \<and> (\<exists>h ts. tk_coro (tk s t) = Removal h ts)) \<and>
     (\<forall>h. rg_global s = Some h \<longrightarrow> h < length (sy_hubs s))"

lemma task_done_core:
  assumes "core s' = core s" and "t < length (sy_tasks s)"
  shows "task_done s' t = task_done s t"
  unfolding task_done_def core_task(2)[OF assms] by (rule refl)

text \<open>A change that keeps every old task's coroutine, only finishes tasks and keeps the run slots:
  the facts about old tasks survive.\<close>

definition extends :: "sys \<Rightarrow> sys \<Rightarrow> bool" where
  "extends s s' \<longleftrightarrow>
     length (sy_tasks s) \<le> length (sy_tasks s') \<and> length (sy_hubs s) \<le> length (sy_hubs s') \<and>
     (\<forall>t<length (sy_tasks s). tk_coro (tk s' t) = tk_coro (tk s t) \<and>
        (task_done s t \<longrightarrow> task_done s' t))"

lemma extends_core:
  assumes "core s' = core s"
  shows "extends s s'"
  by (simp add: extends_def core_fields(1,12)[OF assms] core_task(1)[OF assms] task_done_core[OF assms])

lemma extends_trans: "extends s s' \<Longrightarrow> extends s' s'' \<Longrightarrow> extends s s''"
  by (auto simp: extends_def)

lemma extends_leaves: "extends s s' \<Longrightarrow> leaves s T \<Longrightarrow> leaves s' T"
  by (fastforce simp: extends_def leaves_def leaf_def)

lemma extends_group_at: "extends s s' \<Longrightarrow> group_at s h r f b \<Longrightarrow> group_at s' h r f b"
  by (simp add: extends_def group_at_def)

lemma extends_slots:
  assumes "extends s s'" and "slots_ok s h"
    and "group_slots (hub s' h) = group_slots (hub s h)"
    and "hb_stop_task (hub s' h) \<in> {hb_stop_task (hub s h), None}"
    and "hb_revive_task (hub s' h) \<in> {hb_revive_task (hub s h), None}"
  shows "slots_ok s' h"
proof -
  have g: "group_slots (hub s' h) = [None, None, None] \<or>
      (\<exists>r f b. group_slots (hub s' h) = [Some r, Some f, Some b] \<and> group_at s' h r f b)"
    using assms(2,3) extends_group_at[OF assms(1)] unfolding slots_ok_def by fastforce
  have t: "t < length (sy_tasks s') \<and> tk_coro (tk s' t) = tk_coro (tk s t)"
    if "t < length (sy_tasks s)" for t
    using assms(1) that by (auto simp: extends_def)
  show ?thesis using g t assms(2,4,5) unfolding slots_ok_def by auto
qed

lemma extends_task:
  assumes "extends s s'" and "task_ok s t" and "t < length (sy_tasks s)"
    and "\<And>h ro r f b. tk_coro (tk s t) = Member h ro r f b \<Longrightarrow> \<not> task_done s' t \<Longrightarrow>
      \<not> task_done s t \<Longrightarrow> hb_task (hub s h) = Some r \<Longrightarrow> hb_task (hub s' h) = Some r"
  shows "task_ok s' t"
proof -
  have c: "tk_coro (tk s' t) = tk_coro (tk s t)" "task_done s t \<longrightarrow> task_done s' t"
    using assms(1,3) by (simp_all add: extends_def)
  have l: "length (sy_hubs s) \<le> length (sy_hubs s')" using assms(1) by (simp add: extends_def)
  show ?thesis
    using assms(2,4) c l extends_group_at[OF assms(1)] extends_leaves[OF assms(1)]
    unfolding task_ok_def by (auto split: coro.splits)
qed

lemma upd_task_simps [simp]:
  "sy_hubs (upd_task t g s) = sy_hubs s" "sy_token_count (upd_task t g s) = sy_token_count s"
  "rg_global (upd_task t g s) = rg_global s" "rg_removal (upd_task t g s) = rg_removal s"
  "rg_total (upd_task t g s) = rg_total s" "rg_max_dir (upd_task t g s) = rg_max_dir s"
  "rg_max_total (upd_task t g s) = rg_max_total s" "rg_close (upd_task t g s) = rg_close s"
  "rg_next_sub (upd_task t g s) = rg_next_sub s"
  "length (sy_tasks (upd_task t g s)) = length (sy_tasks s)"
  "u < length (sy_tasks s) \<Longrightarrow> tk (upd_task t g s) u = (if u = t then g (tk s t) else tk s u)"
  by (auto simp: upd_task_def)

lemma upd_hub_simps [simp]:
  "sy_tasks (upd_hub h g s) = sy_tasks s" "sy_token_count (upd_hub h g s) = sy_token_count s"
  "rg_global (upd_hub h g s) = rg_global s" "rg_removal (upd_hub h g s) = rg_removal s"
  "rg_total (upd_hub h g s) = rg_total s" "rg_max_dir (upd_hub h g s) = rg_max_dir s"
  "rg_max_total (upd_hub h g s) = rg_max_total s" "rg_close (upd_hub h g s) = rg_close s"
  "rg_next_sub (upd_hub h g s) = rg_next_sub s"
  "length (sy_hubs (upd_hub h g s)) = length (sy_hubs s)"
  "h' < length (sy_hubs s) \<Longrightarrow> hub (upd_hub h g s) h' = (if h' = h then g (hub s h) else hub s h')"
  by (auto simp: upd_hub_def)

lemma add_task_simps [simp]:
  "sy_hubs (add_task c s) = sy_hubs s" "sy_token_count (add_task c s) = sy_token_count s"
  "rg_global (add_task c s) = rg_global s" "rg_removal (add_task c s) = rg_removal s"
  "rg_total (add_task c s) = rg_total s" "rg_max_dir (add_task c s) = rg_max_dir s"
  "rg_max_total (add_task c s) = rg_max_total s" "rg_close (add_task c s) = rg_close s"
  "rg_next_sub (add_task c s) = rg_next_sub s"
  "length (sy_tasks (add_task c s)) = Suc (length (sy_tasks s))"
  "t < length (sy_tasks s) \<Longrightarrow> tk (add_task c s) t = tk s t"
  "tk (add_task c s) (length (sy_tasks s)) =
     \<lparr>tk_coro = c, tk_phase = Created, tk_cancels = 0, tk_cb = False\<rparr>"
  by (auto simp: add_task_def nth_append)

lemma task_done_upd_hub [simp]: "task_done (upd_hub h g s) t = task_done s t"
  by (simp add: task_done_def)

lemma task_done_add [simp]:
  "t < length (sy_tasks s) \<Longrightarrow> task_done (add_task c s) t = task_done s t"
  "\<not> task_done (add_task c s) (length (sy_tasks s))"
  by (simp_all add: task_done_def)

lemma task_cancelling_add [simp]:
  "t < length (sy_tasks s) \<Longrightarrow> task_cancelling (add_task c s) t = task_cancelling s t"
  "\<not> task_cancelling (add_task c s) (length (sy_tasks s))"
  by (simp_all add: task_cancelling_def)

lemma task_cancelling_upd_hub [simp]: "task_cancelling (upd_hub h g s) t = task_cancelling s t"
  by (simp add: task_cancelling_def)

lemma extends_upd_hub [simp]: "extends s (upd_hub h g s)"
  by (simp add: extends_def)

lemma extends_add_task [simp]: "extends s (add_task c s)"
  by (simp add: extends_def)

lemma extends_finish: "extends s (finish t oc cb s)"
  by (auto simp: extends_def finish_def task_done_def)

text \<open>How the invariant survives a change: old tasks keep their coroutine, group slots stay, and
  whatever is new is all right.\<close>

lemma groups_ok_change:
  assumes ok: "groups_ok s" and ext: "extends s s'"
    and slots: "\<And>h. h < length (sy_hubs s) \<Longrightarrow> group_slots (hub s' h) = group_slots (hub s h)"
    and hubs: "\<And>h. h < length (sy_hubs s') \<Longrightarrow>
      h < length (sy_hubs s) \<and> hb_stop_task (hub s' h) \<in> {hb_stop_task (hub s h), None} \<and>
        hb_revive_task (hub s' h) \<in> {hb_revive_task (hub s h), None} \<or> slots_ok s' h"
    and new: "\<And>t. t < length (sy_tasks s') \<Longrightarrow> t < length (sy_tasks s) \<or> task_ok s' t"
    and rem: "rg_removal s' \<in> {rg_removal s, None} \<or>
      (\<exists>t h ts. rg_removal s' = Some t \<and> t < length (sy_tasks s') \<and> tk_coro (tk s' t) = Removal h ts)"
    and glob: "rg_global s' \<in> {rg_global s, None} \<or>
      (\<exists>h. rg_global s' = Some h \<and> h < length (sy_hubs s'))"
  shows "groups_ok s'"
proof -
  have old: "task_ok s' t" if t: "t < length (sy_tasks s)" for t
  proof (rule extends_task[OF ext _ t])
    show "task_ok s t" using ok t by (simp add: groups_ok_def)
    fix h ro r f b
    assume "tk_coro (tk s t) = Member h ro r f b" "hb_task (hub s h) = Some r"
    moreover have "h < length (sy_hubs s)"
      using ok t calculation by (force simp: groups_ok_def task_ok_def)
    ultimately show "hb_task (hub s' h) = Some r" using slots[of h] by (simp add: group_slots_def)
  qed
  have l: "length (sy_tasks s) \<le> length (sy_tasks s')" "length (sy_hubs s) \<le> length (sy_hubs s')"
    and c: "\<And>t. t < length (sy_tasks s) \<Longrightarrow> tk_coro (tk s' t) = tk_coro (tk s t)"
    using ext by (auto simp: extends_def)
  have "slots_ok s' h" if "h < length (sy_hubs s')" for h
    using hubs[OF that] extends_slots[OF ext, of h] slots[of h] ok by (auto simp: groups_ok_def)
  moreover have "task_ok s' t" if "t < length (sy_tasks s')" for t
    using new[OF that] old by blast
  moreover have "t < length (sy_tasks s') \<and> (\<exists>h ts. tk_coro (tk s' t) = Removal h ts)"
    if "rg_removal s' = Some t" for t
    using rem that ok l c by (fastforce simp: groups_ok_def)
  moreover have "h < length (sy_hubs s')" if "rg_global s' = Some h" for h
    using glob that ok l by (fastforce simp: groups_ok_def)
  ultimately show ?thesis by (simp add: groups_ok_def)
qed

lemma groups_ok_core:
  assumes "groups_ok s" and "core s' = core s"
  shows "groups_ok s'"
  by (rule groups_ok_change[OF assms(1) extends_core[OF assms(2)]])
    (simp_all add: core_fields(1,3,4,12)[OF assms(2)])

lemma groups_ok_finish: "groups_ok s \<Longrightarrow> groups_ok (finish t oc cb s)"
  by (rule groups_ok_change[OF _ extends_finish]) (simp_all add: finish_def)

lemma groups_okD:
  assumes "groups_ok s"
  shows "h < length (sy_hubs s) \<Longrightarrow> slots_ok s h" "t < length (sy_tasks s) \<Longrightarrow> task_ok s t"
    "rg_global s = Some h \<Longrightarrow> h < length (sy_hubs s)"
  using assms by (simp_all add: groups_ok_def)

lemma slots_okE:
  assumes "slots_ok s h"
  obtains (empty) "group_slots (hub s h) = [None, None, None]"
  | (group) r f b where "group_slots (hub s h) = [Some r, Some f, Some b]" "group_at s h r f b"
  using assms unfolding slots_ok_def by blast

text \<open>When the slots of a hub are quiet, every member it ever had has finished.\<close>

lemma quiet_members_done:
  assumes ok: "groups_ok s" and h: "h < length (sy_hubs s)"
    and quiet: "list_all (member_quiet s) (group_slots (hub s h))"
    and t: "t < length (sy_tasks s)" and c: "tk_coro (tk s t) = Member h ro r f b"
  shows "task_done s t"
proof (rule ccontr)
  assume nd: "\<not> task_done s t"
  have tok: "t = pick ro r f b" "group_at s h r f b" "hb_task (hub s h) = Some r"
    using groups_okD(2)[OF ok t] nd by (simp_all add: task_ok_def c)
  show False
  proof (rule slots_okE[OF groups_okD(1)[OF ok h]])
    fix r' f' b'
    assume g: "group_slots (hub s h) = [Some r', Some f', Some b']" "group_at s h r' f' b'"
    hence "r' = r \<and> f' = f \<and> b' = b" using tok by (simp add: group_at_def group_slots_def)
    with g(1) quiet nd tok(1) show False by (cases ro) (simp_all add: member_quiet_def)
  qed (use tok(3) in \<open>simp add: group_slots_def\<close>)
qed

definition put_group :: "hid \<Rightarrow> sys \<Rightarrow> sys" where
  "put_group h s =
     (let r = length (sy_tasks s); f = Suc r; b = Suc f
      in upd_hub h (\<lambda>x. x\<lparr>hb_task := Some r, hb_flush_task := Some f, hb_heartbeat_task := Some b\<rparr>)
           (add_task (Member h Heartbeat_role r f b)
              (add_task (Member h Flush_role r f b) (add_task (Member h Run_role r f b) s))))"

lemma spawn_quiet:
  assumes "list_all (member_quiet s) (group_slots (hub s h))"
  shows "spawn_group h s = put_group h s"
  using assms
  by (simp add: spawn_group_def put_group_def group_slots_def member_quiet_def cancel_unfinished_def
      Let_def split: option.splits)

lemma put_group_tasks:
  shows "length (sy_tasks (put_group h s)) = length (sy_tasks s) + 3"
    and "t < length (sy_tasks s) \<Longrightarrow> tk (put_group h s) t = tk s t"
    and "group_at (put_group h s) h (length (sy_tasks s)) (Suc (length (sy_tasks s)))
      (Suc (Suc (length (sy_tasks s))))"
    and "sy_hubs (put_group h s) = (sy_hubs s)[h := (hub s h)
      \<lparr>hb_task := Some (length (sy_tasks s)), hb_flush_task := Some (Suc (length (sy_tasks s))),
       hb_heartbeat_task := Some (Suc (Suc (length (sy_tasks s))))\<rparr>]"
  by (auto simp: put_group_def Let_def group_at_def add_task_def upd_hub_def nth_append)

lemma put_group_fields [simp]:
  "sy_token_count (put_group h s) = sy_token_count s"
  "rg_global (put_group h s) = rg_global s" "rg_removal (put_group h s) = rg_removal s"
  "rg_total (put_group h s) = rg_total s" "rg_max_dir (put_group h s) = rg_max_dir s"
  "rg_max_total (put_group h s) = rg_max_total s" "rg_close (put_group h s) = rg_close s"
  "rg_next_sub (put_group h s) = rg_next_sub s"
  by (simp_all add: put_group_def Let_def)

lemma extends_put_group: "extends s (put_group h s)"
  by (simp add: extends_def put_group_tasks task_done_def)

lemma groups_ok_put_group:
  assumes ok: "groups_ok s" and h: "h < length (sy_hubs s)"
    and quiet: "list_all (member_quiet s) (group_slots (hub s h))"
  shows "groups_ok (put_group h s)"
proof -
  let ?s = "put_group h s" and ?r = "length (sy_tasks s)"
  have "slots_ok ?s h'" if h': "h' < length (sy_hubs ?s)" for h'
  proof (cases "h' = h")
    case True
    have "slots_ok s h" using groups_okD(1)[OF ok h] .
    thus ?thesis using True h put_group_tasks(3)[of h s]
      by (auto simp: slots_ok_def put_group_tasks(1,2,4) group_slots_def)
  next
    case False
    thus ?thesis
      using extends_slots[OF extends_put_group groups_okD(1)[OF ok]] h'
      by (simp add: put_group_tasks(4))
  qed
  moreover have "task_ok ?s t" if t: "t < length (sy_tasks ?s)" for t
  proof (cases "t < ?r")
    case True
    show ?thesis
    proof (rule extends_task[OF extends_put_group groups_okD(2)[OF ok True] True])
      fix h' ro r f b
      assume a: "tk_coro (tk s t) = Member h' ro r f b" "\<not> task_done s t" "hb_task (hub s h') = Some r"
      hence "h' \<noteq> h" using quiet_members_done[OF ok h quiet True] by blast
      thus "hb_task (hub ?s h') = Some r" using a by (simp add: put_group_tasks(4))
    qed
  next
    case False
    hence "t = ?r \<or> t = Suc ?r \<or> t = Suc (Suc ?r)" using t by (auto simp: put_group_tasks(1))
    thus ?thesis
      using put_group_tasks(3)[of h s] h by (auto simp: task_ok_def group_at_def put_group_tasks(4))
  qed
  moreover have "r < length (sy_tasks ?s) \<and> (\<exists>h ts. tk_coro (tk ?s r) = Removal h ts)"
    if "rg_removal ?s = Some r" for r
    using ok that by (auto simp: groups_ok_def put_group_tasks)
  ultimately show ?thesis using ok by (auto simp: groups_ok_def put_group_tasks(4))
qed

lemma core_unfinished: "core (cancel_unfinished m s) = core s"
  by (simp add: cancel_unfinished_def core_cancel split: option.splits)

lemma core_live_members: "core (cancel_live_members ms s) = core s"
  unfolding cancel_live_members_def
  by (induction ms arbitrary: s) (simp_all add: core_cancel)

lemma core_fresh: "core (fold cancel_fresh ts s) = core s"
  by (induction ts arbitrary: s) (simp_all add: core_cancel cancel_fresh_def)

lemma core_slots:
  "core (fold (\<lambda>m s. case m of None \<Rightarrow> s | Some u \<Rightarrow> cancel u s) ms s) = core s"
  by (induction ms arbitrary: s) (simp_all add: core_cancel split: option.splits)

lemmas core_ops = core_cancel core_unfinished core_live_members core_fresh core_slots core_fold_cancel

lemmas core_same = core_ops[THEN core_fields(1)] core_ops[THEN core_fields(2)]
  core_ops[THEN core_fields(3)] core_ops[THEN core_fields(4)] core_ops[THEN core_fields(5)]
  core_ops[THEN core_fields(7)] core_ops[THEN core_fields(8)] core_ops[THEN core_fields(9)]
  core_ops[THEN core_fields(10)] core_ops[THEN core_fields(12)]

declare core_same [simp]

text \<open>Updates of a hub that leave its group, timer and waiter slots alone.\<close>

lemma groups_ok_upd_hub:
  assumes "groups_ok s"
    and "\<And>x. group_slots (g x) = group_slots x"
    and "\<And>x. hb_stop_task (g x) \<in> {hb_stop_task x, None}"
    and "\<And>x. hb_revive_task (g x) \<in> {hb_revive_task x, None}"
  shows "groups_ok (upd_hub h g s)"
  by (rule groups_ok_change[OF assms(1) extends_upd_hub]) (use assms in auto)

lemma groups_ok_disarm: "groups_ok s \<Longrightarrow> groups_ok (disarm_stop h s)"
  unfolding disarm_stop_def
  by (auto split: option.splits simp: group_slots_def intro!: groups_ok_upd_hub
      groups_ok_core[OF _ core_cancel])

lemma groups_ok_add_task:
  assumes "groups_ok s" and "task_ok (add_task c s) (length (sy_tasks s))"
  shows "groups_ok (add_task c s)"
  by (rule groups_ok_change[OF assms(1) extends_add_task]) (use assms(2) in \<open>auto simp: less_Suc_eq\<close>)

lemma groups_ok_set_revive:
  assumes ok: "groups_ok s" and w: "w < length (sy_tasks s)" "tk_coro (tk s w) = Reviver h r f b"
  shows "groups_ok (upd_hub h (\<lambda>x. x\<lparr>hb_revive_task := Some w\<rparr>) s)"
proof -
  let ?s = "upd_hub h (\<lambda>x. x\<lparr>hb_revive_task := Some w\<rparr>) s"
  have h: "h < length (sy_hubs s)" using groups_okD(2)[OF ok w(1)] by (simp add: task_ok_def w(2))
  have "slots_ok ?s h"
    using groups_okD(1)[OF ok h] w h by (simp add: slots_ok_def group_slots_def group_at_def)
  thus ?thesis
    by (intro groups_ok_change[OF ok extends_upd_hub]) (auto simp: group_slots_def)
qed

lemma groups_ok_arm_reviver:
  assumes ok: "groups_ok s" and h: "h < length (sy_hubs s)"
    and busy: "\<not> list_all (member_quiet s) (group_slots (hub s h))"
  shows "groups_ok (arm_reviver h s)"
proof -
  let ?s1 = "cancel_live_members (group_slots (hub s h)) s"
  let ?c = "Reviver h (hb_task (hub s h)) (hb_flush_task (hub s h)) (hb_heartbeat_task (hub s h))"
  have ok1: "groups_ok ?s1" by (rule groups_ok_core[OF ok core_live_members])
  have "task_ok (add_task ?c ?s1) (length (sy_tasks ?s1))"
  proof (rule slots_okE[OF groups_okD(1)[OF ok h]])
    fix r f b
    assume g: "group_slots (hub s h) = [Some r, Some f, Some b]" "group_at s h r f b"
    have "group_at (add_task ?c ?s1) h r f b"
      using extends_group_at[OF extends_trans[OF extends_core[OF core_live_members] extends_add_task] g(2)] .
    thus ?thesis using g(1) h by (simp add: task_ok_def group_slots_def add_task_def nth_append)
  qed (use busy in \<open>simp add: member_quiet_def\<close>)
  from groups_ok_set_revive[OF groups_ok_add_task[OF ok1 this]]
  show ?thesis unfolding arm_reviver_def Let_def by (simp add: add_task_def nth_append)
qed

lemma disarm_fields [simp]:
  "length (sy_hubs (disarm_stop h s)) = length (sy_hubs s)"
  "sy_token_count (disarm_stop h s) = sy_token_count s"
  "rg_global (disarm_stop h s) = rg_global s" "rg_removal (disarm_stop h s) = rg_removal s"
  "rg_total (disarm_stop h s) = rg_total s" "rg_max_dir (disarm_stop h s) = rg_max_dir s"
  "rg_max_total (disarm_stop h s) = rg_max_total s" "rg_close (disarm_stop h s) = rg_close s"
  "rg_next_sub (disarm_stop h s) = rg_next_sub s"
  "length (sy_tasks (disarm_stop h s)) = length (sy_tasks s)"
  by (simp_all add: disarm_stop_def split: option.splits)

lemma groups_ok_ensure:
  assumes "groups_ok s" and "h < length (sy_hubs s)"
  shows "groups_ok (ensure_upstream h s)"
  using assms groups_ok_disarm[OF assms(1), of h]
  by (auto simp: ensure_upstream_def Let_def spawn_quiet intro: groups_ok_put_group groups_ok_arm_reviver)

text \<open>Registry fields the invariant does not read, and slots that are cleared.\<close>

lemma groups_ok_fields:
  assumes "groups_ok s" and "sy_tasks s' = sy_tasks s" and "sy_hubs s' = sy_hubs s"
    and "rg_removal s' \<in> {rg_removal s, None}" and "rg_global s' \<in> {rg_global s, None}"
  shows "groups_ok s'"
  by (rule groups_ok_change[OF assms(1)]) (use assms in \<open>auto simp: extends_def task_done_def\<close>)

lemma groups_ok_phase:
  assumes "groups_ok s" and "\<not> task_done s t"
    and "\<And>k. tk_coro (g k) = tk_coro k" "\<And>k. tk_phase (g k) = tk_phase k \<or> tk_phase (g k) = Running"
  shows "groups_ok (upd_task t g s)"
proof (rule groups_ok_change[OF assms(1)])
  show "extends s (upd_task t g s)"
    using assms(2-4) by (auto simp: extends_def task_done_def)
qed auto

lemma groups_ok_cb: "groups_ok s \<Longrightarrow> groups_ok (upd_task t (\<lambda>k. k\<lparr>tk_cb := c\<rparr>) s)"
  by (erule groups_ok_change) (auto simp: extends_def task_done_def)

lemma groups_ok_clear_revive: "groups_ok s \<Longrightarrow> groups_ok (clear_revive_if_current h t s)"
  by (auto simp: clear_revive_if_current_def group_slots_def intro!: groups_ok_upd_hub)

lemma groups_ok_revive_after:
  assumes ok: "groups_ok s" and t: "t < length (sy_tasks s)" "tk_coro (tk s t) = Reviver h r f b"
    and all_done: "list_all (task_done s) (awaited (Reviver h r f b))"
  shows "groups_ok (revive_after_group h r t s)"
proof -
  have tok: "h < length (sy_hubs s)"
    "\<exists>r' f' b'. r = Some r' \<and> f = Some f' \<and> b = Some b' \<and> group_at s h r' f' b'"
    using groups_okD(2)[OF ok t(1)] by (simp_all add: task_ok_def t(2))
  have "list_all (member_quiet s) (group_slots (hub s h))" if "hb_task (hub s h) = r"
    using groups_okD(1)[OF ok tok(1)] tok(2) that all_done
    by (auto simp: slots_ok_def group_slots_def group_at_def member_quiet_def awaited_def
        map_filter_simps)
  hence "groups_ok (spawn_group h s)" if "hb_task (hub s h) = r"
    using that groups_ok_put_group[OF ok tok(1)] by (simp add: spawn_quiet)
  thus ?thesis
    using ok by (auto simp: revive_after_group_def Let_def intro!: groups_ok_finish groups_ok_clear_revive)
qed

lemma groups_ok_on_done:
  assumes ok: "groups_ok s" and t: "t < length (sy_tasks s)" "tk_coro (tk s t) = Member h ro r f b"
  shows "groups_ok (on_done t h ro r f b oc s)"
proof -
  have h: "h < length (sy_hubs s)" using groups_okD(2)[OF ok t(1)] by (simp add: task_ok_def t(2))
  show ?thesis
    using groups_ok_cb[OF ok, of t False] h
    by (auto simp: on_done_def Let_def intro!: groups_ok_ensure
        intro: groups_ok_core[OF _ core_live_members] groups_ok_core[OF _ core_unfinished])
qed

lemma groups_ok_stop_after_grace: "groups_ok s \<Longrightarrow> groups_ok (stop_after_grace h t s)"
  by (auto simp: stop_after_grace_def intro!: groups_ok_finish intro: groups_ok_core[OF _ core_slots])

lemma groups_ok_get_global:
  assumes "groups_ok s"
  shows "groups_ok (snd (get_global s))"
proof (cases "rg_global s")
  case None
  let ?s = "s\<lparr>sy_hubs := sy_hubs s @ [new_hub], rg_global := Some (length (sy_hubs s))\<rparr>"
  have "groups_ok ?s"
    by (rule groups_ok_change[OF assms])
      (auto simp: extends_def task_done_def nth_append slots_ok_def group_slots_def new_hub_def less_Suc_eq)
  thus ?thesis by (simp add: get_global_def None Let_def)
qed (simp add: get_global_def assms)

lemma get_global_hub:
  assumes "groups_ok s" and "get_global s = (h, s')"
  shows "h < length (sy_hubs s')"
  using assms by (auto simp: get_global_def Let_def groups_ok_def split: option.splits)

lemma groups_ok_cancel_removal: "groups_ok s \<Longrightarrow> groups_ok (cancel_pending_removal s)"
  by (auto simp: cancel_pending_removal_def split: option.splits
      intro: groups_ok_fields[OF groups_ok_core[OF _ core_cancel]])

lemma groups_ok_maybe_arm:
  assumes ok: "groups_ok s"
  shows "groups_ok (maybe_arm_grace_if_idle s)"
proof -
  let ?s = "\<lambda>h. (add_task (Removal h None) s)\<lparr>rg_removal := Some (length (sy_tasks s))\<rparr>"
  have "groups_ok (?s h)" if h: "rg_global s = Some h" for h
  proof (rule groups_ok_change[OF ok])
    show "extends s (?s h)" by (simp add: extends_def task_done_def)
    show "t < length (sy_tasks s) \<or> task_ok (?s h) t" if "t < length (sy_tasks (?s h))" for t
      using that groups_okD(3)[OF ok h] by (auto simp: less_Suc_eq task_ok_def leaves_def)
  qed auto
  thus ?thesis using ok by (simp add: maybe_arm_grace_if_idle_def split: option.split)
qed

lemma groups_ok_hub_subscribe:
  assumes "groups_ok s" and "h < length (sy_hubs s)"
  shows "groups_ok (hub_subscribe h s)"
proof -
  have "groups_ok (s\<lparr>rg_next_sub := n\<rparr>)" for n
    by (rule groups_ok_fields[OF assms(1)]) simp_all
  thus ?thesis using assms(2)
    by (auto simp: hub_subscribe_def group_slots_def intro!: groups_ok_ensure groups_ok_upd_hub)
qed

lemma groups_ok_reg_subscribe:
  assumes "groups_ok s"
  shows "groups_ok (snd (reg_subscribe s))"
proof -
  obtain h s1 where g: "get_global s = (h, s1)" by fastforce
  have ok: "groups_ok s1" and h: "h < length (sy_hubs s1)"
    using groups_ok_get_global[OF assms] get_global_hub[OF assms g] g by simp_all
  show ?thesis
    by (simp add: reg_subscribe_def g Let_def)
      (auto intro: groups_ok_fields[OF ok] groups_ok_fields[OF groups_ok_hub_subscribe[OF ok h]])
qed

lemma groups_ok_drop_subscriber:
  "groups_ok s \<Longrightarrow> groups_ok (upd_hub h (\<lambda>x. x\<lparr>hb_subscribers := removeAll i (hb_subscribers x)\<rparr>) s)"
  by (rule groups_ok_upd_hub) (simp_all add: group_slots_def)

lemma groups_ok_reg_unsubscribe: "groups_ok s \<Longrightarrow> groups_ok (reg_unsubscribe i s)"
  by (auto simp: reg_unsubscribe_def Let_def split: option.splits
      intro!: groups_ok_maybe_arm intro: groups_ok_fields[OF groups_ok_drop_subscriber])

lemma groups_ok_hub_unsubscribe:
  assumes "groups_ok s" and h: "h < length (sy_hubs s)"
  shows "groups_ok (hub_unsubscribe h i s)"
proof -
  let ?s1 = "upd_hub h (\<lambda>x. x\<lparr>hb_subscribers := removeAll i (hb_subscribers x)\<rparr>) s"
  let ?s2 = "add_task (Grace_timer h) ?s1" and ?t = "length (sy_tasks s)"
  have ok1: "groups_ok ?s1" by (rule groups_ok_drop_subscriber[OF assms(1)])
  have ok2: "groups_ok ?s2" 
    using groups_ok_add_task[OF ok1, of "Grace_timer h"] h by (simp add: task_ok_def add_task_def nth_append)
  have c: "?t < length (sy_tasks ?s2)" "tk_coro (tk ?s2 ?t) = Grace_timer h"
    by (simp_all add: add_task_def nth_append)
  have "slots_ok (upd_hub h (\<lambda>x. x\<lparr>hb_stop_task := Some ?t\<rparr>) ?s2) h"
    using groups_okD(1)[OF ok2, of h] c h by (simp add: slots_ok_def group_slots_def group_at_def)
  hence "groups_ok (upd_hub h (\<lambda>x. x\<lparr>hb_stop_task := Some ?t\<rparr>) ?s2)"
    by (intro groups_ok_change[OF ok2 extends_upd_hub]) (auto simp: group_slots_def)
  thus ?thesis using ok1 by (simp add: hub_unsubscribe_def Let_def)
qed

lemma groups_ok_clear_removal: "groups_ok s \<Longrightarrow> groups_ok (clear_removal_if_current t s)"
  by (auto simp: clear_removal_if_current_def intro: groups_ok_fields)

lemma groups_ok_removal_tail:
  assumes ok: "groups_ok s"
  shows "groups_ok (removal_tail h t s)"
proof -
  have 1: "groups_ok (clear_removal_if_current t s)" by (rule groups_ok_clear_removal[OF ok])
  have "groups_ok (s\<lparr>rg_recycled := x, rg_global := None\<rparr>)" for x
    by (rule groups_ok_fields[OF ok]) simp_all
  thus ?thesis
    using groups_ok_ensure[OF 1] groups_okD(3)[OF 1] 1
    by (auto simp: removal_tail_def Let_def intro!: groups_ok_finish groups_ok_clear_removal)
qed

lemma removal_targets_leaves:
  assumes "groups_ok s" and "h < length (sy_hubs s)"
  shows "leaves s (set (removal_targets h s))"
proof (rule slots_okE[OF groups_okD(1)[OF assms]])
  have stop: "leaves s (set_option (hb_stop_task (hub s h)))"
    using groups_okD(1)[OF assms] by (auto simp: slots_ok_def leaves_def leaf_def awaited_def)
  show ?thesis if "group_slots (hub s h) = [None, None, None]"
    using that stop by (auto simp: removal_targets_def map_filter_simps leaves_def split: option.splits)
  show ?thesis if "group_slots (hub s h) = [Some r, Some f, Some b]" "group_at s h r f b" for r f b
    using that stop
    by (auto simp: removal_targets_def map_filter_simps leaves_def leaf_def group_at_def awaited_def
        split: option.splits)
qed

lemma groups_ok_park_removal:
  assumes ok: "groups_ok s" and t: "t < length (sy_tasks s)" "tk_coro (tk s t) = Removal h None"
    and ts: "leaves s (set ts)"
  shows "groups_ok (upd_task t (\<lambda>k. k\<lparr>tk_coro := Removal h (Some ts)\<rparr>) s)" (is "groups_ok ?s")
proof -
  have dn [simp]: "task_done ?s u = task_done s u" for u
    using t(1) by (cases "u = t") (simp_all add: task_done_def upd_task_def)
  have tk [simp]: "tk_coro (tk ?s u) = (if u = t then Removal h (Some ts) else tk_coro (tk s u))"
    if "u < length (sy_tasks s)" for u
    using that by simp
  have grp: "group_at ?s h' r f b" if "group_at s h' r f b" for h' r f b
    using that t(2) by (auto simp: group_at_def)
  have lv: "leaves ?s T" if "leaves s T" for T
    using that t(2) unfolding leaves_def leaf_def by fastforce
  have "slots_ok ?s h'" if "h' < length (sy_hubs s)" for h'
    using groups_okD(1)[OF ok that] grp t(2) unfolding slots_ok_def by fastforce
  moreover have "task_ok ?s u" if "u < length (sy_tasks s)" for u
    using groups_okD(2)[OF ok that] t lv[OF ts] grp lv that unfolding task_ok_def
    by (auto split: coro.splits)
  ultimately show ?thesis using ok by (auto simp: groups_ok_def)
qed

lemma groups_ok_removal_wake:
  assumes ok: "groups_ok s" and t: "t < length (sy_tasks s)" "tk_coro (tk s t) = Removal h None"
  shows "groups_ok (removal_wake h t s)"
proof -
  let ?ts = "removal_targets h s"
  let ?s1 = "fold cancel_fresh ?ts s"
  have h: "h < length (sy_hubs s)" using groups_okD(2)[OF ok t(1)] by (simp add: task_ok_def t(2))
  have ok1: "groups_ok ?s1" by (rule groups_ok_core[OF ok core_fresh])
  have "leaves ?s1 (set ?ts)"
    using removal_targets_leaves[OF ok h] leaves_core[OF core_fresh] by blast
  hence "groups_ok (upd_task t (\<lambda>k. k\<lparr>tk_coro := Removal h (Some ?ts)\<rparr>) ?s1)"
    by (intro groups_ok_park_removal[OF ok1]) (simp_all add: t core_task(1)[OF core_fresh])
  thus ?thesis
    using ok by (auto simp: removal_wake_def Let_def intro!: groups_ok_finish groups_ok_clear_removal
        groups_ok_removal_tail)
qed

lemma groups_ok_removal_gathered: "groups_ok s \<Longrightarrow> groups_ok (removal_gathered h t s)"
  by (auto simp: removal_gathered_def intro!: groups_ok_finish groups_ok_clear_removal groups_ok_removal_tail)

lemma groups_ok_close_end: "groups_ok s \<Longrightarrow> groups_ok (close_end s)"
  by (erule groups_ok_fields) (simp_all add: close_end_def)

lemma groups_ok_close_pass: "groups_ok s \<Longrightarrow> groups_ok (close_cancel_pass ts m s)"
  by (auto simp: close_cancel_pass_def Let_def intro!: groups_ok_close_end
      intro: groups_ok_core[OF _ core_fold_cancel] groups_ok_fields[OF groups_ok_core[OF _ core_fold_cancel]])

lemma groups_ok_close_begin:
  assumes ok: "groups_ok s"
  shows "groups_ok (close_begin s)"
proof -
  have "groups_ok (upd_hub h (\<lambda>x. x\<lparr>hb_closing := True\<rparr>) s)" for h
    by (rule groups_ok_upd_hub[OF ok]) (simp_all add: group_slots_def)
  hence 1: "groups_ok ((upd_hub h (\<lambda>x. x\<lparr>hb_closing := True\<rparr>) s)\<lparr>rg_removal := None\<rparr>)" for h
    by (rule groups_ok_fields) simp_all
  hence 2: "groups_ok ((upd_hub h (\<lambda>x. x\<lparr>hb_closing := True\<rparr>) s)\<lparr>rg_removal := None, rg_close := c\<rparr>)" for h c
    by (rule groups_ok_fields) simp_all
  show ?thesis
    using ok 1 2 groups_ok_core[OF 1 core_cancel]
    by (simp add: close_begin_def Let_def groups_ok_cancel_removal groups_ok_close_pass split: option.split)
qed

lemma groups_ok_start:
  "groups_ok s \<Longrightarrow> tk_phase (tk s t) = Created \<Longrightarrow> groups_ok (start_task t s)"
  unfolding start_task_def by (rule groups_ok_phase) (simp_all add: task_done_def)

lemma groups_ok_token_reach:
  assumes "groups_ok s"
  shows "groups_ok (token_reach s)"
proof -
  obtain h s1 where g: "get_global s = (h, s1)" by fastforce
  have "groups_ok s1" "h < length (sy_hubs s1)"
    using groups_ok_get_global[OF assms] get_global_hub[OF assms g] g by simp_all
  thus ?thesis
    using groups_ok_ensure[OF groups_ok_cancel_removal]
    by (simp add: token_reach_def g cancel_pending_removal_def split: option.splits)
qed

lemma groups_ok_token:
  assumes "groups_ok s"
  shows "groups_ok (token_attach s)" "groups_ok (token_attach_failed s)" "groups_ok (token_detach s)"
proof -
  show "groups_ok (token_attach s)"
    unfolding token_attach_def Let_def
    by (rule groups_ok_fields[OF groups_ok_token_reach[OF assms]]) simp_all
  show "groups_ok (token_attach_failed s)"
    unfolding token_attach_failed_def by (rule groups_ok_maybe_arm[OF groups_ok_token_reach[OF assms]])
  have "groups_ok (s\<lparr>sy_token_count := c\<rparr>)" for c by (rule groups_ok_fields[OF assms]) simp_all
  thus "groups_ok (token_detach s)" by (simp add: token_detach_def groups_ok_maybe_arm)
qed

lemma groups_ok_fresh: "groups_ok (fresh_sys a b)"
  by (simp add: groups_ok_def fresh_sys_def)

lemma groups_ok_step:
  assumes "life_step bare s s'" and "groups_ok s"
  shows "groups_ok s'"
  using assms
  by (induction rule: life_step.induct)
    (simp_all add: groups_ok_start groups_ok_finish groups_ok_on_done groups_ok_stop_after_grace
      groups_ok_revive_after groups_ok_removal_wake groups_ok_removal_gathered groups_ok_get_global
      groups_ok_reg_subscribe groups_ok_reg_unsubscribe groups_ok_token groups_ok_maybe_arm
      groups_ok_close_begin groups_ok_close_pass groups_ok_close_end groups_ok_hub_unsubscribe)

theorem reachable_groups_ok: "reachable bare s \<Longrightarrow> groups_ok s"
  by (induction rule: reachable.induct) (blast intro: groups_ok_fresh groups_ok_step)+

text \<open>An invariant of the step relation that may rely on the groups being in order holds in every
  reachable state.\<close>

locale life_invariant =
  fixes bare :: bool and inv :: "sys \<Rightarrow> bool"
  assumes inv_fresh: "inv (fresh_sys a b)"
    and inv_life: "life_step bare s s' \<Longrightarrow> groups_ok s \<Longrightarrow> inv s \<Longrightarrow> inv s'"
begin

lemma always: "reachable bare s \<Longrightarrow> inv s"
  by (induction rule: reachable.induct) (blast intro: inv_fresh inv_life reachable_groups_ok)+

end

end
