(* ===== verification/Hub_Served.thy ===== *)
theory Hub_Served
  imports Hub_Lifecycle
begin

text \<open>
  No consumer is left on a hub without tasks: while the registry is not closing, the registered hub
  is \<open>served\<close> whenever it has a consumer, that is, its run task is live, or the one waiter that will
  rebuild the group is pending, or the run task died and its supervisor callback has yet to run.
  The theory also holds the guarantees the registry makes: one group per hub, a closing hub that is
  never rebuilt, and the admission ledger.
\<close>

section \<open>The waiter of a hub\<close>

definition is_reviver :: "coro \<Rightarrow> bool" where
  "is_reviver c = (case c of Reviver _ _ _ _ \<Rightarrow> True | _ \<Rightarrow> False)"

definition waiter_at :: "sys \<Rightarrow> hid \<Rightarrow> bool" where
  "waiter_at s h \<longleftrightarrow>
     \<not> hb_closing (hub s h) \<and>
     (\<forall>w. hb_revive_task (hub s h) = Some w \<longrightarrow>
        tk_coro (tk s w) =
          Reviver h (hb_task (hub s h)) (hb_flush_task (hub s h)) (hb_heartbeat_task (hub s h)) \<and>
        \<not> task_done s w)"

definition waiter_task :: "sys \<Rightarrow> tid \<Rightarrow> bool" where
  "waiter_task s w \<longleftrightarrow>
     (\<forall>h r f b. tk_coro (tk s w) = Reviver h r f b \<longrightarrow>
        \<not> task_cancelling s w \<and> (\<not> task_done s w \<longrightarrow> hb_revive_task (hub s h) = Some w))"

definition waiters_ok :: "sys \<Rightarrow> bool" where
  "waiters_ok s \<longleftrightarrow>
     (\<forall>h<length (sy_hubs s). waiter_at s h) \<and> (\<forall>w<length (sy_tasks s). waiter_task s w) \<and>
     (rg_global s = None \<longrightarrow> sy_token_count s \<le> 0)"

lemma waiters_okD:
  assumes "waiters_ok s"
  shows "h < length (sy_hubs s) \<Longrightarrow> waiter_at s h" "w < length (sy_tasks s) \<Longrightarrow> waiter_task s w"
    "rg_global s = None \<Longrightarrow> sy_token_count s \<le> 0"
  using assms by (simp_all add: waiters_ok_def)

text \<open>A change that leaves the waiters and the slots they watch alone.\<close>

definition same_waiters :: "sys \<Rightarrow> sys \<Rightarrow> bool" where
  "same_waiters s s' \<longleftrightarrow>
     length (sy_tasks s) \<le> length (sy_tasks s') \<and>
     (\<forall>t<length (sy_tasks s). tk s' t = tk s t \<or>
        (\<not> is_reviver (tk_coro (tk s t)) \<and> \<not> is_reviver (tk_coro (tk s' t))) \<or>
        (tk_coro (tk s' t) = tk_coro (tk s t) \<and> \<not> task_done s t \<and> \<not> task_done s' t \<and>
         tk_cancels (tk s' t) = tk_cancels (tk s t))) \<and>
     (\<forall>t. length (sy_tasks s) \<le> t \<longrightarrow> t < length (sy_tasks s') \<longrightarrow> \<not> is_reviver (tk_coro (tk s' t)))"

definition same_slots :: "hub_slots \<Rightarrow> hub_slots \<Rightarrow> bool" where
  "same_slots b b' \<longleftrightarrow>
     group_slots b' = group_slots b \<and> hb_revive_task b' = hb_revive_task b \<and> hb_closing b' = hb_closing b"

lemma same_slots_refl [simp]: "same_slots b b"
  by (simp add: same_slots_def)

lemma waiters_ok_change:
  assumes ok: "waiters_ok s" and grp: "groups_ok s" and same: "same_waiters s s'"
    and hubs: "length (sy_hubs s) \<le> length (sy_hubs s')"
      "\<And>h. h < length (sy_hubs s) \<Longrightarrow> same_slots (hub s h) (hub s' h)"
      "\<And>h. length (sy_hubs s) \<le> h \<Longrightarrow> h < length (sy_hubs s') \<Longrightarrow> hub s' h = new_hub"
    and glob: "rg_global s' = None \<Longrightarrow> sy_token_count s' \<le> 0"
  shows "waiters_ok s'"
proof -
  have rev: "tk_coro (tk s' w) = tk_coro (tk s w) \<and> task_done s' w = task_done s w \<and>
      task_cancelling s' w = task_cancelling s w"
    if "w < length (sy_tasks s)" "is_reviver (tk_coro (tk s w)) \<or> is_reviver (tk_coro (tk s' w))" for w
    using same that unfolding same_waiters_def task_done_def task_cancelling_def by metis
  have "waiter_at s' h" if h: "h < length (sy_hubs s')" for h
  proof (cases "h < length (sy_hubs s)")
    case True
    have "w < length (sy_tasks s) \<and> is_reviver (tk_coro (tk s w))"
      if "hb_revive_task (hub s h) = Some w" for w
      using groups_okD(1)[OF grp True] that by (auto simp: slots_ok_def is_reviver_def)
    hence w: "tk_coro (tk s' w) = tk_coro (tk s w) \<and> task_done s' w = task_done s w"
      if "hb_revive_task (hub s h) = Some w" for w
      using that rev by blast
    show ?thesis
      using waiters_okD(1)[OF ok True] hubs(2)[OF True] w
      by (auto simp: waiter_at_def same_slots_def group_slots_def)
  qed (use h hubs(3)[of h] in \<open>simp add: waiter_at_def new_hub_def\<close>)
  moreover have "waiter_task s' w" if w: "w < length (sy_tasks s')" for w
  proof (cases "w < length (sy_tasks s)")
    case True
    have "waiter_task s w" "task_ok s w" using waiters_okD(2)[OF ok True] groups_okD(2)[OF grp True] .
    thus ?thesis
      using rev[OF True] hubs(2) unfolding waiter_task_def task_ok_def same_slots_def
      by (auto simp: is_reviver_def split: coro.splits)
  next
    case False
    hence "\<not> is_reviver (tk_coro (tk s' w))" using same w unfolding same_waiters_def by simp
    thus ?thesis by (auto simp: waiter_task_def is_reviver_def)
  qed
  ultimately show ?thesis using glob by (simp add: waiters_ok_def)
qed

lemma same_waiters_refl [simp]: "same_waiters s s"
  by (simp add: same_waiters_def)

definition plain :: "sys \<Rightarrow> tid set \<Rightarrow> bool" where
  "plain s T \<longleftrightarrow> (\<forall>t\<in>T. t < length (sy_tasks s) \<longrightarrow> \<not> is_reviver (tk_coro (tk s t)))"

lemma leaves_plain: "leaves s T \<Longrightarrow> plain s T"
  by (auto simp: leaves_def plain_def leaf_def is_reviver_def split: coro.splits)

lemma touches_same_waiters:
  assumes "touches T s s'" and "plain s T"
  shows "same_waiters s s'"
proof -
  have c: "core s' = core s" using assms(1) by (simp add: touches_def)
  show ?thesis
    using assms core_task(1)[OF c] unfolding same_waiters_def plain_def touches_def core_fields(12)[OF c]
    by auto
qed

lemma waiters_ok_touches:
  assumes "waiters_ok s" and "groups_ok s" and "touches T s s'" and "plain s T"
  shows "waiters_ok s'"
proof -
  have c: "core s' = core s" using assms(3) by (simp add: touches_def)
  show ?thesis
    by (rule waiters_ok_change[OF assms(1,2) touches_same_waiters[OF assms(3,4)]])
      (simp_all add: core_fields(1,2,3)[OF c] waiters_okD(3)[OF assms(1)])
qed

text \<open>Changes of one task that is not a waiter, of the hub's subscribers and timer, and additions.\<close>

lemma waiters_ok_task:
  assumes "waiters_ok s" and "groups_ok s" and "t < length (sy_tasks s)"
    and "\<not> is_reviver (tk_coro (tk s t))" and "\<not> is_reviver (tk_coro (g (tk s t)))"
  shows "waiters_ok (upd_task t g s)"
  by (rule waiters_ok_change[OF assms(1,2)])
    (use assms waiters_okD(3)[OF assms(1)] in \<open>auto simp: same_waiters_def\<close>)

lemma waiters_ok_start:
  assumes "waiters_ok s" and "groups_ok s" and "t < length (sy_tasks s)"
    and "tk_phase (tk s t) = Created"
  shows "waiters_ok (start_task t s)"
  by (rule waiters_ok_change[OF assms(1,2)])
    (use assms waiters_okD(3)[OF assms(1)] in \<open>auto simp: same_waiters_def start_task_def task_done_def\<close>)

lemma waiters_ok_upd_hub:
  assumes "waiters_ok s" and "groups_ok s" and "\<And>x. same_slots x (g x)"
  shows "waiters_ok (upd_hub h g s)"
  by (rule waiters_ok_change[OF assms(1,2)])
    (use assms waiters_okD(3)[OF assms(1)] in \<open>auto simp: same_waiters_def\<close>)

lemma waiters_ok_add_task:
  assumes "waiters_ok s" and "groups_ok s" and "\<not> is_reviver c"
  shows "waiters_ok (add_task c s)"
  by (rule waiters_ok_change[OF assms(1,2)])
    (use assms waiters_okD(3)[OF assms(1)] in
      \<open>auto simp: same_waiters_def less_Suc_eq_le dest!: le_antisym\<close>)

lemma waiters_ok_fields:
  assumes "waiters_ok s" and "groups_ok s" and "sy_tasks s' = sy_tasks s" and "sy_hubs s' = sy_hubs s"
    and "rg_global s' = None \<Longrightarrow> sy_token_count s' \<le> 0"
  shows "waiters_ok s'"
  by (rule waiters_ok_change[OF assms(1,2)]) (use assms in \<open>auto simp: same_waiters_def\<close>)

text \<open>Spawning with no waiter pending, and arming the waiter.\<close>

lemma waiters_ok_put_group:
  assumes ok: "waiters_ok s" and grp: "groups_ok s" and h: "h < length (sy_hubs s)"
    and none: "hb_revive_task (hub s h) = None"
  shows "waiters_ok (put_group h s)"
proof -
  let ?s = "put_group h s"
  have old: "waiter_task ?s w" if w: "w < length (sy_tasks s)" for w
    using waiters_okD(2)[OF ok w] w groups_okD(2)[OF grp w] h
    by (cases "tk_coro (tk s w)")
      (auto simp: waiter_task_def put_group_tasks task_done_def task_cancelling_def nth_list_update task_ok_def)
  have "waiter_task ?s w" if "w < length (sy_tasks ?s)" for w
  proof (cases "w < length (sy_tasks s)")
    case False
    hence "w = length (sy_tasks s) \<or> w = Suc (length (sy_tasks s)) \<or> w = Suc (Suc (length (sy_tasks s)))"
      using that by (auto simp: put_group_tasks)
    thus ?thesis using put_group_tasks(3)[of h s] by (auto simp: waiter_task_def group_at_def)
  qed (rule old)
  moreover have "waiter_at ?s h'" if h': "h' < length (sy_hubs ?s)" for h'
  proof -
    have l: "h' < length (sy_hubs s)" using h' by (simp add: put_group_tasks)
    have "w < length (sy_tasks s)" if "hb_revive_task (hub s h') = Some w" for w
      using groups_okD(1)[OF grp l] that by (simp add: slots_ok_def)
    thus ?thesis
      using waiters_okD(1)[OF ok l] none l h
      by (auto simp: waiter_at_def put_group_tasks nth_list_update task_done_def)
  qed
  ultimately show ?thesis using waiters_okD(3)[OF ok] by (simp add: waiters_ok_def)
qed

lemma slot_leaves:
  assumes "slots_ok s h"
  shows "leaves s (\<Union>m\<in>set (group_slots (hub s h)). set_option m)"
  using assms
  by (rule slots_okE) (auto simp: leaves_def leaf_def group_at_def)

lemma stop_leaf: "slots_ok s h \<Longrightarrow> leaves s (set_option (hb_stop_task (hub s h)))"
  by (auto simp: slots_ok_def leaves_def leaf_def)

lemma waiters_ok_disarm:
  assumes ok: "waiters_ok s" and grp: "groups_ok s" and h: "h < length (sy_hubs s)"
  shows "waiters_ok (disarm_stop h s)"
proof (cases "hb_stop_task (hub s h)")
  case (Some t)
  have l: "leaves s {t}" using stop_leaf[OF groups_okD(1)[OF grp h]] by (simp add: Some)
  have "waiters_ok (cancel t s)"
    by (rule waiters_ok_touches[OF ok grp touches_cancel_leaf[OF l] leaves_plain[OF l]])
  moreover have "groups_ok (cancel t s)" by (rule groups_ok_core[OF grp core_cancel])
  ultimately show ?thesis
    unfolding disarm_stop_def Some option.case
    by (rule waiters_ok_upd_hub) (simp add: same_slots_def group_slots_def)
qed (simp add: disarm_stop_def ok)

lemma waiters_ok_arm_reviver:
  assumes ok: "waiters_ok s" and grp: "groups_ok s" and h: "h < length (sy_hubs s)"
    and none: "hb_revive_task (hub s h) = None"
  shows "waiters_ok (arm_reviver h s)"
proof -
  let ?ms = "group_slots (hub s h)"
  let ?s1 = "cancel_live_members ?ms s" and ?s = "arm_reviver h s"
  let ?w = "length (sy_tasks s)"
  have l: "leaves s (\<Union>m\<in>set ?ms. set_option m)" by (rule slot_leaves[OF groups_okD(1)[OF grp h]])
  have ok1: "waiters_ok ?s1"
    by (rule waiters_ok_touches[OF ok grp touches_live_members[OF l order_refl] leaves_plain[OF l]])
  have grp1: "groups_ok ?s1" by (rule groups_ok_core[OF grp core_live_members])
  have new: "tk ?s ?w = \<lparr>tk_coro = Reviver h (hb_task (hub s h)) (hb_flush_task (hub s h))
        (hb_heartbeat_task (hub s h)), tk_phase = Created, tk_cancels = 0, tk_cb = False\<rparr>"
    and old: "\<And>t. t < ?w \<Longrightarrow> tk ?s t = tk ?s1 t"
    and len: "length (sy_tasks ?s) = Suc ?w"
    and hubs: "sy_hubs ?s = (sy_hubs s)[h := (hub s h)\<lparr>hb_revive_task := Some ?w\<rparr>]"
    by (simp_all add: arm_reviver_def Let_def add_task_def nth_append upd_hub_def)
  have "waiter_at ?s h'" if h': "h' < length (sy_hubs s)" for h'
  proof (cases "h' = h")
    case True
    thus ?thesis using waiters_okD(1)[OF ok h] h
      by (simp add: waiter_at_def hubs new task_done_def)
  next
    case False
    have "w < ?w" if "hb_revive_task (hub s h') = Some w" for w
      using groups_okD(1)[OF grp h'] that by (simp add: slots_ok_def)
    thus ?thesis using waiters_okD(1)[OF ok1, of h'] False h'
      by (simp add: waiter_at_def hubs old task_done_def)
  qed
  moreover have "waiter_task ?s w" if "w < length (sy_tasks ?s)" for w
  proof (cases "w = ?w")
    case True
    thus ?thesis using h by (simp add: waiter_task_def new hubs task_cancelling_def)
  next
    case False
    hence w: "w < ?w" using that by (simp add: len)
    thus ?thesis using waiters_okD(2)[OF ok1, of w] none groups_okD(2)[OF grp1, of w] h
      by (cases "tk_coro (tk ?s1 w)")
        (auto simp: waiter_task_def hubs old task_done_def task_cancelling_def nth_list_update task_ok_def)
  qed
  moreover have "rg_global ?s = None \<longrightarrow> sy_token_count ?s \<le> 0"
    using waiters_okD(3)[OF ok] by (simp add: arm_reviver_def Let_def)
  ultimately show ?thesis by (simp add: waiters_ok_def hubs)
qed

lemma hub_disarm [simp]:
  assumes "h' < length (sy_hubs s)"
  shows "same_slots (hub s h') (hub (disarm_stop h s) h')"
    "hb_subscribers (hub (disarm_stop h s) h') = hb_subscribers (hub s h')"
  using assms by (auto simp: disarm_stop_def same_slots_def group_slots_def split: option.splits)

lemma waiters_ok_ensure:
  assumes ok: "waiters_ok s" and grp: "groups_ok s" and h: "h < length (sy_hubs s)"
  shows "waiters_ok (ensure_upstream h s)"
  using ok waiters_ok_disarm[OF assms] groups_ok_disarm[OF grp, of h] h
  by (auto simp: ensure_upstream_def Let_def spawn_quiet intro: waiters_ok_put_group waiters_ok_arm_reviver)

section \<open>A hub with consumers is served\<close>

text \<open>
  What the slots of a hub say. That an occupied waiter slot holds a pending waiter is the part of
  \<open>waiters_ok\<close>; \<open>served\<close>, below, puts the two together.
\<close>

definition slot_served :: "sys \<Rightarrow> hid \<Rightarrow> bool" where
  "slot_served s h \<longleftrightarrow>
     member_live s (hb_task (hub s h)) \<or> hb_revive_task (hub s h) \<noteq> None \<or>
     (\<exists>r. hb_task (hub s h) = Some r \<and> tk_phase (tk s r) = Finished Died \<and> tk_cb (tk s r))"

lemma served_put_group: "h < length (sy_hubs s) \<Longrightarrow> slot_served (put_group h s) h"
  by (simp add: slot_served_def member_live_def put_group_tasks(4) put_group_def Let_def task_done_def
      task_cancelling_def add_task_def nth_append)

lemma served_ensure:
  assumes grp: "groups_ok s" and h: "h < length (sy_hubs s)" and open_hub: "\<not> hb_closing (hub s h)"
  shows "slot_served (ensure_upstream h s) h"
proof -
  let ?s1 = "disarm_stop h s"
  have "slot_served (put_group h ?s1) h" using h by (simp add: served_put_group)
  moreover have "slot_served (arm_reviver h ?s1) h"
    using h by (simp add: slot_served_def arm_reviver_def Let_def)
  ultimately show ?thesis
    using open_hub by (auto simp: ensure_upstream_def Let_def spawn_quiet slot_served_def[of ?s1])
qed

text \<open>A task other than the run task may change freely; the run task may start, or die with its
  callback scheduled.\<close>

lemma served_keep:
  assumes "slot_served s h" and "same_slots (hub s h) (hub s' h)"
    and "\<And>r. hb_task (hub s h) = Some r \<Longrightarrow>
      tk s' r = tk s r \<or> (task_done s' r = task_done s r \<and> task_cancelling s' r = task_cancelling s r \<and>
        \<not> task_done s r) \<or> tk_phase (tk s' r) = Finished Died \<and> tk_cb (tk s' r) \<or>
      task_cancelling s r \<and> \<not> task_done s r \<or> (\<exists>oc. tk_phase (tk s r) = Finished oc \<and> oc \<noteq> Died)"
  shows "slot_served s' h"
  using assms
  by (cases "hb_task (hub s h)")
    (auto simp: slot_served_def same_slots_def group_slots_def member_live_def task_done_def
      task_cancelling_def)

text \<open>The tasks that belong to a hub's groups; operations on another hub leave them alone.\<close>

definition apart :: "hid \<Rightarrow> sys \<Rightarrow> sys \<Rightarrow> bool" where
  "apart h s s' \<longleftrightarrow>
     length (sy_tasks s) \<le> length (sy_tasks s') \<and> length (sy_hubs s) = length (sy_hubs s') \<and>
     hub s' h = hub s h \<and>
     (\<forall>t<length (sy_tasks s). \<forall>ro r f b. tk_coro (tk s t) = Member h ro r f b \<longrightarrow> tk s' t = tk s t)"

lemma apart_trans: "apart h s s' \<Longrightarrow> apart h s' s'' \<Longrightarrow> apart h s s''"
  by (auto simp: apart_def)

lemma served_apart:
  assumes grp: "groups_ok s" and h: "h < length (sy_hubs s)" and "slot_served s h" and "apart h s s'"
  shows "slot_served s' h"
proof (rule served_keep[OF assms(3)])
  show "same_slots (hub s h) (hub s' h)" using assms(4) by (simp add: apart_def)
  fix r
  assume "hb_task (hub s h) = Some r"
  hence "r < length (sy_tasks s) \<and> (\<exists>f b. tk_coro (tk s r) = Member h Run_role r f b)"
    using groups_okD(1)[OF grp h] by (auto simp: slots_ok_def group_slots_def group_at_def)
  thus "tk s' r = tk s r \<or> (task_done s' r = task_done s r \<and> task_cancelling s' r = task_cancelling s r \<and>
        \<not> task_done s r) \<or> tk_phase (tk s' r) = Finished Died \<and> tk_cb (tk s' r) \<or>
      task_cancelling s r \<and> \<not> task_done s r \<or> (\<exists>oc. tk_phase (tk s r) = Finished oc \<and> oc \<noteq> Died)"
    using assms(4) by (auto simp: apart_def)
qed

text \<open>A set of tasks none of which is a member of the hub's groups.\<close>

definition foreign :: "hid \<Rightarrow> sys \<Rightarrow> tid set \<Rightarrow> bool" where
  "foreign h s T \<longleftrightarrow>
     (\<forall>t\<in>T. t < length (sy_tasks s) \<longrightarrow> (\<forall>ro r f b. tk_coro (tk s t) \<noteq> Member h ro r f b))"

lemma apart_touches:
  assumes "touches T s s'" and "foreign h s T"
  shows "apart h s s'"
proof -
  have c: "core s' = core s" using assms(1) by (simp add: touches_def)
  show ?thesis
    using assms unfolding apart_def foreign_def touches_def core_fields(1,12)[OF c] by blast
qed

lemma slot_foreign:
  assumes "slots_ok s h'" and "h' \<noteq> h"
  shows "foreign h s (\<Union>m\<in>set (group_slots (hub s h')). set_option m)"
  using assms(1)
  by (rule slots_okE) (use assms(2) in \<open>auto simp: foreign_def group_at_def\<close>)

lemma stop_foreign: "slots_ok s h' \<Longrightarrow> foreign h s (set_option (hb_stop_task (hub s h')))"
  by (auto simp: slots_ok_def foreign_def)

lemma apart_upd_hub: "h' \<noteq> h \<Longrightarrow> apart h s (upd_hub h' g s)"
  by (simp add: apart_def upd_hub_def)

lemma apart_upd_task:
  assumes "\<And>ro r f b. tk_coro (tk s t) \<noteq> Member h ro r f b"
  shows "apart h s (upd_task t g s)"
  using assms by (auto simp: apart_def)

lemma apart_add_task: "apart h s (add_task c s)"
  by (simp add: apart_def)

lemma apart_fields: "sy_tasks s' = sy_tasks s \<Longrightarrow> sy_hubs s' = sy_hubs s \<Longrightarrow> apart h s s'"
  by (simp add: apart_def)

lemma apart_refl [simp]: "apart h s s"
  by (simp add: apart_def)

lemma apart_disarm:
  assumes "slots_ok s h'" and "h' \<noteq> h"
  shows "apart h s (disarm_stop h' s)"
proof (cases "hb_stop_task (hub s h')")
  case (Some t)
  have "apart h s (cancel t s)"
    using apart_touches[OF touches_cancel_leaf] stop_leaf[OF assms(1)] stop_foreign[OF assms(1), of h] Some
    by simp
  from apart_trans[OF this apart_upd_hub[OF assms(2)]] show ?thesis by (simp add: disarm_stop_def Some)
qed (simp add: disarm_stop_def)

lemma apart_put_group: "h' \<noteq> h \<Longrightarrow> apart h s (put_group h' s)"
  by (simp add: apart_def put_group_tasks)

lemma apart_live_members:
  assumes "slots_ok s h'" and "h' \<noteq> h"
  shows "apart h s (cancel_live_members (group_slots (hub s h')) s)"
  by (rule apart_touches[OF touches_live_members[OF slot_leaves[OF assms(1)] order_refl]
        slot_foreign[OF assms]])

lemma apart_arm_reviver:
  assumes "slots_ok s h'" and "h' \<noteq> h"
  shows "apart h s (arm_reviver h' s)"
  unfolding arm_reviver_def Let_def
  by (rule apart_trans[OF apart_trans[OF apart_live_members[OF assms] apart_add_task] apart_upd_hub[OF assms(2)]])

lemma apart_ensure:
  assumes "groups_ok s" and "h' < length (sy_hubs s)" and "h' \<noteq> h"
  shows "apart h s (ensure_upstream h' s)"
proof -
  let ?s1 = "disarm_stop h' s"
  have d: "apart h s ?s1" by (rule apart_disarm[OF groups_okD(1)[OF assms(1,2)] assms(3)])
  have ok: "slots_ok ?s1 h'"
    using groups_okD(1)[OF groups_ok_disarm[OF assms(1), of h'], of h'] assms(2) by simp
  show ?thesis
    using apart_trans[OF d apart_put_group[OF assms(3)]] apart_trans[OF d apart_arm_reviver[OF ok assms(3)]] d
    by (simp add: ensure_upstream_def Let_def spawn_quiet)
qed

text \<open>
  A hub is served: its run task is live, or the waiter in its slot is a task that has not finished and
  is not being cancelled, and it waits for the very group in the hub's slots, so that it will rebuild
  it; or the run task in its slot has died and its supervisor callback, which rebuilds the group, has
  yet to run.
\<close>

definition served :: "sys \<Rightarrow> hid \<Rightarrow> bool" where
  "served s h \<longleftrightarrow>
     member_live s (hb_task (hub s h)) \<or>
     (\<exists>w. hb_revive_task (hub s h) = Some w \<and> w < length (sy_tasks s) \<and>
        tk_coro (tk s w) = Reviver h (hb_task (hub s h)) (hb_flush_task (hub s h)) (hb_heartbeat_task (hub s h)) \<and>
        \<not> task_done s w \<and> \<not> task_cancelling s w) \<or>
     (\<exists>r f b. hb_task (hub s h) = Some r \<and> tk_coro (tk s r) = Member h Run_role r f b \<and>
        tk_phase (tk s r) = Finished Died \<and> tk_cb (tk s r))"

lemma servedI:
  assumes grp: "groups_ok s" and w: "waiters_ok s" and h: "h < length (sy_hubs s)" and "slot_served s h"
  shows "served s h"
proof -
  have sl: "slots_ok s h" by (rule groups_okD(1)[OF grp h])
  have slot: "t < length (sy_tasks s)" if "hb_revive_task (hub s h) = Some t" for t
    using sl that by (simp add: slots_ok_def)
  have wait: "tk_coro (tk s t) = Reviver h (hb_task (hub s h)) (hb_flush_task (hub s h)) (hb_heartbeat_task (hub s h))
      \<and> \<not> task_done s t \<and> \<not> task_cancelling s t" if "hb_revive_task (hub s h) = Some t" for t
    using waiters_okD(1)[OF w h] waiters_okD(2)[OF w slot[OF that]] that by (simp add: waiter_at_def waiter_task_def)
  have run: "\<exists>f b. tk_coro (tk s t) = Member h Run_role t f b" if "hb_task (hub s h) = Some t" for t
    using sl that by (auto simp: slots_ok_def group_slots_def group_at_def)
  show ?thesis using assms(4) slot wait run unfolding slot_served_def served_def by blast
qed

text \<open>The invariant: while the registry is not closing, the waiters are in order and the registered
  hub is served whenever it has a consumer.\<close>

definition hub_served :: "sys \<Rightarrow> bool" where
  "hub_served s \<longleftrightarrow>
     rg_close s = Not_closing \<longrightarrow>
       waiters_ok s \<and> (\<forall>h. rg_global s = Some h \<longrightarrow> hub_has_consumers s h \<longrightarrow> slot_served s h)"

lemma hub_servedI:
  assumes "waiters_ok s" and "\<And>h. rg_global s = Some h \<Longrightarrow> hub_has_consumers s h \<Longrightarrow> slot_served s h"
  shows "hub_served s"
  using assms by (simp add: hub_served_def)

lemma hub_served_other:
  assumes ok: "hub_served s" and grp: "groups_ok s"
    and w: "rg_close s = Not_closing \<Longrightarrow> waiters_ok s \<Longrightarrow> waiters_ok s'"
    and same: "rg_close s' = rg_close s" "rg_global s' = rg_global s" 
    and less: "\<And>h. rg_global s = Some h \<Longrightarrow> hub_has_consumers s' h \<Longrightarrow> hub_has_consumers s h"
    and ap: "\<And>h. rg_global s = Some h \<Longrightarrow> hub_has_consumers s h \<Longrightarrow> rg_close s = Not_closing \<Longrightarrow> apart h s s'"
  shows "hub_served s'"
  using assms served_apart[OF grp groups_okD(3)[OF grp]] by (auto simp: hub_served_def)

lemma hub_has_consumers_upd_task [simp]: "hub_has_consumers (upd_task t g s) h = hub_has_consumers s h"
  by (simp add: hub_has_consumers_def)

lemma hub_has_consumers_finish [simp]: "hub_has_consumers (finish t oc cb s) h = hub_has_consumers s h"
  by (simp add: finish_def)

lemma finish_fields [simp]:
  "sy_hubs (finish t oc cb s) = sy_hubs s" "sy_token_count (finish t oc cb s) = sy_token_count s"
  "rg_global (finish t oc cb s) = rg_global s" "rg_removal (finish t oc cb s) = rg_removal s"
  "rg_total (finish t oc cb s) = rg_total s" "rg_max_dir (finish t oc cb s) = rg_max_dir s"
  "rg_max_total (finish t oc cb s) = rg_max_total s" "rg_close (finish t oc cb s) = rg_close s"
  "rg_next_sub (finish t oc cb s) = rg_next_sub s"
  by (simp_all add: finish_def)

lemma waiters_ok_finish:
  assumes "waiters_ok s" and "groups_ok s" and "t < length (sy_tasks s)"
    and "\<not> is_reviver (tk_coro (tk s t))"
  shows "waiters_ok (finish t oc cb s)"
  unfolding finish_def by (rule waiters_ok_task) (use assms in auto)

text \<open>One task changes, and it is not the run task of the registered hub, or was doomed anyway.\<close>

lemma hub_served_task:
  assumes ok: "hub_served s" and grp: "groups_ok s"
    and w: "rg_close s = Not_closing \<Longrightarrow> waiters_ok s \<Longrightarrow> waiters_ok (upd_task t g s)"
    and t: "t < length (sy_tasks s)"
    and run: "\<And>h f b. rg_global s = Some h \<Longrightarrow> hub_has_consumers s h \<Longrightarrow>
      hb_task (hub s h) = Some t \<Longrightarrow> tk_coro (tk s t) = Member h Run_role t f b \<Longrightarrow>
      (task_cancelling s t \<and> \<not> task_done s t) \<or>
      (tk_phase (g (tk s t)) = Finished Died \<and> tk_cb (g (tk s t))) \<or>
      (\<exists>oc. tk_phase (tk s t) = Finished oc \<and> oc \<noteq> Died) \<or>
      (tk_phase (tk s t) = Created \<and> tk_phase (g (tk s t)) = Running \<and>
        tk_cancels (g (tk s t)) = tk_cancels (tk s t))"
  shows "hub_served (upd_task t g s)"
proof (cases "rg_close s = Not_closing")
  case True
  hence wok: "waiters_ok s" and srv: "\<And>h. rg_global s = Some h \<Longrightarrow> hub_has_consumers s h \<Longrightarrow> slot_served s h"
    using ok by (simp_all add: hub_served_def)
  show ?thesis
  proof (rule hub_servedI[OF w[OF True wok]])
    fix h
    assume "rg_global (upd_task t g s) = Some h" "hub_has_consumers (upd_task t g s) h"
    hence a: "rg_global s = Some h" "hub_has_consumers s h" by simp_all
    have h: "h < length (sy_hubs s)" by (rule groups_okD(3)[OF grp a(1)])
    show "slot_served (upd_task t g s) h"
    proof (rule served_keep[OF srv[OF a]])
      fix r
      assume r: "hb_task (hub s h) = Some r"
      have c: "r < length (sy_tasks s) \<and> (\<exists>f b. tk_coro (tk s r) = Member h Run_role r f b)"
        using groups_okD(1)[OF grp h] r by (auto simp: slots_ok_def group_slots_def group_at_def)
      show "tk (upd_task t g s) r = tk s r \<or>
        (task_done (upd_task t g s) r = task_done s r \<and>
         task_cancelling (upd_task t g s) r = task_cancelling s r \<and> \<not> task_done s r) \<or>
        tk_phase (tk (upd_task t g s) r) = Finished Died \<and> tk_cb (tk (upd_task t g s) r) \<or>
        task_cancelling s r \<and> \<not> task_done s r \<or> (\<exists>oc. tk_phase (tk s r) = Finished oc \<and> oc \<noteq> Died)"
        using c r run[OF a] by (cases "r = t") (auto simp: task_done_def task_cancelling_def)
    qed simp
  qed
qed (simp add: hub_served_def)

lemma step_start:
  assumes "hub_served s" and "groups_ok s" and "t < length (sy_tasks s)"
    and "tk_phase (tk s t) = Created"
  shows "hub_served (start_task t s)"
  unfolding start_task_def
  by (rule hub_served_task[OF assms(1,2) _ assms(3)])
    (use assms waiters_ok_start[of s t] in \<open>auto simp: start_task_def\<close>)

lemma step_unstarted:
  assumes "hub_served s" and "groups_ok s" and "t < length (sy_tasks s)"
    and "tk_phase (tk s t) = Created" and "task_cancelling s t"
  shows "hub_served (finish t Cancelled cb s)"
  unfolding finish_def
proof (rule hub_served_task[OF assms(1,2) _ assms(3)])
  assume "waiters_ok s"
  hence "\<not> is_reviver (tk_coro (tk s t))"
    using waiters_okD(2)[OF _ assms(3)] assms(5) by (force simp: waiter_task_def is_reviver_def split: coro.splits)
  thus "waiters_ok (upd_task t (\<lambda>k. k\<lparr>tk_phase := Finished Cancelled, tk_cb := cb\<rparr>) s)"
    using \<open>waiters_ok s\<close> assms by (intro waiters_ok_task) auto
qed (use assms in \<open>simp add: task_done_def\<close>)

lemma step_member_end:
  assumes "hub_served s" and "groups_ok s" and "t < length (sy_tasks s)"
    and c: "tk_coro (tk s t) = Member h ro r f b" and "tk_phase (tk s t) = Running"
    and "oc = Cancelled \<longrightarrow> task_cancelling s t" and "oc = Returned \<longrightarrow> ro = Run_role \<and> \<not> hub_has_consumers s h"
  shows "hub_served (finish t oc True s)"
  unfolding finish_def
proof (rule hub_served_task[OF assms(1,2) _ assms(3)])
  show "waiters_ok (upd_task t (\<lambda>k. k\<lparr>tk_phase := Finished oc, tk_cb := True\<rparr>) s)" if "waiters_ok s"
    by (rule waiters_ok_task[OF that assms(2,3)]) (simp_all add: c is_reviver_def)
qed (use assms in \<open>cases oc; auto simp: task_done_def\<close>)

lemma hub_served_at:
  assumes ok: "hub_served s" and grp: "groups_ok s"
    and w: "rg_close s = Not_closing \<Longrightarrow> waiters_ok s \<Longrightarrow> waiters_ok s'"
    and same: "rg_close s' = rg_close s" "rg_global s' = rg_global s"
    and here: "rg_close s = Not_closing \<Longrightarrow> waiters_ok s \<Longrightarrow> rg_global s = Some h \<Longrightarrow>
      hub_has_consumers s' h \<Longrightarrow> slot_served s' h"
    and there: "\<And>h'. h' \<noteq> h \<Longrightarrow> rg_close s = Not_closing \<Longrightarrow> waiters_ok s \<Longrightarrow> apart h' s s'"
      "\<And>h'. h' \<noteq> h \<Longrightarrow> rg_global s = Some h' \<Longrightarrow> hub_has_consumers s' h' \<Longrightarrow> hub_has_consumers s h'"
  shows "hub_served s'"
proof (cases "rg_close s = Not_closing")
  case True
  hence wok: "waiters_ok s" and srv: "\<And>h. rg_global s = Some h \<Longrightarrow> hub_has_consumers s h \<Longrightarrow> slot_served s h"
    using ok by (simp_all add: hub_served_def)
  show ?thesis
  proof (rule hub_servedI[OF w[OF True wok]])
    fix h'
    assume a: "rg_global s' = Some h'" "hub_has_consumers s' h'"
    hence g: "rg_global s = Some h'" using same by simp
    show "slot_served s' h'"
    proof (cases "h' = h")
      case False
      show ?thesis
        by (rule served_apart[OF grp groups_okD(3)[OF grp g] srv[OF g there(2)[OF False g a(2)]]
              there(1)[OF False True wok]])
    qed (use here[OF True wok] g a in simp)
  qed
qed (use same in \<open>simp add: hub_served_def\<close>)

lemma hub_has_consumers_core: "core s' = core s \<Longrightarrow> hub_has_consumers s' h = hub_has_consumers s h"
  by (simp add: hub_has_consumers_def core_fields(1,2)[of s' s])

lemma ensure_fields [simp]:
  "length (sy_hubs (ensure_upstream h s)) = length (sy_hubs s)"
  "sy_token_count (ensure_upstream h s) = sy_token_count s"
  "rg_global (ensure_upstream h s) = rg_global s" "rg_removal (ensure_upstream h s) = rg_removal s"
  "rg_total (ensure_upstream h s) = rg_total s" "rg_max_dir (ensure_upstream h s) = rg_max_dir s"
  "rg_max_total (ensure_upstream h s) = rg_max_total s" "rg_close (ensure_upstream h s) = rg_close s"
  "rg_next_sub (ensure_upstream h s) = rg_next_sub s"
  by (simp_all add: ensure_upstream_def arm_reviver_def Let_def spawn_quiet put_group_tasks)

lemma subscribers_ensure [simp]:
  "h' < length (sy_hubs s) \<Longrightarrow>
   hb_subscribers (hub (ensure_upstream h s) h') = hb_subscribers (hub s h')"
  by (auto simp: ensure_upstream_def arm_reviver_def Let_def spawn_quiet put_group_tasks nth_list_update)

lemma hub_has_consumers_ensure [simp]:
  "h' < length (sy_hubs s) \<Longrightarrow> hub_has_consumers (ensure_upstream h s) h' = hub_has_consumers s h'"
  by (simp add: hub_has_consumers_def)

lemma hub_served_ensure:
  assumes ok: "hub_served s" and grp: "groups_ok s" and h: "h < length (sy_hubs s)"
  shows "hub_served (ensure_upstream h s)"
  by (rule hub_served_at[OF ok grp, where h = h])
    (use assms groups_okD(3)[OF grp] apart_ensure[OF grp h] waiters_ok_ensure[OF _ grp h]
      served_ensure[OF grp h] in \<open>auto simp: waiters_ok_def waiter_at_def\<close>)

lemma ensure_serves:
  assumes w: "waiters_ok s" and grp: "groups_ok s" and h: "h < length (sy_hubs s)"
    and g: "rg_global s = Some h"
  shows "hub_served (ensure_upstream h s)"
  by (rule hub_servedI[OF waiters_ok_ensure[OF w grp h]])
    (use g served_ensure[OF grp h] waiters_okD(1)[OF w h] in \<open>auto simp: waiter_at_def\<close>)

text \<open>Cancelling the group of a hub that loses its tasks for good: it has no consumers, or is
  ensured again at once.\<close>

lemma hub_served_idle_touches:
  assumes ok: "hub_served s" and grp: "groups_ok s" and t: "touches T s s'" and lv: "leaves s T"
    and here: "\<not> hub_has_consumers s h" and there: "\<And>h'. h' \<noteq> h \<Longrightarrow> foreign h' s T"
  shows "hub_served s'"
proof -
  have c: "core s' = core s" using t by (simp add: touches_def)
  show ?thesis
    by (rule hub_served_at[OF ok grp, where h = h])
      (use here there apart_touches[OF t] waiters_ok_touches[OF _ grp t leaves_plain[OF lv]]
        core_fields(3,10)[OF c] hub_has_consumers_core[OF c] in auto)
qed

lemma hub_served_cb:
  assumes ok: "hub_served s" and grp: "groups_ok s" and t: "t < length (sy_tasks s)"
    and c: "tk_coro (tk s t) = Member h ro r f b" and p: "tk_phase (tk s t) = Finished oc"
    and stale: "oc \<noteq> Died \<or> hb_task (hub s h) \<noteq> Some r"
  shows "hub_served (upd_task t (\<lambda>k. k\<lparr>tk_cb := False\<rparr>) s)"
proof (rule hub_served_task[OF ok grp _ t])
  show "waiters_ok (upd_task t (\<lambda>k. k\<lparr>tk_cb := False\<rparr>) s)" if "waiters_ok s"
    by (rule waiters_ok_task[OF that grp t]) (simp_all add: c is_reviver_def)
qed (use stale c p in auto)

text \<open>The siblings of a run task: cancelling them leaves every run task alone.\<close>

lemma hub_served_siblings:
  assumes ok: "hub_served s" and grp: "groups_ok s" and g: "group_at s h r f b"
    and t: "touches {f, b} s s'"
  shows "hub_served s'"
proof -
  have c: "core s' = core s" using t by (simp add: touches_def)
  have lv: "leaves s {f, b}" using g by (simp add: leaves_def leaf_def group_at_def)
  have run: "slot_served s' h'" if a: "rg_global s = Some h'" "hub_has_consumers s h'" "rg_close s = Not_closing" for h'
  proof (rule served_keep)
    show "slot_served s h'" using ok a by (simp add: hub_served_def)
    fix u
    assume u: "hb_task (hub s h') = Some u"
    have "u < length (sy_tasks s) \<and> (\<exists>f b. tk_coro (tk s u) = Member h' Run_role u f b)"
      using groups_okD(1)[OF grp groups_okD(3)[OF grp a(1)]] u
      by (auto simp: slots_ok_def group_slots_def group_at_def)
    hence "u < length (sy_tasks s)" "u \<noteq> f" "u \<noteq> b" using g by (auto simp: group_at_def)
    hence "tk s' u = tk s u" using t by (simp add: touches_def)
    thus "tk s' u = tk s u \<or> (task_done s' u = task_done s u \<and> task_cancelling s' u = task_cancelling s u \<and>
        \<not> task_done s u) \<or> tk_phase (tk s' u) = Finished Died \<and> tk_cb (tk s' u) \<or>
      task_cancelling s u \<and> \<not> task_done s u \<or> (\<exists>oc. tk_phase (tk s u) = Finished oc \<and> oc \<noteq> Died)" ..
  qed (simp add: core_fields(1)[OF c])
  show ?thesis
    using ok run waiters_ok_touches[OF _ grp t leaves_plain[OF lv]]
    by (auto simp: hub_served_def core_fields(3,10)[OF c] hub_has_consumers_core[OF c])
qed

lemma group_at_leaves: "group_at s h r f b \<Longrightarrow> leaves s {f, b}"
  by (simp add: leaves_def leaf_def group_at_def)

lemma touches_unfinished2:
  assumes "leaves s {f, b}"
  shows "touches {f, b} s (cancel_unfinished (Some b) (cancel_unfinished (Some f) s))"
proof -
  have 1: "touches {f, b} s (cancel_unfinished (Some f) s)"
    by (rule touches_unfinished[OF assms]) simp
  have "leaves (cancel_unfinished (Some f) s) {f, b}" using assms leaves_touches[OF 1] by simp
  from touches_trans[OF 1 touches_unfinished[OF this, of "Some b"]] show ?thesis by simp
qed

text \<open>The death of a member of the current group.\<close>

lemma hub_served_death:
  assumes ok: "hub_served s0" and grp: "groups_ok s0" and t: "t < length (sy_tasks s0)"
    and c: "tk_coro (tk s0 t) = Member h ro r f b"
  defines "s \<equiv> upd_task t (\<lambda>k. k\<lparr>tk_cb := False\<rparr>) s0"
  defines "s1 \<equiv> cancel_live_members [Some r, Some f, Some b] s"
  shows "hub_served (if hub_has_consumers s1 h then ensure_upstream h s1 else s1)"
proof -
  have grp': "groups_ok s" unfolding s_def by (rule groups_ok_cb[OF grp])
  have ts: "task_ok s t"
    by (rule groups_okD(2)[OF grp']) (simp add: s_def t)
  have c': "tk_coro (tk s t) = Member h ro r f b" using c t by (simp add: s_def)
  have h: "h < length (sy_hubs s)" and g: "group_at s h r f b"
    using ts by (simp_all add: task_ok_def c')
  have lv: "leaves s {r, f, b}" using g by (simp add: leaves_def leaf_def group_at_def)
  have tch: "touches {r, f, b} s s1" unfolding s1_def by (rule touches_live_members[OF lv]) auto
  have core1: "core s1 = core s" using tch by (simp add: touches_def)
  have fields: "rg_global s1 = rg_global s0" "rg_close s1 = rg_close s0" "length (sy_hubs s1) = length (sy_hubs s0)"
    "\<And>h. hub_has_consumers s1 h = hub_has_consumers s0 h"
    by (simp_all add: core_fields(1,3,10)[OF core1] hub_has_consumers_core[OF core1]) (simp_all add: s_def)
  have w1: "waiters_ok s1" if "waiters_ok s0"
  proof -
    have "waiters_ok s" unfolding s_def
      by (rule waiters_ok_task[OF that grp t]) (simp_all add: c is_reviver_def)
    thus ?thesis by (rule waiters_ok_touches[OF _ grp' tch leaves_plain[OF lv]])
  qed
  have grp1: "groups_ok s1" by (rule groups_ok_core[OF grp' core1])
  have h1: "h < length (sy_hubs s1)" using h by (simp add: core_fields(1)[OF core1])
  have ap: "apart h' s0 s1" if "h' \<noteq> h" for h'
  proof -
    have "apart h' s0 s" unfolding s_def by (rule apart_upd_task) (use c that in auto)
    moreover have "apart h' s s1"
      by (rule apart_touches[OF tch]) (use g that in \<open>auto simp: foreign_def group_at_def\<close>)
    ultimately show ?thesis by (rule apart_trans)
  qed
  show ?thesis
  proof (cases "hub_has_consumers s1 h")
    case True
    have "hub_served (ensure_upstream h s1)"
      by (rule hub_served_at[OF ok grp, where h = h])
        (use w1 waiters_ok_ensure[OF _ grp1 h1] served_ensure[OF grp1 h1] waiters_okD(1)[OF w1 h1]
          apart_trans[OF ap apart_ensure[OF grp1 h1]] fields groups_okD(3)[OF grp] in
          \<open>auto simp: waiter_at_def\<close>)
    thus ?thesis using True by simp
  next
    case False
    have "hub_served s1"
      by (rule hub_served_at[OF ok grp, where h = h]) (use w1 ap fields False in auto)
    thus ?thesis using False by simp
  qed
qed

lemma step_callback:
  assumes ok: "hub_served s" and grp: "groups_ok s" and t: "t < length (sy_tasks s)"
    and c: "tk_coro (tk s t) = Member h ro r f b" and p: "tk_phase (tk s t) = Finished oc"
  shows "hub_served (on_done t h ro r f b oc s)"
proof -
  let ?s = "upd_task t (\<lambda>k. k\<lparr>tk_cb := False\<rparr>) s"
  have "task_ok ?s t" using groups_okD(2)[OF groups_ok_cb[OF grp]] t by simp
  moreover have "tk_coro (tk ?s t) = Member h ro r f b" using t c by simp
  ultimately have g: "group_at ?s h r f b" unfolding task_ok_def by (simp only: coro.case) blast
  have lv: "leaves ?s {f, b}" by (rule group_at_leaves[OF g])
  show ?thesis
    using hub_served_cb[OF ok grp t c p] hub_served_death[OF ok grp t c]
      hub_served_siblings[OF _ groups_ok_cb[OF grp] g touches_unfinished2[OF lv]]
    by (cases oc) (auto simp: on_done_def Let_def)
qed

lemma step_timer:
  assumes ok: "hub_served s" and grp: "groups_ok s" and t: "t < length (sy_tasks s)"
    and c: "tk_coro (tk s t) = Grace_timer h"
  shows "hub_served (stop_after_grace h t s)"
proof -
  have h: "h < length (sy_hubs s)" using groups_okD(2)[OF grp t] by (simp add: task_ok_def c)
  have fin: "hub_served (finish t oc False s')"
    if "hub_served s'" "groups_ok s'" "t < length (sy_tasks s')" "tk_coro (tk s' t) = Grace_timer h" for oc s'
    unfolding finish_def
  proof (rule hub_served_task[OF that(1,2) _ that(3)])
    show "waiters_ok (upd_task t (\<lambda>k. k\<lparr>tk_phase := Finished oc, tk_cb := False\<rparr>) s')" if "waiters_ok s'"
      by (rule waiters_ok_task[OF that \<open>groups_ok s'\<close> \<open>t < length (sy_tasks s')\<close>])
        (simp_all add: \<open>tk_coro (tk s' t) = Grace_timer h\<close> is_reviver_def)
  qed (use that in simp)
  let ?s1 = "fold (\<lambda>m s. case m of None \<Rightarrow> s | Some u \<Rightarrow> cancel u s) (group_slots (hub s h)) s"
  have sl: "slots_ok s h" by (rule groups_okD(1)[OF grp h])
  have "hub_served ?s1" if "\<not> hub_has_consumers s h"
    by (rule hub_served_idle_touches[OF ok grp touches_slots[OF slot_leaves[OF sl] order_refl]
          slot_leaves[OF sl] that])
      (rule slot_foreign[OF sl], simp)
  moreover have "groups_ok ?s1" "t < length (sy_tasks ?s1)" "tk_coro (tk ?s1 t) = Grace_timer h"
    using groups_ok_core[OF grp core_slots] t c core_task(1)[OF core_slots t] by simp_all
  ultimately show ?thesis using fin ok grp t c by (simp add: stop_after_grace_def)
qed

lemma waiters_ok_end_waiter:
  assumes ok: "waiters_ok s" and grp: "groups_ok s" and t: "t < length (sy_tasks s)"
    and c: "tk_coro (tk s t) = Reviver h r f b" and nd: "\<not> task_done s t"
  shows "waiters_ok (finish t oc cb (upd_hub h (\<lambda>x. x\<lparr>hb_revive_task := None\<rparr>) s))"
proof -
  let ?s = "finish t oc cb (upd_hub h (\<lambda>x. x\<lparr>hb_revive_task := None\<rparr>) s)"
  have len: "length (sy_tasks ?s) = length (sy_tasks s)"
    and tk: "\<And>w. w < length (sy_tasks s) \<Longrightarrow>
      tk ?s w = (if w = t then (tk s t)\<lparr>tk_phase := Finished oc, tk_cb := cb\<rparr> else tk s w)"
    by (simp_all add: finish_def)
  have "waiter_at ?s h'" if h': "h' < length (sy_hubs s)" for h'
  proof -
    have w: "w < length (sy_tasks s) \<and> (\<exists>r f b. tk_coro (tk s w) = Reviver h' r f b)"
      if "hb_revive_task (hub s h') = Some w" for w
      using groups_okD(1)[OF grp h'] that by (simp add: slots_ok_def)
    show ?thesis
      using waiters_okD(1)[OF ok h'] w h' c by (auto simp: waiter_at_def tk task_done_def)
  qed
  moreover have "waiter_task ?s w" if w: "w < length (sy_tasks s)" for w
    using waiters_okD(2)[OF ok w] waiters_okD(2)[OF ok t] w c nd groups_okD(2)[OF grp w]
    by (cases "w = t"; cases "tk_coro (tk s w)")
      (auto simp: waiter_task_def tk task_done_def task_cancelling_def task_ok_def)
  ultimately show ?thesis using waiters_okD(3)[OF ok] by (simp add: waiters_ok_def len)
qed

lemma put_group_end_waiter:
  assumes "t < length (sy_tasks s)"
  shows "finish t oc cb (upd_hub h (\<lambda>x. x\<lparr>hb_revive_task := None\<rparr>) (put_group h s)) =
    put_group h (finish t oc cb (upd_hub h (\<lambda>x. x\<lparr>hb_revive_task := None\<rparr>) s))"
  using assms
  by (cases "h < length (sy_hubs s)"; cases "hub s h")
    (auto simp: put_group_def Let_def finish_def upd_task_def upd_hub_def add_task_def
      list_update_append nth_append list_update_beyond intro!: sys.equality)

text \<open>The waiter wakes: as the current waiter of its hub it rebuilds the group exactly when a consumer
  is there.\<close>

lemma step_revive:
  assumes ok: "hub_served s" and grp: "groups_ok s" and t: "t < length (sy_tasks s)"
    and c: "tk_coro (tk s t) = Reviver h r f b" and p: "tk_phase (tk s t) = Running"
    and dn: "list_all (task_done s) (awaited (Reviver h r f b))"
  shows "hub_served (revive_after_group h r t s)"
proof (cases "rg_close s = Not_closing")
  case True
  let ?e = "finish t Returned False (upd_hub h (\<lambda>x. x\<lparr>hb_revive_task := None\<rparr>) s)"
  let ?s' = "if hub_has_consumers s h then put_group h ?e else ?e"
  have w: "waiters_ok s" using ok True by (simp add: hub_served_def)
  have nd: "\<not> task_done s t" by (simp add: task_done_def p)
  have h: "h < length (sy_hubs s)" using groups_okD(2)[OF grp t] by (simp add: task_ok_def c)
  have wt: "\<not> task_cancelling s t" "hb_revive_task (hub s h) = Some t"
    using waiters_okD(2)[OF w t] nd c by (simp_all add: waiter_task_def)
  have at: "\<not> hb_closing (hub s h)" "hb_task (hub s h) = r" "hb_flush_task (hub s h) = f"
    "hb_heartbeat_task (hub s h) = b"
    using waiters_okD(1)[OF w h] wt(2) c by (simp_all add: waiter_at_def)
  have quiet: "list_all (member_quiet s) (group_slots (hub s h))"
    using dn at by (auto simp: group_slots_def member_quiet_def awaited_def map_filter_simps
        split: option.splits)
  have res: "revive_after_group h r t s = ?s'"
    using wt at quiet h
    by (simp add: revive_after_group_def Let_def spawn_quiet clear_revive_if_current_def put_group_tasks(4)
        put_group_end_waiter[OF t])
  have we: "waiters_ok ?e" by (rule waiters_ok_end_waiter[OF w grp t c nd])
  have ge: "groups_ok ?e"
    by (rule groups_ok_finish, rule groups_ok_upd_hub[OF grp]) (simp_all add: group_slots_def)
  have ws: "waiters_ok ?s'" using we waiters_ok_put_group[OF we ge] h by simp
  have ap: "apart h' s ?s'" if "h' \<noteq> h" for h'
  proof -
    have "apart h' s ?e"
      unfolding finish_def
      by (rule apart_trans[OF apart_upd_hub apart_upd_task]) (use that c in auto)
    thus ?thesis using apart_trans[OF _ apart_put_group] that by auto
  qed
  have "hub_served ?s'"
  proof (rule hub_served_at[OF ok grp, where h = h])
    show "slot_served ?s' h" if "hub_has_consumers ?s' h"
    proof -
      have "hub_has_consumers s h" using that h by (auto simp: hub_has_consumers_def split: if_splits)
      thus ?thesis using served_put_group[of h ?e] h by simp
    qed
    show "hub_has_consumers s h'" if "h' \<noteq> h" "rg_global s = Some h'" "hub_has_consumers ?s' h'" for h'
      using that ap[OF that(1)] by (auto simp: hub_has_consumers_def apart_def split: if_splits)
  qed (use ws ap in auto)
  thus ?thesis by (simp only: res)
next
  case False
  have "rg_close (revive_after_group h r t s) = rg_close s"
    by (simp add: revive_after_group_def Let_def clear_revive_if_current_def spawn_group_def)
  thus ?thesis using False by (simp add: hub_served_def)
qed

lemma hub_served_fields:
  assumes ok: "hub_served s" and grp: "groups_ok s" and same: "sy_tasks s' = sy_tasks s" "sy_hubs s' = sy_hubs s"
    "rg_close s' = rg_close s" "rg_global s' \<in> {rg_global s, None}"
    and tok: "sy_token_count s' \<le> sy_token_count s" "rg_global s' = None \<Longrightarrow> sy_token_count s' \<le> 0"
  shows "hub_served s'"
proof (cases "rg_close s = Not_closing")
  case True
  have "waiters_ok s" using ok True by (simp add: hub_served_def)
  hence "waiters_ok s'" by (rule waiters_ok_fields) (use assms in auto)
  moreover have "task_done s' = task_done s" "task_cancelling s' = task_cancelling s"
    using same by (simp_all add: fun_eq_iff task_done_def task_cancelling_def)
  hence "slot_served s' h = slot_served s h" for h
    using same by (simp add: slot_served_def member_live_def split: option.split)
  ultimately show ?thesis
    using ok same tok by (auto simp: hub_served_def hub_has_consumers_def)
qed (use same in \<open>simp add: hub_served_def\<close>)

lemma hub_served_token: "hub_served s \<Longrightarrow> rg_close s = Not_closing \<Longrightarrow> rg_global s = None \<Longrightarrow> sy_token_count s \<le> 0"
  by (simp add: hub_served_def waiters_ok_def)

lemma hub_served_closed: "rg_close s \<noteq> Not_closing \<Longrightarrow> hub_served s"
  by (simp add: hub_served_def)

lemma clear_removal_fields [simp]:
  "sy_tasks (clear_removal_if_current t s) = sy_tasks s" "sy_hubs (clear_removal_if_current t s) = sy_hubs s"
  "sy_token_count (clear_removal_if_current t s) = sy_token_count s"
  "rg_global (clear_removal_if_current t s) = rg_global s"
  "rg_close (clear_removal_if_current t s) = rg_close s"
  "rg_total (clear_removal_if_current t s) = rg_total s"
  "rg_max_dir (clear_removal_if_current t s) = rg_max_dir s"
  "rg_max_total (clear_removal_if_current t s) = rg_max_total s"
  "rg_next_sub (clear_removal_if_current t s) = rg_next_sub s"
  by (simp_all add: clear_removal_if_current_def)

lemma hub_has_consumers_clear [simp]: "hub_has_consumers (clear_removal_if_current t s) h = hub_has_consumers s h"
  by (simp add: hub_has_consumers_def)

lemma hub_served_clear_removal:
  assumes "hub_served s" and "groups_ok s"
  shows "hub_served (clear_removal_if_current t s)"
proof (cases "rg_close s = Not_closing")
  case True
  show ?thesis
    by (rule hub_served_fields[OF assms]) (simp_all add: hub_served_token[OF assms(1) True])
qed (simp add: hub_served_closed)

text \<open>The end of a removal task: it is no group member and no waiter.\<close>

lemma hub_served_end_removal:
  assumes "hub_served s" and "groups_ok s" and "t < length (sy_tasks s)"
    and c: "tk_coro (tk s t) = Removal h ts"
  shows "hub_served (finish t oc False s)"
  unfolding finish_def
proof (rule hub_served_task[OF assms(1,2) _ assms(3)])
  show "waiters_ok (upd_task t (\<lambda>k. k\<lparr>tk_phase := Finished oc, tk_cb := False\<rparr>) s)" if "waiters_ok s"
    by (rule waiters_ok_task[OF that assms(2,3)]) (simp_all add: c is_reviver_def)
qed (simp add: c)

lemma extendsD: "extends s s' \<Longrightarrow> t < length (sy_tasks s) \<Longrightarrow>
    t < length (sy_tasks s') \<and> tk_coro (tk s' t) = tk_coro (tk s t)"
  by (simp add: extends_def)

lemma extends_disarm: "extends s (disarm_stop h s)"
  using extends_trans[OF extends_core[OF core_cancel] extends_upd_hub]
  by (auto simp: disarm_stop_def extends_core split: option.splits)

lemma extends_ensure: "extends s (ensure_upstream h s)"
proof -
  have "extends (disarm_stop h s) (arm_reviver h (disarm_stop h s))"
    unfolding arm_reviver_def Let_def
    by (rule extends_trans[OF extends_trans[OF extends_core[OF core_live_members] extends_add_task] extends_upd_hub])
  thus ?thesis
    using extends_trans[OF extends_disarm extends_put_group[of "disarm_stop h s" h]]
      extends_trans[OF extends_disarm \<open>extends (disarm_stop h s) (arm_reviver h (disarm_stop h s))\<close>]
      extends_disarm[of s h] extends_core[OF refl, of s]
    by (simp add: ensure_upstream_def Let_def spawn_quiet)
qed

lemma hub_served_removal_tail:
  assumes ok: "hub_served s" and grp: "groups_ok s" and t: "t < length (sy_tasks s)"
    and c: "tk_coro (tk s t) = Removal h ts"
  shows "hub_served (removal_tail h t s)"
proof -
  let ?s1 = "clear_removal_if_current t s"
  have s1: "hub_served ?s1" "groups_ok ?s1"
    by (rule hub_served_clear_removal[OF ok grp], rule groups_ok_clear_removal[OF grp])
  have h: "h < length (sy_hubs ?s1)" using groups_okD(2)[OF grp t] by (simp add: task_ok_def c)
  let ?s2 = "ensure_upstream h ?s1"
  have s2: "hub_served ?s2" "groups_ok ?s2"
    by (rule hub_served_ensure[OF s1 h], rule groups_ok_ensure[OF s1(2) h])
  have t2: "t < length (sy_tasks ?s2)" "tk_coro (tk ?s2 t) = Removal h ts"
    using extendsD[OF extends_ensure, of t ?s1 h] t c by simp_all
  let ?s3 = "s\<lparr>rg_recycled := rg_recycled s @ [h], rg_global := None\<rparr>"
  have s3: "hub_served ?s3" if "\<not> hub_has_consumers s h"
    by (rule hub_served_fields[OF ok grp]) (use that in \<open>auto simp: hub_has_consumers_def\<close>)
  have g3: "groups_ok ?s3" by (rule groups_ok_fields[OF grp]) simp_all
  show ?thesis
    using hub_served_end_removal[OF s1] hub_served_end_removal[OF s2 t2] t c
      hub_served_end_removal[OF hub_served_clear_removal[OF s3 g3] groups_ok_clear_removal[OF g3]]
    by (simp add: removal_tail_def Let_def)
qed

lemma removal_targets_foreign:
  assumes "groups_ok s" and "h < length (sy_hubs s)" and "h' \<noteq> h"
  shows "foreign h' s (set (removal_targets h s))"
  using slot_foreign[OF groups_okD(1)[OF assms(1,2)] not_sym[OF assms(3)]]
    stop_foreign[OF groups_okD(1)[OF assms(1,2)], of h']
  by (auto simp: foreign_def removal_targets_def map_filter_simps group_slots_def split: option.splits)

lemma step_removal_wake:
  assumes ok: "hub_served s" and grp: "groups_ok s" and t: "t < length (sy_tasks s)"
    and c: "tk_coro (tk s t) = Removal h None"
  shows "hub_served (removal_wake h t s)"
proof -
  let ?ts = "removal_targets h s"
  let ?s1 = "fold cancel_fresh ?ts s"
  have h: "h < length (sy_hubs s)" using groups_okD(2)[OF grp t] by (simp add: task_ok_def c)
  have early: "hub_served (finish t Returned False (clear_removal_if_current t s))"
    by (rule hub_served_end_removal[OF hub_served_clear_removal[OF ok grp] groups_ok_clear_removal[OF grp]])
      (use t c in simp_all)
  have tail: "hub_served (removal_tail h t s)" by (rule hub_served_removal_tail[OF ok grp t c])
  have lv: "leaves s (set ?ts)" by (rule removal_targets_leaves[OF grp h])
  have s1: "hub_served ?s1" if "\<not> hub_has_consumers s h"
    by (rule hub_served_idle_touches[OF ok grp touches_fresh[OF lv order_refl] lv that])
      (rule removal_targets_foreign[OF grp h])
  have t1: "t < length (sy_tasks ?s1)" "tk_coro (tk ?s1 t) = Removal h None" "groups_ok ?s1"
    using t c core_task(1)[OF core_fresh t] groups_ok_core[OF grp core_fresh] by simp_all
  have "hub_served (upd_task t (\<lambda>k. k\<lparr>tk_coro := Removal h (Some ?ts)\<rparr>) ?s1)" if "hub_served ?s1"
  proof (rule hub_served_task[OF that t1(3) _ t1(1)])
    show "waiters_ok (upd_task t (\<lambda>k. k\<lparr>tk_coro := Removal h (Some ?ts)\<rparr>) ?s1)" if "waiters_ok ?s1"
      by (rule waiters_ok_task[OF that t1(3,1)]) (simp_all add: t1(2) is_reviver_def)
  qed (simp add: t1(2))
  thus ?thesis using early tail s1 by (simp add: removal_wake_def Let_def)
qed

lemma step_gathered:
  assumes ok: "hub_served s" and grp: "groups_ok s" and t: "t < length (sy_tasks s)"
    and c: "tk_coro (tk s t) = Removal h ts"
  shows "hub_served (removal_gathered h t s)"
  using hub_served_removal_tail[OF assms] hub_served_end_removal[OF hub_served_clear_removal[OF ok grp]
      groups_ok_clear_removal[OF grp]] t c
  by (simp add: removal_gathered_def)

lemma hub_served_get_global:
  assumes ok: "hub_served s" and grp: "groups_ok s"
  shows "hub_served (snd (get_global s))"
proof (cases "rg_global s = None \<and> rg_close s = Not_closing")
  case True
  let ?s = "s\<lparr>sy_hubs := sy_hubs s @ [new_hub], rg_global := Some (length (sy_hubs s))\<rparr>"
  have w: "waiters_ok s" "sy_token_count s \<le> 0" using ok True by (simp_all add: hub_served_def waiters_ok_def)
  have "waiters_ok ?s"
    by (rule waiters_ok_change[OF w(1) grp]) (auto simp: same_waiters_def nth_append less_Suc_eq)
  hence "hub_served ?s"
    using w(2) by (intro hub_servedI) (auto simp: hub_has_consumers_def nth_append new_hub_def)
  thus ?thesis using True by (simp add: get_global_def Let_def)
next
  case False
  thus ?thesis using ok
    by (cases "rg_global s") (auto simp: get_global_def Let_def hub_served_def)
qed

lemma get_global_fields:
  assumes "get_global s = (h, s1)"
  shows "rg_global s1 = Some h" "rg_close s1 = rg_close s" "rg_total s1 = rg_total s"
    "rg_max_dir s1 = rg_max_dir s" "rg_max_total s1 = rg_max_total s" "rg_next_sub s1 = rg_next_sub s"
    "sy_token_count s1 = sy_token_count s" "sy_tasks s1 = sy_tasks s" "rg_removal s1 = rg_removal s"
  using assms by (auto simp: get_global_def Let_def split: option.splits)

lemma hub_served_add_task:
  assumes ok: "hub_served s" and grp: "groups_ok s" and c: "\<not> is_reviver c"
  shows "hub_served (add_task c s)"
  by (rule hub_served_other[OF ok grp])
    (use ok grp c in \<open>auto simp: hub_has_consumers_def intro: apart_add_task waiters_ok_add_task\<close>)

lemma hub_served_set_removal:
  "hub_served (s\<lparr>rg_removal := m\<rparr>) = hub_served s"
  by (simp add: hub_served_def waiters_ok_def waiter_at_def waiter_task_def slot_served_def hub_has_consumers_def
      member_live_def task_done_def task_cancelling_def cong: option.case_cong)

lemma hub_served_maybe_arm:
  assumes "hub_served s" and "groups_ok s"
  shows "hub_served (maybe_arm_grace_if_idle s)"
  using hub_served_add_task[OF assms] assms(1)
  by (simp add: maybe_arm_grace_if_idle_def hub_served_set_removal is_reviver_def split: option.split)

text \<open>Cancelling the removal task hands the cancellation to the tasks it waits for; a waiter is never
  among them.\<close>

lemma cancel_removal_waiters:
  assumes w: "waiters_ok s" and grp: "groups_ok s"
  shows "waiters_ok (cancel_pending_removal s)"
proof (cases "rg_removal s")
  case (Some t)
  obtain h ts where t: "t < length (sy_tasks s)" "tk_coro (tk s t) = Removal h ts"
    using grp Some by (auto simp: groups_ok_def)
  have lv: "leaves s (set (awaited (tk_coro (tk s t))))"
    using groups_okD(2)[OF grp t(1)] by (auto simp: task_ok_def t(2) awaited_def split: option.splits)
  hence "plain s (insert t (set (awaited (tk_coro (tk s t)))))"
    using leaves_plain[OF lv] t(2) by (simp add: plain_def is_reviver_def)
  hence "waiters_ok (cancel t s)" by (rule waiters_ok_touches[OF w grp touches_cancel])
  hence "waiters_ok ((cancel t s)\<lparr>rg_removal := None\<rparr>)"
    by (rule waiters_ok_fields)
      (use groups_ok_core[OF grp core_cancel] waiters_okD(3)[OF w] in simp_all)
  thus ?thesis by (simp add: cancel_pending_removal_def Some)
qed (simp add: cancel_pending_removal_def w)

lemma cancel_removal_fields [simp]:
  "sy_hubs (cancel_pending_removal s) = sy_hubs s" "rg_global (cancel_pending_removal s) = rg_global s"
  "rg_close (cancel_pending_removal s) = rg_close s"
  "rg_total (cancel_pending_removal s) = rg_total s"
  "rg_max_dir (cancel_pending_removal s) = rg_max_dir s"
  "rg_max_total (cancel_pending_removal s) = rg_max_total s"
  "rg_next_sub (cancel_pending_removal s) = rg_next_sub s"
  "sy_token_count (cancel_pending_removal s) = sy_token_count s"
  by (simp_all add: cancel_pending_removal_def split: option.split)

lemma token_reach_facts:
  assumes ok: "hub_served s" and grp: "groups_ok s"
  shows "hub_served (token_reach s)" "groups_ok (token_reach s)"
    "\<exists>h. rg_global (token_reach s) = Some h \<and> (rg_close s = Not_closing \<longrightarrow> slot_served (token_reach s) h)"
    "rg_close (token_reach s) = rg_close s"
proof -
  obtain h s1 where g: "get_global s = (h, s1)" by fastforce
  have s1: "hub_served s1" "groups_ok s1" "h < length (sy_hubs s1)"
    using hub_served_get_global[OF ok grp] groups_ok_get_global[OF grp] get_global_hub[OF grp g] g by simp_all
  let ?s2 = "cancel_pending_removal s1"
  have s2: "groups_ok ?s2" "h < length (sy_hubs ?s2)" "rg_global ?s2 = Some h" "rg_close ?s2 = rg_close s"
    using groups_ok_cancel_removal[OF s1(2)] s1(3) get_global_fields[OF g] by simp_all
  have w: "waiters_ok ?s2" if "rg_close s = Not_closing"
    using cancel_removal_waiters[OF _ s1(2)] s1(1) get_global_fields[OF g] that by (simp add: hub_served_def)
  have eq: "token_reach s = ensure_upstream h ?s2" by (simp add: token_reach_def g)
  show "hub_served (token_reach s)"
    using ensure_serves[OF w s2(1,2,3)] s2(4) by (cases "rg_close s = Not_closing") (auto simp: eq hub_served_closed)
  show "groups_ok (token_reach s)" by (rule groups_ok_token_reach[OF grp])
  show "rg_close (token_reach s) = rg_close s" using s2(4) by (simp add: eq)
  have "slot_served (token_reach s) h" if "rg_close s = Not_closing"
    using served_ensure[OF s2(1,2)] waiters_okD(1)[OF w[OF that] s2(2)] by (simp add: eq waiter_at_def)
  thus "\<exists>h. rg_global (token_reach s) = Some h \<and> (rg_close s = Not_closing \<longrightarrow> slot_served (token_reach s) h)"
    using s2(3) by (simp add: eq)
qed

lemma step_token:
  assumes ok: "hub_served s" and grp: "groups_ok s"
  shows "hub_served (token_attach s)" "hub_served (token_attach_failed s)" "hub_served (token_detach s)"
proof -
  let ?r = "token_reach s"
  note r = token_reach_facts[OF ok grp]
  show "hub_served (token_attach s)"
  proof (cases "rg_close s = Not_closing")
    case True
    let ?s = "?r\<lparr>sy_token_count := sy_token_count ?r + 1\<rparr>"
    have "waiters_ok ?r" using r(1,4) True by (simp add: hub_served_def)
    hence "waiters_ok ?s" by (rule waiters_ok_fields) (use r(2,3) in auto)
    moreover have "slot_served ?s h = slot_served ?r h" for h
      by (simp add: slot_served_def member_live_def task_done_def task_cancelling_def cong: option.case_cong)
    moreover obtain h where "rg_global ?r = Some h" "slot_served ?r h" using r(3) True by blast
    ultimately have "hub_served ?s" by (intro hub_servedI) simp_all
    thus ?thesis by (simp only: token_attach_def Let_def)
  qed (simp add: token_attach_def hub_served_closed r(4) Let_def)
  show "hub_served (token_attach_failed s)"
    unfolding token_attach_failed_def by (rule hub_served_maybe_arm[OF r(1,2)])
  let ?d = "s\<lparr>sy_token_count := sy_token_count s - 1\<rparr>"
  have "hub_served ?d"
  proof (cases "rg_close s = Not_closing")
    case True
    have "rg_global s = None \<longrightarrow> sy_token_count s - 1 \<le> 0" using hub_served_token[OF ok True] by fastforce
    thus ?thesis by (intro hub_served_fields[OF ok grp]) simp_all
  qed (simp add: hub_served_closed)
  moreover have "groups_ok ?d" by (rule groups_ok_fields[OF grp]) simp_all
  ultimately show "hub_served (token_detach s)" unfolding token_detach_def by (rule hub_served_maybe_arm)
qed

lemma hub_served_set_other:
  "hub_served (s\<lparr>rg_total := n\<rparr>) = hub_served s" "hub_served (s\<lparr>rg_rejected := n\<rparr>) = hub_served s"
  by (simp_all add: hub_served_def waiters_ok_def waiter_at_def waiter_task_def slot_served_def hub_has_consumers_def
      member_live_def task_done_def task_cancelling_def cong: option.case_cong)

lemma hub_served_hub_subscribe:
  assumes ok: "hub_served s" and grp: "groups_ok s" and g: "rg_global s = Some h"
  shows "hub_served (hub_subscribe h s)"
proof (cases "rg_close s = Not_closing")
  case True
  let ?n = "s\<lparr>rg_next_sub := Suc (rg_next_sub s)\<rparr>"
  let ?s = "upd_hub h (\<lambda>x. x\<lparr>hb_subscribers := hb_subscribers x @ [rg_next_sub s]\<rparr>) ?n"
  have h: "h < length (sy_hubs s)" by (rule groups_okD(3)[OF grp g])
  have w: "waiters_ok s" using ok True by (simp add: hub_served_def)
  have n: "groups_ok ?n" "waiters_ok ?n"
    by (rule groups_ok_fields[OF grp], simp_all) (rule waiters_ok_fields[OF w grp], simp_all add: g)
  have "groups_ok ?s" by (rule groups_ok_upd_hub[OF n(1)]) (simp_all add: group_slots_def)
  moreover have "waiters_ok ?s"
    by (rule waiters_ok_upd_hub[OF n(2,1)]) (simp add: same_slots_def group_slots_def)
  ultimately show ?thesis unfolding hub_subscribe_def using h g by (intro ensure_serves) simp_all
qed (simp add: hub_served_closed hub_subscribe_def)

lemma step_subscribe:
  assumes ok: "hub_served s" and grp: "groups_ok s"
  shows "hub_served (snd (reg_subscribe s))"
proof -
  obtain h s1 where g: "get_global s = (h, s1)" by fastforce
  have "hub_served s1" "groups_ok s1" "rg_global s1 = Some h"
    using hub_served_get_global[OF ok grp] groups_ok_get_global[OF grp] get_global_fields[OF g] g by simp_all
  thus ?thesis
    using hub_served_hub_subscribe[of s1 h] by (simp add: reg_subscribe_def g Let_def hub_served_set_other)
qed

lemma hub_served_drop_subscriber:
  assumes ok: "hub_served s" and grp: "groups_ok s" and h: "h < length (sy_hubs s)"
  shows "hub_served (upd_hub h (\<lambda>x. x\<lparr>hb_subscribers := removeAll i (hb_subscribers x)\<rparr>) s)"
proof (rule hub_served_at[OF ok grp, where h = h])
  let ?s = "upd_hub h (\<lambda>x. x\<lparr>hb_subscribers := removeAll i (hb_subscribers x)\<rparr>) s"
  show "waiters_ok ?s" if "waiters_ok s"
    by (rule waiters_ok_upd_hub[OF that grp]) (simp add: same_slots_def group_slots_def)
  show "slot_served ?s h" if "rg_close s = Not_closing" "rg_global s = Some h" "hub_has_consumers ?s h"
  proof -
    have "hub_has_consumers s h" using that(3) h by (auto simp: hub_has_consumers_def)
    hence "slot_served s h" using ok that by (simp add: hub_served_def)
    thus ?thesis
      by (rule served_keep) (use h in \<open>simp_all add: same_slots_def group_slots_def\<close>)
  qed
qed (auto simp: hub_has_consumers_def upd_hub_def apart_def)

lemma step_unsubscribe:
  assumes ok: "hub_served s" and grp: "groups_ok s"
  shows "hub_served (reg_unsubscribe i s)"
proof (cases "rg_global s")
  case (Some h)
  let ?s = "upd_hub h (\<lambda>x. x\<lparr>hb_subscribers := removeAll i (hb_subscribers x)\<rparr>) s"
  have "hub_served (?s\<lparr>rg_total := n\<rparr>)" for n
    using hub_served_drop_subscriber[OF ok grp groups_okD(3)[OF grp Some]] by (simp add: hub_served_set_other)
  moreover have "groups_ok (?s\<lparr>rg_total := n\<rparr>)" for n
    by (rule groups_ok_fields[OF groups_ok_drop_subscriber[OF grp]]) simp_all
  ultimately show ?thesis using ok by (simp add: reg_unsubscribe_def Some Let_def hub_served_maybe_arm)
qed (simp add: reg_unsubscribe_def ok)

lemma step_bare_unsubscribe:
  assumes ok: "hub_served s" and grp: "groups_ok s" and h: "h < length (sy_hubs s)"
  shows "hub_served (hub_unsubscribe h i s)"
proof -
  let ?s = "upd_hub h (\<lambda>x. x\<lparr>hb_subscribers := removeAll i (hb_subscribers x)\<rparr>) s"
  let ?a = "add_task (Grace_timer h) ?s" and ?g = "\<lambda>x. x\<lparr>hb_stop_task := Some (length (sy_tasks s))\<rparr>"
  have s: "hub_served ?s" "groups_ok ?s"
    by (rule hub_served_drop_subscriber[OF assms], rule groups_ok_drop_subscriber[OF grp])
  have a: "hub_served ?a" by (rule hub_served_add_task[OF s]) (simp add: is_reviver_def)
  have ga: "groups_ok ?a" by (rule groups_ok_add_task[OF s(2)])
      (use h in \<open>simp add: task_ok_def add_task_def nth_append\<close>)
  have "hub_served (upd_hub h ?g ?a)"
  proof (rule hub_served_at[OF a ga, where h = h])
    show "waiters_ok (upd_hub h ?g ?a)" if "waiters_ok ?a"
      by (rule waiters_ok_upd_hub[OF that ga]) (simp add: same_slots_def group_slots_def)
    show "slot_served (upd_hub h ?g ?a) h"
      if "rg_close ?a = Not_closing" "rg_global ?a = Some h" "hub_has_consumers (upd_hub h ?g ?a) h"
    proof (rule served_keep)
      show "slot_served ?a h" using a that h by (simp add: hub_served_def hub_has_consumers_def)
    qed (use h in \<open>simp_all add: same_slots_def group_slots_def\<close>)
  qed (auto simp: hub_has_consumers_def apart_upd_hub groups_okD(3)[OF grp])
  thus ?thesis using s(1) by (simp add: hub_unsubscribe_def Let_def)
qed

lemma step_close_begin:
  assumes ok: "hub_served s" and grp: "groups_ok s"
  shows "hub_served (close_begin s)"
proof (cases "rg_global s")
  case None
  thus ?thesis
    using ok cancel_removal_waiters[OF _ grp] by (auto simp: close_begin_def hub_served_def)
next
  case (Some h)
  have "rg_close (close_begin s) \<noteq> Not_closing"
    by (simp add: close_begin_def Some Let_def close_cancel_pass_def close_end_def split: option.split)
  thus ?thesis by (rule hub_served_closed)
qed

lemma close_pass_closed: "rg_close (close_cancel_pass ts m s) \<noteq> Not_closing"
  by (simp add: close_cancel_pass_def Let_def close_end_def)

lemma hub_served_step:
  assumes "life_step bare s s'" and "hub_served s" and "groups_ok s"
  shows "hub_served s'"
  using assms
  by (induction rule: life_step.induct)
    (simp_all add: step_start step_unstarted step_member_end step_callback step_timer step_revive
      step_removal_wake step_gathered hub_served_get_global step_subscribe step_unsubscribe step_token
      hub_served_maybe_arm step_close_begin hub_served_closed[OF close_pass_closed]
      step_bare_unsubscribe, simp add: hub_served_closed close_end_def)

interpretation served_inv: life_invariant bare hub_served for bare
proof
  show "hub_served (fresh_sys a b)" for a b by (simp add: hub_served_def waiters_ok_def fresh_sys_def)
qed (rule hub_served_step)

lemmas reachable_hub_served = served_inv.always

lemma reachable_served:
  assumes "reachable bare s" and "rg_close s = Not_closing" and "rg_global s = Some h" and "hub_has_consumers s h"
  shows "served s h"
proof -
  note grp = reachable_groups_ok[OF assms(1)]
  have "waiters_ok s" "slot_served s h"
    using reachable_hub_served[OF assms(1)] assms(2-4) by (simp_all add: hub_served_def)
  then show ?thesis by (rule servedI[OF grp _ groups_okD(3)[OF grp assms(3)]])
qed

end
