(* ===== verification/Hub_Guarantees.thy ===== *)
theory Hub_Guarantees
  imports Hub_Served
begin

text \<open>
  What the supervision of the hub's tasks guarantees: one task group per hub, a served hub for every
  consumer, a closing hub that is never rebuilt, an admission ledger that agrees with the subscriber
  set; and two interleavings in which \<open>HubRegistry.close()\<close> does what its comments rule out.
\<close>

section \<open>Concrete runs\<close>

text \<open>One subscriber on a fresh registry, its group started; then the flush task dies and the
  supervisor callback runs; then the waiter it armed starts.\<close>

definition demo_sub :: sys where
  "demo_sub = snd (reg_subscribe (fresh_sys 10 10))"

definition demo_up :: sys where
  "demo_up = start_task 2 (start_task 1 (start_task 0 demo_sub))"

definition demo_dead :: sys where
  "demo_dead = finish 1 Died True demo_up"

definition demo_unwind :: sys where
  "demo_unwind = start_task 3 (on_done 1 0 Flush_role 0 1 2 Died demo_dead)"

lemmas demo_defs = demo_sub_def demo_up_def demo_dead_def demo_unwind_def

lemma demo_sub_reachable: "reachable bare demo_sub"
  unfolding demo_sub_def by (rule reachable.step[OF reachable.fresh life_step.subscribe])

lemma demo_up_reachable: "reachable bare demo_up"
  unfolding demo_up_def
  by (rule reachable.step[OF reachable.step[OF reachable.step[OF demo_sub_reachable life_step.start]
          life_step.start] life_step.start]; code_simp)

lemma demo_dead_reachable: "reachable bare demo_dead"
  unfolding demo_dead_def
  by (rule reachable.step[OF demo_up_reachable life_step.member_end[where h = 0 and ro = Flush_role
          and r = 0 and f = 1 and b = 2]]; code_simp)

lemma demo_unwind_reachable: "reachable bare demo_unwind"
  unfolding demo_unwind_def
  by (rule reachable.step[OF reachable.step[OF demo_dead_reachable life_step.callback] life_step.start]; code_simp)

section \<open>One group per hub\<close>

text \<open>C30. However the tasks, callbacks and callers interleave, two unfinished group members of one hub
  belong to the same run / flush / heartbeat group: two groups never run against one subscriber set.\<close>

theorem one_group_per_hub:
  assumes "reachable bare s"
    and "t < length (sy_tasks s)" and "tk_coro (tk s t) = Member h ro r f b" and "\<not> task_done s t"
    and "u < length (sy_tasks s)" and "tk_coro (tk s u) = Member h ro' r' f' b'" and "\<not> task_done s u"
  shows "(r', f', b') = (r, f, b)"
proof -
  have ok: "groups_ok s" using assms(1) by (rule reachable_groups_ok)
  have "hb_task (hub s h) = Some r" "group_at s h r f b"
    using groups_okD(2)[OF ok assms(2)] assms(3,4) by (simp_all add: task_ok_def)
  moreover have "hb_task (hub s h) = Some r'" "group_at s h r' f' b'"
    using groups_okD(2)[OF ok assms(5)] assms(6,7) by (simp_all add: task_ok_def)
  ultimately show ?thesis by (simp add: group_at_def)
qed

theorem one_group_per_hub_witness:
  "\<not> task_done demo_unwind 0 \<and> \<not> task_done demo_unwind 2 \<and> (0 :: nat, 1 :: nat, 2 :: nat) = (0, 1, 2)"
proof -
  have s: "0 < length (sy_tasks demo_unwind)" "tk_coro (tk demo_unwind 0) = Member 0 Run_role 0 1 2"
    "\<not> task_done demo_unwind 0" "2 < length (sy_tasks demo_unwind)"
    "tk_coro (tk demo_unwind 2) = Member 0 Heartbeat_role 0 1 2" "\<not> task_done demo_unwind 2"
    by code_simp+
  show ?thesis using one_group_per_hub[OF demo_unwind_reachable s] s by simp
qed


section \<open>No consumer without a group\<close>

text \<open>C31. Until \<open>close()\<close> is called, the registered hub is served whenever it has a consumer: its run
  task is live, or the task in the waiter slot is a waiter for the hub's current group that is pending
  and not being cancelled, or the run task has died and its supervisor callback, which rebuilds the
  group, has yet to run. A slot that still holds a finished waiter does not count.\<close>

theorem consumers_are_served:
  assumes "reachable bare s" and "rg_close s = Not_closing" and "rg_global s = Some h"
    and "hub_has_consumers s h"
  shows "served s h"
  using assms by (rule reachable_served)

theorem consumers_are_served_witness:
  "hub_has_consumers demo_unwind 0 \<and> served demo_unwind 0"
proof -
  have s: "rg_close demo_unwind = Not_closing" "rg_global demo_unwind = Some 0" "hub_has_consumers demo_unwind 0"
    by code_simp+
  show ?thesis using consumers_are_served[OF demo_unwind_reachable s] s by simp
qed


section \<open>Closing is terminal\<close>

text \<open>The tasks that keep a hub alive: its group members and the waiters that would rebuild it.\<close>

definition owned :: "hid \<Rightarrow> coro \<Rightarrow> bool" where
  "owned h c = (case c of Member h' _ _ _ _ \<Rightarrow> h' = h | Reviver h' _ _ _ \<Rightarrow> h' = h | _ \<Rightarrow> False)"

definition sealed :: "hid \<Rightarrow> sys \<Rightarrow> sys \<Rightarrow> bool" where
  "sealed h s s' \<longleftrightarrow>
     (h < length (sy_hubs s) \<and> hb_closing (hub s h) \<longrightarrow>
      h < length (sy_hubs s') \<and> hb_closing (hub s' h) \<and>
      (\<forall>t<length (sy_tasks s'). owned h (tk_coro (tk s' t)) \<longrightarrow>
         t < length (sy_tasks s) \<and> owned h (tk_coro (tk s t))))"

lemma sealed_refl [simp]: "sealed h s s"
  by (simp add: sealed_def)

lemma sealed_trans: "sealed h s s' \<Longrightarrow> sealed h s' s'' \<Longrightarrow> sealed h s s''"
  unfolding sealed_def by blast

lemma sealed_core: "core s' = core s \<Longrightarrow> sealed h s s'"
  using core_task(1)[of s' s] by (simp add: sealed_def core_fields(1,12)[of s' s])

lemma sealed_fields: "sy_tasks s' = sy_tasks s \<Longrightarrow> sy_hubs s' = sy_hubs s \<Longrightarrow> sealed h s s'"
  by (simp add: sealed_def)

lemma sealed_upd_hub: "(\<And>x. hb_closing x \<Longrightarrow> hb_closing (g x)) \<Longrightarrow> sealed h s (upd_hub h' g s)"
  by (auto simp: sealed_def)

lemma sealed_upd_task:
  "(\<And>k. owned h (tk_coro (g k)) \<Longrightarrow> owned h (tk_coro k)) \<Longrightarrow> sealed h s (upd_task t g s)"
  by (auto simp: sealed_def split: if_splits)

lemma sealed_finish: "sealed h s (finish t oc cb s)"
  unfolding finish_def by (rule sealed_upd_task) simp

lemma sealed_add_task: "\<not> owned h c \<Longrightarrow> sealed h s (add_task c s)"
  by (auto simp: sealed_def less_Suc_eq)

lemma sealed_put_group: "h' \<noteq> h \<Longrightarrow> sealed h s (put_group h' s)"
  unfolding put_group_def Let_def
  by (intro sealed_trans[OF sealed_trans[OF sealed_trans[OF sealed_add_task sealed_add_task] sealed_add_task]
        sealed_upd_hub]) (simp_all add: owned_def)

lemma sealed_closed: "\<not> hb_closing (hub s h) \<Longrightarrow> sealed h s s'"
  by (simp add: sealed_def)

lemma sealed_disarm: "sealed h s (disarm_stop h' s)"
  unfolding disarm_stop_def
  by (auto split: option.splits intro!: sealed_trans[OF sealed_core[OF core_cancel] sealed_upd_hub])

lemma sealed_arm_reviver: "h' \<noteq> h \<Longrightarrow> sealed h s (arm_reviver h' s)"
  unfolding arm_reviver_def Let_def
  by (intro sealed_trans[OF sealed_trans[OF sealed_core[OF core_live_members] sealed_add_task] sealed_upd_hub])
    (simp_all add: owned_def)

lemma sealed_ensure: "sealed h s (ensure_upstream h' s)"
proof (cases "h' = h")
  case True
  thus ?thesis by (cases "hb_closing (hub s h)") (simp_all add: ensure_upstream_def sealed_closed)
next
  case False
  note d = sealed_disarm[of h s h']
  show ?thesis
    using d sealed_trans[OF d sealed_put_group[OF False]] sealed_trans[OF d sealed_arm_reviver[OF False]]
    by (simp add: ensure_upstream_def Let_def spawn_quiet)
qed

lemma sealed_revive:
  assumes "groups_ok s" and t: "t < length (sy_tasks s)" "tk_coro (tk s t) = Reviver h' r f b"
    and all_done: "list_all (task_done s) (awaited (Reviver h' r f b))"
  shows "sealed h s (revive_after_group h' r t s)"
proof -
  have c: "sealed h s' (clear_revive_if_current h' t s')" for s'
    by (simp add: clear_revive_if_current_def sealed_upd_hub)
  have "sealed h s (spawn_group h' s)" if g: "\<not> hb_closing (hub s h')" "hb_task (hub s h') = r"
  proof (cases "h' = h")
    case False
    have tok: "h' < length (sy_hubs s)" "\<exists>r' f' b'. r = Some r' \<and> f = Some f' \<and> b = Some b' \<and> group_at s h' r' f' b'"
      using groups_okD(2)[OF assms(1) t(1)] by (simp_all add: task_ok_def t(2))
    hence "list_all (member_quiet s) (group_slots (hub s h'))"
      using groups_okD(1)[OF assms(1) tok(1)] g(2) all_done
      by (auto simp: slots_ok_def group_slots_def group_at_def member_quiet_def awaited_def map_filter_simps)
    thus ?thesis using sealed_put_group[OF False] by (simp add: spawn_quiet)
  qed (use g in \<open>simp add: sealed_closed\<close>)
  thus ?thesis
    using sealed_trans[OF c sealed_finish] sealed_trans[OF _ sealed_trans[OF c sealed_finish]]
    by (auto simp: revive_after_group_def Let_def)
qed

lemma sealed_on_done: "sealed h s (on_done t h' ro r f b oc s)"
proof -
  let ?s = "upd_task t (\<lambda>k. k\<lparr>tk_cb := False\<rparr>) s"
  have 1: "sealed h s ?s" by (rule sealed_upd_task) simp
  have 2: "sealed h s (cancel_live_members ms ?s)" for ms
    by (rule sealed_trans[OF 1 sealed_core[OF core_live_members]])
  have 3: "sealed h s (cancel_unfinished m (cancel_unfinished m' ?s))" for m m'
    by (rule sealed_trans[OF 1]) (simp add: sealed_core core_unfinished)
  show ?thesis
    using 1 2 3 sealed_trans[OF 2 sealed_ensure] by (simp add: on_done_def Let_def)
qed

lemma sealed_timer: "sealed h s (stop_after_grace h' t s)"
  using sealed_trans[OF sealed_core[OF core_slots] sealed_finish]
  by (simp add: stop_after_grace_def sealed_finish)

lemma sealed_maybe_arm: "sealed h s (maybe_arm_grace_if_idle s)"
proof -
  have "sealed h s ((add_task (Removal h' None) s)\<lparr>rg_removal := m\<rparr>)" for h' m
    by (rule sealed_trans[OF sealed_add_task sealed_fields]) (simp_all add: owned_def)
  thus ?thesis by (simp add: maybe_arm_grace_if_idle_def split: option.split)
qed

lemma sealed_get_global: "sealed h s (snd (get_global s))"
  by (auto simp: get_global_def Let_def sealed_def nth_append split: option.split)

lemma sealed_cancel_removal: "sealed h s (cancel_pending_removal s)"
proof -
  have "sealed h s ((cancel t s)\<lparr>rg_removal := m\<rparr>)" for t m
    by (rule sealed_trans[OF sealed_core[OF core_cancel] sealed_fields]) simp_all
  thus ?thesis by (simp add: cancel_pending_removal_def split: option.split)
qed

lemma sealed_hub_subscribe: "sealed h s (hub_subscribe h' s)"
proof -
  have "sealed h s (s\<lparr>rg_next_sub := n\<rparr>)" for n by (rule sealed_fields) simp_all
  from sealed_trans[OF this sealed_trans[OF sealed_upd_hub sealed_ensure]]
  show ?thesis by (simp add: hub_subscribe_def)
qed

lemma sealed_subscribe: "sealed h s (snd (reg_subscribe s))"
proof -
  obtain h' s1 where g: "get_global s = (h', s1)" by fastforce
  have 1: "sealed h s s1" using sealed_get_global[of h s] g by simp
  have f: "sealed h x (x\<lparr>rg_total := n\<rparr>)" "sealed h x (x\<lparr>rg_rejected := n\<rparr>)" for x n
    by (simp_all add: sealed_fields)
  show ?thesis
    using sealed_trans[OF 1 f(2)] sealed_trans[OF 1 sealed_trans[OF sealed_hub_subscribe f(1)]]
    by (simp add: reg_subscribe_def g Let_def)
qed

lemma sealed_unsubscribe: "sealed h s (reg_unsubscribe i s)"
proof -
  have "sealed h s ((upd_hub h' (\<lambda>x. x\<lparr>hb_subscribers := removeAll i (hb_subscribers x)\<rparr>) s)\<lparr>rg_total := n\<rparr>)"
    for h' n
    by (rule sealed_trans[OF sealed_upd_hub sealed_fields]) simp_all
  from sealed_trans[OF this sealed_maybe_arm]
  show ?thesis by (simp add: reg_unsubscribe_def Let_def split: option.split)
qed

lemma sealed_removal_tail: "sealed h s (removal_tail h' t s)"
proof -
  have c: "sealed h x (clear_removal_if_current t x)" for x by (simp add: sealed_fields)
  have 3: "sealed h s (s\<lparr>rg_recycled := r, rg_global := None\<rparr>)" for r by (simp add: sealed_fields)
  show ?thesis
    using sealed_trans[OF c sealed_finish, of s] sealed_trans[OF c sealed_trans[OF sealed_ensure sealed_finish], of s]
      sealed_trans[OF 3 sealed_trans[OF c sealed_finish]]
    by (simp add: removal_tail_def Let_def)
qed

lemma sealed_removal:
  "sealed h s (removal_wake h' t s)" "sealed h s (removal_gathered h' t s)"
proof -
  have c: "sealed h x (clear_removal_if_current t x)" for x by (simp add: sealed_fields)
  have e: "sealed h s (finish t oc False (clear_removal_if_current t s))" for oc
    by (rule sealed_trans[OF c sealed_finish])
  have p: "sealed h x (upd_task t (\<lambda>k. k\<lparr>tk_coro := Removal h' ts\<rparr>) x)" for x ts
    by (rule sealed_upd_task) (simp add: owned_def)
  show "sealed h s (removal_wake h' t s)"
    using e sealed_removal_tail sealed_trans[OF sealed_core[OF core_fresh] p]
    by (simp add: removal_wake_def Let_def)
  show "sealed h s (removal_gathered h' t s)"
    using e sealed_removal_tail by (simp add: removal_gathered_def)
qed

lemma sealed_close_pass: "sealed h s (close_cancel_pass ts m s)"
proof -
  have "sealed h s (close_end (fold cancel us s))" "sealed h s ((fold cancel us s)\<lparr>rg_close := c\<rparr>)" for us c
    by (rule sealed_trans[OF sealed_core[OF core_fold_cancel] sealed_fields]; simp add: close_end_def)+
  from this this(1)[of "[]"] show ?thesis by (simp add: close_cancel_pass_def Let_def)
qed

lemma sealed_close_begin: "sealed h s (close_begin s)"
proof -
  let ?s = "\<lambda>h'. (upd_hub h' (\<lambda>x. x\<lparr>hb_closing := True\<rparr>) s)\<lparr>rg_removal := None\<rparr>"
  have 1: "sealed h s (?s h')" for h' by (rule sealed_trans[OF sealed_upd_hub sealed_fields]) simp_all
  have 2: "sealed h s ((?s h')\<lparr>rg_close := c\<rparr>)" for h' c by (rule sealed_trans[OF 1 sealed_fields]) simp_all
  show ?thesis
    using 2 sealed_trans[OF 1 sealed_close_pass] sealed_cancel_removal
      sealed_trans[OF 1 sealed_trans[OF sealed_core[OF core_cancel] sealed_close_pass]]
    by (simp add: close_begin_def Let_def split: option.split)
qed

lemma sealed_bare_unsubscribe: "sealed h s (hub_unsubscribe h' i s)"
proof -
  let ?s = "upd_hub h' (\<lambda>x. x\<lparr>hb_subscribers := removeAll i (hb_subscribers x)\<rparr>) s"
  have 1: "sealed h s ?s" by (rule sealed_upd_hub) simp
  have "sealed h ?s (upd_hub h' (\<lambda>x. x\<lparr>hb_stop_task := Some n\<rparr>) (add_task (Grace_timer h') ?s))" for n
    by (rule sealed_trans[OF sealed_add_task sealed_upd_hub]) (simp_all add: owned_def)
  from 1 sealed_trans[OF 1 this] show ?thesis by (simp add: hub_unsubscribe_def Let_def)
qed

lemma sealed_token:
  "sealed h s (token_attach s)" "sealed h s (token_attach_failed s)" "sealed h s (token_detach s)"
proof -
  obtain h' s1 where g: "get_global s = (h', s1)" by fastforce
  have "sealed h s s1" using sealed_get_global[of h s] g by simp
  from sealed_trans[OF this sealed_trans[OF sealed_cancel_removal sealed_ensure]]
  have r: "sealed h s (token_reach s)" by (simp add: token_reach_def g)
  show "sealed h s (token_attach s)"
    unfolding token_attach_def Let_def by (rule sealed_trans[OF r sealed_fields]) simp_all
  show "sealed h s (token_attach_failed s)"
    unfolding token_attach_failed_def by (rule sealed_trans[OF r sealed_maybe_arm])
  show "sealed h s (token_detach s)"
    unfolding token_detach_def by (rule sealed_trans[OF sealed_fields sealed_maybe_arm]) simp_all
qed

lemma sealed_step:
  assumes "life_step bare s s'" and "groups_ok s"
  shows "sealed h s s'"
  using assms
proof (induction rule: life_step.induct)
  case (start t s)
  show ?case unfolding start_task_def by (rule sealed_upd_task) simp
qed (simp_all add: sealed_finish sealed_on_done sealed_timer sealed_revive sealed_removal sealed_get_global
    sealed_subscribe sealed_unsubscribe sealed_token sealed_maybe_arm sealed_close_begin sealed_close_pass
    sealed_bare_unsubscribe, simp add: sealed_fields close_end_def)

lemma sealed_steps:
  assumes "(life_step bare)\<^sup>*\<^sup>* s s'" and "groups_ok s"
  shows "sealed h s s'"
proof -
  from assms(1) have "sealed h s s' \<and> groups_ok s'"
    by (induction rule: rtranclp_induct) (use assms(2) in \<open>auto intro: sealed_trans sealed_step groups_ok_step\<close>)
  thus ?thesis by blast
qed

text \<open>\<open>close()\<close> is terminal for its hub: once the closing barrier is up, whatever runs afterwards, no
  group member and no waiter of that hub is ever created again.\<close>

theorem close_is_terminal:
  assumes "reachable bare s" and "h < length (sy_hubs s)" and "hb_closing (hub s h)"
    and "(life_step bare)\<^sup>*\<^sup>* s s'"
    and "t < length (sy_tasks s')" and "owned h (tk_coro (tk s' t))"
  shows "t < length (sy_tasks s)"
  using sealed_steps[OF assms(4) reachable_groups_ok[OF assms(1)], of h] assms(2,3,5,6)
  by (auto simp: sealed_def)

definition demo_closing :: sys where
  "demo_closing = close_begin demo_unwind"

lemma demo_closing_reachable: "reachable bare demo_closing"
  unfolding demo_closing_def
  by (rule reachable.step[OF demo_unwind_reachable life_step.closing]) code_simp

theorem close_is_terminal_witness:
  "hb_closing (hub demo_closing 0) \<and> owned 0 (tk_coro (tk (snd (reg_subscribe demo_closing)) 3)) \<and>
   3 < length (sy_tasks demo_closing)"
proof -
  have s: "0 < length (sy_hubs demo_closing)" "hb_closing (hub demo_closing 0)"
    "3 < length (sy_tasks (snd (reg_subscribe demo_closing)))"
    "owned 0 (tk_coro (tk (snd (reg_subscribe demo_closing)) 3))"
    by code_simp+
  have "(life_step True)\<^sup>*\<^sup>* demo_closing (snd (reg_subscribe demo_closing))"
    by (blast intro: life_step.subscribe)
  from close_is_terminal[OF demo_closing_reachable s(1,2) this s(3,4)] s show ?thesis by simp
qed


section \<open>Two interleavings of the close\<close>

text \<open>C34. The guarded cancel pass of \<open>close()\<close> never cancels a task that is already unwinding, but the
  waiter it cancels hands the cancellation to the group it gathers: in a reachable state a run task
  that is unwinding after one cancellation receives a second one from \<open>close()\<close>.\<close>

theorem close_recancels_unwinding:
  "\<exists>s t. reachable False s \<and> rg_close s = Not_closing \<and> \<not> task_done s t \<and>
     tk_cancels (tk s t) = 1 \<and> tk_cancels (tk (close_begin s) t) = 2"
  by (rule exI[of _ demo_unwind], rule exI[of _ 0])
    (intro conjI demo_unwind_reachable; code_simp)

text \<open>A removal armed by the last detach is still asleep when a new subscriber arrives and the flush
  task dies: the run task unwinds on behalf of the waiter, not of the removal.\<close>

definition demo_back :: sys where
  "demo_back = start_task 3 (snd (reg_subscribe (reg_unsubscribe 0 demo_up)))"

definition demo_asleep :: sys where
  "demo_asleep = on_done 1 0 Flush_role 0 1 2 Died (finish 1 Died True demo_back)"

lemma demo_asleep_reachable: "reachable False demo_asleep"
proof -
  have "reachable False demo_back"
    unfolding demo_back_def
    by (rule reachable.step[OF reachable.step[OF reachable.step[OF demo_up_reachable life_step.unsubscribe]
            life_step.subscribe] life_step.start]; code_simp)
  hence "reachable False (finish 1 Died True demo_back)"
    by (rule reachable.step[OF _ life_step.member_end[where h = 0 and ro = Flush_role
            and r = 0 and f = 1 and b = 2]]; code_simp)
  thus ?thesis
    unfolding demo_asleep_def by (rule reachable.step[OF _ life_step.callback]; code_simp)
qed

text \<open>C5. \<open>close()\<close> may wait for a removal that is still in its grace sleep: in a reachable state with
  an unwinding child, the removal task it decides to await has not passed its sleep.\<close>

theorem close_awaits_sleeping_removal:
  "\<exists>s h ts t. reachable False s \<and> rg_close (close_begin s) = Await_removal h ts t \<and>
     tk_phase (tk (close_begin s) t) = Running \<and> tk_coro (tk (close_begin s) t) = Removal h None"
proof -
  have "rg_close (close_begin demo_asleep) = Await_removal 0 [0, 1, 2, 4] 3 \<and>
      tk_phase (tk (close_begin demo_asleep) 3) = Running \<and>
      tk_coro (tk (close_begin demo_asleep) 3) = Removal 0 None"
    by code_simp
  thus ?thesis using demo_asleep_reachable by blast
qed


section \<open>The admission ledger\<close>

text \<open>Through the registry (no direct \<open>GlobalHub.unsubscribe\<close>), \<open>total_subscribers\<close> counts the
  subscribers of the registered hub.\<close>

definition hub_subs :: "sys \<Rightarrow> nat list" where
  "hub_subs s = (case rg_global s of None \<Rightarrow> [] | Some h \<Rightarrow> hb_subscribers (hub s h))"

definition ledger_ok :: "sys \<Rightarrow> bool" where
  "ledger_ok s \<longleftrightarrow>
     rg_total s = int (length (hub_subs s)) \<and> distinct (hub_subs s) \<and>
     (\<forall>i\<in>set (hub_subs s). i < rg_next_sub s) \<and>
     (hub_subs s \<noteq> [] \<longrightarrow> rg_total s \<le> rg_max_dir s \<and> rg_total s \<le> rg_max_total s)"

text \<open>The part of the state the ledger reads; only admission, detach and the drop of the hub change it.\<close>

definition ledger :: "sys \<Rightarrow> nat list \<times> int \<times> int \<times> int \<times> nat" where
  "ledger s = (hub_subs s, rg_total s, rg_max_dir s, rg_max_total s, rg_next_sub s)"

lemma ledger_ok_cong: "ledger s' = ledger s \<Longrightarrow> ledger_ok s' = ledger_ok s"
  by (auto simp: ledger_def ledger_ok_def)

lemma subs_upd_hub:
  assumes "\<And>x. hb_subscribers (g x) = hb_subscribers x"
  shows "hb_subscribers (hub (upd_hub h g s) h') = hb_subscribers (hub s h')"
  using assms by (cases "h < length (sy_hubs s)"; cases "h' = h") (simp_all add: upd_hub_def list_update_beyond)

lemma ledger_upd_hub:
  "(\<And>x. hb_subscribers (g x) = hb_subscribers x) \<Longrightarrow> ledger (upd_hub h g s) = ledger s"
  by (simp add: ledger_def hub_subs_def subs_upd_hub split: option.split)

lemma ledger_core: "core s' = core s \<Longrightarrow> ledger s' = ledger s"
  by (simp add: ledger_def hub_subs_def core_fields(1,3,5,7,8,9)[of s' s] split: option.split)

lemmas ledger_ops = core_ops[THEN ledger_core]

lemma ledger_simps [simp]:
  "ledger (upd_task t g s) = ledger s" "ledger (finish t oc cb s) = ledger s"
  "ledger (add_task c s) = ledger s" "ledger (clear_removal_if_current t s) = ledger s"
  "ledger (s\<lparr>rg_removal := m\<rparr>) = ledger s" "ledger (s\<lparr>sy_token_count := n\<rparr>) = ledger s"
  "ledger (s\<lparr>rg_close := p\<rparr>) = ledger s" "ledger (s\<lparr>rg_rejected := n\<rparr>) = ledger s"
  "ledger (start_task t s) = ledger s"
  by (simp_all add: ledger_def hub_subs_def start_task_def split: option.split)

lemma ledger_put_group: "ledger (put_group h s) = ledger s"
  unfolding put_group_def Let_def by (simp add: ledger_upd_hub)

lemma ledger_ensure: "ledger (ensure_upstream h s) = ledger s"
proof -
  have d: "ledger (disarm_stop h x) = ledger x" for x
    by (simp add: disarm_stop_def ledger_upd_hub ledger_ops split: option.split)
  have "ledger (arm_reviver h x) = ledger x" for x
    by (simp add: arm_reviver_def Let_def ledger_upd_hub ledger_ops)
  thus ?thesis by (simp add: ensure_upstream_def Let_def spawn_quiet ledger_put_group d)
qed

lemma ledger_get_global: "ledger (snd (get_global s)) = ledger s"
  by (simp add: ledger_def hub_subs_def get_global_def Let_def nth_append new_hub_def split: option.split)

lemma ledger_cancel_removal: "ledger (cancel_pending_removal s) = ledger s"
  by (simp add: cancel_pending_removal_def ledger_ops split: option.split)

lemma ledger_maybe_arm: "ledger (maybe_arm_grace_if_idle s) = ledger s"
  by (simp add: maybe_arm_grace_if_idle_def split: option.split)

lemma ledger_token:
  "ledger (token_attach s) = ledger s" "ledger (token_attach_failed s) = ledger s"
  "ledger (token_detach s) = ledger s"
proof -
  have "ledger (token_reach s) = ledger s"
    using ledger_get_global[of s] by (cases "get_global s") (simp add: token_reach_def ledger_ensure ledger_cancel_removal)
  thus "ledger (token_attach s) = ledger s" "ledger (token_attach_failed s) = ledger s"
    "ledger (token_detach s) = ledger s"
    by (simp_all add: token_attach_def token_attach_failed_def token_detach_def Let_def ledger_maybe_arm)
qed

lemma ledger_revive: "ledger (revive_after_group h r t s) = ledger s"
proof -
  have "ledger (clear_revive_if_current h t x) = ledger x" for x
    by (simp add: clear_revive_if_current_def ledger_upd_hub)
  moreover have "ledger (spawn_group h s) = ledger s"
    by (simp add: spawn_group_def Let_def ledger_upd_hub ledger_ops)
  ultimately show ?thesis by (simp add: revive_after_group_def Let_def)
qed

lemma ledger_on_done: "ledger (on_done t h ro r f b oc s) = ledger s"
  by (simp add: on_done_def Let_def ledger_ensure ledger_ops)

lemma ledger_timer: "ledger (stop_after_grace h t s) = ledger s"
  by (simp add: stop_after_grace_def ledger_ops)

lemma ledger_removal_tail: "ledger (removal_tail h t s) = ledger s"
  by (auto simp: removal_tail_def Let_def ledger_ensure)
    (simp add: ledger_def hub_subs_def hub_has_consumers_def)

lemma ledger_removal:
  "ledger (removal_wake h t s) = ledger s" "ledger (removal_gathered h t s) = ledger s"
  by (simp_all add: removal_wake_def removal_gathered_def Let_def ledger_removal_tail ledger_ops)

lemma ledger_ok_drop:
  assumes "ledger_ok s" and "rg_global s = Some h" and "h < length (sy_hubs s)"
    and "i \<in> set (hb_subscribers (hub s h))"
  shows "ledger_ok ((upd_hub h (\<lambda>x. x\<lparr>hb_subscribers := removeAll i (hb_subscribers x)\<rparr>) s)
    \<lparr>rg_total := (if rg_total s - 1 < 0 then 0 else rg_total s - 1)\<rparr>)"
proof -
  let ?subs = "hb_subscribers (hub s h)"
  have d: "distinct ?subs" using assms(1,2) by (simp add: ledger_ok_def hub_subs_def)
  have "length (removeAll i ?subs) = length ?subs - 1"
    using d assms(4) by (simp add: distinct_remove1_removeAll[symmetric] length_remove1)
  moreover have "0 < length ?subs" using assms(4) by (cases ?subs) auto
  ultimately have "int (length (removeAll i ?subs)) = int (length ?subs) - 1" by linarith
  thus ?thesis
    using assms d by (auto simp: ledger_ok_def hub_subs_def distinct_removeAll)
qed

lemma ledger_ok_unsubscribe:
  assumes "ledger_ok s" and "groups_ok s"
  shows "ledger_ok (reg_unsubscribe i s)"
proof (cases "rg_global s")
  case (Some h)
  show ?thesis
    using ledger_ok_drop[OF assms(1) Some groups_okD(3)[OF assms(2) Some], of i] assms(1)
    by (auto simp: reg_unsubscribe_def Some Let_def ledger_ok_cong[OF ledger_maybe_arm])
qed (simp add: reg_unsubscribe_def assms)

lemma ledger_ok_subscribe:
  assumes ok: "ledger_ok s" and grp: "groups_ok s"
  shows "ledger_ok (snd (reg_subscribe s))"
proof -
  obtain h s1 where g: "get_global s = (h, s1)" by fastforce
  have s1: "ledger_ok s1" "rg_global s1 = Some h" "h < length (sy_hubs s1)"
    using ledger_ok_cong[OF ledger_get_global[of s]] ok get_global_fields[OF g] get_global_hub[OF grp g] g
    by simp_all
  let ?n = "s1\<lparr>rg_next_sub := Suc (rg_next_sub s1)\<rparr>"
  let ?s = "upd_hub h (\<lambda>x. x\<lparr>hb_subscribers := hb_subscribers x @ [rg_next_sub s1]\<rparr>) ?n"
  have l: "ledger (hub_subscribe h s1) = ledger ?s" by (simp add: hub_subscribe_def ledger_ensure)
  have "ledger ((hub_subscribe h s1)\<lparr>rg_total := n\<rparr>) = ledger (?s\<lparr>rg_total := n\<rparr>)" for n
    using l by (simp add: ledger_def hub_subs_def split: option.splits)
  note eq = ledger_ok_cong[OF this]
  have t: "rg_total (hub_subscribe h s1) = rg_total s1" using l by (simp add: ledger_def)
  have "ledger_ok (?s\<lparr>rg_total := rg_total s1 + 1\<rparr>)"
    if "int (length (hb_subscribers (hub s1 h))) < rg_max_dir s1" "rg_total s1 < rg_max_total s1"
    using s1 that by (auto simp: ledger_ok_def hub_subs_def)
  thus ?thesis
    using s1(1) by (simp add: reg_subscribe_def g Let_def ledger_ok_cong[OF ledger_simps(8)] eq t)
qed

lemma ledger_ok_end: "ledger_ok (close_end s)"
  by (simp add: ledger_ok_def close_end_def hub_subs_def)

lemma ledger_ok_close_pass: "ledger_ok s \<Longrightarrow> ledger_ok (close_cancel_pass ts m s)"
  using ledger_ok_cong[OF ledger_ops(6)]
  by (simp add: close_cancel_pass_def Let_def ledger_ok_end ledger_ok_cong[OF ledger_simps(7)])

lemma ledger_ok_close_begin:
  assumes "ledger_ok s"
  shows "ledger_ok (close_begin s)"
proof -
  have 1: "ledger ((upd_hub h (\<lambda>x. x\<lparr>hb_closing := True\<rparr>) s)\<lparr>rg_removal := None\<rparr>) = ledger s" for h
    by (simp add: ledger_upd_hub)
  note ok1 = ledger_ok_cong[OF 1, THEN iffD2, OF assms]
  show ?thesis
    using assms ok1 ledger_ok_cong[OF ledger_cancel_removal, of s] ledger_ok_cong[OF ledger_ops(1)]
    by (simp add: close_begin_def Let_def ledger_ok_close_pass ledger_ok_cong[OF ledger_simps(7)]
        split: option.split)
qed

lemma ledger_ok_step:
  assumes "life_step False s s'" and "ledger_ok s" and "groups_ok s"
  shows "ledger_ok s'"
  using assms
  by (induction rule: life_step.induct)
    (simp_all add: ledger_ok_subscribe ledger_ok_unsubscribe ledger_ok_close_begin ledger_ok_close_pass
      ledger_ok_end ledger_ok_cong[OF ledger_simps(9)] ledger_ok_cong[OF ledger_simps(2)]
      ledger_ok_cong[OF ledger_on_done] ledger_ok_cong[OF ledger_timer] ledger_ok_cong[OF ledger_revive]
      ledger_ok_cong[OF ledger_removal(1)] ledger_ok_cong[OF ledger_removal(2)]
      ledger_ok_cong[OF ledger_get_global] ledger_ok_cong[OF ledger_token(1)]
      ledger_ok_cong[OF ledger_token(2)] ledger_ok_cong[OF ledger_token(3)]
      ledger_ok_cong[OF ledger_maybe_arm])

interpretation ledger_life: life_invariant False ledger_ok
proof
  show "ledger_ok (fresh_sys a b)" for a b by (simp add: ledger_ok_def hub_subs_def fresh_sys_def)
qed (rule ledger_ok_step)

text \<open>The admission count is exact and within the caps: in every reachable state
  \<open>total_subscribers\<close> is the number of subscribers of the registered hub, and neither cap is exceeded
  while anyone is subscribed.\<close>

theorem admission_exact:
  assumes "reachable False s" and "rg_global s = Some h"
  shows "rg_total s = int (length (hb_subscribers (hub s h))) \<and>
    (hb_subscribers (hub s h) \<noteq> [] \<longrightarrow> rg_total s \<le> min (rg_max_dir s) (rg_max_total s))"
  using ledger_life.always[OF assms(1)] assms(2) by (auto simp: ledger_ok_def hub_subs_def)

theorem admission_exact_witness:
  "rg_total demo_asleep = 1 \<and> hb_subscribers (hub demo_asleep 0) = [1]"
proof -
  have s: "rg_global demo_asleep = Some 0" "hb_subscribers (hub demo_asleep 0) = [1]" by code_simp+
  show ?thesis using admission_exact[OF demo_asleep_reachable s(1)] s(2) by simp
qed

end
