(* ===== verification/Token_Registry.thy ===== *)
theory Token_Registry
  imports Token_Hub_Log Hub_Guarantees
begin

text \<open>
  The admission ledger of the token stream (\<open>TokenStreamRegistry\<close>), the life cycle of the token
  hub's flush loop (\<open>start\<close>, \<open>stop\<close>, \<open>stop_and_wait\<close>, \<open>_on_flush_done\<close> of the flush engine), and how
  both reach the hub registry of the control plane. A registry call and what it does to the token
  hub, to its flush task and to the hub registry is one function. \<open>sy_token_count\<close>, the count that
  \<open>GlobalHub.has_consumers\<close> reads, is brought up to date (\<open>sync\<close>) wherever membership changes.
\<close>

section \<open>State\<close>

record flush_task =
  ft_phase :: phase
  ft_cancelled :: bool
  ft_cb :: bool

record token_registry =
  tr_hub :: token_hub
  tr_life :: sys
  tr_max_subscribers :: int
  tr_queue_items :: int
  tr_buffer_bytes :: int
  tr_max_frame_bytes :: int
  tr_total :: int
  tr_rejected :: int
  tr_events_tokens :: "nat list"
  tr_next :: nat
  fe_tasks :: "flush_task list"
  fe_slot :: "nat option"

datatype token_error = Token_limit int int | Attach_raised

text \<open>Where the side effects of \<open>subscribe\<close> may raise: before the upstream is ensured, before the
  flush loop is started, before the subscriber is attached, or nowhere.\<close>

datatype attach_fault = No_fault | Upstream_fault | Start_fault | Attach_fault

definition sync :: "token_registry \<Rightarrow> token_registry" where
  "sync r = r\<lparr>tr_life := (tr_life r)\<lparr>sy_token_count := subscriber_count (tr_hub r)\<rparr>\<rparr>"

definition upd_life :: "(sys \<Rightarrow> sys) \<Rightarrow> token_registry \<Rightarrow> token_registry" where
  "upd_life g r = r\<lparr>tr_life := g (tr_life r)\<rparr>"

definition upd_hub_state :: "(token_hub \<Rightarrow> token_hub) \<Rightarrow> token_registry \<Rightarrow> token_registry" where
  "upd_hub_state g r = r\<lparr>tr_hub := g (tr_hub r)\<rparr>"


section \<open>The flush loop\<close>

definition ft_done :: "flush_task \<Rightarrow> bool" where
  "ft_done k = (case ft_phase k of Finished _ \<Rightarrow> True | _ \<Rightarrow> False)"

definition new_flush_task :: flush_task where
  "new_flush_task = \<lparr>ft_phase = Created, ft_cancelled = False, ft_cb = False\<rparr>"

definition th_start :: "token_registry \<Rightarrow> token_registry" where
  "th_start r =
     (if (case fe_slot r of None \<Rightarrow> True | Some t \<Rightarrow> ft_done (fe_tasks r ! t))
      then r\<lparr>fe_tasks := fe_tasks r @ [new_flush_task], fe_slot := Some (length (fe_tasks r))\<rparr>
      else r)"

definition th_stop :: "token_registry \<Rightarrow> token_registry" where
  "th_stop r =
     (case fe_slot r of None \<Rightarrow> r
      | Some t \<Rightarrow>
          if ft_done (fe_tasks r ! t) then r\<lparr>fe_slot := None\<rparr>
          else r\<lparr>fe_tasks := (fe_tasks r)[t := (fe_tasks r ! t)\<lparr>ft_cancelled := True\<rparr>], fe_slot := None\<rparr>)"

definition on_flush_done :: "nat \<Rightarrow> outcome \<Rightarrow> token_registry \<Rightarrow> token_registry" where
  "on_flush_done t oc r0 =
     (let r = r0\<lparr>fe_tasks := (fe_tasks r0)[t := (fe_tasks r0 ! t)\<lparr>ft_cb := False\<rparr>]\<rparr>
      in if oc = Cancelled then r
         else if fe_slot r \<noteq> Some t then r
         else if oc = Returned then r
         else if Token_Hub.has_consumers (tr_hub r) then th_start (r\<lparr>fe_slot := None\<rparr>)
         else r)"

text \<open>\<open>stop_and_wait\<close> up to its await, with the task it waits for, and what it does with the outcome.\<close>

definition stop_and_wait :: "token_registry \<Rightarrow> nat option \<times> token_registry" where
  "stop_and_wait r = (fe_slot r, th_stop r)"

definition stop_and_wait_result :: "outcome \<Rightarrow> bool" where
  "stop_and_wait_result oc = (oc = Died)"


section \<open>The ledger\<close>

definition stop_if_unused :: "token_registry \<Rightarrow> token_registry" where
  "stop_if_unused r = (if tr_total r = 0 \<and> tr_events_tokens r = [] then th_stop r else r)"

definition attach_events_subscriber :: "nat \<Rightarrow> wire_frame subscriber \<Rightarrow> token_registry \<Rightarrow> token_registry" where
  "attach_events_subscriber i s r =
     (if i \<in> set (tr_events_tokens r) then r
      else th_start (upd_hub_state (\<lambda>h. h\<lparr>th_events_tap := th_events_tap h @ [s]\<rparr>)
             (r\<lparr>tr_events_tokens := tr_events_tokens r @ [i]\<rparr>)))"

definition tap_index :: "nat \<Rightarrow> nat list \<Rightarrow> nat" where
  "tap_index i xs = length (takeWhile (\<lambda>x. x \<noteq> i) xs)"

definition remove_nth :: "nat \<Rightarrow> 'a list \<Rightarrow> 'a list" where
  "remove_nth n xs = take n xs @ drop (Suc n) xs"

definition detach_events_subscriber :: "nat \<Rightarrow> token_registry \<Rightarrow> token_registry" where
  "detach_events_subscriber i r =
     (if i \<notin> set (tr_events_tokens r) then r
      else
        let n = tap_index i (tr_events_tokens r);
            r1 = upd_hub_state (\<lambda>h. h\<lparr>th_events_tap := remove_nth n (th_events_tap h)\<rparr>)
                   (r\<lparr>tr_events_tokens := remove_nth n (tr_events_tokens r)\<rparr>)
        in upd_life maybe_arm_grace_if_idle (stop_if_unused r1))"

definition rollback_failed_attach :: "string \<Rightarrow> nat \<Rightarrow> token_registry \<Rightarrow> token_registry" where
  "rollback_failed_attach sid i r =
     (let r1 = (if has_subscriber sid i (tr_hub r) then sync (upd_hub_state (detach_subscriber sid i) r) else r)
      in upd_life maybe_arm_grace_if_idle (stop_if_unused r1))"

definition tr_subscribe ::
  "attach_fault \<Rightarrow> string \<Rightarrow> token_registry \<Rightarrow> (token_error + nat) \<times> token_registry" where
  "tr_subscribe fault sid r =
     (if tr_total r \<ge> tr_max_subscribers r
      then (Inl (Token_limit (tr_max_subscribers r) (tr_total r)), r\<lparr>tr_rejected := tr_rejected r + 1\<rparr>)
      else
        let i = tr_next r;
            sub = new_token_subscriber sid (tr_queue_items r) (tr_buffer_bytes r) (tr_max_frame_bytes r);
            r0 = upd_hub_state (\<lambda>h. h\<lparr>th_subs := dict_set i sub (th_subs h)\<rparr>) (r\<lparr>tr_next := Suc i\<rparr>);
            r1 = (if fault = Upstream_fault then r0 else upd_life token_reach r0);
            r2 = (if fault = Upstream_fault \<or> fault = Start_fault then r1 else th_start r1);
            r3 = (if fault \<noteq> No_fault then r2 else sync (upd_hub_state (attach_subscriber sid i) r2))
        in if fault \<noteq> No_fault
           then let r4 = rollback_failed_attach sid i r3
                in (Inl Attach_raised, r4\<lparr>tr_rejected := tr_rejected r4 + 1\<rparr>)
           else if (case dict_get (th_subs (tr_hub r3)) i of None \<Rightarrow> True | Some s \<Rightarrow> tk_closed s)
           then let r4 = rollback_failed_attach sid i r3
                in (Inl (Token_limit (tr_max_subscribers r) (tr_total r4)), r4\<lparr>tr_rejected := tr_rejected r4 + 1\<rparr>)
           else (Inr i, r3\<lparr>tr_total := tr_total r3 + 1\<rparr>))"

definition tr_unsubscribe :: "string \<Rightarrow> nat \<Rightarrow> token_registry \<Rightarrow> token_registry" where
  "tr_unsubscribe sid i r =
     (if \<not> has_subscriber sid i (tr_hub r) then r
      else
        let r1 = sync (upd_hub_state (detach_subscriber sid i) r);
            n = tr_total r1 - 1;
            r2 = r1\<lparr>tr_total := (if n < 0 then 0 else n)\<rparr>
        in upd_life maybe_arm_grace_if_idle (stop_if_unused r2))"


section \<open>What the handlers leave alone\<close>

text \<open>Who is attached: the subscriber sets by session and the number of event taps.\<close>

definition roster :: "token_hub \<Rightarrow> (string, nat list) dict \<times> nat" where
  "roster h = (th_subs_by_sid h, length (th_events_tap h))"

named_theorems roster_keeps \<open>operations that keep the roster\<close>

lemma roster_fold: "(\<And>x h. roster (f x h) = roster h) \<Longrightarrow> roster (fold f xs h) = roster h"
  by (induction xs arbitrary: h) simp_all

lemma roster_sub_put [simp]: "roster (sub_put w i h) = roster h"
  by (simp add: sub_put_def roster_def split: option.split prod.split)

lemma roster_terminate [simp]: "roster (sub_terminate reason i h) = roster h"
  by (simp add: sub_terminate_def roster_def split: option.split)

lemma roster_fold_put [simp]: "roster (fold (sub_put w) xs h) = roster h"
  by (rule roster_fold) simp

lemma roster_fold_terminate [simp]: "roster (fold (sub_terminate r) xs h) = roster h"
  by (rule roster_fold) simp

lemma roster_updates [simp]:
  "roster (h\<lparr>th_replay := l\<rparr>) = roster h" "roster (h\<lparr>th_live_parts := a\<rparr>) = roster h"
  "roster (h\<lparr>th_nontext := b\<rparr>) = roster h" "roster (h\<lparr>th_disabled := b\<rparr>) = roster h"
  "roster (h\<lparr>th_pending := d\<rparr>) = roster h" "roster (h\<lparr>th_total_live := n\<rparr>) = roster h"
  "roster (h\<lparr>th_total_pending := n\<rparr>) = roster h" "roster (h\<lparr>th_metrics := m\<rparr>) = roster h"
  "roster (h\<lparr>th_session_status := st\<rparr>) = roster h" "roster (h\<lparr>th_pending_resyncs := rs\<rparr>) = roster h"
  "roster (h\<lparr>th_subs := su\<rparr>) = roster h" "roster (h\<lparr>th_part_revisions := b\<rparr>) = roster h"
  "roster (h\<lparr>th_retired_messages := rm\<rparr>) = roster h" "roster (h\<lparr>th_deleted_sids := ds\<rparr>) = roster h"
  by (simp_all add: roster_def)

lemma roster_publish [simp]: "roster (snd (publish_seq_frame t sid build kind h)) = roster h"
  by (simp add: publish_seq_frame_def split: option.split prod.split)

lemma roster_fanout [simp]:
  "roster (fanout_delta_frame t key txt h) = roster h"
  "roster (fanout_message_removed t sid mid h) = roster h"
  "roster (fanout_resync sid reason h) = roster h"
  "roster (snd (fanout_replayable_resync t sid reason h)) = roster h"
proof -
  have p: "roster h2 = roster h1" if "publish_seq_frame t sid build kind h1 = (x, h2)" for t sid build kind h1 x h2
    using that roster_publish[of t sid build kind h1] by simp
  show "roster (fanout_delta_frame t key txt h) = roster h"
    by (auto simp: fanout_delta_frame_def Let_def next_part_revision_def deliver_logged_def count_flushed_def
        split: option.splits prod.splits dest!: p)
  show "roster (fanout_message_removed t sid mid h) = roster h"
    by (auto simp: fanout_message_removed_def Let_def deliver_logged_def count_flushed_def
        split: option.splits prod.splits dest!: p)
  show "roster (fanout_resync sid reason h) = roster h" by (simp add: fanout_resync_def)
  show "roster (snd (fanout_replayable_resync t sid reason h)) = roster h"
    by (auto simp: fanout_replayable_resync_def Let_def deliver_logged_def write_replay_barrier_def
        split: option.splits prod.splits dest!: p)
qed

lemma roster_tap [simp]: "roster (tap_events f h) = roster h"
  by (simp add: tap_events_def roster_def)

lemma roster_flush [simp]:
  "roster (flush_key tap t key h) = roster h" "roster (drop_drained P h) = roster h"
  "roster (drain_pending_session_resyncs h) = roster h" "roster (flush t h) = roster h"
  "roster (flush_sid t sid h) = roster h"
proof -
  show k: "roster (flush_key tap t key h) = roster h" for tap key h
    by (simp add: flush_key_def Let_def split_beta split: option.split)
  show "roster (drop_drained P h) = roster h" for P h by (simp add: drop_drained_def)
  moreover show "roster (drain_pending_session_resyncs h) = roster h" for h
    unfolding drain_pending_session_resyncs_def by (subst roster_fold) (simp_all add: split_beta)
  ultimately show "roster (flush t h) = roster h" "roster (flush_sid t sid h) = roster h"
    by (simp_all add: flush_def flush_sid_def Let_def roster_fold k)
qed

lemma roster_drop [simp]:
  "roster (snd (drop_part n key h)) = roster h" "roster (truncate_part_for_all n key h) = roster h"
  by (simp_all add: truncate_part_for_all_def drop_part_def Let_def discard_nontext_def remember_disabled_def
      split: option.split)

lemma roster_dropD: "drop_part n key h = (b, h1) \<Longrightarrow> roster h1 = roster h"
  by (metis roster_drop(1) snd_conv)

lemma roster_evict [simp]: "roster (evict_part_for_memory t key h) = roster h"
  by (auto simp: evict_part_for_memory_def Let_def split: prod.splits bool.splits dest: roster_dropD)

lemma roster_loops [simp]:
  "roster (snd (reserve_loop t n key h)) = roster h" "roster (start_count_loop t h) = roster h"
  "roster (start_bytes_loop t key h) = roster h"
proof -
  show "roster (snd (reserve_loop t n key h)) = roster h"
  proof (induction t n key h rule: reserve_loop.induct)
    case (1 t n key h)
    then show ?case by (subst reserve_loop.simps) (auto split: option.splits)
  qed
  show "roster (start_count_loop t h) = roster h"
  proof (induction t h rule: start_count_loop.induct)
    case (1 t h)
    then show ?case by (subst start_count_loop.simps) (auto split: option.splits)
  qed
  show "roster (start_bytes_loop t key h) = roster h"
  proof (induction t key h rule: start_bytes_loop.induct)
    case (1 t key h)
    then show ?case by (subst start_bytes_loop.simps) (auto split: option.splits)
  qed
qed

lemma roster_ingest [simp]:
  "roster (snd (reserve t lp n key h)) = roster h" "roster (check_pending_budget t key h) = roster h"
  "roster (start_part t key seed h) = roster h" "roster (finish_part t key h) = roster h"
  "roster (accept_delta t key d lp h) = roster h" "roster (snd (is_deleted_sid n sid h)) = roster h"
proof -
  show c: "roster (check_pending_budget t key h) = roster h" for key h
    by (simp add: check_pending_budget_def Let_def split: option.split)
  show "roster (accept_delta t key d lp h) = roster h"
    by (simp add: accept_delta_def Let_def split_beta c)
qed (simp_all add: reserve_def start_part_def finish_part_def is_deleted_sid_def Let_def split_beta
    split: option.split)

lemma roster_gate: "is_deleted_sid n sid h = (b, h1) \<Longrightarrow> roster h1 = roster h"
  by (metis roster_ingest(6) snd_conv)

lemma roster_part_updated [simp]: "roster (on_part_updated t props h) = roster h"
proof (cases rule: on_part_updated_gate[of t props h])
  case (pass part sid mid pid tm)
  show ?thesis unfolding pass(2) by (simp add: Let_def remember_nontext_def)
qed auto

lemma roster_part_delta [simp]: "roster (on_part_delta t props h) = roster h"
proof (cases rule: on_part_delta_gate[of t props h])
  case (pass sid mid pid d)
  have "roster (case reserve t lp n k g of (False, h2) \<Rightarrow> h2 | (True, h2) \<Rightarrow> accept_delta t k d lp h2) = roster g"
    for lp n k g
    using roster_ingest(1)[of t lp n k g] by (simp add: case_prod_unfold bool.case_eq_if)
  then show ?thesis unfolding pass(3) by (simp add: Let_def split: option.splits)
qed auto

lemma roster_retire [simp]: "roster (retire_where P h) = roster h"
  by (simp add: retire_where_def)

lemma roster_tick [simp]: "roster (snd (flush_loop_tick t ticks h)) = roster h"
proof -
  have "roster (fanout_heartbeat h) = roster h" for h
    unfolding fanout_heartbeat_def by (rule roster_fold) (simp add: split_beta)
  moreover have "roster (snd (ttl_sweep n h)) = roster h" for n h
    unfolding ttl_sweep_def Let_def snd_conv
    by (rule roster_fold) (simp add: ttl_retire_def Let_def discard_nontext_def split: option.split)
  ultimately show ?thesis by (simp add: flush_loop_tick_def Let_def split_beta)
qed

fun membership_op :: "hub_op \<Rightarrow> bool" where
  "membership_op (Attach _ _ _) = True"
| "membership_op (Detach _ _) = True"
| "membership_op _ = False"

lemma roster_step: "\<not> membership_op x \<Longrightarrow> roster (hub_step x h) = roster h"
  by (cases x)
    (auto simp: on_message_removed_def on_session_status_def on_session_deleted_def Let_def
      enqueue_session_resync_def prune_session_status_def remember_deleted_sid_def writer_turn_def
      retire_message_def retire_session_def on_part_removed_def on_upstream_reconnect_def roster_fold
      write_replay_barrier_def
      split: option.splits prod.splits bool.splits dest: roster_gate)

section \<open>The registry in motion\<close>

datatype tr_op =
    Subscribe attach_fault string
  | Unsubscribe string nat
  | Attach_events nat "wire_frame subscriber"
  | Detach_events nat
  | Hub_event hub_op
  | Flush_started nat
  | Flush_ended nat outcome
  | Flush_callback nat

definition upd_flush :: "nat \<Rightarrow> (flush_task \<Rightarrow> flush_task) \<Rightarrow> token_registry \<Rightarrow> token_registry" where
  "upd_flush t g r = r\<lparr>fe_tasks := (fe_tasks r)[t := g (fe_tasks r ! t)]\<rparr>"

fun tr_apply :: "tr_op \<Rightarrow> token_registry \<Rightarrow> token_registry" where
  "tr_apply (Subscribe fault sid) r = snd (tr_subscribe fault sid r)"
| "tr_apply (Unsubscribe sid i) r = tr_unsubscribe sid i r"
| "tr_apply (Attach_events i s) r = attach_events_subscriber i s r"
| "tr_apply (Detach_events i) r = detach_events_subscriber i r"
| "tr_apply (Hub_event x) r = upd_hub_state (hub_step x) r"
| "tr_apply (Flush_started t) r = upd_flush t (\<lambda>k. k\<lparr>ft_phase := Running\<rparr>) r"
| "tr_apply (Flush_ended t oc) r = upd_flush t (\<lambda>k. k\<lparr>ft_phase := Finished oc, ft_cb := True\<rparr>) r"
| "tr_apply (Flush_callback t) r =
     (case ft_phase (fe_tasks r ! t) of Finished oc \<Rightarrow> on_flush_done t oc r | _ \<Rightarrow> r)"

text \<open>When a call may happen: events reach the hub through its handlers only, a flush task that was
  cancelled before it started never runs, the loop never returns by itself, and a callback runs once.\<close>

fun tr_ok :: "tr_op \<Rightarrow> token_registry \<Rightarrow> bool" where
  "tr_ok (Hub_event x) r = (\<not> membership_op x)"
| "tr_ok (Flush_started t) r =
     (t < length (fe_tasks r) \<and> ft_phase (fe_tasks r ! t) = Created \<and> \<not> ft_cancelled (fe_tasks r ! t))"
| "tr_ok (Flush_ended t oc) r =
     (t < length (fe_tasks r) \<and>
      (case ft_phase (fe_tasks r ! t) of
         Created \<Rightarrow> ft_cancelled (fe_tasks r ! t) \<and> oc = Cancelled
       | Running \<Rightarrow> oc = Died \<or> oc = Cancelled \<and> ft_cancelled (fe_tasks r ! t)
       | Finished _ \<Rightarrow> False))"
| "tr_ok (Flush_callback t) r = (t < length (fe_tasks r) \<and> ft_cb (fe_tasks r ! t))"
| "tr_ok _ r = True"

inductive tr_step :: "bool \<Rightarrow> token_registry \<Rightarrow> token_registry \<Rightarrow> bool" for bare :: bool where
  call: "tr_ok x r \<Longrightarrow> tr_step bare r (tr_apply x r)"
| life: "life_step bare (tr_life r) s' \<Longrightarrow> sy_token_count s' = sy_token_count (tr_life r) \<Longrightarrow>
    tr_step bare r (r\<lparr>tr_life := s'\<rparr>)"

definition new_token_registry :: "token_hub \<Rightarrow> sys \<Rightarrow> int \<Rightarrow> int \<Rightarrow> int \<Rightarrow> int \<Rightarrow> token_registry" where
  "new_token_registry h s max_subs items buf mx =
     \<lparr>tr_hub = h, tr_life = s, tr_max_subscribers = max_subs, tr_queue_items = items,
      tr_buffer_bytes = buf, tr_max_frame_bytes = mx, tr_total = 0, tr_rejected = 0,
      tr_events_tokens = [], tr_next = 0, fe_tasks = [], fe_slot = None\<rparr>"

inductive tr_reachable :: "bool \<Rightarrow> token_registry \<Rightarrow> bool" for bare :: bool where
  fresh: "tr_reachable bare (new_token_registry (new_token_hub caps dumps rl) (fresh_sys a b) mx qi buf mf)"
| step: "tr_reachable bare r \<Longrightarrow> tr_step bare r r' \<Longrightarrow> tr_reachable bare r'"


section \<open>The invariant of the registry\<close>

definition members_ok :: "nat \<Rightarrow> (string, nat list) dict \<Rightarrow> bool" where
  "members_ok n d \<longleftrightarrow>
     dict_wf d \<and> (\<forall>sid subs. dict_get d sid = Some subs \<longrightarrow> distinct subs \<and> (\<forall>i\<in>set subs. i < n))"

definition flush_alive :: "flush_task \<Rightarrow> bool" where
  "flush_alive k \<longleftrightarrow>
     \<not> ft_cancelled k \<and> (\<not> ft_done k \<or> ft_phase k = Finished Died \<and> ft_cb k)"

definition flush_ok :: "token_registry \<Rightarrow> bool" where
  "flush_ok r \<longleftrightarrow>
     (fe_slot r = None \<longleftrightarrow> tr_total r = 0 \<and> tr_events_tokens r = []) \<and>
     (\<forall>t. fe_slot r = Some t \<longrightarrow> t < length (fe_tasks r) \<and> flush_alive (fe_tasks r ! t)) \<and>
     (\<forall>t<length (fe_tasks r). ft_done (fe_tasks r ! t) \<or> ft_cancelled (fe_tasks r ! t) \<or> fe_slot r = Some t)"

definition ledger_inv :: "token_registry \<Rightarrow> bool" where
  "ledger_inv r \<longleftrightarrow>
     tr_total r = subscriber_count (tr_hub r) \<and> sy_token_count (tr_life r) = tr_total r \<and>
     members_ok (tr_next r) (th_subs_by_sid (tr_hub r)) \<and>
     (tr_total r = 0 \<or> tr_total r \<le> tr_max_subscribers r) \<and>
     distinct (tr_events_tokens r) \<and> length (th_events_tap (tr_hub r)) = length (tr_events_tokens r)"

definition tr_inv :: "bool \<Rightarrow> token_registry \<Rightarrow> bool" where
  "tr_inv bare r \<longleftrightarrow> ledger_inv r \<and> flush_ok r \<and> reachable bare (tr_life r)"

lemma attach_member:
  assumes "members_ok n (th_subs_by_sid h)" and "dict_get (th_subs h) n = Some s" and "\<not> tk_closed s"
  shows "subscriber_count (attach_subscriber sid n h) = subscriber_count h + 1"
    "members_ok (Suc n) (th_subs_by_sid (attach_subscriber sid n h))"
    "th_events_tap (attach_subscriber sid n h) = th_events_tap h"
proof -
  have fresh: "n \<notin> set (subs_of h sid)"
    using assms(1) by (cases "dict_get (th_subs_by_sid h) sid") (auto simp: members_ok_def subs_of_def dict_get_or_get)
  show "subscriber_count (attach_subscriber sid n h) = subscriber_count h + 1"
    using fresh
    by (simp add: attach_subscriber_def assms(2,3) subscriber_count_def dict_sum_set subs_of_def dict_get_or_get
        List.insert_def split: option.splits)
  show "members_ok (Suc n) (th_subs_by_sid (attach_subscriber sid n h))"
    using assms(1)
    by (auto simp: attach_subscriber_def assms(2,3) members_ok_def subs_of_def dict_get_or_get
        split: option.splits dest: less_SucI)
  show "th_events_tap (attach_subscriber sid n h) = th_events_tap h"
    by (simp add: attach_subscriber_def assms(2,3))
qed

lemma detach_member:
  assumes "members_ok n (th_subs_by_sid h)" and "has_subscriber sid i h"
  shows "subscriber_count (detach_subscriber sid i h) = subscriber_count h - 1"
    "members_ok n (th_subs_by_sid (detach_subscriber sid i h))"
    "th_events_tap (detach_subscriber sid i h) = th_events_tap h"
proof -
  obtain subs where s: "dict_get (th_subs_by_sid h) sid = Some subs" "i \<in> set subs"
    using assms(2) by (cases "dict_get (th_subs_by_sid h) sid") (auto simp: has_subscriber_def subs_of_def dict_get_or_get)
  have wf: "dict_wf (th_subs_by_sid h)" "distinct subs" using assms(1) s(1) by (auto simp: members_ok_def)
  have len: "int (length (removeAll i subs)) = int (length subs) - 1"
  proof -
    have "length (removeAll i subs) = length subs - 1"
      using wf(2) s(2) by (simp add: distinct_remove1_removeAll[symmetric] length_remove1)
    moreover have "0 < length subs" using s(2) by (cases subs) auto
    ultimately show ?thesis by linarith
  qed
  show "subscriber_count (detach_subscriber sid i h) = subscriber_count h - 1"
    using len wf(1)
    by (auto simp: detach_subscriber_def s(1) Let_def subscriber_count_def dict_sum_set dict_sum_pop)
  show "members_ok n (th_subs_by_sid (detach_subscriber sid i h))"
    using assms(1) s(1) distinct_removeAll[OF wf(2)] by (auto simp: detach_subscriber_def Let_def members_ok_def)
  show "th_events_tap (detach_subscriber sid i h) = th_events_tap h"
    by (simp add: detach_subscriber_def s(1) Let_def)
qed

text \<open>The parts of the state each helper leaves alone.\<close>

lemma th_start_fields [simp]:
  "tr_hub (th_start r) = tr_hub r" "tr_life (th_start r) = tr_life r" "tr_total (th_start r) = tr_total r"
  "tr_events_tokens (th_start r) = tr_events_tokens r" "tr_next (th_start r) = tr_next r"
  "tr_max_subscribers (th_start r) = tr_max_subscribers r"
  by (simp_all add: th_start_def)

lemma th_stop_fields [simp]:
  "tr_hub (th_stop r) = tr_hub r" "tr_life (th_stop r) = tr_life r" "tr_total (th_stop r) = tr_total r"
  "tr_events_tokens (th_stop r) = tr_events_tokens r" "tr_next (th_stop r) = tr_next r"
  "tr_max_subscribers (th_stop r) = tr_max_subscribers r"
  by (simp_all add: th_stop_def split: option.split)

lemma stop_if_unused_fields [simp]:
  "tr_hub (stop_if_unused r) = tr_hub r" "tr_life (stop_if_unused r) = tr_life r"
  "tr_total (stop_if_unused r) = tr_total r" "tr_events_tokens (stop_if_unused r) = tr_events_tokens r"
  "tr_next (stop_if_unused r) = tr_next r" "tr_max_subscribers (stop_if_unused r) = tr_max_subscribers r"
  by (simp_all add: stop_if_unused_def)

lemma helper_fields [simp]:
  "tr_hub (sync r) = tr_hub r" "tr_total (sync r) = tr_total r" "tr_next (sync r) = tr_next r"
  "tr_events_tokens (sync r) = tr_events_tokens r" "tr_max_subscribers (sync r) = tr_max_subscribers r"
  "fe_slot (sync r) = fe_slot r" "fe_tasks (sync r) = fe_tasks r"
  "tr_hub (upd_life g r) = tr_hub r" "tr_life (upd_life g r) = g (tr_life r)"
  "tr_total (upd_life g r) = tr_total r" "tr_next (upd_life g r) = tr_next r"
  "tr_events_tokens (upd_life g r) = tr_events_tokens r"
  "tr_max_subscribers (upd_life g r) = tr_max_subscribers r"
  "fe_slot (upd_life g r) = fe_slot r" "fe_tasks (upd_life g r) = fe_tasks r"
  "tr_hub (upd_hub_state k r) = k (tr_hub r)" "tr_life (upd_hub_state k r) = tr_life r"
  "tr_total (upd_hub_state k r) = tr_total r" "tr_next (upd_hub_state k r) = tr_next r"
  "tr_events_tokens (upd_hub_state k r) = tr_events_tokens r"
  "tr_max_subscribers (upd_hub_state k r) = tr_max_subscribers r"
  "fe_slot (upd_hub_state k r) = fe_slot r" "fe_tasks (upd_hub_state k r) = fe_tasks r"
  by (simp_all add: sync_def upd_life_def upd_hub_state_def)

lemma sy_count_sync [simp]: "sy_token_count (tr_life (sync r)) = subscriber_count (tr_hub r)"
  by (simp add: sync_def)

text \<open>The slot part of \<open>flush_ok\<close>, which holds also between the steps of a call.\<close>

definition slot_ok :: "token_registry \<Rightarrow> bool" where
  "slot_ok r \<longleftrightarrow>
     (\<forall>t. fe_slot r = Some t \<longrightarrow> t < length (fe_tasks r) \<and> flush_alive (fe_tasks r ! t)) \<and>
     (\<forall>t<length (fe_tasks r). ft_done (fe_tasks r ! t) \<or> ft_cancelled (fe_tasks r ! t) \<or> fe_slot r = Some t)"

lemma flush_ok_slot: "flush_ok r \<longleftrightarrow>
    (fe_slot r = None \<longleftrightarrow> tr_total r = 0 \<and> tr_events_tokens r = []) \<and> slot_ok r"
  by (simp add: flush_ok_def slot_ok_def)

lemma slot_ok_cong: "fe_slot r' = fe_slot r \<Longrightarrow> fe_tasks r' = fe_tasks r \<Longrightarrow> slot_ok r' = slot_ok r"
  by (simp add: slot_ok_def)

lemma slot_ok_start:
  assumes "slot_ok r"
  shows "slot_ok (th_start r)" "fe_slot (th_start r) \<noteq> None"
proof -
  show "fe_slot (th_start r) \<noteq> None" by (simp add: th_start_def split: option.splits)
  have "slot_ok (r\<lparr>fe_tasks := fe_tasks r @ [new_flush_task], fe_slot := Some (length (fe_tasks r))\<rparr>)"
    if "case fe_slot r of None \<Rightarrow> True | Some t \<Rightarrow> ft_done (fe_tasks r ! t)"
    using assms that
    by (auto simp: slot_ok_def nth_append less_Suc_eq new_flush_task_def flush_alive_def ft_done_def
        split: option.splits)
  thus "slot_ok (th_start r)" using assms by (simp add: th_start_def)
qed

lemma slot_ok_stop:
  assumes "slot_ok r"
  shows "slot_ok (th_stop r)" "fe_slot (th_stop r) = None"
proof -
  show "fe_slot (th_stop r) = None" by (simp add: th_stop_def split: option.split)
  show "slot_ok (th_stop r)"
    using assms
    by (cases "fe_slot r") (auto simp: slot_ok_def th_stop_def nth_list_update ft_done_def)
qed

lemma slot_ok_unused:
  assumes "slot_ok r" and "tr_total r = 0 \<and> tr_events_tokens r = [] \<or> fe_slot r \<noteq> None"
  shows "flush_ok (stop_if_unused r)"
  using assms slot_ok_stop[OF assms(1)] by (auto simp: flush_ok_slot stop_if_unused_def)

lemma flush_ok_upd_life [simp]: "flush_ok (upd_life g r) = flush_ok r"
  by (simp add: flush_ok_def)

text \<open>The calls into the hub registry keep the token count.\<close>

lemma arm_count [simp]: "sy_token_count (maybe_arm_grace_if_idle s) = sy_token_count s"
  by (simp add: maybe_arm_grace_if_idle_def split: option.split)

lemma reach_count [simp]: "sy_token_count (token_reach s) = sy_token_count s"
  using get_global_fields(7)[of s] by (cases "get_global s") (simp add: token_reach_def)

text \<open>How a call moves the hub registry: along the rules of its step relation.\<close>

lemma life_idle: "reachable bare s \<Longrightarrow> reachable bare (maybe_arm_grace_if_idle s)"
  by (erule reachable.step) (rule life_step.idle_check)

lemma life_failed: "reachable bare s \<Longrightarrow> reachable bare (maybe_arm_grace_if_idle (token_reach s))"
  using reachable.step[OF _ life_step.token_failed] by (simp add: token_attach_failed_def)

lemma life_attach:
  assumes "reachable bare s" and "n = sy_token_count s + 1"
  shows "reachable bare ((token_reach s)\<lparr>sy_token_count := n\<rparr>)"
  using reachable.step[OF assms(1) life_step.token_in] assms(2) by (simp add: token_attach_def Let_def)

lemma life_detach:
  assumes "reachable bare s" and "n = sy_token_count s - 1" and "0 < sy_token_count s"
  shows "reachable bare (maybe_arm_grace_if_idle (s\<lparr>sy_token_count := n\<rparr>))"
  using reachable.step[OF assms(1) life_step.token_out] assms(2,3) by (simp add: token_detach_def)

lemma new_sub_open: "\<not> tk_closed (new_token_subscriber sid a b c)"
  by (simp add: new_token_subscriber_def)

lemma members_mono: "members_ok n d \<Longrightarrow> members_ok (Suc n) d"
  by (force simp: members_ok_def)

text \<open>The registry with the new subscriber stored, before any side effect.\<close>

definition stored :: "string \<Rightarrow> token_registry \<Rightarrow> token_registry" where
  "stored sid r =
     upd_hub_state (\<lambda>h. h\<lparr>th_subs := dict_set (tr_next r)
         (new_token_subscriber sid (tr_queue_items r) (tr_buffer_bytes r) (tr_max_frame_bytes r)) (th_subs h)\<rparr>)
       (r\<lparr>tr_next := Suc (tr_next r)\<rparr>)"

lemma stored_fields [simp]:
  "tr_total (stored sid r) = tr_total r" "tr_life (stored sid r) = tr_life r"
  "tr_events_tokens (stored sid r) = tr_events_tokens r" "tr_next (stored sid r) = Suc (tr_next r)"
  "tr_max_subscribers (stored sid r) = tr_max_subscribers r" "fe_slot (stored sid r) = fe_slot r"
  "fe_tasks (stored sid r) = fe_tasks r" "roster (tr_hub (stored sid r)) = roster (tr_hub r)"
  by (simp_all add: stored_def)

lemma ledger_inv_roster:
  assumes "ledger_inv r" and "roster (tr_hub r') = roster (tr_hub r)" and "tr_total r' = tr_total r"
    and "sy_token_count (tr_life r') = sy_token_count (tr_life r)" and "tr_next r' = tr_next r \<or> tr_next r' = Suc (tr_next r)"
    and "tr_max_subscribers r' = tr_max_subscribers r" and "tr_events_tokens r' = tr_events_tokens r"
  shows "ledger_inv r'"
proof -
  have "th_subs_by_sid (tr_hub r') = th_subs_by_sid (tr_hub r)"
    "length (th_events_tap (tr_hub r')) = length (th_events_tap (tr_hub r))"
    using assms(2) by (simp_all add: roster_def)
  thus ?thesis using assms by (auto simp: ledger_inv_def subscriber_count_def members_mono)
qed

lemma not_member_stored:
  assumes "ledger_inv r"
  shows "\<not> has_subscriber sid (tr_next r) (tr_hub r)"
  using assms by (cases "dict_get (th_subs_by_sid (tr_hub r)) sid")
    (auto simp: ledger_inv_def members_ok_def has_subscriber_def subs_of_def dict_get_or_get)

lemma has_subscriber_roster:
  "roster h' = roster h \<Longrightarrow> has_subscriber sid i h' = has_subscriber sid i h"
  by (simp add: roster_def has_subscriber_def subs_of_def)

text \<open>A failed attach: the ledger is as before, and the flush loop runs exactly if it is needed.\<close>

lemma rollback_inv:
  assumes inv: "tr_inv bare r" and q: "ledger_inv q" "slot_ok q"
    "tr_total q = 0 \<and> tr_events_tokens q = [] \<or> fe_slot q \<noteq> None"
    "\<not> has_subscriber sid i (tr_hub q)" "reachable bare (maybe_arm_grace_if_idle (tr_life q))"
  shows "tr_inv bare ((rollback_failed_attach sid i q)\<lparr>tr_rejected := n\<rparr>)"
proof -
  let ?q = "(rollback_failed_attach sid i q)\<lparr>tr_rejected := n\<rparr>"
  have eq: "rollback_failed_attach sid i q = upd_life maybe_arm_grace_if_idle (stop_if_unused q)"
    using q(4) by (simp add: rollback_failed_attach_def)
  have "ledger_inv ?q" by (rule ledger_inv_roster[OF q(1)]) (simp_all add: eq)
  moreover have "flush_ok ?q" using slot_ok_unused[OF q(2,3)] by (simp add: flush_ok_def eq)
  ultimately show ?thesis using q(5) by (simp add: tr_inv_def eq)
qed

lemma subscribe_failed_inv:
  assumes inv: "tr_inv bare r" and "tr_total r < tr_max_subscribers r" and "fault \<noteq> No_fault"
  shows "tr_inv bare (snd (tr_subscribe fault sid r))"
proof -
  let ?r0 = "stored sid r"
  let ?r1 = "if fault = Upstream_fault then ?r0 else upd_life token_reach ?r0"
  let ?r2 = "if fault = Upstream_fault \<or> fault = Start_fault then ?r1 else th_start ?r1"
  have lg: "ledger_inv r" and fl: "flush_ok r" and rc: "reachable bare (tr_life r)"
    using inv by (simp_all add: tr_inv_def)
  have eq: "snd (tr_subscribe fault sid r) = (rollback_failed_attach sid (tr_next r) ?r2)
      \<lparr>tr_rejected := tr_rejected (rollback_failed_attach sid (tr_next r) ?r2) + 1\<rparr>"
    using assms(2,3) by (simp add: tr_subscribe_def Let_def stored_def)
  have s1: "slot_ok ?r1" using fl by (simp add: flush_ok_slot slot_ok_def)
  show ?thesis unfolding eq
  proof (rule rollback_inv[OF inv])
    show "ledger_inv ?r2" by (rule ledger_inv_roster[OF lg]) simp_all
    show "slot_ok ?r2" using s1 slot_ok_start(1)[OF s1] by (auto split: if_splits)
    show "tr_total ?r2 = 0 \<and> tr_events_tokens ?r2 = [] \<or> fe_slot ?r2 \<noteq> None"
      using slot_ok_start(2)[OF s1] fl by (auto simp: flush_ok_slot)
    show "\<not> has_subscriber sid (tr_next r) (tr_hub ?r2)"
      using not_member_stored[OF lg, of sid] by (simp add: has_subscriber_roster[of "tr_hub (stored sid r)" "tr_hub r"])
    show "reachable bare (maybe_arm_grace_if_idle (tr_life ?r2))"
      using life_idle[OF rc] life_failed[OF rc] by simp
  qed
qed

lemma subscribe_ok_inv:
  assumes inv: "tr_inv bare r" and cap: "tr_total r < tr_max_subscribers r"
  shows "tr_inv bare (snd (tr_subscribe No_fault sid r))"
proof -
  let ?r2 = "th_start (upd_life token_reach (stored sid r))"
  let ?r3 = "sync (upd_hub_state (attach_subscriber sid (tr_next r)) ?r2)"
  have lg: "ledger_inv r" and fl: "flush_ok r" and rc: "reachable bare (tr_life r)"
    using inv by (simp_all add: tr_inv_def)
  obtain s where s: "dict_get (th_subs (tr_hub ?r2)) (tr_next r) = Some s" "\<not> tk_closed s"
    by (simp add: stored_def new_sub_open)
  have m: "members_ok (tr_next r) (th_subs_by_sid (tr_hub ?r2))" "subscriber_count (tr_hub ?r2) = tr_total r"
    "length (th_events_tap (tr_hub ?r2)) = length (tr_events_tokens r)"
    using lg by (simp_all add: ledger_inv_def stored_def subscriber_count_def)
  note at = attach_member[OF m(1) s, of sid]
  have "dict_get (th_subs (tr_hub ?r3)) (tr_next r) = Some s"
    using s by (simp add: attach_subscriber_def)
  hence eq: "snd (tr_subscribe No_fault sid r) = ?r3\<lparr>tr_total := tr_total ?r3 + 1\<rparr>"
    using cap s(2) by (simp add: tr_subscribe_def Let_def stored_def)
  have s1: "slot_ok (upd_life token_reach (stored sid r))"
    using fl by (simp add: flush_ok_slot slot_ok_def)
  have pos: "0 \<le> tr_total r"
    using lg dict_sum_nonneg[of "\<lambda>subs. int (length subs)"] by (simp add: ledger_inv_def subscriber_count_def)
  have "ledger_inv (?r3\<lparr>tr_total := tr_total ?r3 + 1\<rparr>)"
    using at m lg cap by (simp add: ledger_inv_def)
  moreover have "flush_ok (?r3\<lparr>tr_total := tr_total ?r3 + 1\<rparr>)"
    using slot_ok_start[OF s1] pos by (simp add: flush_ok_slot slot_ok_def)
  moreover have "reachable bare (tr_life ?r3)"
    using life_attach[OF rc, of "tr_total r + 1"] at(1) m(2) lg by (simp add: sync_def upd_hub_state_def ledger_inv_def upd_life_def)
  ultimately show ?thesis by (simp add: tr_inv_def eq)
qed

lemma unsubscribe_inv:
  assumes inv: "tr_inv bare r"
  shows "tr_inv bare (tr_unsubscribe sid i r)"
proof (cases "has_subscriber sid i (tr_hub r)")
  case True
  let ?r1 = "sync (upd_hub_state (detach_subscriber sid i) r)"
  have lg: "ledger_inv r" and fl: "flush_ok r" and rc: "reachable bare (tr_life r)"
    using inv by (simp_all add: tr_inv_def)
  have m: "members_ok (tr_next r) (th_subs_by_sid (tr_hub r))" using lg by (simp add: ledger_inv_def)
  note d = detach_member[OF m True]
  have "0 \<le> subscriber_count (detach_subscriber sid i (tr_hub r))"
    using dict_sum_nonneg[of "\<lambda>subs. int (length subs)"] by (simp add: subscriber_count_def)
  hence pos: "1 \<le> tr_total r" using d(1) lg by (simp add: ledger_inv_def)
  let ?r2 = "?r1\<lparr>tr_total := tr_total r - 1\<rparr>"
  have eq: "tr_unsubscribe sid i r = upd_life maybe_arm_grace_if_idle (stop_if_unused ?r2)"
    using True pos by (simp add: tr_unsubscribe_def Let_def)
  have "ledger_inv (tr_unsubscribe sid i r)" using d lg pos by (simp add: eq ledger_inv_def) 
  moreover have "slot_ok ?r2" and used: "fe_slot ?r2 \<noteq> None"
    using fl pos by (auto simp: flush_ok_slot slot_ok_def)
  hence "flush_ok (tr_unsubscribe sid i r)"
    using slot_ok_unused[of ?r2] used by (simp add: eq)
  moreover have "reachable bare (tr_life (tr_unsubscribe sid i r))"
    using life_detach[OF rc, of "tr_total r - 1"] d(1) lg pos
    by (simp add: eq ledger_inv_def sync_def upd_hub_state_def)
  ultimately show ?thesis by (simp add: tr_inv_def)
qed (use inv in \<open>simp add: tr_unsubscribe_def\<close>)

lemma attach_events_inv:
  assumes inv: "tr_inv bare r"
  shows "tr_inv bare (attach_events_subscriber i s r)"
proof (cases "i \<in> set (tr_events_tokens r)")
  case False
  let ?q = "upd_hub_state (\<lambda>h. h\<lparr>th_events_tap := th_events_tap h @ [s]\<rparr>)
      (r\<lparr>tr_events_tokens := tr_events_tokens r @ [i]\<rparr>)"
  have "slot_ok ?q" using inv by (simp add: tr_inv_def flush_ok_slot slot_ok_def)
  hence "flush_ok (th_start ?q)" using slot_ok_start[of ?q] by (simp add: flush_ok_slot)
  moreover have "ledger_inv (th_start ?q)"
    using inv False by (auto simp: tr_inv_def ledger_inv_def subscriber_count_def)
  ultimately show ?thesis using inv False by (simp add: tr_inv_def attach_events_subscriber_def)
qed (use inv in \<open>simp add: attach_events_subscriber_def\<close>)

lemma tap_index_less: "i \<in> set xs \<Longrightarrow> tap_index i xs < length xs"
  unfolding tap_index_def by (rule takeWhile_short) auto

lemma remove_nth_facts:
  assumes "n < length xs"
  shows "length (remove_nth n xs) = length xs - 1" "distinct xs \<Longrightarrow> distinct (remove_nth n xs)"
  using assms by (auto simp: remove_nth_def distinct_append dest: set_take_disj_set_drop_if_distinct[of xs n "Suc n"])

lemma detach_events_inv:
  assumes inv: "tr_inv bare r"
  shows "tr_inv bare (detach_events_subscriber i r)"
proof (cases "i \<in> set (tr_events_tokens r)")
  case True
  let ?n = "tap_index i (tr_events_tokens r)"
  let ?q = "upd_hub_state (\<lambda>h. h\<lparr>th_events_tap := remove_nth ?n (th_events_tap h)\<rparr>)
      (r\<lparr>tr_events_tokens := remove_nth ?n (tr_events_tokens r)\<rparr>)"
  have lg: "ledger_inv r" and fl: "flush_ok r" and rc: "reachable bare (tr_life r)"
    using inv by (simp_all add: tr_inv_def)
  have n: "?n < length (tr_events_tokens r)" by (rule tap_index_less[OF True])
  hence n': "?n < length (th_events_tap (tr_hub r))" using lg by (simp add: ledger_inv_def)
  have eq: "detach_events_subscriber i r = upd_life maybe_arm_grace_if_idle (stop_if_unused ?q)"
    using True by (simp add: detach_events_subscriber_def Let_def)
  have "slot_ok ?q" "fe_slot ?q \<noteq> None" using fl True by (auto simp: flush_ok_slot slot_ok_def)
  hence "flush_ok (detach_events_subscriber i r)" using slot_ok_unused[of ?q] by (simp add: eq)
  moreover have "ledger_inv (detach_events_subscriber i r)"
    using lg remove_nth_facts[OF n] remove_nth_facts(1)[OF n']
    by (auto simp: eq ledger_inv_def subscriber_count_def)
  ultimately show ?thesis using life_idle[OF rc] by (simp add: tr_inv_def eq)
qed (use inv in \<open>simp add: detach_events_subscriber_def\<close>)

lemma hub_event_inv:
  assumes inv: "tr_inv bare r" and "\<not> membership_op x"
  shows "tr_inv bare (upd_hub_state (hub_step x) r)"
proof -
  have "ledger_inv (upd_hub_state (hub_step x) r)"
    by (rule ledger_inv_roster[of r]) (use inv roster_step[OF assms(2)] in \<open>simp_all add: tr_inv_def\<close>)
  moreover have "flush_ok (upd_hub_state (hub_step x) r)" using inv by (simp add: tr_inv_def flush_ok_def)
  ultimately show ?thesis using inv by (simp add: tr_inv_def)
qed

lemma upd_flush_inv:
  assumes inv: "tr_inv bare r" and "t < length (fe_tasks r)"
    and "fe_slot r = Some t \<Longrightarrow> flush_alive (g (fe_tasks r ! t))"
    and "fe_slot r \<noteq> Some t \<Longrightarrow> ft_done (fe_tasks r ! t) \<or> ft_cancelled (fe_tasks r ! t) \<Longrightarrow>
      ft_done (g (fe_tasks r ! t)) \<or> ft_cancelled (g (fe_tasks r ! t))"
  shows "tr_inv bare (upd_flush t g r)"
proof -
  have "ledger_inv (upd_flush t g r)"
    by (rule ledger_inv_roster[of r]) (use inv in \<open>simp_all add: tr_inv_def upd_flush_def\<close>)
  moreover have "flush_ok (upd_flush t g r)"
    using inv assms(2-4) by (auto simp: tr_inv_def flush_ok_def upd_flush_def nth_list_update)
  ultimately show ?thesis using inv by (simp add: tr_inv_def upd_flush_def)
qed

lemma callback_inv:
  assumes inv: "tr_inv bare r" and t: "t < length (fe_tasks r)" "ft_phase (fe_tasks r ! t) = Finished oc"
    "ft_cb (fe_tasks r ! t)"
  shows "tr_inv bare (on_flush_done t oc r)"
proof -
  let ?q = "upd_flush t (\<lambda>k. k\<lparr>ft_cb := False\<rparr>) r"
  have lg: "ledger_inv r" and fl: "flush_ok r" and rc: "reachable bare (tr_life r)"
    using inv by (simp_all add: tr_inv_def)
  have eq: "on_flush_done t oc r =
      (if oc = Cancelled \<or> fe_slot r \<noteq> Some t \<or> oc = Returned then ?q
       else if Token_Hub.has_consumers (tr_hub r) then th_start (?q\<lparr>fe_slot := None\<rparr>) else ?q)"
    by (simp add: on_flush_done_def Let_def upd_flush_def)
  show ?thesis
  proof (cases "fe_slot r = Some t")
    case False
    have "tr_inv bare ?q" by (rule upd_flush_inv[OF inv t(1)]) (use False in \<open>auto simp: ft_done_def\<close>)
    thus ?thesis using False by (simp add: eq)
  next
    case True
    have died: "oc = Died"
      using fl True t by (auto simp: flush_ok_def flush_alive_def ft_done_def)
    have pos: "0 \<le> tr_total r"
      using lg dict_sum_nonneg[of "\<lambda>subs. int (length subs)"] by (simp add: ledger_inv_def subscriber_count_def)
    have used: "tr_total r \<noteq> 0 \<or> tr_events_tokens r \<noteq> []" using fl True by (auto simp: flush_ok_slot)
    hence "Token_Hub.has_consumers (tr_hub r)"
      using lg pos by (auto simp: Token_Hub.has_consumers_def ledger_inv_def)
    hence e: "on_flush_done t oc r = th_start (?q\<lparr>fe_slot := None\<rparr>)" unfolding eq using True died by simp
    have "slot_ok (?q\<lparr>fe_slot := None\<rparr>)"
      using fl t True by (auto simp: flush_ok_def slot_ok_def upd_flush_def nth_list_update ft_done_def)
    hence "flush_ok (th_start (?q\<lparr>fe_slot := None\<rparr>))"
      using slot_ok_start[of "?q\<lparr>fe_slot := None\<rparr>"] used by (auto simp: flush_ok_slot upd_flush_def)
    moreover have "ledger_inv (th_start (?q\<lparr>fe_slot := None\<rparr>))"
      by (rule ledger_inv_roster[OF lg]) (simp_all add: upd_flush_def)
    ultimately show ?thesis using rc by (simp add: e tr_inv_def upd_flush_def)
  qed
qed

lemma tr_apply_inv:
  assumes inv: "tr_inv bare r" and ok: "tr_ok x r"
  shows "tr_inv bare (tr_apply x r)"
proof (cases x)
  case (Subscribe fault sid)
  show ?thesis
  proof (cases "tr_total r < tr_max_subscribers r")
    case True
    thus ?thesis using subscribe_ok_inv[OF inv True] subscribe_failed_inv[OF inv True] Subscribe
      by (cases "fault = No_fault") simp_all
  next
    case False
    have "ledger_inv (r\<lparr>tr_rejected := n\<rparr>)" "flush_ok (r\<lparr>tr_rejected := n\<rparr>)" for n
      using inv by (auto simp: tr_inv_def ledger_inv_def flush_ok_def)
    thus ?thesis using False inv Subscribe by (simp add: tr_subscribe_def tr_inv_def)
  qed
next
  case (Flush_started t)
  have t: "t < length (fe_tasks r)" "ft_phase (fe_tasks r ! t) = Created" "\<not> ft_cancelled (fe_tasks r ! t)"
    using ok Flush_started by simp_all
  show ?thesis
    unfolding Flush_started tr_apply.simps
    by (rule upd_flush_inv[OF inv t(1)]) (simp_all add: flush_alive_def ft_done_def t(2,3))
next
  case (Flush_ended t oc)
  have t: "t < length (fe_tasks r)" using ok Flush_ended by simp
  have "oc = Died" if "fe_slot r = Some t"
    using ok Flush_ended inv that
    by (auto simp: tr_inv_def flush_ok_def flush_alive_def split: phase.splits)
  moreover have "\<not> ft_cancelled (fe_tasks r ! t)" if "fe_slot r = Some t"
    using inv that by (auto simp: tr_inv_def flush_ok_def flush_alive_def)
  ultimately show ?thesis
    unfolding Flush_ended tr_apply.simps by (intro upd_flush_inv[OF inv t]) (auto simp: flush_alive_def ft_done_def)
next
  case (Flush_callback t)
  thus ?thesis using ok inv callback_inv[OF inv, of t]
    by (cases "ft_phase (fe_tasks r ! t)") simp_all
qed (use inv ok in \<open>simp_all add: unsubscribe_inv attach_events_inv detach_events_inv hub_event_inv\<close>)

interpretation registry: invariant_system tr_apply tr_ok "tr_inv bare" for bare
  by unfold_locales (rule tr_apply_inv)

lemma tr_reachable_inv: "tr_reachable bare r \<Longrightarrow> tr_inv bare r"
proof (induction rule: tr_reachable.induct)
  case (fresh caps dumps rl a b mx qi buf mf)
  have "reachable bare (fresh_sys a b)" by (rule reachable.fresh)
  thus ?case
    by (simp add: tr_inv_def ledger_inv_def flush_ok_def new_token_registry_def new_token_hub_def subscriber_count_def
        members_ok_def) (simp add: fresh_sys_def)
next
  case (step r r')
  from step.hyps(2) show ?case
  proof cases
    case (call x)
    thus ?thesis using registry.inv_step[OF step.IH] by simp
  next
    case (life s')
    have "ledger_inv r'" "flush_ok r'"
      using step.IH life by (auto simp: tr_inv_def ledger_inv_def flush_ok_def)
    thus ?thesis using step.IH life reachable.step by (auto simp: tr_inv_def)
  qed
qed


section \<open>What the registry guarantees\<close>

text \<open>A registry with one token stream of session \<open>s\<close>, whose flush task then dies, and a failed
  second attach.\<close>

definition demo_registry :: token_registry where
  "demo_registry =
     new_token_registry (new_token_hub default_token_caps (\<lambda>_. ''{}'') demo_token_log) (fresh_sys 10 10) 2 8 1000 500"

definition demo_calls :: "tr_op list" where
  "demo_calls = [Subscribe No_fault ''s'', Flush_started 0, Flush_ended 0 Died, Subscribe Start_fault ''s'', Flush_callback 0]"

lemma tr_run_reachable:
  assumes "tr_reachable bare r" and "ok_run tr_apply tr_ok xs r"
  shows "tr_reachable bare (fold tr_apply xs r)"
  using assms by (induction xs arbitrary: r) (auto intro: tr_reachable.step tr_step.call)

text \<open>The ledger of the token stream is exact: in every interleaving of subscriptions (failed ones
  included), detaches, events, flush-loop failures and steps of the hub registry, \<open>total_subscribers\<close> is
  the number of attached subscribers and does not exceed the cap.\<close>

theorem token_ledger_exact:
  assumes "tr_reachable bare r"
  shows "tr_total r = subscriber_count (tr_hub r) \<and> (tr_total r = 0 \<or> tr_total r \<le> tr_max_subscribers r)"
  using tr_reachable_inv[OF assms] by (auto simp: tr_inv_def ledger_inv_def)

text \<open>\<open>stop_and_wait\<close> at the shutdown of the application: no flush task is left that was not told to end,
  and no supervisor callback, of whatever task, starts another.\<close>

lemma stop_and_wait_quiet:
  assumes "flush_ok r" and "stop_and_wait r = (waited, r')"
  shows "waited = fe_slot r \<and> fe_slot r' = None
    \<and> (\<forall>t<length (fe_tasks r'). ft_done (fe_tasks r' ! t) \<or> ft_cancelled (fe_tasks r' ! t))
    \<and> (\<forall>t oc. fe_slot (on_flush_done t oc r') = None \<and> length (fe_tasks (on_flush_done t oc r')) = length (fe_tasks r'))"
  using assms
  by (auto simp: stop_and_wait_def th_stop_def flush_ok_def on_flush_done_def Let_def nth_list_update ft_done_def
      split: option.splits if_splits)

text \<open>C33. The flush loop runs exactly while it is needed: a flush task is held iff a stream subscriber or
  an events-token consumer is there, the held task is running or its supervisor is about to replace it,
  and every other flush task has finished or was cancelled. This is for every state before the shutdown of the
  application, which is no step of the system; the shutdown itself, \<open>stop_and_wait\<close>, may come in any of these
  states. It then waits for the held task, leaves the slot empty although consumers may still be attached, leaves no
  flush task that has neither finished nor been cancelled, and no supervisor callback that runs later starts a new one.\<close>

theorem flush_loop_supervised:
  assumes "tr_reachable bare r"
  shows "(fe_slot r = None \<longleftrightarrow> tr_total r = 0 \<and> tr_events_tokens r = []) \<and>
    (\<forall>t. fe_slot r = Some t \<longrightarrow> t < length (fe_tasks r) \<and> flush_alive (fe_tasks r ! t)) \<and>
    (\<forall>t<length (fe_tasks r). ft_done (fe_tasks r ! t) \<or> ft_cancelled (fe_tasks r ! t) \<or> fe_slot r = Some t) \<and>
    (case stop_and_wait r of (waited, r') \<Rightarrow> waited = fe_slot r \<and> fe_slot r' = None \<and>
       (\<forall>t<length (fe_tasks r'). ft_done (fe_tasks r' ! t) \<or> ft_cancelled (fe_tasks r' ! t)) \<and>
       (\<forall>t oc. fe_slot (on_flush_done t oc r') = None \<and> length (fe_tasks (on_flush_done t oc r')) = length (fe_tasks r')))"
proof -
  have ok: "flush_ok r" using tr_reachable_inv[OF assms] by (simp add: tr_inv_def)
  obtain waited r' where s: "stop_and_wait r = (waited, r')" by (cases "stop_and_wait r")
  show ?thesis
    using ok stop_and_wait_quiet[OF ok s] unfolding s prod.case flush_ok_def by blast
qed

text \<open>C32. A token stream keeps the upstream alive: while \<open>close()\<close> has not been called, a registered hub
  exists and is served whenever a token subscriber is attached, whatever the control plane does.\<close>

theorem token_streams_served:
  assumes "tr_reachable bare r" and "0 < tr_total r" and "rg_close (tr_life r) = Not_closing"
  shows "\<exists>h. rg_global (tr_life r) = Some h \<and> served (tr_life r) h"
proof -
  have inv: "ledger_inv r" "reachable bare (tr_life r)"
    using tr_reachable_inv[OF assms(1)] by (simp_all add: tr_inv_def)
  have ok: "hub_served (tr_life r)" by (rule reachable_hub_served[OF inv(2)])
  have "0 < sy_token_count (tr_life r)" using inv(1) assms(2) by (simp add: ledger_inv_def)
  moreover obtain h where h: "rg_global (tr_life r) = Some h"
    using ok assms(3) calculation by (cases "rg_global (tr_life r)") (auto simp: hub_served_def waiters_ok_def)
  ultimately show ?thesis
    using reachable_served[OF inv(2) assms(3) h] by (auto simp: hub_has_consumers_def)
qed

definition demo_after :: token_registry where
  "demo_after = fold tr_apply demo_calls demo_registry"

lemma demo_after_reachable: "tr_reachable bare demo_after"
proof -
  have "tr_reachable bare demo_registry" unfolding demo_registry_def by (rule tr_reachable.fresh)
  moreover have "ok_run tr_apply tr_ok demo_calls demo_registry" by code_simp
  ultimately show ?thesis unfolding demo_after_def by (rule tr_run_reachable)
qed

lemma demo_after_state:
  "tr_total demo_after = 1" "fe_slot demo_after = Some 1" "rg_close (tr_life demo_after) = Not_closing"
  "tr_rejected demo_after = 1"
  by code_simp+

theorem token_ledger_exact_witness: "subscriber_count (tr_hub demo_after) = 1"
  using token_ledger_exact[OF demo_after_reachable] demo_after_state by simp

theorem flush_loop_supervised_witness: "flush_alive (fe_tasks demo_after ! 1)"
  using flush_loop_supervised[OF demo_after_reachable] demo_after_state by simp

theorem token_streams_served_witness:
  "0 < tr_total demo_after \<and> (\<exists>h. rg_global (tr_life demo_after) = Some h \<and> served (tr_life demo_after) h)"
  using token_streams_served[OF demo_after_reachable] demo_after_state by simp

end
