(* ===== verification/Py_Base64.thy ===== *)
theory Py_Base64
  imports Prelude
begin

text \<open>
  \<^verbatim>\<open>base64.urlsafe_b64encode(raw).rstrip(b"=")\<close> and \<^verbatim>\<open>base64.urlsafe_b64decode(s + "=" * (-len(s) % 4))\<close>
  of the standard library, on byte strings (characters up to code point 255). The decoder is the
  lenient one of \<^verbatim>\<open>binascii\<close>: the unused low bits of a last group are ignored, and one character
  over a multiple of four is an error. Its callers check the alphabet first.
\<close>

definition b64_alphabet :: string where
  "b64_alphabet = ''ABCDEFGHIJKLMNOPQRSTUVWXYZabcdefghijklmnopqrstuvwxyz0123456789-_''"

definition b64_char :: "nat \<Rightarrow> char" where
  "b64_char n = b64_alphabet ! n"

definition b64_val :: "char \<Rightarrow> nat" where
  "b64_val c = length (takeWhile (\<lambda>x. x \<noteq> c) b64_alphabet)"

definition is_b64_char :: "char \<Rightarrow> bool" where
  "is_b64_char c = (c \<in> set b64_alphabet)"

fun b64_encode :: "string \<Rightarrow> string" where
  "b64_encode [] = []"
| "b64_encode [a] = [b64_char (code_point a div 4), b64_char (code_point a mod 4 * 16)]"
| "b64_encode [a, b] =
     [b64_char (code_point a div 4), b64_char (code_point a mod 4 * 16 + code_point b div 16),
      b64_char (code_point b mod 16 * 4)]"
| "b64_encode (a # b # c # s) =
     b64_char (code_point a div 4) # b64_char (code_point a mod 4 * 16 + code_point b div 16) #
     b64_char (code_point b mod 16 * 4 + code_point c div 64) # b64_char (code_point c mod 64) # b64_encode s"

fun b64_bytes :: "nat list \<Rightarrow> string option" where
  "b64_bytes [] = Some []"
| "b64_bytes [p] = None"
| "b64_bytes [p, q] = Some [char_of (p * 4 + q div 16)]"
| "b64_bytes [p, q, r] = Some [char_of (p * 4 + q div 16), char_of (q mod 16 * 16 + r div 4)]"
| "b64_bytes (p # q # r # t # xs) =
     map_option (\<lambda>s. char_of (p * 4 + q div 16) # char_of (q mod 16 * 16 + r div 4) #
       char_of (r mod 4 * 64 + t) # s) (b64_bytes xs)"

definition b64_decode :: "string \<Rightarrow> string option" where
  "b64_decode s = b64_bytes (map b64_val s)"

lemma length_b64_alphabet: "length b64_alphabet = 64"
  by (simp add: b64_alphabet_def)

lemma distinct_b64_alphabet: "distinct b64_alphabet"
  by (simp add: b64_alphabet_def)

lemma b64_val_char [simp]:
  assumes "n < 64"
  shows "b64_val (b64_char n) = n"
proof -
  have n: "n < length b64_alphabet" using assms by (simp add: length_b64_alphabet)
  have split: "b64_alphabet = take n b64_alphabet @ b64_alphabet ! n # drop (Suc n) b64_alphabet"
    using n by (simp add: id_take_nth_drop)
  have "\<forall>x \<in> set (take n b64_alphabet). x \<noteq> b64_alphabet ! n"
    using n distinct_b64_alphabet by (auto simp: in_set_conv_nth nth_eq_iff_index_eq)
  hence "takeWhile (\<lambda>x. x \<noteq> b64_alphabet ! n) (take n b64_alphabet @ b64_alphabet ! n # drop (Suc n) b64_alphabet) =
      take n b64_alphabet"
    by (subst takeWhile_append2) auto
  hence "takeWhile (\<lambda>x. x \<noteq> b64_alphabet ! n) b64_alphabet = take n b64_alphabet"
    using split by metis
  thus ?thesis using n by (simp add: b64_val_def b64_char_def)
qed

lemma is_b64_char_char [simp]: "n < 64 \<Longrightarrow> is_b64_char (b64_char n)"
  by (simp add: is_b64_char_def b64_char_def length_b64_alphabet)

lemma code_point_256 [simp]: "code_point c < 256"
  by (simp add: code_point_def)

lemma code_point_bits [simp]:
  "code_point c div 4 < 64" "code_point c mod 4 * 16 + code_point d div 16 < 64"
  "code_point c mod 4 * 16 < 64" "code_point c mod 16 * 4 < 64"
  "code_point c mod 16 * 4 + code_point d div 64 < 64"
  using code_point_256[of c] code_point_256[of d] by linarith+

lemma char_of_code_point [simp]: "char_of (code_point c) = c"
  by (simp add: code_point_def)

lemma b64_roundtrip [simp]: "b64_decode (b64_encode s) = Some s"
proof (induction s rule: b64_encode.induct)
  case (2 a)
  have "code_point a div 4 * 4 + code_point a mod 4 * 16 div 16 = code_point a" by simp
  thus ?case by (simp add: b64_decode_def)
next
  case (3 a b)
  have "(code_point a mod 4 * 16 + code_point b div 16) mod 16 * 16 + code_point b mod 16 * 4 div 4 = code_point b"
  proof -
    have "code_point b div 16 < 16" using code_point_256[of b] by linarith
    thus ?thesis by simp
  qed
  moreover have "code_point b div 16 < 16" using code_point_256[of b] by linarith
  ultimately show ?case by (simp add: b64_decode_def)
next
  case (4 a b c s)
  have "code_point b div 16 < 16" "code_point c div 64 < 4"
    using code_point_256[of b] code_point_256[of c] by linarith+
  with 4 show ?case by (simp add: b64_decode_def)
qed (simp add: b64_decode_def)

lemma b64_encode_alphabet: "list_all is_b64_char (b64_encode s)"
  by (induction s rule: b64_encode.induct) simp_all

lemma b64_encode_Nil [simp]: "b64_encode s = [] \<longleftrightarrow> s = []"
  by (cases s rule: b64_encode.cases) simp_all

end
