(* ===== verification/Since_Cache.thy ===== *)
theory Since_Cache
  imports Sse_Frames Py_Base64
begin

text \<open>
  The generation-fenced cache behind the \<^verbatim>\<open>?since=\<close> cursors of the message list
  (\<^verbatim>\<open>since_cache.py\<close>): an LRU of one serialized snapshot per key \<open>(sid, cq_hash)\<close>, the
  compare-and-set \<open>commit\<close> that publishes a snapshot, the eviction loop, and the cursor tokens that
  name a snapshot by its generation.

  The generation counter is a global of the process, so \<open>commit\<close> threads it explicitly. The
  serializer \<^verbatim>\<open>orjson\<close> is the pair of parameters \<open>dumps\<close> and \<open>loads\<close>. The eviction loop is a
  \<open>partial_function\<close>: that it ends is a theorem.
\<close>

section \<open>Data\<close>

record cache_entry =
  ce_canonical_items :: string
  ce_fingerprints :: "(string, string) dict"
  ce_generation :: int

definition fingerprint_bytes :: "(string, string) dict \<Rightarrow> int" where
  "fingerprint_bytes fps = sum_list (map (\<lambda>mid. int (utf8_len mid) + 32 + 64) (dict_keys fps))"

definition retained_bytes :: "cache_entry \<Rightarrow> int" where
  "retained_bytes e = int (length (ce_canonical_items e)) + fingerprint_bytes (ce_fingerprints e)"

record observed_snapshot =
  os_entry :: "cache_entry option"

definition observed_generation :: "observed_snapshot \<Rightarrow> int option" where
  "observed_generation ob = map_option ce_generation (os_entry ob)"

text \<open>\<open>TokenCheck\<close>: an invalid token has no generation.\<close>

datatype token_check = Token_Valid int | Token_Reset int | Token_Invalid

record commit_result =
  cr_entry :: "cache_entry option"
  cr_cas_loser :: bool
  cr_omitted :: bool
  cr_bypassed :: bool

type_synonym since_key = "string \<times> string"

record since_cache =
  sc_enabled :: bool
  sc_max_entries :: int
  sc_max_bytes :: int
  sc_max_entry_bytes :: int
  sc_epoch :: string
  sc_entries :: "(since_key, cache_entry) dict"
  sc_retained_bytes :: int

definition since_cache_init :: "bool \<Rightarrow> int \<Rightarrow> int \<Rightarrow> int \<Rightarrow> string \<Rightarrow> since_cache" where
  "since_cache_init enabled max_entries max_bytes max_entry_bytes epoch =
     \<lparr>sc_enabled = enabled, sc_max_entries = max_entries, sc_max_bytes = max_bytes,
      sc_max_entry_bytes = max_entry_bytes, sc_epoch = epoch, sc_entries = [], sc_retained_bytes = 0\<rparr>"

section \<open>Operations\<close>

text \<open>\<open>_allocate_process_generation\<close>: the new counter is the generation.\<close>

definition allocate_process_generation :: "int \<Rightarrow> int" where
  "allocate_process_generation g = g + 1"

definition sc_touch :: "since_key \<Rightarrow> since_cache \<Rightarrow> since_cache" where
  "sc_touch key c = c\<lparr>sc_entries := dict_move_to_end key (sc_entries c)\<rparr>"

definition current :: "since_key \<Rightarrow> since_cache \<Rightarrow> cache_entry option \<times> since_cache" where
  "current key c =
     (if \<not> sc_enabled c then (None, c)
      else case dict_get (sc_entries c) key of
             None \<Rightarrow> (None, c)
           | Some e \<Rightarrow> (Some e, sc_touch key c))"

definition observe :: "since_key \<Rightarrow> since_cache \<Rightarrow> observed_snapshot \<times> since_cache" where
  "observe key c =
     (if \<not> sc_enabled c then (\<lparr>os_entry = None\<rparr>, c)
      else case dict_get (sc_entries c) key of
             None \<Rightarrow> (\<lparr>os_entry = None\<rparr>, c)
           | Some e \<Rightarrow> (\<lparr>os_entry = Some e\<rparr>, sc_touch key c))"

definition sc_drop :: "since_key \<Rightarrow> since_cache \<Rightarrow> since_cache" where
  "sc_drop key c =
     (case dict_get (sc_entries c) key of
        None \<Rightarrow> c
      | Some old \<Rightarrow> c\<lparr>sc_entries := dict_pop key (sc_entries c),
                       sc_retained_bytes := sc_retained_bytes c - retained_bytes old\<rparr>)"

definition over_budget :: "since_cache \<Rightarrow> bool" where
  "over_budget c \<longleftrightarrow>
     int (length (sc_entries c)) > sc_max_entries c \<or> sc_retained_bytes c > sc_max_bytes c"

partial_function (option) evict_over_budget :: "since_cache \<Rightarrow> since_cache option" where
  "evict_over_budget c =
     (if over_budget c then
        case sc_entries c of
          [] \<Rightarrow> Some c
        | p # ps \<Rightarrow> evict_over_budget (sc_drop (fst p) c)
      else Some c)"

definition entry_bytes :: "string \<Rightarrow> (string, string) dict \<Rightarrow> int" where
  "entry_bytes items fps = int (length items) + fingerprint_bytes fps"

definition same_observation :: "observed_snapshot \<Rightarrow> cache_entry option \<Rightarrow> bool" where
  "same_observation ob cur =
     (case observed_generation ob of
        None \<Rightarrow> cur = None
      | Some g \<Rightarrow> (case cur of None \<Rightarrow> False | Some e \<Rightarrow> ce_generation e = g))"

definition same_items :: "cache_entry option \<Rightarrow> string \<Rightarrow> bool" where
  "same_items cur items = (case cur of None \<Rightarrow> False | Some e \<Rightarrow> ce_canonical_items e = items)"

text \<open>The end of \<open>commit\<close>: a new generation is allocated and its entry inserted.\<close>

definition commit_install ::
  "since_key \<Rightarrow> string \<Rightarrow> (string, string) dict \<Rightarrow> int \<Rightarrow> since_cache
     \<Rightarrow> (commit_result \<times> int \<times> since_cache) option" where
  "commit_install key items fps g c =
     (let g' = allocate_process_generation g;
          e = \<lparr>ce_canonical_items = items, ce_fingerprints = fps, ce_generation = g'\<rparr>;
          c1 = sc_drop key c;
          c2 = c1\<lparr>sc_entries := dict_set key e (sc_entries c1),
                  sc_retained_bytes := sc_retained_bytes c1 + retained_bytes e\<rparr>
      in case evict_over_budget c2 of
           None \<Rightarrow> None
         | Some c3 \<Rightarrow>
             Some (if dict_get (sc_entries c3) key = None
                   then \<lparr>cr_entry = None, cr_cas_loser = False, cr_omitted = True, cr_bypassed = True\<rparr>
                   else \<lparr>cr_entry = Some e, cr_cas_loser = False, cr_omitted = False, cr_bypassed = False\<rparr>,
                   g', c3))"

definition commit ::
  "since_key \<Rightarrow> observed_snapshot \<Rightarrow> string \<Rightarrow> (string, string) dict \<Rightarrow> bool \<Rightarrow> int \<Rightarrow> since_cache
     \<Rightarrow> (commit_result \<times> int \<times> since_cache) option" where
  "commit key ob items fps cacheable g c =
     (let cur = dict_get (sc_entries c) key in
      if \<not> sc_enabled c then
        Some (\<lparr>cr_entry = None, cr_cas_loser = False, cr_omitted = True, cr_bypassed = True\<rparr>, g, c)
      else if \<not> same_observation ob cur then
        (if same_items cur items
         then Some (\<lparr>cr_entry = cur, cr_cas_loser = True, cr_omitted = False, cr_bypassed = False\<rparr>, g, sc_touch key c)
         else Some (\<lparr>cr_entry = cur, cr_cas_loser = True, cr_omitted = True, cr_bypassed = False\<rparr>, g, c))
      else if same_items cur items then
        Some (\<lparr>cr_entry = cur, cr_cas_loser = False, cr_omitted = False, cr_bypassed = False\<rparr>, g, sc_touch key c)
      else if \<not> cacheable \<or> entry_bytes items fps > sc_max_entry_bytes c then
        Some (\<lparr>cr_entry = None, cr_cas_loser = False, cr_omitted = True, cr_bypassed = True\<rparr>, g, sc_drop key c)
      else commit_install key items fps g c)"

section \<open>Tokens\<close>

abbreviation (input) TOKEN_VERSION :: int where "TOKEN_VERSION \<equiv> 1"
abbreviation (input) TOKEN_MAX_BYTES :: nat where "TOKEN_MAX_BYTES \<equiv> 512"

definition token_payload :: "since_cache \<Rightarrow> string \<Rightarrow> string \<Rightarrow> int \<Rightarrow> json" where
  "token_payload c sid cq_hash g =
     JObj [(''v'', JInt TOKEN_VERSION), (''epoch'', JStr (sc_epoch c)), (''sid'', JStr sid),
           (''cq_hash'', JStr cq_hash), (''gen'', JInt g)]"

definition issue_token :: "(json \<Rightarrow> string) \<Rightarrow> string \<Rightarrow> string \<Rightarrow> int \<Rightarrow> since_cache \<Rightarrow> string" where
  "issue_token dumps sid cq_hash g c = b64_encode (dumps (token_payload c sid cq_hash g))"

text \<open>The alphabet and length tests and the decoding; \<open>None\<close> is the answer \<open>invalid\<close>.\<close>

definition decode_token :: "(string \<Rightarrow> json option) \<Rightarrow> string \<Rightarrow> (string \<times> json) list option" where
  "decode_token loads token =
     (if utf8_len token > TOKEN_MAX_BYTES then None
      else if token = [] \<or> \<not> list_all is_b64_char token then None
      else case b64_decode token of
             None \<Rightarrow> None
           | Some raw \<Rightarrow> (case loads raw of Some (JObj d) \<Rightarrow> Some d | _ \<Rightarrow> None))"

definition check_payload :: "since_cache \<Rightarrow> string \<Rightarrow> string \<Rightarrow> (string \<times> json) list \<Rightarrow> token_check" where
  "check_payload c sid cq_hash d =
     (if jget d ''v'' \<noteq> JInt TOKEN_VERSION then Token_Invalid
      else case (jget d ''epoch'', jget d ''sid'', jget d ''cq_hash'', jget d ''gen'') of
             (JStr ep, JStr s, JStr q, JInt g) \<Rightarrow>
               if s \<noteq> sid then Token_Invalid
               else if q \<noteq> cq_hash then Token_Reset g
               else if ep \<noteq> sc_epoch c then Token_Reset g
               else (case dict_get (sc_entries c) (sid, cq_hash) of
                       None \<Rightarrow> Token_Reset g
                     | Some e \<Rightarrow> if ce_generation e \<noteq> g then Token_Reset g else Token_Valid g)
           | _ \<Rightarrow> Token_Invalid)"

definition check_token ::
  "(string \<Rightarrow> json option) \<Rightarrow> string \<Rightarrow> string \<Rightarrow> string \<Rightarrow> since_cache \<Rightarrow> token_check" where
  "check_token loads token sid cq_hash c =
     (case decode_token loads token of None \<Rightarrow> Token_Invalid | Some d \<Rightarrow> check_payload c sid cq_hash d)"

section \<open>The eviction loop\<close>

text \<open>The state after dropping the \<open>n\<close> oldest entries.\<close>

definition evicted :: "nat \<Rightarrow> since_cache \<Rightarrow> since_cache" where
  "evicted n c = c\<lparr>sc_entries := drop n (sc_entries c),
     sc_retained_bytes := sc_retained_bytes c - dict_sum retained_bytes (take n (sc_entries c))\<rparr>"

lemma length_dict_pop_le: "length (dict_pop k d) \<le> length d"
  by (simp add: dict_pop_def)

lemma evict_terminates: "\<exists>c'. evict_over_budget c = Some c'"
proof (induction "length (sc_entries c)" arbitrary: c rule: less_induct)
  case less
  show ?case
  proof (cases "sc_entries c")
    case Nil
    then show ?thesis by (subst evict_over_budget.simps) simp
  next
    case (Cons p ps)
    have "length (sc_entries (sc_drop (fst p) c)) < length (sc_entries c)"
      using Cons length_dict_pop_le[of "fst p" ps] by (cases p) (simp add: sc_drop_def dict_get_def dict_pop_def le_imp_less_Suc)
    from less[OF this] Cons show ?thesis by (subst evict_over_budget.simps) simp
  qed
qed

lemma evicted_0 [simp]: "evicted 0 c = c"
  by (simp add: evicted_def)

lemma sc_drop_oldest:
  assumes "dict_wf (sc_entries c)" and "sc_entries c = p # ps"
  shows "sc_drop (fst p) c = evicted 1 c"
proof -
  have "fst p \<notin> set (map fst ps)" using assms by (simp add: dict_wf_def)
  then show ?thesis
    using assms(2) dict_pop_fresh[of "fst p" ps]
    by (cases p) (simp add: sc_drop_def evicted_def dict_get_def dict_pop_def)
qed

lemma evicted_Suc: "sc_entries c = p # ps \<Longrightarrow> evicted n (evicted 1 c) = evicted (Suc n) c"
  by (simp add: evicted_def)

lemma dict_wf_evicted: "dict_wf (sc_entries c) \<Longrightarrow> dict_wf (sc_entries (evicted n c))"
  by (simp add: evicted_def dict_wf_def distinct_map_drop)

lemma evict_minimal:
  assumes "dict_wf (sc_entries c)"
  shows "\<exists>n \<le> length (sc_entries c). evict_over_budget c = Some (evicted n c)
           \<and> (\<forall>m < n. over_budget (evicted m c))
           \<and> (over_budget (evicted n c) \<longrightarrow> n = length (sc_entries c))"
  using assms
proof (induction "length (sc_entries c)" arbitrary: c)
  case 0
  then show ?case by (subst evict_over_budget.simps) simp
next
  case (Suc k)
  then obtain p ps where ps: "sc_entries c = p # ps" by (cases "sc_entries c") auto
  show ?case
  proof (cases "over_budget c")
    case False
    then show ?thesis by (intro exI[of _ 0]) (subst evict_over_budget.simps, simp)
  next
    case True
    have "k = length (sc_entries (evicted 1 c))" using Suc.hyps(2) ps by (simp add: evicted_def)
    from Suc.hyps(1)[OF this dict_wf_evicted[OF Suc.prems]] obtain n where
      n: "n \<le> k" "evict_over_budget (evicted 1 c) = Some (evicted (Suc n) c)"
         "\<forall>m < n. over_budget (evicted (Suc m) c)" "over_budget (evicted (Suc n) c) \<longrightarrow> n = k"
      using \<open>k = _\<close> evicted_Suc[OF ps] by auto
    have "\<forall>m < Suc n. over_budget (evicted m c)"
      using n(3) True by (auto simp: less_Suc_eq_0_disj)
    moreover have "evict_over_budget c = evict_over_budget (evicted 1 c)"
      using True ps sc_drop_oldest[OF Suc.prems ps] by (subst evict_over_budget.simps) simp
    ultimately show ?thesis
      using n Suc.hyps(2) by (intro exI[of _ "Suc n"]) auto
  qed
qed

lemma since_commit_total: "\<exists>r. commit key ob items fps cacheable g c = Some r"
proof -
  have "\<exists>r. commit_install key items fps g c = Some r" for c
    unfolding commit_install_def Let_def
    using evict_terminates by (fastforce split: option.split)
  then show ?thesis by (simp add: commit_def Let_def)
qed

section \<open>The budget invariant\<close>

definition entries_fit :: "since_cache \<Rightarrow> bool" where
  "entries_fit c \<longleftrightarrow> list_all (\<lambda>p. retained_bytes (snd p) \<le> sc_max_entry_bytes c) (sc_entries c)"

definition accounted :: "since_cache \<Rightarrow> bool" where
  "accounted c \<longleftrightarrow>
     dict_wf (sc_entries c) \<and> sc_retained_bytes c = dict_sum retained_bytes (sc_entries c) \<and> entries_fit c"

definition cache_ok :: "since_cache \<Rightarrow> bool" where
  "cache_ok c \<longleftrightarrow> accounted c \<and> \<not> over_budget c"

definition caps_ok :: "since_cache \<Rightarrow> bool" where
  "caps_ok c \<longleftrightarrow> 0 \<le> sc_max_entries c \<and> 0 \<le> sc_max_bytes c"

definition same_caps :: "since_cache \<Rightarrow> since_cache \<Rightarrow> bool" where
  "same_caps c c' \<longleftrightarrow> sc_enabled c' = sc_enabled c \<and> sc_max_entries c' = sc_max_entries c
     \<and> sc_max_bytes c' = sc_max_bytes c \<and> sc_max_entry_bytes c' = sc_max_entry_bytes c \<and> sc_epoch c' = sc_epoch c"

lemma retained_bytes_nonneg: "0 \<le> retained_bytes e"
  by (auto simp: retained_bytes_def fingerprint_bytes_def intro!: add_nonneg_nonneg sum_list_nonneg)

lemma same_caps_refl [simp]: "same_caps c c"
  by (simp add: same_caps_def)

lemma same_caps_trans: "same_caps a b \<Longrightarrow> same_caps b c \<Longrightarrow> same_caps a c"
  by (simp add: same_caps_def)

lemma same_caps_caps_ok: "same_caps c c' \<Longrightarrow> caps_ok c \<Longrightarrow> caps_ok c'"
  by (simp add: same_caps_def caps_ok_def)

lemma same_caps_ops [simp]:
  "same_caps c (sc_touch key c)" "same_caps c (sc_drop key c)" "same_caps c (evicted n c)"
  by (auto simp: same_caps_def sc_touch_def sc_drop_def evicted_def split: option.split)

lemma dict_sum_move:
  assumes "dict_wf d"
  shows "dict_sum f (dict_move_to_end k d) = dict_sum f d"
  using dict_sum_pop[OF assms, of f k] by (simp add: dict_move_to_end_def dict_get_def split: option.split)

lemma set_dict_move: "set (dict_move_to_end k d) \<subseteq> set d"
  by (auto simp: dict_move_to_end_def dict_pop_def split: option.splits dest: map_of_SomeD)

lemma length_dict_move: "dict_wf d \<Longrightarrow> length (dict_move_to_end k d) = length d"
  using dict_sum_move[of d "\<lambda>_. 1" k] by (simp add: dict_sum_def sum_list_triv)

lemma accounted_touch [simp]: "accounted c \<Longrightarrow> accounted (sc_touch key c)"
  using set_dict_move[of key "sc_entries c"]
  by (auto simp: accounted_def entries_fit_def sc_touch_def dict_sum_move list_all_iff)

lemma cache_ok_touch [simp]: "cache_ok c \<Longrightarrow> cache_ok (sc_touch key c)"
  by (simp add: cache_ok_def over_budget_def)
    (simp add: sc_touch_def accounted_def length_dict_move)

lemma accounted_drop [simp]: "accounted c \<Longrightarrow> accounted (sc_drop key c)"
  by (auto simp: accounted_def entries_fit_def sc_drop_def dict_sum_pop list_all_iff dict_pop_def[of key "sc_entries c"]
      distinct_map_filter_key dict_wf_def split: option.splits)
    (metis dict_pop_def dict_sum_pop dict_wf_def option.simps(5))

lemma cache_ok_drop [simp]: "cache_ok c \<Longrightarrow> cache_ok (sc_drop key c)"
proof (cases "dict_get (sc_entries c) key")
  case (Some e)
  assume "cache_ok c"
  then have "accounted (sc_drop key c)" "\<not> over_budget c" by (simp_all add: cache_ok_def)
  then show ?thesis
    using Some length_dict_pop_le[of key "sc_entries c"] retained_bytes_nonneg[of e]
    by (simp add: cache_ok_def over_budget_def) (simp add: sc_drop_def)
qed (simp add: sc_drop_def)

lemma accounted_evicted [simp]: "accounted c \<Longrightarrow> accounted (evicted n c)"
proof -
  have "dict_sum retained_bytes (sc_entries c) =
      dict_sum retained_bytes (take n (sc_entries c)) + dict_sum retained_bytes (drop n (sc_entries c))"
    by (metis append_take_drop_id dict_sum_append)
  then show "accounted c \<Longrightarrow> accounted (evicted n c)"
    using dict_wf_evicted[of c n] by (auto simp: accounted_def entries_fit_def evicted_def list_all_iff dest: in_set_dropD)
qed

lemma evict_result:
  assumes "accounted c" and "caps_ok c" and "evict_over_budget c = Some c'"
  shows "cache_ok c'" and "\<exists>n. c' = evicted n c"
proof -
  obtain n where n: "c' = evicted n c" "over_budget c' \<longrightarrow> n = length (sc_entries c)"
    using assms(1,3) evict_minimal[of c] by (auto simp: accounted_def)
  have "\<not> over_budget (evicted (length (sc_entries c)) c)"
    using assms(1,2) by (simp add: over_budget_def evicted_def accounted_def caps_ok_def)
  then show "cache_ok c'" using n assms(1) by (auto simp: cache_ok_def)
  show "\<exists>n. c' = evicted n c" using n by blast
qed

lemma accounted_insert:
  assumes "accounted c" and "dict_get (sc_entries c) key = None" and "retained_bytes e \<le> sc_max_entry_bytes c"
  shows "accounted (c\<lparr>sc_entries := dict_set key e (sc_entries c),
    sc_retained_bytes := sc_retained_bytes c + retained_bytes e\<rparr>)"
proof -
  have "key \<notin> set (map fst (sc_entries c))"
    using assms(2) by (simp add: dict_get_def map_of_eq_None_iff)
  then show ?thesis using assms
    by (simp add: accounted_def entries_fit_def dict_sum_set dict_set_fresh dict_wf_def)
qed

lemma sc_drop_get: "dict_get (sc_entries (sc_drop key c)) k = (if k = key then None else dict_get (sc_entries c) k)"
  by (auto simp: sc_drop_def split: option.split)

text \<open>
  What an installing commit does: the new entry replaces the old one, the counter moves by one, and
  the oldest entries leave until the cache fits.
\<close>

lemma commit_install_result:
  assumes ok: "cache_ok c" and caps: "caps_ok c" and fit: "entry_bytes items fps \<le> sc_max_entry_bytes c"
    and r: "commit_install key items fps g c = Some (r, g', c')"
    and e: "e = \<lparr>ce_canonical_items = items, ce_fingerprints = fps, ce_generation = g + 1\<rparr>"
  shows "g' = g + 1" and "cache_ok c'" and "same_caps c c'"
    and "dict_get (sc_entries c') key \<in> {None, Some e}"
    and "k \<noteq> key \<Longrightarrow> dict_get (sc_entries c') k \<in> {None, dict_get (sc_entries c) k}"
    and "cr_entry r = dict_get (sc_entries c') key"
    and "\<not> cr_cas_loser r" and "cr_omitted r \<longleftrightarrow> cr_entry r = None" and "cr_bypassed r \<longleftrightarrow> cr_entry r = None"
proof -
  define c1 where "c1 = sc_drop key c"
  define c2 where "c2 = c1\<lparr>sc_entries := dict_set key e (sc_entries c1),
    sc_retained_bytes := sc_retained_bytes c1 + retained_bytes e\<rparr>"
  have caps1: "same_caps c c2" by (simp add: c2_def c1_def same_caps_def sc_drop_def split: option.split)
  have acc: "accounted c2"
    unfolding c2_def
  proof (rule accounted_insert)
    show "accounted c1" using ok by (simp add: c1_def cache_ok_def)
    show "dict_get (sc_entries c1) key = None" by (simp add: c1_def sc_drop_get)
    show "retained_bytes e \<le> sc_max_entry_bytes c1"
      using fit same_caps_ops(2)[of c key] by (simp add: c1_def e retained_bytes_def entry_bytes_def same_caps_def)
  qed
  obtain c3 where c3: "evict_over_budget c2 = Some c3" using evict_terminates by blast
  have rr: "r = (if dict_get (sc_entries c3) key = None
                 then \<lparr>cr_entry = None, cr_cas_loser = False, cr_omitted = True, cr_bypassed = True\<rparr>
                 else \<lparr>cr_entry = Some e, cr_cas_loser = False, cr_omitted = False, cr_bypassed = False\<rparr>)"
    and "g' = g + 1" "c' = c3"
    using r c3 by (auto simp: commit_install_def Let_def allocate_process_generation_def c2_def c1_def e)
  note res = evict_result[OF acc same_caps_caps_ok[OF caps1 caps] c3]
  show "g' = g + 1" "cache_ok c'" using \<open>g' = g + 1\<close> \<open>c' = c3\<close> res by auto
  obtain n where n: "c3 = evicted n c2" using res(2) by blast
  show "same_caps c c'" using caps1 n \<open>c' = c3\<close> same_caps_trans same_caps_ops(3) by blast
  have get: "dict_get (sc_entries c3) k \<in> {None, dict_get (sc_entries c2) k}" for k
    using map_of_drop_wf[of "sc_entries c2" n k] acc
    by (cases "map_of (drop n (sc_entries c2)) k") (auto simp: n evicted_def dict_get_def accounted_def dict_wf_def)
  show this_key: "dict_get (sc_entries c') key \<in> {None, Some e}" using get[of key] \<open>c' = c3\<close> by (simp add: c2_def)
  show "k \<noteq> key \<Longrightarrow> dict_get (sc_entries c') k \<in> {None, dict_get (sc_entries c) k}"
    using get[of k] \<open>c' = c3\<close> by (simp add: c2_def c1_def sc_drop_get)
  show "cr_entry r = dict_get (sc_entries c') key" "\<not> cr_cas_loser r"
    "cr_omitted r \<longleftrightarrow> cr_entry r = None" "cr_bypassed r \<longleftrightarrow> cr_entry r = None"
    using this_key rr \<open>c' = c3\<close> by (auto split: if_splits)
qed

end
