(* ===== verification/Since_Lineage.thy ===== *)
theory Since_Lineage
  imports Since_Cache
begin

text \<open>
  Interleaved use of the since cache: requests observe a key, await their upstream answer, and
  commit, in any order. The step relation keeps two ghost lists, the entries that have ever been
  held under a key and the snapshots that have been observed; the invariant makes a generation name
  one snapshot, so a compare-and-set on generations is one on snapshots, and a token is valid exactly
  while the snapshot it was issued for is the current one.
\<close>

record since_world =
  sw_generation :: int
  sw_cache :: since_cache
  sw_published :: "(since_key \<times> cache_entry) list"
  sw_observed :: "(since_key \<times> observed_snapshot) list"

definition sw_init :: "int \<Rightarrow> since_cache \<Rightarrow> since_world" where
  "sw_init g c = \<lparr>sw_generation = g, sw_cache = c, sw_published = [], sw_observed = []\<rparr>"

definition record_published :: "since_key \<Rightarrow> commit_result \<Rightarrow> (since_key \<times> cache_entry) list \<Rightarrow> (since_key \<times> cache_entry) list" where
  "record_published key r h = (case cr_entry r of None \<Rightarrow> h | Some e \<Rightarrow> (key, e) # h)"

text \<open>The last rule is another cache of the process drawing from the shared counter.\<close>

inductive since_step :: "since_world \<Rightarrow> since_world \<Rightarrow> bool" where
  observes: "observe key (sw_cache w) = (ob, c') \<Longrightarrow>
     since_step w (w\<lparr>sw_cache := c', sw_observed := (key, ob) # sw_observed w\<rparr>)"
| reads: "current key (sw_cache w) = (e, c') \<Longrightarrow> since_step w (w\<lparr>sw_cache := c'\<rparr>)"
| commits: "(key, ob) \<in> set (sw_observed w) \<Longrightarrow>
     commit key ob items fps cacheable (sw_generation w) (sw_cache w) = Some (r, g', c') \<Longrightarrow>
     since_step w (w\<lparr>sw_generation := g', sw_cache := c',
       sw_published := record_published key r (sw_published w)\<rparr>)"
| elsewhere: "sw_generation w \<le> g' \<Longrightarrow> since_step w (w\<lparr>sw_generation := g'\<rparr>)"

inductive since_reach :: "since_world \<Rightarrow> since_world \<Rightarrow> bool" for w0 where
  start: "since_reach w0 w0"
| continue: "since_reach w0 w \<Longrightarrow> since_step w w' \<Longrightarrow> since_reach w0 w'"

definition names_one :: "(since_key \<times> cache_entry) list \<Rightarrow> bool" where
  "names_one h \<longleftrightarrow> (\<forall>p \<in> set h. \<forall>q \<in> set h. ce_generation (snd p) = ce_generation (snd q) \<longrightarrow> p = q)"

definition held_published :: "since_cache \<Rightarrow> (since_key \<times> cache_entry) list \<Rightarrow> bool" where
  "held_published c h \<longleftrightarrow> (\<forall>k e. dict_get (sc_entries c) k = Some e \<longrightarrow> (k, e) \<in> set h)"

definition lineage_ok :: "since_world \<Rightarrow> bool" where
  "lineage_ok w \<longleftrightarrow> cache_ok (sw_cache w) \<and> caps_ok (sw_cache w)
     \<and> names_one (sw_published w) \<and> held_published (sw_cache w) (sw_published w)
     \<and> (\<forall>p \<in> set (sw_published w). ce_generation (snd p) \<le> sw_generation w)
     \<and> (\<forall>q \<in> set (sw_observed w). \<forall>e. os_entry (snd q) = Some e \<longrightarrow> (fst q, e) \<in> set (sw_published w))"

lemma held_publishedD: "held_published c h \<Longrightarrow> dict_get (sc_entries c) k = Some e \<Longrightarrow> (k, e) \<in> set h"
  unfolding held_published_def by blast

lemma held_publishedI: "(\<And>k e. dict_get (sc_entries c) k = Some e \<Longrightarrow> (k, e) \<in> set h) \<Longrightarrow> held_published c h"
  unfolding held_published_def by blast

lemma held_published_mono: "held_published c h \<Longrightarrow> set h \<subseteq> set h' \<Longrightarrow> held_published c h'"
  unfolding held_published_def by blast

lemma held_published_drop: "held_published c h \<Longrightarrow> held_published (sc_drop key c) h"
  by (rule held_publishedI) (auto simp: sc_drop_get dest: held_publishedD split: if_splits)

lemma caps_ok_ops [simp]: "caps_ok (sc_touch key c) = caps_ok c" "caps_ok (sc_drop key c) = caps_ok c"
  by (auto simp: caps_ok_def sc_touch_def sc_drop_def split: option.split)

lemma lineage_ok_init:
  assumes "0 \<le> sc_max_entries c" and "0 \<le> sc_max_bytes c" and "sc_entries c = []" and "sc_retained_bytes c = 0"
  shows "lineage_ok (sw_init g c)"
  using assms
  by (simp add: lineage_ok_def sw_init_def cache_ok_def accounted_def entries_fit_def over_budget_def
      caps_ok_def names_one_def held_published_def)

lemma get_touch [simp]: "dict_get (sc_entries (sc_touch key c)) k = dict_get (sc_entries c) k"
  by (simp add: sc_touch_def)

lemma observe_result:
  assumes "observe key c = (ob, c')"
  shows "c' = c \<or> c' = sc_touch key c"
    and "os_entry ob = Some e \<Longrightarrow> dict_get (sc_entries c) key = Some e"
  using assms by (auto simp: observe_def split: if_splits option.splits)

lemma current_result:
  assumes "current key c = (e, c')"
  shows "c' = c \<or> c' = sc_touch key c"
  using assms by (auto simp: current_def split: if_splits option.splits)

lemma lineage_ok_lookups:
  assumes "lineage_ok w" and "c' = sw_cache w \<or> c' = sc_touch key (sw_cache w)"
  shows "lineage_ok (w\<lparr>sw_cache := c'\<rparr>)"
proof -
  have "held_published c' (sw_published w)"
    using assms by (intro held_publishedI) (auto simp: lineage_ok_def dest: held_publishedD)
  then show ?thesis using assms by (auto simp: lineage_ok_def)
qed

text \<open>The outcomes of a commit: nothing changed, the key dropped, or a new entry installed.\<close>

lemma commit_cases:
  assumes "commit key ob items fps cacheable g c = Some (r, g', c')"
  obtains
    (bypassed) "\<not> sc_enabled c" "cr_entry r = None" "g' = g" "c' = c"
  | (reused) "dict_get (sc_entries c) key = cr_entry r" "g' = g" "c' = c \<or> c' = sc_touch key c"
  | (dropped) "same_observation ob (dict_get (sc_entries c) key)" "cr_entry r = None" "g' = g" "c' = sc_drop key c"
  | (installed) "sc_enabled c" "same_observation ob (dict_get (sc_entries c) key)"
      "entry_bytes items fps \<le> sc_max_entry_bytes c" "commit_install key items fps g c = Some (r, g', c')"
proof (cases "sc_enabled c")
  case False
  with assms show ?thesis by (intro bypassed) (auto simp: commit_def)
next
  case True
  let ?cur = "dict_get (sc_entries c) key"
  show ?thesis
  proof (cases "same_items ?cur items \<or> \<not> same_observation ob ?cur")
    case same: True
    with True assms show ?thesis by (intro reused) (auto simp: commit_def Let_def split: if_splits)
  next
    case differs: False
    show ?thesis
    proof (cases "\<not> cacheable \<or> entry_bytes items fps > sc_max_entry_bytes c")
      case big: True
      with differs True assms show ?thesis by (intro dropped) (auto simp: commit_def Let_def)
    next
      case False
      with differs True assms show ?thesis by (intro installed) (simp_all add: commit_def Let_def)
    qed
  qed
qed

lemma lineage_commit:
  assumes ok: "lineage_ok w" and r: "commit key ob items fps cacheable (sw_generation w) (sw_cache w) = Some (r, g', c')"
  shows "lineage_ok (w\<lparr>sw_generation := g', sw_cache := c', sw_published := record_published key r (sw_published w)\<rparr>)"
  using r
proof (cases rule: commit_cases)
  case bypassed
  then show ?thesis using ok by (simp add: record_published_def)
next
  case reused
  have "set (record_published key r (sw_published w)) = set (sw_published w)"
    using ok reused(1) by (auto simp: record_published_def lineage_ok_def dest: held_publishedD split: option.split)
  then show ?thesis
    using reused lineage_ok_lookups[OF ok reused(3)] by (simp add: lineage_ok_def names_one_def held_published_def)
next
  case dropped
  then show ?thesis
    using ok held_published_drop by (auto simp: lineage_ok_def record_published_def)
next
  case installed
  define e where "e = \<lparr>ce_canonical_items = items, ce_fingerprints = fps, ce_generation = sw_generation w + 1\<rparr>"
  have c: "cache_ok (sw_cache w)" "caps_ok (sw_cache w)" using ok by (auto simp: lineage_ok_def)
  note R = commit_install_result[OF c installed(3,4) e_def]
  have new: "set (record_published key r (sw_published w)) \<subseteq> insert (key, e) (set (sw_published w))"
    using R(4,6) by (auto simp: record_published_def split: option.split)
  have old: "ce_generation (snd p) \<noteq> ce_generation e" if "p \<in> set (sw_published w)" for p
    using ok that by (auto simp: lineage_ok_def e_def)
  have "names_one (record_published key r (sw_published w))"
    unfolding names_one_def
  proof (intro ballI impI)
    fix p q assume pq: "p \<in> set (record_published key r (sw_published w))"
      "q \<in> set (record_published key r (sw_published w))" "ce_generation (snd p) = ce_generation (snd q)"
    then have "p = (key, e) \<or> p \<in> set (sw_published w)" "q = (key, e) \<or> q \<in> set (sw_published w)"
      using new by blast+
    moreover have "names_one (sw_published w)" using ok by (simp add: lineage_ok_def)
    ultimately show "p = q" using old[of p] old[of q] pq(3) unfolding names_one_def by (metis snd_conv)
  qed
  moreover have "held_published c' (record_published key r (sw_published w))"
  proof (rule held_publishedI)
    fix k e' assume k: "dict_get (sc_entries c') k = Some e'"
    show "(k, e') \<in> set (record_published key r (sw_published w))"
    proof (cases "k = key")
      case True
      then show ?thesis using k R(6) by (simp add: record_published_def)
    next
      case False
      then have "dict_get (sc_entries (sw_cache w)) k = Some e'" using R(5)[OF False] k by auto
      then have "(k, e') \<in> set (sw_published w)" using ok by (auto simp: lineage_ok_def dest: held_publishedD)
      then show ?thesis by (simp add: record_published_def split: option.split)
    qed
  qed
  moreover have "\<forall>p \<in> set (record_published key r (sw_published w)). ce_generation (snd p) \<le> g'"
  proof
    fix p assume "p \<in> set (record_published key r (sw_published w))"
    with new have "p = (key, e) \<or> p \<in> set (sw_published w)" by blast
    with ok R(1) show "ce_generation (snd p) \<le> g'" by (auto simp: lineage_ok_def e_def)
  qed
  ultimately show ?thesis
    using ok R(2) same_caps_caps_ok[OF R(3) c(2)]
    by (auto simp: lineage_ok_def record_published_def split: option.split)
qed

lemma lineage_ok_step: "since_step w w' \<Longrightarrow> lineage_ok w \<Longrightarrow> lineage_ok w'"
proof (induction rule: since_step.induct)
  case (observes key w ob c')
  note O = observe_result[OF observes(1)]
  have "os_entry ob = Some e \<Longrightarrow> (key, e) \<in> set (sw_published w)" for e
    using O(2) observes(2) by (auto simp: lineage_ok_def dest: held_publishedD)
  then show ?case
    using lineage_ok_lookups[OF observes(2) O(1)] by (auto simp: lineage_ok_def)
next
  case (reads key w e c')
  then show ?case using current_result lineage_ok_lookups by blast
next
  case (commits key ob w items fps cacheable r g' c')
  then show ?case using lineage_commit by blast
next
  case (elsewhere w g')
  then show ?case by (auto simp: lineage_ok_def)
qed

lemma lineage_ok_reach: "since_reach w0 w \<Longrightarrow> lineage_ok w0 \<Longrightarrow> lineage_ok w"
  by (induction rule: since_reach.induct) (auto intro: lineage_ok_step)

lemma published_step: "since_step w w' \<Longrightarrow> set (sw_published w) \<subseteq> set (sw_published w')"
  by (induction rule: since_step.induct) (auto simp: record_published_def split: option.split)

lemma published_reach: "since_reach w0 w \<Longrightarrow> set (sw_published w0) \<subseteq> set (sw_published w)"
  by (induction rule: since_reach.induct) (auto dest: published_step)

section \<open>Caps and epoch never change\<close>

lemma same_caps_commit:
  assumes "lineage_ok w" and "commit key ob items fps cacheable (sw_generation w) (sw_cache w) = Some (r, g', c')"
  shows "same_caps (sw_cache w) c'"
  using assms(2)
proof (cases rule: commit_cases)
  case installed
  have c: "cache_ok (sw_cache w)" "caps_ok (sw_cache w)" using assms(1) by (auto simp: lineage_ok_def)
  show ?thesis by (rule commit_install_result(3)[OF c installed(3,4) refl])
qed auto

lemma same_caps_step: "since_step w w' \<Longrightarrow> lineage_ok w \<Longrightarrow> same_caps (sw_cache w) (sw_cache w')"
proof (induction rule: since_step.induct)
  case (observes key w ob c')
  then show ?case using observe_result(1)[OF observes(1)] by auto
next
  case (reads key w e c')
  then show ?case using current_result[OF reads(1)] by auto
next
  case (commits key ob w items fps cacheable r g' c')
  then show ?case using same_caps_commit by simp
qed simp

lemma same_caps_reach: "since_reach w0 w \<Longrightarrow> lineage_ok w0 \<Longrightarrow> same_caps (sw_cache w0) (sw_cache w)"
proof (induction rule: since_reach.induct)
  case (continue w w')
  then show ?case using same_caps_step lineage_ok_reach same_caps_trans by metis
qed simp

section \<open>Tokens\<close>

lemma is_b64_char_ascii: "is_b64_char c \<Longrightarrow> code_point c < 128"
proof -
  have "list_all (\<lambda>c. code_point c < 128) b64_alphabet" by (simp add: b64_alphabet_def code_point_def)
  then show "is_b64_char c \<Longrightarrow> code_point c < 128" by (simp add: is_b64_char_def list_all_iff)
qed

lemma utf8_len_b64: "list_all is_b64_char s \<Longrightarrow> utf8_len s = length s"
  by (induction s) (auto simp: utf8_len_def dest: is_b64_char_ascii)

lemma decode_issued:
  assumes "dumps (token_payload c sid cq g) \<noteq> []" and "loads (dumps (token_payload c sid cq g)) = Some (token_payload c sid cq g)"
    and "length (issue_token dumps sid cq g c) \<le> TOKEN_MAX_BYTES"
  shows "decode_token loads (issue_token dumps sid cq g c) =
    Some [(''v'', JInt 1), (''epoch'', JStr (sc_epoch c)), (''sid'', JStr sid), (''cq_hash'', JStr cq), (''gen'', JInt g)]"
  using assms b64_encode_alphabet[of "dumps (token_payload c sid cq g)"]
  by (simp add: decode_token_def issue_token_def utf8_len_b64) (simp add: token_payload_def)

lemma check_issued:
  assumes "dumps (token_payload c0 sid0 cq0 g) \<noteq> []"
    and "loads (dumps (token_payload c0 sid0 cq0 g)) = Some (token_payload c0 sid0 cq0 g)"
    and "length (issue_token dumps sid0 cq0 g c0) \<le> TOKEN_MAX_BYTES" and "sc_epoch c = sc_epoch c0"
  shows "check_token loads (issue_token dumps sid0 cq0 g c0) sid cq c =
    (if sid \<noteq> sid0 then Token_Invalid
     else if cq = cq0 \<and> map_option ce_generation (dict_get (sc_entries c) (sid, cq)) = Some g then Token_Valid g
     else Token_Reset g)"
proof -
  have *: "decode_token loads (issue_token dumps sid0 cq0 g c0) =
      Some [(''v'', JInt 1), (''epoch'', JStr (sc_epoch c0)), (''sid'', JStr sid0), (''cq_hash'', JStr cq0), (''gen'', JInt g)]"
    using assms(1-3) by (rule decode_issued)
  show ?thesis
    using assms(4) unfolding check_token_def * check_payload_def
    by (simp add: jget_def split: option.split)
qed

text \<open>Two published entries with the same generation are one entry under one key.\<close>

lemma held_names_one:
  assumes "lineage_ok w" and "((sid, cq), e) \<in> set (sw_published w)"
  shows "map_option ce_generation (dict_get (sc_entries (sw_cache w)) (sid, cq)) = Some (ce_generation e)
     \<longleftrightarrow> dict_get (sc_entries (sw_cache w)) (sid, cq) = Some e"
proof
  assume "map_option ce_generation (dict_get (sc_entries (sw_cache w)) (sid, cq)) = Some (ce_generation e)"
  then obtain e' where e': "dict_get (sc_entries (sw_cache w)) (sid, cq) = Some e'" "ce_generation e' = ce_generation e"
    by auto
  have "((sid, cq), e') \<in> set (sw_published w)"
    using assms(1) e'(1) by (auto simp: lineage_ok_def dest: held_publishedD)
  with assms e'(2) have "e' = e" unfolding lineage_ok_def names_one_def by (metis snd_conv)
  with e' show "dict_get (sc_entries (sw_cache w)) (sid, cq) = Some e" by simp
qed simp

lemma observed_same:
  assumes ok: "lineage_ok w" and ob: "(key, ob) \<in> set (sw_observed w)"
  shows "same_observation ob (dict_get (sc_entries (sw_cache w)) key) \<longleftrightarrow> os_entry ob = dict_get (sc_entries (sw_cache w)) key"
proof (cases "os_entry ob")
  case None
  then show ?thesis by (auto simp: same_observation_def observed_generation_def)
next
  case (Some e)
  have "(key, e) \<in> set (sw_published w)" using ok ob Some unfolding lineage_ok_def by fastforce
  then have "map_option ce_generation (dict_get (sc_entries (sw_cache w)) key) = Some (ce_generation e)
     \<longleftrightarrow> dict_get (sc_entries (sw_cache w)) key = Some e"
    using held_names_one[OF ok] by (cases key) blast
  moreover have "same_observation ob cur \<longleftrightarrow> map_option ce_generation cur = Some (ce_generation e)" for cur
    using Some by (simp add: same_observation_def observed_generation_def split: option.split)
  ultimately show ?thesis using Some by auto
qed

section \<open>Guarantees\<close>

text \<open>
  C9. The commit of a snapshot always returns: the eviction loop of \<^verbatim>\<open>_evict_over_budget\<close> ends from
  every state of the cache, well-formed or not and whatever the configured budgets.
\<close>

theorem since_commit_returns: "\<exists>r g' c'. commit key ob items fps cacheable g c = Some (r, g', c')"
  using since_commit_total by (metis prod_cases3)

text \<open>
  The eviction loop computes the least eviction: over a dictionary with distinct keys it drops
  exactly the \<open>n\<close> oldest entries, every shorter prefix would have left the cache over a budget, and
  unless the cache was emptied the result is within both.
\<close>

theorem eviction_is_least:
  assumes "dict_wf (sc_entries c)"
  shows "\<exists>n \<le> length (sc_entries c). evict_over_budget c = Some (evicted n c)
     \<and> (\<forall>m < n. over_budget (evicted m c))
     \<and> (over_budget (evicted n c) \<longrightarrow> n = length (sc_entries c))"
  using assms by (rule evict_minimal)

text \<open>
  C8. However requests interleave their lookups and commits, the cache stays within its configuration:
  at most \<open>max_entries\<close> snapshots, the byte counter is exactly the bytes of the snapshots held and at
  most \<open>max_bytes\<close>, and no snapshot is larger than \<open>max_entry_bytes\<close>.
\<close>

theorem since_cache_within_budget:
  assumes "0 \<le> max_entries" and "0 \<le> max_bytes"
    and "since_reach (sw_init g (since_cache_init enabled max_entries max_bytes max_entry_bytes epoch)) w"
  shows "int (length (sc_entries (sw_cache w))) \<le> max_entries
     \<and> sc_retained_bytes (sw_cache w) = dict_sum retained_bytes (sc_entries (sw_cache w))
     \<and> sc_retained_bytes (sw_cache w) \<le> max_bytes
     \<and> list_all (\<lambda>p. retained_bytes (snd p) \<le> max_entry_bytes) (sc_entries (sw_cache w))"
proof -
  have i: "lineage_ok (sw_init g (since_cache_init enabled max_entries max_bytes max_entry_bytes epoch))"
    using assms(1,2) by (intro lineage_ok_init) (simp_all add: since_cache_init_def)
  from lineage_ok_reach[OF assms(3) i] same_caps_reach[OF assms(3) i] show ?thesis
    by (simp add: lineage_ok_def cache_ok_def accounted_def entries_fit_def over_budget_def same_caps_def
        sw_init_def since_cache_init_def)
qed

text \<open>
  C7. A cursor token names one snapshot. Take an entry that the cache held under \<open>(sid, cq_hash)\<close> at some
  moment, and a token issued for it; \<^verbatim>\<open>orjson\<close> reads back the payload it wrote, and the token is within
  the length limit. At every later moment the token is \<open>valid\<close> for a request exactly if the request is for the
  same session and query and the current snapshot is still that very entry; for the same session it is
  otherwise a \<open>reset\<close>, and it is \<open>invalid\<close> only for another session.
\<close>

theorem since_token_names_snapshot:
  assumes "lineage_ok w0" and "since_reach w0 w" and "((sid, cq_hash), e) \<in> set (sw_published w0)"
    and "dumps (token_payload (sw_cache w0) sid cq_hash (ce_generation e)) \<noteq> []"
    and "loads (dumps (token_payload (sw_cache w0) sid cq_hash (ce_generation e)))
           = Some (token_payload (sw_cache w0) sid cq_hash (ce_generation e))"
    and "length (issue_token dumps sid cq_hash (ce_generation e) (sw_cache w0)) \<le> TOKEN_MAX_BYTES"
  shows "check_token loads (issue_token dumps sid cq_hash (ce_generation e) (sw_cache w0)) sid' cq_hash' (sw_cache w) =
    (if sid' \<noteq> sid then Token_Invalid
     else if cq_hash' = cq_hash \<and> dict_get (sc_entries (sw_cache w)) (sid, cq_hash) = Some e
     then Token_Valid (ce_generation e)
     else Token_Reset (ce_generation e))"
proof -
  have ok: "lineage_ok w" using assms(2,1) by (rule lineage_ok_reach)
  have ep: "sc_epoch (sw_cache w) = sc_epoch (sw_cache w0)"
    using same_caps_reach[OF assms(2,1)] by (simp add: same_caps_def)
  have "((sid, cq_hash), e) \<in> set (sw_published w)" using published_reach[OF assms(2)] assms(3) by blast
  from held_names_one[OF ok this] show ?thesis
    using check_issued[of dumps "sw_cache w0" sid cq_hash "ce_generation e" loads, OF assms(4-6) ep] by auto
qed

text \<open>
  C6. A commit is a compare-and-set on snapshots. When the snapshot under the key is no longer the one
  the request observed, the commit is reported as the loser, the snapshot and the generation counter
  stay as they are, and \<open>omitted\<close> is set unless the two computed the same items. When it still is, the
  request is not a loser, and afterwards the key holds the observed snapshot if the items are equal,
  and otherwise either the new one under a fresh generation or none.
\<close>

theorem since_commit_is_cas:
  assumes "lineage_ok w" and "sc_enabled (sw_cache w)" and "(key, ob) \<in> set (sw_observed w)"
    and "commit key ob items fps cacheable (sw_generation w) (sw_cache w) = Some (r, g', c')"
  shows "if os_entry ob \<noteq> dict_get (sc_entries (sw_cache w)) key
    then cr_cas_loser r \<and> g' = sw_generation w \<and> dict_get (sc_entries c') key = dict_get (sc_entries (sw_cache w)) key
      \<and> cr_entry r = dict_get (sc_entries (sw_cache w)) key
      \<and> (cr_omitted r \<longleftrightarrow> \<not> same_items (dict_get (sc_entries (sw_cache w)) key) items)
    else \<not> cr_cas_loser r \<and> cr_entry r = dict_get (sc_entries c') key \<and> (cr_omitted r \<longleftrightarrow> cr_entry r = None)
      \<and> (if same_items (os_entry ob) items then dict_get (sc_entries c') key = os_entry ob
         else dict_get (sc_entries c') key \<in> {None, Some \<lparr>ce_canonical_items = items, ce_fingerprints = fps,
                ce_generation = sw_generation w + 1\<rparr>})"
proof (cases "os_entry ob = dict_get (sc_entries (sw_cache w)) key")
  case False
  then show ?thesis using assms(2,4) observed_same[OF assms(1,3)]
    by (auto simp: commit_def Let_def split: if_splits)
next
  case True
  then have same: "same_observation ob (dict_get (sc_entries (sw_cache w)) key)"
    using observed_same[OF assms(1,3)] by simp
  have c: "cache_ok (sw_cache w)" "caps_ok (sw_cache w)" using assms(1) by (auto simp: lineage_ok_def)
  show ?thesis
  proof (cases "same_items (os_entry ob) items \<or> \<not> cacheable \<or> entry_bytes items fps > sc_max_entry_bytes (sw_cache w)")
    case reuse: True
    then show ?thesis using assms(2,4) same True
      by (auto simp: commit_def Let_def sc_drop_get same_items_def split: if_splits option.splits)
  next
    case install: False
    then have i: "commit_install key items fps (sw_generation w) (sw_cache w) = Some (r, g', c')"
      "entry_bytes items fps \<le> sc_max_entry_bytes (sw_cache w)"
      using assms(2,4) same True by (auto simp: commit_def Let_def)
    note R = commit_install_result[OF c i(2,1) refl]
    show ?thesis using True install R(4,6-8) by simp
  qed
qed

section \<open>A concrete run\<close>

text \<open>One request observes an empty key and publishes two messages; a second one observes that snapshot.\<close>

definition demo_cache :: since_cache where
  "demo_cache = since_cache_init True 1 1000 500 ''ep''"

definition demo_key :: since_key where
  "demo_key = (''s1'', ''v1:20::baseline'')"

definition demo_entry :: cache_entry where
  "demo_entry = \<lparr>ce_canonical_items = ''[1,2]'', ce_fingerprints = [(''m1'', ''a''), (''m2'', ''b'')], ce_generation = 1\<rparr>"

definition demo_published :: since_cache where
  "demo_published = demo_cache\<lparr>sc_entries := [(demo_key, demo_entry)], sc_retained_bytes := 201\<rparr>"

definition demo_world :: since_world where
  "demo_world = \<lparr>sw_generation = 1, sw_cache = demo_published, sw_published = [(demo_key, demo_entry)],
     sw_observed = [(demo_key, \<lparr>os_entry = Some demo_entry\<rparr>), (demo_key, \<lparr>os_entry = None\<rparr>)]\<rparr>"

lemmas demo_defs = demo_cache_def demo_entry_def demo_published_def since_cache_init_def

lemma demo_commit:
  "commit demo_key \<lparr>os_entry = None\<rparr> ''[1,2]'' [(''m1'', ''a''), (''m2'', ''b'')] True 0 demo_cache =
     Some (\<lparr>cr_entry = Some demo_entry, cr_cas_loser = False, cr_omitted = False, cr_bypassed = False\<rparr>, 1, demo_published)"
  by (simp add: commit_def commit_install_def demo_defs evict_over_budget.simps over_budget_def same_observation_def
      observed_generation_def same_items_def entry_bytes_def retained_bytes_def fingerprint_bytes_def dict_keys_def
      allocate_process_generation_def Let_def sc_drop_def dict_set_def utf8_len_def code_point_def dict_get_def)

lemma demo_reach: "since_reach (sw_init 0 demo_cache) demo_world"
proof -
  let ?w0 = "sw_init 0 demo_cache"
  have "observe demo_key (sw_cache ?w0) = (\<lparr>os_entry = None\<rparr>, demo_cache)"
    by (simp add: observe_def demo_defs sw_init_def)
  from since_step.observes[OF this]
  have 1: "since_reach ?w0 (?w0\<lparr>sw_cache := demo_cache, sw_observed := [(demo_key, \<lparr>os_entry = None\<rparr>)]\<rparr>)" (is "since_reach _ ?w1")
    using since_reach.intros by (fastforce simp: sw_init_def)
  have "since_step ?w1 (?w1\<lparr>sw_generation := 1, sw_cache := demo_published, sw_published := [(demo_key, demo_entry)]\<rparr>)"
    using since_step.commits[of demo_key "\<lparr>os_entry = None\<rparr>" ?w1] demo_commit
    by (fastforce simp: sw_init_def record_published_def)
  from since_reach.continue[OF 1 this]
  have 2: "since_reach ?w0 (?w1\<lparr>sw_generation := 1, sw_cache := demo_published, sw_published := [(demo_key, demo_entry)]\<rparr>)"
    (is "since_reach _ ?w2") .
  have "observe demo_key (sw_cache ?w2) = (\<lparr>os_entry = Some demo_entry\<rparr>, demo_published)"
    by (simp add: observe_def demo_published_def demo_cache_def since_cache_init_def dict_get_def sc_touch_def
        dict_move_to_end_def dict_pop_def)
  from since_step.observes[OF this] have "since_step ?w2 demo_world"
    by (simp add: demo_world_def sw_init_def)
  with 2 show ?thesis by (rule since_reach.continue)
qed

lemma demo_lineage: "lineage_ok (sw_init 0 demo_cache)" "lineage_ok demo_world"
proof -
  show "lineage_ok (sw_init 0 demo_cache)" by (rule lineage_ok_init) (simp_all add: demo_defs)
  with demo_reach show "lineage_ok demo_world" by (rule lineage_ok_reach)
qed

theorem eviction_is_least_witness:
  "dict_wf (sc_entries (demo_published\<lparr>sc_max_entries := 0\<rparr>))
   \<and> (\<exists>n \<le> length (sc_entries (demo_published\<lparr>sc_max_entries := 0\<rparr>)).
        evict_over_budget (demo_published\<lparr>sc_max_entries := 0\<rparr>) = Some (evicted n (demo_published\<lparr>sc_max_entries := 0\<rparr>)))"
proof -
  have "dict_wf (sc_entries (demo_published\<lparr>sc_max_entries := 0\<rparr>))" by (simp add: demo_published_def dict_wf_def)
  from eviction_is_least[OF this] this show ?thesis by blast
qed

theorem since_cache_within_budget_witness:
  "since_reach (sw_init 0 (since_cache_init True 1 1000 500 ''ep'')) demo_world
   \<and> sc_retained_bytes (sw_cache demo_world) = dict_sum retained_bytes (sc_entries (sw_cache demo_world))"
proof -
  have "since_reach (sw_init 0 (since_cache_init True 1 1000 500 ''ep'')) demo_world"
    using demo_reach by (simp only: demo_cache_def)
  from since_cache_within_budget[OF _ _ this] this show ?thesis by simp
qed

theorem since_token_names_snapshot_witness:
  "check_token (\<lambda>_. Some (token_payload demo_published ''s1'' ''v1:20::baseline'' 1))
     (issue_token (\<lambda>_. ''{}'') ''s1'' ''v1:20::baseline'' 1 demo_published) ''s1'' ''v1:20::baseline'' demo_published
   = Token_Valid 1"
proof -
  have "((''s1'', ''v1:20::baseline''), demo_entry) \<in> set (sw_published demo_world)"
    by (simp add: demo_world_def demo_key_def)
  from since_token_names_snapshot[OF demo_lineage(2) since_reach.start this, of "\<lambda>_. ''{}''"
      "\<lambda>_. Some (token_payload demo_published ''s1'' ''v1:20::baseline'' 1)" "''s1''" "''v1:20::baseline''"]
  show ?thesis
    by (simp add: demo_world_def demo_entry_def issue_token_def)
      (simp add: demo_published_def demo_key_def demo_entry_def dict_get_def)
qed

theorem since_commit_is_cas_witness:
  "\<exists>r g' c'. commit demo_key \<lparr>os_entry = None\<rparr> ''[1,3]'' [(''m1'', ''a''), (''m3'', ''c'')] True 1 demo_published = Some (r, g', c')
     \<and> cr_cas_loser r \<and> cr_omitted r \<and> dict_get (sc_entries c') demo_key = Some demo_entry"
proof -
  obtain r g' c' where c: "commit demo_key \<lparr>os_entry = None\<rparr> ''[1,3]'' [(''m1'', ''a''), (''m3'', ''c'')] True
      (sw_generation demo_world) (sw_cache demo_world) = Some (r, g', c')"
    using since_commit_total by (metis prod_cases3)
  have "sc_enabled (sw_cache demo_world)" "(demo_key, \<lparr>os_entry = None\<rparr>) \<in> set (sw_observed demo_world)"
    "dict_get (sc_entries (sw_cache demo_world)) demo_key = Some demo_entry"
    by (simp_all add: demo_world_def demo_published_def demo_cache_def since_cache_init_def dict_get_def)
  with since_commit_is_cas[OF demo_lineage(2) _ _ c] have "cr_cas_loser r" "cr_omitted r" "dict_get (sc_entries c') demo_key = Some demo_entry"
    by (simp_all add: same_items_def demo_entry_def)
  with c show ?thesis by (auto simp: demo_world_def)
qed

end
