(* ===== verification/Py_Sha256.thy ===== *)
theory Py_Sha256
  imports Prelude "HOL-Library.Word"
begin

text \<open>
  \<^verbatim>\<open>hashlib.sha256(b).hexdigest()\<close> of the standard library (FIPS 180-4), on byte strings shorter
  than \<open>2 ^ 61\<close> bytes, so that their bit length fits the 64-bit length field.
\<close>

unbundle bit_operations_syntax

type_synonym word32 = "32 word"

text \<open>The round constants and the initial state, in decimal.\<close>

definition sha_k :: "word32 list" where
  "sha_k =
    [1116352408, 1899447441, 3049323471, 3921009573, 961987163, 1508970993,
     2453635748, 2870763221, 3624381080, 310598401, 607225278, 1426881987,
     1925078388, 2162078206, 2614888103, 3248222580, 3835390401, 4022224774,
     264347078, 604807628, 770255983, 1249150122, 1555081692, 1996064986,
     2554220882, 2821834349, 2952996808, 3210313671, 3336571891, 3584528711,
     113926993, 338241895, 666307205, 773529912, 1294757372, 1396182291,
     1695183700, 1986661051, 2177026350, 2456956037, 2730485921, 2820302411,
     3259730800, 3345764771, 3516065817, 3600352804, 4094571909, 275423344,
     430227734, 506948616, 659060556, 883997877, 958139571, 1322822218,
     1537002063, 1747873779, 1955562222, 2024104815, 2227730452, 2361852424,
     2428436474, 2756734187, 3204031479, 3329325298]"

definition sha_init :: "word32 list" where
  "sha_init = [1779033703, 3144134277, 1013904242, 2773480762, 1359893119, 2600822924, 528734635, 1541459225]"

definition rotr :: "nat \<Rightarrow> word32 \<Rightarrow> word32" where
  "rotr n x = (drop_bit n x OR push_bit (32 - n) x)"

definition small_sigma0 :: "word32 \<Rightarrow> word32" where
  "small_sigma0 x = (rotr 7 x XOR rotr 18 x XOR drop_bit 3 x)"

definition small_sigma1 :: "word32 \<Rightarrow> word32" where
  "small_sigma1 x = (rotr 17 x XOR rotr 19 x XOR drop_bit 10 x)"

definition big_sigma0 :: "word32 \<Rightarrow> word32" where
  "big_sigma0 x = (rotr 2 x XOR rotr 13 x XOR rotr 22 x)"

definition big_sigma1 :: "word32 \<Rightarrow> word32" where
  "big_sigma1 x = (rotr 6 x XOR rotr 11 x XOR rotr 25 x)"

definition sha_ch :: "word32 \<Rightarrow> word32 \<Rightarrow> word32 \<Rightarrow> word32" where
  "sha_ch e f g = ((e AND f) XOR (NOT e AND g))"

definition sha_maj :: "word32 \<Rightarrow> word32 \<Rightarrow> word32 \<Rightarrow> word32" where
  "sha_maj a b c = ((a AND b) XOR (a AND c) XOR (b AND c))"

text \<open>The message schedule: \<open>n\<close> further words from the last sixteen.\<close>

fun sha_extend :: "nat \<Rightarrow> word32 list \<Rightarrow> word32 list" where
  "sha_extend 0 ws = []"
| "sha_extend (Suc n) ws =
     (let w = small_sigma1 (ws ! 14) + ws ! 9 + small_sigma0 (ws ! 1) + ws ! 0
      in w # sha_extend n (tl ws @ [w]))"

definition sha_schedule :: "word32 list \<Rightarrow> word32 list" where
  "sha_schedule block = block @ sha_extend 48 block"

fun sha_round :: "word32 \<times> word32 \<Rightarrow> word32 list \<Rightarrow> word32 list" where
  "sha_round (k, w) [a, b, c, d, e, f, g, h] =
     (let t1 = h + big_sigma1 e + sha_ch e f g + k + w;
          t2 = big_sigma0 a + sha_maj a b c
      in [t1 + t2, a, b, c, d + t1, e, f, g])"
| "sha_round _ s = s"

definition sha_block :: "word32 list \<Rightarrow> word32 list \<Rightarrow> word32 list" where
  "sha_block s block = map2 (+) s (fold sha_round (zip sha_k (sha_schedule block)) s)"

definition be_bytes :: "nat \<Rightarrow> int \<Rightarrow> nat list" where
  "be_bytes n v = map (\<lambda>i. nat (v div 256 ^ (n - 1 - i) mod 256)) [0..<n]"

definition sha_pad :: "string \<Rightarrow> nat list" where
  "sha_pad s = (let n = length s in
     map code_point s @ [128] @ replicate ((119 - n mod 64) mod 64) 0 @ be_bytes 8 (8 * int n))"

fun chunks :: "nat \<Rightarrow> nat \<Rightarrow> 'a list \<Rightarrow> 'a list list" where
  "chunks 0 k xs = []"
| "chunks (Suc m) k xs = take k xs # chunks m k (drop k xs)"

definition sha_words :: "nat list \<Rightarrow> word32 list" where
  "sha_words bs = map (\<lambda>b. foldl (\<lambda>a x. 256 * a + word_of_nat x) 0 b) (chunks (length bs div 4) 4 bs)"

definition hex_digit :: "nat \<Rightarrow> char" where
  "hex_digit n = ''0123456789abcdef'' ! n"

definition word_hex :: "word32 \<Rightarrow> string" where
  "word_hex w = map (\<lambda>i. hex_digit (unat (drop_bit (28 - 4 * i) w AND 15))) [0..<8]"

definition sha256_hexdigest :: "string \<Rightarrow> string" where
  "sha256_hexdigest s =
     (let ws = sha_words (sha_pad s)
      in concat (map word_hex (fold (\<lambda>b st. sha_block st b) (chunks (length ws div 16) 16 ws) sha_init)))"

lemma length_sha_round: "length (sha_round kw s) = length s"
  by (induction kw s rule: sha_round.induct) (simp_all add: Let_def)

lemma length_fold_sha_round: "length (fold sha_round kws s) = length s"
  by (induction kws arbitrary: s) (simp_all add: length_sha_round)

lemma length_sha_fold: "length (fold (\<lambda>b st. sha_block st b) bs st) = length st"
  by (induction bs arbitrary: st) (simp_all add: sha_block_def length_fold_sha_round)

lemma length_sha256 [simp]: "length (sha256_hexdigest s) = 64"
proof -
  have "length (concat (map word_hex ws)) = 8 * length ws" for ws
    by (induction ws) (simp_all add: word_hex_def)
  then show ?thesis by (simp add: sha256_hexdigest_def Let_def length_sha_fold sha_init_def)
qed

lemma unat_nibble: "unat (w AND 15 :: word32) < 16"
proof -
  have "w AND 15 \<le> 15" by (rule word_and_le1)
  then have "unat (w AND 15) \<le> unat (15 :: word32)" by (simp only: word_le_nat_alt)
  then show ?thesis by simp
qed

definition is_hex_digit :: "char \<Rightarrow> bool" where
  "is_hex_digit c = (c \<in> set ''0123456789abcdef'')"

lemma is_hex_digit_hex: "n < 16 \<Longrightarrow> is_hex_digit (hex_digit n)"
  unfolding hex_digit_def is_hex_digit_def by (rule nth_mem) simp

lemma word_hex_digits: "list_all is_hex_digit (word_hex w)"
  unfolding word_hex_def by (simp add: list_all_iff is_hex_digit_hex unat_nibble)

lemma sha256_digits: "list_all is_hex_digit (sha256_hexdigest s)"
proof -
  have "list_all is_hex_digit (concat (map word_hex ws))" for ws
    by (induction ws) (simp_all add: word_hex_digits)
  then show ?thesis by (simp add: sha256_hexdigest_def Let_def)
qed

end
