(* ===== verification/Since_Diff.thy ===== *)
theory Since_Diff
  imports Since_Lineage Py_Sha256
begin

text \<open>
  The \<^verbatim>\<open>?since=\<close> part of the message list (\<^verbatim>\<open>routes/messages/_list.py\<close>, \<^verbatim>\<open>envelope.py\<close>): parameter
  validation and the capture of the baseline, the fingerprints of a projected page and its difference
  against the baseline, publication of the page, the cursor and the envelope of the reply.

  A message is a JSON object. The serializer \<^verbatim>\<open>orjson\<close> is the parameters \<open>loads\<close>, \<open>dumps\<close> and
  \<open>dumps_sorted\<close> (with \<^verbatim>\<open>OPT_SORT_KEYS\<close>). JSON floats are real numbers, so \<^verbatim>\<open>math.isfinite\<close> holds of
  every number; Python compares integers with floats exactly.
\<close>

section \<open>Messages\<close>

type_synonym message = "(string \<times> json) list"

definition created_value :: "message \<Rightarrow> real option" where
  "created_value msg =
     (case jget msg ''info'' of
        JObj info \<Rightarrow> (case jget info ''time'' of
          JObj t \<Rightarrow> (case jget t ''created'' of
              JInt i \<Rightarrow> Some (real_of_int i)
            | JFloat r \<Rightarrow> Some r
            | _ \<Rightarrow> None)
        | _ \<Rightarrow> None)
      | _ \<Rightarrow> None)"

definition message_id :: "message \<Rightarrow> string option" where
  "message_id item =
     (case jget item ''info'' of
        JObj info \<Rightarrow> (case jget info ''id'' of JStr mid \<Rightarrow> if mid = [] then None else Some mid | _ \<Rightarrow> None)
      | _ \<Rightarrow> None)"

definition boundary_key :: "message \<Rightarrow> string option \<Rightarrow> (real \<times> string) option" where
  "boundary_key item mid =
     (case mid of
        None \<Rightarrow> None
      | Some m \<Rightarrow> (case created_value item of None \<Rightarrow> None | Some c \<Rightarrow> Some (c, m)))"

text \<open>Python's order of strings (by code points) and of the key tuples.\<close>

fun str_less :: "string \<Rightarrow> string \<Rightarrow> bool" where
  "str_less s [] = False"
| "str_less [] (b # t) = True"
| "str_less (a # s) (b # t) = (code_point a < code_point b \<or> code_point a = code_point b \<and> str_less s t)"

definition key_less :: "real \<times> string \<Rightarrow> real \<times> string \<Rightarrow> bool" where
  "key_less j k \<longleftrightarrow> fst j < fst k \<or> fst j = fst k \<and> str_less (snd j) (snd k)"

section \<open>The page and its difference\<close>

datatype page_error = Json_Decode_Error | Not_A_List_Of_Objects | Not_Iterable

record projection_artifact =
  pa_array_bytes :: string
  pa_canonical_items :: string
  pa_changed_bytes :: string
  pa_fingerprints :: "(string, string) dict"
  pa_changed :: "message list"
  pa_removed :: "string list"
  pa_cacheable :: bool

fun objects_of :: "json list \<Rightarrow> message list option" where
  "objects_of [] = Some []"
| "objects_of (JObj d # xs) = map_option (Cons d) (objects_of xs)"
| "objects_of (_ # xs) = None"

text \<open>One turn of the fingerprint loop: the fingerprints, the fresh ids and the flag.\<close>

definition scan_item ::
  "(json \<Rightarrow> string) \<Rightarrow> message \<Rightarrow> (string, string) dict \<times> string list \<times> bool
     \<Rightarrow> (string, string) dict \<times> string list \<times> bool" where
  "scan_item dumps_sorted item st =
     (case st of (fps, fresh, cacheable) \<Rightarrow>
        (case message_id item of
           None \<Rightarrow> (fps, fresh, False)
         | Some mid \<Rightarrow>
             if dict_has fps mid then (fps, fresh, False)
             else (dict_set mid (sha256_hexdigest (dumps_sorted (JObj item))) fps, mid # fresh, cacheable)))"

definition scan_items :: "(json \<Rightarrow> string) \<Rightarrow> message list \<Rightarrow> (string, string) dict \<times> string list \<times> bool" where
  "scan_items dumps_sorted items = fold (scan_item dumps_sorted) items ([], [], True)"

definition item_changed :: "(string, string) dict \<Rightarrow> (string, string) dict \<Rightarrow> message \<Rightarrow> bool" where
  "item_changed fps base item =
     (case message_id item of
        None \<Rightarrow> True
      | Some mid \<Rightarrow> \<not> dict_has base mid \<or> dict_get fps mid \<noteq> dict_get base mid)"

text \<open>\<open>baseline_by_mid\<close>: iterating an object or a string yields no dicts, other scalars raise.\<close>

fun baseline_elements :: "json \<Rightarrow> json list option" where
  "baseline_elements (JArr xs) = Some xs"
| "baseline_elements (JObj d) = Some []"
| "baseline_elements (JStr s) = Some []"
| "baseline_elements _ = None"

fun add_by_mid :: "json \<Rightarrow> (string, message) dict \<Rightarrow> (string, message) dict" where
  "add_by_mid (JObj item) d = (case message_id item of None \<Rightarrow> d | Some mid \<Rightarrow> dict_set mid item d)"
| "add_by_mid _ d = d"

definition baseline_by_mid :: "json list \<Rightarrow> (string, message) dict" where
  "baseline_by_mid xs = fold add_by_mid xs []"

definition fresh_oldest_key :: "message list \<Rightarrow> (real \<times> string) option" where
  "fresh_oldest_key items = (case items of [] \<Rightarrow> None | i # _ \<Rightarrow> boundary_key i (message_id i))"

definition judged_newer :: "(string, message) dict \<Rightarrow> (real \<times> string) option \<Rightarrow> string \<Rightarrow> bool" where
  "judged_newer by_mid oldest mid =
     (case oldest of
        None \<Rightarrow> False
      | Some k \<Rightarrow> (case boundary_key (dict_get_or by_mid mid []) (Some mid) of None \<Rightarrow> False | Some k' \<Rightarrow> key_less k k'))"

definition removed_mids ::
  "(string, string) dict \<Rightarrow> string list \<Rightarrow> bool \<Rightarrow> (string, message) dict \<Rightarrow> (real \<times> string) option \<Rightarrow> string list" where
  "removed_mids base fresh exhausted by_mid oldest =
     filter (\<lambda>mid. mid \<notin> set fresh \<and> (exhausted \<or> judged_newer by_mid oldest mid)) (dict_keys base)"

definition artifact_from_array_bytes ::
  "(string \<Rightarrow> json option) \<Rightarrow> (json \<Rightarrow> string) \<Rightarrow> (json \<Rightarrow> string) \<Rightarrow> string \<Rightarrow> cache_entry option
     \<Rightarrow> string option \<Rightarrow> bool \<Rightarrow> page_error + projection_artifact" where
  "artifact_from_array_bytes loads dumps dumps_sorted array_bytes baseline next_cursor before_present =
     (case loads array_bytes of
        None \<Rightarrow> Inl Json_Decode_Error
      | Some (JArr xs) \<Rightarrow>
          (case objects_of xs of
             None \<Rightarrow> Inl Not_A_List_Of_Objects
           | Some items \<Rightarrow>
               (case scan_items dumps_sorted items of (fps, fresh, cacheable) \<Rightarrow>
                  let done = (\<lambda>changed removed.
                        \<lparr>pa_array_bytes = array_bytes, pa_canonical_items = dumps_sorted (JArr (map JObj items)),
                         pa_changed_bytes = dumps (JArr (map JObj changed)), pa_fingerprints = fps,
                         pa_changed = changed, pa_removed = removed, pa_cacheable = cacheable\<rparr>);
                      exhausted = (\<not> before_present \<and> next_cursor = None)
                  in case baseline of
                       None \<Rightarrow> Inr (done items [])
                     | Some b \<Rightarrow>
                         (case loads (ce_canonical_items b) of
                            None \<Rightarrow> Inl Json_Decode_Error
                          | Some j \<Rightarrow>
                              (case baseline_elements j of
                                 None \<Rightarrow> Inl Not_Iterable
                               | Some ys \<Rightarrow>
                                   Inr (done (filter (item_changed fps (ce_fingerprints b)) items)
                                     (removed_mids (ce_fingerprints b) fresh exhausted (baseline_by_mid ys)
                                        (fresh_oldest_key items)))))))
      | Some _ \<Rightarrow> Inl Not_A_List_Of_Objects)"

section \<open>The request\<close>

definition since_cq_hash :: "int \<Rightarrow> string option \<Rightarrow> string option \<Rightarrow> string" where
  "since_cq_hash limit directory mode =
     ''v1:'' @ show_int limit @ '':'' @ (case directory of None \<Rightarrow> [] | Some d \<Rightarrow> d) @ '':''
       @ (if mode = Some ''merged'' then ''merged'' else ''baseline'')"

datatype since_error = Invalid_Params

record since_request =
  sr_key :: "since_key option"
  sr_observed :: "observed_snapshot option"
  sr_baseline :: "cache_entry option"
  sr_since :: "string option"
  sr_before_present :: bool

definition needs_artifact :: "since_request \<Rightarrow> since_cache option \<Rightarrow> bool" where
  "needs_artifact st cache \<longleftrightarrow> sr_since st \<noteq> None
     \<or> (case cache of None \<Rightarrow> False | Some c \<Rightarrow> sc_enabled c \<and> \<not> sr_before_present st)"

text \<open>
  \<open>since_values\<close> and \<open>before_values\<close> are the repeated query parameters, \<open>before\<close> and \<open>since\<close> the
  ones the framework bound, \<open>cache\<close> the attribute of the application state.
\<close>

definition since_request_state ::
  "(string \<Rightarrow> json option) \<Rightarrow> string list \<Rightarrow> string list \<Rightarrow> string \<Rightarrow> string option \<Rightarrow> int \<Rightarrow> string option
     \<Rightarrow> string option \<Rightarrow> string option \<Rightarrow> since_cache option
     \<Rightarrow> since_error + since_request \<times> since_cache option" where
  "since_request_state loads since_values before_values sid directory limit before mode since0 cache =
     (if length since_values > 1 \<or> length before_values > 1 then Inl Invalid_Params
      else
        let since = (case since_values of [] \<Rightarrow> since0 | s # _ \<Rightarrow> Some s);
            before_present = (before_values \<noteq> [] \<or> before \<noteq> None)
        in if since \<noteq> None \<and> before_present then Inl Invalid_Params
           else case cache of
                  None \<Rightarrow> if since \<noteq> None then Inl Invalid_Params
                          else Inr (\<lparr>sr_key = None, sr_observed = None, sr_baseline = None, sr_since = since,
                                     sr_before_present = before_present\<rparr>, None)
                | Some c \<Rightarrow>
                    let cq = since_cq_hash limit directory mode;
                        key = (sid, cq);
                        (observed, c') = (if before_present then (None, c)
                                          else case observe key c of (ob, c') \<Rightarrow> (Some ob, c'));
                        st = (\<lambda>baseline. Inr (\<lparr>sr_key = Some key, sr_observed = observed, sr_baseline = baseline,
                                sr_since = since, sr_before_present = before_present\<rparr>, Some c'))
                    in case since of
                         None \<Rightarrow> st None
                       | Some token \<Rightarrow>
                           (case check_token loads token sid cq c' of
                              Token_Invalid \<Rightarrow> Inl Invalid_Params
                            | Token_Reset _ \<Rightarrow> st None
                            | Token_Valid g \<Rightarrow>
                                st (case observed of
                                      None \<Rightarrow> None
                                    | Some ob \<Rightarrow> if os_entry ob \<noteq> None \<and> observed_generation ob = Some g
                                                 then os_entry ob else None)))"

definition publish_since ::
  "since_request \<Rightarrow> projection_artifact option \<Rightarrow> int \<Rightarrow> since_cache option
     \<Rightarrow> (commit_result option \<times> int \<times> since_cache option) option" where
  "publish_since st artifact g cache =
     (case (cache, sr_key st, sr_observed st, artifact) of
        (Some c, Some key, Some ob, Some a) \<Rightarrow>
          (case commit key ob (pa_canonical_items a) (pa_fingerprints a) (pa_cacheable a) g c of
             None \<Rightarrow> None
           | Some (r, g', c') \<Rightarrow> Some (Some r, g', Some c'))
      | _ \<Rightarrow> Some (None, g, cache))"

definition next_since_for ::
  "(json \<Rightarrow> string) \<Rightarrow> since_request \<Rightarrow> commit_result option \<Rightarrow> since_cache option \<Rightarrow> string option" where
  "next_since_for dumps st result cache =
     (case (cache, result, sr_key st) of
        (Some c, Some r, Some (sid, cq)) \<Rightarrow>
          (case cr_entry r of
             None \<Rightarrow> None
           | Some e \<Rightarrow> if cr_omitted r \<or> sr_before_present st then None
                       else Some (issue_token dumps sid cq (ce_generation e) c))
      | _ \<Rightarrow> None)"

section \<open>The reply\<close>

definition messages_envelope_bytes :: "(json \<Rightarrow> string) \<Rightarrow> string \<Rightarrow> string option \<Rightarrow> string" where
  \<open>messages_envelope_bytes dumps items_bytes next_cursor =
     ''{"items":'' @ items_bytes @ '',"nextCursor":''
       @ (case next_cursor of None \<Rightarrow> ''null'' | Some c \<Rightarrow> dumps (JStr c)) @ ''}''\<close>

definition messages_envelope_with_since ::
  "(json \<Rightarrow> string) \<Rightarrow> string \<Rightarrow> string option \<Rightarrow> string list option \<Rightarrow> string option \<Rightarrow> string" where
  \<open>messages_envelope_with_since dumps items_bytes next_cursor removed next_since =
     (let identity = messages_envelope_bytes dumps items_bytes next_cursor;
          extras = (case removed of None \<Rightarrow> [] | Some r \<Rightarrow> [''"removed":'' @ dumps (JArr (map JStr r))])
            @ (case next_since of None \<Rightarrow> [] | Some t \<Rightarrow> [''"nextSince":'' @ dumps (JStr t)])
      in if extras = [] then identity
         else butlast identity @ '','' @ join_with (CHR '','') extras @ ''}'')\<close>

text \<open>
  The reply both paths of the route build from the request state and the artifact: the items, and
  whether the reply is a difference.
\<close>

definition response_items :: "since_request \<Rightarrow> projection_artifact option \<Rightarrow> string \<Rightarrow> string" where
  "response_items st artifact identity =
     (case artifact of
        None \<Rightarrow> identity
      | Some a \<Rightarrow> if sr_since st \<noteq> None then pa_changed_bytes a else identity)"

definition response_removed :: "since_request \<Rightarrow> projection_artifact option \<Rightarrow> string list option" where
  "response_removed st artifact =
     (if sr_since st \<noteq> None \<and> sr_baseline st \<noteq> None
      then Some (case artifact of None \<Rightarrow> [] | Some a \<Rightarrow> pa_removed a) else None)"

section \<open>What a page is to a client\<close>

text \<open>The message a page has under an id, and the pages whose every message has its own id.\<close>

definition snapshot :: "message list \<Rightarrow> string \<Rightarrow> message option" where
  "snapshot items mid = find (\<lambda>i. message_id i = Some mid) items"

definition wf_page :: "message list \<Rightarrow> bool" where
  "wf_page items \<longleftrightarrow> None \<notin> set (map message_id items) \<and> distinct (map message_id items)"

text \<open>A client's copy after a difference: changed messages replace, removed ones go.\<close>

definition apply_diff :: "message list \<Rightarrow> string list \<Rightarrow> (string \<Rightarrow> message option) \<Rightarrow> string \<Rightarrow> message option" where
  "apply_diff changed removed st mid =
     (case snapshot changed mid of Some i \<Rightarrow> Some i | None \<Rightarrow> if mid \<in> set removed then None else st mid)"

text \<open>Equal up to the order of object keys in what the difference reads.\<close>

definition reordered :: "message list \<Rightarrow> message list \<Rightarrow> bool" where
  "reordered = list_all2 (\<lambda>a b. message_id a = message_id b \<and> created_value a = created_value b)"

lemma snapshot_Nil [simp]: "snapshot [] mid = None"
  by (simp add: snapshot_def)

lemma snapshot_Cons: "snapshot (i # is) mid = (if message_id i = Some mid then Some i else snapshot is mid)"
  by (simp add: snapshot_def)

lemma snapshot_append: "snapshot (is @ js) mid = (case snapshot is mid of None \<Rightarrow> snapshot js mid | Some i \<Rightarrow> Some i)"
  by (induction "is") (auto simp: snapshot_Cons)

lemma snapshot_SomeD: "snapshot items mid = Some i \<Longrightarrow> message_id i = Some mid \<and> i \<in> set items"
  by (auto simp: snapshot_def find_Some_iff)

lemma snapshot_None_iff: "snapshot items mid = None \<longleftrightarrow> Some mid \<notin> set (map message_id items)"
  by (induction items) (auto simp: snapshot_Cons)

lemma snapshot_wf:
  assumes "wf_page items" and "i \<in> set items" and "message_id i = Some mid"
  shows "snapshot items mid = Some i"
  using assms by (induction items) (auto simp: wf_page_def snapshot_Cons intro: rev_image_eqI)

lemma wf_page_snoc:
  "wf_page (items @ [i]) \<longleftrightarrow> wf_page items \<and> (\<exists>mid. message_id i = Some mid \<and> snapshot items mid = None)"
  by (cases "message_id i") (auto simp: wf_page_def snapshot_None_iff)

lemma scan_items_snoc: "scan_items ds (items @ [i]) = scan_item ds i (scan_items ds items)"
  by (simp add: scan_items_def)

lemma scan_items_Nil: "scan_items ds [] = ([], [], True)"
  by (simp add: scan_items_def)

lemma scan_items_spec:
  assumes "scan_items ds items = (fps, fresh, ok)"
  shows "dict_get fps mid = map_option (\<lambda>i. sha256_hexdigest (ds (JObj i))) (snapshot items mid)
     \<and> (mid \<in> set fresh \<longleftrightarrow> snapshot items mid \<noteq> None) \<and> (ok \<longleftrightarrow> wf_page items)"
  using assms
proof (induction items arbitrary: fps fresh ok mid rule: rev_induct)
  case Nil
  then show ?case by (simp add: scan_items_Nil wf_page_def)
next
  case (snoc i items)
  obtain fps0 fresh0 ok0 where s: "scan_items ds items = (fps0, fresh0, ok0)" by (cases "scan_items ds items")
  note IH = snoc.IH[OF s]
  have has: "dict_has fps0 m \<longleftrightarrow> snapshot items m \<noteq> None" for m using IH[of m] by (simp add: dict_has_get)
  show ?case
    using snoc.prems IH
    by (cases "message_id i")
      (auto simp: scan_items_snoc s scan_item_def snapshot_append snapshot_Cons wf_page_snoc has
        split: if_splits option.splits)
qed

lemma baseline_by_mid_snoc: "baseline_by_mid (xs @ [x]) = add_by_mid x (baseline_by_mid xs)"
  by (simp add: baseline_by_mid_def)

lemma baseline_by_mid_get:
  "wf_page items \<Longrightarrow> dict_get (baseline_by_mid (map JObj items)) mid = snapshot items mid"
proof (induction items rule: rev_induct)
  case Nil
  then show ?case by (simp add: baseline_by_mid_def)
next
  case (snoc i items)
  then show ?case
    by (auto simp: baseline_by_mid_snoc wf_page_snoc snapshot_append snapshot_Cons split: option.splits)
qed

lemma objects_of_map [simp]: "objects_of (map JObj items) = Some items"
  by (induction items) simp_all

lemma objects_of_SomeD: "objects_of xs = Some items \<Longrightarrow> xs = map JObj items"
  by (induction xs arbitrary: items rule: objects_of.induct) auto

lemma reordered_wf: "reordered is js \<Longrightarrow> wf_page is = wf_page js"
proof -
  assume "reordered is js"
  then have "map message_id is = map message_id js"
    by (auto simp: reordered_def list_all2_conv_all_nth intro: nth_equalityI)
  then show ?thesis by (simp add: wf_page_def)
qed

lemma reordered_snapshot:
  "reordered is js \<Longrightarrow> Option.bind (snapshot is mid) created_value = Option.bind (snapshot js mid) created_value"
  unfolding reordered_def by (induction rule: list_all2_induct) (auto simp: snapshot_Cons)

text \<open>A baseline message strictly after the oldest message of a fresh page.\<close>

definition strictly_newer :: "message list \<Rightarrow> message list \<Rightarrow> string \<Rightarrow> bool" where
  "strictly_newer base fresh mid \<longleftrightarrow>
     (case (fresh_oldest_key fresh, Option.bind (snapshot base mid) created_value) of
        (Some k, Some c) \<Rightarrow> key_less k (c, mid)
      | _ \<Rightarrow> False)"

lemma created_value_Nil [simp]: "created_value [] = None"
  by (simp add: created_value_def jget_def)

lemma judged_newer_strictly:
  assumes "wf_page base" and "reordered base' base"
  shows "judged_newer (baseline_by_mid (map JObj base')) (fresh_oldest_key items) mid = strictly_newer base items mid"
proof -
  have "dict_get (baseline_by_mid (map JObj base')) mid = snapshot base' mid"
    using baseline_by_mid_get reordered_wf[OF assms(2)] assms(1) by blast
  then have "created_value (dict_get_or (baseline_by_mid (map JObj base')) mid [])
      = Option.bind (snapshot base' mid) created_value"
    by (simp add: dict_get_or_get split: option.split)
  also have "\<dots> = Option.bind (snapshot base mid) created_value" by (rule reordered_snapshot[OF assms(2)])
  finally show ?thesis
    by (simp add: judged_newer_def strictly_newer_def boundary_key_def split: option.split)
qed

section \<open>The difference is exact\<close>

text \<open>An entry as \<open>commit\<close> stores it for a page whose messages have their own ids.\<close>

definition holds_page :: "(json \<Rightarrow> string) \<Rightarrow> cache_entry \<Rightarrow> message list \<Rightarrow> bool" where
  "holds_page dumps_sorted e items \<longleftrightarrow> wf_page items
     \<and> ce_canonical_items e = dumps_sorted (JArr (map JObj items))
     \<and> ce_fingerprints e = fst (scan_items dumps_sorted items)"

text \<open>SHA-256 tells the canonical messages of two pages apart.\<close>

definition no_collision :: "(json \<Rightarrow> string) \<Rightarrow> message list \<Rightarrow> message list \<Rightarrow> bool" where
  "no_collision dumps_sorted is js \<longleftrightarrow>
     (\<forall>i \<in> set is. \<forall>j \<in> set js. sha256_hexdigest (dumps_sorted (JObj i)) = sha256_hexdigest (dumps_sorted (JObj j))
        \<longrightarrow> dumps_sorted (JObj i) = dumps_sorted (JObj j))"

definition agrees :: "(json \<Rightarrow> string) \<Rightarrow> message option \<Rightarrow> message option \<Rightarrow> bool" where
  "agrees dumps_sorted a b \<longleftrightarrow>
     map_option (\<lambda>i. dumps_sorted (JObj i)) a = map_option (\<lambda>i. dumps_sorted (JObj i)) b"

lemma agrees_refl [simp]: "agrees ds a a"
  by (simp add: agrees_def)

lemma holds_page_fps:
  assumes "holds_page ds e base"
  shows "dict_get (ce_fingerprints e) mid = map_option (\<lambda>i. sha256_hexdigest (ds (JObj i))) (snapshot base mid)"
    and "mid \<in> set (dict_keys (ce_fingerprints e)) \<longleftrightarrow> snapshot base mid \<noteq> None"
proof -
  obtain fps fresh ok where s: "scan_items ds base = (fps, fresh, ok)" by (cases "scan_items ds base")
  show g: "dict_get (ce_fingerprints e) mid = map_option (\<lambda>i. sha256_hexdigest (ds (JObj i))) (snapshot base mid)"
    using scan_items_spec[OF s] assms by (simp add: holds_page_def s)
  have "mid \<in> set (dict_keys (ce_fingerprints e)) \<longleftrightarrow> dict_has (ce_fingerprints e) mid"
    by (simp add: dict_keys_def dict_has_keys)
  then show "mid \<in> set (dict_keys (ce_fingerprints e)) \<longleftrightarrow> snapshot base mid \<noteq> None"
    using g by (simp add: dict_has_get)
qed

text \<open>The result on a page of objects, with and without a baseline.\<close>

lemma artifact_full:
  assumes "loads b = Some (JArr (map JObj items))" and "artifact_from_array_bytes loads dumps ds b None nc bp = Inr a"
  shows "pa_changed a = items" and "pa_removed a = []"
  using assms by (auto simp: artifact_from_array_bytes_def Let_def split: prod.splits)

lemma artifact_diff:
  assumes "loads b = Some (JArr (map JObj items))"
    and "loads (ce_canonical_items e) = Some (JArr (map JObj base'))"
    and "artifact_from_array_bytes loads dumps ds b (Some e) nc bp = Inr a"
  obtains fps fresh ok where "scan_items ds items = (fps, fresh, ok)" and "pa_cacheable a = ok"
    and "pa_changed a = filter (item_changed fps (ce_fingerprints e)) items"
    and "pa_removed a = removed_mids (ce_fingerprints e) fresh (\<not> bp \<and> nc = None)
           (baseline_by_mid (map JObj base')) (fresh_oldest_key items)"
  using assms by (cases "scan_items ds items") (auto simp: artifact_from_array_bytes_def Let_def)

lemma snapshot_filter:
  assumes "wf_page items"
  shows "snapshot (filter P items) mid = (case snapshot items mid of None \<Rightarrow> None | Some i \<Rightarrow> if P i then Some i else None)"
  using assms
proof (induction items)
  case (Cons i items)
  then have "wf_page items" by (simp add: wf_page_def)
  moreover have "snapshot items mid = None" if "message_id i = Some mid"
    using Cons.prems that by (simp add: wf_page_def snapshot_None_iff)
  ultimately show ?case using Cons.IH by (auto simp: snapshot_Cons split: option.split)
qed simp

lemma artifact_diff_apply:
  assumes page: "loads b = Some (JArr (map JObj items))" and e: "holds_page ds e base"
    and reread: "loads (ce_canonical_items e) = Some (JArr (map JObj base'))" "reordered base' base"
    and a: "artifact_from_array_bytes loads dumps ds b (Some e) nc bp = Inr a" "pa_cacheable a"
    and hash: "no_collision ds items base" and st: "agrees ds (st mid) (snapshot base mid)"
  shows "agrees ds (apply_diff (pa_changed a) (pa_removed a) st mid)
    (if snapshot items mid \<noteq> None then snapshot items mid
     else if \<not> bp \<and> nc = None \<or> strictly_newer base items mid then None else st mid)"
proof -
  obtain fps fresh ok where s: "scan_items ds items = (fps, fresh, ok)" and ok: "pa_cacheable a = ok"
    and ch: "pa_changed a = filter (item_changed fps (ce_fingerprints e)) items"
    and rm: "pa_removed a = removed_mids (ce_fingerprints e) fresh (\<not> bp \<and> nc = None)
           (baseline_by_mid (map JObj base')) (fresh_oldest_key items)"
    using artifact_diff[OF page reread(1) a(1)] by blast
  note S = scan_items_spec[OF s]
  have wf: "wf_page items" using S ok a(2) by blast
  have wfb: "wf_page base" using e by (simp add: holds_page_def)
  have rm': "mid \<in> set (pa_removed a) \<longleftrightarrow> snapshot base mid \<noteq> None \<and> snapshot items mid = None
      \<and> (\<not> bp \<and> nc = None \<or> strictly_newer base items mid)"
    using holds_page_fps(2)[OF e, of mid] S[of mid] judged_newer_strictly[OF wfb reread(2)]
    by (auto simp: rm removed_mids_def)
  show ?thesis
  proof (cases "snapshot items mid")
    case None
    then have "snapshot (pa_changed a) mid = None" using wf by (simp add: ch snapshot_filter)
    then show ?thesis using None rm' st by (cases "st mid") (auto simp: apply_diff_def agrees_def)
  next
    case (Some i)
    then have mi: "message_id i = Some mid" "i \<in> set items" using snapshot_SomeD by blast+
    show ?thesis
    proof (cases "item_changed fps (ce_fingerprints e) i")
      case True
      then have "snapshot (pa_changed a) mid = Some i" using Some wf by (simp add: ch snapshot_filter)
      then show ?thesis using Some by (simp add: apply_diff_def)
    next
      case False
      then have "snapshot (pa_changed a) mid = None" using Some wf by (simp add: ch snapshot_filter)
      moreover have "dict_get fps mid = dict_get (ce_fingerprints e) mid" using False mi by (simp add: item_changed_def)
      then obtain j where j: "snapshot base mid = Some j" "sha256_hexdigest (ds (JObj i)) = sha256_hexdigest (ds (JObj j))"
        using S[of mid] Some holds_page_fps(1)[OF e, of mid] by (cases "snapshot base mid") auto
      then have "ds (JObj i) = ds (JObj j)" using hash mi snapshot_SomeD[OF j(1)] by (auto simp: no_collision_def)
      ultimately show ?thesis using Some st j rm' by (auto simp: apply_diff_def agrees_def)
    qed
  qed
qed

section \<open>The baseline of a request\<close>

definition client_update ::
  "message list \<Rightarrow> string list option \<Rightarrow> (string \<Rightarrow> message option) \<Rightarrow> string \<Rightarrow> message option" where
  "client_update changed removed st =
     (case removed of None \<Rightarrow> snapshot changed | Some r \<Rightarrow> apply_diff changed r st)"

lemma observe_lookups:
  assumes "observe key c = (ob, c')"
  shows "dict_get (sc_entries c') k = dict_get (sc_entries c) k" and "sc_epoch c' = sc_epoch c"
    and "os_entry ob = (if sc_enabled c then dict_get (sc_entries c) key else None)"
  using assms by (auto simp: observe_def sc_touch_def split: if_splits option.splits)

lemma request_with_token:
  assumes ok: "lineage_ok w0" "since_reach w0 w" "((sid, cq), e) \<in> set (sw_published w0)"
    and cq: "cq = since_cq_hash limit directory mode"
    and tok: "dumps (token_payload (sw_cache w0) sid cq (ce_generation e)) \<noteq> []"
      "loads (dumps (token_payload (sw_cache w0) sid cq (ce_generation e)))
         = Some (token_payload (sw_cache w0) sid cq (ce_generation e))"
      "length (issue_token dumps sid cq (ce_generation e) (sw_cache w0)) \<le> TOKEN_MAX_BYTES"
  shows "\<exists>ob c'. observe (sid, cq) (sw_cache w) = (ob, c')
    \<and> since_request_state loads [issue_token dumps sid cq (ce_generation e) (sw_cache w0)] [] sid directory limit None mode s0
        (Some (sw_cache w))
      = Inr (\<lparr>sr_key = Some (sid, cq), sr_observed = Some ob,
          sr_baseline = (if sc_enabled (sw_cache w) \<and> dict_get (sc_entries (sw_cache w)) (sid, cq) = Some e then Some e else None),
          sr_since = Some (issue_token dumps sid cq (ce_generation e) (sw_cache w0)), sr_before_present = False\<rparr>, Some c')"
proof -
  obtain ob c' where ob: "observe (sid, cq) (sw_cache w) = (ob, c')" by (cases "observe (sid, cq) (sw_cache w)")
  note O = observe_lookups[OF ob]
  have "sc_epoch c' = sc_epoch (sw_cache w0)"
    using O(2) same_caps_reach[OF ok(2,1)] by (simp add: same_caps_def)
  from check_issued[of dumps "sw_cache w0" sid cq "ce_generation e" loads, OF tok this, of sid cq]
  have c: "check_token loads (issue_token dumps sid cq (ce_generation e) (sw_cache w0)) sid cq c' =
      (if map_option ce_generation (dict_get (sc_entries (sw_cache w)) (sid, cq)) = Some (ce_generation e)
       then Token_Valid (ce_generation e) else Token_Reset (ce_generation e))"
    by (simp add: O(1))
  have "((sid, cq), e) \<in> set (sw_published w)" using published_reach[OF ok(2)] ok(3) by blast
  note N = held_names_one[OF lineage_ok_reach[OF ok(2,1)] this]
  show ?thesis
    using ob O(3) unfolding since_request_state_def
    by (auto simp: cq[symmetric] c[unfolded N] observed_generation_def Let_def)
qed

text \<open>
  \<open>issue_token\<close> has no length test, \<open>check_token\<close> has one: a token over the limit is refused, although
  the cache issued it.
\<close>

lemma request_long_token:
  assumes "TOKEN_MAX_BYTES < length (issue_token dumps sid cq g c0)"
  shows "since_request_state loads [issue_token dumps sid cq g c0] [] sid' directory limit None mode s0 (Some c) = Inl Invalid_Params"
proof -
  have "utf8_len (issue_token dumps sid cq g c0) = length (issue_token dumps sid cq g c0)"
    unfolding issue_token_def by (rule utf8_len_b64[OF b64_encode_alphabet])
  with assms have "decode_token loads (issue_token dumps sid cq g c0) = None" by (simp add: decode_token_def)
  then have "check_token loads (issue_token dumps sid cq g c0) sid' cq' c' = Token_Invalid" for cq' c'
    by (simp add: check_token_def)
  then show ?thesis by (simp add: since_request_state_def Let_def split: prod.split)
qed

text \<open>
  C4. A client that keeps its copy of the message list with \<^verbatim>\<open>?since=\<close> is in sync after every complete
  reply. Let the client's copy agree with the page that was current under its cursor when the cursor
  was issued. If the cursor is at most 512 bytes long, the request with it is never refused, whatever
  happened to the cache since; and
  when the fresh page is the whole list (no next cursor), applying the reply, a difference if the
  reply has a \<open>removed\<close> field and a full page otherwise, leaves the client with exactly the messages of
  the fresh page. A longer cursor, which \<open>issue_token\<close> hands out all the same (the payload has the
  session id and the whole directory in it), is always refused with the 400 of invalid parameters.
  Assumed are: \<^verbatim>\<open>orjson\<close> reads back what it wrote up to the order of keys, the fresh page
  has an own id for every message, and SHA-256 tells the messages of the two pages apart.
\<close>

theorem since_client_in_sync:
  assumes "lineage_ok w0" and "since_reach w0 w" and "((sid, cq), e) \<in> set (sw_published w0)"
    and "cq = since_cq_hash limit directory mode"
    and "dumps (token_payload (sw_cache w0) sid cq (ce_generation e)) \<noteq> []"
    and "loads (dumps (token_payload (sw_cache w0) sid cq (ce_generation e)))
           = Some (token_payload (sw_cache w0) sid cq (ce_generation e))"
    and "holds_page dumps_sorted e base" and "\<And>mid. agrees dumps_sorted (client mid) (snapshot base mid)"
    and "loads (ce_canonical_items e) = Some (JArr (map JObj base'))" and "reordered base' base"
    and "loads page = Some (JArr (map JObj items))" and "wf_page items" and "no_collision dumps_sorted items base"
  shows "if length (issue_token dumps sid cq (ce_generation e) (sw_cache w0)) \<le> TOKEN_MAX_BYTES
    then \<exists>st c' a. since_request_state loads [issue_token dumps sid cq (ce_generation e) (sw_cache w0)] [] sid directory limit
            None mode None (Some (sw_cache w)) = Inr (st, Some c')
      \<and> artifact_from_array_bytes loads dumps dumps_sorted page (sr_baseline st) None (sr_before_present st) = Inr a
      \<and> (\<forall>mid. agrees dumps_sorted (client_update (pa_changed a) (response_removed st (Some a)) client mid) (snapshot items mid))
    else since_request_state loads [issue_token dumps sid cq (ce_generation e) (sw_cache w0)] [] sid directory limit
            None mode None (Some (sw_cache w)) = Inl Invalid_Params"
proof (cases "length (issue_token dumps sid cq (ce_generation e) (sw_cache w0)) \<le> TOKEN_MAX_BYTES")
  case False
  then show ?thesis using request_long_token[of dumps sid cq "ce_generation e" "sw_cache w0"] by simp
next
  case True
  obtain ob c' where R: "since_request_state loads [issue_token dumps sid cq (ce_generation e) (sw_cache w0)] [] sid directory limit
      None mode None (Some (sw_cache w))
    = Inr (\<lparr>sr_key = Some (sid, cq), sr_observed = Some ob,
        sr_baseline = (if sc_enabled (sw_cache w) \<and> dict_get (sc_entries (sw_cache w)) (sid, cq) = Some e then Some e else None),
        sr_since = Some (issue_token dumps sid cq (ce_generation e) (sw_cache w0)), sr_before_present = False\<rparr>, Some c')"
    (is "_ = Inr (?st, _)")
    using request_with_token[of w0 w sid cq e limit directory mode dumps loads, OF assms(1-6) True] by blast
  obtain fps fresh ok where s: "scan_items dumps_sorted items = (fps, fresh, ok)" by (cases "scan_items dumps_sorted items")
  obtain a where A: "artifact_from_array_bytes loads dumps dumps_sorted page (sr_baseline ?st) None False = Inr a" "pa_cacheable a = ok"
    using assms(9,11) s
    by (cases "sc_enabled (sw_cache w) \<and> dict_get (sc_entries (sw_cache w)) (sid, cq) = Some e")
      (auto simp: artifact_from_array_bytes_def Let_def)
  have "pa_cacheable a" using scan_items_spec[OF s] assms(12) A(2) by blast
  have "agrees dumps_sorted (client_update (pa_changed a) (response_removed ?st (Some a)) client mid) (snapshot items mid)" for mid
  proof (cases "sc_enabled (sw_cache w) \<and> dict_get (sc_entries (sw_cache w)) (sid, cq) = Some e")
    case held: True
    then have "agrees dumps_sorted (apply_diff (pa_changed a) (pa_removed a) client mid)
        (if snapshot items mid \<noteq> None then snapshot items mid else None)"
      using artifact_diff_apply[where st = client and mid = mid and dumps = dumps and nc = None and bp = False,
          OF assms(11,7,9,10) _ \<open>pa_cacheable a\<close> assms(13) assms(8)] A(1) by (cases "snapshot items mid") auto
    with held show ?thesis by (cases "snapshot items mid") (auto simp: client_update_def response_removed_def)
  next
    case False
    then have "pa_changed a = items" using artifact_full(1)[where loads = loads and b = page, OF assms(11)] A(1) by (auto split: if_splits)
    with False show ?thesis by (auto simp: client_update_def response_removed_def)
  qed
  then show ?thesis using R A(1) True by auto
qed

text \<open>
  C5. The difference against a page with an older end. Whatever the window, applying the difference to
  a copy that agrees with the baseline gives the fresh message under every id of the fresh page; an
  absent baseline message is dropped exactly if the window was exhausted or the message is strictly
  newer than the oldest fresh one, and otherwise kept as it was: no message that merely lies before
  the window is reported as removed.
\<close>

theorem since_diff_exact:
  assumes "loads page = Some (JArr (map JObj items))" and "holds_page dumps_sorted e base"
    and "loads (ce_canonical_items e) = Some (JArr (map JObj base'))" and "reordered base' base"
    and "artifact_from_array_bytes loads dumps dumps_sorted page (Some e) next_cursor before_present = Inr a" and "pa_cacheable a"
    and "no_collision dumps_sorted items base" and "agrees dumps_sorted (client mid) (snapshot base mid)"
  shows "agrees dumps_sorted (apply_diff (pa_changed a) (pa_removed a) client mid)
    (if snapshot items mid \<noteq> None then snapshot items mid
     else if \<not> before_present \<and> next_cursor = None \<or> strictly_newer base items mid then None else client mid)"
  using assms by (rule artifact_diff_apply)

section \<open>A concrete exchange\<close>

text \<open>The cache holds a page with one message; the fresh page is empty.\<close>

definition demo_message :: message where
  "demo_message = [(''info'', JObj [(''id'', JStr ''m1''), (''time'', JObj [(''created'', JInt 5)])])]"

definition demo_page_entry :: cache_entry where
  "demo_page_entry = \<lparr>ce_canonical_items = ''b'', ce_fingerprints = fst (scan_items (\<lambda>_. ''b'') [demo_message]), ce_generation = 1\<rparr>"

definition demo_page_world :: since_world where
  "demo_page_world = \<lparr>sw_generation = 1,
     sw_cache = demo_cache\<lparr>sc_entries := [((''s1'', since_cq_hash 20 None None), demo_page_entry)], sc_retained_bytes := 99\<rparr>,
     sw_published = [((''s1'', since_cq_hash 20 None None), demo_page_entry)], sw_observed = []\<rparr>"

definition demo_loads :: "string \<Rightarrow> json option" where
  "demo_loads s = (if s = ''t'' then Some (token_payload demo_cache ''s1'' (since_cq_hash 20 None None) 1)
     else if s = ''b'' then Some (JArr [JObj demo_message]) else Some (JArr []))"

lemma message_id_demo [simp]: "message_id demo_message = Some ''m1''"
  by (simp add: demo_message_def message_id_def jget_def)

lemma demo_scan: "fst (scan_items (\<lambda>_. ''b'') [demo_message]) = [(''m1'', sha256_hexdigest ''b'')]"
  by (simp add: scan_items_def scan_item_def dict_has_def dict_set_def)

lemma demo_holds: "holds_page (\<lambda>_. ''b'') demo_page_entry [demo_message]"
  by (simp add: holds_page_def wf_page_def demo_page_entry_def)

lemma demo_page_lineage: "lineage_ok demo_page_world"
  by (simp add: lineage_ok_def demo_page_world_def demo_page_entry_def demo_scan cache_ok_def accounted_def dict_wf_def entries_fit_def
      retained_bytes_def fingerprint_bytes_def dict_keys_def utf8_len_def code_point_def over_budget_def caps_ok_def names_one_def
      demo_cache_def since_cache_init_def held_published_def dict_get_def)

lemma demo_payload: "token_payload (sw_cache demo_page_world) sid cq g = token_payload demo_cache sid cq g"
  by (simp add: token_payload_def demo_page_world_def)

theorem since_client_in_sync_witness:
  "\<exists>st c' a. since_request_state demo_loads
        [issue_token (\<lambda>_. ''t'') ''s1'' (since_cq_hash 20 None None) (ce_generation demo_page_entry) (sw_cache demo_page_world)] []
        ''s1'' None 20 None None None (Some (sw_cache demo_page_world)) = Inr (st, Some c')
     \<and> artifact_from_array_bytes demo_loads (\<lambda>_. ''t'') (\<lambda>_. ''b'') ''p'' (sr_baseline st) None (sr_before_present st) = Inr a
     \<and> (\<forall>mid. agrees (\<lambda>_. ''b'') (client_update (pa_changed a) (response_removed st (Some a)) (snapshot [demo_message]) mid) (snapshot [] mid))"
proof -
  have "length (issue_token (\<lambda>_. ''t'') ''s1'' (since_cq_hash 20 None None) (ce_generation demo_page_entry) (sw_cache demo_page_world))
      \<le> TOKEN_MAX_BYTES" by (simp add: issue_token_def)
  moreover have "((''s1'', since_cq_hash 20 None None), demo_page_entry) \<in> set (sw_published demo_page_world)"
    by (simp add: demo_page_world_def)
  moreover have "demo_loads (ce_canonical_items demo_page_entry) = Some (JArr (map JObj [demo_message]))"
    by (simp add: demo_loads_def demo_page_entry_def)
  ultimately show ?thesis
    using since_client_in_sync[OF demo_page_lineage since_reach.start, where dumps = "\<lambda>_. ''t''" and loads = demo_loads
        and page = "''p''" and items = "[]" and base' = "[demo_message]" and client = "snapshot [demo_message]"
        and sid = "''s1''" and limit = 20 and directory = None and mode = None and e = demo_page_entry, OF _ refl _ _ demo_holds]
    by (simp add: demo_payload demo_loads_def demo_page_entry_def wf_page_def no_collision_def reordered_def)
qed

theorem since_diff_exact_witness:
  "\<exists>a. artifact_from_array_bytes demo_loads (\<lambda>_. ''t'') (\<lambda>_. ''b'') ''p'' (Some demo_page_entry) None False = Inr a
     \<and> apply_diff (pa_changed a) (pa_removed a) (snapshot [demo_message]) ''m1'' = None"
proof -
  have "\<exists>a. artifact_from_array_bytes demo_loads (\<lambda>_. ''t'') (\<lambda>_. ''b'') ''p'' (Some demo_page_entry) None False = Inr a \<and> pa_cacheable a"
    by (simp add: artifact_from_array_bytes_def demo_loads_def Let_def scan_items_Nil demo_page_entry_def)
  then obtain a where a: "artifact_from_array_bytes demo_loads (\<lambda>_. ''t'') (\<lambda>_. ''b'') ''p'' (Some demo_page_entry) None False = Inr a" "pa_cacheable a"
    by blast
  have l: "demo_loads ''p'' = Some (JArr (map JObj []))" "demo_loads (ce_canonical_items demo_page_entry) = Some (JArr (map JObj [demo_message]))"
    "reordered [demo_message] [demo_message]" "no_collision (\<lambda>_. ''b'') [] [demo_message]"
    by (simp_all add: demo_loads_def demo_page_entry_def reordered_def no_collision_def)
  have "agrees (\<lambda>_. ''b'') (apply_diff (pa_changed a) (pa_removed a) (snapshot [demo_message]) ''m1'') None"
    using since_diff_exact[OF l(1) demo_holds l(2,3) a l(4), of "snapshot [demo_message]" "''m1''"] by simp
  then show ?thesis using a(1) by (auto simp: agrees_def)
qed

end
