(* ===== verification/Etag.thy ===== *)
theory Etag
  imports Py_Regex Py_Sha256
begin

text \<open>
  Conditional requests (\<^verbatim>\<open>etag.py\<close>) and content coding (\<^verbatim>\<open>gzip_util.py\<close>): the validator of a
  representation, the evaluation of \<^verbatim>\<open>If-None-Match\<close>, the negotiation of gzip, and the response tail
  that decides between 304 and 200.

  \<^verbatim>\<open>gzip.compress\<close> is the parameter \<open>gz\<close>, of which nothing is assumed. Header values are strings of
  code points below 256 (the server decodes them as latin-1). \<^verbatim>\<open>float()\<close> is modelled by the exact value
  of the decimal; the only test on it, \<^verbatim>\<open>q > 0\<close>, is the one of the nearest double.
\<close>

section \<open>Content coding\<close>

abbreviation (input) MIN_GZIP_BYTES :: nat where "MIN_GZIP_BYTES \<equiv> 64"

datatype py_float = Finite real | Pos_Inf | Neg_Inf | Not_A_Number

definition py_digits_opt :: "string \<Rightarrow> nat option" where
  "py_digits_opt s = (if s = [] then Some 0 else py_digits s)"

definition py_exponent :: "string \<Rightarrow> int option" where
  "py_exponent s =
     (case s of
        [] \<Rightarrow> None
      | c # r \<Rightarrow>
          if c = CHR ''-'' then map_option (\<lambda>n. - int n) (py_digits r)
          else if c = CHR ''+'' then map_option int (py_digits r)
          else map_option int (py_digits s))"

definition is_exp_char :: "char \<Rightarrow> bool" where
  "is_exp_char c \<longleftrightarrow> c = CHR ''e'' \<or> c = CHR ''E''"

text \<open>An unsigned decimal: integer and fraction digits, at least one of them present, and an exponent.\<close>

definition py_decimal :: "string \<Rightarrow> real option" where
  "py_decimal s =
     (let mant = takeWhile (\<lambda>c. \<not> is_exp_char c) s;
          ex = dropWhile (\<lambda>c. \<not> is_exp_char c) s;
          ip = takeWhile (\<lambda>c. c \<noteq> CHR ''.'') mant;
          fp = drop 1 (dropWhile (\<lambda>c. c \<noteq> CHR ''.'') mant)
      in if ip = [] \<and> fp = [] then None
         else case (py_digits_opt ip, py_digits_opt fp, if ex = [] then Some 0 else py_exponent (tl ex)) of
                (Some i, Some f, Some e) \<Rightarrow>
                  Some ((real i + real f / 10 ^ length (filter is_digit fp)) * 10 powi e)
              | _ \<Rightarrow> None)"

definition py_float_unsigned :: "string \<Rightarrow> py_float option" where
  "py_float_unsigned s =
     (if py_lower s = ''inf'' \<or> py_lower s = ''infinity'' then Some Pos_Inf
      else if py_lower s = ''nan'' then Some Not_A_Number
      else map_option Finite (py_decimal s))"

fun negate_float :: "py_float \<Rightarrow> py_float" where
  "negate_float (Finite r) = Finite (- r)"
| "negate_float Pos_Inf = Neg_Inf"
| "negate_float Neg_Inf = Pos_Inf"
| "negate_float Not_A_Number = Not_A_Number"

definition py_float :: "string \<Rightarrow> py_float option" where
  "py_float s =
     (case py_strip s of
        [] \<Rightarrow> None
      | c # r \<Rightarrow>
          if c = CHR ''-'' then map_option negate_float (py_float_unsigned r)
          else if c = CHR ''+'' then py_float_unsigned r
          else py_float_unsigned (c # r))"

text \<open>\<^verbatim>\<open>q > 0\<close> of the double: up to half of the least positive double, a decimal rounds to zero.\<close>

fun float_pos :: "py_float \<Rightarrow> bool" where
  "float_pos (Finite r) = (r > 1 / 2 ^ 1075)"
| "float_pos Pos_Inf = True"
| "float_pos Neg_Inf = False"
| "float_pos Not_A_Number = False"

definition q_param :: "string \<Rightarrow> py_float \<Rightarrow> py_float" where
  "q_param param q =
     (let p = py_strip param
      in if py_lower (take 2 p) = ''q='' then (case py_float (drop 2 p) of None \<Rightarrow> q | Some v \<Rightarrow> v) else q)"

text \<open>One comma-separated part updates \<open>(gzip_q, star_q)\<close>.\<close>

definition coding_part :: "string \<Rightarrow> py_float option \<times> py_float option \<Rightarrow> py_float option \<times> py_float option" where
  "coding_part raw st =
     (let part = py_strip raw
      in if part = [] then st
         else let tokens = split_on (CHR '';'') part;
                  coding = py_lower (py_strip (hd tokens));
                  q = fold q_param (tl tokens) (Finite 1)
              in if coding = ''gzip'' \<or> coding = ''x-gzip'' then (Some q, snd st)
                 else if coding = ''*'' then (fst st, Some q)
                 else st)"

definition accepts_gzip :: "string option \<Rightarrow> bool" where
  "accepts_gzip accept_encoding =
     (case accept_encoding of
        None \<Rightarrow> False
      | Some ae \<Rightarrow>
          if ae = [] then False
          else case fold coding_part (split_on (CHR '','') ae) (None, None) of
                 (Some q, _) \<Rightarrow> float_pos q
               | (None, Some q) \<Rightarrow> float_pos q
               | (None, None) \<Rightarrow> False)"

datatype coding = Identity | Gzip

text \<open>\<open>compress_if_beneficial\<close>: the payload and whether \<^verbatim>\<open>Content-Encoding: gzip\<close> is set.\<close>

definition compress_if_beneficial :: "(string \<Rightarrow> string) \<Rightarrow> string \<Rightarrow> string option \<Rightarrow> string \<times> coding" where
  "compress_if_beneficial gz body accept_encoding =
     (if \<not> accepts_gzip accept_encoding then (body, Identity)
      else if length body < MIN_GZIP_BYTES then (body, Identity)
      else if length (gz body) \<ge> length body then (body, Identity)
      else (gz body, Gzip))"

section \<open>Validators\<close>

record rep_config =
  rc_inline_max :: int
  rc_message_max :: int
  rc_fingerprint :: bool
  rc_etag_enabled :: bool

abbreviation NUL :: char where "NUL \<equiv> CHR 0x00"

definition fingerprint_parts :: "rep_config \<Rightarrow> int \<Rightarrow> string list" where
  "fingerprint_parts cfg wire_view =
     [''etag-v1'', ''skeleton-v3'', show_int (rc_inline_max cfg), show_int (rc_message_max cfg),
      (if rc_fingerprint cfg then ''fingerprint=on'' else ''fingerprint=off''), ''wire=v'' @ show_int wire_view]"

definition representation_version :: "rep_config \<Rightarrow> int \<Rightarrow> string" where
  "representation_version cfg wire_view = join_with NUL (fingerprint_parts cfg wire_view)"

definition response_rep_version :: "rep_config option \<Rightarrow> int \<Rightarrow> string option" where
  "response_rep_version cfg wire_view =
     (case cfg of
        None \<Rightarrow> None
      | Some c \<Rightarrow> if \<not> rc_etag_enabled c then None else Some (representation_version c wire_view))"

definition coding_name :: "coding \<Rightarrow> string" where
  "coding_name c = (case c of Identity \<Rightarrow> ''identity'' | Gzip \<Rightarrow> ''gzip'')"

definition hash_input :: "string \<Rightarrow> coding \<Rightarrow> string \<Rightarrow> string" where
  "hash_input body c rv = rv @ [NUL] @ coding_name c @ [NUL] @ body"

definition quoted :: "string \<Rightarrow> string" where
  "quoted s = CHR 0x22 # s @ [CHR 0x22]"

definition compute_etag :: "string \<Rightarrow> coding \<Rightarrow> string \<Rightarrow> string" where
  "compute_etag body c rv =
     (let digest = sha256_hexdigest (hash_input body c rv)
      in case c of Gzip \<Rightarrow> ''W/'' @ quoted digest | Identity \<Rightarrow> quoted digest)"

section \<open>If-None-Match\<close>

definition opaque_tag :: "string \<Rightarrow> string option" where
  "opaque_tag candidate =
     (if length candidate < 2 then None
      else let c = (if starts_with ''W/'' candidate then drop 2 candidate else candidate)
           in if length c < 2 \<or> \<not> (hd c = CHR 0x22 \<and> last c = CHR 0x22) then None
              else let inner = butlast (tl c)
                   in if CHR 0x22 \<in> set inner \<or> inner = [] then None else Some inner)"

text \<open>The scanning loop: the current candidate, whether it is inside quotes, and the rest.\<close>

fun scan_candidates :: "string \<Rightarrow> bool \<Rightarrow> string \<Rightarrow> string list" where
  "scan_candidates candidate in_quotes [] = [candidate]"
| "scan_candidates candidate in_quotes (ch # s) =
     (if ch = CHR 0x22 then scan_candidates (candidate @ [ch]) (\<not> in_quotes) s
      else if ch = CHR '','' \<and> \<not> in_quotes then candidate # scan_candidates [] in_quotes s
      else scan_candidates (candidate @ [ch]) in_quotes s)"

definition if_none_match_matches :: "string option \<Rightarrow> string \<Rightarrow> bool" where
  "if_none_match_matches header_value etag =
     (case header_value of
        None \<Rightarrow> False
      | Some h \<Rightarrow>
          let value = py_strip h
          in if h = [] \<or> value = [] then False
             else if value = ''*'' then True
             else list_ex (\<lambda>raw. case opaque_tag (py_strip raw) of
                                   None \<Rightarrow> False
                                 | Some opaque \<Rightarrow> opaque_tag etag = Some opaque)
                    (scan_candidates [] False value))"

datatype verdict = Star_Hit | Tag_Hit string

definition judge_conditional ::
  "string \<Rightarrow> string option \<Rightarrow> string \<Rightarrow> string option \<Rightarrow> nat \<Rightarrow> verdict option" where
  "judge_conditional body if_none_match rv accept_encoding min_gzip =
     (case if_none_match of
        None \<Rightarrow> None
      | Some h \<Rightarrow>
          if h = [] \<or> py_strip h = [] then None
          else if py_strip h = ''*'' then Some Star_Hit
          else if \<not> (accepts_gzip accept_encoding \<and> length body \<ge> min_gzip) then
            let tag = compute_etag body Identity rv
            in if if_none_match_matches if_none_match tag then Some (Tag_Hit tag) else None
          else
            let tag = compute_etag body Gzip rv
            in if if_none_match_matches if_none_match tag then Some (Tag_Hit tag) else None)"

text \<open>
  \<open>encode_conditional_tail\<close>: the verdict, the payload, its coding (\<open>None\<close> for the empty header
  placeholder of a 304) and the validator.
\<close>

definition encode_conditional_tail ::
  "(string \<Rightarrow> string option \<Rightarrow> string \<times> coding) \<Rightarrow> string \<Rightarrow> string option \<Rightarrow> string option \<Rightarrow> string option \<Rightarrow> bool
     \<Rightarrow> verdict option \<times> string \<times> coding option \<times> string option" where
  "encode_conditional_tail compress body accept_encoding if_none_match rep_version judge_empty_body =
     (let ok = (\<lambda>etag_value. case compress body accept_encoding of (encoded, c) \<Rightarrow> (None, encoded, Some c, etag_value c))
      in case rep_version of
           None \<Rightarrow> ok (\<lambda>_. None)
         | Some rv \<Rightarrow>
             if \<not> judge_empty_body \<and> body = [] then ok (\<lambda>_. None)
             else case judge_conditional body if_none_match rv accept_encoding MIN_GZIP_BYTES of
                    Some Star_Hit \<Rightarrow>
                      (Some Star_Hit, [], None, Some (compute_etag body (snd (compress body accept_encoding)) rv))
                  | Some (Tag_Hit tag) \<Rightarrow> (Some (Tag_Hit tag), [], None, Some tag)
                  | None \<Rightarrow> ok (\<lambda>c. Some (compute_etag body c rv)))"

text \<open>\<open>conditional_304\<close>: the headers of the 304 response, or none.\<close>

definition conditional_304 ::
  "(string, string) dict \<Rightarrow> string option \<Rightarrow> (string, string) dict \<Rightarrow> (string, string) dict option" where
  "conditional_304 final_headers if_none_match aux =
     (case dict_get final_headers ''ETag'' of
        None \<Rightarrow> None
      | Some tag \<Rightarrow>
          if tag = [] then None
          else if \<not> if_none_match_matches if_none_match tag then None
          else Some (fold (\<lambda>(k, v). dict_set k v) aux
            [(''ETag'', tag), (''Vary'', dict_get_or final_headers ''Vary'' ''Accept-Encoding''), (''Cache-Control'', ''no-store'')]))"

section \<open>Stripping and scanning\<close>

lemma py_strip_lead: "list_all is_py_space p \<Longrightarrow> py_strip (p @ s) = py_strip s"
  unfolding py_strip_def by (induction p) auto

lemma py_strip_trail: "list_all is_py_space t \<Longrightarrow> py_strip (s @ t) = py_strip s"
proof (cases "list_all is_py_space s")
  case True
  assume "list_all is_py_space t"
  with True show ?thesis by (simp add: py_strip_def list_all_iff dropWhile_eq_Nil_conv[THEN iffD2])
next
  case False
  assume t: "list_all is_py_space t"
  have "dropWhile is_py_space (s @ t) = dropWhile is_py_space s @ t"
    using False by (auto simp: list_all_iff dropWhile_append1)
  moreover have "dropWhile is_py_space (rev t @ r) = dropWhile is_py_space r" for r
    using t by (intro dropWhile_append2) (auto simp: list_all_iff)
  ultimately show ?thesis by (simp add: py_strip_def)
qed

lemma py_strip_solid:
  assumes "s \<noteq> []" and "\<not> is_py_space (hd s)" and "\<not> is_py_space (last s)"
  shows "py_strip s = s"
proof -
  have "dropWhile is_py_space s = s" using assms by (cases s) auto
  then show ?thesis using dropWhile_last[of s is_py_space] assms by (simp add: py_strip_def)
qed

lemma py_strip_split: "\<exists>p t. s = p @ py_strip s @ t \<and> list_all is_py_space p \<and> list_all is_py_space t"
proof -
  let ?d = "dropWhile is_py_space s"
  have "rev ?d = takeWhile is_py_space (rev ?d) @ dropWhile is_py_space (rev ?d)" by simp
  then have "?d = py_strip s @ rev (takeWhile is_py_space (rev ?d))"
    unfolding py_strip_def by (metis rev_append rev_rev_ident)
  then have "s = takeWhile is_py_space s @ py_strip s @ rev (takeWhile is_py_space (rev ?d))"
    by (metis takeWhile_dropWhile_id)
  moreover have "list_all is_py_space (takeWhile is_py_space xs)" for xs
    by (induction xs) auto
  ultimately show ?thesis by (intro exI[of _ "takeWhile is_py_space s"] exI[of _ "rev (takeWhile is_py_space (rev ?d))"]) simp
qed

definition plain_char :: "char \<Rightarrow> bool" where
  "plain_char c \<longleftrightarrow> c \<noteq> CHR 0x22 \<and> c \<noteq> CHR '',''"

lemma space_plain: "list_all is_py_space s \<Longrightarrow> list_all plain_char s"
  by (auto simp: list_all_iff plain_char_def is_py_space_def code_point_def)

lemma scan_plain: "list_all plain_char s \<Longrightarrow> scan_candidates cur q (s @ r) = scan_candidates (cur @ s) q r"
  by (induction s arbitrary: cur) (auto simp: plain_char_def)

lemma scan_quoted: "CHR 0x22 \<notin> set s \<Longrightarrow> scan_candidates cur True (s @ r) = scan_candidates (cur @ s) True r"
  by (induction s arbitrary: cur) auto

lemma scan_prefix:
  "\<exists>c cs. scan_candidates cur q s = c # cs \<and> scan_candidates (p @ cur) q s = (p @ c) # cs"
  by (induction cur q s rule: scan_candidates.induct) (auto simp flip: append_assoc)

lemma scan_suffix:
  assumes "list_all plain_char t"
  shows "\<exists>cs c. scan_candidates cur q s = cs @ [c] \<and> scan_candidates cur q (s @ t) = cs @ [c @ t]"
proof (induction cur q s rule: scan_candidates.induct)
  case (1 cur q)
  then show ?case using scan_plain[OF assms, of cur q "[]"] by auto
next
  case (2 cur q ch s)
  consider "ch = CHR 0x22" | "ch \<noteq> CHR 0x22" "ch = CHR '','' \<and> \<not> q" | "ch \<noteq> CHR 0x22" "\<not> (ch = CHR '','' \<and> \<not> q)" by blast
  then show ?case
  proof cases
    case 1
    with 2(1) show ?thesis by simp
  next
    case comma: 2
    from 2(2)[OF comma] obtain cs c where "scan_candidates [] q s = cs @ [c]" "scan_candidates [] q (s @ t) = cs @ [c @ t]"
      by blast
    with comma show ?thesis by (intro exI[of _ "cur # cs"] exI[of _ c]) simp
  next
    case other: 3
    from 2(3)[OF other] other show ?thesis by auto
  qed
qed

lemma scan_strip: "map py_strip (scan_candidates [] False (py_strip h)) = map py_strip (scan_candidates [] False h)"
proof -
  obtain p t where h: "h = p @ py_strip h @ t" and p: "list_all is_py_space p" and t: "list_all is_py_space t"
    using py_strip_split by blast
  obtain cs c where 1: "scan_candidates [] False (py_strip h) = cs @ [c]" "scan_candidates [] False (py_strip h @ t) = cs @ [c @ t]"
    using scan_suffix[OF space_plain[OF t]] by metis
  obtain d ds where 2: "scan_candidates [] False (py_strip h @ t) = d # ds" "scan_candidates p False (py_strip h @ t) = (p @ d) # ds"
    using scan_prefix[of "[]" False "py_strip h @ t" p] by auto
  have "scan_candidates [] False h = (p @ d) # ds"
    using scan_plain[OF space_plain[OF p], of "[]" False "py_strip h @ t"] 2(2) h by simp
  then have "map py_strip (scan_candidates [] False h) = map py_strip (d # ds)" using py_strip_lead[OF p] by simp
  also have "\<dots> = map py_strip (cs @ [c @ t])" using 1(2) 2(1) by metis
  finally have "map py_strip (scan_candidates [] False h) = map py_strip (cs @ [c @ t])" .
  then show ?thesis using 1(1) py_strip_trail[OF t] by simp
qed

section \<open>The header grammar\<close>

text \<open>
  An element of the header: white space, an entity tag (weak or strong, an opaque string without a
  quote), white space; or an element with neither quote nor comma, which is no tag.
\<close>

datatype inm_item = Tag string bool string string | Junk string

fun render_item :: "inm_item \<Rightarrow> string" where
  "render_item (Tag pre weak opaque post) = pre @ (if weak then ''W/'' else []) @ quoted opaque @ post"
| "render_item (Junk s) = s"

fun item_ok :: "inm_item \<Rightarrow> bool" where
  "item_ok (Tag pre weak opaque post) \<longleftrightarrow> list_all is_py_space pre \<and> list_all is_py_space post \<and> opaque \<noteq> [] \<and> CHR 0x22 \<notin> set opaque"
| "item_ok (Junk s) \<longleftrightarrow> list_all plain_char s"

fun item_opaque :: "inm_item \<Rightarrow> string option" where
  "item_opaque (Tag pre weak opaque post) = Some opaque"
| "item_opaque (Junk s) = None"

lemma opaque_tag_render: "opaque \<noteq> [] \<Longrightarrow> CHR 0x22 \<notin> set opaque \<Longrightarrow> opaque_tag ((if weak then ''W/'' else []) @ quoted opaque) = Some opaque"
  by (auto simp: opaque_tag_def quoted_def starts_with_def butlast_append Let_def)

lemma opaque_tag_no_quote:
  assumes "CHR 0x22 \<notin> set s"
  shows "opaque_tag s = None"
proof -
  have "hd c \<noteq> CHR 0x22" if "2 \<le> length c" "set c \<subseteq> set s" for c
    using that assms by (cases c) auto
  from this[of s] this[of "drop 2 s"] set_drop_subset[of 2 s] show ?thesis
    by (auto simp: opaque_tag_def Let_def not_less)
qed

lemma quote_not_space [simp]: "\<not> is_py_space (CHR 0x22)" "\<not> is_py_space (CHR ''W'')"
  by (simp_all add: is_py_space_def code_point_def)

lemma opaque_tag_item:
  assumes "item_ok x"
  shows "opaque_tag (py_strip (render_item x)) = item_opaque x"
proof (cases x)
  case (Tag pre weak opaque post)
  let ?t = "(if weak then ''W/'' else []) @ quoted opaque"
  have "py_strip ?t = ?t" by (rule py_strip_solid) (auto simp: quoted_def)
  then have "py_strip (pre @ ?t @ post) = ?t"
    using assms Tag py_strip_lead[of pre "?t @ post"] py_strip_trail[of post ?t] by simp
  then show ?thesis using assms Tag opaque_tag_render[of opaque weak] by simp
next
  case (Junk s)
  obtain p t where s: "s = p @ py_strip s @ t" using py_strip_split by blast
  have "CHR 0x22 \<notin> set (py_strip s)"
    using assms Junk s by (metis Un_iff item_ok.simps(2) list_all_iff plain_char_def set_append)
  then show ?thesis using Junk by (simp add: opaque_tag_no_quote)
qed

lemma scan_render: "item_ok x \<Longrightarrow> scan_candidates cur False (render_item x @ r) = scan_candidates (cur @ render_item x) False r"
proof (induction x)
  case (Tag pre weak opaque post)
  have w: "list_all plain_char (if weak then ''W/'' else [])" by (simp add: plain_char_def)
  show ?case
    using Tag scan_plain[OF space_plain] scan_plain[OF w] scan_quoted
    by (simp add: quoted_def del: append_assoc) (simp add: scan_plain[OF space_plain] scan_plain[OF w] scan_quoted)
next
  case (Junk s)
  then show ?case by (simp add: scan_plain)
qed

lemma scan_header:
  "xs \<noteq> [] \<Longrightarrow> list_all item_ok xs \<Longrightarrow> scan_candidates [] False (join_with (CHR '','') (map render_item xs)) = map render_item xs"
proof (induction xs rule: list_nonempty_induct)
  case (single x)
  then show ?case using scan_render[of x "[]" "[]"] by simp
next
  case (cons x xs)
  then obtain y ys where "xs = y # ys" by (cases xs) auto
  with cons show ?case using scan_render[of x "[]"] by simp
qed

section \<open>Evaluation of validators\<close>

lemma list_ex_opaque:
  "list_ex (\<lambda>raw. case opaque_tag (py_strip raw) of None \<Rightarrow> False | Some p \<Rightarrow> Some t = Some p) xs
     \<longleftrightarrow> Some t \<in> opaque_tag ` set (map py_strip xs)"
  by (induction xs) (auto split: option.split)

lemma matches_rendered:
  assumes "xs \<noteq> []" and "list_all item_ok xs" and "opaque_tag etag = Some opaque"
  shows "if_none_match_matches (Some (join_with (CHR '','') (map render_item xs))) etag \<longleftrightarrow>
    py_strip (join_with (CHR '','') (map render_item xs)) = ''*'' \<or> Some opaque \<in> set (map item_opaque xs)"
    (is "if_none_match_matches (Some ?h) _ \<longleftrightarrow> _")
proof -
  have "list_ex (\<lambda>raw. case opaque_tag (py_strip raw) of None \<Rightarrow> False | Some p \<Rightarrow> opaque_tag etag = Some p)
        (scan_candidates [] False (py_strip ?h))
      \<longleftrightarrow> Some opaque \<in> opaque_tag ` set (map py_strip (scan_candidates [] False (py_strip ?h)))"
    using assms(3) by (simp only: list_ex_opaque)
  also have "map py_strip (scan_candidates [] False (py_strip ?h)) = map (py_strip \<circ> render_item) xs"
    by (simp add: scan_strip scan_header assms(1,2))
  also have "opaque_tag ` set (map (py_strip \<circ> render_item) xs) = set (map item_opaque xs)"
    using assms(2) opaque_tag_item by (auto simp: list_all_iff image_image)
  finally have *: "list_ex (\<lambda>raw. case opaque_tag (py_strip raw) of None \<Rightarrow> False | Some p \<Rightarrow> opaque_tag etag = Some p)
        (scan_candidates [] False (py_strip ?h)) \<longleftrightarrow> Some opaque \<in> set (map item_opaque xs)" .
  have "py_strip ?h \<noteq> []" if "Some opaque \<in> set (map item_opaque xs)"
  proof
    assume "py_strip ?h = []"
    moreover have "opaque_tag (py_strip []) = None" by (simp add: opaque_tag_def py_strip_def)
    ultimately show False using * that by simp
  qed
  moreover have "py_strip ?h \<noteq> [] \<Longrightarrow> ?h \<noteq> []" by (auto simp: py_strip_def)
  ultimately show ?thesis using * by (cases "py_strip ?h = ''*''") (auto simp: if_none_match_matches_def Let_def)
qed

lemma hex_no_quote: "list_all is_hex_digit s \<Longrightarrow> CHR 0x22 \<notin> set s"
proof -
  have "\<not> is_hex_digit (CHR 0x22)" by (simp add: is_hex_digit_def)
  then show "list_all is_hex_digit s \<Longrightarrow> CHR 0x22 \<notin> set s" by (metis list_all_iff)
qed

lemma digest_ok [simp]: "sha256_hexdigest s \<noteq> []" "CHR 0x22 \<notin> set (sha256_hexdigest s)"
proof -
  show "sha256_hexdigest s \<noteq> []" using length_sha256[of s] by (metis list.size(3) zero_neq_numeral)
  show "CHR 0x22 \<notin> set (sha256_hexdigest s)" by (rule hex_no_quote[OF sha256_digits])
qed

lemma compute_etag_render:
  "compute_etag body c rv = render_item (Tag [] (c = Gzip) (sha256_hexdigest (hash_input body c rv)) [])"
  by (cases c) (simp_all add: compute_etag_def Let_def)

lemma opaque_compute_etag [simp]: "opaque_tag (compute_etag body c rv) = Some (sha256_hexdigest (hash_input body c rv))"
  using opaque_tag_render[of "sha256_hexdigest (hash_input body c rv)" "c = Gzip"] by (simp add: compute_etag_render)

lemma strip_compute_etag [simp]: "py_strip (compute_etag body c rv) = compute_etag body c rv"
  by (rule py_strip_solid) (auto simp: compute_etag_def Let_def quoted_def split: coding.split)

lemma compute_etag_ne [simp]: "compute_etag body c rv \<noteq> []" "compute_etag body c rv \<noteq> ''*''"
  by (auto simp: compute_etag_def Let_def quoted_def split: coding.split)

lemma matches_own_tag:
  "if_none_match_matches (Some (compute_etag body0 c0 rv0)) (compute_etag body c rv) \<longleftrightarrow>
     sha256_hexdigest (hash_input body0 c0 rv0) = sha256_hexdigest (hash_input body c rv)"
  using matches_rendered[of "[Tag [] (c0 = Gzip) (sha256_hexdigest (hash_input body0 c0 rv0)) []]"
      "compute_etag body c rv" "sha256_hexdigest (hash_input body c rv)"]
  by (auto simp: compute_etag_render[symmetric] simp del: render_item.simps)

text \<open>The coding a request is judged by.\<close>

definition judged_coding :: "string \<Rightarrow> string option \<Rightarrow> coding" where
  "judged_coding body ae = (if accepts_gzip ae \<and> MIN_GZIP_BYTES \<le> length body then Gzip else Identity)"

lemma judge_own_tag:
  "judge_conditional body (Some (compute_etag body0 c0 rv0)) rv ae MIN_GZIP_BYTES =
     (if sha256_hexdigest (hash_input body0 c0 rv0) = sha256_hexdigest (hash_input body (judged_coding body ae) rv)
      then Some (Tag_Hit (compute_etag body (judged_coding body ae) rv)) else None)"
  by (simp add: judge_conditional_def judged_coding_def matches_own_tag)

section \<open>The hash input determines the representation\<close>

lemma show_int_no_nul: "NUL \<notin> set (show_int i)"
proof -
  have "NUL \<notin> set (show_nat n)" for n
    using show_nat_digits[of n] by (auto simp: list_all_iff is_digit_def code_point_def)
  then show ?thesis by (simp add: show_int_def)
qed

lemma show_int_inject: "show_int i = show_int j \<longleftrightarrow> i = j"
proof
  assume s: "show_int i = show_int j"
  have m: "show_nat n \<noteq> CHR ''-'' # r" for n r
  proof
    assume "show_nat n = CHR ''-'' # r"
    then have "is_digit (CHR ''-'')" using show_nat_digits[of n] by simp
    then show False by (simp add: is_digit_def code_point_def)
  qed
  have n: "show_nat a = show_nat b \<longleftrightarrow> a = b" for a b using digits_val_show_nat by metis
  show "i = j"
  proof (cases "i < 0"; cases "j < 0")
    assume "i < 0" "\<not> j < 0"
    then show ?thesis using s m[of "nat j"] by (metis show_int_def)
  next
    assume "\<not> i < 0" "j < 0"
    then show ?thesis using s m[of "nat i"] by (metis show_int_def)
  qed (use s n in \<open>simp_all add: show_int_def\<close>)
qed simp

lemma split_hash_input:
  "split_on NUL (hash_input body c (representation_version cfg v)) = fingerprint_parts cfg v @ [coding_name c] @ split_on NUL body"
proof -
  have "list_all (\<lambda>p. NUL \<notin> set p) (fingerprint_parts cfg v)"
    by (simp add: fingerprint_parts_def show_int_no_nul)
  then have 1: "split_on NUL (representation_version cfg v) = fingerprint_parts cfg v"
    unfolding representation_version_def by (intro split_join_parts) (simp add: fingerprint_parts_def)
  have "NUL \<notin> set (coding_name c)" by (cases c) (simp_all add: coding_name_def)
  then have 2: "split_on NUL (coding_name c) = [coding_name c]" by (rule split_on_no_sep)
  show ?thesis by (simp add: hash_input_def split_on_append_sep 1 2)
qed

lemma hash_input_inject:
  assumes "hash_input body c (representation_version cfg v) = hash_input body' c' (representation_version cfg' v')"
  shows "body = body' \<and> c = c' \<and> v = v' \<and> rc_inline_max cfg = rc_inline_max cfg'
    \<and> rc_message_max cfg = rc_message_max cfg' \<and> rc_fingerprint cfg = rc_fingerprint cfg'"
proof -
  have *: "fingerprint_parts cfg v @ [coding_name c] @ split_on NUL body
      = fingerprint_parts cfg' v' @ [coding_name c'] @ split_on NUL body'"
    using arg_cong[OF assms, of "split_on NUL"] by (simp only: split_hash_input)
  have "length (fingerprint_parts cfg v) = length (fingerprint_parts cfg' v')" by (simp add: fingerprint_parts_def)
  with * have parts: "fingerprint_parts cfg v = fingerprint_parts cfg' v'" and c: "coding_name c = coding_name c'"
    and body: "split_on NUL body = split_on NUL body'" by simp_all
  have "body = body'" using body join_split by metis
  moreover have "c = c'" using c by (cases c; cases c') (simp_all add: coding_name_def)
  ultimately show ?thesis
    using parts by (simp add: fingerprint_parts_def show_int_inject split: if_splits)
qed

lemma tail_200:
  assumes "encode_conditional_tail compress body ae inm (Some rv) je = (None, payload, Some c, Some tag)"
  shows "tag = compute_etag body c rv" and "compress body ae = (payload, c)" and "je \<or> body \<noteq> []"
  using assms by (auto simp: encode_conditional_tail_def Let_def split: prod.splits if_splits option.splits verdict.splits)

lemma tail_own_tag:
  assumes "je \<or> body \<noteq> []"
  shows "encode_conditional_tail compress body ae (Some (compute_etag body0 c0 rv0)) (Some rv) je =
    (if sha256_hexdigest (hash_input body0 c0 rv0) = sha256_hexdigest (hash_input body (judged_coding body ae) rv)
     then (Some (Tag_Hit (compute_etag body (judged_coding body ae) rv)), [], None,
           Some (compute_etag body (judged_coding body ae) rv))
     else (None, fst (compress body ae), Some (snd (compress body ae)), Some (compute_etag body (snd (compress body ae)) rv)))"
  using assms by (auto simp: encode_conditional_tail_def judge_own_tag Let_def split: prod.split)

section \<open>Guarantees\<close>

text \<open>
  C19. The evaluation of \<^verbatim>\<open>If-None-Match\<close> is the weak comparison of RFC 9110. For a header that is a
  non-empty list of elements, each an entity tag with its white space (the opaque part may contain commas) or
  something with neither quote nor comma, and a validator with an opaque tag, it answers true exactly if
  the header is a lone star or one of its entity tags, weak or strong, has that opaque tag; elements
  that are no entity tag are skipped.
\<close>

theorem if_none_match_exact:
  assumes "xs \<noteq> []" and "list_all item_ok xs" and "opaque_tag etag = Some opaque"
  shows "if_none_match_matches (Some (join_with (CHR '','') (map render_item xs))) etag \<longleftrightarrow>
    py_strip (join_with (CHR '','') (map render_item xs)) = ''*'' \<or> Some opaque \<in> set (map item_opaque xs)"
  using assms by (rule matches_rendered)

text \<open>
  C17. No false 304. A client holds the validator of a 200 reply and sends it back; whatever the
  configuration, the wire view, the negotiation and the compressor of the two requests, if the second
  is answered with 304 then its body is the one the client holds, under the same projection limits, fingerprint
  switch and wire view, the coding judged is the one the client received, and the 304 carries the same
  validator. Only a SHA-256 collision between the two hash inputs is excluded.
\<close>

theorem no_false_304:
  assumes "encode_conditional_tail compress0 body0 ae0 inm0 (response_rep_version (Some cfg0) v0) je0
      = (None, payload0, Some c0, Some tag)"
    and "encode_conditional_tail compress body ae (Some tag) (response_rep_version (Some cfg) v) je = (Some verdict, payload, c, t)"
    and "sha256_hexdigest (hash_input body0 c0 (representation_version cfg0 v0))
             = sha256_hexdigest (hash_input body (judged_coding body ae) (representation_version cfg v))
           \<longrightarrow> hash_input body0 c0 (representation_version cfg0 v0) = hash_input body (judged_coding body ae) (representation_version cfg v)"
  shows "body = body0 \<and> verdict = Tag_Hit tag \<and> t = Some tag \<and> c0 = judged_coding body ae \<and> v = v0
    \<and> rc_inline_max cfg = rc_inline_max cfg0 \<and> rc_message_max cfg = rc_message_max cfg0 \<and> rc_fingerprint cfg = rc_fingerprint cfg0"
proof -
  have en: "rc_etag_enabled cfg0" "rc_etag_enabled cfg"
    using assms(1,2) by (auto simp: response_rep_version_def encode_conditional_tail_def Let_def split: if_splits prod.splits)
  have tag: "tag = compute_etag body0 c0 (representation_version cfg0 v0)"
    using tail_200(1)[of compress0 body0 ae0 inm0] assms(1) en by (simp add: response_rep_version_def)
  have je: "je \<or> body \<noteq> []"
    using assms(2) en by (auto simp: response_rep_version_def encode_conditional_tail_def Let_def split: prod.splits)
  have T: "encode_conditional_tail compress body ae (Some (compute_etag body0 c0 (representation_version cfg0 v0)))
      (Some (representation_version cfg v)) je = (Some verdict, payload, c, t)"
    using assms(2) en by (simp add: tag response_rep_version_def)
  have "sha256_hexdigest (hash_input body0 c0 (representation_version cfg0 v0))
      = sha256_hexdigest (hash_input body (judged_coding body ae) (representation_version cfg v))"
    and r: "verdict = Tag_Hit (compute_etag body (judged_coding body ae) (representation_version cfg v))"
      "t = Some (compute_etag body (judged_coding body ae) (representation_version cfg v))"
    using T unfolding tail_own_tag[OF je] by (auto split: if_splits)
  with assms(3) have eq: "hash_input body0 c0 (representation_version cfg0 v0)
      = hash_input body (judged_coding body ae) (representation_version cfg v)" by blast
  note I = hash_input_inject[OF eq]
  have "compute_etag body (judged_coding body ae) (representation_version cfg v) = tag"
    using I eq by (simp add: tag compute_etag_def)
  with r I show ?thesis by simp
qed

text \<open>
  C18. Revalidation works where it can. A client that repeats its request with the validator it was
  given, for an unchanged body, is answered with 304 without compressing whenever it was served gzip
  or the request can only be served identity; only an incompressible body to a gzip-capable client is
  sent again, with the very same reply.
\<close>

theorem revalidation_complete:
  assumes "encode_conditional_tail (compress_if_beneficial gz) body ae inm (Some rv) je = (None, payload, Some c, Some tag)"
  shows "if c = Gzip \<or> \<not> accepts_gzip ae \<or> length body < MIN_GZIP_BYTES
    then encode_conditional_tail (compress_if_beneficial gz) body ae (Some tag) (Some rv) je = (Some (Tag_Hit tag), [], None, Some tag)
    else sha256_hexdigest (hash_input body Identity rv) \<noteq> sha256_hexdigest (hash_input body Gzip rv) \<longrightarrow>
      encode_conditional_tail (compress_if_beneficial gz) body ae (Some tag) (Some rv) je = (None, payload, Some c, Some tag)"
proof -
  have tag: "tag = compute_etag body c rv" and p: "compress_if_beneficial gz body ae = (payload, c)" and je: "je \<or> body \<noteq> []"
    using tail_200[OF assms(1)] by auto
  have "c = Gzip \<Longrightarrow> judged_coding body ae = Gzip"
    using p by (auto simp: compress_if_beneficial_def judged_coding_def split: if_splits)
  then show ?thesis
    unfolding tag tail_own_tag[OF je] using p
    by (cases c) (auto simp: judged_coding_def)
qed

section \<open>Concrete requests\<close>

definition demo_cfg :: rep_config where
  "demo_cfg = \<lparr>rc_inline_max = 4096, rc_message_max = 65536, rc_fingerprint = True, rc_etag_enabled = True\<rparr>"

definition demo_tag :: string where
  "demo_tag = compute_etag ''[]'' Identity (representation_version demo_cfg 4)"

lemma demo_first: "encode_conditional_tail (compress_if_beneficial (\<lambda>s. s)) ''[]'' None None (Some (representation_version demo_cfg 4)) False
    = (None, ''[]'', Some Identity, Some demo_tag)"
  by (simp add: encode_conditional_tail_def judge_conditional_def compress_if_beneficial_def accepts_gzip_def demo_tag_def)

lemma demo_second: "encode_conditional_tail (compress_if_beneficial (\<lambda>s. s)) ''[]'' None (Some demo_tag) (Some (representation_version demo_cfg 4)) False
    = (Some (Tag_Hit demo_tag), [], None, Some demo_tag)"
  unfolding demo_tag_def by (subst tail_own_tag) (simp_all add: judged_coding_def accepts_gzip_def)

lemma demo_rep: "response_rep_version (Some demo_cfg) 4 = Some (representation_version demo_cfg 4)"
  by (simp add: response_rep_version_def demo_cfg_def)

theorem if_none_match_exact_witness:
  "if_none_match_matches (Some (join_with (CHR '','') (map render_item [Junk ''junk '', Tag '' '' True ''a,b'' '' '']))) (quoted ''a,b'')"
proof -
  have "opaque_tag (quoted ''a,b'') = Some ''a,b''" using opaque_tag_render[of "''a,b''" False] by simp
  from if_none_match_exact[OF _ _ this, of "[Junk ''junk '', Tag '' '' True ''a,b'' '' '']"] show ?thesis
    by (simp add: is_py_space_def code_point_def plain_char_def)
qed

theorem no_false_304_witness:
  "encode_conditional_tail (compress_if_beneficial (\<lambda>s. s)) ''[]'' None (Some demo_tag) (response_rep_version (Some demo_cfg) 4) False
     = (Some (Tag_Hit demo_tag), [], None, Some demo_tag)
   \<and> judged_coding ''[]'' None = Identity"
proof -
  have j: "judged_coding ''[]'' None = Identity" by (simp add: judged_coding_def accepts_gzip_def)
  from no_false_304[of "compress_if_beneficial (\<lambda>s. s)" "''[]''" None None demo_cfg 4 False "''[]''" Identity demo_tag
      "compress_if_beneficial (\<lambda>s. s)" "''[]''" None demo_cfg 4 False "Tag_Hit demo_tag" "[]" None "Some demo_tag"]
  show ?thesis unfolding demo_rep using demo_first demo_second j by simp
qed

theorem revalidation_complete_witness:
  "encode_conditional_tail (compress_if_beneficial (\<lambda>s. s)) ''[]'' None (Some demo_tag) (Some (representation_version demo_cfg 4)) False
     = (Some (Tag_Hit demo_tag), [], None, Some demo_tag)"
  using revalidation_complete[OF demo_first] by (simp add: accepts_gzip_def)

end
