(* ===== verification/Single_Flight.thy ===== *)
theory Single_Flight
  imports Prelude
begin

text \<open>
  Deduplication of shared upstream fetches (\<^verbatim>\<open>singleflight.py\<close>), both profiles of the class: plain
  (\<open>fetch\<close>, bounded retention) and leased (\<open>fetch_or_bypass\<close>, a byte budget and leases).

  An entry of the registry is a mutable object that outlives its registration, so entries live in a
  store and are named by their position there. The code between two awaits is one function; awaits
  (the factory of a leader, the shared future of a waiter, the window of a lease) are the callers of
  the theory \<open>Single_Flight_Ledger\<close>. The clock is the argument \<open>now\<close>. A timer handle is a flag.
\<close>

section \<open>Entries and registry\<close>

datatype fl_state = In_Flight | Grace | Retained | Failed
datatype fl_layer = Active | Retired

text \<open>The shared future: unresolved, a result, the \<open>FetchFailed\<close> envelope, cancelled.\<close>

datatype ('r, 'x) future = Pending | Result 'r | Fetch_Failed 'x | Cancelled

record ('k, 'r, 'x) flight =
  fl_key :: 'k
  fl_seq :: int
  fl_future :: "('r, 'x) future"
  fl_caller_refs :: nat
  fl_state :: fl_state
  fl_layer :: fl_layer
  fl_reserve :: int
  fl_accounted :: bool
  fl_expires_at :: "real option"
  fl_timer :: bool
  fl_size :: int

definition new_flight :: "'k \<Rightarrow> int \<Rightarrow> int \<Rightarrow> ('k, 'r, 'x) flight" where
  "new_flight key seq reserve =
     \<lparr>fl_key = key, fl_seq = seq, fl_future = Pending, fl_caller_refs = 0, fl_state = In_Flight, fl_layer = Active,
      fl_reserve = reserve, fl_accounted = False, fl_expires_at = None, fl_timer = False, fl_size = 0\<rparr>"

record ('k, 'r, 'x) single_flight =
  sf_leased :: bool
  sf_grace :: real
  sf_max_entries :: int
  sf_max_bytes :: int
  sf_store :: "('k, 'r, 'x) flight list"
  sf_entries :: "('k, nat) dict"
  sf_retired :: "('k \<times> int, nat) dict"
  sf_leased_bytes :: int
  sf_retained_bytes :: int
  sf_seq :: int

text \<open>
  The constructor: plain-only arguments are refused in the leased profile and the other way round.
\<close>

datatype sf_error = Type_Error | Runtime_Error

definition new_single_flight ::
  "int option \<Rightarrow> int option \<Rightarrow> real \<Rightarrow> int option \<Rightarrow> int option \<Rightarrow> sf_error + ('k, 'r, 'x) single_flight" where
  "new_single_flight max_bytes network_concurrency grace max_retained_entries max_retained_bytes =
     (let base = (\<lambda>leased me mb. Inr \<lparr>sf_leased = leased, sf_grace = grace, sf_max_entries = me, sf_max_bytes = mb,
             sf_store = [], sf_entries = [], sf_retired = [], sf_leased_bytes = 0, sf_retained_bytes = 0, sf_seq = 0\<rparr>)
      in case max_bytes of
           Some mb \<Rightarrow>
             if max_retained_entries \<noteq> None \<or> max_retained_bytes \<noteq> None then Inl Type_Error else base True 0 mb
         | None \<Rightarrow>
             if network_concurrency \<noteq> None then Inl Type_Error
             else base False (case max_retained_entries of None \<Rightarrow> 64 | Some n \<Rightarrow> n)
                    (case max_retained_bytes of None \<Rightarrow> 32 * 1024 * 1024 | Some n \<Rightarrow> n))"

abbreviation flight :: "('k, 'r, 'x) single_flight \<Rightarrow> nat \<Rightarrow> ('k, 'r, 'x) flight" where
  "flight s i \<equiv> sf_store s ! i"

definition upd_flight ::
  "nat \<Rightarrow> (('k, 'r, 'x) flight \<Rightarrow> ('k, 'r, 'x) flight) \<Rightarrow> ('k, 'r, 'x) single_flight \<Rightarrow> ('k, 'r, 'x) single_flight" where
  "upd_flight i f s = s\<lparr>sf_store := (sf_store s)[i := f (flight s i)]\<rparr>"

text \<open>\<^verbatim>\<open>self._entries.get(key) is entry\<close>\<close>

definition registered :: "('k, 'r, 'x) single_flight \<Rightarrow> 'k \<Rightarrow> nat \<Rightarrow> bool" where
  "registered s key i \<longleftrightarrow> dict_get (sf_entries s) key = Some i"

section \<open>Ledger of the leased profile\<close>

definition refund :: "nat \<Rightarrow> ('k, 'r, 'x) single_flight \<Rightarrow> ('k, 'r, 'x) single_flight" where
  "refund i s =
     (if fl_accounted (flight s i)
      then (upd_flight i (\<lambda>e. e\<lparr>fl_accounted := False\<rparr>) s)\<lparr>sf_leased_bytes := sf_leased_bytes s - fl_reserve (flight s i)\<rparr>
      else s)"

definition detach_from_active :: "nat \<Rightarrow> ('k, 'r, 'x) single_flight \<Rightarrow> ('k, 'r, 'x) single_flight" where
  "detach_from_active i s =
     (let key = fl_key (flight s i)
      in if registered s key i then s\<lparr>sf_entries := dict_pop key (sf_entries s)\<rparr> else s)"

definition reap :: "nat \<Rightarrow> ('k, 'r, 'x) single_flight \<Rightarrow> ('k, 'r, 'x) single_flight" where
  "reap i s =
     (let s1 = refund i s;
          e = flight s1 i;
          s2 = s1\<lparr>sf_retired := dict_pop (fl_key e, fl_seq e) (sf_retired s1)\<rparr>
      in detach_from_active i s2)"

definition retire :: "nat \<Rightarrow> ('k, 'r, 'x) single_flight \<Rightarrow> ('k, 'r, 'x) single_flight" where
  "retire i s = s\<lparr>sf_retired := dict_set (fl_key (flight s i), fl_seq (flight s i)) i (sf_retired s)\<rparr>"

definition release_caller :: "nat \<Rightarrow> ('k, 'r, 'x) single_flight \<Rightarrow> ('k, 'r, 'x) single_flight" where
  "release_caller i s =
     (if \<not> sf_leased s then s
      else
        let s1 = (if fl_caller_refs (flight s i) > 0
                  then upd_flight i (\<lambda>e. e\<lparr>fl_caller_refs := fl_caller_refs e - 1\<rparr>) s else s)
        in if fl_caller_refs (flight s1 i) \<noteq> 0 then s1
           else if fl_state (flight s1 i) = Retained then reap i s1
           else if fl_state (flight s1 i) = Failed then reap i s1
           else s1)"

definition drop_grace :: "nat \<Rightarrow> ('k, 'r, 'x) single_flight \<Rightarrow> ('k, 'r, 'x) single_flight" where
  "drop_grace i s =
     (let s1 = detach_from_active i s;
          s2 = retire i (upd_flight i (\<lambda>e. e\<lparr>fl_layer := Retired, fl_state := Retained\<rparr>) s1)
      in if fl_caller_refs (flight s2 i) = 0 then reap i s2 else s2)"

definition expire_grace :: "nat \<Rightarrow> ('k, 'r, 'x) single_flight \<Rightarrow> ('k, 'r, 'x) single_flight" where
  "expire_grace i s =
     (if fl_state (flight s i) \<noteq> Grace \<or> fl_layer (flight s i) \<noteq> Active then s
      else drop_grace i (upd_flight i (\<lambda>e. e\<lparr>fl_timer := False\<rparr>) s))"

section \<open>Retention of the plain profile\<close>

definition drop_key :: "'k \<Rightarrow> ('k, 'r, 'x) single_flight \<Rightarrow> ('k, 'r, 'x) single_flight" where
  "drop_key key s =
     (case dict_get (sf_entries s) key of
        None \<Rightarrow> s
      | Some i \<Rightarrow>
          (upd_flight i (\<lambda>e. e\<lparr>fl_timer := False\<rparr>) s)\<lparr>sf_entries := dict_pop key (sf_entries s),
             sf_retained_bytes := (if fl_expires_at (flight s i) \<noteq> None
               then sf_retained_bytes s - fl_size (flight s i) else sf_retained_bytes s)\<rparr>)"

definition plain_over :: "('k, 'r, 'x) single_flight \<Rightarrow> bool" where
  "plain_over s \<longleftrightarrow> int (length (sf_entries s)) > sf_max_entries s \<or> sf_retained_bytes s > sf_max_bytes s"

definition oldest_completed :: "('k, 'r, 'x) single_flight \<Rightarrow> 'k option" where
  "oldest_completed s = map_option fst (find (\<lambda>p. fl_expires_at (flight s (snd p)) \<noteq> None) (sf_entries s))"

partial_function (option) evict_plain :: "('k, 'r, 'x) single_flight \<Rightarrow> ('k, 'r, 'x) single_flight option" where
  "evict_plain s =
     (if plain_over s then
        (case oldest_completed s of None \<Rightarrow> Some s | Some key \<Rightarrow> evict_plain (drop_key key s))
      else Some s)"

section \<open>Transitions\<close>

definition expire_grace_entry :: "real \<Rightarrow> 'k \<Rightarrow> nat \<Rightarrow> ('k, 'r, 'x) single_flight \<Rightarrow> ('k, 'r, 'x) single_flight" where
  "expire_grace_entry now key i s =
     (if \<not> registered s key i then s
      else if \<not> sf_leased s then
        (case fl_expires_at (flight s i) of
           Some t \<Rightarrow> if t \<le> now then drop_key key s else s
         | None \<Rightarrow> s)
      else if fl_state (flight s i) = Grace \<and> fl_layer (flight s i) = Active then expire_grace i s
      else s)"

definition expire_if_due :: "real \<Rightarrow> 'k \<Rightarrow> ('k, 'r, 'x) single_flight \<Rightarrow> ('k, 'r, 'x) single_flight" where
  "expire_if_due now key s =
     (case dict_get (sf_entries s) key of
        None \<Rightarrow> s
      | Some i \<Rightarrow>
          (case fl_expires_at (flight s i) of
             None \<Rightarrow> s
           | Some t \<Rightarrow> if now \<ge> t then expire_grace_entry now key i s else s))"

definition fail_future :: "nat \<Rightarrow> 'x option \<Rightarrow> ('k, 'r, 'x) single_flight \<Rightarrow> ('k, 'r, 'x) single_flight" where
  "fail_future i exc s =
     (if fl_future (flight s i) \<noteq> Pending then s
      else upd_flight i (\<lambda>e. e\<lparr>fl_future := (case exc of None \<Rightarrow> Cancelled | Some x \<Rightarrow> Fetch_Failed x)\<rparr>) s)"

definition fail_flight :: "nat \<Rightarrow> 'x option \<Rightarrow> ('k, 'r, 'x) single_flight \<Rightarrow> ('k, 'r, 'x) single_flight" where
  "fail_flight i exc s =
     (if \<not> sf_leased s then fail_future i exc (drop_key (fl_key (flight s i)) s)
      else
        let s1 = detach_from_active i (release_caller i s);
            s2 = retire i (upd_flight i (\<lambda>e. e\<lparr>fl_layer := Retired, fl_state := Failed\<rparr>) s1);
            s3 = fail_future i exc (refund i s2)
        in if fl_caller_refs (flight s3 i) = 0 then reap i s3 else s3)"

text \<open>\<open>size_of\<close> is the length of a byte result and 0 for any other one.\<close>

definition convert_success ::
  "real \<Rightarrow> ('r \<Rightarrow> int) \<Rightarrow> nat \<Rightarrow> 'r \<Rightarrow> ('k, 'r, 'x) single_flight \<Rightarrow> ('k, 'r, 'x) single_flight option" where
  "convert_success now size_of i result s =
     (if \<not> sf_leased s then
        (if registered s (fl_key (flight s i)) i then
           let s1 = (upd_flight i (\<lambda>e. e\<lparr>fl_expires_at := Some (now + sf_grace s), fl_size := size_of result\<rparr>) s)
                 \<lparr>sf_retained_bytes := sf_retained_bytes s + size_of result\<rparr>
           in map_option (\<lambda>s2. if registered s2 (fl_key (flight s i)) i
                             then upd_flight i (\<lambda>e. e\<lparr>fl_timer := True\<rparr>) s2 else s2) (evict_plain s1)
         else Some s)
      else if fl_layer (flight s i) = Active \<and> fl_state (flight s i) = In_Flight then
        Some (upd_flight i (\<lambda>e. e\<lparr>fl_state := Grace, fl_expires_at := Some (now + sf_grace s), fl_timer := True\<rparr>) s)
      else if fl_layer (flight s i) = Retired \<and> fl_state (flight s i) = In_Flight then
        Some (upd_flight i (\<lambda>e. e\<lparr>fl_state := Retained\<rparr>) s)
      else Some s)"

text \<open>The end of \<open>_lead\<close> on success: publish to the waiters, then convert.\<close>

definition lead_success ::
  "real \<Rightarrow> ('r \<Rightarrow> int) \<Rightarrow> nat \<Rightarrow> 'r \<Rightarrow> ('k, 'r, 'x) single_flight \<Rightarrow> ('k, 'r, 'x) single_flight option" where
  "lead_success now size_of i result s =
     convert_success now size_of i result
       (if fl_future (flight s i) = Pending then upd_flight i (\<lambda>e. e\<lparr>fl_future := Result result\<rparr>) s else s)"

fun reserve_loop :: "int \<Rightarrow> 'k list \<Rightarrow> ('k, 'r, 'x) single_flight \<Rightarrow> ('k, 'r, 'x) single_flight" where
  "reserve_loop needed [] s = s"
| "reserve_loop needed (key # keys) s =
     (if sf_leased_bytes s + needed \<le> sf_max_bytes s then s
      else case dict_get (sf_entries s) key of
             None \<Rightarrow> reserve_loop needed keys s
           | Some i \<Rightarrow>
               reserve_loop needed keys
                 (if fl_state (flight s i) = Grace \<and> fl_caller_refs (flight s i) = 0 then expire_grace i s else s))"

definition try_reserve :: "int \<Rightarrow> ('k, 'r, 'x) single_flight \<Rightarrow> bool \<times> ('k, 'r, 'x) single_flight" where
  "try_reserve needed s =
     (if needed > sf_max_bytes s then (False, s)
      else if sf_leased_bytes s + needed \<le> sf_max_bytes s then (True, s)
      else let s1 = reserve_loop needed (dict_keys (sf_entries s)) s
           in (sf_leased_bytes s1 + needed \<le> sf_max_bytes s1, s1))"

definition new_entry :: "'k \<Rightarrow> int \<Rightarrow> ('k, 'r, 'x) single_flight \<Rightarrow> nat \<times> ('k, 'r, 'x) single_flight" where
  "new_entry key reserve s =
     (length (sf_store s),
      s\<lparr>sf_seq := sf_seq s + 1,
        sf_store := sf_store s @ [(new_flight key (sf_seq s + 1) reserve)\<lparr>fl_accounted := True\<rparr>],
        sf_leased_bytes := sf_leased_bytes s + reserve\<rparr>)"

text \<open>What the serial point of a fetch decides.\<close>

datatype admission = Bypass | Lead nat | Join nat

definition add_ref :: "nat \<Rightarrow> ('k, 'r, 'x) single_flight \<Rightarrow> ('k, 'r, 'x) single_flight" where
  "add_ref i = upd_flight i (\<lambda>e. e\<lparr>fl_caller_refs := fl_caller_refs e + 1\<rparr>)"

definition fetch_or_bypass ::
  "real \<Rightarrow> 'k \<Rightarrow> int \<Rightarrow> ('k, 'r, 'x) single_flight \<Rightarrow> sf_error + admission \<times> ('k, 'r, 'x) single_flight" where
  "fetch_or_bypass now key reserve s0 =
     (if \<not> sf_leased s0 then Inl Runtime_Error
      else
        let s = expire_if_due now key s0
        in case dict_get (sf_entries s) key of
             None \<Rightarrow>
               (case try_reserve reserve s of
                  (False, s1) \<Rightarrow> Inr (Bypass, s1)
                | (True, s1) \<Rightarrow>
                    (case new_entry key reserve s1 of
                       (i, s2) \<Rightarrow> Inr (Lead i, add_ref i (s2\<lparr>sf_entries := dict_set key i (sf_entries s2)\<rparr>))))
           | Some i \<Rightarrow> Inr (Join i, add_ref i s))"

definition fetch ::
  "real \<Rightarrow> 'k \<Rightarrow> ('k, 'r, 'x) single_flight \<Rightarrow> sf_error + (admission \<times> ('k, 'r, 'x) single_flight) option" where
  "fetch now key s0 =
     (if sf_leased s0 then Inl Runtime_Error
      else
        let s = expire_if_due now key s0
        in Inr (case dict_get (sf_entries s) key of
             None \<Rightarrow>
               let i = length (sf_store s)
               in map_option (Pair (Lead i))
                    (evict_plain (s\<lparr>sf_store := sf_store s @ [new_flight key 0 0], sf_entries := dict_set key i (sf_entries s)\<rparr>))
           | Some i \<Rightarrow> Some (Join i, s)))"

text \<open>One turn of the loop of \<open>shutdown\<close> in the leased profile.\<close>

definition shutdown_key :: "'k \<times> nat \<Rightarrow> ('k, 'r, 'x) single_flight \<Rightarrow> ('k, 'r, 'x) single_flight" where
  "shutdown_key p s =
     (let i = snd p;
          s1 = (upd_flight i (\<lambda>e. e\<lparr>fl_timer := False, fl_layer := Retired\<rparr>) s)\<lparr>sf_entries := dict_pop (fst p) (sf_entries s)\<rparr>;
          s2 = retire i s1
      in if fl_state (flight s2 i) = Grace then
           let s3 = upd_flight i (\<lambda>e. e\<lparr>fl_state := Retained\<rparr>) s2
           in if fl_caller_refs (flight s3 i) = 0 then reap i s3 else s3
         else s2)"

definition shutdown :: "('k, 'r, 'x) single_flight \<Rightarrow> ('k, 'r, 'x) single_flight" where
  "shutdown s =
     (if \<not> sf_leased s then fold drop_key (dict_keys (sf_entries s)) s
      else fold shutdown_key (sf_entries s) s)"

end
