(* ===== verification/Single_Flight_Ledger.thy ===== *)
theory Single_Flight_Ledger
  imports Single_Flight "HOL-Library.Multiset"
begin

text \<open>
  The leased profile under every interleaving of its callers. A caller is parked in one of three
  places: as the leader in its factory, as a waiter on the shared future, or as the holder of a lease;
  the ghost multiset of callers says who is parked where. The invariant fixes the two-layer registry,
  the reference counts and the byte ledger in terms of the entries alone.
\<close>

section \<open>Callers and steps\<close>

datatype role = Leader | Waiter | Holder

type_synonym callers = "(nat \<times> role) multiset"

definition refs_of :: "callers \<Rightarrow> nat \<Rightarrow> nat" where
  "refs_of cs i = size (filter_mset (\<lambda>c. fst c = i) cs)"

definition admit :: "admission \<Rightarrow> callers \<Rightarrow> callers" where
  "admit a cs = (case a of Bypass \<Rightarrow> cs | Lead i \<Rightarrow> add_mset (i, Leader) cs | Join i \<Rightarrow> add_mset (i, Waiter) cs)"

text \<open>
  A waiter leaves when its future was cancelled or carries a failure, and at any moment when it is
  cancelled itself; a waiter that joins again does so by a later \<open>fetches\<close>. A timer may fire at any time.
\<close>

inductive lease_step ::
  "('k, 'r, 'x) single_flight \<times> callers \<Rightarrow> ('k, 'r, 'x) single_flight \<times> callers \<Rightarrow> bool" where
  fetches: "0 \<le> reserve \<Longrightarrow> fetch_or_bypass now key reserve s = Inr (a, s') \<Longrightarrow> lease_step (s, cs) (s', admit a cs)"
| succeeds: "(i, Leader) \<in># cs \<Longrightarrow> lead_success now size_of i r s = Some s' \<Longrightarrow>
    lease_step (s, cs) (s', add_mset (i, Holder) (cs - {#(i, Leader)#}))"
| fails: "(i, Leader) \<in># cs \<Longrightarrow> lease_step (s, cs) (fail_flight i exc s, cs - {#(i, Leader)#})"
| wakes: "(i, Waiter) \<in># cs \<Longrightarrow> fl_future (flight s i) = Result r \<Longrightarrow>
    lease_step (s, cs) (s, add_mset (i, Holder) (cs - {#(i, Waiter)#}))"
| leaves: "(i, Waiter) \<in># cs \<Longrightarrow> lease_step (s, cs) (release_caller i s, cs - {#(i, Waiter)#})"
| releases: "(i, Holder) \<in># cs \<Longrightarrow> lease_step (s, cs) (release_caller i s, cs - {#(i, Holder)#})"
| expires: "i < length (sf_store s) \<Longrightarrow> lease_step (s, cs) (expire_grace_entry now key i s, cs)"
| shuts: "lease_step (s, cs) (shutdown s, cs)"

inductive lease_reach ::
  "('k, 'r, 'x) single_flight \<Rightarrow> ('k, 'r, 'x) single_flight \<times> callers \<Rightarrow> bool" for s0 where
  start: "lease_reach s0 (s0, {#})"
| continue: "lease_reach s0 w \<Longrightarrow> lease_step w w' \<Longrightarrow> lease_reach s0 w'"

section \<open>The invariant\<close>

definition held :: "('k, 'r, 'x) flight \<Rightarrow> bool" where
  "held e \<longleftrightarrow> fl_layer e = Active \<or> fl_caller_refs e > 0 \<and> fl_state e \<noteq> Failed"

definition flight_ok :: "callers \<Rightarrow> nat \<Rightarrow> ('k, 'r, 'x) flight \<Rightarrow> bool" where
  "flight_ok cs i e \<longleftrightarrow>
     fl_caller_refs e = refs_of cs i
     \<and> count cs (i, Leader) = (if fl_state e = In_Flight then 1 else 0)
     \<and> (fl_future e = Pending \<longleftrightarrow> fl_state e = In_Flight)
     \<and> (fl_layer e = Active \<longrightarrow> fl_state e = In_Flight \<or> fl_state e = Grace)
     \<and> (fl_layer e = Retired \<longrightarrow> fl_state e \<noteq> Grace)
     \<and> (fl_accounted e \<longleftrightarrow> held e) \<and> 0 \<le> fl_reserve e \<and> fl_seq e = int i + 1"

definition reserved :: "('k, 'r, 'x) flight list \<Rightarrow> int" where
  "reserved es = sum_list (map (\<lambda>e. if fl_accounted e then fl_reserve e else 0) es)"

definition registry_ok :: "('k, 'r, 'x) single_flight \<Rightarrow> bool" where
  "registry_ok s \<longleftrightarrow> dict_wf (sf_entries s) \<and> dict_wf (sf_retired s)
     \<and> (\<forall>k i. dict_get (sf_entries s) k = Some i \<longleftrightarrow>
          i < length (sf_store s) \<and> fl_key (flight s i) = k \<and> fl_layer (flight s i) = Active)
     \<and> (\<forall>k q i. dict_get (sf_retired s) (k, q) = Some i \<longleftrightarrow>
          i < length (sf_store s) \<and> fl_key (flight s i) = k \<and> fl_seq (flight s i) = q
          \<and> fl_layer (flight s i) = Retired \<and> fl_caller_refs (flight s i) > 0)"

definition ledger_inv :: "('k, 'r, 'x) single_flight \<times> callers \<Rightarrow> bool" where
  "ledger_inv w \<longleftrightarrow> (case w of (s, cs) \<Rightarrow>
     sf_leased s \<and> sf_seq s = int (length (sf_store s)) \<and> registry_ok s
     \<and> (\<forall>i < length (sf_store s). flight_ok cs i (flight s i))
     \<and> (\<forall>c \<in># cs. fst c < length (sf_store s))
     \<and> sf_leased_bytes s = reserved (sf_store s) \<and> sf_leased_bytes s \<le> sf_max_bytes s)"

section \<open>Changing one entry\<close>

lemma reserved_update:
  assumes "i < length es"
  shows "reserved (es[i := e']) = reserved es - (if fl_accounted (es ! i) then fl_reserve (es ! i) else 0)
    + (if fl_accounted e' then fl_reserve e' else 0)"
proof -
  have "es = take i es @ es ! i # drop (Suc i) es" using assms by (simp add: id_take_nth_drop)
  then have "reserved es = reserved (take i es) + (if fl_accounted (es ! i) then fl_reserve (es ! i) else 0) + reserved (drop (Suc i) es)"
    by (metis (no_types, lifting) add.assoc list.simps(9) map_append reserved_def sum_list.Cons sum_list_append)
  moreover have "reserved (es[i := e']) = reserved (take i es) + (if fl_accounted e' then fl_reserve e' else 0) + reserved (drop (Suc i) es)"
    using assms by (simp add: upd_conv_take_nth_drop reserved_def)
  ultimately show ?thesis by simp
qed

lemma refs_of_simps [simp]:
  "refs_of (add_mset (j, r) cs) i = (if j = i then Suc (refs_of cs i) else refs_of cs i)"
  "refs_of {#} i = 0"
  by (simp_all add: refs_of_def)

lemma refs_of_remove: "(j, r) \<in># cs \<Longrightarrow> refs_of (cs - {#(j, r)#}) i = (if j = i then refs_of cs i - 1 else refs_of cs i)"
  by (auto simp: refs_of_def dest!: multi_member_split)

lemma refs_of_pos: "(j, r) \<in># cs \<Longrightarrow> refs_of cs j > 0"
  by (auto simp: refs_of_def dest!: multi_member_split)

lemma refs_two:
  assumes "(i, r) \<in># cs" and "r \<noteq> Leader" and "count cs (i, Leader) = 1"
  shows "refs_of cs i \<ge> 2"
proof -
  obtain ds where ds: "cs = add_mset (i, r) ds" using assms(1) by (auto dest!: multi_member_split)
  then have "(i, Leader) \<in># ds" using assms(2,3) by (auto simp flip: count_greater_zero_iff)
  from refs_of_pos[OF this] ds show ?thesis by simp
qed

text \<open>
  The frame rule: an operation that changes entry \<open>i\<close> to \<open>e'\<close>, its registration to match, and the
  counter by the difference keeps the invariant if \<open>e'\<close> is in order.
\<close>

lemma ledger_change:
  assumes inv: "ledger_inv (s, cs)" and i: "i < length (sf_store s)"
    and store: "sf_store s' = (sf_store s)[i := e']"
    and keep: "fl_key e' = fl_key (flight s i)" "fl_seq e' = fl_seq (flight s i)" "fl_reserve e' = fl_reserve (flight s i)"
    and conf: "sf_leased s' = sf_leased s" "sf_seq s' = sf_seq s" "sf_max_bytes s' = sf_max_bytes s"
    and wf: "dict_wf (sf_entries s')" "dict_wf (sf_retired s')"
    and ent: "\<And>k. dict_get (sf_entries s') k =
        (if k = fl_key e' then (if fl_layer e' = Active then Some i else if fl_layer (flight s i) = Active then None else dict_get (sf_entries s) k)
         else dict_get (sf_entries s) k)"
    and act: "fl_layer e' = Active \<Longrightarrow> fl_layer (flight s i) = Active"
    and ret: "\<And>p. dict_get (sf_retired s') p =
        (if p = (fl_key e', fl_seq e') then (if fl_layer e' = Retired \<and> fl_caller_refs e' > 0 then Some i else None)
         else dict_get (sf_retired s) p)"
    and bytes: "sf_leased_bytes s' = sf_leased_bytes s - (if fl_accounted (flight s i) then fl_reserve (flight s i) else 0)
        + (if fl_accounted e' then fl_reserve e' else 0)" "sf_leased_bytes s' \<le> sf_max_bytes s"
    and others: "\<And>j. j \<noteq> i \<Longrightarrow> refs_of cs' j = refs_of cs j \<and> count cs' (j, Leader) = count cs (j, Leader)"
    and this_ok: "flight_ok cs' i e'" and dom: "\<forall>c \<in># cs'. fst c < length (sf_store s)"
  shows "ledger_inv (s', cs')"
proof -
  have reg: "registry_ok s" and ok: "\<And>j. j < length (sf_store s) \<Longrightarrow> flight_ok cs j (flight s j)"
    using inv by (auto simp: ledger_inv_def)
  have fl: "flight s' j = (if j = i then e' else flight s j)" if "j < length (sf_store s)" for j
    using that i by (simp add: store nth_list_update)
  have seq: "fl_seq (flight s j) = int j + 1" if "j < length (sf_store s)" for j using ok[OF that] by (simp add: flight_ok_def)
  have E: "dict_get (sf_entries s) k = Some j \<longleftrightarrow>
      j < length (sf_store s) \<and> fl_key (flight s j) = k \<and> fl_layer (flight s j) = Active" for k j
    using reg by (simp add: registry_ok_def)
  have R: "dict_get (sf_retired s) (k, q) = Some j \<longleftrightarrow>
      j < length (sf_store s) \<and> fl_key (flight s j) = k \<and> fl_seq (flight s j) = q
      \<and> fl_layer (flight s j) = Retired \<and> fl_caller_refs (flight s j) > 0" for k q j
    using reg by (simp add: registry_ok_def)
  have E': "dict_get (sf_entries s') k = Some j \<longleftrightarrow>
      j < length (sf_store s) \<and> fl_key (flight s' j) = k \<and> fl_layer (flight s' j) = Active" for k j
  proof (cases "j = i")
    case True
    then show ?thesis
      using i ent[of k] keep(1) E[of k i] by (cases "fl_layer e'"; cases "fl_layer (flight s i)") (auto simp: fl)
  next
    case False
    have "fl_layer (flight s i) = Active \<Longrightarrow> dict_get (sf_entries s) (fl_key e') = Some i" using E i keep(1) by simp
    then show ?thesis using False ent[of k] act E[of k j] by (auto simp: fl)
  qed
  have R': "dict_get (sf_retired s') (k, q) = Some j \<longleftrightarrow>
      j < length (sf_store s) \<and> fl_key (flight s' j) = k \<and> fl_seq (flight s' j) = q
      \<and> fl_layer (flight s' j) = Retired \<and> fl_caller_refs (flight s' j) > 0" for k q j
  proof (cases "j = i")
    case True
    then show ?thesis using i ret[of "(k, q)"] keep(1,2) R[of k q i] by (auto simp: fl split: if_splits)
  next
    case False
    have "fl_seq (flight s j) \<noteq> fl_seq e'" if "j < length (sf_store s)" using seq[OF that] seq[OF i] keep(2) False by simp
    then show ?thesis using False ret[of "(k, q)"] R[of k q j] by (auto simp: fl split: if_splits)
  qed
  have "\<forall>j < length (sf_store s). flight_ok cs' j (flight s' j)"
    using ok this_ok others by (auto simp: fl flight_ok_def)
  moreover have "sf_leased_bytes s' = reserved (sf_store s')"
    using inv i bytes(1) by (simp add: store reserved_update ledger_inv_def)
  ultimately show ?thesis
    using inv conf wf E' R' bytes(2) dom by (simp add: ledger_inv_def registry_ok_def store)
qed

section \<open>The operations\<close>

lemma ledger_flight: "ledger_inv (s, cs) \<Longrightarrow> i < length (sf_store s) \<Longrightarrow> flight_ok cs i (flight s i)"
  by (simp add: ledger_inv_def)

lemma ledger_caller: "ledger_inv (s, cs) \<Longrightarrow> (i, r) \<in># cs \<Longrightarrow> i < length (sf_store s)"
  by (auto simp: ledger_inv_def)

lemma ledger_registered:
  "ledger_inv (s, cs) \<Longrightarrow> i < length (sf_store s) \<Longrightarrow> registered s (fl_key (flight s i)) i \<longleftrightarrow> fl_layer (flight s i) = Active"
  by (simp add: ledger_inv_def registry_ok_def registered_def)

lemma ledger_entries:
  "ledger_inv (s, cs) \<Longrightarrow> dict_get (sf_entries s) k = Some i \<longleftrightarrow>
     i < length (sf_store s) \<and> fl_key (flight s i) = k \<and> fl_layer (flight s i) = Active"
  by (simp add: ledger_inv_def registry_ok_def)

lemma ledger_retired:
  "ledger_inv (s, cs) \<Longrightarrow> i < length (sf_store s) \<Longrightarrow>
   dict_get (sf_retired s) (fl_key (flight s i), fl_seq (flight s i)) =
     (if fl_layer (flight s i) = Retired \<and> fl_caller_refs (flight s i) > 0 then Some i else None)"
proof -
  assume inv: "ledger_inv (s, cs)" and i: "i < length (sf_store s)"
  have "j = i" if "j < length (sf_store s)" "fl_seq (flight s j) = fl_seq (flight s i)" for j
    using ledger_flight[OF inv that(1)] ledger_flight[OF inv i] that(2) by (simp add: flight_ok_def)
  then have eq: "\<And>j. j < length (sf_store s) \<and> fl_seq (flight s j) = fl_seq (flight s i) \<Longrightarrow> j = i" by blast
  have iff: "dict_get (sf_retired s) (fl_key (flight s i), fl_seq (flight s i)) = Some j \<longleftrightarrow>
      j < length (sf_store s) \<and> fl_key (flight s j) = fl_key (flight s i) \<and> fl_seq (flight s j) = fl_seq (flight s i)
      \<and> fl_layer (flight s j) = Retired \<and> fl_caller_refs (flight s j) > 0" for j
    using inv by (simp add: ledger_inv_def registry_ok_def)
  show ?thesis
  proof (cases "dict_get (sf_retired s) (fl_key (flight s i), fl_seq (flight s i))")
    case None
    with iff[of i] i show ?thesis by simp
  next
    case (Some j)
    with iff[of j] eq[of j] show ?thesis by simp
  qed
qed

lemma ledger_wf: "ledger_inv (s, cs) \<Longrightarrow> dict_wf (sf_entries s)" "ledger_inv (s, cs) \<Longrightarrow> dict_wf (sf_retired s)"
  by (simp_all add: ledger_inv_def registry_ok_def)

lemma ledger_bound: "ledger_inv (s, cs) \<Longrightarrow> sf_leased_bytes s \<le> sf_max_bytes s"
  by (simp add: ledger_inv_def)

lemma ledger_dom: "ledger_inv (s, cs) \<Longrightarrow> c \<in># cs \<Longrightarrow> fst c < length (sf_store s)"
  by (simp add: ledger_inv_def)

lemma count_other_role: "r \<noteq> Leader \<Longrightarrow> count (cs - {#(i, r)#}) (j, Leader) = count cs (j, Leader)"
  by simp

lemmas sf_ops = upd_flight_def refund_def reap_def detach_from_active_def retire_def registered_def Let_def

lemma reap_eq:
  assumes "i < length (sf_store s)" and "\<not> registered s (fl_key (flight s i)) i"
  shows "reap i s = s\<lparr>sf_store := (sf_store s)[i := (flight s i)\<lparr>fl_accounted := False\<rparr>],
    sf_leased_bytes := sf_leased_bytes s - (if fl_accounted (flight s i) then fl_reserve (flight s i) else 0),
    sf_retired := dict_pop (fl_key (flight s i), fl_seq (flight s i)) (sf_retired s)\<rparr>"
proof (cases "fl_accounted (flight s i)")
  case False
  then have "(flight s i)\<lparr>fl_accounted := False\<rparr> = flight s i" by (cases "flight s i") simp
  then have "(sf_store s)[i := (flight s i)\<lparr>fl_accounted := False\<rparr>] = sf_store s" by simp
  with False assms show ?thesis by (simp add: sf_ops)
qed (use assms in \<open>simp add: sf_ops\<close>)

lemma reap_quiet:
  assumes "\<not> fl_accounted (flight s i)" and "\<not> registered s (fl_key (flight s i)) i"
  shows "reap i s = s\<lparr>sf_retired := dict_pop (fl_key (flight s i), fl_seq (flight s i)) (sf_retired s)\<rparr>"
  using assms by (simp add: sf_ops)

lemma release_caller_eq:
  assumes "sf_leased s" and "i < length (sf_store s)" and "fl_caller_refs (flight s i) > 0"
    and "fl_state (flight s i) = Retained \<or> fl_state (flight s i) = Failed \<longrightarrow> \<not> registered s (fl_key (flight s i)) i"
  shows "release_caller i s =
    (if fl_caller_refs (flight s i) = 1 \<and> (fl_state (flight s i) = Retained \<or> fl_state (flight s i) = Failed)
     then s\<lparr>sf_store := (sf_store s)[i := (flight s i)\<lparr>fl_caller_refs := 0, fl_accounted := False\<rparr>],
            sf_leased_bytes := sf_leased_bytes s - (if fl_accounted (flight s i) then fl_reserve (flight s i) else 0),
            sf_retired := dict_pop (fl_key (flight s i), fl_seq (flight s i)) (sf_retired s)\<rparr>
     else upd_flight i (\<lambda>e. e\<lparr>fl_caller_refs := fl_caller_refs e - 1\<rparr>) s)"
proof -
  let ?s1 = "upd_flight i (\<lambda>e. e\<lparr>fl_caller_refs := fl_caller_refs e - 1\<rparr>) s"
  have f: "flight ?s1 i = (flight s i)\<lparr>fl_caller_refs := fl_caller_refs (flight s i) - 1\<rparr>" "i < length (sf_store ?s1)"
    "registered ?s1 k j = registered s k j" for k j
    using assms(2) by (simp_all add: upd_flight_def registered_def)
  show ?thesis
  proof (cases "fl_caller_refs (flight s i) = 1 \<and> (fl_state (flight s i) = Retained \<or> fl_state (flight s i) = Failed)")
    case True
    then have "release_caller i s = reap i ?s1" using assms(1,3) f(1) by (auto simp: release_caller_def Let_def)
    then show ?thesis using True assms f by (simp add: reap_eq) (simp add: upd_flight_def)
  next
    case False
    then show ?thesis using assms(1,3) f(1) by (auto simp: release_caller_def Let_def)
  qed
qed

lemma ledger_release:
  assumes inv: "ledger_inv (s, cs)" and c: "(i, r) \<in># cs" "r \<noteq> Leader"
  shows "ledger_inv (release_caller i s, cs - {#(i, r)#})"
proof -
  have i: "i < length (sf_store s)" by (rule ledger_caller[OF inv c(1)])
  note ok = ledger_flight[OF inv i]
  have refs: "fl_caller_refs (flight s i) > 0" using ok refs_of_pos[OF c(1)] by (simp add: flight_ok_def)
  have reg: "fl_state (flight s i) = Retained \<or> fl_state (flight s i) = Failed \<longrightarrow> \<not> registered s (fl_key (flight s i)) i"
    using ledger_registered[OF inv i] ok by (auto simp: flight_ok_def)
  have leased: "sf_leased s" using inv by (simp add: ledger_inv_def)
  note eq = release_caller_eq[OF leased i refs reg]
  define e' where "e' = (flight s i)\<lparr>fl_caller_refs := fl_caller_refs (flight s i) - 1,
      fl_accounted := fl_accounted (flight s i) \<and> \<not> (fl_caller_refs (flight s i) = 1 \<and> (fl_state (flight s i) = Retained \<or> fl_state (flight s i) = Failed))\<rparr>"
  have two: "fl_state (flight s i) = In_Flight \<Longrightarrow> refs_of cs i \<ge> 2"
    using refs_two[OF c] ok by (simp add: flight_ok_def)
  have fo: "flight_ok (cs - {#(i, r)#}) i e'"
    using ok refs c two by (cases "fl_layer (flight s i)"; cases "fl_state (flight s i)")
      (auto simp: flight_ok_def e'_def held_def refs_of_remove)
  show ?thesis
  proof (rule ledger_change[OF inv i, of _ e'])
    show "sf_store (release_caller i s) = (sf_store s)[i := e']"
      unfolding eq by (auto simp: e'_def upd_flight_def)
    show "dict_wf (sf_entries (release_caller i s))" "dict_wf (sf_retired (release_caller i s))"
      unfolding eq using ledger_wf[OF inv] by (simp_all add: upd_flight_def)
    show "dict_get (sf_entries (release_caller i s)) k =
        (if k = fl_key e' then (if fl_layer e' = Active then Some i else if fl_layer (flight s i) = Active then None else dict_get (sf_entries s) k)
         else dict_get (sf_entries s) k)" for k
      unfolding eq using ledger_registered[OF inv i] by (auto simp: upd_flight_def e'_def registered_def)
    show "dict_get (sf_retired (release_caller i s)) p =
        (if p = (fl_key e', fl_seq e') then (if fl_layer e' = Retired \<and> fl_caller_refs e' > 0 then Some i else None)
         else dict_get (sf_retired s) p)" for p
      unfolding eq using ledger_retired[OF inv i] refs ok two
      by (cases "fl_layer (flight s i)"; cases "fl_state (flight s i)") (auto simp: upd_flight_def e'_def flight_ok_def)
    show "sf_leased_bytes (release_caller i s) = sf_leased_bytes s - (if fl_accounted (flight s i) then fl_reserve (flight s i) else 0)
        + (if fl_accounted e' then fl_reserve e' else 0)"
      unfolding eq by (auto simp: upd_flight_def e'_def)
    show "sf_leased_bytes (release_caller i s) \<le> sf_max_bytes s"
      unfolding eq using ledger_bound[OF inv] ok by (auto simp: upd_flight_def flight_ok_def)
    show "refs_of (cs - {#(i, r)#}) j = refs_of cs j \<and> count (cs - {#(i, r)#}) (j, Leader) = count cs (j, Leader)" if "j \<noteq> i" for j
      using that c by (simp add: refs_of_remove)
    show "flight_ok (cs - {#(i, r)#}) i e'" by (rule fo)
    show "\<forall>c \<in># cs - {#(i, r)#}. fst c < length (sf_store s)" using ledger_dom[OF inv] in_diffD by metis
  qed (unfold eq, simp_all add: e'_def upd_flight_def)
qed

lemma fail_flight_eq:
  assumes "sf_leased s" and "i < length (sf_store s)" and "fl_caller_refs (flight s i) > 0"
    and "fl_state (flight s i) = In_Flight" and "fl_future (flight s i) = Pending" and "fl_accounted (flight s i)"
    and e: "e' = (flight s i)\<lparr>fl_caller_refs := fl_caller_refs (flight s i) - 1, fl_layer := Retired, fl_state := Failed,
      fl_accounted := False, fl_future := (case exc of None \<Rightarrow> Cancelled | Some x \<Rightarrow> Fetch_Failed x)\<rparr>"
  shows "fail_flight i exc s = s\<lparr>sf_store := (sf_store s)[i := e'],
    sf_entries := (if registered s (fl_key (flight s i)) i then dict_pop (fl_key (flight s i)) (sf_entries s) else sf_entries s),
    sf_leased_bytes := sf_leased_bytes s - fl_reserve (flight s i),
    sf_retired := (if fl_caller_refs e' = 0 then dict_pop (fl_key e', fl_seq e') else id) (dict_set (fl_key e', fl_seq e') i (sf_retired s))\<rparr>"
proof -
  define s1 where "s1 = (release_caller i s)\<lparr>sf_entries :=
    (if registered s (fl_key (flight s i)) i then dict_pop (fl_key (flight s i)) (sf_entries s) else sf_entries s)\<rparr>"
  have rel: "release_caller i s = upd_flight i (\<lambda>e. e\<lparr>fl_caller_refs := fl_caller_refs e - 1\<rparr>) s"
    using assms(1-4) by (subst release_caller_eq) simp_all
  have 1: "detach_from_active i (release_caller i s) = s1"
    using assms(2) unfolding rel s1_def by (simp add: upd_flight_def detach_from_active_def registered_def)
  define s3 where "s3 = s\<lparr>sf_store := (sf_store s)[i := e'],
    sf_entries := (if registered s (fl_key (flight s i)) i then dict_pop (fl_key (flight s i)) (sf_entries s) else sf_entries s),
    sf_retired := dict_set (fl_key e', fl_seq e') i (sf_retired s),
    sf_leased_bytes := sf_leased_bytes s - fl_reserve (flight s i)\<rparr>"
  have 3: "fail_future i exc (refund i (retire i (upd_flight i (\<lambda>e. e\<lparr>fl_layer := Retired, fl_state := Failed\<rparr>) s1))) = s3"
    using assms(2,5,6) unfolding s1_def s3_def rel e
    by (simp add: upd_flight_def retire_def refund_def fail_future_def)
  have "fl_caller_refs (flight s3 i) = fl_caller_refs e'" "fl_accounted e' = False" "flight s3 i = e'"
    "\<not> registered s3 (fl_key (flight s3 i)) i" "i < length (sf_store s3)"
    using assms(2) by (auto simp: s3_def e registered_def)
  then have 4: "(if fl_caller_refs (flight s3 i) = 0 then reap i s3 else s3) =
      s3\<lparr>sf_retired := (if fl_caller_refs e' = 0 then dict_pop (fl_key e', fl_seq e') else id) (sf_retired s3)\<rparr>"
    by (simp add: reap_quiet)
  have "fail_flight i exc s = (if fl_caller_refs (flight s3 i) = 0 then reap i s3 else s3)"
    unfolding fail_flight_def Let_def 1 3 using assms(1) by simp
  also note 4
  also have "s3\<lparr>sf_retired := X (sf_retired s3)\<rparr> = s\<lparr>sf_store := (sf_store s)[i := e'],
    sf_entries := (if registered s (fl_key (flight s i)) i then dict_pop (fl_key (flight s i)) (sf_entries s) else sf_entries s),
    sf_leased_bytes := sf_leased_bytes s - fl_reserve (flight s i),
    sf_retired := X (dict_set (fl_key e', fl_seq e') i (sf_retired s))\<rparr>" for X
    by (simp add: s3_def)
  finally show ?thesis .
qed

lemma ledger_fail:
  assumes inv: "ledger_inv (s, cs)" and c: "(i, Leader) \<in># cs"
  shows "ledger_inv (fail_flight i exc s, cs - {#(i, Leader)#})"
proof -
  have i: "i < length (sf_store s)" by (rule ledger_caller[OF inv c])
  note ok = ledger_flight[OF inv i]
  have st: "fl_state (flight s i) = In_Flight" using ok c by (auto simp: flight_ok_def count_eq_zero_iff split: if_splits)
  have refs: "fl_caller_refs (flight s i) > 0" using ok refs_of_pos[OF c] by (simp add: flight_ok_def)
  have pend: "fl_future (flight s i) = Pending" "fl_accounted (flight s i)"
    using ok st refs by (auto simp: flight_ok_def held_def)
  define e' where "e' = (flight s i)\<lparr>fl_caller_refs := fl_caller_refs (flight s i) - 1, fl_layer := Retired, fl_state := Failed,
      fl_accounted := False, fl_future := (case exc of None \<Rightarrow> Cancelled | Some x \<Rightarrow> Fetch_Failed x)\<rparr>"
  have leased: "sf_leased s" using inv by (simp add: ledger_inv_def)
  note eq = fail_flight_eq[OF leased i refs st pend e'_def]
  have fo: "flight_ok (cs - {#(i, Leader)#}) i e'"
    using ok st refs c by (auto simp: flight_ok_def e'_def held_def refs_of_remove split: option.split)
  show ?thesis
  proof (rule ledger_change[OF inv i, of _ e'])
    show "dict_wf (sf_entries (fail_flight i exc s))" "dict_wf (sf_retired (fail_flight i exc s))"
      unfolding eq using ledger_wf[OF inv] by simp_all
    show "dict_get (sf_entries (fail_flight i exc s)) k =
        (if k = fl_key e' then (if fl_layer e' = Active then Some i else if fl_layer (flight s i) = Active then None else dict_get (sf_entries s) k)
         else dict_get (sf_entries s) k)" for k
      unfolding eq using ledger_registered[OF inv i] by (auto simp: e'_def)
    show "dict_get (sf_retired (fail_flight i exc s)) p =
        (if p = (fl_key e', fl_seq e') then (if fl_layer e' = Retired \<and> fl_caller_refs e' > 0 then Some i else None)
         else dict_get (sf_retired s) p)" for p
      unfolding eq by (auto simp: e'_def)
    show "sf_leased_bytes (fail_flight i exc s) \<le> sf_max_bytes s"
      unfolding eq using ledger_bound[OF inv] ok by (auto simp: flight_ok_def)
    show "refs_of (cs - {#(i, Leader)#}) j = refs_of cs j \<and> count (cs - {#(i, Leader)#}) (j, Leader) = count cs (j, Leader)" if "j \<noteq> i" for j
      using that c by (simp add: refs_of_remove)
    show "flight_ok (cs - {#(i, Leader)#}) i e'" by (rule fo)
    show "\<forall>c \<in># cs - {#(i, Leader)#}. fst c < length (sf_store s)" using ledger_dom[OF inv] in_diffD by metis
  qed (unfold eq, simp_all add: e'_def pend)
qed

text \<open>A change of entry \<open>i\<close> that leaves its registration, its references and its reserve alone.\<close>

lemma ledger_upd_quiet:
  assumes inv: "ledger_inv (s, cs)" and i: "i < length (sf_store s)"
    and keep: "fl_key (f (flight s i)) = fl_key (flight s i)" "fl_seq (f (flight s i)) = fl_seq (flight s i)"
      "fl_reserve (f (flight s i)) = fl_reserve (flight s i)" "fl_layer (f (flight s i)) = fl_layer (flight s i)"
      "fl_caller_refs (f (flight s i)) = fl_caller_refs (flight s i)" "fl_accounted (f (flight s i)) = fl_accounted (flight s i)"
    and others: "\<And>j. refs_of cs' j = refs_of cs j" "\<And>j. j \<noteq> i \<Longrightarrow> count cs' (j, Leader) = count cs (j, Leader)"
    and ok: "flight_ok cs' i (f (flight s i))" and dom: "\<forall>c \<in># cs'. fst c < length (sf_store s)"
  shows "ledger_inv (upd_flight i f s, cs')"
proof (rule ledger_change[OF inv i, of _ "f (flight s i)"])
  show "dict_wf (sf_entries (upd_flight i f s))" "dict_wf (sf_retired (upd_flight i f s))"
    using ledger_wf[OF inv] by (simp_all add: upd_flight_def)
  show "dict_get (sf_entries (upd_flight i f s)) k =
      (if k = fl_key (f (flight s i)) then (if fl_layer (f (flight s i)) = Active then Some i
         else if fl_layer (flight s i) = Active then None else dict_get (sf_entries s) k) else dict_get (sf_entries s) k)" for k
    using ledger_registered[OF inv i] keep by (auto simp: upd_flight_def registered_def)
  show "dict_get (sf_retired (upd_flight i f s)) p =
      (if p = (fl_key (f (flight s i)), fl_seq (f (flight s i)))
       then (if fl_layer (f (flight s i)) = Retired \<and> fl_caller_refs (f (flight s i)) > 0 then Some i else None)
       else dict_get (sf_retired s) p)" for p
    using ledger_retired[OF inv i] keep by (simp add: upd_flight_def)
qed (use keep others ok dom ledger_bound[OF inv] in \<open>simp_all add: upd_flight_def\<close>)

lemma ledger_success:
  assumes inv: "ledger_inv (s, cs)" and c: "(i, Leader) \<in># cs" and r: "lead_success now size_of i result s = Some s'"
  shows "ledger_inv (s', add_mset (i, Holder) (cs - {#(i, Leader)#}))"
proof -
  have i: "i < length (sf_store s)" by (rule ledger_caller[OF inv c])
  note ok = ledger_flight[OF inv i]
  have st: "fl_state (flight s i) = In_Flight" using ok c by (auto simp: flight_ok_def count_eq_zero_iff split: if_splits)
  have refs: "refs_of cs i > 0" by (rule refs_of_pos[OF c])
  have leased: "sf_leased s" using inv by (simp add: ledger_inv_def)
  define f where "f = (\<lambda>e::('a, 'b, 'c) flight. if fl_layer e = Active
      then e\<lparr>fl_future := Result result, fl_state := Grace, fl_expires_at := Some (now + sf_grace s), fl_timer := True\<rparr>
      else e\<lparr>fl_future := Result result, fl_state := Retained\<rparr>)"
  have "s' = upd_flight i f s"
    using r i st ok leased
    by (cases "fl_layer (flight s i)") (auto simp: lead_success_def convert_success_def upd_flight_def f_def flight_ok_def)
  moreover have "ledger_inv (upd_flight i f s, add_mset (i, Holder) (cs - {#(i, Leader)#}))"
  proof (rule ledger_upd_quiet[OF inv i])
    show "flight_ok (add_mset (i, Holder) (cs - {#(i, Leader)#})) i (f (flight s i))"
      using ok st refs c by (cases "fl_layer (flight s i)") (auto simp: flight_ok_def f_def held_def refs_of_remove)
    show "\<forall>c \<in># add_mset (i, Holder) (cs - {#(i, Leader)#}). fst c < length (sf_store s)"
      using i ledger_dom[OF inv] by (auto dest: in_diffD)
    show "refs_of (add_mset (i, Holder) (cs - {#(i, Leader)#})) j = refs_of cs j" for j
      using c refs by (auto simp: refs_of_remove)
  qed (simp_all add: f_def)
  ultimately show ?thesis by simp
qed

lemma ledger_wake:
  assumes inv: "ledger_inv (s, cs)" and c: "(i, Waiter) \<in># cs"
  shows "ledger_inv (s, add_mset (i, Holder) (cs - {#(i, Waiter)#}))"
proof -
  have i: "i < length (sf_store s)" by (rule ledger_caller[OF inv c])
  have "upd_flight i id s = s" by (simp add: upd_flight_def)
  moreover have refs: "refs_of (add_mset (i, Holder) (cs - {#(i, Waiter)#})) j = refs_of cs j" for j
    using c refs_of_pos[OF c] by (auto simp: refs_of_remove)
  moreover have "flight_ok (add_mset (i, Holder) (cs - {#(i, Waiter)#})) i (flight s i)"
  proof -
    have "count (add_mset (i, Holder) (cs - {#(i, Waiter)#})) (i, Leader) = count cs (i, Leader)" by simp
    then show ?thesis using ledger_flight[OF inv i] unfolding flight_ok_def refs by argo
  qed
  moreover have "\<forall>c \<in># add_mset (i, Holder) (cs - {#(i, Waiter)#}). fst c < length (sf_store s)"
    using i ledger_dom[OF inv] by (auto dest: in_diffD)
  ultimately show ?thesis using ledger_upd_quiet[OF inv i, of id] by simp
qed

text \<open>Leaving the active layer, as grace expiry and shutdown do it.\<close>

definition retired_flight :: "('k, 'r, 'x) flight \<Rightarrow> ('k, 'r, 'x) flight" where
  "retired_flight e = e\<lparr>fl_timer := False, fl_layer := Retired,
     fl_state := (if fl_state e = Grace then Retained else fl_state e), fl_accounted := fl_accounted e \<and> fl_caller_refs e > 0\<rparr>"

definition to_retired :: "nat \<Rightarrow> ('k, 'r, 'x) single_flight \<Rightarrow> ('k, 'r, 'x) single_flight" where
  "to_retired i s =
     (let e = flight s i; p = (fl_key e, fl_seq e)
      in s\<lparr>sf_store := (sf_store s)[i := retired_flight e], sf_entries := dict_pop (fl_key e) (sf_entries s),
           sf_leased_bytes := sf_leased_bytes s - (if fl_accounted e \<and> fl_caller_refs e = 0 then fl_reserve e else 0),
           sf_retired := (if fl_caller_refs e = 0 then dict_pop p else id) (dict_set p i (sf_retired s))\<rparr>)"

lemma ledger_to_retired:
  assumes inv: "ledger_inv (s, cs)" and i: "i < length (sf_store s)" and act: "fl_layer (flight s i) = Active"
  shows "ledger_inv (to_retired i s, cs)"
proof -
  note ok = ledger_flight[OF inv i]
  have pos: "fl_state (flight s i) = In_Flight \<Longrightarrow> fl_caller_refs (flight s i) > 0"
    using ok by (auto simp: flight_ok_def intro: refs_of_pos[of i Leader] simp flip: count_greater_zero_iff)
  have fo: "flight_ok cs i (retired_flight (flight s i))"
    using ok act pos by (auto simp: flight_ok_def retired_flight_def held_def)
  show ?thesis
  proof (rule ledger_change[OF inv i, of _ "retired_flight (flight s i)"])
    show "dict_wf (sf_entries (to_retired i s))" "dict_wf (sf_retired (to_retired i s))"
      using ledger_wf[OF inv] by (simp_all add: to_retired_def Let_def)
    show "flight_ok cs i (retired_flight (flight s i))" by (rule fo)
    show "sf_leased_bytes (to_retired i s) \<le> sf_max_bytes s"
      using ledger_bound[OF inv] ok by (auto simp: to_retired_def Let_def flight_ok_def)
    show "\<forall>c \<in># cs. fst c < length (sf_store s)" using ledger_dom[OF inv] by blast
  qed (use act in \<open>auto simp: to_retired_def Let_def retired_flight_def\<close>)
qed

lemma retired_flight_grace:
  "fl_state e = Grace \<Longrightarrow> fl_accounted e \<Longrightarrow> fl_caller_refs e > 0 \<Longrightarrow>
   retired_flight e = e\<lparr>fl_timer := False, fl_layer := Retired, fl_state := Retained\<rparr>"
  by (intro flight.equality) (simp_all add: retired_flight_def)

lemma retired_flight_flying:
  "fl_state e = In_Flight \<Longrightarrow> fl_accounted e \<Longrightarrow> fl_caller_refs e > 0 \<Longrightarrow>
   retired_flight e = e\<lparr>fl_timer := False, fl_layer := Retired\<rparr>"
  by (intro flight.equality) (simp_all add: retired_flight_def)

lemma expire_grace_eq:
  assumes inv: "ledger_inv (s, cs)" and i: "i < length (sf_store s)"
    and g: "fl_state (flight s i) = Grace" "fl_layer (flight s i) = Active"
  shows "expire_grace i s = to_retired i s"
proof -
  have acc: "fl_accounted (flight s i)" using ledger_flight[OF inv i] g by (simp add: flight_ok_def held_def)
  have reg: "registered s (fl_key (flight s i)) i" using ledger_registered[OF inv i] g by simp
  define e' where "e' = (flight s i)\<lparr>fl_timer := False, fl_layer := Retired, fl_state := Retained\<rparr>"
  define s2 where "s2 = s\<lparr>sf_store := (sf_store s)[i := e'], sf_entries := dict_pop (fl_key e') (sf_entries s),
      sf_retired := dict_set (fl_key e', fl_seq e') i (sf_retired s)\<rparr>"
  have 2: "retire i (upd_flight i (\<lambda>e. e\<lparr>fl_layer := Retired, fl_state := Retained\<rparr>)
      (detach_from_active i (upd_flight i (\<lambda>e. e\<lparr>fl_timer := False\<rparr>) s))) = s2"
    using i reg by (simp add: s2_def e'_def upd_flight_def detach_from_active_def retire_def registered_def)
  have f: "flight s2 i = e'" "i < length (sf_store s2)" "\<not> registered s2 (fl_key (flight s2 i)) i"
    using i by (simp_all add: s2_def registered_def)
  have "expire_grace i s = (if fl_caller_refs (flight s2 i) = 0 then reap i s2 else s2)"
    using g unfolding expire_grace_def drop_grace_def Let_def 2 by simp
  also have "\<dots> = to_retired i s"
  proof (cases "fl_caller_refs (flight s i) = 0")
    case True
    then have "reap i s2 = to_retired i s"
      unfolding reap_eq[OF f(2,3)] using f(1) acc g i
      by (intro single_flight.equality) (simp_all add: s2_def e'_def to_retired_def retired_flight_def Let_def)
    with True f(1) show ?thesis by (simp add: e'_def)
  next
    case False
    then have "s2 = to_retired i s" using acc g
      by (intro single_flight.equality) (simp_all add: s2_def e'_def to_retired_def retired_flight_grace Let_def)
    with False f(1) show ?thesis by (simp add: e'_def)
  qed
  finally show ?thesis .
qed

lemma shutdown_key_eq:
  assumes inv: "ledger_inv (s, cs)" and p: "(key, i) \<in> set (sf_entries s)"
  shows "shutdown_key (key, i) s = to_retired i s"
proof -
  have "dict_get (sf_entries s) key = Some i" using dict_in_set_get[OF ledger_wf(1)[OF inv] p] .
  then have i: "i < length (sf_store s)" and k: "fl_key (flight s i) = key" and act: "fl_layer (flight s i) = Active"
    using ledger_entries[OF inv] by auto
  note ok = ledger_flight[OF inv i]
  have acc: "fl_accounted (flight s i)" and st: "fl_state (flight s i) = In_Flight \<or> fl_state (flight s i) = Grace"
    using ok act by (auto simp: flight_ok_def held_def)
  have pos: "fl_state (flight s i) = In_Flight \<Longrightarrow> fl_caller_refs (flight s i) > 0"
    using ok by (auto simp: flight_ok_def intro: refs_of_pos[of i Leader] simp flip: count_greater_zero_iff)
  define s2 where "s2 = retire i ((upd_flight i (\<lambda>e. e\<lparr>fl_timer := False, fl_layer := Retired\<rparr>) s)\<lparr>sf_entries := dict_pop key (sf_entries s)\<rparr>)"
  have f: "flight s2 i = (flight s i)\<lparr>fl_timer := False, fl_layer := Retired\<rparr>" "i < length (sf_store s2)"
    using i by (simp_all add: s2_def retire_def upd_flight_def)
  show ?thesis
  proof (cases "fl_state (flight s i) = Grace")
    case False
    then have "shutdown_key (key, i) s = s2" using f by (simp add: shutdown_key_def Let_def s2_def[symmetric])
    also have "s2 = to_retired i s"
      using False st pos acc i k
      by (intro single_flight.equality) (auto simp: s2_def retire_def upd_flight_def to_retired_def retired_flight_flying Let_def)
    finally show ?thesis .
  next
    case True
    let ?s3 = "upd_flight i (\<lambda>e. e\<lparr>fl_state := Retained\<rparr>) s2"
    have "shutdown_key (key, i) s = (if fl_caller_refs (flight ?s3 i) = 0 then reap i ?s3 else ?s3)"
      using True f by (simp add: shutdown_key_def Let_def s2_def[symmetric])
    also have "\<dots> = to_retired i s"
    proof (cases "fl_caller_refs (flight s i) = 0")
      case refs: True
      have n: "\<not> registered ?s3 (fl_key (flight ?s3 i)) i" and l: "i < length (sf_store ?s3)"
        using f i k by (simp_all add: upd_flight_def registered_def) (simp add: s2_def retire_def upd_flight_def)
      have "reap i ?s3 = to_retired i s"
        unfolding reap_eq[OF l n] using refs True acc i k
        by (intro single_flight.equality) (simp_all add: s2_def retire_def upd_flight_def to_retired_def retired_flight_def Let_def)
      moreover have "fl_caller_refs (flight ?s3 i) = 0" using f refs by (simp add: upd_flight_def)
      ultimately show ?thesis by simp
    next
      case False
      have "?s3 = to_retired i s"
        using False True acc i k
        by (intro single_flight.equality) (simp_all add: s2_def retire_def upd_flight_def to_retired_def retired_flight_grace Let_def)
      moreover have "fl_caller_refs (flight ?s3 i) \<noteq> 0" using f False by (simp add: upd_flight_def)
      ultimately show ?thesis by simp
    qed
    finally show ?thesis .
  qed
qed

lemma ledger_expire_grace:
  assumes inv: "ledger_inv (s, cs)" and i: "i < length (sf_store s)"
  shows "ledger_inv (expire_grace i s, cs)"
proof (cases "fl_state (flight s i) = Grace \<and> fl_layer (flight s i) = Active")
  case True
  then show ?thesis using expire_grace_eq[OF inv i] ledger_to_retired[OF inv i] by simp
next
  case False
  then show ?thesis using inv by (auto simp: expire_grace_def)
qed

lemma ledger_leased: "ledger_inv (s, cs) \<Longrightarrow> sf_leased s"
  by (simp add: ledger_inv_def)

lemma ledger_expire_entry:
  assumes inv: "ledger_inv (s, cs)" and i: "i < length (sf_store s)"
  shows "ledger_inv (expire_grace_entry now key i s, cs)"
  using inv ledger_expire_grace[OF inv i] ledger_leased[OF inv] by (simp add: expire_grace_entry_def)

lemma ledger_expire_due:
  assumes inv: "ledger_inv (s, cs)"
  shows "ledger_inv (expire_if_due now key s, cs)"
proof (cases "dict_get (sf_entries s) key")
  case None
  then show ?thesis using inv by (simp add: expire_if_due_def)
next
  case (Some i)
  then have "i < length (sf_store s)" using ledger_entries[OF inv] by simp
  from ledger_expire_entry[OF inv this] inv Some show ?thesis
    by (simp add: expire_if_due_def split: option.split)
qed

lemma ledger_reserve_loop: "ledger_inv (s, cs) \<Longrightarrow> ledger_inv (reserve_loop needed keys s, cs)"
proof (induction needed keys s rule: reserve_loop.induct)
  case (2 needed key keys s)
  show ?case
  proof (cases "sf_leased_bytes s + needed \<le> sf_max_bytes s")
    case True
    with 2(3) show ?thesis by simp
  next
    case False
    show ?thesis
    proof (cases "dict_get (sf_entries s) key")
      case None
      with False 2(1)[OF False None 2(3)] show ?thesis by simp
    next
      case (Some i)
      then have "i < length (sf_store s)" using ledger_entries[OF 2(3)] by simp
      then have "ledger_inv (if fl_state (flight s i) = Grace \<and> fl_caller_refs (flight s i) = 0 then expire_grace i s else s, cs)"
        using ledger_expire_grace[OF 2(3)] 2(3) by simp
      from 2(2)[OF False Some this] Some False show ?thesis by simp
    qed
  qed
qed simp

lemma reserve_loop_conf: "sf_max_bytes (reserve_loop needed keys s) = sf_max_bytes s"
proof (induction needed keys s rule: reserve_loop.induct)
  case (2 needed key keys s)
  have "sf_max_bytes (expire_grace i s) = sf_max_bytes s" for i
    by (simp add: expire_grace_def drop_grace_def sf_ops)
  then show ?case using 2 by (auto split: option.split)
qed simp

lemma reserve_loop_absent:
  "dict_get (sf_entries s) k = None \<Longrightarrow> ledger_inv (s, cs) \<Longrightarrow> dict_get (sf_entries (reserve_loop needed keys s)) k = None"
proof (induction needed keys s rule: reserve_loop.induct)
  case (2 needed key keys s)
  show ?case
  proof (cases "sf_leased_bytes s + needed \<le> sf_max_bytes s")
    case True
    with 2 show ?thesis by simp
  next
    case False
    show ?thesis
    proof (cases "dict_get (sf_entries s) key")
      case None
      with False 2(1)[OF False None 2(3,4)] show ?thesis by simp
    next
      case (Some i)
      then have i: "i < length (sf_store s)" using ledger_entries[OF 2(4)] by simp
      let ?s = "if fl_state (flight s i) = Grace \<and> fl_caller_refs (flight s i) = 0 then expire_grace i s else s"
      have inv: "ledger_inv (?s, cs)" using ledger_expire_grace[OF 2(4) i] 2(4) by simp
      have "dict_get (sf_entries ?s) k = None"
        using 2(3) expire_grace_eq[OF 2(4) i] by (auto simp: to_retired_def Let_def expire_grace_def)
      from 2(2)[OF False Some this inv] Some False show ?thesis by simp
    qed
  qed
qed simp

lemma try_reserve_result:
  assumes "ledger_inv (s, cs)" and "try_reserve needed s = (b, s')"
  shows "ledger_inv (s', cs)" and "b \<Longrightarrow> sf_leased_bytes s' + needed \<le> sf_max_bytes s'"
    and "dict_get (sf_entries s) k = None \<Longrightarrow> dict_get (sf_entries s') k = None"
  using assms ledger_reserve_loop[OF assms(1)] reserve_loop_absent[OF _ assms(1)]
  by (auto simp: try_reserve_def Let_def split: if_splits)

lemma ledger_join:
  assumes inv: "ledger_inv (s, cs)" and i: "dict_get (sf_entries s) key = Some i"
  shows "ledger_inv (add_ref i s, add_mset (i, Waiter) cs)"
proof -
  have l: "i < length (sf_store s)" and act: "fl_layer (flight s i) = Active" using ledger_entries[OF inv] i by auto
  note ok = ledger_flight[OF inv l]
  let ?e = "(flight s i)\<lparr>fl_caller_refs := fl_caller_refs (flight s i) + 1\<rparr>"
  show ?thesis
  proof (rule ledger_change[OF inv l, of _ ?e])
    show "dict_get (sf_entries (add_ref i s)) k =
        (if k = fl_key ?e then (if fl_layer ?e = Active then Some i else if fl_layer (flight s i) = Active then None else dict_get (sf_entries s) k)
         else dict_get (sf_entries s) k)" for k
      using act ledger_registered[OF inv l] by (simp add: add_ref_def upd_flight_def registered_def)
    show "dict_get (sf_retired (add_ref i s)) p =
        (if p = (fl_key ?e, fl_seq ?e) then (if fl_layer ?e = Retired \<and> fl_caller_refs ?e > 0 then Some i else None)
         else dict_get (sf_retired s) p)" for p
      using act ledger_retired[OF inv l] by (simp add: add_ref_def upd_flight_def)
    show "flight_ok (add_mset (i, Waiter) cs) i ?e" using ok act by (auto simp: flight_ok_def held_def)
    show "\<forall>c \<in># add_mset (i, Waiter) cs. fst c < length (sf_store s)" using ledger_dom[OF inv] l by auto
  qed (use ledger_wf[OF inv] ledger_bound[OF inv] in \<open>simp_all add: add_ref_def upd_flight_def\<close>)
qed

lemma refs_of_absent: "\<forall>c \<in># cs. fst c < n \<Longrightarrow> refs_of cs n = 0 \<and> count cs (n, r) = 0"
  by (auto simp: refs_of_def count_eq_zero_iff)

lemma ledger_lead:
  assumes inv: "ledger_inv (s, cs)" and new: "dict_get (sf_entries s) key = None"
    and fit: "sf_leased_bytes s + reserve \<le> sf_max_bytes s" and pos: "0 \<le> reserve"
    and n: "new_entry key reserve s = (i, s2)"
  shows "ledger_inv (add_ref i (s2\<lparr>sf_entries := dict_set key i (sf_entries s2)\<rparr>), add_mset (i, Leader) cs)"
proof -
  define e where "e = (new_flight key (sf_seq s + 1) reserve :: ('a, 'b, 'c) flight)\<lparr>fl_accounted := True, fl_caller_refs := 1\<rparr>"
  have i: "i = length (sf_store s)" using n by (simp add: new_entry_def)
  have s': "add_ref i (s2\<lparr>sf_entries := dict_set key i (sf_entries s2)\<rparr>) =
      s\<lparr>sf_seq := sf_seq s + 1, sf_store := sf_store s @ [e], sf_leased_bytes := sf_leased_bytes s + reserve,
        sf_entries := dict_set key i (sf_entries s)\<rparr>" (is "_ = ?s'")
    using n by (intro single_flight.equality) (auto simp: new_entry_def add_ref_def upd_flight_def e_def new_flight_def)
  have fl: "flight ?s' j = (if j = i then e else flight s j)" if "j \<le> i" for j
    using that i by (auto simp: nth_append)
  have E: "dict_get (sf_entries s) k = Some j \<longleftrightarrow>
      j < i \<and> fl_key (flight s j) = k \<and> fl_layer (flight s j) = Active" for k j
    using ledger_entries[OF inv] i by simp
  have E': "dict_get (sf_entries ?s') k = Some j \<longleftrightarrow> j < Suc i \<and> fl_key (flight ?s' j) = k \<and> fl_layer (flight ?s' j) = Active" for k j
    using E[of k j] E[of key j] new fl[of j] by (cases "j = i") (auto simp: e_def new_flight_def less_Suc_eq_le)
  have R': "dict_get (sf_retired ?s') (k, q) = Some j \<longleftrightarrow> j < Suc i \<and> fl_key (flight ?s' j) = k \<and> fl_seq (flight ?s' j) = q
      \<and> fl_layer (flight ?s' j) = Retired \<and> fl_caller_refs (flight ?s' j) > 0" for k q j
  proof -
    have "dict_get (sf_retired s) (k, q) = Some j \<longleftrightarrow> j < i \<and> fl_key (flight s j) = k \<and> fl_seq (flight s j) = q
      \<and> fl_layer (flight s j) = Retired \<and> fl_caller_refs (flight s j) > 0"
      using inv i by (simp add: ledger_inv_def registry_ok_def)
    then show ?thesis using fl[of j] by (cases "j = i") (auto simp: e_def new_flight_def less_Suc_eq_le)
  qed
  have seq: "sf_seq s = int i" using inv i by (simp add: ledger_inv_def)
  have "\<forall>c \<in># cs. fst c < i" using ledger_dom[OF inv] i by simp
  from refs_of_absent[OF this] have old: "refs_of cs i = 0 \<and> count cs (i, Leader) = 0" .
  have "flight_ok (add_mset (i, Leader) cs) j (flight ?s' j)" if "j < Suc i" for j
  proof (cases "j = i")
    case True
    then show ?thesis using fl[of i] old pos seq by (simp add: flight_ok_def e_def new_flight_def held_def)
  next
    case False
    then show ?thesis using ledger_flight[OF inv, of j] that fl[of j] i by (auto simp: flight_ok_def)
  qed
  moreover have "reserved (sf_store ?s') = reserved (sf_store s) + reserve"
    by (simp add: reserved_def e_def new_flight_def)
  moreover have len: "length (sf_store ?s') = Suc i" using i by simp
  moreover have "registry_ok ?s'"
    unfolding registry_ok_def len using E' R' ledger_wf[OF inv] by simp
  moreover have "\<forall>c \<in># add_mset (i, Leader) cs. fst c < Suc i"
    using ledger_dom[OF inv] i by (auto intro: less_SucI)
  ultimately show ?thesis
    unfolding s' ledger_inv_def using inv seq fit by (simp add: ledger_inv_def)
qed

lemma ledger_fetch:
  assumes inv: "ledger_inv (s, cs)" and pos: "0 \<le> reserve" and f: "fetch_or_bypass now key reserve s = Inr (a, s')"
  shows "ledger_inv (s', admit a cs)"
proof -
  let ?s = "expire_if_due now key s"
  have inv1: "ledger_inv (?s, cs)" by (rule ledger_expire_due[OF inv])
  show ?thesis
  proof (cases "dict_get (sf_entries ?s) key")
    case (Some i)
    then have "a = Join i" "s' = add_ref i ?s"
      using f ledger_leased[OF inv] by (auto simp: fetch_or_bypass_def Let_def)
    then show ?thesis using ledger_join[OF inv1 Some] by (simp add: admit_def)
  next
    case None
    obtain b s1 where t: "try_reserve reserve ?s = (b, s1)" by (cases "try_reserve reserve ?s")
    note T = try_reserve_result[OF inv1 t]
    show ?thesis
    proof (cases b)
      case False
      then show ?thesis using f ledger_leased[OF inv] None t T(1) by (auto simp: fetch_or_bypass_def Let_def admit_def)
    next
      case True
      obtain i s2 where n: "new_entry key reserve s1 = (i, s2)" by (cases "new_entry key reserve s1")
      have "a = Lead i" "s' = add_ref i (s2\<lparr>sf_entries := dict_set key i (sf_entries s2)\<rparr>)"
        using f ledger_leased[OF inv] None t n True by (auto simp: fetch_or_bypass_def Let_def)
      then show ?thesis
        using ledger_lead[OF T(1) T(3)[OF None] T(2)[OF True] pos n] by (simp add: admit_def)
    qed
  qed
qed

lemma ledger_shutdown_fold:
  assumes "ledger_inv (s, cs)" and "dict_wf ps" and "set ps \<subseteq> set (sf_entries s)"
  shows "ledger_inv (fold shutdown_key ps s, cs) \<and> set (sf_entries (fold shutdown_key ps s)) = set (sf_entries s) - set ps"
  using assms
proof (induction ps arbitrary: s)
  case (Cons p ps)
  obtain key i where p: "p = (key, i)" by (cases p)
  have in_s: "(key, i) \<in> set (sf_entries s)" using Cons.prems p by auto
  have get: "dict_get (sf_entries s) key = Some i" using dict_in_set_get[OF ledger_wf(1)[OF Cons.prems(1)] in_s] .
  have i: "i < length (sf_store s)" "fl_key (flight s i) = key" "fl_layer (flight s i) = Active"
    using ledger_entries[OF Cons.prems(1)] get by auto
  have eq: "shutdown_key p s = to_retired i s" using shutdown_key_eq[OF Cons.prems(1) in_s] p by simp
  have inv: "ledger_inv (to_retired i s, cs)" by (rule ledger_to_retired[OF Cons.prems(1) i(1,3)])
  have "j = i" if "(key, j) \<in> set (sf_entries s)" for j
    using dict_in_set_get[OF ledger_wf(1)[OF Cons.prems(1)] that] get by simp
  then have ent: "set (sf_entries (to_retired i s)) = set (sf_entries s) - {(key, i)}"
    using i by (auto simp: to_retired_def Let_def dict_pop_def)
  have "p \<notin> set ps" using Cons.prems(2) p by (auto simp: dict_wf_def intro: rev_image_eqI)
  then have "set ps \<subseteq> set (sf_entries (to_retired i s))" using Cons.prems(3) ent p by auto
  moreover have "dict_wf ps" using Cons.prems(2) by (simp add: dict_wf_def)
  ultimately show ?case using Cons.IH[OF inv] ent eq p by auto
qed simp

lemma ledger_shutdown:
  assumes "ledger_inv (s, cs)"
  shows "ledger_inv (shutdown s, cs)" and "sf_entries (shutdown s) = []"
proof -
  have "shutdown s = fold shutdown_key (sf_entries s) s" using ledger_leased[OF assms] by (simp add: shutdown_def)
  then show "ledger_inv (shutdown s, cs)" "sf_entries (shutdown s) = []"
    using ledger_shutdown_fold[OF assms ledger_wf(1)[OF assms]] by auto
qed

lemma ledger_step: "lease_step w w' \<Longrightarrow> ledger_inv w \<Longrightarrow> ledger_inv w'"
proof (induction rule: lease_step.induct)
  case (fetches reserve now key s a s' cs)
  show ?case by (rule ledger_fetch[OF fetches(3,1,2)])
next
  case (succeeds i cs now size_of r s s')
  show ?case by (rule ledger_success[OF succeeds(3,1,2)])
next
  case (fails i cs s exc)
  show ?case by (rule ledger_fail[OF fails(2,1)])
next
  case (wakes i cs s r)
  show ?case by (rule ledger_wake[OF wakes(3,1)])
next
  case leaves
  then show ?case by (intro ledger_release) auto
next
  case releases
  then show ?case by (intro ledger_release) auto
next
  case (expires i s cs now key)
  show ?case by (rule ledger_expire_entry[OF expires(2,1)])
next
  case (shuts s cs)
  show ?case by (rule ledger_shutdown(1)[OF shuts])
qed

lemma ledger_start:
  assumes "0 \<le> max_bytes" and "new_single_flight (Some max_bytes) nc grace None None = Inr s"
  shows "ledger_inv (s, {#})"
  using assms by (auto simp: new_single_flight_def ledger_inv_def registry_ok_def reserved_def)

lemma ledger_reach: "lease_reach s0 w \<Longrightarrow> ledger_inv (s0, {#}) \<Longrightarrow> ledger_inv w"
  by (induction rule: lease_reach.induct) (auto intro: ledger_step)

end
