(* ===== verification/Single_Flight_Guarantees.thy ===== *)
theory Single_Flight_Guarantees
  imports Single_Flight_Ledger
begin

text \<open>
  What the callers of \<^verbatim>\<open>singleflight.py\<close> rely on: the byte ledger of the leased profile is exact and within
  its budget, nothing leaks once the callers are gone, an unresolved flight has exactly one leader, and the
  retention of the plain profile is bounded.
\<close>

section \<open>The budget never changes\<close>

lemma sf_max_bytes_ops [simp]:
  "sf_max_bytes (upd_flight i f s) = sf_max_bytes s"
  "sf_max_bytes (refund i s) = sf_max_bytes s"
  "sf_max_bytes (detach_from_active i s) = sf_max_bytes s"
  "sf_max_bytes (retire i s) = sf_max_bytes s"
  "sf_max_bytes (drop_key key s) = sf_max_bytes s"
  "sf_max_bytes (fail_future i exc s) = sf_max_bytes s"
  by (simp_all add: sf_ops drop_key_def fail_future_def split: option.split)

lemma sf_max_bytes_reap [simp]: "sf_max_bytes (reap i s) = sf_max_bytes s"
  unfolding reap_def Let_def by simp

lemma sf_max_bytes_transitions [simp]:
  "sf_max_bytes (release_caller i s) = sf_max_bytes s"
  "sf_max_bytes (fail_flight i exc s) = sf_max_bytes s"
  "sf_max_bytes (expire_grace i s) = sf_max_bytes s"
  "sf_max_bytes (shutdown_key p s) = sf_max_bytes s"
  unfolding release_caller_def fail_flight_def expire_grace_def drop_grace_def shutdown_key_def Let_def by simp_all

lemma sf_max_bytes_fold [simp]:
  "sf_max_bytes (fold shutdown_key ps s) = sf_max_bytes s"
  "sf_max_bytes (fold drop_key ks s) = sf_max_bytes s"
proof -
  show "sf_max_bytes (fold shutdown_key ps s) = sf_max_bytes s" by (induction ps arbitrary: s) simp_all
  show "sf_max_bytes (fold drop_key ks s) = sf_max_bytes s" by (induction ks arbitrary: s) simp_all
qed

lemma sf_max_bytes_entry [simp]:
  "sf_max_bytes (expire_grace_entry now key i s) = sf_max_bytes s"
  "sf_max_bytes (expire_if_due now key s) = sf_max_bytes s"
  "sf_max_bytes (shutdown s) = sf_max_bytes s"
  by (simp_all add: expire_if_due_def expire_grace_entry_def shutdown_def split: option.split)

lemma sf_max_bytes_reserve: "try_reserve n t = (b, t') \<Longrightarrow> sf_max_bytes t' = sf_max_bytes t"
  by (auto simp: try_reserve_def Let_def reserve_loop_conf split: if_splits)

lemma sf_max_bytes_fetch:
  assumes "fetch_or_bypass now key reserve s = Inr (a, s')"
  shows "sf_max_bytes s' = sf_max_bytes s"
  using assms by (auto simp: fetch_or_bypass_def Let_def add_ref_def new_entry_def
      split: if_splits option.splits prod.splits bool.splits dest!: sf_max_bytes_reserve)

lemma lease_step_budget:
  "lease_step w w' \<Longrightarrow> sf_leased (fst w) \<Longrightarrow> sf_max_bytes (fst w') = sf_max_bytes (fst w)"
proof (induction rule: lease_step.induct)
  case (fetches reserve now key s a s' cs)
  then show ?case by (simp add: sf_max_bytes_fetch)
next
  case (succeeds i cs now size_of r s s')
  then show ?case by (auto simp: lead_success_def convert_success_def upd_flight_def split: if_splits)
qed simp_all

lemma lease_reach_budget:
  assumes "lease_reach s0 w" and "ledger_inv (s0, {#})"
  shows "sf_max_bytes (fst w) = sf_max_bytes s0"
  using assms(1)
proof (induction rule: lease_reach.induct)
  case (continue w w')
  have "ledger_inv (fst w, snd w)" using ledger_reach[OF continue(1) assms(2)] by simp
  from lease_step_budget[OF continue(2) ledger_leased[OF this]] continue(3) show ?case by simp
qed simp

section \<open>The ledger is exact\<close>

definition charged :: "('k, 'r, 'x) single_flight \<Rightarrow> nat set" where
  "charged s = snd ` set (sf_entries s) \<union> {i \<in> snd ` set (sf_retired s). fl_state (flight s i) \<noteq> Failed}"

lemma dict_values: "dict_wf d \<Longrightarrow> i \<in> snd ` set d \<longleftrightarrow> (\<exists>k. dict_get d k = Some i)"
proof
  assume wf: "dict_wf d" and "i \<in> snd ` set d"
  then obtain k where "(k, i) \<in> set d" by auto
  from dict_in_set_get[OF wf this] show "\<exists>k. dict_get d k = Some i" ..
next
  assume "\<exists>k. dict_get d k = Some i"
  then obtain k where "dict_get d k = Some i" ..
  from dict_get_in_set[OF this] show "i \<in> snd ` set d" by (rule rev_image_eqI) simp
qed

lemma charged_accounted:
  assumes inv: "ledger_inv (s, cs)"
  shows "charged s = {i. i < length (sf_store s) \<and> fl_accounted (flight s i)}"
proof -
  have reg: "registry_ok s" using inv by (simp add: ledger_inv_def)
  have e: "i \<in> snd ` set (sf_entries s) \<longleftrightarrow> i < length (sf_store s) \<and> fl_layer (flight s i) = Active" for i
    using reg by (simp add: dict_values[OF ledger_wf(1)[OF inv]] registry_ok_def)
  have r: "i \<in> snd ` set (sf_retired s) \<longleftrightarrow>
      i < length (sf_store s) \<and> fl_layer (flight s i) = Retired \<and> fl_caller_refs (flight s i) > 0" for i
    using reg by (simp add: dict_values[OF ledger_wf(2)[OF inv]] registry_ok_def)
  have "fl_accounted (flight s i) \<longleftrightarrow> held (flight s i)" if "i < length (sf_store s)" for i
    using ledger_flight[OF inv that] by (simp add: flight_ok_def)
  moreover have "fl_layer (flight s i) = Retired \<longleftrightarrow> fl_layer (flight s i) \<noteq> Active" for i
    by (cases "fl_layer (flight s i)") simp_all
  ultimately show ?thesis by (simp add: set_eq_iff charged_def e r held_def) blast
qed

lemma reserved_sum: "reserved es = (\<Sum>i \<in> {i. i < length es \<and> fl_accounted (es ! i)}. fl_reserve (es ! i))"
  by (simp add: reserved_def sum_list_sum_nth sum.inter_filter[symmetric] atLeast0LessThan Collect_conj_eq lessThan_def
      flip: sum.inter_restrict)

lemma ledger_exact:
  assumes "ledger_inv (s, cs)"
  shows "sf_leased_bytes s = (\<Sum>i \<in> charged s. fl_reserve (flight s i))"
  using assms by (simp add: charged_accounted[OF assms] reserved_sum[symmetric] ledger_inv_def)

section \<open>Guarantees of the leased profile\<close>

lemma reach_inv:
  assumes "0 \<le> max_bytes" and "new_single_flight (Some max_bytes) nc grace None None = Inr s0" and "lease_reach s0 (s, cs)"
  shows "ledger_inv (s, cs)"
  by (rule ledger_reach[OF assms(3) ledger_start[OF assms(1,2)]])

text \<open>
  C20. The byte ledger. Whatever the callers do and in whatever order - joining, finishing, failing, being
  cancelled, timers firing, a shutdown in the middle - the leased bytes are exactly the reserves of the
  registered flights and of the retired ones that did not fail, each counted once, and never exceed the budget.
\<close>

theorem lease_budget:
  assumes "0 \<le> max_bytes" and "new_single_flight (Some max_bytes) nc grace None None = Inr s0" and "lease_reach s0 (s, cs)"
  shows "sf_leased_bytes s =
      (\<Sum>i \<in> snd ` set (sf_entries s) \<union> {i \<in> snd ` set (sf_retired s). fl_state (flight s i) \<noteq> Failed}. fl_reserve (flight s i))
    \<and> sf_leased_bytes s \<le> max_bytes"
proof -
  note inv = reach_inv[OF assms]
  have "sf_max_bytes s = max_bytes"
    using lease_reach_budget[OF assms(3) ledger_start[OF assms(1,2)]] assms(2) by (auto simp: new_single_flight_def)
  then show ?thesis using ledger_exact[OF inv] ledger_bound[OF inv] by (simp add: charged_def)
qed

text \<open>
  Nothing leaks. Once every caller is gone no retired flight is left, and a shutdown then returns the
  whole budget.
\<close>

theorem lease_no_leak:
  assumes "0 \<le> max_bytes" and "new_single_flight (Some max_bytes) nc grace None None = Inr s0" and "lease_reach s0 (s, {#})"
  shows "sf_retired s = [] \<and> sf_retired (shutdown s) = [] \<and> sf_entries (shutdown s) = [] \<and> sf_leased_bytes (shutdown s) = 0"
proof -
  have idle: "sf_retired t = []" if "ledger_inv (t, {#})" for t :: "('a, 'b, 'c) single_flight"
  proof (rule ccontr)
    assume "sf_retired t \<noteq> []"
    then obtain k q i where "((k, q), i) \<in> set (sf_retired t)" by (metis list.set_sel(1) prod.exhaust)
    then have "i < length (sf_store t)" "fl_caller_refs (flight t i) > 0"
      using dict_in_set_get[OF ledger_wf(2)[OF that]] that by (auto simp: ledger_inv_def registry_ok_def)
    then show False using ledger_flight[OF that] by (simp add: flight_ok_def)
  qed
  note inv = reach_inv[OF assms]
  note inv' = ledger_shutdown[OF inv]
  have "charged (shutdown s) = {}" using idle[OF inv'(1)] inv'(2) by (simp add: charged_def)
  then show ?thesis using idle[OF inv] idle[OF inv'(1)] inv'(2) ledger_exact[OF inv'(1)] by simp
qed

text \<open>
  C21. One leader per flight, in the leased profile (a single flight created with \<open>max_bytes\<close>). An
  unresolved flight has exactly one caller running its factory and a resolved one has none, so no
  waiter is left on a future that nobody will resolve. A fetch of a key whose flight is unresolved and
  still registered, in the active layer, joins that flight; so two unresolved flights are never
  registered for one key. An unresolved flight that left the active layer, at a shutdown say, is no
  longer joined; and in the plain profile joining can fail even earlier, as \<open>plain_stale_failure\<close> shows.
\<close>

theorem single_leader:
  assumes "0 \<le> max_bytes" and "new_single_flight (Some max_bytes) nc grace None None = Inr s0" and "lease_reach s0 (s, cs)"
    and "i < length (sf_store s)"
  shows "count cs (i, Leader) = (if fl_future (flight s i) = Pending then 1 else 0)
    \<and> (fl_future (flight s i) = Pending \<and> fl_layer (flight s i) = Active \<longrightarrow>
      fetch_or_bypass now (fl_key (flight s i)) reserve s = Inr (Join i, add_ref i s))"
proof (intro conjI)
  note inv = reach_inv[OF assms(1-3)]
  note ok = ledger_flight[OF inv assms(4)]
  show "count cs (i, Leader) = (if fl_future (flight s i) = Pending then 1 else 0)"
    using ok by (simp add: flight_ok_def)
  show "fl_future (flight s i) = Pending \<and> fl_layer (flight s i) = Active \<longrightarrow>
      fetch_or_bypass now (fl_key (flight s i)) reserve s = Inr (Join i, add_ref i s)"
  proof
    assume a: "fl_future (flight s i) = Pending \<and> fl_layer (flight s i) = Active"
    have get: "dict_get (sf_entries s) (fl_key (flight s i)) = Some i"
      using inv assms(4) a by (auto simp: ledger_inv_def registry_ok_def)
    have "fl_state (flight s i) = In_Flight" using ok a by (simp add: flight_ok_def)
    then have "expire_if_due now (fl_key (flight s i)) s = s"
      using ledger_leased[OF inv] get by (simp add: expire_if_due_def expire_grace_entry_def split: option.split)
    then show "fetch_or_bypass now (fl_key (flight s i)) reserve s = Inr (Join i, add_ref i s)"
      using get ledger_leased[OF inv] by (simp add: fetch_or_bypass_def)
  qed
qed

section \<open>Retention of the plain profile\<close>

lemma drop_key_shorter:
  assumes "dict_get (sf_entries s) key \<noteq> None"
  shows "length (sf_entries (drop_key key s)) < length (sf_entries s)"
proof -
  obtain i where i: "dict_get (sf_entries s) key = Some i" using assms by auto
  from dict_get_in_set[OF i] have "length (dict_pop key (sf_entries s)) < length (sf_entries s)"
    unfolding dict_pop_def by (rule length_filter_less) simp
  then show ?thesis using i by (simp add: drop_key_def)
qed

lemma drop_key_expires: "fl_expires_at (flight (drop_key key s) j) = fl_expires_at (flight s j)"
proof (cases "dict_get (sf_entries s) key")
  case (Some i)
  then show ?thesis
    by (cases "i < length (sf_store s)"; cases "i = j") (simp_all add: drop_key_def upd_flight_def list_update_beyond)
qed (simp add: drop_key_def)

lemma oldest_completed_get:
  assumes "dict_wf (sf_entries s)" and "oldest_completed s = Some key"
  shows "\<exists>i. dict_get (sf_entries s) key = Some i \<and> fl_expires_at (flight s i) \<noteq> None"
proof -
  obtain i where i: "find (\<lambda>p. fl_expires_at (flight s (snd p)) \<noteq> None) (sf_entries s) = Some (key, i)"
    using assms(2) by (auto simp: oldest_completed_def)
  then have "(key, i) \<in> set (sf_entries s)" "fl_expires_at (flight s i) \<noteq> None"
    by (auto simp: find_Some_iff in_set_conv_nth) (metis snd_conv)
  then show ?thesis using dict_in_set_get[OF assms(1)] by blast
qed

text \<open>
  The eviction loop of the plain profile returns on every registry. It keeps every flight in the air, and
  leaves the registry within its entry and byte bounds unless only flights in the air remain.
\<close>

theorem evict_plain_returns:
  assumes "dict_wf (sf_entries s)"
  shows "\<exists>s'. evict_plain s = Some s' \<and> set (sf_entries s') \<subseteq> set (sf_entries s)
     \<and> (plain_over s' \<longrightarrow> (\<forall>p \<in> set (sf_entries s'). fl_expires_at (flight s' (snd p)) = None))
     \<and> (\<forall>p \<in> set (sf_entries s). fl_expires_at (flight s (snd p)) = None \<longrightarrow> p \<in> set (sf_entries s'))"
  using assms
proof (induction "length (sf_entries s)" arbitrary: s rule: less_induct)
  case less
  show ?case
  proof (cases "plain_over s \<and> oldest_completed s \<noteq> None")
    case False
    then have "evict_plain s = Some s" by (subst evict_plain.simps) (auto split: option.split)
    moreover have "\<forall>p \<in> set (sf_entries s). fl_expires_at (flight s (snd p)) = None" if "plain_over s"
      using False that by (auto simp: oldest_completed_def find_None_iff)
    ultimately show ?thesis by blast
  next
    case True
    then obtain key where key: "oldest_completed s = Some key" by auto
    from oldest_completed_get[OF less.prems key] obtain i
      where i: "dict_get (sf_entries s) key = Some i" "fl_expires_at (flight s i) \<noteq> None" by blast
    have "dict_wf (sf_entries (drop_key key s))" using less.prems i by (simp add: drop_key_def)
    from less.hyps[OF drop_key_shorter this] i(1) obtain s' where s': "evict_plain (drop_key key s) = Some s'"
      "set (sf_entries s') \<subseteq> set (sf_entries (drop_key key s))"
      "plain_over s' \<longrightarrow> (\<forall>p \<in> set (sf_entries s'). fl_expires_at (flight s' (snd p)) = None)"
      "\<forall>p \<in> set (sf_entries (drop_key key s)). fl_expires_at (flight s (snd p)) = None \<longrightarrow> p \<in> set (sf_entries s')"
      by (auto simp: drop_key_expires)
    have "evict_plain s = Some s'" using True key s'(1) by (subst evict_plain.simps) simp
    moreover have "set (sf_entries (drop_key key s)) \<subseteq> set (sf_entries s)"
      using i(1) by (auto simp: drop_key_def dict_pop_def)
    moreover have "p \<in> set (sf_entries (drop_key key s))"
      if "p \<in> set (sf_entries s)" "fl_expires_at (flight s (snd p)) = None" for p
    proof -
      have "dict_get (sf_entries s) (fst p) = Some (snd p)" using dict_in_set_get[OF less.prems, of "fst p" "snd p"] that(1) by simp
      then have "fst p \<noteq> key" using i that(2) by auto
      then show ?thesis using that(1) i(1) by (simp add: drop_key_def dict_pop_def)
    qed
    ultimately show ?thesis using s' by blast
  qed
qed

lemma plain_fetch_lead:
  assumes "\<not> sf_leased s" and "sf_entries s = []" and "1 \<le> sf_max_entries s" and "sf_retained_bytes s \<le> sf_max_bytes s"
  shows "fetch now key s = Inr (Some (Lead (length (sf_store s)),
     s\<lparr>sf_store := sf_store s @ [new_flight key 0 0], sf_entries := [(key, length (sf_store s))]\<rparr>))"
proof -
  define t where "t = s\<lparr>sf_store := sf_store s @ [new_flight key 0 0], sf_entries := [(key, length (sf_store s))]\<rparr>"
  have "\<not> plain_over t" using assms by (simp add: plain_over_def t_def)
  then have "evict_plain t = Some t" by (subst evict_plain.simps) simp
  then show ?thesis using assms by (simp add: fetch_def expire_if_due_def dict_set_def t_def Let_def)
qed

text \<open>
  C22. The failure path of the plain profile does not check that its entry is still the registered one:
  after a shutdown, a late failure of the detached flight removes the fresh flight of the same key, so the
  next caller leads a second fetch of that key while the first is still in the air.
\<close>

theorem plain_stale_failure:
  assumes "new_single_flight None None grace None None = Inr s0"
  shows "\<exists>s1 s2 s3. fetch now key s0 = Inr (Some (Lead 0, s1))
    \<and> fetch now key (shutdown s1) = Inr (Some (Lead 1, s2))
    \<and> dict_get (sf_entries s2) key = Some 1
    \<and> fetch now key (fail_flight 0 exc s2) = Inr (Some (Lead 2, s3))
    \<and> fl_future (flight s3 1) = Pending \<and> fl_future (flight s3 2) = Pending"
proof -
  define t0 where "t0 = s0\<lparr>sf_store := [new_flight key 0 0], sf_entries := [(key, 0)]\<rparr>"
  define t1 where "t1 = s0\<lparr>sf_store := [new_flight key 0 0, new_flight key 0 0], sf_entries := [(key, 1)]\<rparr>"
  define t2 where "t2 = fail_flight 0 exc t1"
  have s0: "\<not> sf_leased s0" "sf_entries s0 = []" "sf_store s0 = []" "1 \<le> sf_max_entries s0" "sf_retained_bytes s0 \<le> sf_max_bytes s0"
    using assms by (auto simp: new_single_flight_def)
  have "fetch now key s0 = Inr (Some (Lead 0, t0))" using s0 by (simp add: plain_fetch_lead t0_def)
  moreover have sd: "shutdown t0 = s0\<lparr>sf_store := [new_flight key 0 0]\<rparr>"
    using s0 by (simp add: t0_def shutdown_def dict_keys_def drop_key_def dict_get_def dict_pop_def upd_flight_def new_flight_def)
  have "fetch now key (shutdown t0) = Inr (Some (Lead 1, t1))" using s0 by (simp add: sd plain_fetch_lead t1_def)
  moreover have t2: "\<not> sf_leased t2" "sf_entries t2 = []" "length (sf_store t2) = 2" "fl_future (flight t2 1) = Pending"
    "sf_max_entries t2 = sf_max_entries s0" "sf_retained_bytes t2 = sf_retained_bytes s0" "sf_max_bytes t2 = sf_max_bytes s0"
    using s0 by (auto simp: t2_def t1_def fail_flight_def fail_future_def drop_key_def dict_get_def dict_pop_def upd_flight_def
        new_flight_def)
  have "fetch now key t2 = Inr (Some (Lead 2, t2\<lparr>sf_store := sf_store t2 @ [new_flight key 0 0], sf_entries := [(key, 2)]\<rparr>))"
    using s0 t2 by (simp add: plain_fetch_lead)
  moreover have "dict_get (sf_entries t1) key = Some 1" by (simp add: t1_def dict_get_def)
  ultimately show ?thesis using t2 by (auto simp: t2_def[symmetric] nth_append new_flight_def intro!: exI[of _ t0] exI[of _ t1])
qed

section \<open>Witnesses\<close>

text \<open>A budget of ten bytes, one flight of four that succeeds and whose only caller then leaves.\<close>

definition lease_demo_start :: "(nat, nat, nat) single_flight" where
  "lease_demo_start = \<lparr>sf_leased = True, sf_grace = 1, sf_max_entries = 0, sf_max_bytes = 10, sf_store = [],
     sf_entries = [], sf_retired = [], sf_leased_bytes = 0, sf_retained_bytes = 0, sf_seq = 0\<rparr>"

definition lease_demo_flight :: "(nat, nat, nat) flight" where
  "lease_demo_flight = (new_flight 7 1 4)\<lparr>fl_accounted := True, fl_caller_refs := 1\<rparr>"

definition lease_demo_led :: "(nat, nat, nat) single_flight" where
  "lease_demo_led = lease_demo_start\<lparr>sf_store := [lease_demo_flight], sf_entries := [(7, 0)], sf_leased_bytes := 4, sf_seq := 1\<rparr>"

definition lease_demo_grace :: "(nat, nat, nat) single_flight" where
  "lease_demo_grace = lease_demo_led\<lparr>sf_store := [lease_demo_flight\<lparr>fl_future := Result 5, fl_state := Grace, fl_expires_at := Some 1, fl_timer := True\<rparr>]\<rparr>"

definition lease_demo_idle :: "(nat, nat, nat) single_flight" where
  "lease_demo_idle = lease_demo_led\<lparr>sf_store := [lease_demo_flight\<lparr>fl_caller_refs := 0, fl_future := Result 5, fl_state := Grace,
     fl_expires_at := Some 1, fl_timer := True\<rparr>]\<rparr>"

lemmas lease_demo_defs = lease_demo_start_def lease_demo_flight_def lease_demo_led_def lease_demo_grace_def lease_demo_idle_def new_flight_def

lemma lease_demo_new: "new_single_flight (Some 10) None 1 None None = Inr lease_demo_start"
  by (simp add: new_single_flight_def lease_demo_start_def)

lemma lease_demo_led_reach: "lease_reach lease_demo_start (lease_demo_led, {#(0, Leader)#})"
proof -
  have "fetch_or_bypass 0 7 4 lease_demo_start = Inr (Lead 0, lease_demo_led)"
    by (simp add: fetch_or_bypass_def expire_if_due_def try_reserve_def new_entry_def add_ref_def upd_flight_def
        lease_demo_defs dict_set_def dict_get_def)
  from lease_reach.continue[OF lease_reach.start lease_step.fetches[OF _ this, of "{#}"]] show ?thesis
    by (simp add: admit_def)
qed

lemma lease_demo_idle_reach: "lease_reach lease_demo_start (lease_demo_idle, {#})"
proof -
  have "lead_success 0 int 0 5 lease_demo_led = Some lease_demo_grace"
    by (simp add: lead_success_def convert_success_def upd_flight_def lease_demo_defs)
  from lease_reach.continue[OF lease_demo_led_reach lease_step.succeeds[OF _ this, of "{#(0, Leader)#}"]]
  have led: "lease_reach lease_demo_start (lease_demo_grace, {#(0, Holder)#})" by simp
  have "release_caller 0 lease_demo_grace = lease_demo_idle"
    by (simp add: release_caller_def upd_flight_def lease_demo_defs)
  with lease_reach.continue[OF led lease_step.releases[of 0 "{#(0, Holder)#}" lease_demo_grace]] show ?thesis by simp
qed

theorem lease_budget_witness:
  "lease_reach lease_demo_start (lease_demo_led, {#(0, Leader)#})
   \<and> sf_leased_bytes lease_demo_led =
      (\<Sum>i \<in> snd ` set (sf_entries lease_demo_led) \<union> {i \<in> snd ` set (sf_retired lease_demo_led). fl_state (flight lease_demo_led i) \<noteq> Failed}. fl_reserve (flight lease_demo_led i))
   \<and> sf_leased_bytes lease_demo_led \<le> 10"
  using lease_budget[OF _ lease_demo_new lease_demo_led_reach] lease_demo_led_reach by simp

theorem lease_no_leak_witness:
  "lease_reach lease_demo_start (lease_demo_idle, {#}) \<and> sf_leased_bytes lease_demo_idle = 4 \<and> sf_leased_bytes (shutdown lease_demo_idle) = 0"
  using lease_no_leak[OF _ lease_demo_new lease_demo_idle_reach] lease_demo_idle_reach by (simp add: lease_demo_idle_def lease_demo_led_def)

theorem single_leader_witness:
  "fl_future (flight lease_demo_led 0) = Pending \<and> count {#(0, Leader)#} (0::nat, Leader) = (1::nat)
   \<and> fetch_or_bypass 0 7 4 lease_demo_led = Inr (Join 0, add_ref 0 lease_demo_led)"
  using single_leader[OF _ lease_demo_new lease_demo_led_reach, where i = 0 and now = 0 and reserve = 4] by (simp add: lease_demo_defs)

theorem evict_plain_returns_witness:
  "dict_wf (sf_entries lease_demo_idle) \<and> (\<exists>s'. evict_plain (lease_demo_idle\<lparr>sf_max_bytes := - 1\<rparr>) = Some s' \<and> set (sf_entries s') \<subseteq> {(7, 0)})"
  using evict_plain_returns[of "lease_demo_idle\<lparr>sf_max_bytes := - 1\<rparr>"] by (auto simp: lease_demo_idle_def lease_demo_led_def dict_wf_def)

theorem plain_stale_failure_witness:
  "\<exists>s0 s1 s2 s3 :: (nat, nat, nat) single_flight. new_single_flight None None 1 None None = Inr s0
    \<and> fetch 0 7 s0 = Inr (Some (Lead 0, s1)) \<and> fetch 0 7 (shutdown s1) = Inr (Some (Lead 1, s2))
    \<and> fetch 0 7 (fail_flight 0 (Some 3) s2) = Inr (Some (Lead 2, s3)) \<and> fl_future (flight s3 1) = Pending"
proof -
  obtain s0 :: "(nat, nat, nat) single_flight" where new: "new_single_flight None None 1 None None = Inr s0"
    by (simp add: new_single_flight_def)
  from plain_stale_failure[OF new, of 0 7 "Some 3"] new show ?thesis by blast
qed

end
