(* ===== verification/Skeleton_Diff.thy ===== *)
theory Skeleton_Diff
  imports Sse_Frames
begin

text \<open>
  Change statistics of the message projection (\<^verbatim>\<open>skeleton.py\<close>): the parser of unified diff text, the
  compact file lists, and the priority chain that derives \<^verbatim>\<open>diffStats\<close>. The parser is a fold of one step
  per line over its local variables. The exceptions of the projection are values of \<open>skel_error\<close>; the
  parser can raise an \<open>Assertion_Error\<close> (shown impossible) or the \<open>Value_Error\<close> of \<^verbatim>\<open>int()\<close> on a count with
  more digits than the interpreter converts.
\<close>

datatype skel_error = Unhashable | Encode_Error | Assertion_Error | Value_Error

section \<open>Counts\<close>

definition valid_count :: "json \<Rightarrow> bool" where
  "valid_count v = (case v of JInt i \<Rightarrow> 0 \<le> i | _ \<Rightarrow> False)"

definition count_of :: "json \<Rightarrow> int" where
  "count_of v = (case v of JInt i \<Rightarrow> if 0 \<le> i then i else 0 | _ \<Rightarrow> 0)"

definition diff_stats :: "int \<Rightarrow> int \<Rightarrow> int \<Rightarrow> json" where
  "diff_stats additions deletions files =
     JObj [(''additions'', JInt additions), (''deletions'', JInt deletions), (''files'', JInt files)]"

text \<open>One entry adds its valid counts; the flag records that one was seen.\<close>

definition add_counts :: "(string \<times> json) list \<Rightarrow> int \<times> int \<times> bool \<Rightarrow> int \<times> int \<times> bool" where
  "add_counts item acc =
     (case acc of (a, d, seen) \<Rightarrow>
        (a + count_of (jget item ''additions''), d + count_of (jget item ''deletions''),
         seen \<or> valid_count (jget item ''additions'') \<or> valid_count (jget item ''deletions'')))"

fun dict_entries :: "json list \<Rightarrow> (string \<times> json) list list" where
  "dict_entries [] = []"
| "dict_entries (JObj d # xs) = d # dict_entries xs"
| "dict_entries (_ # xs) = dict_entries xs"

definition compute_diffstats :: "json \<Rightarrow> json option" where
  "compute_diffstats filediff =
     (case (case filediff of
              JArr xs \<Rightarrow> if xs = [] then None else Some xs
            | JObj d \<Rightarrow> Some [JObj d]
            | _ \<Rightarrow> None) of
        None \<Rightarrow> None
      | Some entries \<Rightarrow>
          (case fold add_counts (dict_entries entries) (0, 0, False) of
             (a, d, seen) \<Rightarrow>
               if dict_entries entries = [] \<or> \<not> seen then None
               else Some (diff_stats a d (int (length (dict_entries entries))))))"

definition compute_diffstats_from_files :: "json list \<Rightarrow> json option" where
  "compute_diffstats_from_files files =
     (if files = [] then None
      else case fold add_counts (dict_entries files) (0, 0, False) of
             (a, d, seen) \<Rightarrow> if \<not> seen then None else Some (diff_stats a d (int (length files))))"

section \<open>Unified diff text\<close>

text \<open>
  One side \<^verbatim>\<open>l,s\<close> of a hunk header: the text of its line count, if there is one, and the rest of the
  line. The alternatives of the pattern exclude each other, so there is nothing to backtrack.
\<close>

definition hunk_side :: "string \<Rightarrow> (string option \<times> string) option" where
  "hunk_side s =
     (let r = dropWhile is_digit s
      in if takeWhile is_digit s = [] then None
         else if r \<noteq> [] \<and> hd r = CHR '','' \<and> takeWhile is_digit (tl r) \<noteq> []
         then Some (Some (takeWhile is_digit (tl r)), dropWhile is_digit (tl r))
         else Some (None, r))"

text \<open>The match of the whole pattern: its groups 2 and 4.\<close>

definition hunk_groups :: "string \<Rightarrow> (string option \<times> string option) option" where
  "hunk_groups line =
     (if \<not> starts_with ''@@ -'' line then None
      else case hunk_side (drop 4 line) of
             None \<Rightarrow> None
           | Some (old_count, r) \<Rightarrow>
               if \<not> starts_with '' +'' r then None
               else case hunk_side (drop 2 r) of
                      None \<Rightarrow> None
                    | Some (new_count, r') \<Rightarrow> if starts_with '' @@'' r' then Some (old_count, new_count) else None)"

definition group_count :: "string option \<Rightarrow> skel_error + nat" where
  "group_count g =
     (case g of
        None \<Rightarrow> Inr 1
      | Some txt \<Rightarrow> (case py_digits txt of None \<Rightarrow> Inl Value_Error | Some n \<Rightarrow> Inr n))"

definition hunk_line_budget :: "string \<Rightarrow> skel_error + nat option" where
  "hunk_line_budget line =
     (case hunk_groups line of
        None \<Rightarrow> Inr None
      | Some (old_count, new_count) \<Rightarrow>
          (case group_count old_count of
             Inl e \<Rightarrow> Inl e
           | Inr m \<Rightarrow> (case group_count new_count of Inl e \<Rightarrow> Inl e | Inr n \<Rightarrow> Inr (Some (m + n)))))"

abbreviation TAB :: char where "TAB \<equiv> CHR 0x09"
abbreviation (input) DEV_NULL :: string where "DEV_NULL \<equiv> ''/dev/null''"

definition before_tab :: "string \<Rightarrow> string" where
  "before_tab s = takeWhile (\<lambda>c. c \<noteq> TAB) s"

definition diff_header_path :: "string \<Rightarrow> string" where
  "diff_header_path raw =
     (let v = before_tab raw in if starts_with ''a/'' v \<or> starts_with ''b/'' v then drop 2 v else v)"

definition or_none :: "string \<Rightarrow> string option" where
  "or_none s = (if s = [] then None else Some s)"

definition pair_path :: "string \<Rightarrow> string \<Rightarrow> string option" where
  "pair_path old_raw new_raw =
     (let old = before_tab old_raw; new = before_tab new_raw
      in if old = DEV_NULL \<and> new = DEV_NULL then None
         else if old = DEV_NULL then or_none (diff_header_path new)
         else if new = DEV_NULL then or_none (diff_header_path old)
         else or_none (diff_header_path new))"

datatype dp_state = Idle | In_File | In_Hunk

record diff_file =
  df_path :: string
  df_additions :: int
  df_deletions :: int

record diff_parser =
  dp_files :: "diff_file list"
  dp_state :: dp_state
  dp_current :: "diff_file option"
  dp_paired :: bool
  dp_index :: "string option"
  dp_pending :: "string option"
  dp_counted :: bool
  dp_left :: "int option"

definition diff_start :: diff_parser where
  "diff_start = \<lparr>dp_files = [], dp_state = Idle, dp_current = None, dp_paired = False, dp_index = None,
     dp_pending = None, dp_counted = False, dp_left = None\<rparr>"

definition close_section :: "diff_parser \<Rightarrow> diff_parser" where
  "close_section p =
     p\<lparr>dp_files := (case dp_current p of Some f \<Rightarrow> if dp_paired p then dp_files p @ [f] else dp_files p | None \<Rightarrow> dp_files p),
       dp_current := None, dp_paired := False, dp_pending := None, dp_counted := False\<rparr>"

definition no_pending :: "diff_parser \<Rightarrow> diff_parser" where
  "no_pending p = p\<lparr>dp_pending := None, dp_counted := False\<rparr>"

abbreviation add_deletions :: "int \<Rightarrow> diff_file \<Rightarrow> diff_file" where
  "add_deletions n f \<equiv> f\<lparr>df_deletions := df_deletions f + n\<rparr>"

text \<open>A \<^verbatim>\<open>+++\<close> line that completes a pair: the pending \<^verbatim>\<open>---\<close> was a header, not a deletion.\<close>

definition pair_line :: "string \<Rightarrow> string \<Rightarrow> diff_parser \<Rightarrow> diff_parser" where
  "pair_line old line p =
     (let p1 = (if dp_counted p then p\<lparr>dp_current := map_option (add_deletions (- 1)) (dp_current p)\<rparr> else p);
          path = (case dp_index p1 of Some i \<Rightarrow> Some i | None \<Rightarrow> pair_path old (drop 4 line));
          p2 = (close_section p1)\<lparr>dp_index := None, dp_left := None\<rparr>
      in case path of
           Some f \<Rightarrow> p2\<lparr>dp_current := Some \<lparr>df_path = f, df_additions = 0, df_deletions = 0\<rparr>, dp_paired := True, dp_state := In_File\<rparr>
         | None \<Rightarrow> p2\<lparr>dp_state := Idle\<rparr>)"

text \<open>A line of a hunk body; \<open>Inl\<close> is the failed assertion.\<close>

definition hunk_line :: "string \<Rightarrow> diff_parser \<Rightarrow> skel_error + diff_parser" where
  "hunk_line line p =
     (if starts_with [CHR 0x5C] line then Inr (no_pending p)
      else if starts_with ''--- '' line then
        (case dp_current p of
           None \<Rightarrow> Inl Assertion_Error
         | Some f \<Rightarrow>
             let p1 = p\<lparr>dp_current := Some (add_deletions 1 f), dp_left := map_option (\<lambda>n. n - 1) (dp_left p)\<rparr>
             in Inr (case dp_left p1 of
                  Some n \<Rightarrow> if n \<le> 0 then no_pending (p1\<lparr>dp_state := In_File\<rparr>)
                            else p1\<lparr>dp_pending := Some (drop 4 line), dp_counted := True\<rparr>
                | None \<Rightarrow> p1\<lparr>dp_pending := Some (drop 4 line), dp_counted := True\<rparr>))
      else
        (case dp_current p of
           None \<Rightarrow> Inl Assertion_Error
         | Some f \<Rightarrow>
             let f' = (if starts_with ''+'' line then f\<lparr>df_additions := df_additions f + 1\<rparr>
                       else if starts_with ''-'' line then add_deletions 1 f else f);
                 consumed = (if starts_with ''+'' line \<or> starts_with ''-'' line then 1 else 2);
                 p1 = (no_pending p)\<lparr>dp_current := Some f', dp_left := map_option (\<lambda>n. n - consumed) (dp_left p)\<rparr>
             in Inr (case dp_left p1 of
                  Some n \<Rightarrow> if n \<le> 0 then p1\<lparr>dp_state := In_File\<rparr> else p1
                | None \<Rightarrow> p1)))"

definition open_hunk :: "string \<Rightarrow> diff_parser \<Rightarrow> skel_error + diff_parser" where
  "open_hunk line p =
     (case hunk_line_budget line of
        Inl e \<Rightarrow> Inl e
      | Inr budget \<Rightarrow>
          let p1 = (no_pending p)\<lparr>dp_left := map_option int budget\<rparr>
          in Inr (case budget of
               Some n \<Rightarrow> if n \<noteq> 0 then p1\<lparr>dp_state := In_Hunk\<rparr> else p1
             | None \<Rightarrow> p1))"

definition diff_line :: "string \<Rightarrow> diff_parser \<Rightarrow> skel_error + diff_parser" where
  "diff_line raw_line p =
     (let line = rstrip (CHR 0x0D) raw_line
      in if starts_with ''+++ '' line \<and> dp_pending p \<noteq> None then Inr (pair_line (the (dp_pending p)) line p)
         else if starts_with ''diff --git '' line then
           Inr ((close_section p)\<lparr>dp_index := None, dp_left := None, dp_state := Idle\<rparr>)
         else if starts_with ''Index: '' line then
           Inr ((close_section p)\<lparr>dp_index := or_none (py_strip (drop 7 line)), dp_left := None, dp_state := In_File\<rparr>)
         else if dp_state p = In_Hunk \<and> (case dp_left p of None \<Rightarrow> True | Some n \<Rightarrow> n > 0) then hunk_line line p
         else if starts_with ''@@'' line \<and> dp_state p = In_File \<and> dp_current p \<noteq> None then open_hunk line p
         else if starts_with ''--- '' line then Inr (p\<lparr>dp_pending := Some (drop 4 line), dp_counted := False\<rparr>)
         else if starts_with ''+++ '' line then Inr (p\<lparr>dp_pending := None\<rparr>)
         else Inr p)"

fun diff_lines :: "string list \<Rightarrow> diff_parser \<Rightarrow> skel_error + diff_parser" where
  "diff_lines [] p = Inr p"
| "diff_lines (l # ls) p = (case diff_line l p of Inl e \<Rightarrow> Inl e | Inr p' \<Rightarrow> diff_lines ls p')"

text \<open>\<open>_files_from_diff_text\<close>: \<open>Inl\<close> is an exception, \<open>Inr None\<close> the result \<open>None\<close>.\<close>

definition files_from_diff_text :: "json \<Rightarrow> skel_error + diff_file list option" where
  "files_from_diff_text text =
     (case text of
        JStr s \<Rightarrow>
          (case diff_lines (split_on newline s) diff_start of
             Inl e \<Rightarrow> Inl e
           | Inr p \<Rightarrow> Inr (let files = dp_files (close_section p) in if files = [] then None else Some files))
      | _ \<Rightarrow> Inr None)"

definition diff_file_json :: "diff_file \<Rightarrow> json" where
  "diff_file_json f =
     JObj [(''path'', JStr (df_path f)), (''additions'', JInt (df_additions f)), (''deletions'', JInt (df_deletions f))]"

section \<open>File lists and the priority chain\<close>

definition opt_entry :: "bool \<Rightarrow> string \<Rightarrow> json \<Rightarrow> (string \<times> json) list" where
  "opt_entry b k v = (if b then [(k, v)] else [])"

fun is_jstr :: "json \<Rightarrow> bool" where
  "is_jstr (JStr s) = True"
| "is_jstr _ = False"

definition compact_entry :: "(string \<times> json) list \<Rightarrow> json" where
  "compact_entry item =
     (let relative = jget item ''relativePath''; file_path = jget item ''filePath'';
          additions = jget item ''additions''; deletions = jget item ''deletions''; status = jget item ''type''
      in JObj (opt_entry (is_jstr relative \<or> is_jstr file_path) ''path'' (if is_jstr relative then relative else file_path)
             @ opt_entry (valid_count additions) ''additions'' additions
             @ opt_entry (valid_count deletions) ''deletions'' deletions
             @ opt_entry (is_jstr status \<and> py_truthy status) ''status'' status))"

definition compact_tool_files :: "json list \<Rightarrow> json list" where
  "compact_tool_files source_files = map compact_entry (dict_entries source_files)"

definition valid_source_diffstats :: "json \<Rightarrow> bool" where
  "valid_source_diffstats v =
     (case v of
        JObj d \<Rightarrow> list_all (\<lambda>k. valid_count (jget d k)) [''additions'', ''deletions'', ''files'']
      | _ \<Rightarrow> False)"

definition edit_diff_files :: "(string \<times> json) list \<Rightarrow> skel_error + diff_file list option" where
  "edit_diff_files metadata = files_from_diff_text (jget metadata ''diff'')"

text \<open>\<open>Inl\<close> is an exception of the parser.\<close>

definition aggregate_metadata_diffstats :: "(string \<times> json) list \<Rightarrow> json \<Rightarrow> skel_error + json option" where
  "aggregate_metadata_diffstats metadata tool =
     (if valid_source_diffstats (jget metadata ''diffStats'') then Inr None
      else case compute_diffstats (jget metadata ''filediff'') of
             Some ds \<Rightarrow> Inr (Some ds)
           | None \<Rightarrow>
               (case (case jget metadata ''files'' of
                        JArr xs \<Rightarrow> if xs = [] then None else compute_diffstats_from_files (compact_tool_files xs)
                      | _ \<Rightarrow> None) of
                  Some ds \<Rightarrow> Inr (Some ds)
                | None \<Rightarrow>
                    if tool = JStr ''edit'' \<and> jget metadata ''truncated'' \<noteq> JBool True
                    then map_sum id (\<lambda>parsed. case parsed of
                           None \<Rightarrow> None
                         | Some fs \<Rightarrow> compute_diffstats_from_files (map diff_file_json fs)) (edit_diff_files metadata)
                    else Inr None))"

section \<open>The parser fails only on an overlong count\<close>

definition overlong_group :: "string option \<Rightarrow> bool" where
  "overlong_group g = (case g of None \<Rightarrow> False | Some txt \<Rightarrow> length txt > INT_MAX_STR_DIGITS)"

text \<open>A hunk header with a line count that \<^verbatim>\<open>int()\<close> refuses to convert.\<close>

definition overlong_count :: "string \<Rightarrow> bool" where
  "overlong_count line =
     (case hunk_groups line of None \<Rightarrow> False | Some (old_count, new_count) \<Rightarrow> overlong_group old_count \<or> overlong_group new_count)"

lemma hunk_side_digits: "hunk_side s = Some (Some txt, r) \<Longrightarrow> txt \<noteq> [] \<and> list_all is_digit txt"
  by (auto simp: hunk_side_def Let_def list_all_iff dest: set_takeWhileD split: if_splits)

lemma group_count_digits:
  "(\<And>txt. g = Some txt \<Longrightarrow> txt \<noteq> [] \<and> list_all is_digit txt) \<Longrightarrow>
     if overlong_group g then group_count g = Inl Value_Error else \<exists>n. group_count g = Inr n"
  by (cases g) (auto simp: group_count_def overlong_group_def py_digits_plain)

lemma hunk_budget_fails:
  "if overlong_count line then hunk_line_budget line = Inl Value_Error else \<exists>b. hunk_line_budget line = Inr b"
proof (cases "hunk_groups line")
  case (Some g)
  obtain m n where g: "g = (m, n)" by (cases g)
  have "t \<noteq> [] \<and> list_all is_digit t" if "m = Some t \<or> n = Some t" for t
    using Some that by (auto simp: g hunk_groups_def dest!: hunk_side_digits split: if_splits option.splits)
  then show ?thesis
    using group_count_digits[of m] group_count_digits[of n] Some
    by (auto simp: g overlong_count_def hunk_line_budget_def split: if_splits)
qed (simp add: overlong_count_def hunk_line_budget_def)

definition diff_ok :: "diff_parser \<Rightarrow> bool" where
  "diff_ok p \<longleftrightarrow>
     (dp_state p = In_Hunk \<longrightarrow> dp_current p \<noteq> None \<and> dp_left p \<noteq> None)
     \<and> (\<forall>f \<in> set (dp_files p). 0 \<le> df_additions f \<and> 0 \<le> df_deletions f)
     \<and> (\<forall>f. dp_current p = Some f \<longrightarrow> 0 \<le> df_additions f \<and> (if dp_counted p then 1 else 0) \<le> df_deletions f)"

lemma diff_ok_start: "diff_ok diff_start"
  by (simp add: diff_ok_def diff_start_def)


lemma diff_ok_weaken: "diff_ok p \<Longrightarrow> dp_current p = Some f \<Longrightarrow> 0 \<le> df_additions f \<and> 0 \<le> df_deletions f"
  by (auto simp: diff_ok_def split: if_splits)

lemma diff_ok_closed:
  assumes "diff_ok p" and "dp_files q = dp_files (close_section p)" and "dp_state q \<noteq> In_Hunk"
    and "dp_current q = None \<or> (\<exists>n. dp_current q = Some \<lparr>df_path = n, df_additions = 0, df_deletions = 0\<rparr> \<and> \<not> dp_counted q)"
  shows "diff_ok q"
proof -
  have "0 \<le> df_additions f \<and> 0 \<le> df_deletions f" if "f \<in> set (dp_files q)" for f
    using that assms(1,2) diff_ok_weaken[OF assms(1)]
    by (auto simp: close_section_def diff_ok_def split: option.splits if_splits)
  then show ?thesis using assms(3,4) unfolding diff_ok_def by auto
qed

lemma pair_line_ok: "diff_ok p \<Longrightarrow> diff_ok (pair_line old line p)"
proof -
  assume ok: "diff_ok p"
  define p1 where "p1 = (if dp_counted p then p\<lparr>dp_current := map_option (add_deletions (- 1)) (dp_current p), dp_counted := False\<rparr> else p)"
  have "diff_ok p1" using ok by (auto simp: p1_def diff_ok_def)
  then show ?thesis
    by (rule diff_ok_closed) (auto simp: pair_line_def p1_def close_section_def Let_def split: option.split)
qed

lemma hunk_line_ok:
  assumes ok: "diff_ok p" and st: "dp_state p = In_Hunk"
  shows "\<exists>p'. hunk_line line p = Inr p' \<and> diff_ok p'"
proof -
  obtain f n where f: "dp_current p = Some f" and n: "dp_left p = Some n" using ok st by (auto simp: diff_ok_def)
  have pos: "0 \<le> df_additions f" "0 \<le> df_deletions f" using diff_ok_weaken[OF ok f] by auto
  have files: "\<forall>f \<in> set (dp_files p). 0 \<le> df_additions f \<and> 0 \<le> df_deletions f" using ok by (simp add: diff_ok_def)
  have keep: "diff_ok (no_pending p)" using ok pos f by (simp add: diff_ok_def no_pending_def)
  show ?thesis
    using keep f n st pos files by (simp add: hunk_line_def Let_def diff_ok_def no_pending_def)
qed

lemma plain_line_ok:
  assumes ok: "diff_ok p"
  shows "dp_current p = Some f \<Longrightarrow> dp_state p = In_File \<Longrightarrow> open_hunk line p = Inr p' \<Longrightarrow> diff_ok p'"
    and "diff_ok (p\<lparr>dp_pending := Some old, dp_counted := False\<rparr>)"
    and "diff_ok (p\<lparr>dp_pending := None\<rparr>)"
  using ok diff_ok_weaken[OF ok] by (auto simp: diff_ok_def no_pending_def open_hunk_def Let_def split: option.splits sum.splits if_splits)

lemma open_hunk_fails:
  "if overlong_count line then open_hunk line p = Inl Value_Error else \<exists>p'. open_hunk line p = Inr p'"
  using hunk_budget_fails[of line] by (auto simp: open_hunk_def Let_def split: if_splits)

lemma diff_line_ok:
  assumes "diff_ok p"
  shows "(\<exists>p'. diff_line l p = Inr p' \<and> diff_ok p') \<or> diff_line l p = Inl Value_Error \<and> overlong_count (rstrip (CHR 0x0D) l)"
proof -
  define line where "line = rstrip (CHR 0x0D) l"
  consider (pair) old where "starts_with ''+++ '' line" "dp_pending p = Some old"
    | (git) "\<not> (starts_with ''+++ '' line \<and> dp_pending p \<noteq> None)" "starts_with ''diff --git '' line"
    | (index) "\<not> (starts_with ''+++ '' line \<and> dp_pending p \<noteq> None)" "\<not> starts_with ''diff --git '' line" "starts_with ''Index: '' line"
    | (body) "\<not> (starts_with ''+++ '' line \<and> dp_pending p \<noteq> None)" "\<not> starts_with ''diff --git '' line" "\<not> starts_with ''Index: '' line"
    by blast
  then show ?thesis
  proof cases
    case pair
    then show ?thesis using pair_line_ok[OF assms] by (simp add: diff_line_def line_def)
  next
    case git
    have "diff_ok ((close_section p)\<lparr>dp_index := None, dp_left := None, dp_state := Idle\<rparr>)"
      by (rule diff_ok_closed[OF assms]) (simp_all add: close_section_def)
    then show ?thesis using git(2) git(1) unfolding diff_line_def line_def[symmetric] Let_def by auto
  next
    case index
    have "diff_ok ((close_section p)\<lparr>dp_index := or_none (py_strip (drop 7 line)), dp_left := None, dp_state := In_File\<rparr>)"
      by (rule diff_ok_closed[OF assms]) (simp_all add: close_section_def)
    then show ?thesis using index(3) index(1,2) unfolding diff_line_def line_def[symmetric] Let_def by auto
  next
    case body
    have "(\<exists>p'. open_hunk line p = Inr p' \<and> diff_ok p') \<or> open_hunk line p = Inl Value_Error \<and> overlong_count line"
      if "dp_state p = In_File" "dp_current p \<noteq> None"
      using that open_hunk_fails[of line p] plain_line_ok(1)[OF assms] by (auto split: if_splits)
    with body show ?thesis
      unfolding diff_line_def line_def[symmetric] Let_def
      using hunk_line_ok[OF assms] plain_line_ok(2,3)[OF assms] assms by auto
  qed
qed

lemma diff_lines_ok:
  "diff_ok p \<Longrightarrow> (\<exists>p'. diff_lines ls p = Inr p' \<and> diff_ok p')
     \<or> diff_lines ls p = Inl Value_Error \<and> \<not> list_all (\<lambda>l. \<not> overlong_count (rstrip (CHR 0x0D) l)) ls"
proof (induction ls arbitrary: p)
  case (Cons l ls)
  from diff_line_ok[OF Cons.prems, of l] show ?case
  proof
    assume "\<exists>q. diff_line l p = Inr q \<and> diff_ok q"
    then obtain q where "diff_line l p = Inr q" "diff_ok q" by blast
    with Cons.IH[of q] show ?case by auto
  qed simp
qed simp

text \<open>No line of a text is a hunk header with an overlong count.\<close>

definition diff_counts_fit :: "json \<Rightarrow> bool" where
  "diff_counts_fit v =
     (case v of JStr s \<Rightarrow> list_all (\<lambda>l. \<not> overlong_count (rstrip (CHR 0x0D) l)) (split_on newline s) | _ \<Rightarrow> True)"

lemma files_from_diff_text_total:
  "(\<exists>r. files_from_diff_text v = Inr r \<and> (\<forall>fs. r = Some fs \<longrightarrow> fs \<noteq> [] \<and> (\<forall>f \<in> set fs. 0 \<le> df_additions f \<and> 0 \<le> df_deletions f)))
   \<or> files_from_diff_text v = Inl Value_Error \<and> \<not> diff_counts_fit v"
proof (cases v)
  case (JStr s)
  show ?thesis using diff_lines_ok[OF diff_ok_start, of "split_on newline s"]
  proof
    assume "\<exists>p. diff_lines (split_on newline s) diff_start = Inr p \<and> diff_ok p"
    then obtain p where p: "diff_lines (split_on newline s) diff_start = Inr p" "diff_ok p" by blast
    have "\<forall>f \<in> set (dp_files (close_section p)). 0 \<le> df_additions f \<and> 0 \<le> df_deletions f"
      using diff_ok_closed[OF p(2), of "(close_section p)\<lparr>dp_state := Idle\<rparr>"]
      by (simp add: diff_ok_def) (simp add: close_section_def)
    with p(1) JStr show ?thesis by (simp add: files_from_diff_text_def Let_def)
  qed (simp add: JStr files_from_diff_text_def diff_counts_fit_def)
qed (simp_all add: files_from_diff_text_def)

section \<open>Rendered diffs\<close>

datatype body_line = Ctx string | Add string | Del string | Marker string

fun render_line :: "body_line \<Rightarrow> string" where
  "render_line (Ctx s) = CHR '' '' # s"
| "render_line (Add s) = CHR ''+'' # s"
| "render_line (Del s) = CHR ''-'' # s"
| "render_line (Marker s) = CHR 0x5C # s"

fun line_cost :: "body_line \<Rightarrow> nat" where
  "line_cost (Ctx s) = 2"
| "line_cost (Add s) = 1"
| "line_cost (Del s) = 1"
| "line_cost (Marker s) = 0"

fun is_add :: "body_line \<Rightarrow> bool" where "is_add (Add s) = True" | "is_add _ = False"
fun is_del :: "body_line \<Rightarrow> bool" where "is_del (Del s) = True" | "is_del _ = False"
fun is_ctx :: "body_line \<Rightarrow> bool" where "is_ctx (Ctx s) = True" | "is_ctx _ = False"

record hunk =
  hk_old :: nat
  hk_new :: nat
  hk_tail :: string
  hk_body :: "body_line list"

record diff_section =
  ds_index :: "string option"
  ds_old :: string
  ds_new :: string
  ds_hunks :: "hunk list"

definition hunk_header :: "hunk \<Rightarrow> string" where
  "hunk_header h =
     ''@@ -'' @ show_nat (hk_old h) @ '','' @ show_nat (length (filter (\<lambda>l. is_del l \<or> is_ctx l) (hk_body h)))
     @ '' +'' @ show_nat (hk_new h) @ '','' @ show_nat (length (filter (\<lambda>l. is_add l \<or> is_ctx l) (hk_body h))) @ '' @@'' @ hk_tail h"

definition render_hunk :: "hunk \<Rightarrow> string list" where
  "render_hunk h = hunk_header h # map render_line (hk_body h)"

definition render_section :: "diff_section \<Rightarrow> string list" where
  "render_section s =
     (case ds_index s of None \<Rightarrow> [] | Some i \<Rightarrow> [''Index: '' @ i, replicate 67 (CHR ''='')])
     @ [''--- '' @ ds_old s, ''+++ '' @ ds_new s] @ concat (map render_hunk (ds_hunks s))"

text \<open>
  A removed line that starts with two dashes, directly followed by an added one that starts with two
  pluses, looks like the header pair of a next file.
\<close>

definition looks_paired :: "body_line \<Rightarrow> body_line \<Rightarrow> bool" where
  "looks_paired a b = (case (a, b) of (Del s, Add t) \<Rightarrow> starts_with ''-- '' s \<and> starts_with ''++ '' t | _ \<Rightarrow> False)"

definition clean :: "string \<Rightarrow> bool" where
  "clean s \<longleftrightarrow> newline \<notin> set s \<and> (s = [] \<or> last s \<noteq> CHR 0x0D)"

definition hunk_ok :: "hunk \<Rightarrow> bool" where
  "hunk_ok h \<longleftrightarrow> clean (hk_tail h) \<and> list_all (\<lambda>l. clean (render_line l)) (hk_body h)
     \<and> successively (\<lambda>a b. \<not> looks_paired a b) (hk_body h) \<and> length (hk_body h) < 10 ^ INT_MAX_STR_DIGITS"

definition section_path :: "diff_section \<Rightarrow> string option" where
  "section_path s =
     (case ds_index s of
        Some i \<Rightarrow> (case or_none (py_strip i) of Some q \<Rightarrow> Some q | None \<Rightarrow> pair_path (ds_old s) (ds_new s))
      | None \<Rightarrow> pair_path (ds_old s) (ds_new s))"

definition section_ok :: "diff_section \<Rightarrow> bool" where
  "section_ok s \<longleftrightarrow> section_path s \<noteq> None \<and> clean (ds_old s) \<and> clean (ds_new s) \<and> ds_old s \<noteq> [] \<and> ds_new s \<noteq> []
     \<and> (\<forall>i. ds_index s = Some i \<longrightarrow> clean i) \<and> list_all hunk_ok (ds_hunks s)"

definition section_file :: "diff_section \<Rightarrow> diff_file" where
  "section_file s =
     (let ls = concat (map hk_body (ds_hunks s))
      in \<lparr>df_path = the (section_path s), df_additions = int (length (filter is_add ls)), df_deletions = int (length (filter is_del ls))\<rparr>)"

section \<open>Parsing what was rendered\<close>

lemma rstrip_clean: "clean s \<Longrightarrow> rstrip (CHR 0x0D) s = s"
  unfolding rstrip_def clean_def by (cases s rule: rev_cases) auto

lemma takeWhile_show_nat [simp]: "takeWhile is_digit (show_nat n @ s) = show_nat n @ takeWhile is_digit s"
  "dropWhile is_digit (show_nat n @ s) = dropWhile is_digit s"
  using show_nat_digits[of n] by (auto simp: list_all_iff takeWhile_append2 dropWhile_append2)

lemma not_digits [simp]: "\<not> is_digit (CHR '','')" "\<not> is_digit (CHR '' '')"
  by (simp_all add: is_digit_def code_point_def)

fun body_cost :: "body_line list \<Rightarrow> nat" where
  "body_cost [] = 0"
| "body_cost (l # ls) = line_cost l + body_cost ls"

lemma hunk_header_budget:
  assumes "length (hk_body h) < 10 ^ INT_MAX_STR_DIGITS"
  shows "hunk_line_budget (hunk_header h) = Inr (Some (body_cost (hk_body h)))"
proof -
  have short: "length (show_nat (length (filter P (hk_body h)))) \<le> INT_MAX_STR_DIGITS" for P
    by (rule length_show_nat) (use assms in \<open>auto intro: le_less_trans[OF length_filter_le]\<close>)
  have cost: "length (filter (\<lambda>l. is_del l \<or> is_ctx l) ls) + length (filter (\<lambda>l. is_add l \<or> is_ctx l) ls) = body_cost ls" for ls
  proof (induction ls)
    case (Cons l ls)
    then show ?case by (cases l) auto
  qed simp
  show ?thesis
    unfolding hunk_line_budget_def hunk_groups_def hunk_header_def hunk_side_def
    by (simp add: starts_with_def cost group_count_def py_digits_plain short show_nat_digits)
qed

definition bump :: "body_line list \<Rightarrow> diff_file \<Rightarrow> diff_file" where
  "bump ls f = f\<lparr>df_additions := df_additions f + int (length (filter is_add ls)),
                 df_deletions := df_deletions f + int (length (filter is_del ls))\<rparr>"

lemma body_step:
  assumes "clean (render_line l)" and "dp_current p = Some f" and "dp_left p = Some n"
    and "0 < n" and "dp_state p = In_Hunk"
    and "dp_pending p \<noteq> None \<Longrightarrow> \<not> (\<exists>t. l = Add t \<and> starts_with ''++ '' t)"
  shows "diff_line (render_line l) p =
    Inr (p\<lparr>dp_current := Some (bump [l] f), dp_left := Some (n - int (line_cost l)),
            dp_state := (if n - int (line_cost l) \<le> 0 then In_File else In_Hunk),
            dp_pending := (case l of Del s \<Rightarrow> if starts_with ''-- '' s \<and> n > 1 then Some (drop 3 s) else None | _ \<Rightarrow> None),
            dp_counted := (case l of Del s \<Rightarrow> starts_with ''-- '' s \<and> n > 1 | _ \<Rightarrow> False)\<rparr>)"
  using assms
  by (cases l; cases "dp_pending p")
    (simp_all add: diff_line_def rstrip_clean hunk_line_def starts_with_def bump_def Let_def no_pending_def)

lemma idle_marker:
  assumes "clean (render_line (Marker s))" and "dp_state p \<noteq> In_Hunk"
  shows "diff_line (render_line (Marker s)) p = Inr p"
  using assms(2) unfolding diff_line_def rstrip_clean[OF assms(1)] Let_def by (simp add: starts_with_def)

lemma body_run:
  assumes "list_all (\<lambda>l. clean (render_line l)) ls" and "successively (\<lambda>a b. \<not> looks_paired a b) ls"
    and "dp_current p = Some f" and "dp_left p = Some (int (body_cost ls))"
    and "dp_state p = (if body_cost ls = 0 then In_File else In_Hunk)"
    and "body_cost ls = 0 \<Longrightarrow> dp_pending p = None \<and> \<not> dp_counted p"
    and "dp_pending p \<noteq> None \<Longrightarrow> ls \<noteq> [] \<Longrightarrow> \<not> (\<exists>t. hd ls = Add t \<and> starts_with ''++ '' t)"
  shows "diff_lines (map render_line ls) p =
    Inr (p\<lparr>dp_current := Some (bump ls f), dp_left := Some 0, dp_state := In_File, dp_pending := None, dp_counted := False\<rparr>)"
  using assms
proof (induction ls arbitrary: p f)
  case Nil
  then show ?case by (simp add: bump_def)
next
  case (Cons l ls)
  show ?case
  proof (cases "body_cost (l # ls) = 0")
    case True
    then obtain s where l: "l = Marker s" by (cases l) auto
    have "diff_line (render_line l) p = Inr p" using Cons.prems True l idle_marker by auto
    moreover have "bump (l # ls) f = bump ls f" using l by (simp add: bump_def)
    ultimately show ?thesis using Cons.IH[of p f] Cons.prems True l
      by (auto simp: successively_Cons)
  next
    case False
    define n where "n = int (body_cost (l # ls))"
    define q where "q = p\<lparr>dp_current := Some (bump [l] f), dp_left := Some (n - int (line_cost l)),
            dp_state := (if n - int (line_cost l) \<le> 0 then In_File else In_Hunk),
            dp_pending := (case l of Del s \<Rightarrow> if starts_with ''-- '' s \<and> n > 1 then Some (drop 3 s) else None | _ \<Rightarrow> None),
            dp_counted := (case l of Del s \<Rightarrow> starts_with ''-- '' s \<and> n > 1 | _ \<Rightarrow> False)\<rparr>"
    have step: "diff_line (render_line l) p = Inr q"
      unfolding q_def by (rule body_step) (use Cons.prems False in \<open>auto simp: n_def\<close>)
    have rest: "n - int (line_cost l) = int (body_cost ls)" by (simp add: n_def)
    have "\<not> (\<exists>t. hd ls = Add t \<and> starts_with ''++ '' t)" if "dp_pending q \<noteq> None" "ls \<noteq> []"
      using that Cons.prems(2) by (cases ls) (auto simp: q_def looks_paired_def split: body_line.splits if_splits)
    moreover have "dp_pending q = None \<and> \<not> dp_counted q" if "body_cost ls = 0"
      using that rest by (auto simp: q_def n_def split: body_line.splits)
    ultimately have "diff_lines (map render_line ls) q =
        Inr (q\<lparr>dp_current := Some (bump ls (bump [l] f)), dp_left := Some 0, dp_state := In_File, dp_pending := None, dp_counted := False\<rparr>)"
      by (intro Cons.IH) (use Cons.prems rest in \<open>auto simp: q_def successively_Cons\<close>)
    moreover have "bump ls (bump [l] f) = bump (l # ls) f" by (simp add: bump_def)
    ultimately show ?thesis using step by (simp add: q_def)
  qed
qed

lemma diff_lines_append:
  "diff_lines (ks @ ls) p = (case diff_lines ks p of Inl e \<Rightarrow> Inl e | Inr q \<Rightarrow> diff_lines ls q)"
  by (induction ks arbitrary: p) (auto split: sum.split)

lemma newline_chr: "newline = CHR 0x0A"
  by (simp add: newline_def char_of_def bit_Suc_0_iff)

lemma clean_show: "clean (show_nat n)"
proof -
  have "is_digit c" if "c \<in> set (show_nat n)" for c using that show_nat_digits[of n] by (simp add: list_all_iff)
  moreover have "\<not> is_digit (CHR 0x0D)" "\<not> is_digit newline" by (simp_all add: is_digit_def code_point_def newline_def)
  ultimately show ?thesis unfolding clean_def by (metis last_in_set show_nat_neq_Nil)
qed

lemma hunk_header_clean: "clean (hk_tail h) \<Longrightarrow> clean (hunk_header h)"
  using clean_show by (auto simp: clean_def hunk_header_def newline_chr)

lemma open_hunk_header:
  assumes "length (hk_body h) < 10 ^ INT_MAX_STR_DIGITS" and "dp_state p = In_File"
  shows "open_hunk (hunk_header h) p =
    Inr ((no_pending p)\<lparr>dp_left := Some (int (body_cost (hk_body h))),
           dp_state := (if body_cost (hk_body h) = 0 then In_File else In_Hunk)\<rparr>)"
  using assms by (simp add: open_hunk_def hunk_header_budget no_pending_def Let_def)

lemma hunk_run:
  assumes "hunk_ok h" and "dp_current p = Some f" and "dp_state p = In_File"
  shows "diff_lines (render_hunk h) p =
    Inr (p\<lparr>dp_current := Some (bump (hk_body h) f), dp_left := Some 0, dp_pending := None, dp_counted := False\<rparr>)"
proof -
  have h: "clean (hk_tail h)" "list_all (\<lambda>l. clean (render_line l)) (hk_body h)" "successively (\<lambda>a b. \<not> looks_paired a b) (hk_body h)"
    "length (hk_body h) < 10 ^ INT_MAX_STR_DIGITS"
    using assms(1) by (auto simp: hunk_ok_def)
  define q where "q = (no_pending p)\<lparr>dp_left := Some (int (body_cost (hk_body h))),
      dp_state := (if body_cost (hk_body h) = 0 then In_File else In_Hunk)\<rparr>"
  have "diff_line (hunk_header h) p = Inr q"
    unfolding diff_line_def rstrip_clean[OF hunk_header_clean[OF h(1)]] Let_def q_def
    using assms(2,3) open_hunk_header[OF h(4) assms(3)] by (simp add: hunk_header_def starts_with_def)
  moreover have "diff_lines (map render_line (hk_body h)) q =
      Inr (q\<lparr>dp_current := Some (bump (hk_body h) f), dp_left := Some 0, dp_state := In_File, dp_pending := None, dp_counted := False\<rparr>)"
    by (rule body_run) (use h assms in \<open>auto simp: q_def no_pending_def\<close>)
  ultimately show ?thesis using assms(3) by (simp add: render_hunk_def q_def no_pending_def)
qed

lemma hunks_run:
  assumes "list_all hunk_ok hs" and "dp_current p = Some f" and "dp_state p = In_File" and "dp_pending p = None" and "\<not> dp_counted p"
  shows "\<exists>n. diff_lines (concat (map render_hunk hs)) p = Inr (p\<lparr>dp_current := Some (bump (concat (map hk_body hs)) f), dp_left := n\<rparr>)"
  using assms
proof (induction hs arbitrary: p f)
  case Nil
  then show ?case by (intro exI[of _ "dp_left p"]) (simp add: bump_def)
next
  case (Cons h hs)
  define q where "q = p\<lparr>dp_current := Some (bump (hk_body h) f), dp_left := Some 0, dp_pending := None, dp_counted := False\<rparr>"
  have "diff_lines (render_hunk h) p = Inr q" unfolding q_def by (rule hunk_run) (use Cons.prems in auto)
  moreover obtain n where "diff_lines (concat (map render_hunk hs)) q = Inr (q\<lparr>dp_current := Some (bump (concat (map hk_body hs)) (bump (hk_body h) f)), dp_left := n\<rparr>)"
    using Cons.IH[of q "bump (hk_body h) f"] Cons.prems by (auto simp: q_def)
  moreover have "bump (concat (map hk_body hs)) (bump (hk_body h) f) = bump (concat (map hk_body (h # hs))) f" by (simp add: bump_def)
  ultimately show ?case using Cons.prems by (auto simp: diff_lines_append q_def intro!: exI[of _ n] diff_parser.equality)
qed

lemma section_headers:
  assumes "section_ok s" and "dp_pending p = None" and "\<not> dp_counted p" and "dp_index p = None" and "dp_state p \<noteq> In_Hunk"
  shows "diff_lines (take (length (render_section s) - length (concat (map render_hunk (ds_hunks s)))) (render_section s)) p =
    Inr (p\<lparr>dp_files := dp_files (close_section p), dp_state := In_File,
      dp_current := Some \<lparr>df_path = the (section_path s), df_additions = 0, df_deletions = 0\<rparr>, dp_paired := True, dp_left := None\<rparr>)"
proof -
  have old: "clean (''--- '' @ ds_old s)" and new: "clean (''+++ '' @ ds_new s)"
    and sep: "clean (replicate 67 (CHR ''=''))" and idx: "\<And>i. ds_index s = Some i \<Longrightarrow> clean (''Index: '' @ i)"
    using assms(1) by (auto simp: section_ok_def clean_def newline_chr)
  obtain path where path: "section_path s = Some path" using assms(1) by (auto simp: section_ok_def)
  have o: "diff_line (''--- '' @ ds_old s) q = Inr (q\<lparr>dp_pending := Some (ds_old s), dp_counted := False\<rparr>)" if "dp_state q \<noteq> In_Hunk" for q
    unfolding diff_line_def rstrip_clean[OF old] Let_def using that by (simp add: starts_with_def)
  have n: "diff_line (''+++ '' @ ds_new s) q = Inr (pair_line (ds_old s) (''+++ '' @ ds_new s) q)" if "dp_pending q = Some (ds_old s)" for q
    unfolding diff_line_def rstrip_clean[OF new] Let_def using that by (simp add: starts_with_def)
  have e: "diff_line (replicate 67 (CHR ''='')) q = Inr q" if "dp_state q \<noteq> In_Hunk" for q
    unfolding diff_line_def rstrip_clean[OF sep] Let_def using that by (simp add: starts_with_def numeral_eq_Suc)
  have i: "diff_line (''Index: '' @ j) q = Inr ((close_section q)\<lparr>dp_index := or_none (py_strip j), dp_left := None, dp_state := In_File\<rparr>)"
    if "ds_index s = Some j" for j q
    unfolding diff_line_def rstrip_clean[OF idx[OF that]] Let_def by (simp add: starts_with_def)
  show ?thesis
  proof (cases "ds_index s")
    case None
    then show ?thesis using assms(2-5) path
      by (simp add: render_section_def o[simplified] n[simplified] pair_line_def section_path_def close_section_def Let_def) (auto intro!: diff_parser.equality split: option.split)
  next
    case (Some j)
    show ?thesis
    proof (cases "or_none (py_strip j)")
      case None
      then show ?thesis using Some assms(2-5) path
        by (simp add: render_section_def o[simplified] n[simplified] e[simplified] i[simplified] pair_line_def section_path_def close_section_def Let_def)
    next
      case (Some q)
      then show ?thesis using \<open>ds_index s = Some j\<close> assms(2-5) path
        by (simp add: render_section_def o[simplified] n[simplified] e[simplified] i[simplified] pair_line_def section_path_def close_section_def Let_def)
    qed
  qed
qed

lemma section_run:
  assumes "section_ok s" and "dp_pending p = None" and "\<not> dp_counted p" and "dp_index p = None" and "dp_state p \<noteq> In_Hunk"
  shows "\<exists>n. diff_lines (render_section s) p =
    Inr (p\<lparr>dp_files := dp_files (close_section p), dp_state := In_File, dp_paired := True, dp_current := Some (section_file s), dp_left := n\<rparr>)"
proof -
  define hs where "hs = concat (map render_hunk (ds_hunks s))"
  define hd where "hd = take (length (render_section s) - length hs) (render_section s)"
  have split: "render_section s = hd @ hs" by (simp add: hd_def hs_def render_section_def)
  define q where "q = p\<lparr>dp_files := dp_files (close_section p), dp_state := In_File,
      dp_current := Some \<lparr>df_path = the (section_path s), df_additions = 0, df_deletions = 0\<rparr>, dp_paired := True, dp_left := None\<rparr>"
  have h: "diff_lines hd p = Inr q" using section_headers[OF assms] by (simp add: hd_def hs_def q_def)
  obtain n where n: "diff_lines hs q = Inr (q\<lparr>dp_current := Some (bump (concat (map hk_body (ds_hunks s))) \<lparr>df_path = the (section_path s), df_additions = 0, df_deletions = 0\<rparr>), dp_left := n\<rparr>)"
    using hunks_run[of "ds_hunks s" q] assms by (auto simp: hs_def q_def section_ok_def)
  have f: "bump (concat (map hk_body (ds_hunks s))) \<lparr>df_path = the (section_path s), df_additions = 0, df_deletions = 0\<rparr> = section_file s"
    by (simp add: bump_def section_file_def Let_def)
  show ?thesis unfolding split diff_lines_append h using n f by (auto simp: q_def)
qed

lemma sections_run:
  assumes "list_all section_ok ss" and "dp_pending p = None" and "\<not> dp_counted p" and "dp_index p = None" and "dp_state p \<noteq> In_Hunk"
    and "dp_current p \<noteq> None \<longrightarrow> dp_paired p"
  shows "\<exists>q. diff_lines (concat (map render_section ss)) p = Inr q \<and> dp_files (close_section q) = dp_files (close_section p) @ map section_file ss"
  using assms
proof (induction ss arbitrary: p)
  case (Cons s ss)
  from section_run[of s p] Cons.prems obtain n where run: "diff_lines (render_section s) p =
      Inr (p\<lparr>dp_files := dp_files (close_section p), dp_state := In_File, dp_paired := True, dp_current := Some (section_file s), dp_left := n\<rparr>)"
    (is "_ = Inr ?q") by auto
  have "dp_files (close_section ?q) = dp_files (close_section p) @ [section_file s]" by (simp add: close_section_def)
  with run Cons.IH[of ?q] Cons.prems show ?case by (simp add: diff_lines_append)
qed simp

lemma section_lines_clean: "section_ok s \<Longrightarrow> l \<in> set (render_section s) \<Longrightarrow> newline \<notin> set l"
proof -
  assume ok: "section_ok s" and l: "l \<in> set (render_section s)"
  have "newline \<notin> set m" if "m \<in> set (render_hunk h)" "hunk_ok h" for m h
    using that hunk_header_clean[of h] by (auto simp: render_hunk_def hunk_ok_def clean_def list_all_iff)
  with ok l show ?thesis
    by (auto simp: render_section_def section_ok_def clean_def list_all_iff newline_chr split: option.splits)
qed

text \<open>
  C14. The parser of diff text counts exactly. On the text of a non-empty list of file sections - each with an
  optional \<^verbatim>\<open>Index:\<close> line, a pair of headers that names a file, and any hunks whose headers announce their bodies -
  it returns one entry per section, in order, with its path and the number of added and removed lines,
  whatever the lines contain: text that looks like a header inside a hunk is body. Only a removed line that starts with
  two dashes right before an added one that starts with two pluses is excluded, and a hunk of $10^{4300}$ lines or more,
  whose announced count \<^verbatim>\<open>int()\<close> would refuse.
\<close>

theorem diff_text_counts:
  assumes "ss \<noteq> []" and "list_all section_ok ss"
  shows "files_from_diff_text (JStr (join_with newline (concat (map render_section ss)))) = Inr (Some (map section_file ss))"
proof -
  have ne: "concat (map render_section ss) \<noteq> []" using assms(1) by (cases ss) (simp_all add: render_section_def)
  have nl: "list_all (\<lambda>l. newline \<notin> set l) (concat (map render_section ss))"
    using assms(2) section_lines_clean by (fastforce simp: list_all_iff)
  have split: "split_on newline (join_with newline (concat (map render_section ss))) = concat (map render_section ss)"
    by (rule split_join_parts[OF ne nl])
  obtain q where "diff_lines (concat (map render_section ss)) diff_start = Inr q" "dp_files (close_section q) = map section_file ss"
    using sections_run[OF assms(2), of diff_start] by (auto simp: diff_start_def close_section_def)
  with split assms(1) show ?thesis by (simp add: files_from_diff_text_def Let_def)
qed

definition demo_section :: diff_section where
  "demo_section = \<lparr>ds_index = Some ''src/a.py'', ds_old = ''src/a.py'', ds_new = ''src/a.py'',
     ds_hunks = [\<lparr>hk_old = 1, hk_new = 1, hk_tail = [], hk_body = [Ctx ''x'', Del ''-- y'', Del ''z'', Add ''++ w'']\<rparr>]\<rparr>"

theorem diff_text_counts_witness:
  "files_from_diff_text (JStr (join_with newline (concat (map render_section [demo_section]))))
     = Inr (Some [\<lparr>df_path = ''src/a.py'', df_additions = 1, df_deletions = 2\<rparr>])"
proof -
  have "py_strip ''src/a.py'' = ''src/a.py''" by (simp add: py_strip_def is_py_space_def code_point_def)
  then have "section_path demo_section = Some ''src/a.py''" by (simp add: section_path_def demo_section_def or_none_def)
  then show ?thesis
    using diff_text_counts[of "[demo_section]"] self_le_power[of "10::nat" INT_MAX_STR_DIGITS]
    by (simp add: less_le_trans[of _ 10] section_ok_def hunk_ok_def clean_def newline_chr looks_paired_def starts_with_def section_file_def demo_section_def)
qed

text \<open>A count with too many digits makes the parser raise.\<close>

lemma overlong_header_fails:
  assumes "INT_MAX_STR_DIGITS < length cs" and "list_all is_digit cs"
  shows "files_from_diff_text (JStr (join_with newline [''--- a'', ''+++ a'', ''@@ -1,'' @ cs @ '' +1 @@''])) = Inl Value_Error"
proof -
  let ?h = "''@@ -1,'' @ cs @ '' +1 @@''"
  have d: "takeWhile is_digit (cs @ CHR '' '' # s) = cs" "dropWhile is_digit (cs @ CHR '' '' # s) = CHR '' '' # s" for s
    using assms(2) by (auto simp: list_all_iff takeWhile_append2 dropWhile_append2)
  have one: "is_digit (CHR ''1'')" by (simp add: is_digit_def code_point_def)
  have cs: "cs \<noteq> []" using assms(1) by auto
  have "overlong_count ?h"
    using assms(1) cs by (simp add: overlong_count_def hunk_groups_def hunk_side_def starts_with_def d one overlong_group_def)
  then have h: "open_hunk ?h p = Inl Value_Error" for p using open_hunk_fails[of ?h p] by simp
  have nl: "newline \<notin> set cs" using assms(2) by (auto simp: list_all_iff is_digit_def code_point_def newline_def)
  have "split_on newline (join_with newline [''--- a'', ''+++ a'', ?h]) = [''--- a'', ''+++ a'', ?h]"
    by (rule split_join_parts) (use nl in \<open>simp_all add: newline_chr\<close>)
  moreover have "clean ?h" using nl by (simp add: clean_def newline_chr)
  then have "rstrip (CHR 0x0D) ?h = ?h" by (rule rstrip_clean)
  ultimately show ?thesis
    using h by (simp add: files_from_diff_text_def diff_line_def diff_start_def starts_with_def rstrip_def pair_line_def pair_path_def
        before_tab_def diff_header_path_def or_none_def close_section_def Let_def)
qed

end
