(* ===== verification/Skeleton.thy ===== *)
theory Skeleton
  imports Skeleton_Diff Py_Sha256 "HOL-Library.Char_ord" "HOL-Library.List_Lexorder"
begin

text \<open>
  The message projection (\<^verbatim>\<open>skeleton.py\<close>): upstream messages are reduced to thin ones, with the large
  fields left out, named in \<^verbatim>\<open>omitted\<close> and reachable by \<^verbatim>\<open>expandRefs\<close>.

  What the code takes from elsewhere is the record \<open>skel_env\<close>: the serializer \<^verbatim>\<open>orjson\<close> (\<open>None\<close> when it
  refuses a value), Python's \<^verbatim>\<open>repr\<close> of floats and containers, the order in which Python iterates a set
  of keys (it changes from process to process), and the title with Chinese characters, which are outside the
  range of the model's characters. Dictionaries keep their order; \<open>Inl\<close> is a raised exception.
\<close>

section \<open>Environment and helpers\<close>

record skel_env =
  se_dumps :: "json \<Rightarrow> string option"
  se_dumps_sorted :: "json \<Rightarrow> string option"
  se_repr :: "json \<Rightarrow> string"
  se_order :: "string list \<Rightarrow> string list"
  se_segments :: "nat \<Rightarrow> string"

record skel_limits =
  sl_field_bytes :: int
  sl_message_bytes :: int
  sl_fingerprint :: bool

definition py_str :: "skel_env \<Rightarrow> json \<Rightarrow> string" where
  "py_str E v =
     (case v of
        JStr s \<Rightarrow> s
      | JInt i \<Rightarrow> show_int i
      | JBool b \<Rightarrow> if b then ''True'' else ''False''
      | JNull \<Rightarrow> ''None''
      | _ \<Rightarrow> se_repr E v)"

type_synonym jdict = "(string \<times> json) list"

abbreviation (input) "PART_IDS \<equiv> [''id'', ''type'', ''messageID'', ''sessionID'']"
abbreviation (input) "TOOL_KEYS \<equiv> [''id'', ''type'', ''messageID'', ''sessionID'', ''tool'', ''callID'']"
abbreviation (input) "TOOL_INPUT_KEYS \<equiv>
  [''path'', ''filePath'', ''file_path'', ''command'', ''agent'', ''description'', ''subagent_type'', ''todos'']"
abbreviation (input) "TOOL_METADATA_KEYS \<equiv>
  [''sessionId'', ''sessionID'', ''description'', ''agent'', ''diffStats'', ''files'']"
abbreviation (input) "FILES_PROJECTION_CAP \<equiv> 10 :: nat"
abbreviation (input) "COMPRESS_TITLE_CLIP_CHARS \<equiv> 160 :: nat"
abbreviation (input) "FILE_URL_LIMIT \<equiv> 8192 :: nat"
abbreviation (input) "COMPACTION_PART_LIMIT \<equiv> 65536 :: nat"
abbreviation (input) "REASONING_INLINE_MAX_BYTES \<equiv> 2048 :: nat"

definition pick :: "skel_env \<Rightarrow> string list \<Rightarrow> jdict \<Rightarrow> jdict" where
  "pick E keys value = List.map_filter (\<lambda>k. map_option (Pair k) (map_of value k)) (se_order E keys)"

definition other_keys :: "string list \<Rightarrow> jdict \<Rightarrow> string list" where
  "other_keys keys d = filter (\<lambda>k. k \<notin> set keys) (map fst d)"

definition mark :: "string list \<Rightarrow> jdict \<Rightarrow> jdict" where
  "mark omitted part =
     (if omitted = [] then part
      else dict_set ''omitted'' (JArr (map JStr (sort (remdups omitted)))) (dict_set ''hasFull'' (JBool True) part))"

definition utf8_bytes_exceeds :: "json \<Rightarrow> nat \<Rightarrow> bool" where
  "utf8_bytes_exceeds text limit = (case text of JStr s \<Rightarrow> utf8_len s > limit | _ \<Rightarrow> False)"

definition expand_ref :: "skel_env \<Rightarrow> string \<Rightarrow> json \<Rightarrow> json option \<Rightarrow> string \<Rightarrow> json" where
  "expand_ref E category message_id part_id sid =
     (let base = ''/slimapi/messages/'' @ sid @ ''/expand/'' @ category @ ''/'' @ py_str E message_id;
          href = (case part_id of Some p \<Rightarrow> base @ ''/'' @ py_str E p @ ''?v=4'' | None \<Rightarrow> base @ ''?v=4'')
      in JObj ([(''category'', JStr category), (''messageID'', message_id), (''href'', JStr href)]
               @ (case part_id of Some p \<Rightarrow> [(''partID'', p)] | None \<Rightarrow> [])))"

fun hashable :: "json \<Rightarrow> bool" where
  "hashable (JArr _) = False"
| "hashable (JObj _) = False"
| "hashable _ = True"

text \<open>The refs of one part all carry its id, so they are the categories; a set of them is hashed.\<close>

definition emit_expand_refs ::
  "skel_env \<Rightarrow> jdict \<Rightarrow> string list \<Rightarrow> json \<Rightarrow> string option \<Rightarrow> skel_error + jdict" where
  "emit_expand_refs E part cats part_id sid =
     (if sid = None \<or> sid = Some [] \<or> cats = [] then Inr part
      else if \<not> py_truthy (jget part ''messageID'') then Inr part
      else if py_truthy part_id \<and> \<not> hashable part_id then Inl Unhashable
      else Inr (dict_set ''expandRefs''
        (JArr (map (\<lambda>c. expand_ref E c (jget part ''messageID'') (Some part_id) (the sid))
                 (if py_truthy part_id then sort (remdups cats) else []))) part))"

definition field_byte_size :: "skel_env \<Rightarrow> json \<Rightarrow> int" where
  "field_byte_size E v = (case se_dumps E v of Some s \<Rightarrow> int (length s) | None \<Rightarrow> int (utf8_len (py_str E v)))"

definition clip :: "json \<Rightarrow> nat \<Rightarrow> string option" where
  "clip v limit = (case v of JStr s \<Rightarrow> if py_strip s = [] then None else Some (take limit (py_strip s)) | _ \<Rightarrow> None)"

section \<open>Tool and patch parts\<close>

text \<open>The locals of a part projection: the thin state, the omitted names, the ref categories, the bytes inlined.\<close>

record thin =
  tn_state :: jdict
  tn_omitted :: "string list"
  tn_cats :: "string list"
  tn_used :: "int option"

definition in_values :: "json \<Rightarrow> json list \<Rightarrow> bool" where
  "in_values v vs \<longleftrightarrow> v \<in> set vs"

definition maybe_inline_state_field :: "skel_env \<Rightarrow> skel_limits \<Rightarrow> jdict \<Rightarrow> string \<Rightarrow> thin \<Rightarrow> thin" where
  "maybe_inline_state_field E L state key t =
     (case map_of state key of
        None \<Rightarrow> t
      | Some v \<Rightarrow>
          let size = field_byte_size E v;
              field_ok = size \<le> sl_field_bytes L;
              budget_ok = (case tn_used t of None \<Rightarrow> True | Some u \<Rightarrow> u + size \<le> sl_message_bytes L)
          in if field_ok \<and> budget_ok
             then t\<lparr>tn_state := dict_set key v (tn_state t), tn_used := map_option (\<lambda>u. u + size) (tn_used t)\<rparr>
             else t\<lparr>tn_omitted := tn_omitted t @ [''state.'' @ key],
                    tn_state := (if key = ''output'' \<and> \<not> in_values v [JNull, JStr []]
                      then dict_set ''outputBytes'' (JInt size) (tn_state t) else tn_state t)\<rparr>)"

definition synth_title :: "skel_env \<Rightarrow> jdict \<Rightarrow> string option" where
  "synth_title E state =
     (case jget state ''input'' of
        JObj inp \<Rightarrow>
          (case jget inp ''content'' of
             JArr (JObj first # rest) \<Rightarrow>
               Some (case clip (jget first ''topic'') COMPRESS_TITLE_CLIP_CHARS of
                       Some s \<Rightarrow> s
                     | None \<Rightarrow>
                         (case clip (jget first ''summary'') COMPRESS_TITLE_CLIP_CHARS of
                            Some s \<Rightarrow> s
                          | None \<Rightarrow> se_segments E (Suc (length rest))))
           | _ \<Rightarrow> None)
      | _ \<Rightarrow> None)"

definition tool_title :: "skel_env \<Rightarrow> jdict \<Rightarrow> jdict \<Rightarrow> jdict \<Rightarrow> jdict" where
  "tool_title E part state thin_state =
     (if jget part ''tool'' = JStr ''compress'' \<and> \<not> py_truthy (jget thin_state ''title'')
      then (case synth_title E state of Some s \<Rightarrow> dict_set ''title'' (JStr s) thin_state | None \<Rightarrow> thin_state)
      else thin_state)"

definition add_cat :: "bool \<Rightarrow> string \<Rightarrow> thin \<Rightarrow> thin" where
  "add_cat b c t = (if b then t\<lparr>tn_cats := tn_cats t @ [c]\<rparr> else t)"

definition tool_input :: "skel_env \<Rightarrow> json \<Rightarrow> jdict \<Rightarrow> thin \<Rightarrow> thin" where
  "tool_input E part_id state t =
     (case jget state ''input'' of
        JObj src \<Rightarrow>
          let thin_input = pick E TOOL_INPUT_KEYS src;
              t1 = (if thin_input \<noteq> [] then t\<lparr>tn_state := dict_set ''input'' (JObj thin_input) (tn_state t)\<rparr> else t);
              rest = other_keys TOOL_INPUT_KEYS src
          in add_cat (py_truthy part_id \<and> rest \<noteq> []) ''part_state_input_full''
               (t1\<lparr>tn_omitted := tn_omitted t1 @ map (\<lambda>k. ''state.input.'' @ k) rest\<rparr>)
      | JNull \<Rightarrow> t
      | _ \<Rightarrow> t\<lparr>tn_omitted := tn_omitted t @ [''state.input'']\<rparr>)"

definition tool_metadata_thin :: "skel_env \<Rightarrow> jdict \<Rightarrow> jdict" where
  "tool_metadata_thin E src =
     (let base = pick E [''sessionId'', ''sessionID'', ''description'', ''agent'', ''diffStats''] src
      in case jget src ''files'' of
           JArr (f # fs) \<Rightarrow>
             let compact = compact_tool_files (f # fs);
                 m1 = (if compact \<noteq> [] then dict_set ''files'' (JArr (take FILES_PROJECTION_CAP compact)) base else base)
             in if length compact > FILES_PROJECTION_CAP
                then dict_set ''filesTotal'' (JInt (int (length (f # fs)))) m1 else m1
         | _ \<Rightarrow> base)"

definition files_live :: "jdict \<Rightarrow> bool" where
  "files_live src = (case jget src ''files'' of JArr (f # fs) \<Rightarrow> True | _ \<Rightarrow> False)"

definition tool_metadata :: "skel_env \<Rightarrow> json \<Rightarrow> jdict \<Rightarrow> thin \<Rightarrow> thin" where
  "tool_metadata E part_id state t =
     (case jget state ''metadata'' of
        JObj src \<Rightarrow>
          let thin_metadata = tool_metadata_thin E src;
              t1 = (if thin_metadata \<noteq> [] then t\<lparr>tn_state := dict_set ''metadata'' (JObj thin_metadata) (tn_state t)\<rparr> else t);
              rest = other_keys TOOL_METADATA_KEYS src
          in add_cat (py_truthy part_id \<and> (rest \<noteq> [] \<or> files_live src)) ''part_state_metadata_full''
               (t1\<lparr>tn_omitted := tn_omitted t1 @ map (\<lambda>k. ''state.metadata.'' @ k) rest\<rparr>)
      | _ \<Rightarrow> t)"

definition tool_inline_field :: "skel_env \<Rightarrow> skel_limits \<Rightarrow> json \<Rightarrow> jdict \<Rightarrow> string \<Rightarrow> thin \<Rightarrow> thin" where
  "tool_inline_field E L part_id state key t =
     (let t1 = maybe_inline_state_field E L state key t
      in add_cat (length (tn_omitted t1) > length (tn_omitted t) \<and> \<not> in_values (jget state key) [JNull, JStr []] \<and> py_truthy part_id)
           (''part_state_'' @ key) t1)"

definition tool_always_omit :: "json \<Rightarrow> jdict \<Rightarrow> string \<Rightarrow> thin \<Rightarrow> thin" where
  "tool_always_omit part_id state key t =
     (case map_of state key of
        None \<Rightarrow> t
      | Some v \<Rightarrow>
          add_cat (key = ''attachments'' \<and> \<not> in_values v [JNull, JArr [], JObj []] \<and> py_truthy part_id)
            ''part_state_attachments'' (t\<lparr>tn_omitted := tn_omitted t @ [''state.'' @ key]\<rparr>))"

text \<open>\<^verbatim>\<open>thin_state["metadata"][key] = value\<close>, with the container created when it is missing.\<close>

definition set_metadata :: "string \<Rightarrow> json \<Rightarrow> jdict \<Rightarrow> jdict" where
  "set_metadata key v thin_state =
     dict_set ''metadata'' (JObj (dict_set key v (case jget thin_state ''metadata'' of JObj m \<Rightarrow> m | _ \<Rightarrow> []))) thin_state"

definition tool_diffstats :: "jdict \<Rightarrow> jdict \<Rightarrow> jdict \<Rightarrow> skel_error + jdict" where
  "tool_diffstats part src thin_state =
     (case aggregate_metadata_diffstats src (jget part ''tool'') of
        Inl e \<Rightarrow> Inl e
      | Inr ds \<Rightarrow>
          let s1 = (case ds of Some v \<Rightarrow> set_metadata ''diffStats'' v thin_state | None \<Rightarrow> thin_state)
          in if jget part ''tool'' = JStr ''edit'' \<and> map_of src ''files'' = None \<and> jget src ''truncated'' \<noteq> JBool True
             then (case edit_diff_files src of
                     Inl e \<Rightarrow> Inl e
                   | Inr None \<Rightarrow> Inr s1
                   | Inr (Some fs) \<Rightarrow>
                       let s2 = set_metadata ''files'' (JArr (take FILES_PROJECTION_CAP (map diff_file_json fs))) s1
                       in Inr (if length fs > FILES_PROJECTION_CAP
                               then set_metadata ''filesTotal'' (JInt (int (length fs))) s2 else s2))
             else Inr s1)"

definition tool_state :: "skel_env \<Rightarrow> skel_limits \<Rightarrow> int option \<Rightarrow> jdict \<Rightarrow> jdict \<Rightarrow> skel_error + thin" where
  "tool_state E L used part state =
     (let part_id = jget part ''id'';
          t0 = \<lparr>tn_state = tool_title E part state (pick E [''status'', ''title'', ''time''] state),
                tn_omitted = [], tn_cats = [], tn_used = used\<rparr>;
          t1 = tool_metadata E part_id state (tool_input E part_id state t0);
          t2 = fold (tool_inline_field E L part_id state) [''output'', ''error''] t1;
          t3 = fold (tool_always_omit part_id state) [''structured'', ''result'', ''raw'', ''attachments''] t2
      in case jget state ''metadata'' of
           JObj src \<Rightarrow> map_sum id (\<lambda>s. t3\<lparr>tn_state := s\<rparr>) (tool_diffstats part src (tn_state t3))
         | _ \<Rightarrow> Inr t3)"

text \<open>The result of a part projection and the bytes inlined so far.\<close>

definition tool_part ::
  "skel_env \<Rightarrow> skel_limits \<Rightarrow> string option \<Rightarrow> int option \<Rightarrow> jdict \<Rightarrow> skel_error + jdict \<times> int option" where
  "tool_part E L sid used part =
     (let result = pick E TOOL_KEYS part;
          rest = other_keys (''state'' # TOOL_KEYS) part;
          finish = (\<lambda>res omitted cats u.
             map_sum id (\<lambda>p. (p, u)) (emit_expand_refs E (mark (omitted @ rest) res) cats (jget part ''id'') sid))
      in case jget part ''state'' of
           JObj state \<Rightarrow>
             (case tool_state E L used part state of
                Inl e \<Rightarrow> Inl e
              | Inr t \<Rightarrow> finish (dict_set ''state'' (JObj (tn_state t)) result) (tn_omitted t) (tn_cats t) (tn_used t))
         | _ \<Rightarrow> finish result [] [] used)"

fun normalized_files :: "skel_env \<Rightarrow> json list \<Rightarrow> json list" where
  "normalized_files E [] = []"
| "normalized_files E (JStr s # xs) = JObj [(''path'', JStr s)] # normalized_files E xs"
| "normalized_files E (JObj d # xs) =
     JObj (pick E [''path'', ''additions'', ''deletions'', ''status''] d) # normalized_files E xs"
| "normalized_files E (_ # xs) = normalized_files E xs"

definition patch_state :: "skel_env \<Rightarrow> skel_limits \<Rightarrow> int option \<Rightarrow> jdict \<Rightarrow> thin" where
  "patch_state E L used state =
     (let t0 = \<lparr>tn_state = pick E [''status'', ''title'', ''time''] state, tn_omitted = [], tn_cats = [], tn_used = used\<rparr>;
          t1 = (case jget state ''input'' of
                  JObj src \<Rightarrow>
                    let path_input = pick E [''path'', ''filePath'', ''file_path''] src
                    in (if path_input \<noteq> [] then t0\<lparr>tn_state := dict_set ''input'' (JObj path_input) (tn_state t0)\<rparr> else t0)
                         \<lparr>tn_omitted := map (\<lambda>k. ''state.input.'' @ k) (other_keys [''path'', ''filePath'', ''file_path''] src)\<rparr>
                | _ \<Rightarrow> t0)
      in fold (maybe_inline_state_field E L state) [''output'', ''error''] t1)"

definition patch_diffstats :: "json option \<Rightarrow> jdict \<Rightarrow> jdict" where
  "patch_diffstats ds result =
     (case ds of
        None \<Rightarrow> result
      | Some v \<Rightarrow>
          dict_set ''state'' (JObj (set_metadata ''diffStats'' v (case jget result ''state'' of JObj s \<Rightarrow> s | _ \<Rightarrow> []))) result)"

definition patch_base :: "skel_env \<Rightarrow> jdict \<Rightarrow> jdict" where
  "patch_base E part =
     (let r0 = pick E [''id'', ''type'', ''messageID'', ''sessionID'', ''hash''] part;
          r1 = (case jget part ''files'' of
                  JArr files \<Rightarrow>
                    let norm = normalized_files E files;
                        r = dict_set ''files'' (JArr (take FILES_PROJECTION_CAP norm)) r0
                    in if length norm > FILES_PROJECTION_CAP then dict_set ''filesTotal'' (JInt (int (length files))) r else r
                | _ \<Rightarrow> r0)
      in case jget part ''metadata'' of
           JObj md \<Rightarrow> (case map_of md ''path'' of
               Some v \<Rightarrow> dict_set ''metadata'' (JObj [(''path'', v)]) r1
             | None \<Rightarrow> r1)
         | _ \<Rightarrow> r1)"

definition patch_body :: "skel_env \<Rightarrow> skel_limits \<Rightarrow> int option \<Rightarrow> jdict \<Rightarrow> jdict \<times> string list \<times> int option" where
  "patch_body E L used part =
     (case jget part ''state'' of
        JObj state \<Rightarrow>
          let t = patch_state E L used state
          in (dict_set ''state'' (JObj (tn_state t)) (patch_base E part), tn_omitted t, tn_used t)
      | _ \<Rightarrow> (patch_base E part, [], used))"

definition patch_part :: "skel_env \<Rightarrow> skel_limits \<Rightarrow> int option \<Rightarrow> jdict \<Rightarrow> jdict \<times> int option" where
  "patch_part E L used part =
     (case patch_body E L used part of
        (r, omitted, u) \<Rightarrow>
          (mark (omitted @ other_keys [''id'', ''type'', ''messageID'', ''sessionID'', ''files'', ''metadata'', ''state'', ''hash''] part)
             (case jget part ''files'' of
                JArr files \<Rightarrow> patch_diffstats (compute_diffstats_from_files (normalized_files E files)) r
              | _ \<Rightarrow> r), u))"

section \<open>Parts\<close>

definition file_part :: "skel_env \<Rightarrow> string option \<Rightarrow> jdict \<Rightarrow> skel_error + jdict" where
  "file_part E sid part =
     (let part_id = jget part ''id''; url = jget part ''url''; source = jget part ''source'';
          inline = (case url of
                      JStr u \<Rightarrow> (starts_with ''http://'' u \<or> starts_with ''https://'' u) \<and> length u \<le> FILE_URL_LIMIT
                    | _ \<Rightarrow> False);
          has_url = map_of part ''url'' \<noteq> None; has_source = map_of part ''source'' \<noteq> None;
          r0 = pick E [''id'', ''type'', ''messageID'', ''sessionID'', ''filename'', ''mime''] part;
          r1 = (if inline then dict_set ''url'' url r0 else if has_url then dict_set ''url'' JNull r0 else r0);
          omitted = (if \<not> inline \<and> has_url then [''url''] else []) @ (if has_source then [''source''] else [])
            @ other_keys [''id'', ''type'', ''messageID'', ''sessionID'', ''filename'', ''mime'', ''url'', ''source''] part;
          cats = (if \<not> inline \<and> has_url \<and> \<not> in_values url [JNull, JStr []] \<and> py_truthy part_id then [''part_url''] else [])
            @ (if has_source \<and> \<not> in_values source [JNull, JObj [], JArr [], JStr []] \<and> py_truthy part_id then [''part_source''] else [])
      in emit_expand_refs E (mark omitted r1) cats part_id sid)"

definition reasoning_part :: "skel_env \<Rightarrow> string option \<Rightarrow> jdict \<Rightarrow> skel_error + jdict" where
  "reasoning_part E sid part =
     (let exceeds = utf8_bytes_exceeds (jget part ''text'') REASONING_INLINE_MAX_BYTES;
          r0 = pick E (if exceeds then PART_IDS else [''id'', ''type'', ''messageID'', ''sessionID'', ''text'']) part;
          omitted = other_keys [''id'', ''type'', ''messageID'', ''sessionID'', ''text''] part
      in if exceeds
         then emit_expand_refs E (mark (omitted @ [''text'']) (dict_set ''text'' JNull r0))
                (if py_truthy (jget r0 ''id'') then [''part_reasoning''] else []) (jget r0 ''id'') sid
         else emit_expand_refs E (mark omitted r0) [] JNull sid)"

definition compaction_part :: "skel_env \<Rightarrow> string option \<Rightarrow> jdict \<Rightarrow> skel_error + jdict" where
  "compaction_part E sid part =
     (case se_dumps E (JObj part) of
        None \<Rightarrow> Inl Encode_Error
      | Some s \<Rightarrow>
          if length s \<le> COMPACTION_PART_LIMIT then Inr part
          else emit_expand_refs E (mark [''*''] (pick E PART_IDS part))
                 (if py_truthy (jget part ''id'') then [''compaction_full''] else []) (jget part ''id'') sid)"

definition step_part :: "skel_env \<Rightarrow> string option \<Rightarrow> jdict \<Rightarrow> skel_error + jdict" where
  "step_part E sid part =
     (let r = mark (other_keys PART_IDS part) (pick E PART_IDS part)
      in emit_expand_refs E r
           (if \<not> in_values (jget part ''snapshot'') [JNull, JStr []] \<and> py_truthy (jget r ''id'') then [''part_snapshot''] else [])
           (jget r ''id'') sid)"

definition skeleton_part ::
  "skel_env \<Rightarrow> skel_limits \<Rightarrow> string option \<Rightarrow> int option \<Rightarrow> jdict \<Rightarrow> skel_error + jdict \<times> int option" where
  "skeleton_part E L sid used part0 =
     (let part = dict_pop ''expandRefs'' part0;
          part_type = jget part ''type'';
          keep = map_sum id (\<lambda>p. (p, used))
      in if part_type = JStr ''text'' then
           keep (emit_expand_refs E (mark (other_keys [''id'', ''type'', ''messageID'', ''sessionID'', ''text''] part)
             (pick E [''id'', ''type'', ''messageID'', ''sessionID'', ''text''] part)) [] JNull sid)
         else if part_type = JStr ''reasoning'' then keep (reasoning_part E sid part)
         else if part_type = JStr ''tool'' then tool_part E L sid used part
         else if part_type = JStr ''patch'' then Inr (patch_part E L used part)
         else if part_type = JStr ''file'' then keep (file_part E sid part)
         else if \<not> hashable part_type then Inl Unhashable
         else if part_type = JStr ''step-start'' \<or> part_type = JStr ''step-finish'' then keep (step_part E sid part)
         else if part_type = JStr ''compaction'' then keep (compaction_part E sid part)
         else keep (Inr (let rest = other_keys PART_IDS part
                         in mark (if rest = [] then [''*''] else rest) (pick E PART_IDS part))))"

fun skeleton_parts ::
  "skel_env \<Rightarrow> skel_limits \<Rightarrow> string option \<Rightarrow> int option \<Rightarrow> json list \<Rightarrow> skel_error + jdict list \<times> int option" where
  "skeleton_parts E L sid used [] = Inr ([], used)"
| "skeleton_parts E L sid used (JObj part # ps) =
     (case skeleton_part E L sid used part of
        Inl e \<Rightarrow> Inl e
      | Inr (thin, u) \<Rightarrow>
          (case skeleton_parts E L sid u ps of Inl e \<Rightarrow> Inl e | Inr (rest, u') \<Rightarrow> Inr (thin # rest, u')))"
| "skeleton_parts E L sid used (_ # ps) = skeleton_parts E L sid used ps"

definition is_renderable :: "jdict \<Rightarrow> bool" where
  "is_renderable part =
     (let part_type = jget part ''type''
      in if part_type = JStr ''text'' \<or> part_type = JStr ''reasoning'' then
           py_truthy (jget part ''text'') \<or> py_truthy (jget part ''expandRefs'')
         else if part_type = JStr ''tool'' then
           let state = (case jget part ''state'' of JObj s \<Rightarrow> s | _ \<Rightarrow> [])
           in py_truthy (jget part ''tool'') \<or> py_truthy (jget state ''title'') \<or> py_truthy (jget state ''input'')
         else if part_type = JStr ''patch'' then
           py_truthy (jget part ''files'') \<or> py_truthy (jget part ''metadata'') \<or> py_truthy (jget part ''state'')
         else if part_type = JStr ''file'' then py_truthy (jget part ''filename'') \<or> py_truthy (jget part ''url'')
         else False)"

section \<open>Messages\<close>

definition compute_message_fingerprint :: "skel_env \<Rightarrow> jdict \<Rightarrow> skel_error + string" where
  "compute_message_fingerprint E message =
     (case se_dumps_sorted E (JObj (dict_pop ''contentFingerprint'' message)) of
        None \<Rightarrow> Inl Encode_Error
      | Some s \<Rightarrow> Inr (''v1:'' @ sha256_hexdigest s))"

definition recompute_fingerprint :: "skel_env \<Rightarrow> jdict \<Rightarrow> skel_error + jdict" where
  "recompute_fingerprint E message =
     map_sum id (\<lambda>fp. dict_set ''contentFingerprint'' (JStr fp) message) (compute_message_fingerprint E message)"

definition as_dict :: "json \<Rightarrow> jdict" where
  "as_dict v = (case v of JObj d \<Rightarrow> d | _ \<Rightarrow> [])"

definition as_list :: "json \<Rightarrow> json list" where
  "as_list v = (case v of JArr xs \<Rightarrow> xs | _ \<Rightarrow> [])"

definition skeleton_info :: "skel_env \<Rightarrow> string option \<Rightarrow> jdict \<Rightarrow> jdict" where
  "skeleton_info E sid info0 =
     (let info = dict_pop ''expandRefs'' info0; info_id = jget info ''id''
      in case jget info ''summary'' of
           JObj summary \<Rightarrow>
             (case map_of summary ''diffs'' of
                None \<Rightarrow> info
              | Some orig \<Rightarrow>
                  let info1 = dict_set ''summary'' (JObj (dict_set ''diffs'' JNull summary)) info
                  in if sid \<noteq> None \<and> sid \<noteq> Some [] \<and> py_truthy info_id \<and> as_list orig \<noteq> []
                     then dict_set ''expandRefs'' (JArr [expand_ref E ''info_summary_diffs'' info_id None (the sid)]) info1
                     else info1)
         | _ \<Rightarrow> info)"

definition placeholder_part :: "skel_env \<Rightarrow> json \<Rightarrow> jdict" where
  "placeholder_part E mid =
     [(''id'', JStr (''thin_placeholder_'' @ py_str E mid)), (''messageID'', mid), (''type'', JStr ''text''), (''text'', JStr []),
      (''hasFull'', JBool True), (''omitted'', JArr [JStr ''parts''])]"

definition skeleton_message :: "skel_env \<Rightarrow> skel_limits \<Rightarrow> bool \<Rightarrow> string option \<Rightarrow> json \<Rightarrow> skel_error + jdict" where
  "skeleton_message E L fingerprint sid message =
     (let info = skeleton_info E sid (as_dict (jget (as_dict message) ''info''));
          info_id = jget info ''id'';
          mid = (if py_truthy info_id then info_id else JStr ''unknown'')
      in case skeleton_parts E L sid (Some 0) (as_list (jget (as_dict message) ''parts'')) of
           Inl e \<Rightarrow> Inl e
         | Inr (thin_parts, _) \<Rightarrow>
             let parts = (if list_ex is_renderable thin_parts then thin_parts else thin_parts @ [placeholder_part E mid]);
                 result = [(''info'', JObj info), (''parts'', JArr (map JObj parts))]
             in if fingerprint \<or> sl_fingerprint L then recompute_fingerprint E result else Inr result)"

fun skeleton_messages :: "skel_env \<Rightarrow> skel_limits \<Rightarrow> bool \<Rightarrow> string option \<Rightarrow> json list \<Rightarrow> skel_error + jdict list" where
  "skeleton_messages E L fp sid [] = Inr []"
| "skeleton_messages E L fp sid (m # ms) =
     (case skeleton_message E L fp sid m of
        Inl e \<Rightarrow> Inl e
      | Inr r \<Rightarrow> (case skeleton_messages E L fp sid ms of Inl e \<Rightarrow> Inl e | Inr rs \<Rightarrow> Inr (r # rs)))"

section \<open>Full messages\<close>

text \<open>\<open>strip_diagnostics_message\<close>: the one key is removed from each part's \<^verbatim>\<open>state.metadata\<close>, in place.\<close>

definition update_key :: "string \<Rightarrow> (json \<Rightarrow> json) \<Rightarrow> jdict \<Rightarrow> jdict" where
  "update_key k f d = map (\<lambda>(k', v). (k', if k' = k then f v else v)) d"

definition on_dict :: "(jdict \<Rightarrow> jdict) \<Rightarrow> json \<Rightarrow> json" where
  "on_dict f v = (case v of JObj d \<Rightarrow> JObj (f d) | _ \<Rightarrow> v)"

definition on_list :: "(json \<Rightarrow> json) \<Rightarrow> json \<Rightarrow> json" where
  "on_list f v = (case v of JArr xs \<Rightarrow> JArr (map f xs) | _ \<Rightarrow> v)"

definition strip_part :: "json \<Rightarrow> json" where
  "strip_part = on_dict (update_key ''state'' (on_dict (update_key ''metadata'' (on_dict (dict_pop ''diagnostics'')))))"

definition strip_diagnostics_message :: "json \<Rightarrow> json" where
  "strip_diagnostics_message = on_dict (update_key ''parts'' (on_list strip_part))"

end
