(* ===== verification/Skeleton_Guarantees.thy ===== *)
theory Skeleton_Guarantees
  imports Skeleton
begin

text \<open>
  What the message projection promises: bounded inlining, no half-truncated field, a part to show in every
  message, and which upstream values make it fail.
\<close>

section \<open>Lookups\<close>

lemma jget_map_of: "map_of d k = Some v \<Longrightarrow> jget d k = v"
  by (simp add: jget_def)

lemma map_of_dict_set [simp]: "map_of (dict_set k v d) k' = (if k' = k then Some v else map_of d k')"
  using dict_get_set[of k v d k'] by (simp add: dict_get_def)

lemma jget_dict_set [simp]: "jget (dict_set k v d) k' = (if k' = k then v else jget d k')"
  by (simp add: jget_def)

definition order_ok :: "skel_env \<Rightarrow> bool" where
  "order_ok E \<longleftrightarrow> (\<forall>ks. set (se_order E ks) = set ks)"

lemma map_of_pick:
  assumes "order_ok E"
  shows "map_of (pick E keys d) k = (if k \<in> set keys then map_of d k else None)"
proof -
  have "map_of (List.map_filter (\<lambda>k. map_option (Pair k) (map_of d k)) ks) k = (if k \<in> set ks then map_of d k else None)" for ks
    by (induction ks) (auto simp: List.map_filter_def split: option.split)
  then show ?thesis using assms by (simp add: pick_def order_ok_def)
qed

lemma jget_pick: "order_ok E \<Longrightarrow> jget (pick E keys d) k = (if k \<in> set keys then jget d k else JNull)"
  by (simp add: jget_def map_of_pick)

lemma jget_mark [simp]: "k \<noteq> ''hasFull'' \<Longrightarrow> k \<noteq> ''omitted'' \<Longrightarrow> jget (mark om d) k = jget d k"
  by (simp add: mark_def)

lemma map_of_mark [simp]: "k \<noteq> ''hasFull'' \<Longrightarrow> k \<noteq> ''omitted'' \<Longrightarrow> map_of (mark om d) k = map_of d k"
  by (simp add: mark_def)

lemma emit_refs_keeps:
  assumes "emit_expand_refs E d cats pid sid = Inr d'" and "k \<noteq> ''expandRefs''"
  shows "jget d' k = jget d k"
  using assms by (auto simp: emit_expand_refs_def split: if_splits)

section \<open>Bytes inlined into a message\<close>

definition field_bytes_of :: "skel_env \<Rightarrow> jdict \<Rightarrow> string \<Rightarrow> int" where
  "field_bytes_of E state k = (case map_of state k of Some v \<Rightarrow> field_byte_size E v | None \<Rightarrow> 0)"

definition inlined_bytes :: "skel_env \<Rightarrow> jdict \<Rightarrow> int" where
  "inlined_bytes E part =
     (if jget part ''type'' \<in> {JStr ''tool'', JStr ''patch''}
      then field_bytes_of E (as_dict (jget part ''state'')) ''output'' + field_bytes_of E (as_dict (jget part ''state'')) ''error''
      else 0)"

definition fields_fit :: "skel_env \<Rightarrow> skel_limits \<Rightarrow> jdict \<Rightarrow> bool" where
  "fields_fit E L part \<longleftrightarrow>
     (jget part ''type'' \<in> {JStr ''tool'', JStr ''patch''} \<longrightarrow>
        (\<forall>k \<in> {''output'', ''error''}. \<forall>v. map_of (as_dict (jget part ''state'')) k = Some v \<longrightarrow> field_byte_size E v \<le> sl_field_bytes L))"

text \<open>A thin state: what has been inlined since the budget stood at \<open>u0\<close>, and within the limits.\<close>

definition thin_ok :: "skel_env \<Rightarrow> skel_limits \<Rightarrow> int \<Rightarrow> thin \<Rightarrow> bool" where
  "thin_ok E L u0 t \<longleftrightarrow>
     (\<exists>u. tn_used t = Some u \<and> u = u0 + field_bytes_of E (tn_state t) ''output'' + field_bytes_of E (tn_state t) ''error''
        \<and> (u \<le> sl_message_bytes L \<or> u = u0))
     \<and> (\<forall>k \<in> {''output'', ''error''}. \<forall>v. map_of (tn_state t) k = Some v \<longrightarrow> field_byte_size E v \<le> sl_field_bytes L)"

lemma field_byte_size_nonneg: "0 \<le> field_byte_size E v"
  by (simp add: field_byte_size_def split: option.split)

lemma thin_ok_same:
  assumes "thin_ok E L u0 t" and "tn_used t' = tn_used t"
    and "\<And>k. k \<in> {''output'', ''error''} \<Longrightarrow> map_of (tn_state t') k = map_of (tn_state t) k"
  shows "thin_ok E L u0 t'"
  using assms by (simp add: thin_ok_def field_bytes_of_def)

lemma thin_ok_inline:
  assumes ok: "thin_ok E L u0 t" and k: "key \<in> {''output'', ''error''}" and fresh: "map_of (tn_state t) key = None"
  shows "thin_ok E L u0 (maybe_inline_state_field E L state key t)"
proof (cases "map_of state key")
  case None
  then show ?thesis using ok by (simp add: maybe_inline_state_field_def)
next
  case (Some v)
  obtain u where u: "tn_used t = Some u"
    "u = u0 + field_bytes_of E (tn_state t) ''output'' + field_bytes_of E (tn_state t) ''error''"
    using ok by (auto simp: thin_ok_def)
  show ?thesis
  proof (cases "field_byte_size E v \<le> sl_field_bytes L \<and> u + field_byte_size E v \<le> sl_message_bytes L")
    case True
    then have t': "maybe_inline_state_field E L state key t =
        t\<lparr>tn_state := dict_set key v (tn_state t), tn_used := Some (u + field_byte_size E v)\<rparr>"
      using Some u by (simp add: maybe_inline_state_field_def Let_def)
    have "field_bytes_of E (dict_set key v (tn_state t)) ''output'' + field_bytes_of E (dict_set key v (tn_state t)) ''error''
        = field_bytes_of E (tn_state t) ''output'' + field_bytes_of E (tn_state t) ''error'' + field_byte_size E v"
      using k fresh by (auto simp: field_bytes_of_def)
    then show ?thesis using ok u True unfolding t' thin_ok_def by simp
  next
    case False
    then have "tn_used (maybe_inline_state_field E L state key t) = tn_used t"
      "map_of (tn_state (maybe_inline_state_field E L state key t)) k' = map_of (tn_state t) k'" if "k' \<in> {''output'', ''error''}" for k'
      using Some u that by (auto simp: maybe_inline_state_field_def Let_def)
    then show ?thesis by (intro thin_ok_same[OF ok]) auto
  qed
qed

lemma inline_other: "k \<noteq> key \<Longrightarrow> k \<noteq> ''outputBytes'' \<Longrightarrow> map_of (tn_state (maybe_inline_state_field E L state key t)) k = map_of (tn_state t) k"
  by (auto simp: maybe_inline_state_field_def Let_def split: option.split)

text \<open>The steps that only touch other keys of the thin state.\<close>

lemma tool_title_other: "k \<noteq> ''title'' \<Longrightarrow> map_of (tool_title E part state s) k = map_of s k"
  by (simp add: tool_title_def split: option.split)

lemma add_cat_simps [simp]:
  "tn_state (add_cat b c t) = tn_state t" "tn_used (add_cat b c t) = tn_used t" "tn_omitted (add_cat b c t) = tn_omitted t"
  by (simp_all add: add_cat_def)

lemma tool_input_other:
  "k \<noteq> ''input'' \<Longrightarrow> map_of (tn_state (tool_input E p state t)) k = map_of (tn_state t) k"
  "tn_used (tool_input E p state t) = tn_used t"
  by (simp_all add: tool_input_def Let_def split: json.split)

lemma tool_metadata_other:
  "k \<noteq> ''metadata'' \<Longrightarrow> map_of (tn_state (tool_metadata E p state t)) k = map_of (tn_state t) k"
  "tn_used (tool_metadata E p state t) = tn_used t"
  by (simp_all add: tool_metadata_def Let_def split: json.split)

lemma tool_always_other [simp]:
  "tn_state (tool_always_omit p state key t) = tn_state t" "tn_used (tool_always_omit p state key t) = tn_used t"
  by (simp_all add: tool_always_omit_def split: option.split)

lemma tool_inline_thin [simp]:
  "tn_state (tool_inline_field E L p state key t) = tn_state (maybe_inline_state_field E L state key t)"
  "tn_used (tool_inline_field E L p state key t) = tn_used (maybe_inline_state_field E L state key t)"
  by (simp_all add: tool_inline_field_def Let_def)

lemma set_metadata_other: "k \<noteq> ''metadata'' \<Longrightarrow> map_of (set_metadata key v s) k = map_of s k"
  by (simp add: set_metadata_def)

lemma tool_diffstats_other:
  "tool_diffstats part src s = Inr s' \<Longrightarrow> k \<noteq> ''metadata'' \<Longrightarrow> map_of s' k = map_of s k"
  by (auto simp: tool_diffstats_def Let_def set_metadata_other split: option.splits sum.splits if_splits)

lemma thin_ok_fields:
  assumes "thin_ok E L u0 t" and "map_of (tn_state t) ''output'' = None" and "map_of (tn_state t) ''error'' = None"
  shows "thin_ok E L u0 (fold (maybe_inline_state_field E L state) [''output'', ''error''] t)"
  using thin_ok_inline[OF thin_ok_inline[OF assms(1) _ assms(2)]] assms(3) by (simp add: inline_other)

lemma tool_state_ok:
  assumes o: "order_ok E" and r: "tool_state E L (Some u0) part state = Inr t"
  shows "thin_ok E L u0 t"
proof -
  define p where "p = jget part ''id''"
  define t0 where "t0 = \<lparr>tn_state = tool_title E part state (pick E [''status'', ''title'', ''time''] state),
                tn_omitted = [], tn_cats = [], tn_used = Some u0\<rparr>"
  define t1 where "t1 = tool_metadata E p state (tool_input E p state t0)"
  define t2 where "t2 = fold (tool_inline_field E L p state) [''output'', ''error''] t1"
  define t3 where "t3 = fold (tool_always_omit p state) [''structured'', ''result'', ''raw'', ''attachments''] t2"
  have none: "map_of (tn_state t1) k = None" if "k \<in> {''output'', ''error''}" for k
    using that o by (auto simp: t1_def t0_def tool_metadata_other tool_input_other tool_title_other map_of_pick)
  have u1: "tn_used t1 = Some u0" by (simp add: t1_def t0_def tool_metadata_other tool_input_other)
  have "thin_ok E L u0 t1" using none u1 by (simp add: thin_ok_def field_bytes_of_def)
  then have ok2: "thin_ok E L u0 (fold (maybe_inline_state_field E L state) [''output'', ''error''] t1)"
    using none by (intro thin_ok_fields) auto
  have e: "tn_used (maybe_inline_state_field E L state ''error'' (tool_inline_field E L p state ''output'' t1)) =
      tn_used (maybe_inline_state_field E L state ''error'' (maybe_inline_state_field E L state ''output'' t1))"
    "tn_state (maybe_inline_state_field E L state ''error'' (tool_inline_field E L p state ''output'' t1)) =
      tn_state (maybe_inline_state_field E L state ''error'' (maybe_inline_state_field E L state ''output'' t1))"
    by (simp_all add: tool_inline_field_def maybe_inline_state_field_def add_cat_def Let_def split: option.split)
  have ok3: "thin_ok E L u0 t3" by (rule thin_ok_same[OF ok2]) (simp_all add: t3_def t2_def e)
  show ?thesis
  proof (cases "\<exists>src. jget state ''metadata'' = JObj src")
    case True
    then obtain src s where "jget state ''metadata'' = JObj src" "tool_diffstats part src (tn_state t3) = Inr s" "t = t3\<lparr>tn_state := s\<rparr>"
      using r by (auto simp: tool_state_def Let_def t3_def t2_def t1_def t0_def p_def map_sum_def split: sum.splits)
    then show ?thesis by (intro thin_ok_same[OF ok3]) (auto simp: tool_diffstats_other)
  next
    case False
    then have "t = t3" using r by (auto simp: tool_state_def Let_def t3_def t2_def t1_def t0_def p_def split: json.splits)
    then show ?thesis using ok3 by simp
  qed
qed

lemma patch_state_ok:
  assumes o: "order_ok E"
  shows "thin_ok E L u0 (patch_state E L (Some u0) state)"
proof -
  have none: "map_of (pick E [''status'', ''title'', ''time''] state) k = None" if "k \<in> {''output'', ''error''}" for k
    using that o by (auto simp: map_of_pick)
  show ?thesis
    unfolding patch_state_def Let_def
    by (intro thin_ok_fields) (auto simp: thin_ok_def field_bytes_of_def none split: json.split)
qed

text \<open>What a part adds to the budget and keeps within.\<close>

definition part_fits :: "skel_env \<Rightarrow> skel_limits \<Rightarrow> int \<Rightarrow> jdict \<Rightarrow> int option \<Rightarrow> bool" where
  "part_fits E L u0 thin u \<longleftrightarrow>
     (\<exists>u1. u = Some u1 \<and> u1 = u0 + inlined_bytes E thin \<and> (u1 \<le> sl_message_bytes L \<or> u1 = u0)) \<and> fields_fit E L thin"

lemma part_fits_other:
  assumes "jget thin ''type'' = ty" and "ty \<noteq> JStr ''tool''" and "ty \<noteq> JStr ''patch''"
  shows "part_fits E L u0 thin (Some u0)"
  using assms by (simp add: part_fits_def inlined_bytes_def fields_fit_def)

lemma part_fits_state:
  assumes "thin_ok E L u0 t" and "jget thin ''state'' = JObj s" and "jget thin ''type'' \<in> {JStr ''tool'', JStr ''patch''}"
    and "\<And>k. k \<in> {''output'', ''error''} \<Longrightarrow> map_of s k = map_of (tn_state t) k"
  shows "part_fits E L u0 thin (tn_used t)"
  using assms by (auto simp: part_fits_def inlined_bytes_def fields_fit_def thin_ok_def as_dict_def field_bytes_of_def)

lemma part_fits_no_state:
  assumes "\<nexists>s. jget thin ''state'' = JObj s"
  shows "part_fits E L u0 thin (Some u0)"
  using assms by (auto simp: part_fits_def inlined_bytes_def fields_fit_def as_dict_def field_bytes_of_def split: json.split)

lemma tool_part_fits:
  assumes o: "order_ok E" and ty: "jget part ''type'' = JStr ''tool''" and r: "tool_part E L sid (Some u0) part = Inr (thin, u)"
  shows "part_fits E L u0 thin u"
proof (cases "\<exists>state. jget part ''state'' = JObj state")
  case True
  then obtain state t where t: "jget part ''state'' = JObj state" "tool_state E L (Some u0) part state = Inr t" "u = tn_used t"
    and e: "emit_expand_refs E (mark (tn_omitted t @ other_keys (''state'' # TOOL_KEYS) part)
       (dict_set ''state'' (JObj (tn_state t)) (pick E TOOL_KEYS part))) (tn_cats t) (jget part ''id'') sid = Inr thin"
    using r by (auto simp: tool_part_def Let_def map_sum_def split: sum.splits)
  have "jget thin ''state'' = JObj (tn_state t)" "jget thin ''type'' = JStr ''tool''"
    using emit_refs_keeps[OF e] ty o by (simp_all add: jget_pick)
  then show ?thesis using part_fits_state[OF tool_state_ok[OF o t(2)]] t(3) by simp
next
  case False
  then have u: "u = Some u0" and e: "emit_expand_refs E (mark (other_keys (''state'' # TOOL_KEYS) part) (pick E TOOL_KEYS part)) [] (jget part ''id'') sid = Inr thin"
    using r by (auto simp: tool_part_def Let_def map_sum_def split: sum.splits json.splits)
  have "jget thin ''state'' = JNull" using emit_refs_keeps[OF e] o by (simp add: jget_pick)
  then show ?thesis using part_fits_no_state u by simp
qed

lemma part_fits_cong:
  assumes "part_fits E L u0 thin u" and "jget thin' ''type'' = jget thin ''type''"
    and "\<And>k. k \<in> {''output'', ''error''} \<Longrightarrow>
      map_of (as_dict (jget thin' ''state'')) k = map_of (as_dict (jget thin ''state'')) k"
  shows "part_fits E L u0 thin' u"
  using assms by (simp add: part_fits_def inlined_bytes_def fields_fit_def field_bytes_of_def)

lemma patch_base_get:
  "order_ok E \<Longrightarrow> jget (patch_base E part) ''state'' = JNull" "order_ok E \<Longrightarrow> jget (patch_base E part) ''type'' = jget part ''type''"
  by (simp_all add: patch_base_def Let_def jget_pick split: json.split option.split)

lemma patch_diffstats_get:
  "jget (patch_diffstats ds r) ''type'' = jget r ''type''"
  "k \<noteq> ''metadata'' \<Longrightarrow> map_of (as_dict (jget (patch_diffstats ds r) ''state'')) k = map_of (as_dict (jget r ''state'')) k"
  by (simp_all add: patch_diffstats_def as_dict_def set_metadata_other split: option.split)

lemma patch_part_fits:
  assumes o: "order_ok E" and ty: "jget part ''type'' = JStr ''patch''" and r: "patch_part E L (Some u0) part = (thin, u)"
  shows "part_fits E L u0 thin u"
proof -
  obtain b om where b: "patch_body E L (Some u0) part = (b, om, u)" using r by (auto simp: patch_part_def split: prod.splits)
  have type: "jget b ''type'' = JStr ''patch''"
    using b ty o by (auto simp: patch_body_def Let_def patch_base_get split: json.splits)
  have "part_fits E L u0 b u"
  proof (cases "\<exists>state. jget part ''state'' = JObj state")
    case True
    then obtain state where "jget part ''state'' = JObj state" by blast
    with b have "jget b ''state'' = JObj (tn_state (patch_state E L (Some u0) state))" "u = tn_used (patch_state E L (Some u0) state)"
      by (auto simp: patch_body_def Let_def)
    then show ?thesis using part_fits_state[OF patch_state_ok[OF o]] type by simp
  next
    case False
    then have "b = patch_base E part" "u = Some u0" using b by (auto simp: patch_body_def split: json.splits)
    then show ?thesis using part_fits_no_state[of b] o by (simp add: patch_base_get)
  qed
  then show ?thesis
    by (rule part_fits_cong) (use r b in \<open>auto simp: patch_part_def patch_diffstats_get split: json.split\<close>)
qed

lemma emit_type: "emit_expand_refs E d cats pid sid = Inr d' \<Longrightarrow> jget d' ''type'' = jget d ''type''"
  by (erule emit_refs_keeps) simp

lemma part_fits_part:
  assumes o: "order_ok E" and r: "skeleton_part E L sid (Some u0) part0 = Inr (thin, u)"
  shows "part_fits E L u0 thin u"
proof -
  define part where "part = dict_pop ''expandRefs'' part0"
  define ty where "ty = jget part ''type''"
  consider (tool) "ty = JStr ''tool''" | (patch) "ty = JStr ''patch''" | (other) "ty \<noteq> JStr ''tool''" "ty \<noteq> JStr ''patch''" by blast
  then show ?thesis
  proof cases
    case tool
    then have "tool_part E L sid (Some u0) part = Inr (thin, u)" using r by (simp add: skeleton_part_def Let_def part_def ty_def)
    then show ?thesis using tool_part_fits[OF o] tool by (simp add: ty_def)
  next
    case patch
    then have "patch_part E L (Some u0) part = (thin, u)" using r by (simp add: skeleton_part_def Let_def part_def ty_def)
    then show ?thesis using patch_part_fits[OF o] patch by (simp add: ty_def)
  next
    case other
    have u: "u = Some u0" and t: "jget thin ''type'' = ty"
      using r other o unfolding skeleton_part_def Let_def part_def[symmetric] ty_def[symmetric]
      by (auto simp: map_sum_def reasoning_part_def file_part_def step_part_def compaction_part_def Let_def jget_pick ty_def
          dest!: emit_type split: if_splits sum.splits option.splits)
    then show ?thesis using part_fits_other[OF t other] by simp
  qed
qed

lemma parts_fit:
  assumes "order_ok E" and "skeleton_parts E L sid (Some u0) ps = Inr (thins, u)"
  shows "(\<exists>u1. u = Some u1 \<and> u1 = u0 + sum_list (map (inlined_bytes E) thins) \<and> (u1 \<le> sl_message_bytes L \<or> u1 = u0))
    \<and> list_all (fields_fit E L) thins"
  using assms(2)
proof (induction ps arbitrary: u0 thins u)
  case (Cons p ps)
  show ?case
  proof (cases "\<exists>part. p = JObj part")
    case True
    then obtain part where "p = JObj part" by blast
    then obtain thin ua rest where p: "skeleton_part E L sid (Some u0) part = Inr (thin, ua)"
      "skeleton_parts E L sid ua ps = Inr (rest, u)" "thins = thin # rest"
      using Cons.prems by (auto split: sum.splits prod.splits)
    from part_fits_part[OF assms(1) p(1)] obtain u1 where u1: "ua = Some u1" "u1 = u0 + inlined_bytes E thin"
      "u1 \<le> sl_message_bytes L \<or> u1 = u0" "fields_fit E L thin" by (auto simp: part_fits_def)
    from Cons.IH[of u1 rest u] p(2) u1(1) obtain u2 where u2: "u = Some u2" "u2 = u1 + sum_list (map (inlined_bytes E) rest)"
      "u2 \<le> sl_message_bytes L \<or> u2 = u1" "list_all (fields_fit E L) rest" by auto
    then show ?thesis using u1 p(3) by auto
  next
    case False
    then have "skeleton_parts E L sid (Some u0) (p # ps) = skeleton_parts E L sid (Some u0) ps" by (cases p) auto
    with Cons.prems have "skeleton_parts E L sid (Some u0) ps = Inr (thins, u)" by metis
    then show ?thesis by (rule Cons.IH)
  qed
qed simp

section \<open>Guarantees\<close>

text \<open>The parts of a projected message: the thin parts, or those and the placeholder.\<close>

lemma message_parts:
  assumes "skeleton_message E L fp sid m = Inr r"
  shows "\<exists>thins u mid. skeleton_parts E L sid (Some 0) (as_list (jget (as_dict m) ''parts'')) = Inr (thins, u)
    \<and> jget r ''parts'' = JArr (map JObj (if list_ex is_renderable thins then thins else thins @ [placeholder_part E mid]))
    \<and> mid = (let i = jget (as_dict (jget r ''info'')) ''id'' in if py_truthy i then i else JStr ''unknown'')"
proof -
  obtain thins u where p: "skeleton_parts E L sid (Some 0) (as_list (jget (as_dict m) ''parts'')) = Inr (thins, u)"
    using assms by (auto simp: skeleton_message_def Let_def split: sum.splits)
  then show ?thesis
    using assms by (auto simp: skeleton_message_def Let_def recompute_fingerprint_def map_sum_def as_dict_def jget_def
        split: sum.splits if_splits)
qed

text \<open>
  C10. Inlining is bounded. In every projected message the outputs and errors inlined into its tool and patch parts
  fit the message budget together and the field limit one by one, measured in the bytes they take on the wire.
\<close>

theorem inlined_within_limits:
  assumes "order_ok E" and "0 \<le> sl_message_bytes L" and "skeleton_message E L fp sid m = Inr r"
  shows "\<exists>parts. jget r ''parts'' = JArr (map JObj parts) \<and> (\<Sum>p\<leftarrow>parts. inlined_bytes E p) \<le> sl_message_bytes L
    \<and> list_all (fields_fit E L) parts"
proof -
  obtain thins u mid where p: "skeleton_parts E L sid (Some 0) (as_list (jget (as_dict m) ''parts'')) = Inr (thins, u)"
    "jget r ''parts'' = JArr (map JObj (if list_ex is_renderable thins then thins else thins @ [placeholder_part E mid]))"
    using message_parts[OF assms(3)] by blast
  have "inlined_bytes E (placeholder_part E mid) = 0" "fields_fit E L (placeholder_part E mid)"
    by (simp_all add: inlined_bytes_def fields_fit_def placeholder_part_def jget_def)
  with parts_fit[OF assms(1) p(1)] p(2) assms(2) show ?thesis
    by (intro exI[of _ "if list_ex is_renderable thins then thins else thins @ [placeholder_part E mid]"]) auto
qed

section \<open>What a thin part keeps\<close>

definition keeps_part :: "jdict \<Rightarrow> jdict \<Rightarrow> bool" where
  "keeps_part src thin \<longleftrightarrow>
     (\<forall>k \<in> {''id'', ''type'', ''messageID'', ''sessionID''}. jget thin k = jget src k)
     \<and> (jget src ''type'' = JStr ''text'' \<longrightarrow> jget thin ''text'' = jget src ''text'')"

lemma jget_pop: "jget (dict_pop k d) k' = (if k' = k then JNull else jget d k')"
  using dict_get_pop[of k d k'] by (simp add: jget_def dict_get_def)

abbreviation (input) part_id_keys :: "string set" where
  "part_id_keys \<equiv> {''id'', ''type'', ''messageID'', ''sessionID''}"

lemma emit_keeps:
  assumes "emit_expand_refs E (mark om d) cats pid sid = Inr thin" and "k \<in> {''id'', ''type'', ''messageID'', ''sessionID'', ''text''}"
  shows "jget thin k = jget d k"
  using emit_refs_keeps[OF assms(1), of k] assms(2) by auto

lemma tool_part_keeps:
  assumes o: "order_ok E" and r: "tool_part E L sid used part = Inr (thin, u)" and k: "k \<in> part_id_keys"
  shows "jget thin k = jget part k"
proof -
  obtain om cats s where e: "emit_expand_refs E (mark om (pick E TOOL_KEYS part)) cats (jget part ''id'') sid = Inr thin
      \<or> emit_expand_refs E (mark om (dict_set ''state'' s (pick E TOOL_KEYS part))) cats (jget part ''id'') sid = Inr thin"
    using r unfolding tool_part_def Let_def by (cases "jget part ''state''") (auto simp: map_sum_def split: sum.splits)
  then show ?thesis using k o emit_keeps[where k = k] by (auto simp: jget_pick)
qed

lemma patch_base_keeps: "order_ok E \<Longrightarrow> k \<in> part_id_keys \<Longrightarrow> jget (patch_base E part) k = jget part k"
  unfolding patch_base_def Let_def by (auto simp: jget_pick split: json.split option.split)

lemma patch_part_keeps:
  assumes o: "order_ok E" and r: "patch_part E L used part = (thin, u)" and k: "k \<in> part_id_keys"
  shows "jget thin k = jget part k"
proof -
  obtain b om u' where b: "patch_body E L used part = (b, om, u')" by (metis prod_cases3)
  have "jget b k = jget part k"
    using b k patch_base_keeps[OF o k] by (auto simp: patch_body_def Let_def split: json.splits)
  moreover have "jget (patch_diffstats ds b) k = jget b k" for ds using k by (auto simp: patch_diffstats_def split: option.split)
  ultimately show ?thesis using r b k by (auto simp: patch_part_def split: json.splits)
qed

lemma other_part_keeps:
  assumes o: "order_ok E"
  shows "reasoning_part E sid part = Inr thin \<Longrightarrow> k \<in> part_id_keys \<Longrightarrow> jget thin k = jget part k"
    and "file_part E sid part = Inr thin \<Longrightarrow> k \<in> part_id_keys \<Longrightarrow> jget thin k = jget part k"
    and "step_part E sid part = Inr thin \<Longrightarrow> k \<in> part_id_keys \<Longrightarrow> jget thin k = jget part k"
    and "compaction_part E sid part = Inr thin \<Longrightarrow> k \<in> part_id_keys \<Longrightarrow> jget thin k = jget part k"
proof -
  assume k: "k \<in> part_id_keys"
  show "reasoning_part E sid part = Inr thin \<Longrightarrow> jget thin k = jget part k"
    using k o emit_keeps[where k = k] by (auto simp: reasoning_part_def Let_def jget_pick split: if_splits)
  show "file_part E sid part = Inr thin \<Longrightarrow> jget thin k = jget part k"
    unfolding file_part_def Let_def using k o by (auto dest!: emit_keeps[where k = k] simp: jget_pick)
  show "step_part E sid part = Inr thin \<Longrightarrow> jget thin k = jget part k"
    unfolding step_part_def Let_def using k o by (auto dest!: emit_keeps[where k = k] simp: jget_pick)
  show "compaction_part E sid part = Inr thin \<Longrightarrow> jget thin k = jget part k"
    unfolding compaction_part_def using k o by (auto dest!: emit_keeps[where k = k] simp: jget_pick split: option.splits if_splits)
qed

lemma part_keeps:
  assumes o: "order_ok E" and r: "skeleton_part E L sid used part0 = Inr (thin, u)"
  shows "keeps_part part0 thin"
proof -
  define part where "part = dict_pop ''expandRefs'' part0"
  have src: "jget part k = jget part0 k" if "k \<noteq> ''expandRefs''" for k using that by (simp add: part_def jget_pop)
  have ids: "jget thin k = jget part k" if "k \<in> part_id_keys" for k
    using r that o unfolding skeleton_part_def Let_def part_def[symmetric] map_sum_def
    by (auto simp: jget_pick tool_part_keeps[OF o] patch_part_keeps[OF o] other_part_keeps[OF o] dest: emit_keeps[where k = k]
        split: if_splits sum.splits)
  have body: "jget thin ''text'' = jget part ''text''" if "jget part ''type'' = JStr ''text''"
    using r that o emit_keeps[where k = "''text''"] unfolding skeleton_part_def Let_def part_def[symmetric] map_sum_def
    by (auto simp: jget_pick split: sum.splits)
  show ?thesis using ids body src by (auto simp: keeps_part_def)
qed

lemma parts_keep:
  assumes "order_ok E" and "skeleton_parts E L sid used ps = Inr (thins, u)"
  shows "list_all2 keeps_part (dict_entries ps) thins"
  using assms(2)
proof (induction ps arbitrary: used thins)
  case (Cons p ps)
  show ?case
  proof (cases "\<exists>part. p = JObj part")
    case True
    then obtain part where part: "p = JObj part" by blast
    then obtain thin ua rest where p: "skeleton_part E L sid used part = Inr (thin, ua)"
      "skeleton_parts E L sid ua ps = Inr (rest, u)" "thins = thin # rest"
      using Cons.prems by (auto split: sum.splits prod.splits)
    show ?thesis using Cons.IH[OF p(2)] part_keeps[OF assms(1) p(1)] p(3) part by simp
  next
    case False
    then have "skeleton_parts E L sid used (p # ps) = skeleton_parts E L sid used ps" "dict_entries (p # ps) = dict_entries ps"
      by (cases p; simp)+
    with Cons show ?thesis by metis
  qed
qed simp

text \<open>
  C12. A projected message has something to show. Its parts are those of the source that are objects, in
  order, each with its id, type, message and session id, and with its text if it is a text part; when none of them can be
  rendered, and only then, one more part follows, the placeholder that names the message.
\<close>

theorem message_never_blank:
  assumes "order_ok E" and "skeleton_message E L fp sid m = Inr r"
  shows "\<exists>thins. list_all2 keeps_part (dict_entries (as_list (jget (as_dict m) ''parts''))) thins
    \<and> jget r ''parts'' = JArr (map JObj (if list_ex is_renderable thins then thins
        else thins @ [placeholder_part E (let i = jget (as_dict (jget r ''info'')) ''id'' in if py_truthy i then i else JStr ''unknown'')]))"
  using message_parts[OF assms(2)] parts_keep[OF assms(1)] by blast

section \<open>Whole or expandable\<close>

definition omitted_of :: "jdict \<Rightarrow> json list" where
  "omitted_of part = as_list (jget part ''omitted'')"

lemma mark_omitted:
  assumes "x \<in> set om"
  shows "jget (mark om d) ''hasFull'' = JBool True" and "JStr x \<in> set (omitted_of (mark om d))"
  using assms by (auto simp: mark_def omitted_of_def as_list_def)

lemma inline_result:
  assumes "map_of state key = Some v" and "map_of (tn_state t) key = None" and "key \<in> {''output'', ''error''}"
  shows "map_of (tn_state (maybe_inline_state_field E L state key t)) key = Some v
      \<and> tn_omitted (maybe_inline_state_field E L state key t) = tn_omitted t
    \<or> map_of (tn_state (maybe_inline_state_field E L state key t)) key = None
      \<and> tn_omitted (maybe_inline_state_field E L state key t) = tn_omitted t @ [''state.'' @ key]"
  using assms by (auto simp: maybe_inline_state_field_def Let_def)

lemma grows:
  "set (tn_omitted t) \<subseteq> set (tn_omitted (tool_inline_field E L p state key t))"
  "set (tn_cats t) \<subseteq> set (tn_cats (tool_inline_field E L p state key t))"
  "set (tn_omitted t) \<subseteq> set (tn_omitted (tool_always_omit p state key t))"
  "set (tn_cats t) \<subseteq> set (tn_cats (tool_always_omit p state key t))"
  by (auto simp: tool_inline_field_def tool_always_omit_def maybe_inline_state_field_def add_cat_def Let_def split: option.split)

definition field_kept :: "json \<Rightarrow> string \<Rightarrow> json \<Rightarrow> thin \<Rightarrow> bool" where
  "field_kept p key v t \<longleftrightarrow>
     map_of (tn_state t) key = Some v
   \<or> map_of (tn_state t) key = None \<and> (''state.'' @ key) \<in> set (tn_omitted t)
     \<and> (v \<notin> {JNull, JStr []} \<and> py_truthy p \<longrightarrow> (''part_state_'' @ key) \<in> set (tn_cats t))"

lemma field_kept_step:
  assumes "map_of state key = Some v" and "map_of (tn_state t) key = None" and "key \<in> {''output'', ''error''}"
  shows "field_kept p key v (tool_inline_field E L p state key t)"
  using inline_result[OF assms, of E L] assms(1)
  by (auto simp: field_kept_def tool_inline_field_def add_cat_def in_values_def jget_map_of Let_def)

lemma field_kept_mono:
  assumes "field_kept p key v t" and "map_of (tn_state t') key = map_of (tn_state t) key"
    and "set (tn_omitted t) \<subseteq> set (tn_omitted t')" and "set (tn_cats t) \<subseteq> set (tn_cats t')"
  shows "field_kept p key v t'"
  using assms by (auto simp: field_kept_def)

lemma field_kept_always: "field_kept p key v t \<Longrightarrow> field_kept p key v (fold (tool_always_omit p state) ks t)"
proof (induction ks arbitrary: t)
  case (Cons k ks)
  have "field_kept p key v (tool_always_omit p state k t)"
    by (rule field_kept_mono[OF Cons.prems]) (simp_all add: grows)
  with Cons.IH show ?case by simp
qed simp

lemma tool_state_kept:
  assumes o: "order_ok E" and r: "tool_state E L used part state = Inr t" and key: "key \<in> {''output'', ''error''}" and v: "map_of state key = Some v"
  shows "field_kept (jget part ''id'') key v t"
proof -
  define p where "p = jget part ''id''"
  define t1 where "t1 = tool_metadata E p state (tool_input E p state \<lparr>tn_state = tool_title E part state (pick E [''status'', ''title'', ''time''] state),
                tn_omitted = [], tn_cats = [], tn_used = used\<rparr>)"
  define t2 where "t2 = tool_inline_field E L p state ''error'' (tool_inline_field E L p state ''output'' t1)"
  define t3 where "t3 = fold (tool_always_omit p state) [''structured'', ''result'', ''raw'', ''attachments''] t2"
  have none: "map_of (tn_state t1) key = None"
    using key o by (auto simp: t1_def tool_metadata_other tool_input_other tool_title_other map_of_pick)
  have "field_kept p key v t2"
  proof (cases "key = ''output''")
    case True
    have "field_kept p key v (tool_inline_field E L p state ''output'' t1)" using field_kept_step v none True by simp
    then show ?thesis unfolding t2_def by (rule field_kept_mono) (use True in \<open>simp_all add: grows inline_other\<close>)
  next
    case False
    then show ?thesis unfolding t2_def using field_kept_step[OF v, of "tool_inline_field E L p state ''output'' t1"] none key
      by (simp add: inline_other)
  qed
  then have kept: "field_kept p key v t3" unfolding t3_def by (rule field_kept_always)
  have "\<exists>s. t = t3\<lparr>tn_state := s\<rparr> \<and> map_of s key = map_of (tn_state t3) key"
  proof (cases "\<exists>src. jget state ''metadata'' = JObj src")
    case True
    then obtain src s where "tool_diffstats part src (tn_state t3) = Inr s" "t = t3\<lparr>tn_state := s\<rparr>"
      using r by (auto simp: tool_state_def Let_def t3_def t2_def t1_def p_def map_sum_def split: sum.splits)
    then show ?thesis using key by (auto simp: tool_diffstats_other)
  next
    case False
    then have "t = t3" using r by (auto simp: tool_state_def Let_def t3_def t2_def t1_def p_def split: json.splits)
    then show ?thesis by (intro exI[of _ "tn_state t3"]) simp
  qed
  then show ?thesis using kept by (auto simp: p_def field_kept_def)
qed

lemma emit_refs_in:
  assumes "emit_expand_refs E d cats pid (Some s) = Inr d'" and "c \<in> set cats" and "s \<noteq> []"
    and "py_truthy (jget d ''messageID'')" and "py_truthy pid"
  shows "expand_ref E c (jget d ''messageID'') (Some pid) s \<in> set (as_list (jget d' ''expandRefs''))"
  using assms by (auto simp: emit_expand_refs_def as_list_def split: if_splits)

text \<open>
  C11. A field is whole or expandable, never truncated. The output or error of a tool part is in the thin part
  unchanged, or it is absent, the part says so (\<^verbatim>\<open>hasFull\<close>, and its name in \<^verbatim>\<open>omitted\<close>), and,
  when there was something in it and the ids to address it exist, an \<^verbatim>\<open>expandRefs\<close> entry leads to it.
\<close>

theorem field_whole_or_expandable:
  assumes o: "order_ok E" and ty: "jget part ''type'' = JStr ''tool''" and st: "jget part ''state'' = JObj state"
    and key: "key \<in> {''output'', ''error''}" and v: "map_of state key = Some v"
    and r: "skeleton_part E L sid used part = Inr (thin, u)"
  shows "map_of (as_dict (jget thin ''state'')) key = Some v
    \<or> map_of (as_dict (jget thin ''state'')) key = None \<and> jget thin ''hasFull'' = JBool True \<and> JStr (''state.'' @ key) \<in> set (omitted_of thin)
      \<and> (v \<notin> {JNull, JStr []} \<and> py_truthy (jget part ''id'') \<and> py_truthy (jget part ''messageID'') \<and> sid = Some s \<and> s \<noteq> [] \<longrightarrow>
           expand_ref E (''part_state_'' @ key) (jget part ''messageID'') (Some (jget part ''id'')) s \<in> set (as_list (jget thin ''expandRefs'')))"
proof -
  define q where "q = dict_pop ''expandRefs'' part"
  have q: "jget q k = jget part k" if "k \<noteq> ''expandRefs''" for k using that by (simp add: q_def jget_pop)
  have "tool_part E L sid used q = Inr (thin, u)" using r ty q by (simp add: skeleton_part_def Let_def q_def)
  then obtain t where t: "tool_state E L used q state = Inr t"
    and e: "emit_expand_refs E (mark (tn_omitted t @ other_keys (''state'' # TOOL_KEYS) q)
       (dict_set ''state'' (JObj (tn_state t)) (pick E TOOL_KEYS q))) (tn_cats t) (jget q ''id'') sid = Inr thin"
    using st q by (auto simp: tool_part_def Let_def map_sum_def split: sum.splits)
  have state: "as_dict (jget thin ''state'') = tn_state t" and mid: "jget (mark om (dict_set ''state'' x (pick E TOOL_KEYS q))) ''messageID'' = jget part ''messageID''" for om x
    using emit_refs_keeps[OF e, of "''state''"] o q by (auto simp: as_dict_def jget_pick)
  from tool_state_kept[OF o t key v] q have kept: "field_kept (jget part ''id'') key v t" by simp
  show ?thesis
  proof (cases "map_of (tn_state t) key = Some v")
    case False
    then have k: "map_of (tn_state t) key = None" "(''state.'' @ key) \<in> set (tn_omitted t @ other_keys (''state'' # TOOL_KEYS) q)"
      "v \<notin> {JNull, JStr []} \<and> py_truthy (jget part ''id'') \<longrightarrow> (''part_state_'' @ key) \<in> set (tn_cats t)"
      using kept by (auto simp: field_kept_def)
    have "jget thin ''hasFull'' = JBool True" "JStr (''state.'' @ key) \<in> set (omitted_of thin)"
      using mark_omitted[OF k(2)] emit_refs_keeps[OF e] by (simp_all add: omitted_of_def)
    moreover have "expand_ref E (''part_state_'' @ key) (jget part ''messageID'') (Some (jget part ''id'')) s \<in> set (as_list (jget thin ''expandRefs''))"
      if "v \<notin> {JNull, JStr []}" "py_truthy (jget part ''id'')" "py_truthy (jget part ''messageID'')" "sid = Some s" "s \<noteq> []"
      using emit_refs_in[OF e[unfolded that(4)], of "''part_state_'' @ key"] k(3) that q mid by simp
    ultimately show ?thesis using k(1) state by auto
  qed (simp add: state)
qed

section \<open>Failures\<close>
















section \<open>Witnesses\<close>

definition skel_demo_env :: skel_env where
  "skel_demo_env = \<lparr>se_dumps = (\<lambda>v. case v of JStr s \<Rightarrow> Some (CHR 0x22 # s @ [CHR 0x22]) | _ \<Rightarrow> Some ''null''),
     se_dumps_sorted = (\<lambda>_. Some ''{}''), se_repr = (\<lambda>_. ''{}''), se_order = rev, se_segments = (\<lambda>n. show_nat n)\<rparr>"

definition skel_demo_limits :: skel_limits where
  "skel_demo_limits = \<lparr>sl_field_bytes = 4, sl_message_bytes = 16, sl_fingerprint = False\<rparr>"

definition skel_demo_tool :: jdict where
  "skel_demo_tool = [(''id'', JStr ''p''), (''type'', JStr ''tool''), (''messageID'', JStr ''m''), (''tool'', JStr ''bash''),
     (''state'', JObj [(''output'', JStr ''long''), (''error'', JStr ''e'')])]"

definition skel_demo_message :: json where
  "skel_demo_message = JObj [(''info'', JObj [(''id'', JStr ''m'')]), (''parts'', JArr [JObj skel_demo_tool])]"

lemma skel_demo_order: "order_ok skel_demo_env"
  by (simp add: order_ok_def skel_demo_env_def)

text \<open>The error fits the limits, the output does not.\<close>

definition skel_demo_thin :: jdict where
  "skel_demo_thin = [(''tool'', JStr ''bash''), (''messageID'', JStr ''m''), (''type'', JStr ''tool''), (''id'', JStr ''p''),
     (''state'', JObj [(''outputBytes'', JInt 6), (''error'', JStr ''e'')]),
     (''hasFull'', JBool True), (''omitted'', JArr [JStr ''state.output'']),
     (''expandRefs'', JArr [JObj [(''category'', JStr ''part_state_output''), (''messageID'', JStr ''m''),
        (''href'', JStr ''/slimapi/messages/s/expand/part_state_output/m/p?v=4''), (''partID'', JStr ''p'')]])]"

lemma skel_demo_part: "skeleton_part skel_demo_env skel_demo_limits (Some ''s'') (Some 0) skel_demo_tool = Inr (skel_demo_thin, Some 3)"
  by code_simp

definition skel_demo_result :: jdict where
  "skel_demo_result = [(''info'', JObj [(''id'', JStr ''m'')]), (''parts'', JArr [JObj skel_demo_thin])]"

lemma skel_demo_projected: "skeleton_message skel_demo_env skel_demo_limits False (Some ''s'') skel_demo_message = Inr skel_demo_result"
  by code_simp

theorem inlined_within_limits_witness:
  "\<exists>parts. jget skel_demo_result ''parts'' = JArr (map JObj parts) \<and> (\<Sum>p\<leftarrow>parts. inlined_bytes skel_demo_env p) \<le> 16"
  using inlined_within_limits[OF skel_demo_order _ skel_demo_projected] by (auto simp: skel_demo_limits_def)

theorem message_never_blank_witness:
  "\<exists>thins. list_all2 keeps_part [skel_demo_tool] thins \<and> (list_ex is_renderable thins \<longrightarrow> jget skel_demo_result ''parts'' = JArr (map JObj thins))"
proof -
  have "dict_entries (as_list (jget (as_dict skel_demo_message) ''parts'')) = [skel_demo_tool]" by code_simp
  with message_never_blank[OF skel_demo_order skel_demo_projected] show ?thesis by auto
qed

theorem field_whole_or_expandable_witness:
  "jget skel_demo_thin ''hasFull'' = JBool True
   \<and> expand_ref skel_demo_env ''part_state_output'' (JStr ''m'') (Some (JStr ''p'')) ''s'' \<in> set (as_list (jget skel_demo_thin ''expandRefs''))"
proof -
  have f: "jget skel_demo_tool ''type'' = JStr ''tool''" "jget skel_demo_tool ''id'' = JStr ''p''" "jget skel_demo_tool ''messageID'' = JStr ''m''"
    "jget skel_demo_tool ''state'' = JObj [(''output'', JStr ''long''), (''error'', JStr ''e'')]"
    "map_of (as_dict (jget skel_demo_thin ''state'')) ''output'' = None" by code_simp+
  show ?thesis
    using field_whole_or_expandable[OF skel_demo_order f(1,4) _ _ skel_demo_part, of "''output''" "JStr ''long''" "''s''"] f
    by (simp add: py_truthy_def)
qed



end
