(* ===== verification/Session_Skeleton.thy ===== *)
theory Session_Skeleton
  imports Skeleton_Guarantees
begin

text \<open>
  The other projections of \<^verbatim>\<open>skeleton.py\<close>: sessions of the native API, sessions read from the database and
  the canonical form both are assembled into, command and agent catalogues. A database record is a dictionary of
  columns; a missing column is a value the source could not provide, a column that is \<open>JNull\<close> is a null
  of the business data.
\<close>

section \<open>Catalogues and plain sessions\<close>

definition on_object :: "(jdict \<Rightarrow> jdict) \<Rightarrow> jdict \<Rightarrow> string \<Rightarrow> jdict \<Rightarrow> jdict" where
  "on_object f source key result = (case jget source key of JObj d \<Rightarrow> dict_set key (JObj (f d)) result | _ \<Rightarrow> result)"

definition skeleton_session :: "skel_env \<Rightarrow> jdict \<Rightarrow> jdict" where
  "skeleton_session E session =
     on_object (pick E [''messageID'', ''partID'']) session ''revert''
       (on_object (pick E [''additions'', ''deletions'', ''files'']) session ''summary''
         (on_object (pick E [''created'', ''updated'', ''archived'']) session ''time''
           (pick E [''id'', ''directory'', ''parentID'', ''projectID'', ''title'', ''agent'', ''model''] session)))"

definition skeleton_command :: "skel_env \<Rightarrow> jdict \<Rightarrow> jdict" where
  "skeleton_command E = pick E [''name'', ''description'', ''agent'', ''hints'']"

definition skeleton_commands :: "skel_env \<Rightarrow> json list \<Rightarrow> jdict list" where
  "skeleton_commands E commands = map (skeleton_command E) (dict_entries commands)"

definition skeleton_agent :: "skel_env \<Rightarrow> jdict \<Rightarrow> jdict" where
  "skeleton_agent E = pick E [''name'', ''description'', ''mode'', ''hidden'', ''native'']"

definition skeleton_agents :: "skel_env \<Rightarrow> json list \<Rightarrow> jdict list" where
  "skeleton_agents E agents = map (skeleton_agent E) (dict_entries agents)"

section \<open>Database rows\<close>

definition canonical_number :: "json \<Rightarrow> bool" where
  "canonical_number v = (case v of JInt _ \<Rightarrow> True | JFloat _ \<Rightarrow> True | _ \<Rightarrow> False)"

definition summary_object :: "json \<Rightarrow> json \<Rightarrow> json \<Rightarrow> json" where
  "summary_object a d f = JObj [(''additions'', a), (''deletions'', d), (''files'', f)]"

definition row_to_skeleton :: "skel_env \<Rightarrow> jdict \<Rightarrow> jdict" where
  "row_to_skeleton E row =
     (let a = jget row ''summary_additions''; d = jget row ''summary_deletions''; f = jget row ''summary_files'';
          summary = (if canonical_number a \<and> canonical_number d \<and> canonical_number f then summary_object a d f else JNull)
      in [(''id'', jget row ''id''), (''directory'', jget row ''directory''), (''parentID'', jget row ''parent_id''),
          (''projectID'', jget row ''project_id''), (''title'', jget row ''title''), (''agent'', jget row ''agent''),
          (''model'', jget row ''model''),
          (''time'', JObj [(''created'', jget row ''time_created''), (''updated'', jget row ''time_updated''),
                           (''archived'', jget row ''time_archived'')]),
          (''summary'', summary),
          (''tokens_input'', jget row ''tokens_input''), (''tokens_output'', jget row ''tokens_output''),
          (''tokens_reasoning'', jget row ''tokens_reasoning''), (''tokens_cache_read'', jget row ''tokens_cache_read''),
          (''tokens_cache_write'', jget row ''tokens_cache_write'')]
         @ (case jget row ''revert'' of JObj r \<Rightarrow> [(''revert'', JObj (pick E [''messageID'', ''partID''] r))] | _ \<Rightarrow> [])
         @ [(''project'', if jget row ''p_id'' = JNull then JNull
              else JObj [(''id'', jget row ''p_id''), (''name'', jget row ''p_name''), (''worktree'', jget row ''p_worktree'')])])"

definition project_rows_to_v4_skeletons :: "skel_env \<Rightarrow> json list \<Rightarrow> jdict list" where
  "project_rows_to_v4_skeletons E rows =
     map (row_to_skeleton E) (filter (\<lambda>row. jget row ''id'' \<noteq> JNull) (dict_entries rows))"

section \<open>Native sessions as records\<close>

text \<open>The columns of a group of keys that are present, under their column names.\<close>

definition copy_columns :: "(string \<times> string) list \<Rightarrow> jdict \<Rightarrow> jdict" where
  "copy_columns names d = List.map_filter (\<lambda>(wire, column). map_option (Pair column) (map_of d wire)) names"

definition copy_object :: "string \<Rightarrow> jdict \<Rightarrow> jdict" where
  "copy_object key item =
     (case map_of item key of
        Some (JObj d) \<Rightarrow> [(key, JObj d)]
      | Some JNull \<Rightarrow> [(key, JNull)]
      | _ \<Rightarrow> [])"

definition native_time :: "json \<Rightarrow> jdict" where
  "native_time v =
     (case v of
        JObj t \<Rightarrow> copy_columns [(''created'', ''time_created''), (''updated'', ''time_updated''), (''archived'', ''time_archived'')] t
      | _ \<Rightarrow> [])"

definition native_summary :: "json option \<Rightarrow> jdict" where
  "native_summary v =
     (case v of
        Some (JObj s) \<Rightarrow>
          filter (\<lambda>p. snd p \<noteq> JNull)
            (copy_columns [(''additions'', ''summary_additions''), (''deletions'', ''summary_deletions''), (''files'', ''summary_files'')] s)
      | Some JNull \<Rightarrow> [(''summary_additions'', JNull), (''summary_deletions'', JNull), (''summary_files'', JNull)]
      | _ \<Rightarrow> [])"

definition native_tokens :: "json option \<Rightarrow> jdict" where
  "native_tokens v =
     (case v of
        Some (JObj t) \<Rightarrow>
          copy_columns [(''input'', ''tokens_input''), (''output'', ''tokens_output''), (''reasoning'', ''tokens_reasoning'')] t
          @ (case jget t ''cache'' of
               JObj c \<Rightarrow> copy_columns [(''read'', ''tokens_cache_read''), (''write'', ''tokens_cache_write'')] c
             | _ \<Rightarrow> [])
      | Some JNull \<Rightarrow> [(''tokens_input'', JNull), (''tokens_output'', JNull), (''tokens_reasoning'', JNull),
                       (''tokens_cache_read'', JNull), (''tokens_cache_write'', JNull)]
      | _ \<Rightarrow> [])"

definition native_session_to_record :: "jdict \<Rightarrow> jdict" where
  "native_session_to_record item =
     copy_columns [(''id'', ''id''), (''directory'', ''directory''), (''parentID'', ''parent_id''),
       (''projectID'', ''project_id''), (''title'', ''title''), (''agent'', ''agent'')] item
     @ copy_object ''model'' item
     @ native_time (jget item ''time'')
     @ native_summary (map_of item ''summary'')
     @ native_tokens (map_of item ''tokens'')
     @ copy_object ''revert'' item"

section \<open>The canonical projector\<close>

text \<open>A nullable column gives its value and whether the source could not provide it.\<close>

definition nullable :: "jdict \<Rightarrow> string \<Rightarrow> json \<times> bool" where
  "nullable record column = (case map_of record column of None \<Rightarrow> (JNull, True) | Some v \<Rightarrow> (v, False))"

definition nullable_if :: "(json \<Rightarrow> bool) \<Rightarrow> jdict \<Rightarrow> string \<Rightarrow> json \<times> bool" where
  "nullable_if ok record column =
     (case nullable record column of (v, p) \<Rightarrow> if v \<noteq> JNull \<and> \<not> ok v then (JNull, True) else (v, p))"

abbreviation "nullable_str \<equiv> nullable_if is_jstr"
abbreviation "nullable_number \<equiv> nullable_if canonical_number"

fun required_strings :: "jdict \<Rightarrow> string list \<Rightarrow> jdict option" where
  "required_strings source [] = Some []"
| "required_strings source (k # ks) =
     (if is_jstr (jget source k) then map_option (Cons (k, jget source k)) (required_strings source ks) else None)"

fun optional_strings :: "jdict \<Rightarrow> string list \<Rightarrow> jdict option" where
  "optional_strings source [] = Some []"
| "optional_strings source (k # ks) =
     (case map_of source k of
        None \<Rightarrow> optional_strings source ks
      | Some v \<Rightarrow> if is_jstr v then map_option (Cons (k, v)) (optional_strings source ks) else None)"

definition canonical_object_field :: "jdict \<Rightarrow> string list \<Rightarrow> string list \<Rightarrow> jdict option" where
  "canonical_object_field source required optional =
     (case required_strings source required of
        None \<Rightarrow> None
      | Some r \<Rightarrow> map_option (\<lambda>q. r @ q) (optional_strings source optional))"

definition canonical_object :: "jdict \<Rightarrow> string \<Rightarrow> string list \<Rightarrow> string list \<Rightarrow> json \<times> bool" where
  "canonical_object record column required optional =
     (case nullable record column of
        (JObj d, p) \<Rightarrow> (case canonical_object_field d required optional of None \<Rightarrow> (JNull, True) | Some q \<Rightarrow> (JObj q, p))
      | (JNull, p) \<Rightarrow> (JNull, p)
      | _ \<Rightarrow> (JNull, True))"

definition non_negative :: "json \<Rightarrow> bool" where
  "non_negative v = (case v of JInt i \<Rightarrow> 0 \<le> i | JFloat r \<Rightarrow> 0 \<le> r | _ \<Rightarrow> False)"

definition representable :: "jdict \<Rightarrow> bool" where
  "representable record \<longleftrightarrow>
     list_all (\<lambda>k. jget record k \<noteq> JNull) [''id'', ''directory'', ''title'', ''time_created'', ''time_updated'']
     \<and> is_jstr (jget record ''id'') \<and> py_truthy (jget record ''id'')
     \<and> is_jstr (jget record ''directory'') \<and> py_truthy (jget record ''directory'')
     \<and> is_jstr (jget record ''title'')
     \<and> non_negative (jget record ''time_created'') \<and> non_negative (jget record ''time_updated'')"

text \<open>The \<^verbatim>\<open>project\<close> entry for a project id that is not null: joined and consistent, or null and partial.\<close>

definition canonical_project :: "jdict \<Rightarrow> json \<Rightarrow> json \<times> bool" where
  "canonical_project record project_id =
     (let joined = jget record ''p_id''; worktree = jget record ''p_worktree''; name = jget record ''p_name''
      in if joined \<noteq> JNull \<and> joined = project_id \<and> is_jstr worktree \<and> py_truthy worktree
         then (JObj ((''id'', joined) # (if is_jstr name then [(''name'', name)] else []) @ [(''worktree'', worktree)]), False)
         else (JNull, True))"

definition canonical_summary :: "jdict \<Rightarrow> json \<times> bool" where
  "canonical_summary record =
     (case (nullable_number record ''summary_additions'', nullable_number record ''summary_deletions'', nullable_number record ''summary_files'') of
        ((a, p1), (d, p2), (f, p3)) \<Rightarrow>
          if a = JNull \<and> d = JNull \<and> f = JNull then (JNull, p1 \<or> p2 \<or> p3)
          else if a \<noteq> JNull \<and> d \<noteq> JNull \<and> f \<noteq> JNull then (summary_object a d f, p1 \<or> p2 \<or> p3)
          else (JNull, True))"

definition canonical_session_skeleton_v4 :: "jdict \<Rightarrow> bool \<Rightarrow> jdict option" where
  "canonical_session_skeleton_v4 record fallback =
     (if \<not> representable record then None
      else
        let project_id = nullable_str record ''project_id''; parent = nullable_str record ''parent_id'';
            project = (if fst project_id \<noteq> JNull then canonical_project record (fst project_id) else (JNull, False));
            agent = nullable_str record ''agent'';
            model = canonical_object record ''model'' [''id'', ''providerID''] [''variant''];
            archived = nullable_number record ''time_archived'';
            summary = canonical_summary record;
            tokens = map (\<lambda>c. (c, nullable_number record c))
              [''tokens_input'', ''tokens_output'', ''tokens_reasoning'', ''tokens_cache_read'', ''tokens_cache_write''];
            revert = canonical_object record ''revert'' [''messageID''] [''partID''];
            partial = (snd project_id \<or> snd parent \<or> snd project \<or> snd agent \<or> snd model \<or> snd archived \<or> snd summary
              \<or> list_ex (\<lambda>t. snd (snd t)) tokens \<or> snd revert)
        in Some ([(''id'', jget record ''id''), (''directory'', jget record ''directory''), (''parentID'', fst parent),
                  (''projectID'', fst project_id)]
                 @ (if fst project_id \<noteq> JNull then [(''project'', fst project)] else [])
                 @ [(''title'', jget record ''title''), (''agent'', fst agent), (''model'', fst model),
                    (''time'', JObj [(''created'', jget record ''time_created''), (''updated'', jget record ''time_updated''),
                                     (''archived'', fst archived)]),
                    (''summary'', fst summary)]
                 @ map (\<lambda>t. (fst t, fst (snd t))) tokens
                 @ [(''revert'', fst revert), (''partial'', JBool partial), (''degraded'', JBool (partial \<or> fallback))]))"

section \<open>The wire type of a session\<close>

datatype jtype =
    T_Str
  | T_Str1
  | T_Num
  | T_Nonneg
  | T_Bool
  | T_Null jtype
  | T_Obj "(string \<times> bool \<times> jtype) list"

text \<open>
  A value of an object type has every required key, and no key but those listed, each with a value of its type.
\<close>

fun has_type :: "jtype \<Rightarrow> json \<Rightarrow> bool" where
  "has_type T_Str v = is_jstr v"
| "has_type T_Str1 v = (is_jstr v \<and> v \<noteq> JStr [])"
| "has_type T_Num v = canonical_number v"
| "has_type T_Nonneg v = non_negative v"
| "has_type T_Bool v = (v = JBool True \<or> v = JBool False)"
| "has_type (T_Null t) v = (v = JNull \<or> has_type t v)"
| "has_type (T_Obj fs) v =
     (case v of
        JObj d \<Rightarrow> distinct (map fst d) \<and> set (map fst d) \<subseteq> set (map fst fs)
          \<and> (\<forall>(k, required, t) \<in> set fs. case map_of d k of None \<Rightarrow> \<not> required | Some w \<Rightarrow> has_type t w)
      | _ \<Rightarrow> False)"

definition project_type :: jtype where
  "project_type = T_Obj [(''id'', True, T_Str), (''name'', False, T_Str), (''worktree'', True, T_Str1)]"

definition model_type :: jtype where
  "model_type = T_Obj [(''id'', True, T_Str), (''providerID'', True, T_Str), (''variant'', False, T_Str)]"

definition time_type :: jtype where
  "time_type = T_Obj [(''created'', True, T_Nonneg), (''updated'', True, T_Nonneg), (''archived'', True, T_Null T_Num)]"

definition summary_type :: jtype where
  "summary_type = T_Obj [(''additions'', True, T_Num), (''deletions'', True, T_Num), (''files'', True, T_Num)]"

definition revert_type :: jtype where
  "revert_type = T_Obj [(''messageID'', True, T_Str), (''partID'', False, T_Str)]"

definition session_type :: jtype where
  "session_type = T_Obj
     [(''id'', True, T_Str1), (''directory'', True, T_Str1), (''parentID'', True, T_Null T_Str), (''projectID'', True, T_Null T_Str),
      (''project'', False, T_Null project_type), (''title'', True, T_Str), (''agent'', True, T_Null T_Str), (''model'', True, T_Null model_type),
      (''time'', True, time_type), (''summary'', True, T_Null summary_type),
      (''tokens_input'', True, T_Null T_Num), (''tokens_output'', True, T_Null T_Num), (''tokens_reasoning'', True, T_Null T_Num),
      (''tokens_cache_read'', True, T_Null T_Num), (''tokens_cache_write'', True, T_Null T_Num),
      (''revert'', True, T_Null revert_type), (''partial'', True, T_Bool), (''degraded'', True, T_Bool)]"

lemma nullable_if_type: "fst (nullable_if ok record c) = JNull \<or> ok (fst (nullable_if ok record c))"
  by (auto simp: nullable_if_def split: prod.split)

lemma required_strings_spec:
  "required_strings d ks = Some r \<Longrightarrow> map fst r = ks \<and> list_all (\<lambda>p. is_jstr (snd p)) r"
  by (induction ks arbitrary: r) (auto split: if_splits)

lemma optional_strings_spec:
  "optional_strings d ks = Some r \<Longrightarrow> distinct ks \<Longrightarrow>
    distinct (map fst r) \<and> set (map fst r) \<subseteq> set ks \<and> list_all (\<lambda>p. is_jstr (snd p)) r"
proof (induction ks arbitrary: r)
  case (Cons k ks)
  show ?case
  proof (cases "map_of d k")
    case None
    then show ?thesis using Cons by auto
  next
    case (Some v)
    then obtain q where q: "is_jstr v" "optional_strings d ks = Some q" "r = (k, v) # q"
      using Cons.prems by (auto split: if_splits)
    have "k \<notin> set (map fst q)" using Cons.IH[OF q(2)] Cons.prems(2) by auto
    then show ?thesis using Cons.IH[OF q(2)] Cons.prems(2) q by auto
  qed
qed simp

lemma canonical_object_type:
  assumes "distinct (req @ opt)"
  shows "has_type (T_Null (T_Obj (map (\<lambda>k. (k, True, T_Str)) req @ map (\<lambda>k. (k, False, T_Str)) opt))) (fst (canonical_object record c req opt))"
proof (cases "fst (canonical_object record c req opt)")
  case (JObj q)
  then obtain d r s where f: "required_strings d req = Some r" "optional_strings d opt = Some s" "q = r @ s"
    by (auto simp: canonical_object_def canonical_object_field_def split: prod.splits json.splits option.splits)
  note r = required_strings_spec[OF f(1)] and s = optional_strings_spec[OF f(2)]
  have keys: "distinct (map fst q)" "set (map fst q) \<subseteq> set (req @ opt)" "set req \<subseteq> set (map fst q)" "list_all (\<lambda>p. is_jstr (snd p)) q"
    using r s assms f(3) by auto
  have typed: "is_jstr w" if "map_of q k = Some w" for k w
    using keys(4) map_of_SomeD[OF that] by (auto simp: list_all_iff)
  have present: "map_of q k \<noteq> None" if "k \<in> set req" for k
    using keys(3) that by (auto simp: map_of_eq_None_iff)
  have fields: "case map_of q k of None \<Rightarrow> \<not> b | Some w \<Rightarrow> has_type t w"
    if "(k, b, t) \<in> set (map (\<lambda>k. (k, True, T_Str)) req @ map (\<lambda>k. (k, False, T_Str)) opt)" for k b t
    using that present[of k] typed[of k] by (auto split: option.split)
  have names: "map fst (map (\<lambda>k. (k, True, T_Str)) req @ map (\<lambda>k. (k, False, T_Str)) opt) = req @ opt" by (simp add: o_def)
  show ?thesis using keys(1,2) fields unfolding JObj has_type.simps names by auto
qed (auto simp: canonical_object_def split: prod.splits json.splits option.splits)

lemma canonical_project_type: "is_jstr pid \<Longrightarrow> has_type (T_Null project_type) (fst (canonical_project record pid))"
  by (auto simp: canonical_project_def project_type_def Let_def py_truthy_def)

lemma canonical_summary_type: "has_type (T_Null summary_type) (fst (canonical_summary record))"
  using nullable_if_type[of canonical_number "record"]
  by (auto simp: canonical_summary_def summary_type_def summary_object_def split: prod.split) (metis fst_conv)+

lemma model_field_type: "has_type (T_Null model_type) (fst (canonical_object record ''model'' [''id'', ''providerID''] [''variant'']))"
  using canonical_object_type[of "[''id'', ''providerID'']" "[''variant'']"] by (simp add: model_type_def)

lemma revert_field_type: "has_type (T_Null revert_type) (fst (canonical_object record ''revert'' [''messageID''] [''partID'']))"
  using canonical_object_type[of "[''messageID'']" "[''partID'']"] by (simp add: revert_type_def)

lemma nullable_str_type: "has_type (T_Null T_Str) (fst (nullable_str record c))"
  using nullable_if_type[of is_jstr] by simp

lemma nullable_number_type: "has_type (T_Null T_Num) (fst (nullable_number record c))"
  using nullable_if_type[of canonical_number] by simp

text \<open>The canonical object from values of the right types, with or without its \<^verbatim>\<open>project\<close> entry.\<close>

lemma session_object_type:
  assumes "has_type T_Str1 i" "has_type T_Str1 d" "has_type (T_Null T_Str) pa" "has_type (T_Null T_Str) pj"
    "pr = [] \<or> (\<exists>p. pr = [(''project'', p)] \<and> has_type (T_Null project_type) p)"
    "has_type T_Str ti" "has_type (T_Null T_Str) ag" "has_type (T_Null model_type) mo" "has_type time_type tm"
    "has_type (T_Null summary_type) su" "has_type (T_Null T_Num) t1" "has_type (T_Null T_Num) t2" "has_type (T_Null T_Num) t3"
    "has_type (T_Null T_Num) t4" "has_type (T_Null T_Num) t5" "has_type (T_Null revert_type) re"
  shows "has_type session_type (JObj ([(''id'', i), (''directory'', d), (''parentID'', pa), (''projectID'', pj)] @ pr
    @ [(''title'', ti), (''agent'', ag), (''model'', mo), (''time'', tm), (''summary'', su)]
    @ [(''tokens_input'', t1), (''tokens_output'', t2), (''tokens_reasoning'', t3), (''tokens_cache_read'', t4), (''tokens_cache_write'', t5)]
    @ [(''revert'', re), (''partial'', JBool pt), (''degraded'', JBool dg)]))"
proof -
  have "pr = [] \<or> (\<exists>p. pr = [(''project'', p)] \<and> has_type (T_Null project_type) p)" by (rule assms(5))
  then show ?thesis
  proof
    assume "pr = []"
    then show ?thesis using assms unfolding session_type_def has_type.simps(7) by simp
  next
    assume "\<exists>p. pr = [(''project'', p)] \<and> has_type (T_Null project_type) p"
    then obtain p where "pr = [(''project'', p)]" "has_type (T_Null project_type) p" by blast
    then show ?thesis using assms unfolding session_type_def has_type.simps(7) by simp
  qed
qed

text \<open>
  C15. The canonical session is well typed. From any record - database row or native session, with columns
  missing, null or of the wrong type - the projector either gives nothing or an object of the wire type: every required key,
  no other key, each value of its type, model and revert and summary whole or null.
  The \<^verbatim>\<open>project\<close> entry is there exactly for a project id that is not null, with that id when it is an object, and
  a null one makes the session partial; a session is degraded if it is partial or comes from the fallback.
\<close>

theorem session_skeleton_typed:
  assumes "canonical_session_skeleton_v4 rec fallback = Some r"
  shows "has_type session_type (JObj r)
    \<and> (map_of r ''project'' \<noteq> None \<longleftrightarrow> jget r ''projectID'' \<noteq> JNull)
    \<and> (\<forall>p. map_of r ''project'' = Some (JObj p) \<longrightarrow> jget p ''id'' = jget r ''projectID'')
    \<and> (map_of r ''project'' = Some JNull \<longrightarrow> jget r ''partial'' = JBool True)
    \<and> (jget r ''degraded'' = JBool True \<longleftrightarrow> jget r ''partial'' = JBool True \<or> fallback)"
proof -
  have rep: "representable rec" using assms by (auto simp: canonical_session_skeleton_v4_def split: if_splits)
  have req: "has_type T_Str1 (jget rec ''id'')" "has_type T_Str1 (jget rec ''directory'')" "has_type T_Str (jget rec ''title'')"
    "has_type time_type (JObj [(''created'', jget rec ''time_created''), (''updated'', jget rec ''time_updated''), (''archived'', fst (nullable_number rec ''time_archived''))])"
    using rep nullable_number_type[of "rec"] by (auto simp: representable_def time_type_def py_truthy_def)
  define pid where "pid = fst (nullable_str rec ''project_id'')"
  have pid: "pid \<noteq> JNull \<Longrightarrow> is_jstr pid" using nullable_str_type[of "rec" "''project_id''"] by (auto simp: pid_def)
  define pr where "pr = (if pid \<noteq> JNull then [(''project'', fst (canonical_project rec pid))] else [])"
  have pr: "pr = [] \<or> (\<exists>p. pr = [(''project'', p)] \<and> has_type (T_Null project_type) p)"
    using canonical_project_type[OF pid] by (auto simp: pr_def)
  have typed: "has_type session_type (JObj r)"
    using assms rep session_object_type[OF req(1,2) nullable_str_type nullable_str_type[of "rec" "''project_id''", folded pid_def]
        pr req(3) nullable_str_type model_field_type req(4) canonical_summary_type nullable_number_type nullable_number_type
        nullable_number_type nullable_number_type nullable_number_type revert_field_type]
    by (auto simp: canonical_session_skeleton_v4_def Let_def pr_def pid_def[symmetric] simp del: has_type.simps)
  have proj: "jget p ''id'' = pid" if "fst (canonical_project rec pid) = JObj p" for p
    using that by (auto simp: canonical_project_def Let_def jget_def split: if_splits)
  have null: "snd (canonical_project rec pid)" if "fst (canonical_project rec pid) = JNull"
    using that by (auto simp: canonical_project_def Let_def split: if_splits)
  show ?thesis
    using assms rep typed proj null
    by (auto simp: canonical_session_skeleton_v4_def Let_def jget_def pid_def[symmetric] simp del: has_type.simps)
qed

lemma nullable_if_exact: "\<not> snd (nullable_if ok record c) \<Longrightarrow> map_of record c = Some (fst (nullable_if ok record c))"
  by (auto simp: nullable_if_def nullable_def split: option.splits if_splits prod.splits)

lemma canonical_object_null:
  "fst (canonical_object record c req opt) = JNull \<Longrightarrow> \<not> snd (canonical_object record c req opt) \<Longrightarrow> map_of record c = Some JNull"
  by (auto simp: canonical_object_def nullable_def split: option.splits json.splits)

text \<open>
  A null is honest. In a session that is not marked partial every scalar is the value of its column, so a null is one
  the source stated; so is a null model or revert.
\<close>

theorem session_nulls_honest:
  assumes "canonical_session_skeleton_v4 rec fallback = Some r" and "jget r ''partial'' = JBool False"
  shows "list_all (\<lambda>(wire, column). map_of rec column = Some (jget r wire))
      [(''parentID'', ''parent_id''), (''projectID'', ''project_id''), (''agent'', ''agent''),
       (''tokens_input'', ''tokens_input''), (''tokens_output'', ''tokens_output''), (''tokens_reasoning'', ''tokens_reasoning''),
       (''tokens_cache_read'', ''tokens_cache_read''), (''tokens_cache_write'', ''tokens_cache_write'')]
    \<and> (jget r ''model'' = JNull \<longrightarrow> map_of rec ''model'' = Some JNull) \<and> (jget r ''revert'' = JNull \<longrightarrow> map_of rec ''revert'' = Some JNull)"
proof -
  have rep: "representable rec" using assms by (auto simp: canonical_session_skeleton_v4_def split: if_splits)
  have whole: "\<not> snd (nullable_str rec ''parent_id'')" "\<not> snd (nullable_str rec ''project_id'')" "\<not> snd (nullable_str rec ''agent'')"
    "\<not> snd (nullable_number rec ''tokens_input'')" "\<not> snd (nullable_number rec ''tokens_output'')" "\<not> snd (nullable_number rec ''tokens_reasoning'')"
    "\<not> snd (nullable_number rec ''tokens_cache_read'')" "\<not> snd (nullable_number rec ''tokens_cache_write'')"
    "\<not> snd (canonical_object rec ''model'' [''id'', ''providerID''] [''variant''])"
    "\<not> snd (canonical_object rec ''revert'' [''messageID''] [''partID''])"
    using assms rep by (simp_all add: canonical_session_skeleton_v4_def Let_def jget_def split: if_splits) force+
  have r: "jget r ''parentID'' = fst (nullable_str rec ''parent_id'')" "jget r ''projectID'' = fst (nullable_str rec ''project_id'')"
    "jget r ''agent'' = fst (nullable_str rec ''agent'')"
    "jget r ''tokens_input'' = fst (nullable_number rec ''tokens_input'')" "jget r ''tokens_output'' = fst (nullable_number rec ''tokens_output'')"
    "jget r ''tokens_reasoning'' = fst (nullable_number rec ''tokens_reasoning'')"
    "jget r ''tokens_cache_read'' = fst (nullable_number rec ''tokens_cache_read'')" "jget r ''tokens_cache_write'' = fst (nullable_number rec ''tokens_cache_write'')"
    "jget r ''model'' = fst (canonical_object rec ''model'' [''id'', ''providerID''] [''variant''])"
    "jget r ''revert'' = fst (canonical_object rec ''revert'' [''messageID''] [''partID''])"
    using assms(1) rep by (auto simp: canonical_session_skeleton_v4_def Let_def jget_def)
  show ?thesis
    using whole nullable_if_exact[of _ "rec"] canonical_object_null[of "rec"] by (simp add: r)
qed

section \<open>Stripping diagnostics\<close>

datatype jstep = Key string | Idx nat

fun jpath :: "json \<Rightarrow> jstep list \<Rightarrow> json option" where
  "jpath v [] = Some v"
| "jpath (JObj d) (Key k # p) = (case map_of d k of None \<Rightarrow> None | Some v \<Rightarrow> jpath v p)"
| "jpath (JArr xs) (Idx i # p) = (if i < length xs then jpath (xs ! i) p else None)"
| "jpath _ _ = None"

text \<open>\<open>f\<close> removes what is under the paths of \<open>T\<close> and leaves every path alone that does not lead there.\<close>

definition removes :: "(json \<Rightarrow> json) \<Rightarrow> (jstep list \<Rightarrow> bool) \<Rightarrow> bool" where
  "removes f T \<longleftrightarrow> (\<exists>q. T q) \<and> (\<forall>v p. (T p \<longrightarrow> jpath (f v) p = None) \<and> (\<not> T p \<and> \<not> (\<exists>q. T (p @ q)) \<longrightarrow> jpath (f v) p = jpath v p))"

lemma map_of_update_key: "map_of (update_key k f d) k' = (if k' = k then map_option f (map_of d k) else map_of d k')"
  by (induction d) (auto simp: update_key_def)

lemma removes_pop: "removes (on_dict (dict_pop k)) (\<lambda>p. \<exists>q. p = Key k # q)"
  unfolding removes_def
proof (intro conjI allI)
  show "\<exists>q qa. q = Key k # qa" by blast
next
  fix v p
  have pop: "map_of (dict_pop k d) k' = (if k' = k then None else map_of d k')" for d :: jdict and k'
    using dict_get_pop[of k d k'] by (simp add: dict_get_def)
  show "(\<exists>q. p = Key k # q) \<longrightarrow> jpath (on_dict (dict_pop k) v) p = None"
    using pop by (cases v) (auto simp: on_dict_def)
  show "\<not> (\<exists>q. p = Key k # q) \<and> \<not> (\<exists>q qa. p @ q = Key k # qa) \<longrightarrow> jpath (on_dict (dict_pop k) v) p = jpath v p"
  proof (cases p)
    case (Cons s q)
    then show ?thesis using pop by (cases v; cases s) (auto simp: on_dict_def)
  qed auto
qed

lemma removes_key:
  assumes "removes f T"
  shows "removes (on_dict (update_key k f)) (\<lambda>p. \<exists>q. p = Key k # q \<and> T q)"
  unfolding removes_def
proof (intro conjI allI)
  show "\<exists>q qa. q = Key k # qa \<and> T qa" using assms by (auto simp: removes_def)
next
  fix v p
  show "(\<exists>q. p = Key k # q \<and> T q) \<longrightarrow> jpath (on_dict (update_key k f) v) p = None"
    using assms by (cases v) (auto simp: on_dict_def map_of_update_key removes_def split: option.split)
  show "\<not> (\<exists>q. p = Key k # q \<and> T q) \<and> \<not> (\<exists>q qa. p @ q = Key k # qa \<and> T qa) \<longrightarrow> jpath (on_dict (update_key k f) v) p = jpath v p"
  proof (cases p)
    case Nil
    then show ?thesis using assms by (auto simp: removes_def)
  next
    case (Cons s q)
    then show ?thesis using assms by (cases v; cases s) (auto simp: on_dict_def map_of_update_key removes_def split: option.split)
  qed
qed

lemma removes_elements:
  assumes "removes f T"
  shows "removes (on_list f) (\<lambda>p. \<exists>i q. p = Idx i # q \<and> T q)"
  unfolding removes_def
proof (intro conjI allI)
  show "\<exists>q i qa. q = Idx i # qa \<and> T qa" using assms by (auto simp: removes_def)
next
  fix v p
  show "(\<exists>i q. p = Idx i # q \<and> T q) \<longrightarrow> jpath (on_list f v) p = None"
    using assms by (cases v) (auto simp: on_list_def removes_def)
  show "\<not> (\<exists>i q. p = Idx i # q \<and> T q) \<and> \<not> (\<exists>q i qa. p @ q = Idx i # qa \<and> T qa) \<longrightarrow> jpath (on_list f v) p = jpath v p"
  proof (cases p)
    case Nil
    then show ?thesis using assms by (auto simp: removes_def)
  next
    case (Cons s q)
    then show ?thesis using assms by (cases v; cases s) (auto simp: on_list_def removes_def)
  qed
qed

definition diagnostics_path :: "jstep list \<Rightarrow> bool" where
  "diagnostics_path p \<longleftrightarrow> (\<exists>i q. p = Key ''parts'' # Idx i # Key ''state'' # Key ''metadata'' # Key ''diagnostics'' # q)"

text \<open>
  C16. The full message is whole but for its diagnostics. Stripping removes the \<^verbatim>\<open>diagnostics\<close> of the state
  metadata of every part, whatever the shape of the message, and every path that does not
  lead there has the same value as before.
\<close>

theorem strip_only_diagnostics:
  "(diagnostics_path p \<longrightarrow> jpath (strip_diagnostics_message m) p = None)
   \<and> (\<not> (\<exists>q. diagnostics_path (p @ q)) \<longrightarrow> jpath (strip_diagnostics_message m) p = jpath m p)"
proof -
  have nested: "removes strip_diagnostics_message (\<lambda>p. \<exists>p1. p = Key ''parts'' # p1 \<and> (\<exists>i p2. p1 = Idx i # p2 \<and> (\<exists>p3. p2 = Key ''state'' # p3
      \<and> (\<exists>p4. p3 = Key ''metadata'' # p4 \<and> (\<exists>q. p4 = Key ''diagnostics'' # q)))))"
    unfolding strip_diagnostics_message_def strip_part_def
    by (intro removes_key removes_elements removes_pop)
  have "(\<lambda>p. \<exists>p1. p = Key ''parts'' # p1 \<and> (\<exists>i p2. p1 = Idx i # p2 \<and> (\<exists>p3. p2 = Key ''state'' # p3
      \<and> (\<exists>p4. p3 = Key ''metadata'' # p4 \<and> (\<exists>q. p4 = Key ''diagnostics'' # q))))) = diagnostics_path"
    by (auto simp: diagnostics_path_def fun_eq_iff)
  with nested have r: "removes strip_diagnostics_message diagnostics_path" by simp
  have "\<not> diagnostics_path p" if "\<not> (\<exists>q. diagnostics_path (p @ q))" using that by (metis append_Nil2)
  with r show ?thesis unfolding removes_def by blast
qed

section \<open>Concrete sessions\<close>

definition demo_record :: jdict where
  "demo_record = native_session_to_record
     [(''id'', JStr ''s''), (''directory'', JStr ''/w''), (''parentID'', JNull), (''projectID'', JStr ''p''), (''title'', JStr []),
      (''time'', JObj [(''created'', JInt 1), (''updated'', JInt 2)]), (''summary'', JNull), (''model'', JStr ''bad'')]"

definition demo_session :: jdict where
  "demo_session = the (canonical_session_skeleton_v4 demo_record True)"

lemma demo_session_some: "canonical_session_skeleton_v4 demo_record True = Some demo_session"
  by code_simp

theorem session_skeleton_typed_witness:
  "has_type session_type (JObj demo_session) \<and> map_of demo_session ''project'' \<noteq> None"
proof -
  have "jget demo_session ''projectID'' \<noteq> JNull" by code_simp
  with session_skeleton_typed[OF demo_session_some] show ?thesis by blast
qed

definition demo_whole_record :: jdict where
  "demo_whole_record = demo_record @ map (\<lambda>c. (c, JNull)) [''agent'', ''time_archived'', ''tokens_input'', ''tokens_output'', ''tokens_reasoning'',
     ''tokens_cache_read'', ''tokens_cache_write'', ''model'', ''revert''] @ [(''p_id'', JStr ''p''), (''p_worktree'', JStr ''/w'')]"

definition demo_whole_session :: jdict where
  "demo_whole_session = the (canonical_session_skeleton_v4 demo_whole_record False)"

lemma demo_whole_some: "canonical_session_skeleton_v4 demo_whole_record False = Some demo_whole_session"
  by code_simp

theorem session_nulls_honest_witness:
  "jget demo_whole_session ''partial'' = JBool False \<and> map_of demo_whole_record ''agent'' = Some (jget demo_whole_session ''agent'')"
proof -
  have "jget demo_whole_session ''partial'' = JBool False" by code_simp
  with session_nulls_honest[OF demo_whole_some this] show ?thesis by simp
qed

definition demo_full :: json where
  "demo_full = JObj [(''parts'', JArr [JObj [(''state'', JObj [(''output'', JInt 1), (''metadata'', JObj [(''diagnostics'', JInt 2)])])]])]"

theorem strip_only_diagnostics_witness:
  "jpath (strip_diagnostics_message demo_full) [Key ''parts'', Idx 0, Key ''state'', Key ''metadata'', Key ''diagnostics''] = None
   \<and> jpath (strip_diagnostics_message demo_full) [Key ''parts'', Idx 0, Key ''state'', Key ''output''] = Some (JInt 1)"
proof -
  have "jpath demo_full [Key ''parts'', Idx 0, Key ''state'', Key ''output''] = Some (JInt 1)" by code_simp
  with strip_only_diagnostics[of "[Key ''parts'', Idx 0, Key ''state'', Key ''output'']" demo_full]
    strip_only_diagnostics[of "[Key ''parts'', Idx 0, Key ''state'', Key ''metadata'', Key ''diagnostics'']" demo_full]
  show ?thesis by (simp add: diagnostics_path_def)
qed

end
